(* ===== verification/Prelude.thy ===== *)
theory Prelude
  imports Complex_Main "HOL-Library.AList" "HOL-Library.Sublist" "HOL-Library.Char_ord"
    "HOL-Library.List_Lexorder"
begin

text \<open>
  Shared vocabulary of the development: what the components use of the JavaScript
  language and its standard library, and the generic lemmas about it.

  A JavaScript string is a sequence of code units. The model's \<open>string\<close> has the code units
  0 to 255, on which \<open>toLowerCase\<close>, \<open>trim\<close>, \<open>split\<close>, \<open>join\<close> and \<open>slice\<close> are defined here as the
  language defines them. A parsed JSON-like value of unknown shape (the \<open>unknown\<close> the
  parsers of the program receive) is a \<open>json\<close>. A JavaScript \<open>Map\<close> is an association list in
  insertion order, with \<open>map_of\<close>, \<open>AList.update\<close> and \<open>AList.delete\<close>.
\<close>

named_theorems rank_simps \<open>numeric ranks of the ordered enumerations\<close>
named_theorems stage_defs \<open>the stages a decision pipeline is composed of\<close>
named_theorems store_simps \<open>what the operations of the stores do to lookups\<close>

subsection \<open>Strings\<close>

definition char_code :: "char \<Rightarrow> nat" where
  "char_code c = of_char c"

definition js_lower_char :: "char \<Rightarrow> char" where
  "js_lower_char c =
     (let n = char_code c
      in if (65 \<le> n \<and> n \<le> 90) \<or> (192 \<le> n \<and> n \<le> 222 \<and> n \<noteq> 215) then char_of (n + 32) else c)"

definition js_lower :: "string \<Rightarrow> string" where
  "js_lower s = map js_lower_char s"

definition js_space :: "char \<Rightarrow> bool" where
  "js_space c = (let n = char_code c in (9 \<le> n \<and> n \<le> 13) \<or> n = 32 \<or> n = 160)"

definition js_trim :: "string \<Rightarrow> string" where
  "js_trim s = rev (dropWhile js_space (rev (dropWhile js_space s)))"

definition js_digit :: "char \<Rightarrow> bool" where
  "js_digit c = (let n = char_code c in 48 \<le> n \<and> n \<le> 57)"

definition ascii_lower :: "char \<Rightarrow> bool" where
  "ascii_lower c = (let n = char_code c in 97 \<le> n \<and> n \<le> 122)"

definition ascii_upper :: "char \<Rightarrow> bool" where
  "ascii_upper c = (let n = char_code c in 65 \<le> n \<and> n \<le> 90)"

text \<open>\<open>s.split(c)\<close> and \<open>xs.join(sep)\<close>.\<close>

fun js_split :: "char \<Rightarrow> string \<Rightarrow> string list" where
  "js_split c [] = [[]]"
| "js_split c (x # xs) =
     (if x = c then [] # js_split c xs
      else (case js_split c xs of [] \<Rightarrow> [[x]] | l # ls \<Rightarrow> (x # l) # ls))"

fun js_join :: "string \<Rightarrow> string list \<Rightarrow> string" where
  "js_join sep [] = []"
| "js_join sep [x] = x"
| "js_join sep (x # y # ys) = x @ sep @ js_join sep (y # ys)"

text \<open>\<open>xs.slice(-n)\<close> for \<open>n > 0\<close>.\<close>

definition take_last :: "nat \<Rightarrow> 'a list \<Rightarrow> 'a list" where
  "take_last n xs = drop (length xs - n) xs"

definition digit_char :: "nat \<Rightarrow> char" where
  "digit_char d = char_of (48 + d)"

fun show_nat :: "nat \<Rightarrow> string" where
  "show_nat n = (if n < 10 then [digit_char n] else show_nat (n div 10) @ [digit_char (n mod 10)])"

declare show_nat.simps [simp del]

definition show_int :: "int \<Rightarrow> string" where
  "show_int i = (if i < 0 then CHR ''-'' # show_nat (nat (- i)) else show_nat (nat i))"

subsection \<open>Values of unknown shape\<close>

datatype js_num = Fin rat | NaN | PosInf | NegInf

datatype json =
    JUndef
  | JNull
  | JBool bool
  | JNum js_num
  | JStr string
  | JArr "json list"
  | JObj "(string \<times> json) list"

text \<open>\<open>record[key]\<close> on an object.\<close>

definition json_get :: "(string \<times> json) list \<Rightarrow> string \<Rightarrow> json" where
  "json_get kvs k = (case map_of kvs k of None \<Rightarrow> JUndef | Some v \<Rightarrow> v)"

text \<open>\<open>Number.isInteger\<close> and \<open>Number.isSafeInteger\<close> on a finite number.\<close>

definition rat_integer :: "rat \<Rightarrow> bool" where
  "rat_integer q = (of_int \<lfloor>q\<rfloor> = q)"

definition max_safe_integer :: int where
  "max_safe_integer = 9007199254740991"

definition safe_integer :: "rat \<Rightarrow> bool" where
  "safe_integer q = (rat_integer q \<and> \<bar>\<lfloor>q\<rfloor>\<bar> \<le> max_safe_integer)"

subsection \<open>Generic lemmas\<close>

lemma take_last_length: "length (take_last n xs) = min n (length xs)"
  by (simp add: take_last_def)

lemma take_last_all [simp]: "length xs \<le> n \<Longrightarrow> take_last n xs = xs"
  by (simp add: take_last_def)

lemma set_take_last: "set (take_last n xs) \<subseteq> set xs"
  by (auto simp: take_last_def dest: in_set_dropD)

lemma take_last_suffix: "suffix (take_last n xs) xs"
  by (simp add: take_last_def suffix_drop)

lemma take_last_snoc: "0 < n \<Longrightarrow> last (take_last n (xs @ [x])) = x"
  by (simp add: take_last_def)

lemma take_last_append_one: "xs \<noteq> [] \<Longrightarrow> take_last (length ys + 1) (xs @ ys) = last xs # ys"
  by (cases xs rule: rev_cases) (auto simp: take_last_def)

lemma js_split_neq_Nil [simp]: "js_split c s \<noteq> []"
  by (induction s) (auto split: list.splits)

lemma js_join_Cons: "ls \<noteq> [] \<Longrightarrow> js_join sep (l # ls) = l @ sep @ js_join sep ls"
  by (cases ls) auto

lemma js_join_Cons_char: "js_join sep ((x # l) # ls) = x # js_join sep (l # ls)"
  by (cases ls) auto

lemma js_join_split: "js_join [c] (js_split c s) = s"
proof (induction s)
  case Nil
  then show ?case by simp
next
  case (Cons x xs)
  then show ?case
    by (cases "js_split c xs") (auto simp: js_join_Cons_char)
qed

lemma js_join_append:
  "xs \<noteq> [] \<Longrightarrow> ys \<noteq> [] \<Longrightarrow> js_join sep (xs @ ys) = js_join sep xs @ sep @ js_join sep ys"
proof (induction xs)
  case Nil
  then show ?case by simp
next
  case (Cons x xs)
  then show ?case by (cases "xs = []") (auto simp: js_join_Cons)
qed

lemma js_split_no_sep: "c \<notin> set s \<Longrightarrow> js_split c s = [s]"
  by (induction s) auto

lemma js_split_parts_no_sep: "l \<in> set (js_split c s) \<Longrightarrow> c \<notin> set l"
  by (induction s arbitrary: l) (auto split: if_splits list.splits)

lemma js_split_append:
  "c \<notin> set l \<Longrightarrow> js_split c (l @ c # s) = l # js_split c s"
  by (induction l) auto

lemma js_split_append_sep: "js_split c (a @ c # b) = js_split c a @ js_split c b"
  by (induction a) (auto split: list.splits)

lemma js_split_join:
  "ls \<noteq> [] \<Longrightarrow> (\<And>l. l \<in> set ls \<Longrightarrow> c \<notin> set l) \<Longrightarrow> js_split c (js_join [c] ls) = ls"
proof (induction ls)
  case Nil
  then show ?case by simp
next
  case (Cons l ls)
  then show ?case
    by (cases ls) (auto simp: js_split_no_sep js_split_append)
qed

lemma js_lower_char_idem [simp]: "js_lower_char (js_lower_char c) = js_lower_char c"
proof -
  have "char_code c < 256"
    by (simp add: char_code_def)
  then show ?thesis
    by (auto simp: js_lower_char_def char_code_def Let_def)
qed

lemma js_lower_idem [simp]: "js_lower (js_lower s) = js_lower s"
  by (simp add: js_lower_def)

lemma js_lower_append: "js_lower (a @ b) = js_lower a @ js_lower b"
  by (simp add: js_lower_def)

lemma length_js_lower [simp]: "length (js_lower s) = length s"
  by (simp add: js_lower_def)

lemma filter_append_fresh: "distinct (map f xs) \<Longrightarrow>
    distinct (map f (filter (\<lambda>y. f y \<noteq> f x) xs @ [x]))"
  by (auto simp: distinct_map_filter)

lemma first_part_unique:
  "c \<notin> set b \<Longrightarrow> c \<notin> set b' \<Longrightarrow> b @ c # a = b' @ c # a' \<Longrightarrow> b = b' \<and> a = a'"
proof (induction b arbitrary: b')
  case Nil
  then show ?case by (cases b') auto
next
  case (Cons x b)
  then show ?case by (cases b') auto
qed

lemma last_part_unique:
  assumes "c \<notin> set b" and "c \<notin> set b'" and "a @ c # b = a' @ c # b'"
  shows "b = b'"
proof -
  have "rev b @ c # rev a = rev b' @ c # rev a'"
    using arg_cong [OF assms(3), of rev] by simp
  then have "rev b = rev b'"
    using first_part_unique [of c "rev b" "rev b'"] assms(1,2) by simp
  then show ?thesis by simp
qed

lemma Max_insert_Un:
  "finite A \<Longrightarrow> finite B \<Longrightarrow> Max (insert x (A \<union> B)) = max (Max (insert x A)) (Max (insert x (B :: 'a :: linorder set)))"
  using Max_Un [of "insert x A" "insert x B"] by (simp add: insert_commute)

lemma find_Some_in: "List.find P xs = Some x \<Longrightarrow> x \<in> set xs \<and> P x"
  by (induction xs) (auto split: if_splits)

lemma find_None_all: "List.find P xs = None \<Longrightarrow> x \<in> set xs \<Longrightarrow> \<not> P x"
  by (induction xs) (auto split: if_splits)

end
