(* ===== verification/Interfaces.thy ===== *)
theory Interfaces
  imports Prelude
begin

text \<open>
  The contracts several components share, as locales.

  \<^item> \<open>severity_scale\<close>: an enumeration with a rank and a \<open>worst\<close> operation that keeps the operand
    of higher rank (\<open>maxRisk\<close>, \<open>maxSensitivity\<close>, \<open>strictestMode\<close>).
  \<^item> \<open>kv_store\<close>: what a keyed store promises of a lookup after a set or a delete (the JavaScript
    \<open>Map\<close> and the storage areas).
  \<^item> \<open>absorbing_machine\<close>: a state machine whose terminal states have no way out.
\<close>

subsection \<open>Severity scales\<close>

locale severity_scale =
  fixes rank :: "'a \<Rightarrow> nat"
    and worst :: "'a \<Rightarrow> 'a \<Rightarrow> 'a"
  assumes rank_inj: "rank a = rank b \<Longrightarrow> a = b"
    and worst_eq: "worst a b = (if rank b \<le> rank a then a else b)"
begin

lemma rank_worst: "rank (worst a b) = max (rank a) (rank b)"
  by (simp add: worst_eq)

lemma worst_idem: "worst a a = a"
  by (simp add: worst_eq)

lemma worst_commute: "worst a b = worst b a"
  by (rule rank_inj) (simp add: rank_worst max.commute)

lemma worst_assoc: "worst (worst a b) c = worst a (worst b c)"
  by (rule rank_inj) (simp add: rank_worst max.assoc)

lemma worst_left: "rank a \<le> rank (worst a b)"
  by (simp add: rank_worst)

lemma worst_right: "rank b \<le> rank (worst a b)"
  by (simp add: rank_worst)

lemma worst_cases: "worst a b = a \<or> worst a b = b"
  by (simp add: worst_eq)

lemma worst_absorb: "rank b \<le> rank a \<Longrightarrow> worst a b = a"
  by (simp add: worst_eq)

lemma rank_foldl_worst:
  "rank (foldl (\<lambda>acc x. worst acc (f x)) a xs) = Max (insert (rank a) (rank ` f ` set xs))"
proof (induction xs arbitrary: a)
  case Nil
  then show ?case by simp
next
  case (Cons x xs)
  have "Max (insert (rank (worst a (f x))) (rank ` f ` set xs)) =
      max (max (rank a) (rank (f x))) (Max (insert (rank a) (rank ` f ` set xs)))"
    by (cases "xs = []") (auto simp: rank_worst max.assoc max.left_commute max.commute)
  also have "\<dots> = Max (insert (rank a) (rank ` f ` set (x # xs)))"
    by (cases "xs = []") (auto simp: max.assoc max.left_commute max.commute)
  finally show ?case using Cons.IH [of "worst a (f x)"] by simp
qed

lemma foldl_worst_ge: "x \<in> set xs \<Longrightarrow> rank (f x) \<le> rank (foldl (\<lambda>acc x. worst acc (f x)) a xs)"
  unfolding rank_foldl_worst by (rule Max_ge) auto

lemma foldl_worst_ge_start: "rank a \<le> rank (foldl (\<lambda>acc x. worst acc (f x)) a xs)"
  unfolding rank_foldl_worst by (rule Max_ge) auto

lemma foldl_worst_in: "foldl (\<lambda>acc x. worst acc (f x)) a xs \<in> insert a (f ` set xs)"
proof (induction xs arbitrary: a)
  case Nil
  then show ?case by simp
next
  case (Cons x xs)
  then show ?case using Cons.IH [of "worst a (f x)"] worst_cases [of a "f x"] by (auto simp del: insert_iff) (auto split: if_splits)
qed

end

subsection \<open>Keyed stores\<close>

locale kv_store =
  fixes get :: "'s \<Rightarrow> 'k \<Rightarrow> 'v option"
    and set_at :: "'k \<Rightarrow> 'v \<Rightarrow> 's \<Rightarrow> 's"
    and remove :: "'k \<Rightarrow> 's \<Rightarrow> 's"
  assumes get_set_same: "get (set_at k v s) k = Some v"
    and get_set_other: "k' \<noteq> k \<Longrightarrow> get (set_at k v s) k' = get s k'"
    and get_remove_same: "get (remove k s) k = None"
    and get_remove_other: "k' \<noteq> k \<Longrightarrow> get (remove k s) k' = get s k'"
begin

lemma get_set: "get (set_at k v s) k' = (if k' = k then Some v else get s k')"
  by (simp add: get_set_same get_set_other)

lemma get_remove: "get (remove k s) k' = (if k' = k then None else get s k')"
  by (simp add: get_remove_same get_remove_other)

lemma get_set_set: "get (set_at k v (set_at k w s)) = get (set_at k v s)"
  by (rule ext) (simp add: get_set)

lemma get_set_commute: "k \<noteq> l \<Longrightarrow> get (set_at k v (set_at l w s)) = get (set_at l w (set_at k v s))"
  by (rule ext) (simp add: get_set)

lemma get_foldr_remove: "get (foldr remove ks s) k = (if k \<in> set ks then None else get s k)"
  by (induction ks) (auto simp: get_remove)

lemma get_fold_remove: "get (fold remove ks s) k = (if k \<in> set ks then None else get s k)"
  by (induction ks arbitrary: s) (auto simp: get_remove)

end

text \<open>A JavaScript \<open>Map\<close> is a keyed store.\<close>

interpretation js_map: kv_store map_of AList.update AList.delete
  by unfold_locales (auto simp: update_conv' delete_conv')

lemmas js_map_get_set [store_simps] = js_map.get_set
lemmas js_map_get_remove [store_simps] = js_map.get_remove

lemma js_map_distinct_update: "distinct (map fst m) \<Longrightarrow> distinct (map fst (AList.update k v m))"
  by (rule distinct_update)

lemma js_map_distinct_delete: "distinct (map fst m) \<Longrightarrow> distinct (map fst (AList.delete k m))"
  by (rule distinct_delete)

lemma js_map_size_update:
  "length (AList.update k v m) = (if map_of m k = None then Suc (length m) else length m)"
  by (induction m) auto

lemma js_map_size_delete: "length (AList.delete k m) \<le> length m"
  by (rule length_delete_le)

lemma map_of_filter_distinct:
  "distinct (map fst m) \<Longrightarrow>
   map_of (filter P m) k = (case map_of m k of None \<Rightarrow> None | Some v \<Rightarrow> if P (k, v) then Some v else None)"
proof (induction m)
  case Nil
  then show ?case by simp
next
  case (Cons p m)
  then show ?case
    by (cases p) (auto split: option.splits simp: map_of_eq_None_iff dest: map_of_SomeD
        intro: rev_image_eqI)
qed

lemma distinct_fst_filter: "distinct (map fst m) \<Longrightarrow> distinct (map fst (filter P m))"
  by (rule distinct_map_filter)

subsection \<open>Machines with absorbing terminal states\<close>

locale absorbing_machine =
  fixes allowed :: "'s \<Rightarrow> 's \<Rightarrow> bool"
    and terminal :: "'s \<Rightarrow> bool"
  assumes terminal_stuck: "terminal s \<Longrightarrow> \<not> allowed s t"
begin

lemma terminal_run_fixed: "allowed\<^sup>*\<^sup>* s t \<Longrightarrow> terminal s \<Longrightarrow> t = s"
  by (induction rule: rtranclp_induct) (auto simp: terminal_stuck)

lemma run_through_nonterminal: "allowed\<^sup>*\<^sup>* s t \<Longrightarrow> allowed t u \<Longrightarrow> \<not> terminal t"
  by (auto simp: terminal_stuck)

end

end
