(* ===== verification/Origin.thy ===== *)
theory Origin
  imports Interfaces
begin

text \<open>
  \<open>src/security/origin/origin-validator.ts\<close>: the site of a hostname, the origin of a URL, which
  URLs may be automated, and how the origin before an action compares with the one after it.

  The browser's URL parser is not code of the repository: it is the parameter \<open>U\<close>, a function
  from the URL text to its parts, \<open>None\<close> where \<open>new URL\<close> throws.
\<close>

record url_parts =
  u_origin :: string
  u_protocol :: string
  u_host :: string
  u_hostname :: string
  u_pathname :: string
  u_search :: string
  u_hash :: string

type_synonym url_parser = "string \<Rightarrow> url_parts option"

record origin_info =
  oi_origin :: string
  oi_hostname :: string
  oi_protocol :: string
  oi_site :: string

definition BLOCKED_SCHEMES :: "string list" where
  "BLOCKED_SCHEMES =
     [''chrome:'', ''chrome-extension:'', ''chrome-untrusted:'', ''devtools:'', ''javascript:'',
      ''data:'', ''blob:'', ''filesystem:'', ''view-source:'', ''about:'', ''edge:'', ''brave:'',
      ''opera:'', ''file:'', ''ftp:'']"

definition BLOCKED_HOSTS :: "string list" where
  "BLOCKED_HOSTS =
     [''chrome.google.com'', ''chromewebstore.google.com'', ''addons.mozilla.org'',
      ''microsoftedge.microsoft.com'']"

definition MULTI_LABEL_SUFFIXES :: "string list" where
  "MULTI_LABEL_SUFFIXES =
     [''co.uk'', ''co.jp'', ''co.id'', ''co.in'', ''co.kr'', ''co.nz'', ''co.za'', ''com.au'',
      ''com.br'', ''com.cn'', ''com.mx'', ''com.sg'', ''com.tr'', ''ac.uk'', ''gov.uk'',
      ''org.uk'', ''net.au'', ''org.au'', ''go.id'', ''ac.id'', ''or.id'', ''github.io'',
      ''pages.dev'', ''workers.dev'', ''vercel.app'', ''netlify.app'', ''herokuapp.com'']"

text \<open>\<open>/^\d{1,3}(?:\.\d{1,3}){3}$/\<close>: four groups of one to three digits.\<close>

definition IPV4 :: "string \<Rightarrow> bool" where
  "IPV4 host =
     (let groups = js_split (CHR ''.'') host
      in length groups = 4 \<and>
         (\<forall>g \<in> set groups. 1 \<le> length g \<and> length g \<le> 3 \<and> list_all js_digit g))"

definition isLoopbackHostname :: "string \<Rightarrow> bool" where
  "isLoopbackHostname hostname =
     (hostname = ''localhost'' \<or> hostname = ''127.0.0.1'' \<or> hostname = ''[::1]'' \<or>
      hostname = ''::1'')"

text \<open>\<open>replace(/\.$/, '')\<close>.\<close>

definition strip_dot :: "string \<Rightarrow> string" where
  "strip_dot s = (if s \<noteq> [] \<and> last s = CHR ''.'' then butlast s else s)"

definition suffix_applies :: "string \<Rightarrow> string \<Rightarrow> bool" where
  "suffix_applies host suf = (host = suf \<or> suffix (''.'' @ suf) host)"

text \<open>The rest of \<open>siteOf\<close>, on the lower-cased host without its trailing dot.\<close>

definition site_of_host :: "string \<Rightarrow> string" where
  "site_of_host host =
     (if host = [] then host
      else if IPV4 host \<or> CHR '':'' \<in> set host \<or> host = ''localhost'' then host
      else
        let labels = js_split (CHR ''.'') host
        in if length labels \<le> 2 then host
           else
             (case List.find (suffix_applies host) MULTI_LABEL_SUFFIXES of
                Some suf \<Rightarrow>
                  if host = suf then host
                  else js_join ''.'' (take_last (length (js_split (CHR ''.'') suf) + 1) labels)
              | None \<Rightarrow> js_join ''.'' (take_last 2 labels)))"

definition siteOf :: "string \<Rightarrow> string" where
  "siteOf hostname = site_of_host (strip_dot (js_lower hostname))"

definition parseOrigin :: "url_parser \<Rightarrow> string \<Rightarrow> origin_info option" where
  "parseOrigin U url =
     (case U url of
        None \<Rightarrow> None
      | Some parsed \<Rightarrow>
          let hostname = js_lower (u_hostname parsed)
          in Some \<lparr>oi_origin =
                     (if u_origin parsed = ''null'' then u_protocol parsed @ ''//'' @ u_host parsed
                      else u_origin parsed),
                   oi_hostname = hostname,
                   oi_protocol = js_lower (u_protocol parsed),
                   oi_site = siteOf hostname\<rparr>)"

datatype origin_rejection = INVALID_URL | BLOCKED_SCHEME | BLOCKED_HOST | INSECURE_SCHEME

record origin_check =
  oc_allowed :: bool
  oc_info :: "origin_info option"
  oc_reason :: "origin_rejection option"
  oc_detail :: "string option"

text \<open>The option \<open>allowInsecure\<close> may be absent, which reads as false.\<close>

definition checkNavigable :: "url_parser \<Rightarrow> string \<Rightarrow> bool option \<Rightarrow> origin_check" where
  "checkNavigable U url allowInsecure =
     (case parseOrigin U url of
        None \<Rightarrow>
          \<lparr>oc_allowed = False, oc_info = None, oc_reason = Some INVALID_URL,
           oc_detail = Some ''URL could not be parsed.''\<rparr>
      | Some info \<Rightarrow>
          if oi_protocol info \<in> set BLOCKED_SCHEMES then
            \<lparr>oc_allowed = False, oc_info = Some info, oc_reason = Some BLOCKED_SCHEME,
             oc_detail = Some (''The scheme '' @ oi_protocol info @ '' is not automatable.'')\<rparr>
          else if oi_hostname info \<in> set BLOCKED_HOSTS then
            \<lparr>oc_allowed = False, oc_info = Some info, oc_reason = Some BLOCKED_HOST,
             oc_detail =
               Some (oi_hostname info @
                     '' is a browser extension gallery and cannot be automated.'')\<rparr>
          else if \<not> (oi_protocol info = ''https:'' \<or> isLoopbackHostname (oi_hostname info)) \<and>
                  allowInsecure \<noteq> Some True then
            \<lparr>oc_allowed = False, oc_info = Some info, oc_reason = Some INSECURE_SCHEME,
             oc_detail =
               Some (oi_protocol info @
                     '' pages require the \"allow insecure origins\" setting.'')\<rparr>
          else \<lparr>oc_allowed = True, oc_info = Some info, oc_reason = None, oc_detail = None\<rparr>)"

datatype origin_relation = same_origin | same_site | cross_site | unknown_relation

definition compareOrigins :: "url_parser \<Rightarrow> string \<Rightarrow> string \<Rightarrow> origin_relation" where
  "compareOrigins U before after =
     (case (parseOrigin U before, parseOrigin U after) of
        (Some a, Some b) \<Rightarrow>
          if oi_origin a = oi_origin b then same_origin
          else if oi_site a = oi_site b \<and> 0 < length (oi_site a) then same_site
          else cross_site
      | _ \<Rightarrow> unknown_relation)"

record origin_transition =
  ot_relation :: origin_relation
  ot_changed :: bool
  ot_requiresRevalidation :: bool
  ot_from :: string
  ot_to :: string

definition evaluateTransition :: "url_parser \<Rightarrow> string \<Rightarrow> string \<Rightarrow> origin_transition" where
  "evaluateTransition U frm to =
     (let relation = compareOrigins U frm to
      in \<lparr>ot_relation = relation, ot_changed = (relation \<noteq> same_origin),
          ot_requiresRevalidation = (relation \<noteq> same_origin), ot_from = frm, ot_to = to\<rparr>)"

subsection \<open>The site of a hostname\<close>

text \<open>A host the site computation returns unchanged has no trailing dot of its own.\<close>

definition undotted :: "string \<Rightarrow> bool" where
  "undotted h = (h = [] \<or> last h \<noteq> CHR ''.'')"

lemma strip_dot_undotted: "undotted h \<Longrightarrow> strip_dot h = h"
  by (auto simp: undotted_def strip_dot_def)

lemma js_join_take_last_split:
  assumes "s = js_join ''.'' ls" and "n < length ls" and "0 < n"
  shows "\<exists>p. s = p @ ''.'' @ js_join ''.'' (take_last n ls)"
proof -
  let ?front = "take (length ls - n) ls"
  have parts: "ls = ?front @ take_last n ls"
    by (simp add: take_last_def)
  have "?front \<noteq> []" and "take_last n ls \<noteq> []"
    using assms(2,3) by (auto simp: take_last_def)
  then have "js_join ''.'' (?front @ take_last n ls) =
      js_join ''.'' ?front @ ''.'' @ js_join ''.'' (take_last n ls)"
    by (rule js_join_append)
  with assms(1) parts show ?thesis by metis
qed

lemma tail_labels:
  assumes "0 < n"
  shows "js_join ''.'' (take_last n (js_split (CHR ''.'') host)) = host \<or>
         (\<exists>p. host = p @ ''.'' @ js_join ''.'' (take_last n (js_split (CHR ''.'') host)))"
proof (cases "n < length (js_split (CHR ''.'') host)")
  case True
  then show ?thesis
    using js_join_take_last_split [OF js_join_split [symmetric] True assms] by blast
next
  case False
  then show ?thesis by (simp add: js_join_split)
qed

lemma site_of_host_tail: "site_of_host host = host \<or> (\<exists>p. host = p @ ''.'' @ site_of_host host)"
proof -
  have t: "\<And>n. 0 < n \<Longrightarrow> js_join ''.'' (take_last n (js_split (CHR ''.'') host)) = host \<or>
      (\<exists>p. host = p @ ''.'' @ js_join ''.'' (take_last n (js_split (CHR ''.'') host)))"
    by (rule tail_labels)
  show ?thesis
    using t [of 2] t [of "length (js_split (CHR ''.'') (the (List.find (suffix_applies host)
        MULTI_LABEL_SUFFIXES))) + 1"]
    by (auto simp: site_of_host_def Let_def split: option.splits)
qed

lemma find_refine:
  "List.find P xs = Some x \<Longrightarrow> Q x \<Longrightarrow> (\<And>y. Q y \<Longrightarrow> P y) \<Longrightarrow> List.find Q xs = Some x"
  by (induction xs) (auto split: if_splits)

lemma split_take_last:
  "0 < n \<Longrightarrow> js_split c (js_join [c] (take_last n (js_split c s))) = take_last n (js_split c s)"
proof (rule js_split_join)
  assume "0 < n"
  moreover have "0 < length (js_split c s)"
    by simp
  ultimately have "0 < length (take_last n (js_split c s))"
    by (simp only: take_last_length min_less_iff_conj)
  then show "take_last n (js_split c s) \<noteq> []"
    by simp
next
  fix l
  assume "l \<in> set (take_last n (js_split c s))"
  then show "c \<notin> set l"
    using set_take_last js_split_parts_no_sep by (metis subsetD)
qed

lemma suffix_site:
  assumes "suffix (''.'' @ suf) host"
  shows "suffix (''.'' @ suf)
    (js_join ''.'' (take_last (length (js_split (CHR ''.'') suf) + 1) (js_split (CHR ''.'') host)))"
proof -
  obtain q where host: "host = q @ CHR ''.'' # suf"
    using assms by (auto simp: suffix_def)
  let ?ls = "js_split (CHR ''.'') suf"
  have "js_split (CHR ''.'') host = js_split (CHR ''.'') q @ ?ls"
    by (simp add: host js_split_append_sep)
  moreover have "take_last (length ?ls + 1) (js_split (CHR ''.'') q @ ?ls) =
      last (js_split (CHR ''.'') q) # ?ls"
    by (rule take_last_append_one) simp
  ultimately show ?thesis
    by (simp add: js_join_Cons js_join_split suffix_def)
qed

lemma site_of_host_idem: "site_of_host (site_of_host host) = site_of_host host"
proof (cases "site_of_host host = host")
  case True
  then show ?thesis by simp
next
  case changed: False
  let ?labels = "js_split (CHR ''.'') host"
  show ?thesis
  proof (cases "List.find (suffix_applies host) MULTI_LABEL_SUFFIXES")
    case None
    then have r: "site_of_host host = js_join ''.'' (take_last 2 ?labels)"
      using changed by (auto simp: site_of_host_def Let_def split: if_splits)
    then have "length (js_split (CHR ''.'') (site_of_host host)) \<le> 2"
      by (simp add: split_take_last take_last_length)
    then show ?thesis by (simp add: site_of_host_def [of "site_of_host host"] Let_def)
  next
    case (Some suf)
    let ?n = "length (js_split (CHR ''.'') suf) + 1"
    let ?r = "site_of_host host"
    have r: "?r = js_join ''.'' (take_last ?n ?labels)" and "host \<noteq> suf"
      using changed Some by (auto simp: site_of_host_def Let_def split: if_splits)
    then have host_suf: "suffix (''.'' @ suf) host"
      using find_Some_in [OF Some] by (simp add: suffix_applies_def)
    then have r_suf: "suffix (''.'' @ suf) ?r"
      unfolding r by (rule suffix_site)
    obtain p where "host = p @ ''.'' @ ?r"
      using site_of_host_tail [of host] changed by metis
    then have "\<And>y. suffix_applies ?r y \<Longrightarrow> suffix_applies host y"
      by (auto simp: suffix_applies_def suffix_def)
    then have found: "List.find (suffix_applies ?r) MULTI_LABEL_SUFFIXES = Some suf"
      using r_suf by (intro find_refine [OF Some]) (auto simp: suffix_applies_def)
    have labels: "js_split (CHR ''.'') ?r = take_last ?n ?labels"
      unfolding r by (simp add: split_take_last)
    then have "take_last ?n (js_split (CHR ''.'') ?r) = js_split (CHR ''.'') ?r"
      by (simp add: take_last_length)
    then have "js_join ''.'' (take_last ?n (js_split (CHR ''.'') ?r)) = ?r"
      by (simp add: js_join_split)
    then show ?thesis using found
      by (simp add: site_of_host_def [of ?r] Let_def)
  qed
qed

lemma js_lower_tail: "js_lower s = s \<Longrightarrow> s = p @ q \<Longrightarrow> js_lower q = q"
  by (auto simp: js_lower_append)

lemma js_lower_strip_dot: "js_lower s = s \<Longrightarrow> js_lower (strip_dot s) = strip_dot s"
  by (simp add: strip_dot_def js_lower_def) (metis map_butlast)

lemma siteOf_normal:
  assumes "undotted (strip_dot (js_lower h))"
  shows "strip_dot (js_lower (siteOf h)) = siteOf h"
proof -
  let ?host = "strip_dot (js_lower h)"
  have low: "js_lower ?host = ?host"
    by (rule js_lower_strip_dot) simp
  from site_of_host_tail [of ?host] obtain p where p: "?host = p @ siteOf h"
    unfolding siteOf_def by (metis append.left_neutral append_assoc)
  have "js_lower (siteOf h) = siteOf h"
    using js_lower_tail [OF low p] .
  moreover have "undotted (siteOf h)"
    using assms p by (auto simp: undotted_def)
  ultimately show ?thesis by (simp add: strip_dot_undotted)
qed

lemma siteOf_idem: "undotted (strip_dot (js_lower h)) \<Longrightarrow> siteOf (siteOf h) = siteOf h"
  using siteOf_normal [of h] by (simp add: siteOf_def site_of_host_idem)

lemma siteOf_tail:
  "siteOf hostname = strip_dot (js_lower hostname) \<or>
   (\<exists>p. strip_dot (js_lower hostname) = p @ ''.'' @ siteOf hostname)"
  unfolding siteOf_def by (rule site_of_host_tail)

subsection \<open>Navigability and transitions\<close>

lemma checkNavigable_allowed:
  "oc_allowed (checkNavigable U url insecure) \<longleftrightarrow>
   (\<exists>info. parseOrigin U url = Some info \<and> oi_protocol info \<notin> set BLOCKED_SCHEMES \<and>
      oi_hostname info \<notin> set BLOCKED_HOSTS \<and>
      (oi_protocol info = ''https:'' \<or> isLoopbackHostname (oi_hostname info) \<or>
       insecure = Some True))"
  by (auto simp: checkNavigable_def split: option.splits)

lemma checkNavigable_reason:
  "oc_allowed (checkNavigable U url insecure) \<longleftrightarrow> oc_reason (checkNavigable U url insecure) = None"
  by (auto simp: checkNavigable_def split: option.splits)

lemma compareOrigins_commute: "compareOrigins U a b = compareOrigins U b a"
  by (auto simp: compareOrigins_def split: option.splits)

lemma revalidation_iff:
  "ot_requiresRevalidation (evaluateTransition U a b) \<longleftrightarrow>
   \<not> (\<exists>ia ib. parseOrigin U a = Some ia \<and> parseOrigin U b = Some ib \<and>
        oi_origin ia = oi_origin ib)"
  by (auto simp: evaluateTransition_def compareOrigins_def Let_def split: option.splits)

subsection \<open>A concrete parser\<close>

text \<open>
  The parser the witnesses run with: \<open>https\<close> URLs only, the host up to the first slash. The
  theorems hold for every parser.
\<close>

definition https_parser :: url_parser where
  "https_parser url =
     (let host = takeWhile (\<lambda>c. c \<noteq> CHR ''/'') (drop 8 url)
      in if prefix ''https://'' url \<and> host \<noteq> [] then
           Some \<lparr>u_origin = ''https://'' @ host, u_protocol = ''https:'', u_host = host,
                 u_hostname = host, u_pathname = drop (8 + length host) url, u_search = [],
                 u_hash = []\<rparr>
         else None)"

subsection \<open>Properties\<close>

text \<open>
  The site of a hostname is the hostname itself, lower-cased and without its trailing dot, or a
  tail of it cut at a label boundary; so a grant for a site never covers a host of another domain.
  For a host without a second trailing dot the site is its own site.
\<close>

theorem siteOf_domain_tail:
  "(siteOf hostname = strip_dot (js_lower hostname) \<or>
    (\<exists>p. strip_dot (js_lower hostname) = p @ ''.'' @ siteOf hostname)) \<and>
   (undotted (strip_dot (js_lower hostname)) \<longrightarrow> siteOf (siteOf hostname) = siteOf hostname)"
  using siteOf_tail [of hostname] siteOf_idem [of hostname] by blast

theorem siteOf_domain_tail_witness:
  "siteOf (siteOf ''Shop.Example.co.uk'') = siteOf ''Shop.Example.co.uk''"
proof -
  have "undotted (strip_dot (js_lower ''Shop.Example.co.uk''))" by code_simp
  then show ?thesis using siteOf_domain_tail [of "''Shop.Example.co.uk''"] by blast
qed

text \<open>
  Two trailing dots: one is removed per computation, so the site of the site differs. \<open>upsertRule\<close>
  and \<open>removeRule\<close> compute it once more on a site that was already computed.
\<close>

lemma siteOf_two_dots:
  "siteOf ''localhost..'' = ''localhost.'' \<and> siteOf (siteOf ''localhost..'') = ''localhost''"
  by code_simp

end
