(* ===== verification/JsRegex.thy ===== *)
theory JsRegex
  imports Prelude
begin

text \<open>
  The part of JavaScript's regular expressions the program uses, with backtracking order: the
  positions a pattern can end at, in the order the matcher tries them, so that the first one is
  the match a greedy matcher reports. Captures are not modelled; nothing here reads them.
\<close>

datatype re =
    RCls "char \<Rightarrow> bool"
  | REps
  | RSeq re re
  | RAlt re re
  | RStar re
  | RLazy re
  | RBound
  | RNotBehind "char \<Rightarrow> bool"
  | RNotAhead "char \<Rightarrow> bool"

definition word_char :: "char \<Rightarrow> bool" where
  "word_char c = (ascii_lower c \<or> ascii_upper c \<or> js_digit c \<or> c = CHR ''_'')"

definition at_word :: "string \<Rightarrow> nat \<Rightarrow> bool" where
  "at_word s i = (i < length s \<and> word_char (s ! i))"

definition word_boundary :: "string \<Rightarrow> nat \<Rightarrow> bool" where
  "word_boundary s i = ((0 < i \<and> at_word s (i - 1)) \<noteq> at_word s i)"

text \<open>
  A quantifier iterates while its body makes progress; \<open>fuel\<close> bounds the iterations, and the
  length of the subject is enough because each of them advances.
\<close>

fun star_ends :: "(nat \<Rightarrow> nat list) \<Rightarrow> nat \<Rightarrow> nat \<Rightarrow> nat list" where
  "star_ends f 0 i = [i]"
| "star_ends f (Suc fuel) i =
     concat (map (star_ends f fuel) (filter (\<lambda>j. i < j) (f i))) @ [i]"

fun lazy_ends :: "(nat \<Rightarrow> nat list) \<Rightarrow> nat \<Rightarrow> nat \<Rightarrow> nat list" where
  "lazy_ends f 0 i = [i]"
| "lazy_ends f (Suc fuel) i =
     i # concat (map (lazy_ends f fuel) (filter (\<lambda>j. i < j) (f i)))"

primrec re_ends :: "re \<Rightarrow> string \<Rightarrow> nat \<Rightarrow> nat list" where
  "re_ends (RCls p) s i = (if i < length s \<and> p (s ! i) then [Suc i] else [])"
| "re_ends REps s i = [i]"
| "re_ends (RSeq a b) s i = concat (map (re_ends b s) (re_ends a s i))"
| "re_ends (RAlt a b) s i = re_ends a s i @ re_ends b s i"
| "re_ends (RStar r) s i = star_ends (re_ends r s) (length s) i"
| "re_ends (RLazy r) s i = lazy_ends (re_ends r s) (length s) i"
| "re_ends RBound s i = (if word_boundary s i then [i] else [])"
| "re_ends (RNotBehind p) s i = (if 0 < i \<and> p (s ! (i - 1)) then [] else [i])"
| "re_ends (RNotAhead p) s i = (if i < length s \<and> p (s ! i) then [] else [i])"

definition re_plus :: "re \<Rightarrow> re" where
  "re_plus r = RSeq r (RStar r)"

definition re_opt :: "re \<Rightarrow> re" where
  "re_opt r = RAlt r REps"

fun re_rep :: "nat \<Rightarrow> re \<Rightarrow> re" where
  "re_rep 0 r = REps"
| "re_rep (Suc n) r = RSeq r (re_rep n r)"

fun re_upto :: "nat \<Rightarrow> re \<Rightarrow> re" where
  "re_upto 0 r = REps"
| "re_upto (Suc n) r = RAlt (RSeq r (re_upto n r)) REps"

definition re_atleast :: "nat \<Rightarrow> re \<Rightarrow> re" where
  "re_atleast n r = RSeq (re_rep n r) (RStar r)"

definition re_range :: "nat \<Rightarrow> nat \<Rightarrow> re \<Rightarrow> re" where
  "re_range n m r = RSeq (re_rep n r) (re_upto (m - n) r)"

fun re_lit :: "string \<Rightarrow> re" where
  "re_lit [] = REps"
| "re_lit (c # cs) = RSeq (RCls (\<lambda>x. x = c)) (re_lit cs)"

text \<open>A literal under the \<open>i\<close> flag.\<close>

fun re_lit_i :: "string \<Rightarrow> re" where
  "re_lit_i [] = REps"
| "re_lit_i (c # cs) = RSeq (RCls (\<lambda>x. js_lower_char x = js_lower_char c)) (re_lit_i cs)"

fun re_alts :: "re list \<Rightarrow> re" where
  "re_alts [] = RCls (\<lambda>_. False)"
| "re_alts [r] = r"
| "re_alts (r # r' # rs) = RAlt r (re_alts (r' # rs))"

fun re_seq :: "re list \<Rightarrow> re" where
  "re_seq [] = REps"
| "re_seq (r # rs) = RSeq r (re_seq rs)"

text \<open>\<open>pattern.test(s)\<close>, and \<open>^pattern\<close>.\<close>

definition re_test :: "re \<Rightarrow> string \<Rightarrow> bool" where
  "re_test r s = list_ex (\<lambda>i. re_ends r s i \<noteq> []) [0..<Suc (length s)]"

definition re_test_start :: "re \<Rightarrow> string \<Rightarrow> bool" where
  "re_test_start r s = (re_ends r s 0 \<noteq> [])"

text \<open>\<open>s.match(pattern)\<close> with the global flag: the successive matches from the left.\<close>

fun re_matches_from :: "re \<Rightarrow> string \<Rightarrow> nat \<Rightarrow> nat \<Rightarrow> string list" where
  "re_matches_from r s 0 i = []"
| "re_matches_from r s (Suc fuel) i =
     (if length s < i then []
      else
        (case re_ends r s i of
           [] \<Rightarrow> re_matches_from r s fuel (Suc i)
         | e # _ \<Rightarrow>
             take (e - i) (drop i s) # re_matches_from r s fuel (if e = i then Suc i else e)))"

definition re_matches :: "re \<Rightarrow> string \<Rightarrow> string list" where
  "re_matches r s = re_matches_from r s (Suc (length s)) 0"

subsection \<open>Where a match can end\<close>

lemma star_ends_self: "i \<in> set (star_ends f n i)"
  by (cases n) auto

lemma star_ends_bounds:
  "(\<And>i j. j \<in> set (f i) \<Longrightarrow> i \<le> L \<Longrightarrow> j \<le> L) \<Longrightarrow> j \<in> set (star_ends f n i) \<Longrightarrow> i \<le> L \<Longrightarrow>
   i \<le> j \<and> j \<le> L"
proof (induction n arbitrary: i j)
  case 0
  then show ?case by simp
next
  case (Suc n)
  from Suc.prems(2) consider "j = i" | k where "k \<in> set (f i)" "i < k" "j \<in> set (star_ends f n k)"
    by auto
  then show ?case
  proof cases
    case 1
    with Suc.prems(3) show ?thesis by simp
  next
    case 2
    with Suc.prems(1,3) have "k \<le> L" by blast
    with 2 Suc.IH [of j k] Suc.prems(1) show ?thesis by force
  qed
qed

lemma set_lazy_ends: "set (lazy_ends f n i) = set (star_ends f n i)"
  by (induction n arbitrary: i) auto

lemma re_ends_bounds: "j \<in> set (re_ends r s i) \<Longrightarrow> i \<le> length s \<Longrightarrow> i \<le> j \<and> j \<le> length s"
proof (induction r arbitrary: i j)
  case (RSeq a b)
  then obtain k where "k \<in> set (re_ends a s i)" "j \<in> set (re_ends b s k)" by auto
  with RSeq show ?case by (meson order_trans)
next
  case (RStar r)
  then show ?case using star_ends_bounds [of "re_ends r s" "length s" j] by auto
next
  case (RLazy r)
  then show ?case using star_ends_bounds [of "re_ends r s" "length s" j] by (auto simp: set_lazy_ends)
qed (auto split: if_splits)

subsection \<open>Finding a match\<close>

lemma re_testI: "j \<in> set (re_ends r s i) \<Longrightarrow> i \<le> length s \<Longrightarrow> re_test r s"
  unfolding re_test_def list_ex_iff by (rule bexI [of _ i]) auto

lemma re_ends_seqI: "k \<in> set (re_ends a s i) \<Longrightarrow> j \<in> set (re_ends b s k) \<Longrightarrow> j \<in> set (re_ends (RSeq a b) s i)"
  by auto

lemma re_ends_lit: "i + length t \<le> length s \<Longrightarrow> take (length t) (drop i s) = t \<Longrightarrow>
    i + length t \<in> set (re_ends (re_lit t) s i)"
proof (induction t arbitrary: i)
  case Nil
  then show ?case by simp
next
  case (Cons c t)
  then have i: "i < length s" by simp
  then have "drop i s = s ! i # drop (Suc i) s" by (simp add: Cons_nth_drop_Suc)
  with Cons.prems have "s ! i = c" and "take (length t) (drop (Suc i) s) = t" by auto
  with i Cons.prems(1) Cons.IH [of "Suc i"] show ?case by auto
qed

lemma re_ends_rep_cls:
  "i + n \<le> length s \<Longrightarrow> (\<And>k. i \<le> k \<Longrightarrow> k < i + n \<Longrightarrow> p (s ! k)) \<Longrightarrow>
   i + n \<in> set (re_ends (re_rep n (RCls p)) s i)"
proof (induction n arbitrary: i)
  case 0
  then show ?case by simp
next
  case (Suc n)
  then have "i < length s" and "p (s ! i)" by auto
  with Suc.prems Suc.IH [of "Suc i"] show ?case by auto
qed

lemma re_ends_atleast_cls:
  "i + n \<le> length s \<Longrightarrow> (\<And>k. i \<le> k \<Longrightarrow> k < i + n \<Longrightarrow> p (s ! k)) \<Longrightarrow>
   i + n \<in> set (re_ends (re_atleast n (RCls p)) s i)"
  unfolding re_atleast_def
  using re_ends_rep_cls [of i n s p] star_ends_self [of "i + n" "re_ends (RCls p) s" "length s"]
  by (intro re_ends_seqI) auto

end
