(* ===== verification/Secrets.thy ===== *)
theory Secrets
  imports JsRegex
begin

text \<open>
  The credential detector: the rules and field names of \<open>src/security/redaction/secret-redactor.ts\<close>
  and \<open>matchedSecretRule\<close> of \<open>src/security/exfiltration/exfiltration-guard.ts\<close>, which the egress
  gate and the exfiltration check share.
\<close>

subsection \<open>Sensitive field names\<close>

definition SENSITIVE_FIELD_NAMES :: "string list" where
  "SENSITIVE_FIELD_NAMES =
     [''password'', ''passwd'', ''pwd'', ''secret'', ''clientsecret'', ''apikey'', ''apitoken'',
      ''accesstoken'', ''refreshtoken'', ''idtoken'', ''sessiontoken'', ''sessionid'',
      ''authtoken'', ''token'', ''credentials'', ''privatekey'', ''creditcard'', ''cardnumber'',
      ''cvv'', ''cvc'', ''ssn'', ''otp'', ''authorization'', ''cookie'']"

definition normaliseKey :: "string \<Rightarrow> string" where
  "normaliseKey key = filter (\<lambda>c. ascii_lower c \<or> js_digit c) (js_lower key)"

definition isSensitiveFieldName :: "string \<Rightarrow> bool" where
  "isSensitiveFieldName name = (normaliseKey name \<in> set (map normaliseKey SENSITIVE_FIELD_NAMES))"

subsection \<open>The rules\<close>

definition cls :: "string \<Rightarrow> char \<Rightarrow> bool" where
  "cls cs c = (c \<in> set cs)"

definition alnum :: "char \<Rightarrow> bool" where
  "alnum c = (ascii_lower c \<or> ascii_upper c \<or> js_digit c)"

definition token_char :: "char \<Rightarrow> bool" where
  "token_char c = (alnum c \<or> cls ''_-'' c)"

definition not_crlf :: "char \<Rightarrow> bool" where
  "not_crlf c = (c \<noteq> CHR 0x0D \<and> c \<noteq> CHR 0x0A)"

definition quote_char :: "char \<Rightarrow> bool" where
  "quote_char c = (c = CHR 0x22 \<or> c = CHR 0x27)"

definition spaces :: re where
  "spaces = RStar (RCls js_space)"

text \<open>\<open>(?<![0-9A-Za-z_-])(?:\d[ -]?){12,18}\d(?![0-9A-Za-z_-])\<close>\<close>

definition card_pattern :: re where
  "card_pattern =
     re_seq [RNotBehind token_char,
             re_range 12 18 (RSeq (RCls js_digit) (re_opt (RCls (cls '' -'')))),
             RCls js_digit, RNotAhead token_char]"

definition digits_of :: "string \<Rightarrow> string" where
  "digits_of candidate = filter js_digit candidate"

definition digit_range :: "string \<Rightarrow> string \<Rightarrow> re" where
  "digit_range a b = RCls (\<lambda>c. char_code (hd a) \<le> char_code c \<and> char_code c \<le> char_code (hd b))"

definition CARD_ISSUER_PREFIXES :: "re list" where
  "CARD_ISSUER_PREFIXES =
     [re_lit ''4'',
      RSeq (re_lit ''5'') (digit_range ''1'' ''5''),
      RSeq (re_lit ''2'')
        (re_alts [RSeq (re_lit ''2'') (digit_range ''2'' ''9''), digit_range ''3'' ''6'',
                  RSeq (re_lit ''7'') (RCls (cls ''01'')), re_lit ''720'']),
      RSeq (re_lit ''3'') (RCls (cls ''47'')),
      RSeq (re_lit ''3'')
        (re_alts [RSeq (re_lit ''0'') (digit_range ''0'' ''5''), re_lit ''095'',
                  RCls (cls ''689'')]),
      RSeq (re_lit ''6'')
        (re_alts [re_lit ''011'', re_lit ''5'',
                  RSeq (re_lit ''4'') (digit_range ''4'' ''9''), re_lit ''22'']),
      RSeq (re_lit ''35'')
        (re_alts [RSeq (re_lit ''2'') (RCls (cls ''89'')), digit_range ''3'' ''8'']),
      re_lit ''62'',
      re_alts [re_lit ''50'', RSeq (re_lit ''5'') (digit_range ''6'' ''9''),
               RSeq (re_lit ''6'') (RCls (cls ''07'')), re_lit ''63'']]"

definition hasIssuerPrefix :: "string \<Rightarrow> bool" where
  "hasIssuerPrefix candidate =
     list_ex (\<lambda>prefix. re_test_start prefix (digits_of candidate)) CARD_ISSUER_PREFIXES"

text \<open>The loop of \<open>isLuhnValid\<close> walks the digits from the right, doubling every second one.\<close>

fun luhn_sum :: "bool \<Rightarrow> nat list \<Rightarrow> nat" where
  "luhn_sum dbl [] = 0"
| "luhn_sum dbl (d # ds) =
     (let value = (if dbl then (if 9 < 2 * d then 2 * d - 9 else 2 * d) else d)
      in value + luhn_sum (\<not> dbl) ds)"

definition isLuhnValid :: "string \<Rightarrow> bool" where
  "isLuhnValid candidate =
     (let digits = digits_of candidate
      in if length digits < 13 \<or> 19 < length digits then False
         else luhn_sum False (rev (map (\<lambda>c. char_code c - 48) digits)) mod 10 = 0)"

record redaction_rule =
  rr_id :: string
  rr_pattern :: re
  rr_confirm :: "(string \<Rightarrow> bool) option"

definition plain_rule :: "string \<Rightarrow> re \<Rightarrow> redaction_rule" where
  "plain_rule i p = \<lparr>rr_id = i, rr_pattern = p, rr_confirm = None\<rparr>"

definition pem_pattern :: re where
  "pem_pattern =
     re_seq [re_lit ''-----BEGIN '', RStar (RCls (\<lambda>c. ascii_upper c \<or> c = CHR '' '')),
             re_lit ''PRIVATE KEY-----'', RLazy (RCls (\<lambda>_. True)), re_lit ''-----END '',
             RStar (RCls (\<lambda>c. ascii_upper c \<or> c = CHR '' '')), re_lit ''PRIVATE KEY-----'']"

definition jwt_pattern :: re where
  "jwt_pattern =
     re_seq [RBound, re_lit ''eyJ'', re_atleast 8 (RCls token_char), re_lit ''.'',
             re_atleast 8 (RCls token_char), re_lit ''.'', re_atleast 8 (RCls token_char), RBound]"

definition authorization_pattern :: re where
  "authorization_pattern =
     re_seq [RBound, re_alts [re_lit_i ''authorization'', re_lit_i ''proxy-authorization''], spaces,
             RCls (cls '':=''), spaces, re_opt (RCls quote_char),
             re_plus (RCls (\<lambda>c. not_crlf c \<and> \<not> quote_char c \<and> c \<noteq> CHR '',''))]"

definition userinfo_pattern :: re where
  "userinfo_pattern =
     re_seq [RBound, RCls (\<lambda>c. ascii_lower c \<or> ascii_upper c),
             RStar (RCls (\<lambda>c. alnum c \<or> cls ''+.-'' c)), re_lit ''://'',
             re_plus (RCls (\<lambda>c. \<not> (cls ''/:@'' c \<or> js_space c))), re_lit '':'',
             re_plus (RCls (\<lambda>c. \<not> (cls ''/@'' c \<or> js_space c))), re_lit ''@'']"

definition cookie_pattern :: re where
  "cookie_pattern =
     re_seq [RBound, re_alts [re_lit_i ''set-cookie'', re_lit_i ''cookie''], spaces,
             RCls (cls '':=''), spaces, re_plus (RCls not_crlf)]"

definition openai_pattern :: re where
  "openai_pattern =
     re_seq [RBound, re_lit ''sk-'',
             re_opt (re_alts [re_lit ''proj-'', re_lit ''svcacct-'', re_lit ''admin-'']),
             re_atleast 16 (RCls token_char)]"

definition github_pattern :: re where
  "github_pattern =
     re_seq [RBound,
             re_alts [re_lit ''ghp'', re_lit ''gho'', re_lit ''ghu'', re_lit ''ghs'',
                      re_lit ''ghr'', re_lit ''github_pat''],
             re_lit ''_'', re_atleast 20 (RCls word_char)]"

definition two_words_i :: "string \<Rightarrow> string \<Rightarrow> re" where
  "two_words_i a b = re_seq [re_lit_i a, re_opt (RCls (cls ''_.-'')), re_lit_i b]"

definition named_secret_pattern :: re where
  "named_secret_pattern =
     re_seq [RBound, RStar (RCls (\<lambda>c. word_char c \<or> cls ''.-'' c)),
             re_alts [re_lit_i ''password'', re_lit_i ''passwd'', re_lit_i ''pwd'',
                      re_lit_i ''secret'', two_words_i ''api'' ''key'', two_words_i ''api'' ''token'',
                      two_words_i ''access'' ''token'', two_words_i ''refresh'' ''token'',
                      two_words_i ''id'' ''token'', two_words_i ''session'' ''token'',
                      two_words_i ''auth'' ''token'', two_words_i ''private'' ''key''],
             RStar (RCls (\<lambda>c. word_char c \<or> cls ''.-'' c)),
             re_opt (RCls (\<lambda>c. c = CHR 0x22)), spaces, RCls (cls '':=''), spaces,
             re_alts
               [re_seq [RCls (\<lambda>c. c = CHR 0x22), RStar (RCls (\<lambda>c. not_crlf c \<and> c \<noteq> CHR 0x22)),
                        RCls (\<lambda>c. c = CHR 0x22)],
                re_seq [RCls (\<lambda>c. c = CHR 0x27), RStar (RCls (\<lambda>c. not_crlf c \<and> c \<noteq> CHR 0x27)),
                        RCls (\<lambda>c. c = CHR 0x27)],
                re_plus (RCls (\<lambda>c. \<not> (js_space c \<or> cls '',;&}'' c)))]]"

definition DEFAULT_RULES :: "redaction_rule list" where
  "DEFAULT_RULES =
     [plain_rule ''pem-private-key'' pem_pattern,
      plain_rule ''jwt'' jwt_pattern,
      plain_rule ''authorization-header-inline'' authorization_pattern,
      plain_rule ''bearer-token''
        (re_seq [RBound, re_lit_i ''Bearer'', re_plus (RCls js_space),
                 re_atleast 8 (RCls (\<lambda>c. alnum c \<or> cls ''._~+/=-'' c))]),
      plain_rule ''basic-auth''
        (re_seq [RBound, re_lit ''Basic'', re_plus (RCls js_space),
                 re_atleast 8 (RCls (\<lambda>c. alnum c \<or> cls ''+/='' c))]),
      plain_rule ''url-userinfo'' userinfo_pattern,
      plain_rule ''cookie-inline'' cookie_pattern,
      plain_rule ''openai-key'' openai_pattern,
      plain_rule ''anthropic-key''
        (re_seq [RBound, re_lit ''sk-ant-'', re_atleast 16 (RCls token_char)]),
      plain_rule ''google-api-key''
        (re_seq [RBound, re_lit ''AIza'', re_range 30 45 (RCls token_char)]),
      plain_rule ''github-token'' github_pattern,
      plain_rule ''slack-token''
        (re_seq [RBound, re_lit ''xox'', RCls (cls ''abposr''), re_lit ''-'',
                 re_atleast 10 (RCls (\<lambda>c. alnum c \<or> c = CHR ''-''))]),
      plain_rule ''aws-access-key-id''
        (re_seq [RBound, re_alts [re_lit ''AKIA'', re_lit ''ASIA''],
                 re_rep 16 (RCls (\<lambda>c. js_digit c \<or> ascii_upper c)), RBound]),
      plain_rule ''stripe-key''
        (re_seq [RBound, re_alts [re_lit ''sk'', re_lit ''rk''], re_lit ''_'',
                 re_alts [re_lit ''live'', re_lit ''test''], re_lit ''_'',
                 re_atleast 16 (RCls alnum)]),
      plain_rule ''named-secret-assignment'' named_secret_pattern,
      \<lparr>rr_id = ''credit-card'', rr_pattern = card_pattern,
       rr_confirm = Some (\<lambda>match. hasIssuerPrefix match \<and> isLuhnValid match)\<rparr>]"

subsection \<open>Scanning a payload\<close>

definition matchesWithConfirm :: "redaction_rule \<Rightarrow> string \<Rightarrow> bool" where
  "matchesWithConfirm rule txt =
     (case rr_confirm rule of
        None \<Rightarrow> False
      | Some confirm \<Rightarrow> list_ex confirm (re_matches (rr_pattern rule) txt))"

definition rule_fires :: "string \<Rightarrow> redaction_rule \<Rightarrow> bool" where
  "rule_fires payload rule =
     (re_test (rr_pattern rule) payload \<and>
      (rr_confirm rule = None \<or> matchesWithConfirm rule payload))"

definition MAX_SCAN_DEPTH :: nat where
  "MAX_SCAN_DEPTH = 8"

definition scan_text :: "string \<Rightarrow> string option" where
  "scan_text payload = map_option rr_id (List.find (rule_fires payload) DEFAULT_RULES)"

fun matchedSecretRule :: "nat \<Rightarrow> json \<Rightarrow> string option"
  and matched_items :: "nat \<Rightarrow> json list \<Rightarrow> string option"
  and matched_entries :: "nat \<Rightarrow> (string \<times> json) list \<Rightarrow> string option" where
  "matchedSecretRule depth payload =
     (if MAX_SCAN_DEPTH < depth then None
      else
        (case payload of
           JStr s \<Rightarrow> scan_text s
         | JArr items \<Rightarrow> matched_items (Suc depth) items
         | JObj entries \<Rightarrow> matched_entries (Suc depth) entries
         | _ \<Rightarrow> None))"
| "matched_items depth [] = None"
| "matched_items depth (item # items) =
     (case matchedSecretRule depth item of
        Some hit \<Rightarrow> Some hit
      | None \<Rightarrow> matched_items depth items)"
| "matched_entries depth [] = None"
| "matched_entries depth ((key, value) # entries) =
     (if isSensitiveFieldName key \<and> value \<noteq> JUndef \<and> value \<noteq> JNull \<and> value \<noteq> JStr []
      then Some (''field:'' @ key)
      else
        (case matchedSecretRule depth value of
           Some hit \<Rightarrow> Some hit
         | None \<Rightarrow> matched_entries depth entries))"

declare matchedSecretRule.simps [simp del]

definition payloadContainsSecret :: "json \<Rightarrow> bool" where
  "payloadContainsSecret payload = (matchedSecretRule 0 payload \<noteq> None)"

subsection \<open>What the scan finds\<close>

lemma scan_text_None: "scan_text s = None \<longleftrightarrow> (\<forall>rule \<in> set DEFAULT_RULES. \<not> rule_fires s rule)"
  by (auto simp: scan_text_def find_None_iff)

lemma matched_items_None:
  "matched_items depth items = None \<longleftrightarrow> (\<forall>item \<in> set items. matchedSecretRule depth item = None)"
  by (induction items) (auto split: option.splits)

lemma matched_entries_None:
  "matched_entries depth entries = None \<longleftrightarrow>
   (\<forall>e \<in> set entries.
      matchedSecretRule depth (snd e) = None \<and>
      \<not> (isSensitiveFieldName (fst e) \<and> snd e \<notin> {JUndef, JNull, JStr []}))"
proof (induction entries)
  case Nil
  then show ?case by simp
next
  case (Cons e entries)
  then show ?case
    by (cases e; cases "isSensitiveFieldName (fst e) \<and> snd e \<notin> {JUndef, JNull, JStr []}";
        cases "matchedSecretRule depth (snd e)") auto
qed

text \<open>
  \<open>nested_leaf n leaf v\<close>: the string \<open>leaf\<close> is reached from \<open>v\<close> through \<open>n\<close> arrays or objects.
\<close>

inductive nested_leaf :: "nat \<Rightarrow> string \<Rightarrow> json \<Rightarrow> bool" where
  here: "nested_leaf 0 leaf (JStr leaf)"
| item: "nested_leaf n leaf v \<Longrightarrow> v \<in> set items \<Longrightarrow> nested_leaf (Suc n) leaf (JArr items)"
| entry: "nested_leaf n leaf v \<Longrightarrow> (key, v) \<in> set entries \<Longrightarrow> nested_leaf (Suc n) leaf (JObj entries)"

lemma nested_leaf_detected:
  "nested_leaf n leaf payload \<Longrightarrow> depth + n \<le> MAX_SCAN_DEPTH \<Longrightarrow> scan_text leaf \<noteq> None \<Longrightarrow>
   matchedSecretRule depth payload \<noteq> None"
proof (induction arbitrary: depth rule: nested_leaf.induct)
  case (here leaf)
  then show ?case by (simp add: matchedSecretRule.simps)
next
  case (item n leaf v items)
  then have "matchedSecretRule (Suc depth) v \<noteq> None" by simp
  with item.hyps have "matched_items (Suc depth) items \<noteq> None"
    by (auto simp: matched_items_None)
  with item.prems show ?case by (simp add: matchedSecretRule.simps)
next
  case (entry n leaf v key entries)
  then have "matchedSecretRule (Suc depth) v \<noteq> None" by simp
  with entry.hyps have "matched_entries (Suc depth) entries \<noteq> None"
    by (metis matched_entries_None snd_conv)
  with entry.prems show ?case by (simp add: matchedSecretRule.simps)
qed

lemma rule_detected: "rule \<in> set DEFAULT_RULES \<Longrightarrow> rule_fires s rule \<Longrightarrow> scan_text s \<noteq> None"
  by (auto simp: scan_text_None)

text \<open>
  A bearer-style API key: after a boundary (the start of the text or a character outside words),
  the literal \<open>sk-\<close> and sixteen token characters fire a rule whatever follows.
\<close>

definition word_free_end :: "string \<Rightarrow> bool" where
  "word_free_end pre = (pre = [] \<or> \<not> word_char (last pre))"

lemma boundary_before_word:
  "word_free_end pre \<Longrightarrow> word_char c \<Longrightarrow> word_boundary (pre @ c # rest) (length pre)"
  by (cases pre rule: rev_cases)
    (auto simp: word_boundary_def at_word_def word_free_end_def nth_append)

lemma openai_key_fires:
  assumes "word_free_end pre" and "length key = 16" and "list_all token_char key"
  shows "rule_fires (pre @ ''sk-'' @ key @ post) (plain_rule ''openai-key'' openai_pattern)"
proof -
  let ?s = "pre @ ''sk-'' @ key @ post" and ?i = "length pre"
  have w: "word_char (CHR ''s'')" by (simp add: word_char_def ascii_lower_def char_code_def)
  have b: "?i \<in> set (re_ends RBound ?s ?i)"
    using boundary_before_word [OF assms(1) w, of "''k-'' @ key @ post"] by simp
  have "?i + length ''sk-'' \<in> set (re_ends (re_lit ''sk-'') ?s ?i)"
    by (rule re_ends_lit) simp_all
  then have l: "?i + 3 \<in> set (re_ends (re_lit ''sk-'') ?s ?i)" by (simp add: numeral_3_eq_3)
  have o: "?i + 3 \<in> set (re_ends (re_opt r) ?s (?i + 3))" for r by (simp add: re_opt_def)
  have "token_char (?s ! (?i + 3 + k))" if "k < 16" for k
    using that assms(2,3) nth_append [of "pre @ ''sk-''" "key @ post" "?i + 3 + k"]
    by (simp add: nth_append list_all_length)
  then have "token_char (?s ! k)" if "?i + 3 \<le> k" "k < ?i + 3 + 16" for k
    using that le_Suc_ex by (metis add_less_cancel_left)
  then have t: "?i + 3 + 16 \<in> set (re_ends (re_atleast 16 (RCls token_char)) ?s (?i + 3))"
    using assms(2) by (intro re_ends_atleast_cls) auto
  have "?i + 3 + 16 \<in> set (re_ends openai_pattern ?s ?i)"
    unfolding openai_pattern_def re_seq.simps
    by (intro re_ends_seqI [OF b] re_ends_seqI [OF l] re_ends_seqI [OF o] re_ends_seqI [OF t]) simp
  then have "re_test openai_pattern ?s" by (rule re_testI) simp
  then show ?thesis by (simp add: rule_fires_def plain_rule_def)
qed

lemma openai_rule_in: "plain_rule ''openai-key'' openai_pattern \<in> set DEFAULT_RULES"
  by (simp add: DEFAULT_RULES_def)

lemma key_in_payload:
  assumes "word_free_end pre" and "length key = 16" and "list_all token_char key"
    and "nested_leaf n (pre @ ''sk-'' @ key @ post) payload" and "n \<le> MAX_SCAN_DEPTH"
  shows "payloadContainsSecret payload"
  using nested_leaf_detected [OF assms(4), of 0] assms(5)
    rule_detected [OF openai_rule_in openai_key_fires [OF assms(1-3)]]
  by (simp add: payloadContainsSecret_def)

end
