(* ===== verification/Exfiltration.thy ===== *)
theory Exfiltration
  imports Origin Secrets
begin

text \<open>
  \<open>src/security/exfiltration/exfiltration-guard.ts\<close>: whether a write that leaves the browser may
  carry what the task has read.
\<close>

datatype data_sensitivity = public | internal | confidential | secret

fun SENSITIVITY_RANK :: "data_sensitivity \<Rightarrow> nat" where
  "SENSITIVITY_RANK public = 0"
| "SENSITIVITY_RANK internal = 1"
| "SENSITIVITY_RANK confidential = 2"
| "SENSITIVITY_RANK secret = 3"

fun sensitivity_name :: "data_sensitivity \<Rightarrow> string" where
  "sensitivity_name public = ''public''"
| "sensitivity_name internal = ''internal''"
| "sensitivity_name confidential = ''confidential''"
| "sensitivity_name secret = ''secret''"

definition maxSensitivity :: "data_sensitivity \<Rightarrow> data_sensitivity \<Rightarrow> data_sensitivity" where
  "maxSensitivity a b = (if SENSITIVITY_RANK a \<ge> SENSITIVITY_RANK b then a else b)"

record taint_source =
  ts_sourceType :: string
  ts_site :: "string option"
  ts_sensitivity :: data_sensitivity

datatype exfiltration_verdict = xf_allow | xf_confirm | xf_block

record exfiltration_decision =
  xd_verdict :: exfiltration_verdict
  xd_reason :: string
  xd_sensitivity :: data_sensitivity
  xd_destinationSite :: "string option"
  xd_matchedSources :: "string list"

definition host_shaped :: "string \<Rightarrow> bool" where
  "host_shaped s = (s \<noteq> [] \<and> list_all (\<lambda>c. ascii_lower c \<or> js_digit c \<or> c = CHR ''.'' \<or> c = CHR ''-'') s)"

definition destinationSiteOf :: "url_parser \<Rightarrow> string \<Rightarrow> string option" where
  "destinationSiteOf U destination =
     (case parseOrigin U destination of
        Some info \<Rightarrow> Some (oi_site info)
      | None \<Rightarrow>
          let trimmed = js_lower (js_trim destination)
          in if trimmed = [] then None
             else if host_shaped trimmed then Some (siteOf trimmed) else None)"

text \<open>An absent or empty site is falsy, so the comparison needs both sites to be non-empty.\<close>

definition present :: "string option \<Rightarrow> bool" where
  "present s = (s \<noteq> None \<and> s \<noteq> Some [])"

definition foreign_source :: "string option \<Rightarrow> taint_source \<Rightarrow> bool" where
  "foreign_source destinationSite source =
     (if SENSITIVITY_RANK (ts_sensitivity source) < SENSITIVITY_RANK internal then False
      else if \<not> present (ts_site source) \<or> \<not> present destinationSite then True
      else ts_site source \<noteq> destinationSite)"

definition worst_sensitivity :: "taint_source list \<Rightarrow> data_sensitivity" where
  "worst_sensitivity sources =
     foldl (\<lambda>acc source. maxSensitivity acc (ts_sensitivity source)) public sources"

definition evaluateExfiltration ::
  "url_parser \<Rightarrow> string \<Rightarrow> json \<Rightarrow> taint_source list \<Rightarrow> exfiltration_decision" where
  "evaluateExfiltration U destination payload taint =
     (let destinationSite = destinationSiteOf U destination;
          sensitivity = worst_sensitivity taint
      in if payloadContainsSecret payload then
           \<lparr>xd_verdict = xf_block,
            xd_reason = ''The payload contains credential-shaped data. Sending secrets to any destination is prohibited.'',
            xd_sensitivity = secret, xd_destinationSite = destinationSite, xd_matchedSources = []\<rparr>
         else
           let foreignSources = filter (foreign_source destinationSite) taint
           in if foreignSources = [] then
                \<lparr>xd_verdict = xf_allow,
                 xd_reason = ''No private data from a different source is involved in this write.'',
                 xd_sensitivity = sensitivity, xd_destinationSite = destinationSite,
                 xd_matchedSources = []\<rparr>
              else
                let matchedSources = map ts_sourceType foreignSources;
                    highest = worst_sensitivity foreignSources
                in \<lparr>xd_verdict = xf_confirm,
                    xd_reason =
                      ''This task has read '' @ sensitivity_name highest @ '' data from '' @
                      js_join '', '' matchedSources @ '' and is about to send it to '' @
                      (case destinationSite of None \<Rightarrow> ''an unrecognised destination''
                         | Some site \<Rightarrow> site) @
                      ''. Explicit approval is required.'',
                    xd_sensitivity = sensitivity, xd_destinationSite = destinationSite,
                    xd_matchedSources = matchedSources\<rparr>)"

subsection \<open>The sensitivity scale\<close>

lemma SENSITIVITY_RANK_inj: "SENSITIVITY_RANK a = SENSITIVITY_RANK b \<Longrightarrow> a = b"
  by (cases a; cases b) simp_all

interpretation sensitivity: severity_scale SENSITIVITY_RANK maxSensitivity
  by unfold_locales (auto simp: maxSensitivity_def intro: SENSITIVITY_RANK_inj)

instantiation data_sensitivity :: linorder
begin

definition less_eq_data_sensitivity :: "data_sensitivity \<Rightarrow> data_sensitivity \<Rightarrow> bool" where
  "less_eq_data_sensitivity a b = (SENSITIVITY_RANK a \<le> SENSITIVITY_RANK b)"

definition less_data_sensitivity :: "data_sensitivity \<Rightarrow> data_sensitivity \<Rightarrow> bool" where
  "less_data_sensitivity a b = (SENSITIVITY_RANK a < SENSITIVITY_RANK b)"

instance
  by standard
    (auto simp: less_eq_data_sensitivity_def less_data_sensitivity_def intro: SENSITIVITY_RANK_inj)

end

lemma worst_sensitivity_ge: "source \<in> set sources \<Longrightarrow> ts_sensitivity source \<le> worst_sensitivity sources"
  unfolding worst_sensitivity_def less_eq_data_sensitivity_def by (rule sensitivity.foldl_worst_ge)

lemma worst_sensitivity_rank:
  "SENSITIVITY_RANK (worst_sensitivity sources) =
   Max (insert 0 (SENSITIVITY_RANK ` ts_sensitivity ` set sources))"
  unfolding worst_sensitivity_def by (simp add: sensitivity.rank_foldl_worst)

lemma worst_sensitivity_mono:
  "ts_sensitivity ` set xs \<subseteq> ts_sensitivity ` set ys \<Longrightarrow> worst_sensitivity xs \<le> worst_sensitivity ys"
  unfolding less_eq_data_sensitivity_def worst_sensitivity_rank by (rule Max_mono) auto

lemma worst_sensitivity_cong:
  "ts_sensitivity ` set xs = ts_sensitivity ` set ys \<Longrightarrow> worst_sensitivity xs = worst_sensitivity ys"
  by (rule SENSITIVITY_RANK_inj) (simp add: worst_sensitivity_rank)

lemma sensitivity_name_inj: "sensitivity_name a = sensitivity_name b \<Longrightarrow> a = b"
  by (cases a; cases b) simp_all

subsection \<open>The verdict\<close>

lemma exfiltration_block_iff:
  "xd_verdict (evaluateExfiltration U d p taint) = xf_block \<longleftrightarrow> payloadContainsSecret p"
  by (simp add: evaluateExfiltration_def Let_def)

lemma exfiltration_allow_iff:
  "xd_verdict (evaluateExfiltration U d p taint) = xf_allow \<longleftrightarrow>
   \<not> payloadContainsSecret p \<and> (\<forall>s \<in> set taint. \<not> foreign_source (destinationSiteOf U d) s)"
  by (auto simp: evaluateExfiltration_def Let_def filter_empty_conv)

lemma exfiltration_confirm_iff:
  "xd_verdict (evaluateExfiltration U d p taint) = xf_confirm \<longleftrightarrow>
   \<not> payloadContainsSecret p \<and> (\<exists>s \<in> set taint. foreign_source (destinationSiteOf U d) s)"
  by (auto simp: evaluateExfiltration_def Let_def filter_empty_conv)

lemma not_foreign_iff:
  "\<not> foreign_source dest s \<longleftrightarrow>
   ts_sensitivity s = public \<or> (ts_site s = dest \<and> present dest)"
  by (cases "ts_sensitivity s") (auto simp: foreign_source_def present_def)

fun verdict_rank :: "exfiltration_verdict \<Rightarrow> nat" where
  "verdict_rank xf_allow = 0"
| "verdict_rank xf_confirm = 1"
| "verdict_rank xf_block = 2"

lemma exfiltration_mono:
  assumes "set taint \<subseteq> set taint'"
  shows "verdict_rank (xd_verdict (evaluateExfiltration U d p taint)) \<le>
    verdict_rank (xd_verdict (evaluateExfiltration U d p taint'))"
  using assms by (auto simp: evaluateExfiltration_def Let_def filter_empty_conv)

subsection \<open>Properties\<close>

text \<open>
  The guard's three verdicts, exactly: a payload with a secret is blocked for every destination
  and every taint; otherwise the write is a question when a source above public has no site, or
  the destination none, or the sites differ, and it is allowed when no source is of that kind.
\<close>

theorem exfiltration_verdict_exact:
  "xd_verdict (evaluateExfiltration U d p taint) =
     (if payloadContainsSecret p then xf_block
      else if \<exists>s \<in> set taint. internal \<le> ts_sensitivity s \<and>
        \<not> (ts_site s = destinationSiteOf U d \<and> ts_site s \<notin> {None, Some []}) then xf_confirm
      else xf_allow)"
proof -
  have "(\<exists>s \<in> set taint. foreign_source (destinationSiteOf U d) s) \<longleftrightarrow>
      (\<exists>s \<in> set taint. internal \<le> ts_sensitivity s \<and>
        \<not> (ts_site s = destinationSiteOf U d \<and> ts_site s \<notin> {None, Some []}))"
    by (intro bex_cong refl) (auto simp: foreign_source_def present_def less_eq_data_sensitivity_def)
  then show ?thesis
    using exfiltration_block_iff [of U d p taint] exfiltration_confirm_iff [of U d p taint]
      exfiltration_allow_iff [of U d p taint]
    by (cases "xd_verdict (evaluateExfiltration U d p taint)") auto
qed

text \<open>
  A key in the payload is never allowed out, however it is wrapped: reached through at most
  eight arrays and objects, with text around it, it blocks the write to every destination.
\<close>

theorem nested_key_blocked:
  assumes "word_free_end pre" and "length key = 16" and "list_all token_char key"
    and "nested_leaf n (pre @ ''sk-'' @ key @ post) payload" and "n \<le> MAX_SCAN_DEPTH"
  shows "xd_verdict (evaluateExfiltration U dest payload taint) = xf_block"
  using key_in_payload [OF assms] by (simp add: exfiltration_block_iff)

theorem nested_key_blocked_witness:
  "xd_verdict (evaluateExfiltration https_parser ''https://a.test/''
     (JObj [(''note'', JArr [JNull, JStr ''key: sk-abcdefghijklmnop.''])]) []) = xf_block"
proof (rule nested_key_blocked [of "''key: ''" "''abcdefghijklmnop''" 2 "''.''"])
  show "word_free_end ''key: ''" by code_simp
  show "list_all token_char ''abcdefghijklmnop''" by code_simp
  show "nested_leaf 2 (''key: '' @ ''sk-'' @ ''abcdefghijklmnop'' @ ''.'')
      (JObj [(''note'', JArr [JNull, JStr ''key: sk-abcdefghijklmnop.''])])"
    unfolding numeral_2_eq_2
    by (rule nested_leaf.entry [of _ _ "JArr [JNull, JStr ''key: sk-abcdefghijklmnop.'']" "''note''"],
        rule nested_leaf.item [of _ _ "JStr ''key: sk-abcdefghijklmnop.''"])
      (simp_all add: nested_leaf.here)
qed (simp_all add: MAX_SCAN_DEPTH_def)

end
