(* ===== verification/Taint.thy ===== *)
theory Taint
  imports Exfiltration
begin

text \<open>
  \<open>src/security/taint/taint-state.ts\<close>: what a task is known to have read, how it is extended,
  read back from storage, and put into the canonical form consent is keyed by.

  Unicode normalisation (NFC) is the identity on the code units of the model's strings.
\<close>

datatype unknown_reason = field_absent | legacy_record | malformed | persistence_failed

datatype taint_state =
    KNOWN_UNTAINTED
  | TAINTED "taint_source list"
  | UNKNOWN unknown_reason

definition freshTaint :: taint_state where
  "freshTaint = KNOWN_UNTAINTED"

definition unknownTaint :: "unknown_reason \<Rightarrow> taint_state" where
  "unknownTaint reason = UNKNOWN reason"

definition taintSources :: "taint_state \<Rightarrow> taint_source list" where
  "taintSources state = (case state of TAINTED sources \<Rightarrow> sources | _ \<Rightarrow> [])"

definition opt_string :: "string option \<Rightarrow> string" where
  "opt_string s = (case s of None \<Rightarrow> [] | Some t \<Rightarrow> t)"

definition sourceIdentity :: "taint_source \<Rightarrow> string" where
  "sourceIdentity source =
     ts_sourceType source @ [CHR 0x00] @ opt_string (ts_site source) @ [CHR 0x00] @
     sensitivity_name (ts_sensitivity source)"

text \<open>The loop of \<open>addTaint\<close>: \<open>merged\<close> grows by the sources whose identity was not seen.\<close>

fun merge_sources :: "string list \<Rightarrow> taint_source list \<Rightarrow> taint_source list \<Rightarrow> taint_source list" where
  "merge_sources seen merged [] = merged"
| "merge_sources seen merged (source # sources) =
     (let identity = sourceIdentity source
      in if identity \<in> set seen then merge_sources seen merged sources
         else merge_sources (identity # seen) (merged @ [source]) sources)"

definition addTaint :: "taint_state \<Rightarrow> taint_source list \<Rightarrow> taint_state" where
  "addTaint state sources =
     (case state of
        UNKNOWN reason \<Rightarrow> state
      | _ \<Rightarrow>
          if sources = [] then state
          else
            let existing = taintSources state;
                merged = merge_sources (map sourceIdentity existing) existing sources
            in if merged = [] then state else TAINTED merged)"

definition highestSensitivity :: "taint_state \<Rightarrow> data_sensitivity" where
  "highestSensitivity state = worst_sensitivity (taintSources state)"

subsection \<open>Reading a stored state back\<close>

fun reason_name :: "unknown_reason \<Rightarrow> string" where
  "reason_name field_absent = ''field-absent''"
| "reason_name legacy_record = ''legacy-record''"
| "reason_name malformed = ''malformed''"
| "reason_name persistence_failed = ''persistence-failed''"

definition parse_reason :: "json \<Rightarrow> unknown_reason option" where
  "parse_reason value =
     (if value = JStr ''field-absent'' then Some field_absent
      else if value = JStr ''legacy-record'' then Some legacy_record
      else if value = JStr ''malformed'' then Some malformed
      else if value = JStr ''persistence-failed'' then Some persistence_failed
      else None)"

definition parse_sensitivity :: "json \<Rightarrow> data_sensitivity option" where
  "parse_sensitivity value =
     (if value = JStr ''public'' then Some public
      else if value = JStr ''internal'' then Some internal
      else if value = JStr ''confidential'' then Some confidential
      else if value = JStr ''secret'' then Some secret
      else None)"

text \<open>An array is an object too; it has none of the named fields.\<close>

definition parseSource :: "json \<Rightarrow> taint_source option" where
  "parseSource value =
     (case value of
        JObj obj \<Rightarrow>
          (case json_get obj ''sourceType'' of
             JStr sourceType \<Rightarrow>
               if sourceType = [] then None
               else
                 (case parse_sensitivity (json_get obj ''sensitivity'') of
                    None \<Rightarrow> None
                  | Some sensitivity \<Rightarrow>
                      (case json_get obj ''site'' of
                         JUndef \<Rightarrow>
                           Some \<lparr>ts_sourceType = sourceType, ts_site = None,
                                 ts_sensitivity = sensitivity\<rparr>
                       | JStr site \<Rightarrow>
                           Some \<lparr>ts_sourceType = sourceType, ts_site = Some site,
                                 ts_sensitivity = sensitivity\<rparr>
                       | _ \<Rightarrow> None))
           | _ \<Rightarrow> None)
      | _ \<Rightarrow> None)"

fun parse_sources :: "json list \<Rightarrow> taint_source list option" where
  "parse_sources [] = Some []"
| "parse_sources (entry # entries) =
     (case parseSource entry of
        None \<Rightarrow> None
      | Some source \<Rightarrow> map_option (\<lambda>sources. source # sources) (parse_sources entries))"

definition parseTaintState :: "json \<Rightarrow> taint_state" where
  "parseTaintState value =
     (case value of
        JUndef \<Rightarrow> unknownTaint field_absent
      | JNull \<Rightarrow> unknownTaint field_absent
      | JArr _ \<Rightarrow> unknownTaint legacy_record
      | JObj obj \<Rightarrow>
          let kind = json_get obj ''kind''
          in if kind = JStr ''KNOWN_UNTAINTED'' then KNOWN_UNTAINTED
             else if kind = JStr ''UNKNOWN'' then
               unknownTaint
                 (case parse_reason (json_get obj ''reason'') of
                    Some reason \<Rightarrow> reason
                  | None \<Rightarrow> malformed)
             else if kind = JStr ''TAINTED'' then
               (case json_get obj ''sources'' of
                  JArr entries \<Rightarrow>
                    (case parse_sources entries of
                       None \<Rightarrow> unknownTaint malformed
                     | Some sources \<Rightarrow>
                         if sources = [] then unknownTaint malformed else TAINTED sources)
                | _ \<Rightarrow> unknownTaint malformed)
             else unknownTaint malformed
      | _ \<Rightarrow> unknownTaint malformed)"

text \<open>The JSON value of a state: what storage hands back for a record written from it.\<close>

definition source_json :: "taint_source \<Rightarrow> json" where
  "source_json source =
     JObj ((''sourceType'', JStr (ts_sourceType source)) #
           (case ts_site source of None \<Rightarrow> [] | Some site \<Rightarrow> [(''site'', JStr site)]) @
           [(''sensitivity'', JStr (sensitivity_name (ts_sensitivity source)))])"

fun taint_json :: "taint_state \<Rightarrow> json" where
  "taint_json KNOWN_UNTAINTED = JObj [(''kind'', JStr ''KNOWN_UNTAINTED'')]"
| "taint_json (TAINTED sources) =
     JObj [(''kind'', JStr ''TAINTED''), (''sources'', JArr (map source_json sources))]"
| "taint_json (UNKNOWN reason) =
     JObj [(''kind'', JStr ''UNKNOWN''), (''reason'', JStr (reason_name reason))]"

text \<open>What every state the program builds satisfies.\<close>

definition taint_ok :: "taint_state \<Rightarrow> bool" where
  "taint_ok state =
     (case state of
        TAINTED sources \<Rightarrow> sources \<noteq> [] \<and> list_all (\<lambda>s. ts_sourceType s \<noteq> []) sources
      | _ \<Rightarrow> True)"

subsection \<open>The canonical payload\<close>

definition TAINT_SIGNATURE_VERSION :: string where
  "TAINT_SIGNATURE_VERSION = ''tsig/1''"

definition sized :: "string \<Rightarrow> string" where
  "sized s = show_nat (length s) @ '':'' @ s"

text \<open>\<open>nfc\<close> is \<open>normalize('NFC')\<close>, Unicode's canonical composition, which the language's library provides.\<close>

definition canonical_entry :: "(string \<Rightarrow> string) \<Rightarrow> taint_source \<Rightarrow> string" where
  "canonical_entry nfc source =
     sized (nfc (ts_sourceType source)) @ sized (js_lower (nfc (opt_string (ts_site source)))) @
     sized (sensitivity_name (ts_sensitivity source))"

definition newline :: string where
  "newline = [CHR 0x0A]"

definition canonicalTaintPayload :: "(string \<Rightarrow> string) \<Rightarrow> taint_state \<Rightarrow> string" where
  "canonicalTaintPayload nfc state =
     (case state of
        UNKNOWN reason \<Rightarrow> TAINT_SIGNATURE_VERSION @ newline @ ''UNKNOWN:'' @ reason_name reason
      | _ \<Rightarrow>
          let entries = sort (map (canonical_entry nfc) (taintSources state));
              deduplicated = remdups_adj entries
          in TAINT_SIGNATURE_VERSION @ newline @ js_join newline deduplicated)"

subsection \<open>Extending a state\<close>

lemma merge_sources_keeps: "set merged \<subseteq> set (merge_sources seen merged sources)"
  by (induction seen merged sources rule: merge_sources.induct) (auto simp: Let_def)

lemma merge_sources_subset: "set (merge_sources seen merged sources) \<subseteq> set merged \<union> set sources"
  by (induction seen merged sources rule: merge_sources.induct) (auto simp: Let_def)

lemma merge_sources_identities:
  "sourceIdentity ` set merged = set seen \<Longrightarrow>
   sourceIdentity ` set (merge_sources seen merged sources) = set seen \<union> sourceIdentity ` set sources"
  by (induction seen merged sources rule: merge_sources.induct) (auto simp: Let_def)

lemma merge_sources_distinct:
  "sourceIdentity ` set merged = set seen \<Longrightarrow> distinct (map sourceIdentity merged) \<Longrightarrow>
   distinct (map sourceIdentity (merge_sources seen merged sources))"
  by (induction seen merged sources rule: merge_sources.induct) (auto simp: Let_def image_Un)

lemma merge_sources_empty: "merge_sources seen merged sources = [] \<Longrightarrow> merged = []"
  using merge_sources_keeps [of merged seen sources] by simp

lemma addTaint_sources:
  "(\<forall>r. state \<noteq> UNKNOWN r) \<Longrightarrow>
   taintSources (addTaint state sources) =
     merge_sources (map sourceIdentity (taintSources state)) (taintSources state) sources"
  by (cases state) (auto simp: addTaint_def taintSources_def Let_def dest: merge_sources_empty)

lemma addTaint_unknown [simp]: "addTaint (UNKNOWN r) sources = UNKNOWN r"
  by (simp add: addTaint_def)

lemma addTaint_known: "addTaint state sources = UNKNOWN r \<Longrightarrow> state = UNKNOWN r"
  by (cases state) (auto simp: addTaint_def Let_def split: if_splits)

lemma addTaint_identities:
  "(\<forall>r. state \<noteq> UNKNOWN r) \<Longrightarrow>
   sourceIdentity ` set (taintSources (addTaint state sources)) =
     sourceIdentity ` (set (taintSources state) \<union> set sources)"
  by (simp add: addTaint_sources merge_sources_identities image_Un)

lemma addTaint_keeps: "set (taintSources state) \<subseteq> set (taintSources (addTaint state sources))"
proof (cases state)
  case (UNKNOWN r)
  then show ?thesis by simp
qed (simp_all add: addTaint_sources merge_sources_keeps)

lemma addTaint_ok:
  "taint_ok state \<Longrightarrow> list_all (\<lambda>s. ts_sourceType s \<noteq> []) sources \<Longrightarrow> taint_ok (addTaint state sources)"
  using merge_sources_subset [of "map sourceIdentity (taintSources state)" "taintSources state" sources]
  by (cases state) (auto simp: taint_ok_def addTaint_def Let_def list_all_iff taintSources_def)

text \<open>
  The identity determines the sensitivity even where two sources share it, because its last part
  is the sensitivity's name; so the worst sensitivity never misses a skipped source.
\<close>

lemma sensitivity_name_no_nul: "CHR 0x00 \<notin> set (sensitivity_name s)"
  by (cases s) simp_all

lemma sourceIdentity_sensitivity:
  assumes "sourceIdentity a = sourceIdentity b"
  shows "ts_sensitivity a = ts_sensitivity b"
proof -
  have "(ts_sourceType a @ [CHR 0x00] @ opt_string (ts_site a)) @ CHR 0x00 # sensitivity_name (ts_sensitivity a) =
        (ts_sourceType b @ [CHR 0x00] @ opt_string (ts_site b)) @ CHR 0x00 # sensitivity_name (ts_sensitivity b)"
    using assms by (simp add: sourceIdentity_def)
  then have "sensitivity_name (ts_sensitivity a) = sensitivity_name (ts_sensitivity b)"
    by (rule last_part_unique [OF sensitivity_name_no_nul sensitivity_name_no_nul])
  then show ?thesis by (rule sensitivity_name_inj)
qed

lemma same_identities_same_sensitivities:
  assumes "sourceIdentity ` A = sourceIdentity ` B"
  shows "ts_sensitivity ` A = ts_sensitivity ` B"
proof -
  have "ts_sensitivity ` X \<subseteq> ts_sensitivity ` Y" if sub: "sourceIdentity ` X \<subseteq> sourceIdentity ` Y" for X Y
  proof
    fix v
    assume "v \<in> ts_sensitivity ` X"
    then obtain x where "x \<in> X" "v = ts_sensitivity x" by auto
    moreover from sub \<open>x \<in> X\<close> obtain y where "y \<in> Y" "sourceIdentity x = sourceIdentity y" by auto
    ultimately show "v \<in> ts_sensitivity ` Y"
      using sourceIdentity_sensitivity by blast
  qed
  with assms show ?thesis by blast
qed

lemma highestSensitivity_addTaint:
  assumes "\<forall>r. state \<noteq> UNKNOWN r"
  shows "highestSensitivity (addTaint state sources) =
    maxSensitivity (highestSensitivity state) (worst_sensitivity sources)"
proof -
  have "ts_sensitivity ` set (taintSources (addTaint state sources)) =
      ts_sensitivity ` set (taintSources state @ sources)"
    using same_identities_same_sensitivities [OF addTaint_identities [OF assms]] by simp
  then have "highestSensitivity (addTaint state sources) =
      worst_sensitivity (taintSources state @ sources)"
    unfolding highestSensitivity_def by (rule worst_sensitivity_cong)
  also have "\<dots> = maxSensitivity (worst_sensitivity (taintSources state)) (worst_sensitivity sources)"
    by (rule SENSITIVITY_RANK_inj)
      (simp add: sensitivity.rank_worst worst_sensitivity_rank image_Un Max_insert_Un)
  finally show ?thesis by (simp add: highestSensitivity_def)
qed

subsection \<open>Storage round trip\<close>

lemma parse_sensitivity_name: "parse_sensitivity (JStr (sensitivity_name s)) = Some s"
  by (cases s) (simp_all add: parse_sensitivity_def)

lemma parse_reason_name: "parse_reason (JStr (reason_name r)) = Some r"
  by (cases r) (simp_all add: parse_reason_def)

lemma parseSource_json: "ts_sourceType s \<noteq> [] \<Longrightarrow> parseSource (source_json s) = Some s"
  by (cases "ts_site s")
    (simp_all add: parseSource_def source_json_def json_get_def parse_sensitivity_name)

lemma parse_sources_json:
  "list_all (\<lambda>s. ts_sourceType s \<noteq> []) sources \<Longrightarrow>
   parse_sources (map source_json sources) = Some sources"
  by (induction sources) (simp_all add: parseSource_json)

lemma parseTaintState_json: "taint_ok state \<Longrightarrow> parseTaintState (taint_json state) = state"
  by (cases state)
    (auto simp: parseTaintState_def taint_ok_def json_get_def parse_sources_json
      parse_reason_name unknownTaint_def)

lemma parseSource_ok: "parseSource v = Some s \<Longrightarrow> ts_sourceType s \<noteq> []"
  by (auto simp: parseSource_def split: json.splits option.splits if_splits)

lemma parse_sources_ok: "parse_sources vs = Some ss \<Longrightarrow> list_all (\<lambda>s. ts_sourceType s \<noteq> []) ss"
  by (induction vs arbitrary: ss) (auto dest: parseSource_ok split: option.splits)

lemma parseTaintState_ok: "taint_ok (parseTaintState v)"
  by (auto simp: parseTaintState_def unknownTaint_def taint_ok_def Let_def dest: parse_sources_ok
      split: json.splits option.splits)

lemma parseTaintState_untainted:
  "parseTaintState v = KNOWN_UNTAINTED \<Longrightarrow>
   \<exists>obj. v = JObj obj \<and> json_get obj ''kind'' = JStr ''KNOWN_UNTAINTED''"
  by (auto simp: parseTaintState_def unknownTaint_def Let_def
      split: json.splits option.splits if_splits)

subsection \<open>Properties\<close>

text \<open>
  C33. Taint only grows: a known state keeps every source it had, covers the identity of every source
  added, never becomes unknown, and its sensitivity is the worst of the two; an unknown state stays
  the unknown it was. Skipping a source already seen loses no sensitivity.
\<close>

theorem addTaint_monotone:
  "set (taintSources state) \<subseteq> set (taintSources (addTaint state sources)) \<and>
   (\<forall>r. addTaint state sources = UNKNOWN r \<longleftrightarrow> state = UNKNOWN r) \<and>
   ((\<forall>r. state \<noteq> UNKNOWN r) \<longrightarrow>
      sourceIdentity ` set sources \<subseteq> sourceIdentity ` set (taintSources (addTaint state sources)) \<and>
      highestSensitivity (addTaint state sources) =
        maxSensitivity (highestSensitivity state) (worst_sensitivity sources))"
  using addTaint_keeps [of state sources] addTaint_known [of state sources]
    addTaint_identities [of state sources] highestSensitivity_addTaint [of state sources]
  by auto

theorem addTaint_monotone_witness:
  "highestSensitivity (addTaint KNOWN_UNTAINTED
     [\<lparr>ts_sourceType = ''page'', ts_site = None, ts_sensitivity = confidential\<rparr>]) = confidential"
  using addTaint_monotone [of KNOWN_UNTAINTED
      "[\<lparr>ts_sourceType = ''page'', ts_site = None, ts_sensitivity = confidential\<rparr>]"]
  by (simp add: highestSensitivity_def taintSources_def worst_sensitivity_def maxSensitivity_def)

text \<open>
  A stored taint state comes back as it was, and whatever comes back is well formed; only a
  record that says so is read as untainted, so a damaged or older record fails closed.
\<close>

theorem taint_storage_roundtrip:
  "(taint_ok state \<longrightarrow> parseTaintState (taint_json state) = state) \<and>
   taint_ok (parseTaintState v) \<and>
   (parseTaintState v = KNOWN_UNTAINTED \<longrightarrow>
      (\<exists>obj. v = JObj obj \<and> json_get obj ''kind'' = JStr ''KNOWN_UNTAINTED''))"
  using parseTaintState_json parseTaintState_ok parseTaintState_untainted by blast

theorem taint_storage_roundtrip_witness:
  "parseTaintState (taint_json (UNKNOWN malformed)) = UNKNOWN malformed"
  using taint_storage_roundtrip [of "UNKNOWN malformed"] by (simp add: taint_ok_def)

end
