(* ===== verification/TaintSignature.thy ===== *)
theory TaintSignature
  imports Taint
begin

text \<open>
  The canonical taint payload of \<open>src/security/taint/taint-state.ts\<close> is an injective encoding of
  what was read: consent given under one signature cannot be looked up under another state's.
\<close>

subsection \<open>Decimal numerals\<close>

lemma digit_char_code: "d < 10 \<Longrightarrow> char_code (digit_char d) = 48 + d"
  by (simp add: char_code_def digit_char_def)

lemma show_nat_digits: "c \<in> set (show_nat n) \<Longrightarrow> js_digit c"
proof (induction n rule: show_nat.induct)
  case (1 n)
  have "js_digit (digit_char (n mod 10))"
    by (simp add: js_digit_def Let_def digit_char_code)
  with 1 show ?case
    by (subst (asm) show_nat.simps) (auto split: if_splits simp: js_digit_def digit_char_code)
qed

definition read_nat :: "string \<Rightarrow> nat" where
  "read_nat s = foldl (\<lambda>acc c. acc * 10 + (char_code c - 48)) 0 s"

lemma read_show_nat: "read_nat (show_nat n) = n"
proof (induction n rule: show_nat.induct)
  case (1 n)
  show ?case
  proof (cases "n < 10")
    case True
    then show ?thesis
      by (subst show_nat.simps) (simp add: read_nat_def digit_char_code)
  next
    case False
    then have "read_nat (show_nat (n div 10)) = n div 10" by (rule 1)
    then show ?thesis using False
      by (subst show_nat.simps) (simp add: read_nat_def digit_char_code)
  qed
qed

lemma show_nat_inj: "show_nat m = show_nat n \<Longrightarrow> m = n"
  by (metis read_show_nat)

lemma show_nat_neq_Nil: "show_nat n \<noteq> []"
  by (subst show_nat.simps) simp

lemma colon_not_digit: "CHR '':'' \<notin> set (show_nat n)"
  by (auto dest: show_nat_digits simp: js_digit_def char_code_def Let_def)

subsection \<open>Self-delimiting entries\<close>

lemma sized_prefix:
  assumes "sized s @ r = sized t @ q"
  shows "s = t \<and> r = q"
proof -
  have "show_nat (length s) @ CHR '':'' # s @ r = show_nat (length t) @ CHR '':'' # t @ q"
    using assms by (simp add: sized_def)
  then have "show_nat (length s) = show_nat (length t) \<and> s @ r = t @ q"
    by (rule first_part_unique [OF colon_not_digit colon_not_digit])
  moreover from this have "length s = length t"
    by (blast intro: show_nat_inj)
  ultimately show ?thesis by simp
qed

definition canonical_key :: "(string \<Rightarrow> string) \<Rightarrow> taint_source \<Rightarrow> string \<times> string \<times> data_sensitivity" where
  "canonical_key nfc source =
     (nfc (ts_sourceType source), js_lower (nfc (opt_string (ts_site source))), ts_sensitivity source)"

lemma canonical_entry_prefix:
  assumes "canonical_entry nfc x @ r = canonical_entry nfc y @ q"
  shows "canonical_key nfc x = canonical_key nfc y \<and> r = q"
proof -
  have "sized (nfc (ts_sourceType x)) @ sized (js_lower (nfc (opt_string (ts_site x)))) @
      sized (sensitivity_name (ts_sensitivity x)) @ r =
    sized (nfc (ts_sourceType y)) @ sized (js_lower (nfc (opt_string (ts_site y)))) @
      sized (sensitivity_name (ts_sensitivity y)) @ q"
    using assms by (simp add: canonical_entry_def)
  then show ?thesis
    by (metis canonical_key_def sensitivity_name_inj sized_prefix)
qed

lemma canonical_entry_eq_iff: "canonical_entry nfc x = canonical_entry nfc y \<longleftrightarrow> canonical_key nfc x = canonical_key nfc y"
  using canonical_entry_prefix [of nfc x "[]" y "[]"]
  by (auto simp: canonical_entry_def canonical_key_def)

lemma canonical_entry_digit:
  "\<exists>c rest. canonical_entry nfc x = c # rest \<and> js_digit c"
proof -
  obtain c rest where "show_nat (length (nfc (ts_sourceType x))) = c # rest"
    using show_nat_neq_Nil by (cases "show_nat (length (nfc (ts_sourceType x)))") auto
  then show ?thesis
    using show_nat_digits [of c "length (nfc (ts_sourceType x))"]
    by (simp add: canonical_entry_def sized_def)
qed

lemma js_join_tail: "js_join sep (e # es) = e @ (if es = [] then [] else sep @ js_join sep es)"
  by (cases es) auto

lemma join_entries_inj:
  "set es \<subseteq> range (canonical_entry nfc) \<Longrightarrow> set fs \<subseteq> range (canonical_entry nfc) \<Longrightarrow>
   js_join newline es = js_join newline fs \<Longrightarrow> es = fs"
proof (induction es arbitrary: fs)
  case Nil
  then show ?case
  proof (cases fs)
    case (Cons f fs')
    then obtain y where "f = canonical_entry nfc y" using Nil.prems by auto
    then show ?thesis
      using Nil.prems(3) Cons canonical_entry_digit [of nfc y] by (auto simp: js_join_tail)
  qed simp
next
  case (Cons e es)
  obtain x where x: "e = canonical_entry nfc x" using Cons.prems by auto
  show ?case
  proof (cases fs)
    case Nil
    then show ?thesis
      using Cons.prems(3) x canonical_entry_digit [of nfc x] by (auto simp: js_join_tail)
  next
    case (Cons f fs')
    then obtain y where y: "f = canonical_entry nfc y" using Cons.prems by auto
    let ?t = "\<lambda>l. if l = [] then [] else newline @ js_join newline l"
    have "canonical_entry nfc x @ ?t es = canonical_entry nfc y @ ?t fs'"
      using Cons.prems(3) Cons x y by (simp add: js_join_tail)
    then have "e = f" and tails: "?t es = ?t fs'"
      using canonical_entry_prefix [of nfc x "?t es" y "?t fs'"] canonical_entry_eq_iff x y by blast+
    from tails have "js_join newline es = js_join newline fs'" "es = [] \<longleftrightarrow> fs' = []"
      by (auto simp: newline_def split: if_splits)
    then have "es = fs'"
      using Cons.IH [of fs'] Cons.prems Cons by auto
    with \<open>e = f\<close> Cons show ?thesis by simp
  qed
qed

lemma distinct_remdups_adj_sorted: "sorted xs \<Longrightarrow> distinct (remdups_adj xs)"
proof (induction xs rule: remdups_adj.induct)
  case (3 x y xs)
  then show ?case by (cases "x = y") (auto simp: less_le_not_le)
qed auto

lemma remdups_adj_sort_eq: "remdups_adj (sort xs) = remdups_adj (sort ys) \<longleftrightarrow> set xs = set ys"
proof
  assume "remdups_adj (sort xs) = remdups_adj (sort ys)"
  then show "set xs = set ys" by (metis remdups_adj_set set_sort)
next
  assume "set xs = set ys"
  then show "remdups_adj (sort xs) = remdups_adj (sort ys)"
    by (intro sorted_distinct_set_unique)
      (simp_all add: sorted_remdups_adj distinct_remdups_adj_sorted)
qed

definition canonical_view :: "(string \<Rightarrow> string) \<Rightarrow> taint_state \<Rightarrow> unknown_reason + (string \<times> string \<times> data_sensitivity) set" where
  "canonical_view nfc state =
     (case state of UNKNOWN r \<Rightarrow> Inl r | _ \<Rightarrow> Inr (canonical_key nfc ` set (taintSources state)))"

lemma image_eq_transfer:
  assumes "\<And>x y. f x = f y \<longleftrightarrow> g x = g y"
  shows "f ` A = f ` B \<longleftrightarrow> g ` A = g ` B"
proof -
  have "f ` X \<subseteq> f ` Y \<longleftrightarrow> g ` X \<subseteq> g ` Y" for X Y
    using assms by (simp add: image_subset_iff image_iff)
  then show ?thesis by (simp add: set_eq_subset)
qed

lemma known_payload_eq:
  "js_join newline (remdups_adj (sort (map (canonical_entry nfc) xs))) =
   js_join newline (remdups_adj (sort (map (canonical_entry nfc) ys))) \<longleftrightarrow>
   canonical_key nfc ` set xs = canonical_key nfc ` set ys" (is "?l \<longleftrightarrow> ?r")
proof -
  have "?l \<longleftrightarrow> remdups_adj (sort (map (canonical_entry nfc) xs)) = remdups_adj (sort (map (canonical_entry nfc) ys))"
    using join_entries_inj [of "remdups_adj (sort (map (canonical_entry nfc) xs))" nfc
        "remdups_adj (sort (map (canonical_entry nfc) ys))"] by auto
  also have "\<dots> \<longleftrightarrow> canonical_entry nfc ` set xs = canonical_entry nfc ` set ys"
    by (simp add: remdups_adj_sort_eq)
  also have "\<dots> \<longleftrightarrow> ?r"
    by (rule image_eq_transfer) (rule canonical_entry_eq_iff)
  finally show ?thesis .
qed

lemma payload_start:
  assumes "set es \<subseteq> range (canonical_entry nfc)"
  shows "js_join newline es = [] \<or> js_digit (hd (js_join newline es))"
proof (cases es)
  case (Cons e es')
  then obtain x where "e = canonical_entry nfc x" using assms by auto
  then show ?thesis using Cons canonical_entry_digit [of nfc x] by (auto simp: js_join_tail)
qed simp

lemma reason_name_inj: "reason_name a = reason_name b \<Longrightarrow> a = b"
  by (cases a; cases b) simp_all

lemma unknown_payload_differs:
  "CHR ''U'' # r \<noteq> js_join newline (remdups_adj (sort (map (canonical_entry nfc) xs)))"
proof -
  have "\<not> js_digit (CHR ''U'')"
    by (simp add: js_digit_def char_code_def)
  moreover have "set (remdups_adj (sort (map (canonical_entry nfc) xs))) \<subseteq> range (canonical_entry nfc)"
    by auto
  ultimately show ?thesis
    using payload_start [of "remdups_adj (sort (map (canonical_entry nfc) xs))" nfc]
    by (metis list.discI list.sel(1))
qed

lemma canonicalTaintPayload_eq:
  "canonicalTaintPayload nfc a = canonicalTaintPayload nfc b \<longleftrightarrow> canonical_view nfc a = canonical_view nfc b"
  using unknown_payload_differs unknown_payload_differs [symmetric] known_payload_eq
  by (cases a; cases b)
    (auto simp: canonicalTaintPayload_def canonical_view_def Let_def dest: reason_name_inj)

subsection \<open>Properties\<close>

text \<open>
  The canonical payload consent is keyed by determines the taint: two known states have the
  same payload exactly when they hold the same set of sources, up to Unicode normalisation and the case of the site, and an
  unknown state shares its payload with no known one and with no other reason. No choice of source
  names can make two different taints collide.
\<close>

theorem canonical_payload_injective:
  "canonicalTaintPayload nfc a = canonicalTaintPayload nfc b \<longleftrightarrow>
     (case (a, b) of
        (UNKNOWN r, UNKNOWN r') \<Rightarrow> r = r'
      | (UNKNOWN r, _) \<Rightarrow> False
      | (_, UNKNOWN r) \<Rightarrow> False
      | _ \<Rightarrow> canonical_key nfc ` set (taintSources a) = canonical_key nfc ` set (taintSources b))"
  unfolding canonicalTaintPayload_eq by (cases a; cases b) (simp_all add: canonical_view_def)

end
