(* ===== verification/Risk.thy ===== *)
theory Risk
  imports Interfaces
begin

text \<open>
  \<open>src/policy/risk-classifier.ts\<close>: the six risk levels, their ranks and their maximum, the nine
  hard prohibitions and how each of them is kept.
\<close>

datatype risk_level = R0 | R1 | R2 | R3 | R4 | R5

definition RISK_LEVELS :: "risk_level list" where
  "RISK_LEVELS = [R0, R1, R2, R3, R4, R5]"

fun RISK_RANK :: "risk_level \<Rightarrow> nat" where
  "RISK_RANK R0 = 0"
| "RISK_RANK R1 = 1"
| "RISK_RANK R2 = 2"
| "RISK_RANK R3 = 3"
| "RISK_RANK R4 = 4"
| "RISK_RANK R5 = 5"

definition maxRisk :: "risk_level \<Rightarrow> risk_level \<Rightarrow> risk_level" where
  "maxRisk a b = (if RISK_RANK a \<ge> RISK_RANK b then a else b)"

definition riskAtLeast :: "risk_level \<Rightarrow> risk_level \<Rightarrow> bool" where
  "riskAtLeast level threshold = (RISK_RANK level \<ge> RISK_RANK threshold)"

fun RISK_DESCRIPTIONS :: "risk_level \<Rightarrow> string" where
  "RISK_DESCRIPTIONS R0 = ''Read-only. No page or external state changes.''"
| "RISK_DESCRIPTIONS R1 = ''Low risk and reversible.''"
| "RISK_DESCRIPTIONS R2 = ''Medium risk. Changes page state or transfers a file.''"
| "RISK_DESCRIPTIONS R3 = ''Sensitive external side effect. Writes data outside the browser.''"
| "RISK_DESCRIPTIONS R4 = ''Destructive or high consequence.''"
| "RISK_DESCRIPTIONS R5 = ''Prohibited. Never executed.''"

datatype prohibited_category =
    financial_transaction
  | payment_instrument_entry
  | account_creation
  | credential_submission_to_third_party
  | permanent_deletion
  | securities_trading
  | system_file_modification
  | bot_protection_bypass
  | arbitrary_code_execution

definition PROHIBITED_CATEGORIES :: "prohibited_category list" where
  "PROHIBITED_CATEGORIES =
     [financial_transaction, payment_instrument_entry, account_creation,
      credential_submission_to_third_party, permanent_deletion, securities_trading,
      system_file_modification, bot_protection_bypass, arbitrary_code_execution]"

datatype prohibition_enforcement =
  UNREACHABLE_BY_CONSTRUCTION | REQUIRES_DETECTION | DETECTED_AND_ENFORCED

fun PROHIBITION_ENFORCEMENT :: "prohibited_category \<Rightarrow> prohibition_enforcement" where
  "PROHIBITION_ENFORCEMENT system_file_modification = UNREACHABLE_BY_CONSTRUCTION"
| "PROHIBITION_ENFORCEMENT bot_protection_bypass = UNREACHABLE_BY_CONSTRUCTION"
| "PROHIBITION_ENFORCEMENT arbitrary_code_execution = UNREACHABLE_BY_CONSTRUCTION"
| "PROHIBITION_ENFORCEMENT financial_transaction = REQUIRES_DETECTION"
| "PROHIBITION_ENFORCEMENT account_creation = REQUIRES_DETECTION"
| "PROHIBITION_ENFORCEMENT credential_submission_to_third_party = REQUIRES_DETECTION"
| "PROHIBITION_ENFORCEMENT permanent_deletion = REQUIRES_DETECTION"
| "PROHIBITION_ENFORCEMENT securities_trading = REQUIRES_DETECTION"
| "PROHIBITION_ENFORCEMENT payment_instrument_entry = DETECTED_AND_ENFORCED"

definition UNDETECTED_PROHIBITIONS :: "prohibited_category list" where
  "UNDETECTED_PROHIBITIONS =
     filter (\<lambda>category. PROHIBITION_ENFORCEMENT category = REQUIRES_DETECTION)
       PROHIBITED_CATEGORIES"

text \<open>The apostrophe of the source's third description is U+2019; it is written as U+0027 here.\<close>

fun PROHIBITED_DESCRIPTIONS :: "prohibited_category \<Rightarrow> string" where
  "PROHIBITED_DESCRIPTIONS financial_transaction =
     ''Completing a purchase, payment, or money transfer.''"
| "PROHIBITED_DESCRIPTIONS payment_instrument_entry =
     ''Entering credit card, bank, or government ID numbers.''"
| "PROHIBITED_DESCRIPTIONS account_creation =
     ''Creating an account on the user'' @ [CHR 0x27] @ ''s behalf.''"
| "PROHIBITED_DESCRIPTIONS credential_submission_to_third_party =
     ''Submitting credentials into a page that did not issue them.''"
| "PROHIBITED_DESCRIPTIONS permanent_deletion = ''Irreversibly deleting records or files.''"
| "PROHIBITED_DESCRIPTIONS securities_trading = ''Placing trades or investment transactions.''"
| "PROHIBITED_DESCRIPTIONS system_file_modification =
     ''Modifying operating system or browser configuration files.''"
| "PROHIBITED_DESCRIPTIONS bot_protection_bypass =
     ''Defeating CAPTCHA or other bot authorisation controls.''"
| "PROHIBITED_DESCRIPTIONS arbitrary_code_execution =
     ''Executing arbitrary script supplied by the model.''"

subsection \<open>The order of the levels\<close>

lemma RISK_RANK_inj: "RISK_RANK a = RISK_RANK b \<Longrightarrow> a = b"
  by (cases a; cases b) simp_all

instantiation risk_level :: linorder
begin

definition less_eq_risk_level :: "risk_level \<Rightarrow> risk_level \<Rightarrow> bool" where
  "less_eq_risk_level a b = (RISK_RANK a \<le> RISK_RANK b)"

definition less_risk_level :: "risk_level \<Rightarrow> risk_level \<Rightarrow> bool" where
  "less_risk_level a b = (RISK_RANK a < RISK_RANK b)"

instance
  by standard (auto simp: less_eq_risk_level_def less_risk_level_def intro: RISK_RANK_inj)

end

interpretation risk: severity_scale RISK_RANK maxRisk
  by unfold_locales (auto simp: maxRisk_def intro: RISK_RANK_inj)

lemma maxRisk_max: "maxRisk a b = max a b"
  using RISK_RANK_inj [of a b] by (auto simp: maxRisk_def max_def less_eq_risk_level_def)

lemma rank_numerals [rank_simps]:
  "3 \<le> RISK_RANK r \<longleftrightarrow> r \<in> {R3, R4, R5}"
  "5 \<le> RISK_RANK r \<longleftrightarrow> r = R5"
  "2 \<le> RISK_RANK r \<longleftrightarrow> r \<in> {R2, R3, R4, R5}"
  "Suc 0 \<le> RISK_RANK r \<longleftrightarrow> r \<noteq> R0"
  "RISK_RANK r \<le> 2 \<longleftrightarrow> r \<in> {R0, R1, R2}"
  "RISK_RANK r < 2 \<longleftrightarrow> r \<in> {R0, R1}"
  "RISK_RANK r = 0 \<longleftrightarrow> r = R0"
  by (cases r; simp)+

lemma RISK_LEVELS_all: "set RISK_LEVELS = UNIV" and RISK_LEVELS_sorted: "sorted RISK_LEVELS"
  by (auto simp: RISK_LEVELS_def less_eq_risk_level_def intro: risk_level.exhaust)

text \<open>Every category has one enforcement row, and none is listed twice.\<close>

lemma PROHIBITED_CATEGORIES_all: "set PROHIBITED_CATEGORIES = UNIV"
  by (auto simp: PROHIBITED_CATEGORIES_def intro: prohibited_category.exhaust)

lemma UNDETECTED_PROHIBITIONS_iff:
  "c \<in> set UNDETECTED_PROHIBITIONS \<longleftrightarrow> PROHIBITION_ENFORCEMENT c = REQUIRES_DETECTION"
  by (simp add: UNDETECTED_PROHIBITIONS_def PROHIBITED_CATEGORIES_all)

end
