(* ===== verification/SitePolicy.thy ===== *)
theory SitePolicy
  imports Origin Risk
begin

text \<open>
  \<open>src/policy/site-policy.ts\<close>: standing decisions per site and the permission history.
\<close>

datatype site_decision = Allow | Block

definition MAX_GRANTABLE_RISK :: risk_level where
  "MAX_GRANTABLE_RISK = R2"

definition isGrantableRisk :: "risk_level \<Rightarrow> bool" where
  "isGrantableRisk risk = (risk = R0 \<or> risk = R1 \<or> risk = R2)"

definition clampToGrantable :: "risk_level \<Rightarrow> risk_level" where
  "clampToGrantable risk = (if isGrantableRisk risk then risk else MAX_GRANTABLE_RISK)"

text \<open>
  The source types \<open>maxRisk\<close> as a grantable level; a record read back from storage may carry any
  level, so the field is a \<open>risk_level\<close> here and grantability is a predicate.
\<close>

record site_rule =
  sr_site :: string
  sr_decision :: site_decision
  sr_maxRisk :: risk_level
  sr_createdAt :: int
  sr_note :: "string option"

datatype history_decision = approved | denied | auto_approved | blocked

record history_entry =
  he_id :: string
  he_taskId :: string
  he_tool :: string
  he_site :: string
  he_risk :: risk_level
  he_decision :: history_decision
  he_timestamp :: int
  he_reason :: string

record site_policy_state =
  rules :: "site_rule list"
  history :: "history_entry list"

definition emptySitePolicyState :: site_policy_state where
  "emptySitePolicyState = \<lparr>rules = [], history = []\<rparr>"

definition siteForUrl :: "url_parser \<Rightarrow> string \<Rightarrow> string option" where
  "siteForUrl U url = map_option oi_site (parseOrigin U url)"

text \<open>\<open>matches.find(block) ?? matches[0] ?? null\<close>; an empty site string is falsy.\<close>

definition findRule :: "url_parser \<Rightarrow> site_policy_state \<Rightarrow> string \<Rightarrow> site_rule option" where
  "findRule U state url =
     (case siteForUrl U url of
        None \<Rightarrow> None
      | Some site \<Rightarrow>
          if site = [] then None
          else
            let matches = filter (\<lambda>rule. sr_site rule = site) (rules state)
            in case List.find (\<lambda>r. sr_decision r = Block) matches of
                 Some r \<Rightarrow> Some r
               | None \<Rightarrow> (case matches of [] \<Rightarrow> None | r # _ \<Rightarrow> Some r))"

definition sanitise_rule :: "site_rule \<Rightarrow> site_rule" where
  "sanitise_rule rule =
     (if isGrantableRisk (sr_maxRisk rule) then rule
      else rule\<lparr>sr_maxRisk := MAX_GRANTABLE_RISK\<rparr>)"

definition sanitiseSitePolicyState :: "site_policy_state \<Rightarrow> site_policy_state" where
  "sanitiseSitePolicyState state =
     (if \<exists>rule \<in> set (rules state). \<not> isGrantableRisk (sr_maxRisk rule)
      then state\<lparr>rules := map sanitise_rule (rules state)\<rparr> else state)"

definition upsertRule :: "site_policy_state \<Rightarrow> site_rule \<Rightarrow> site_policy_state" where
  "upsertRule state rule =
     (let normalised = rule\<lparr>sr_site := siteOf (sr_site rule)\<rparr>
      in state\<lparr>rules :=
           filter (\<lambda>r. sr_site r \<noteq> sr_site normalised) (rules state) @ [normalised]\<rparr>)"

definition removeRule :: "site_policy_state \<Rightarrow> string \<Rightarrow> site_policy_state" where
  "removeRule state site =
     (let target = siteOf site in state\<lparr>rules := filter (\<lambda>r. sr_site r \<noteq> target) (rules state)\<rparr>)"

definition MAX_HISTORY :: nat where
  "MAX_HISTORY = 500"

definition appendHistory :: "site_policy_state \<Rightarrow> history_entry \<Rightarrow> site_policy_state" where
  "appendHistory state entry =
     (let hist = history state @ [entry]
      in state\<lparr>history := (if MAX_HISTORY < length hist then take_last MAX_HISTORY hist else hist)\<rparr>)"

subsection \<open>The invariant of a stored policy\<close>

text \<open>
  At most one rule per site, every allow rule within the grantable range, and a bounded history.
\<close>

definition policy_ok :: "site_policy_state \<Rightarrow> bool" where
  "policy_ok state \<longleftrightarrow>
     distinct (map sr_site (rules state)) \<and>
     list_all (\<lambda>r. isGrantableRisk (sr_maxRisk r)) (rules state) \<and>
     length (history state) \<le> MAX_HISTORY"

lemma isGrantable_iff: "isGrantableRisk r \<longleftrightarrow> r \<le> MAX_GRANTABLE_RISK"
  by (cases r) (auto simp: isGrantableRisk_def MAX_GRANTABLE_RISK_def less_eq_risk_level_def)

lemma clampToGrantable_min: "clampToGrantable r = min r MAX_GRANTABLE_RISK"
  by (cases r) (auto simp: clampToGrantable_def isGrantableRisk_def MAX_GRANTABLE_RISK_def
      min_def less_eq_risk_level_def)

lemma policy_ok_empty: "policy_ok emptySitePolicyState"
  by (simp add: policy_ok_def emptySitePolicyState_def MAX_HISTORY_def)

lemma policy_ok_upsert:
  "policy_ok state \<Longrightarrow> isGrantableRisk (sr_maxRisk rule) \<Longrightarrow> policy_ok (upsertRule state rule)"
  by (auto simp: policy_ok_def upsertRule_def Let_def list_all_iff distinct_map_filter)

lemma policy_ok_remove: "policy_ok state \<Longrightarrow> policy_ok (removeRule state site)"
  by (auto simp: policy_ok_def removeRule_def Let_def list_all_iff distinct_map_filter)

lemma appendHistory_bound: "length (history (appendHistory state entry)) \<le> MAX_HISTORY"
  by (auto simp: appendHistory_def Let_def take_last_length)

lemma appendHistory_rules [simp]: "rules (appendHistory state entry) = rules state"
  by (simp add: appendHistory_def Let_def)

lemma appendHistory_last: "last (history (appendHistory state entry)) = entry"
  using take_last_snoc [of MAX_HISTORY "history state" entry]
  by (simp add: appendHistory_def Let_def MAX_HISTORY_def)

lemma appendHistory_suffix: "suffix (history (appendHistory state entry)) (history state @ [entry])"
  using take_last_suffix [of MAX_HISTORY "history state @ [entry]"]
  by (auto simp: appendHistory_def Let_def)

lemma policy_ok_append: "policy_ok state \<Longrightarrow> policy_ok (appendHistory state entry)"
  using appendHistory_bound [of state entry] by (simp add: policy_ok_def)

lemma sanitise_rules: "rules (sanitiseSitePolicyState state) = map sanitise_rule (rules state)"
  by (auto simp: sanitiseSitePolicyState_def sanitise_rule_def intro!: map_idI [symmetric])

lemma sanitise_rule_site [simp]: "sr_site (sanitise_rule r) = sr_site r"
  and sanitise_rule_decision [simp]: "sr_decision (sanitise_rule r) = sr_decision r"
  by (simp_all add: sanitise_rule_def)

lemma sanitise_rule_grantable: "isGrantableRisk (sr_maxRisk (sanitise_rule r))"
  by (simp add: sanitise_rule_def isGrantableRisk_def MAX_GRANTABLE_RISK_def)

lemma sanitise_rule_lowers: "sr_maxRisk (sanitise_rule r) \<le> sr_maxRisk r"
  by (cases "sr_maxRisk r") (simp_all add: sanitise_rule_def isGrantableRisk_def
      MAX_GRANTABLE_RISK_def less_eq_risk_level_def)

subsection \<open>Looking a rule up\<close>

lemma findRule_in:
  assumes "findRule U state url = Some r"
  shows "r \<in> set (rules state) \<and> siteForUrl U url = Some (sr_site r) \<and> sr_site r \<noteq> []"
proof -
  obtain site where site: "siteForUrl U url = Some site" "site \<noteq> []"
    using assms by (auto simp: findRule_def split: option.splits if_splits)
  let ?ms = "filter (\<lambda>rule. sr_site rule = site) (rules state)"
  have "r \<in> set ?ms"
    using assms site find_Some_in [of "\<lambda>r. sr_decision r = Block" ?ms r]
    by (auto simp: findRule_def Let_def simp del: set_filter split: option.splits list.splits)
  with site show ?thesis by auto
qed

lemma findRule_block_first:
  assumes "r \<in> set (rules state)" and "sr_decision r = Block"
    and "siteForUrl U url = Some (sr_site r)" and "sr_site r \<noteq> []"
  shows "\<exists>b. findRule U state url = Some b \<and> sr_decision b = Block \<and> sr_site b = sr_site r"
proof -
  let ?ms = "filter (\<lambda>rule. sr_site rule = sr_site r) (rules state)"
  have "List.find (\<lambda>r. sr_decision r = Block) ?ms \<noteq> None"
    using find_None_all [of "\<lambda>r. sr_decision r = Block" ?ms r] assms by auto
  then obtain b where "List.find (\<lambda>r. sr_decision r = Block) ?ms = Some b"
    by auto
  then show ?thesis
    using find_Some_in [of "\<lambda>r. sr_decision r = Block" ?ms b] assms
    by (auto simp: findRule_def Let_def)
qed

text \<open>
  What the rest of the policy layer relies on: after an upsert the rule of that site is the one
  stored, every other site keeps its rule, and a removal leaves none.
\<close>

lemma filter_other_site:
  "s \<noteq> t \<Longrightarrow> filter (\<lambda>r. sr_site r \<noteq> t \<and> sr_site r = s) rs = filter (\<lambda>r. sr_site r = s) rs"
  "filter (\<lambda>r. sr_site r \<noteq> t \<and> sr_site r = t) rs = []"
  by (auto intro: filter_cong)

lemma findRule_upsert:
  assumes "siteForUrl U url = Some s" and "s \<noteq> []"
  shows "findRule U (upsertRule state rule) url =
    (if s = siteOf (sr_site rule) then Some (rule\<lparr>sr_site := s\<rparr>) else findRule U state url)"
proof (cases "s = siteOf (sr_site rule)")
  case True
  then show ?thesis
    using assms by (simp add: findRule_def upsertRule_def Let_def filter_other_site(2))
next
  case False
  then show ?thesis
    using assms by (simp add: findRule_def upsertRule_def Let_def filter_other_site(1) [OF False])
qed

lemma findRule_remove:
  assumes "siteForUrl U url = Some s"
  shows "findRule U (removeRule state site) url =
    (if s = siteOf site then None else findRule U state url)"
proof (cases "s = siteOf site")
  case True
  then show ?thesis
    using assms by (simp add: findRule_def removeRule_def Let_def filter_other_site(2))
next
  case False
  then show ?thesis
    using assms by (simp add: findRule_def removeRule_def Let_def filter_other_site(1) [OF False])
qed

text \<open>The repair lowers a blocking rule's level like any other.\<close>

lemma sanitise_clamps_blocks:
  "\<exists>r. sr_decision r = Block \<and> sr_maxRisk (sanitise_rule r) \<noteq> sr_maxRisk r"
  by (rule exI [of _ "\<lparr>sr_site = ''a.test'', sr_decision = Block, sr_maxRisk = R4,
        sr_createdAt = 0, sr_note = None\<rparr>"])
    (simp add: sanitise_rule_def isGrantableRisk_def MAX_GRANTABLE_RISK_def)

end
