(* ===== verification/Plan.thy ===== *)
theory Plan
  imports SitePolicy
begin

text \<open>
  \<open>src/policy/plan-model.ts\<close>: the proposal a model writes, the approval a person gives, its
  amendments, and how a stored approval is read back.
\<close>

datatype authorization_model = classic | cowork

definition PLAN_MAX_RISK :: risk_level where
  "PLAN_MAX_RISK = R2"

datatype proposed_by = model

record plan_proposal =
  pp_proposalId :: string
  pp_taskId :: string
  pp_proposedAt :: rat
  pp_proposedBy :: proposed_by
  pp_approachText :: string
  pp_proposedSites :: "string list"

text \<open>The provenance has one member, as in the source.\<close>

datatype approval_provenance = USER_PANEL_ACTION

record plan_approval =
  pa_planId :: string
  pa_taskId :: string
  pa_version :: int
  pa_approvedSites :: "string list"
  pa_approvedAt :: rat
  pa_approvalProvenance :: approval_provenance
  pa_supersedes :: "string option"

text \<open>\<open>/^[a-z0-9.-]+$/i\<close>.\<close>

definition host_like :: "string \<Rightarrow> bool" where
  "host_like s =
     (s \<noteq> [] \<and>
      list_all (\<lambda>c. ascii_lower c \<or> ascii_upper c \<or> js_digit c \<or> c = CHR ''.'' \<or> c = CHR ''-'') s)"

definition normaliseSite :: "url_parser \<Rightarrow> string \<Rightarrow> string option" where
  "normaliseSite U candidate =
     (let trimmed = js_trim candidate
      in if trimmed = [] then None
         else
           let parsed =
             (case parseOrigin U trimmed of
                Some info \<Rightarrow> Some info
              | None \<Rightarrow> parseOrigin U (''https://'' @ trimmed))
           in (case parsed of
                 Some info \<Rightarrow> Some (oi_site info)
               | None \<Rightarrow> if host_like trimmed then Some (siteOf trimmed) else None))"

definition MAX_PROPOSED_SITES :: nat where
  "MAX_PROPOSED_SITES = 20"

fun collect_sites :: "url_parser \<Rightarrow> string list \<Rightarrow> string list \<Rightarrow> string list" where
  "collect_sites U seen [] = seen"
| "collect_sites U seen (candidate # candidates) =
     (let seen' =
        (case normaliseSite U candidate of
           None \<Rightarrow> seen
         | Some site \<Rightarrow> if site \<noteq> [] \<and> site \<notin> set seen then seen @ [site] else seen)
      in if MAX_PROPOSED_SITES \<le> length seen' then seen' else collect_sites U seen' candidates)"

definition buildProposal ::
  "url_parser \<Rightarrow> string \<Rightarrow> string \<Rightarrow> string \<Rightarrow> string list \<Rightarrow> rat \<Rightarrow> plan_proposal" where
  "buildProposal U proposalId taskId approachText sites now =
     \<lparr>pp_proposalId = proposalId, pp_taskId = taskId, pp_proposedAt = now, pp_proposedBy = model,
      pp_approachText = take 2000 approachText, pp_proposedSites = collect_sites U [] sites\<rparr>"

definition approvePlan :: "plan_proposal \<Rightarrow> string \<Rightarrow> rat \<Rightarrow> plan_approval" where
  "approvePlan proposal planId now =
     \<lparr>pa_planId = planId, pa_taskId = pp_taskId proposal, pa_version = 1,
      pa_approvedSites = pp_proposedSites proposal, pa_approvedAt = now,
      pa_approvalProvenance = USER_PANEL_ACTION, pa_supersedes = None\<rparr>"

definition amendPlan :: "url_parser \<Rightarrow> plan_approval \<Rightarrow> string \<Rightarrow> rat \<Rightarrow> plan_approval" where
  "amendPlan U approval candidate now =
     (case normaliseSite U candidate of
        None \<Rightarrow> approval
      | Some site \<Rightarrow>
          if site \<in> set (pa_approvedSites approval) then approval
          else approval\<lparr>pa_version := pa_version approval + 1,
                        pa_approvedSites := pa_approvedSites approval @ [site],
                        pa_approvedAt := now,
                        pa_supersedes :=
                          Some (pa_planId approval @ ''@'' @ show_int (pa_version approval))\<rparr>)"

definition planCoversSite :: "url_parser \<Rightarrow> plan_approval option \<Rightarrow> string \<Rightarrow> bool" where
  "planCoversSite U approval url =
     (case approval of
        None \<Rightarrow> False
      | Some a \<Rightarrow>
          (case parseOrigin U url of
             None \<Rightarrow> False
           | Some info \<Rightarrow> oi_site info \<in> set (pa_approvedSites a)))"

fun parse_sites :: "url_parser \<Rightarrow> json list \<Rightarrow> string list option" where
  "parse_sites U [] = Some []"
| "parse_sites U (entry # entries) =
     (case entry of
        JStr s \<Rightarrow>
          (case normaliseSite U s of
             None \<Rightarrow> None
           | Some site \<Rightarrow> map_option (\<lambda>sites. site # sites) (parse_sites U entries))
      | _ \<Rightarrow> None)"

definition nonempty_text :: "json \<Rightarrow> string option" where
  "nonempty_text v = (case v of JStr s \<Rightarrow> if s = [] then None else Some s | _ \<Rightarrow> None)"

definition safe_version :: "json \<Rightarrow> int option" where
  "safe_version v =
     (case v of
        JNum (Fin q) \<Rightarrow> if safe_integer q \<and> \<not> q < 1 then Some \<lfloor>q\<rfloor> else None
      | _ \<Rightarrow> None)"

definition finite_number :: "json \<Rightarrow> rat option" where
  "finite_number v = (case v of JNum (Fin q) \<Rightarrow> Some q | _ \<Rightarrow> None)"

definition parsePlanApproval :: "url_parser \<Rightarrow> json \<Rightarrow> string option \<Rightarrow> plan_approval option" where
  "parsePlanApproval U value expectedTaskId =
     (case value of
        JObj record \<Rightarrow>
          (case nonempty_text (json_get record ''planId'') of
             None \<Rightarrow> None
           | Some planId \<Rightarrow>
          (case nonempty_text (json_get record ''taskId'') of
             None \<Rightarrow> None
           | Some taskId \<Rightarrow>
               if expectedTaskId \<noteq> None \<and> Some taskId \<noteq> expectedTaskId then None
               else
          (case safe_version (json_get record ''version'') of
             None \<Rightarrow> None
           | Some version \<Rightarrow>
          (case finite_number (json_get record ''approvedAt'') of
             None \<Rightarrow> None
           | Some approvedAt \<Rightarrow>
               if json_get record ''approvalProvenance'' \<noteq> JStr ''USER_PANEL_ACTION'' then None
               else
          (case json_get record ''approvedSites'' of
             JArr entries \<Rightarrow>
               (case parse_sites U entries of
                  None \<Rightarrow> None
                | Some sites \<Rightarrow>
                    Some \<lparr>pa_planId = planId, pa_taskId = taskId, pa_version = version,
                          pa_approvedSites = sites, pa_approvedAt = approvedAt,
                          pa_approvalProvenance = USER_PANEL_ACTION,
                          pa_supersedes =
                            (case json_get record ''supersedes'' of
                               JStr s \<Rightarrow> Some s
                             | _ \<Rightarrow> None)\<rparr>)
           | _ \<Rightarrow> None)))))
      | _ \<Rightarrow> None)"

subsection \<open>Proposals are bounded\<close>

lemma collect_sites_distinct: "distinct seen \<Longrightarrow> distinct (collect_sites U seen cs)"
  by (induction U seen cs rule: collect_sites.induct) (auto simp: Let_def split: option.splits)

lemma collect_sites_bound:
  "length seen < MAX_PROPOSED_SITES \<Longrightarrow> length (collect_sites U seen cs) \<le> MAX_PROPOSED_SITES"
proof (induction U seen cs rule: collect_sites.induct)
  case (2 U seen c cs)
  then show ?case by (cases "normaliseSite U c") (auto simp: Let_def)
qed simp

lemma collect_sites_from:
  "s \<in> set (collect_sites U seen cs) \<Longrightarrow>
   s \<in> set seen \<or> (s \<noteq> [] \<and> (\<exists>c \<in> set cs. normaliseSite U c = Some s))"
proof (induction U seen cs rule: collect_sites.induct)
  case (2 U seen c cs)
  then show ?case
    by (cases "normaliseSite U c") (auto simp: Let_def split: if_splits)
qed simp

subsection \<open>Amendments\<close>

lemma amendPlan_covers:
  "planCoversSite U (Some (amendPlan U a c now)) url \<longleftrightarrow>
   planCoversSite U (Some a) url \<or>
   (\<exists>info. parseOrigin U url = Some info \<and> normaliseSite U c = Some (oi_site info))"
  by (auto simp: planCoversSite_def amendPlan_def split: option.splits)

lemma amendPlan_version:
  "pa_version (amendPlan U a c now) =
   (if set (pa_approvedSites (amendPlan U a c now)) = set (pa_approvedSites a) then pa_version a
    else pa_version a + 1)"
  by (auto simp: amendPlan_def split: option.splits)

lemma amendPlan_distinct:
  "distinct (pa_approvedSites a) \<Longrightarrow> distinct (pa_approvedSites (amendPlan U a c now))"
  by (auto simp: amendPlan_def split: option.splits)

lemma amendPlan_frame [simp]:
  "pa_planId (amendPlan U a c now) = pa_planId a"
  "pa_taskId (amendPlan U a c now) = pa_taskId a"
  by (simp_all add: amendPlan_def split: option.splits)

lemma amendPlan_idem: "amendPlan U (amendPlan U a c now) c later = amendPlan U a c now"
  by (auto simp: amendPlan_def split: option.splits)

fun amend_all :: "url_parser \<Rightarrow> plan_approval \<Rightarrow> (string \<times> rat) list \<Rightarrow> plan_approval" where
  "amend_all U a [] = a"
| "amend_all U a ((c, now) # cs) = amend_all U (amendPlan U a c now) cs"

lemma amend_all_covers:
  "planCoversSite U (Some (amend_all U a cs)) url \<longleftrightarrow>
   planCoversSite U (Some a) url \<or>
   (\<exists>info. parseOrigin U url = Some info \<and> Some (oi_site info) \<in> normaliseSite U ` fst ` set cs)"
  by (induction U a cs rule: amend_all.induct) (auto simp: amendPlan_covers)

lemma amend_all_version:
  "pa_version (amend_all U a cs) = pa_version a + int (length (pa_approvedSites (amend_all U a cs))) -
     int (length (pa_approvedSites a))"
proof (induction U a cs rule: amend_all.induct)
  case (2 U a c now cs)
  have "pa_version (amendPlan U a c now) = pa_version a +
      int (length (pa_approvedSites (amendPlan U a c now))) - int (length (pa_approvedSites a))"
    by (simp add: amendPlan_def split: option.splits)
  with 2 show ?case by simp
qed simp

subsection \<open>Reading an approval back\<close>

lemma parse_sites_Some:
  "parse_sites U entries = Some sites \<Longrightarrow>
   list_all2 (\<lambda>entry site. \<exists>s. entry = JStr s \<and> normaliseSite U s = Some site) entries sites"
  by (induction entries arbitrary: sites) (auto split: json.splits option.splits)

lemma nonempty_text_Some: "nonempty_text v = Some s \<longleftrightarrow> v = JStr s \<and> s \<noteq> []"
  by (auto simp: nonempty_text_def split: json.splits)

lemma safe_version_Some: "safe_version v = Some n \<Longrightarrow> 1 \<le> n"
  by (auto simp: safe_version_def le_floor_iff split: json.splits js_num.splits if_splits)

lemma parsePlanApproval_sound:
  assumes "parsePlanApproval U v expected = Some a"
  shows "(expected = None \<or> expected = Some (pa_taskId a)) \<and> 1 \<le> pa_version a \<and>
    pa_planId a \<noteq> [] \<and> pa_taskId a \<noteq> [] \<and>
    (\<exists>obj entries. v = JObj obj \<and> json_get obj ''approvedSites'' = JArr entries \<and>
       json_get obj ''approvalProvenance'' = JStr ''USER_PANEL_ACTION'' \<and>
       list_all2 (\<lambda>entry site. \<exists>s. entry = JStr s \<and> normaliseSite U s = Some site)
         entries (pa_approvedSites a))"
  using assms
  by (auto simp: parsePlanApproval_def nonempty_text_Some
      dest!: parse_sites_Some safe_version_Some split: json.splits option.splits if_splits)

text \<open>The stored form of an approval, and the sites that survive a round trip.\<close>

definition approval_json :: "plan_approval \<Rightarrow> json" where
  "approval_json a =
     JObj ([(''planId'', JStr (pa_planId a)), (''taskId'', JStr (pa_taskId a)),
            (''version'', JNum (Fin (of_int (pa_version a)))),
            (''approvedSites'', JArr (map JStr (pa_approvedSites a))),
            (''approvedAt'', JNum (Fin (pa_approvedAt a))),
            (''approvalProvenance'', JStr ''USER_PANEL_ACTION'')] @
           (case pa_supersedes a of None \<Rightarrow> [] | Some s \<Rightarrow> [(''supersedes'', JStr s)]))"

definition approval_ok :: "url_parser \<Rightarrow> plan_approval \<Rightarrow> bool" where
  "approval_ok U a =
     (pa_planId a \<noteq> [] \<and> pa_taskId a \<noteq> [] \<and> 1 \<le> pa_version a \<and>
      pa_version a \<le> max_safe_integer \<and>
      list_all (\<lambda>s. normaliseSite U s = Some s) (pa_approvedSites a))"

lemma parse_sites_fixed:
  "list_all (\<lambda>s. normaliseSite U s = Some s) sites \<Longrightarrow> parse_sites U (map JStr sites) = Some sites"
  by (induction sites) auto

lemma parsePlanApproval_json:
  assumes "approval_ok U a"
  shows "parsePlanApproval U (approval_json a) (Some (pa_taskId a)) = Some a"
proof -
  have "safe_version (JNum (Fin (of_int (pa_version a)))) = Some (pa_version a)"
    using assms by (simp add: safe_version_def safe_integer_def rat_integer_def approval_ok_def)
  moreover have "parse_sites U (map JStr (pa_approvedSites a)) = Some (pa_approvedSites a)"
    using assms by (simp add: approval_ok_def parse_sites_fixed)
  moreover have "pa_approvalProvenance a = USER_PANEL_ACTION"
    by (cases "pa_approvalProvenance a") simp
  ultimately show ?thesis
    using assms
    by (cases "pa_supersedes a")
      (auto simp: parsePlanApproval_def approval_json_def json_get_def nonempty_text_def
        finite_number_def approval_ok_def)
qed

subsection \<open>Properties\<close>

text \<open>
  A plan grows only by what the person adds: after any sequence of amendments it covers a URL
  exactly when it did before or the URL's site is one of those amended, and its version counts the
  sites added.
\<close>

theorem plan_amendments_exact:
  "(planCoversSite U (Some (amend_all U a cs)) url \<longleftrightarrow>
      planCoversSite U (Some a) url \<or>
      (\<exists>info. parseOrigin U url = Some info \<and> Some (oi_site info) \<in> normaliseSite U ` fst ` set cs)) \<and>
   pa_version (amend_all U a cs) = pa_version a + int (length (pa_approvedSites (amend_all U a cs))) -
     int (length (pa_approvedSites a))"
  using amend_all_covers amend_all_version by blast

text \<open>
  C34. A stored approval is read back as written, for the task it belongs to; and any approval that
  is read at all belongs to the expected task, carries the person's provenance, has a version of at
  least one, and names only sites its normalisation accepts.
\<close>

theorem plan_storage_roundtrip:
  "(approval_ok U a \<longrightarrow> parsePlanApproval U (approval_json a) (Some (pa_taskId a)) = Some a) \<and>
   (parsePlanApproval U v expected = Some b \<longrightarrow>
      (expected = None \<or> expected = Some (pa_taskId b)) \<and> 1 \<le> pa_version b \<and>
      (\<exists>obj entries. v = JObj obj \<and> json_get obj ''approvedSites'' = JArr entries \<and>
         json_get obj ''approvalProvenance'' = JStr ''USER_PANEL_ACTION'' \<and>
         list_all2 (\<lambda>entry site. \<exists>s. entry = JStr s \<and> normaliseSite U s = Some site)
           entries (pa_approvedSites b)))"
  using parsePlanApproval_json [of U a] parsePlanApproval_sound [of U v expected b] by blast

theorem plan_storage_roundtrip_witness:
  "parsePlanApproval https_parser
     (approval_json \<lparr>pa_planId = ''p1'', pa_taskId = ''t1'', pa_version = 2,
        pa_approvedSites = [''example.com''], pa_approvedAt = 5,
        pa_approvalProvenance = USER_PANEL_ACTION, pa_supersedes = Some ''p1@1''\<rparr>) (Some ''t1'') =
   Some \<lparr>pa_planId = ''p1'', pa_taskId = ''t1'', pa_version = 2,
     pa_approvedSites = [''example.com''], pa_approvedAt = 5,
     pa_approvalProvenance = USER_PANEL_ACTION, pa_supersedes = Some ''p1@1''\<rparr>"
proof -
  let ?a = "\<lparr>pa_planId = ''p1'', pa_taskId = ''t1'', pa_version = 2,
    pa_approvedSites = [''example.com''], pa_approvedAt = 5,
    pa_approvalProvenance = USER_PANEL_ACTION, pa_supersedes = Some ''p1@1''\<rparr>"
  have "normaliseSite https_parser ''example.com'' = Some ''example.com''" by code_simp
  then have "approval_ok https_parser ?a"
    by (simp add: approval_ok_def max_safe_integer_def)
  then show ?thesis using plan_storage_roundtrip [of https_parser ?a] by simp
qed

text \<open>
  A proposal never names more than twenty sites, none of them twice or empty, and each is the
  normal form of a candidate the model wrote; approving it approves exactly these.
\<close>

theorem proposal_bounded:
  "let p = buildProposal U i t text candidates now in
   length (pp_proposedSites p) \<le> MAX_PROPOSED_SITES \<and> distinct (pp_proposedSites p) \<and>
   (\<forall>s \<in> set (pp_proposedSites p). s \<noteq> [] \<and> (\<exists>c \<in> set candidates. normaliseSite U c = Some s)) \<and>
   length (pp_approachText p) \<le> 2000 \<and>
   pa_approvedSites (approvePlan p planId later) = pp_proposedSites p"
  using collect_sites_bound [of "[]" U candidates] collect_sites_distinct [of "[]" U candidates]
    collect_sites_from [of _ U "[]" candidates]
  by (auto simp: buildProposal_def approvePlan_def Let_def MAX_PROPOSED_SITES_def)

theorem proposal_bounded_witness:
  "length (pp_proposedSites (buildProposal https_parser ''p'' ''t'' [] [''a.test'', ''b.test''] 0)) \<le>
   MAX_PROPOSED_SITES"
  using proposal_bounded [of https_parser "''p''" "''t''" "[]" "[''a.test'', ''b.test'']" 0 "[]" 0]
  by (simp add: Let_def)

end
