(* ===== verification/Policy.thy ===== *)
theory Policy
  imports Taint Plan
begin

text \<open>
  \<open>src/policy/policy-engine.ts\<close>: the decision whether a proposed tool call may run. The one long
  function of the source is a sequence of stages that return early; each stage is a definition
  here, and \<open>evaluatePolicy\<close> composes them in the source's order.
\<close>

datatype policy_verdict = ALLOW | ALLOW_WITH_CONFIRMATION | DENY

datatype permission_mode = manual_mode | auto_mode | skip_mode

definition PERMISSION_MODES :: "permission_mode list" where
  "PERMISSION_MODES = [manual_mode, auto_mode, skip_mode]"

fun MODE_STRICTNESS :: "permission_mode \<Rightarrow> nat" where
  "MODE_STRICTNESS manual_mode = 2"
| "MODE_STRICTNESS auto_mode = 1"
| "MODE_STRICTNESS skip_mode = 0"

definition strictestMode :: "permission_mode \<Rightarrow> permission_mode \<Rightarrow> permission_mode" where
  "strictestMode a b = (if MODE_STRICTNESS a \<ge> MODE_STRICTNESS b then a else b)"

record policy_request =
  rq_tool :: string
  rq_taskId :: string
  rq_risk :: risk_level
  rq_prohibited :: "prohibited_category list option"
  rq_targetUrl :: "string option"
  rq_plannedUrl :: "string option"
  rq_currentUrl :: "string option"
  rq_siteScope :: "string option"
  rq_writeDestination :: "string option"
  rq_writePayload :: json
  rq_taintState :: "taint_state option"

record policy_context =
  cx_mode :: permission_mode
  cx_sitePolicy :: site_policy_state
  cx_allowInsecureOrigins :: "bool option"
  cx_unattended :: "bool option"
  cx_planApproval :: "plan_approval option"

datatype decision_code =
    PROHIBITED_ACTION
  | SITE_BLOCKED
  | ORIGIN_NOT_AUTOMATABLE
  | ORIGIN_CHANGED
  | EXFILTRATION_BLOCKED
  | EXFILTRATION_CONFIRM
  | RISK_REQUIRES_APPROVAL
  | MODE_REQUIRES_APPROVAL
  | UNATTENDED_REQUIRES_APPROVAL
  | SITE_ALLOWED
  | PLAN_ALLOWED
  | LOW_RISK
  | MODE_SKIP

record policy_decision =
  pd_verdict :: policy_verdict
  pd_code :: decision_code
  pd_reason :: string
  pd_effectiveRisk :: risk_level
  pd_exfiltration :: "exfiltration_decision option"

definition ALWAYS_CONFIRM_AT :: risk_level where
  "ALWAYS_CONFIRM_AT = R3"

definition ALWAYS_DENY_AT :: risk_level where
  "ALWAYS_DENY_AT = R5"

definition AUTO_APPROVE_BELOW :: risk_level where
  "AUTO_APPROVE_BELOW = R2"

text \<open>A string read in a condition: absent and empty are both falsy.\<close>

definition truthy :: "string option \<Rightarrow> string option" where
  "truthy s = (if s = Some [] then None else s)"

fun risk_name :: "risk_level \<Rightarrow> string" where
  "risk_name R0 = ''R0''"
| "risk_name R1 = ''R1''"
| "risk_name R2 = ''R2''"
| "risk_name R3 = ''R3''"
| "risk_name R4 = ''R4''"
| "risk_name R5 = ''R5''"

fun relation_name :: "origin_relation \<Rightarrow> string" where
  "relation_name same_origin = ''same-origin''"
| "relation_name same_site = ''same-site''"
| "relation_name cross_site = ''cross-site''"
| "relation_name unknown_relation = ''unknown''"

subsection \<open>The stages\<close>

text \<open>\<open>Some d\<close> is an early return of \<open>d\<close>; \<open>None\<close> goes on to the next stage.\<close>

definition prohibition_stage :: "policy_request \<Rightarrow> policy_decision option" where
  "prohibition_stage request =
     (case rq_prohibited request of
        Some (first # _) \<Rightarrow>
          Some \<lparr>pd_verdict = DENY, pd_code = PROHIBITED_ACTION,
                pd_reason = ''Blocked by a hard safety rule: '' @ PROHIBITED_DESCRIPTIONS first,
                pd_effectiveRisk = R5, pd_exfiltration = None\<rparr>
      | _ \<Rightarrow>
          if RISK_RANK (rq_risk request) \<ge> RISK_RANK ALWAYS_DENY_AT then
            Some \<lparr>pd_verdict = DENY, pd_code = PROHIBITED_ACTION,
                  pd_reason = ''This action is classified as prohibited and is never executed.'',
                  pd_effectiveRisk = rq_risk request, pd_exfiltration = None\<rparr>
          else None)"

definition blocked_site ::
  "url_parser \<Rightarrow> policy_request \<Rightarrow> policy_context \<Rightarrow> string option \<Rightarrow> policy_decision option" where
  "blocked_site U request ctx url =
     (case truthy url of
        None \<Rightarrow> None
      | Some u \<Rightarrow>
          (case findRule U (cx_sitePolicy ctx) u of
             None \<Rightarrow> None
           | Some rule \<Rightarrow>
               if sr_decision rule = Block then
                 Some \<lparr>pd_verdict = DENY, pd_code = SITE_BLOCKED,
                       pd_reason = sr_site rule @ '' is on the blocked-sites list.'',
                       pd_effectiveRisk = rq_risk request, pd_exfiltration = None\<rparr>
               else None))"

definition navigable_stage ::
  "url_parser \<Rightarrow> policy_request \<Rightarrow> policy_context \<Rightarrow> policy_decision option" where
  "navigable_stage U request ctx =
     (case truthy (rq_targetUrl request) of
        None \<Rightarrow> None
      | Some url \<Rightarrow>
          let navigable = checkNavigable U url (cx_allowInsecureOrigins ctx)
          in if oc_allowed navigable then None
             else Some \<lparr>pd_verdict = DENY, pd_code = ORIGIN_NOT_AUTOMATABLE,
                        pd_reason =
                          (case oc_detail navigable of None \<Rightarrow> ''This page cannot be automated.''
                             | Some detail \<Rightarrow> detail),
                        pd_effectiveRisk = rq_risk request, pd_exfiltration = None\<rparr>)"

definition drift :: "url_parser \<Rightarrow> policy_request \<Rightarrow> origin_transition option" where
  "drift U request =
     (case (truthy (rq_plannedUrl request), truthy (rq_currentUrl request)) of
        (Some planned, Some current) \<Rightarrow>
          let transition = evaluateTransition U planned current
          in if ot_requiresRevalidation transition then Some transition else None
      | _ \<Rightarrow> None)"

text \<open>The drift stage either returns or continues with an effective risk.\<close>

definition drift_stage :: "url_parser \<Rightarrow> policy_request \<Rightarrow> policy_decision + risk_level" where
  "drift_stage U request =
     (case drift U request of
        None \<Rightarrow> Inr (rq_risk request)
      | Some transition \<Rightarrow>
          if RISK_RANK (rq_risk request) \<ge> RISK_RANK R1 then
            Inl \<lparr>pd_verdict = ALLOW_WITH_CONFIRMATION, pd_code = ORIGIN_CHANGED,
                 pd_reason =
                   ''The page moved from '' @ ot_from transition @ '' to '' @ ot_to transition @
                   '' ('' @ relation_name (ot_relation transition) @
                   '') after this action was planned. Confirm before continuing.'',
                 pd_effectiveRisk = maxRisk (rq_risk request) R2, pd_exfiltration = None\<rparr>
          else Inr (maxRisk (rq_risk request) R1))"

definition write_decision :: "url_parser \<Rightarrow> policy_request \<Rightarrow> exfiltration_decision option" where
  "write_decision U request =
     (case rq_writeDestination request of
        None \<Rightarrow> None
      | Some destination \<Rightarrow>
          Some (evaluateExfiltration U destination (rq_writePayload request)
            (taintSources
              (case rq_taintState request of None \<Rightarrow> unknownTaint field_absent
                 | Some state \<Rightarrow> state))))"

definition exfiltration_stage ::
  "exfiltration_decision option \<Rightarrow> risk_level \<Rightarrow> policy_decision option" where
  "exfiltration_stage exfiltration effectiveRisk =
     (case exfiltration of
        None \<Rightarrow> None
      | Some decision \<Rightarrow>
          (case xd_verdict decision of
             xf_block \<Rightarrow>
               Some \<lparr>pd_verdict = DENY, pd_code = EXFILTRATION_BLOCKED,
                     pd_reason = xd_reason decision, pd_effectiveRisk = R4,
                     pd_exfiltration = Some decision\<rparr>
           | xf_confirm \<Rightarrow>
               Some \<lparr>pd_verdict = ALLOW_WITH_CONFIRMATION, pd_code = EXFILTRATION_CONFIRM,
                     pd_reason = xd_reason decision, pd_effectiveRisk = maxRisk effectiveRisk R3,
                     pd_exfiltration = Some decision\<rparr>
           | xf_allow \<Rightarrow> None))"

text \<open>The closures \<open>base\<close> and \<open>allow\<close> of the source.\<close>

definition base_decision ::
  "risk_level \<Rightarrow> exfiltration_decision option \<Rightarrow> decision_code \<Rightarrow> string \<Rightarrow> policy_decision" where
  "base_decision effectiveRisk exfiltration code reason =
     \<lparr>pd_verdict = ALLOW_WITH_CONFIRMATION, pd_code = code, pd_reason = reason,
      pd_effectiveRisk = effectiveRisk, pd_exfiltration = exfiltration\<rparr>"

definition allow_decision ::
  "risk_level \<Rightarrow> exfiltration_decision option \<Rightarrow> decision_code \<Rightarrow> string \<Rightarrow> policy_decision" where
  "allow_decision effectiveRisk exfiltration code reason =
     \<lparr>pd_verdict = ALLOW, pd_code = code, pd_reason = reason,
      pd_effectiveRisk = effectiveRisk, pd_exfiltration = exfiltration\<rparr>"

definition floor_stage :: "exfiltration_decision option \<Rightarrow> risk_level \<Rightarrow> policy_decision option" where
  "floor_stage exfiltration effectiveRisk =
     (if RISK_RANK effectiveRisk \<ge> RISK_RANK ALWAYS_CONFIRM_AT then
        Some (base_decision effectiveRisk exfiltration RISK_REQUIRES_APPROVAL
          ''This action has a sensitive external side effect and always requires approval.'')
      else None)"

definition unattended_stage ::
  "policy_context \<Rightarrow> exfiltration_decision option \<Rightarrow> risk_level \<Rightarrow> policy_decision option" where
  "unattended_stage ctx exfiltration effectiveRisk =
     (if cx_unattended ctx = Some True \<and>
         RISK_RANK effectiveRisk \<ge> RISK_RANK AUTO_APPROVE_BELOW then
        Some (base_decision effectiveRisk exfiltration UNATTENDED_REQUIRES_APPROVAL
          ''This action changes state and nobody is present to approve it.'')
      else None)"

definition plan_applies ::
  "url_parser \<Rightarrow> policy_request \<Rightarrow> policy_context \<Rightarrow> risk_level \<Rightarrow> bool" where
  "plan_applies U request ctx effectiveRisk =
     (cx_planApproval ctx \<noteq> None \<and> cx_unattended ctx \<noteq> Some True \<and>
      RISK_RANK effectiveRisk \<le> RISK_RANK PLAN_MAX_RISK \<and>
      (case rq_siteScope request of
         None \<Rightarrow> False
       | Some scope \<Rightarrow> planCoversSite U (cx_planApproval ctx) scope))"

definition plan_stage ::
  "url_parser \<Rightarrow> policy_request \<Rightarrow> policy_context \<Rightarrow> exfiltration_decision option \<Rightarrow> risk_level \<Rightarrow>
   policy_decision option" where
  "plan_stage U request ctx exfiltration effectiveRisk =
     (if plan_applies U request ctx effectiveRisk then
        Some (allow_decision effectiveRisk exfiltration PLAN_ALLOWED
          ''This site is in the plan you approved for this task.'')
      else None)"

text \<open>\<open>request.siteScope ?? request.targetUrl\<close>: an empty scope is kept by \<open>??\<close>, then falsy.\<close>

definition grant_scope :: "policy_request \<Rightarrow> string option" where
  "grant_scope request =
     truthy (case rq_siteScope request of Some s \<Rightarrow> Some s | None \<Rightarrow> rq_targetUrl request)"

definition site_grant ::
  "url_parser \<Rightarrow> policy_request \<Rightarrow> policy_context \<Rightarrow> risk_level \<Rightarrow> site_rule option" where
  "site_grant U request ctx effectiveRisk =
     (case grant_scope request of
        None \<Rightarrow> None
      | Some scope \<Rightarrow>
          (case findRule U (cx_sitePolicy ctx) scope of
             None \<Rightarrow> None
           | Some rule \<Rightarrow>
               if sr_decision rule = Allow \<and> RISK_RANK effectiveRisk \<le> RISK_RANK (sr_maxRisk rule)
               then Some rule else None))"

definition mode_stage ::
  "url_parser \<Rightarrow> policy_request \<Rightarrow> policy_context \<Rightarrow> exfiltration_decision option \<Rightarrow> risk_level \<Rightarrow>
   policy_decision" where
  "mode_stage U request ctx exfiltration effectiveRisk =
     (case cx_mode ctx of
        skip_mode \<Rightarrow>
          allow_decision effectiveRisk exfiltration MODE_SKIP
            ''Skip mode: no approval prompt. Hard safety rules still applied.''
      | manual_mode \<Rightarrow>
          if RISK_RANK effectiveRisk = RISK_RANK R0 then
            allow_decision effectiveRisk exfiltration LOW_RISK ''Read-only action.''
          else
            base_decision effectiveRisk exfiltration MODE_REQUIRES_APPROVAL
              ''Manual mode: every changing action is confirmed.''
      | auto_mode \<Rightarrow>
          if RISK_RANK effectiveRisk < RISK_RANK AUTO_APPROVE_BELOW then
            allow_decision effectiveRisk exfiltration LOW_RISK
              ''Low-risk action approved automatically in Auto mode.''
          else
            (case site_grant U request ctx effectiveRisk of
               Some rule \<Rightarrow>
                 allow_decision effectiveRisk exfiltration SITE_ALLOWED
                   (sr_site rule @ '' is trusted for actions up to '' @
                    risk_name (sr_maxRisk rule) @ ''.'')
             | None \<Rightarrow>
                 base_decision effectiveRisk exfiltration MODE_REQUIRES_APPROVAL
                   ''Auto mode: this action changes page state.''))"

definition or_else :: "'a option \<Rightarrow> 'a \<Rightarrow> 'a" where
  "or_else early rest = (case early of Some d \<Rightarrow> d | None \<Rightarrow> rest)"

text \<open>Stages five to eight: what no refusal has answered.\<close>

definition authorise_stages ::
  "url_parser \<Rightarrow> policy_request \<Rightarrow> policy_context \<Rightarrow> exfiltration_decision option \<Rightarrow> risk_level \<Rightarrow>
   policy_decision" where
  "authorise_stages U request ctx exfiltration effectiveRisk =
     or_else (floor_stage exfiltration effectiveRisk)
       (or_else (unattended_stage ctx exfiltration effectiveRisk)
         (or_else (plan_stage U request ctx exfiltration effectiveRisk)
           (mode_stage U request ctx exfiltration effectiveRisk)))"

definition evaluatePolicy ::
  "url_parser \<Rightarrow> policy_request \<Rightarrow> policy_context \<Rightarrow> policy_decision" where
  "evaluatePolicy U request ctx =
     or_else (prohibition_stage request)
       (or_else (blocked_site U request ctx (rq_siteScope request))
         (or_else (blocked_site U request ctx (rq_targetUrl request))
           (or_else (navigable_stage U request ctx)
             (case drift_stage U request of
                Inl decision \<Rightarrow> decision
              | Inr effectiveRisk \<Rightarrow>
                  let exfiltration = write_decision U request
                  in or_else (exfiltration_stage exfiltration effectiveRisk)
                       (authorise_stages U request ctx exfiltration effectiveRisk)))))"

subsection \<open>The modes\<close>

lemma MODE_STRICTNESS_inj: "MODE_STRICTNESS a = MODE_STRICTNESS b \<Longrightarrow> a = b"
  by (cases a; cases b) simp_all

interpretation mode: severity_scale MODE_STRICTNESS strictestMode
  by unfold_locales (auto simp: strictestMode_def intro: MODE_STRICTNESS_inj)

fun policy_rank :: "policy_verdict \<Rightarrow> nat" where
  "policy_rank ALLOW = 0"
| "policy_rank ALLOW_WITH_CONFIRMATION = 1"
| "policy_rank DENY = 2"

subsection \<open>What each stage answers\<close>

lemmas constants = ALWAYS_CONFIRM_AT_def ALWAYS_DENY_AT_def AUTO_APPROVE_BELOW_def
  PLAN_MAX_RISK_def

lemma decision_selectors [simp]:
  "pd_verdict (allow_decision r x c s) = ALLOW"
  "pd_verdict (base_decision r x c s) = ALLOW_WITH_CONFIRMATION"
  "pd_effectiveRisk (allow_decision r x c s) = r"
  "pd_effectiveRisk (base_decision r x c s) = r"
  "pd_code (allow_decision r x c s) = c"
  "pd_code (base_decision r x c s) = c"
  "pd_exfiltration (allow_decision r x c s) = x"
  "pd_exfiltration (base_decision r x c s) = x"
  by (simp_all add: allow_decision_def base_decision_def)

lemma or_else_simps [simp]: "or_else (Some d) e = d" "or_else None e = e"
  by (simp_all add: or_else_def)

definition prohibited_request :: "policy_request \<Rightarrow> bool" where
  "prohibited_request request \<longleftrightarrow>
     (rq_prohibited request \<noteq> None \<and> rq_prohibited request \<noteq> Some []) \<or> rq_risk request = R5"

definition blocks :: "url_parser \<Rightarrow> policy_context \<Rightarrow> string option \<Rightarrow> bool" where
  "blocks U ctx url \<longleftrightarrow>
     (\<exists>u rule. url = Some u \<and> u \<noteq> [] \<and> findRule U (cx_sitePolicy ctx) u = Some rule \<and>
        sr_decision rule = Block)"

definition navigable_target :: "url_parser \<Rightarrow> policy_request \<Rightarrow> policy_context \<Rightarrow> bool" where
  "navigable_target U request ctx \<longleftrightarrow>
     (\<forall>u. rq_targetUrl request = Some u \<longrightarrow> u \<noteq> [] \<longrightarrow>
        oc_allowed (checkNavigable U u (cx_allowInsecureOrigins ctx)))"

definition drifted :: "url_parser \<Rightarrow> policy_request \<Rightarrow> bool" where
  "drifted U request \<longleftrightarrow> drift U request \<noteq> None"

lemma prohibition_stage_cases:
  "prohibition_stage request = None \<longleftrightarrow> \<not> prohibited_request request"
  "prohibition_stage request = Some d \<Longrightarrow> pd_verdict d = DENY"
  by (auto simp: prohibition_stage_def prohibited_request_def constants rank_simps
      split: option.splits list.splits if_splits)

lemma blocked_site_cases:
  "blocked_site U request ctx url = None \<longleftrightarrow> \<not> blocks U ctx url"
  "blocked_site U request ctx url = Some d \<Longrightarrow> pd_verdict d = DENY"
  by (auto simp: blocked_site_def blocks_def truthy_def split: option.splits if_splits)

lemma navigable_stage_cases:
  "navigable_stage U request ctx = None \<longleftrightarrow> navigable_target U request ctx"
  "navigable_stage U request ctx = Some d \<Longrightarrow> pd_verdict d = DENY"
  by (auto simp: navigable_stage_def navigable_target_def truthy_def Let_def
      split: option.splits if_splits)

lemma drift_stage_cases:
  "drift_stage U request = Inl d \<Longrightarrow>
     pd_verdict d = ALLOW_WITH_CONFIRMATION \<and> drifted U request \<and> rq_risk request \<noteq> R0"
  "drift_stage U request = Inr r \<Longrightarrow>
     (if drifted U request then rq_risk request = R0 \<and> r = R1 else r = rq_risk request)"
  by (auto simp: drift_stage_def drifted_def rank_simps maxRisk_def split: option.splits if_splits)

lemma exfiltration_stage_cases:
  "exfiltration_stage x r = None \<longleftrightarrow> (\<forall>d. x = Some d \<longrightarrow> xd_verdict d = xf_allow)"
  "exfiltration_stage x r = Some d \<Longrightarrow>
     pd_verdict d = (if \<exists>e. x = Some e \<and> xd_verdict e = xf_block then DENY
                     else ALLOW_WITH_CONFIRMATION)"
  by (auto simp: exfiltration_stage_def split: option.splits exfiltration_verdict.splits)

text \<open>When the authorising stages allow: the floor, the unattended rule, then plan or mode.\<close>

definition mode_allows ::
  "url_parser \<Rightarrow> policy_request \<Rightarrow> policy_context \<Rightarrow> risk_level \<Rightarrow> bool" where
  "mode_allows U request ctx r \<longleftrightarrow>
     (case cx_mode ctx of
        skip_mode \<Rightarrow> True
      | manual_mode \<Rightarrow> r = R0
      | auto_mode \<Rightarrow> r < R2 \<or> site_grant U request ctx r \<noteq> None)"

lemma mode_stage_verdict:
  "pd_verdict (mode_stage U request ctx x r) =
     (if mode_allows U request ctx r then ALLOW else ALLOW_WITH_CONFIRMATION)"
  by (auto simp: mode_stage_def mode_allows_def constants rank_simps less_risk_level_def
      split: permission_mode.splits option.splits)

lemma authorise_verdict:
  "pd_verdict (authorise_stages U request ctx x r) =
     (if r \<le> R2 \<and> \<not> (cx_unattended ctx = Some True \<and> R2 \<le> r) \<and>
         (plan_applies U request ctx r \<or> mode_allows U request ctx r)
      then ALLOW else ALLOW_WITH_CONFIRMATION)"
  by (cases r) (auto simp: authorise_stages_def floor_stage_def unattended_stage_def plan_stage_def
      mode_stage_verdict constants less_eq_risk_level_def)

lemma authorise_risk [simp]: "pd_effectiveRisk (authorise_stages U request ctx x r) = r"
  by (auto simp: authorise_stages_def floor_stage_def unattended_stage_def plan_stage_def
      mode_stage_def split: permission_mode.splits option.splits)

subsection \<open>The whole decision\<close>

definition refused :: "url_parser \<Rightarrow> policy_request \<Rightarrow> policy_context \<Rightarrow> bool" where
  "refused U request ctx \<longleftrightarrow>
     prohibited_request request \<or> blocks U ctx (rq_siteScope request) \<or>
     blocks U ctx (rq_targetUrl request) \<or> \<not> navigable_target U request ctx"

definition drift_confirms :: "url_parser \<Rightarrow> policy_request \<Rightarrow> bool" where
  "drift_confirms U request \<longleftrightarrow> drifted U request \<and> rq_risk request \<noteq> R0"

definition drift_risk :: "url_parser \<Rightarrow> policy_request \<Rightarrow> risk_level" where
  "drift_risk U request = (if drifted U request then R1 else rq_risk request)"

definition write_verdict :: "url_parser \<Rightarrow> policy_request \<Rightarrow> exfiltration_verdict" where
  "write_verdict U request =
     (case write_decision U request of None \<Rightarrow> xf_allow | Some e \<Rightarrow> xd_verdict e)"

definition authorised :: "url_parser \<Rightarrow> policy_request \<Rightarrow> policy_context \<Rightarrow> risk_level \<Rightarrow> bool" where
  "authorised U request ctx r \<longleftrightarrow>
     r \<le> R2 \<and> \<not> (cx_unattended ctx = Some True \<and> R2 \<le> r) \<and>
     (plan_applies U request ctx r \<or> mode_allows U request ctx r)"

lemma refused_verdict:
  "refused U request ctx \<Longrightarrow> pd_verdict (evaluatePolicy U request ctx) = DENY"
  using prohibition_stage_cases [of request] blocked_site_cases [of U request ctx]
    navigable_stage_cases [of U request ctx]
  by (auto simp: evaluatePolicy_def refused_def or_else_def split: option.splits)

lemma not_refused_stages:
  assumes "\<not> refused U request ctx"
  shows "evaluatePolicy U request ctx =
    (case drift_stage U request of
       Inl decision \<Rightarrow> decision
     | Inr r \<Rightarrow> or_else (exfiltration_stage (write_decision U request) r)
         (authorise_stages U request ctx (write_decision U request) r))"
proof -
  have "prohibition_stage request = None"
    and "\<And>url. url \<in> {rq_siteScope request, rq_targetUrl request} \<Longrightarrow>
      blocked_site U request ctx url = None"
    and "navigable_stage U request ctx = None"
    using assms
    by (auto simp: refused_def prohibition_stage_cases blocked_site_cases navigable_stage_cases)
  then show ?thesis
    by (simp add: evaluatePolicy_def Let_def split: sum.split)
qed

lemma drift_stage_eq:
  "(\<exists>d. drift_stage U request = Inl d \<and> pd_verdict d = ALLOW_WITH_CONFIRMATION \<and>
        pd_effectiveRisk d = maxRisk (rq_risk request) R2 \<and> pd_code d = ORIGIN_CHANGED \<and>
        pd_exfiltration d = None) \<and>
     drift_confirms U request \<or>
   drift_stage U request = Inr (drift_risk U request) \<and> \<not> drift_confirms U request"
  by (auto simp: drift_stage_def drift_confirms_def drift_risk_def drifted_def rank_simps
      maxRisk_def split: option.splits)

lemma exfiltration_verdicts:
  "write_verdict U request = xf_allow \<Longrightarrow>
     exfiltration_stage (write_decision U request) r = None"
  "write_verdict U request = xf_block \<Longrightarrow>
     \<exists>d. exfiltration_stage (write_decision U request) r = Some d \<and> pd_verdict d = DENY"
  "write_verdict U request = xf_confirm \<Longrightarrow>
     \<exists>d. exfiltration_stage (write_decision U request) r = Some d \<and>
       pd_verdict d = ALLOW_WITH_CONFIRMATION \<and> pd_effectiveRisk d = maxRisk r R3"
  by (auto simp: write_verdict_def exfiltration_stage_def split: option.splits)

text \<open>The verdict of the composed stages, in one equation.\<close>

lemma evaluatePolicy_verdict:
  "pd_verdict (evaluatePolicy U request ctx) =
     (if refused U request ctx then DENY
      else if drift_confirms U request then ALLOW_WITH_CONFIRMATION
      else if write_verdict U request = xf_block then DENY
      else if write_verdict U request = xf_confirm then ALLOW_WITH_CONFIRMATION
      else if authorised U request ctx (drift_risk U request) then ALLOW
      else ALLOW_WITH_CONFIRMATION)"
proof (cases "refused U request ctx")
  case True
  then show ?thesis by (simp add: refused_verdict)
next
  case False
  note stages = not_refused_stages [OF False]
  show ?thesis
    using drift_stage_eq [of U request]
  proof (elim disjE conjE exE)
    fix d
    assume "drift_stage U request = Inl d" "pd_verdict d = ALLOW_WITH_CONFIRMATION"
      "drift_confirms U request"
    with False show ?thesis by (simp add: stages)
  next
    assume d: "drift_stage U request = Inr (drift_risk U request)" "\<not> drift_confirms U request"
    show ?thesis
      using exfiltration_verdicts [of U request "drift_risk U request"] False d
      by (cases "write_verdict U request")
        (auto simp: stages authorise_verdict authorised_def)
  qed
qed

lemma allow_iff:
  "pd_verdict (evaluatePolicy U request ctx) = ALLOW \<longleftrightarrow>
     \<not> refused U request ctx \<and> \<not> drift_confirms U request \<and>
     write_verdict U request = xf_allow \<and> authorised U request ctx (drift_risk U request)"
  by (cases "write_verdict U request") (simp_all add: evaluatePolicy_verdict)

lemma deny_iff:
  "pd_verdict (evaluatePolicy U request ctx) = DENY \<longleftrightarrow>
     refused U request ctx \<or>
     \<not> drift_confirms U request \<and> write_verdict U request = xf_block"
  by (cases "write_verdict U request") (simp_all add: evaluatePolicy_verdict)

lemma allow_risk:
  assumes "pd_verdict (evaluatePolicy U request ctx) = ALLOW"
  shows "pd_effectiveRisk (evaluatePolicy U request ctx) = drift_risk U request"
    and "pd_effectiveRisk (evaluatePolicy U request ctx) \<le> R2"
    and "rq_risk request \<le> pd_effectiveRisk (evaluatePolicy U request ctx)"
proof -
  have a: "\<not> refused U request ctx" "\<not> drift_confirms U request"
    "write_verdict U request = xf_allow" "authorised U request ctx (drift_risk U request)"
    using assms by (simp_all add: allow_iff)
  show eq: "pd_effectiveRisk (evaluatePolicy U request ctx) = drift_risk U request"
    using drift_stage_eq [of U request] a by (auto simp: not_refused_stages exfiltration_verdicts)
  show "pd_effectiveRisk (evaluatePolicy U request ctx) \<le> R2"
    unfolding eq using a(4) by (simp add: authorised_def)
  show "rq_risk request \<le> pd_effectiveRisk (evaluatePolicy U request ctx)"
    unfolding eq using a(2) by (auto simp: drift_risk_def drift_confirms_def less_eq_risk_level_def)
qed

lemma confirm_risk_monotone:
  assumes "pd_verdict (evaluatePolicy U request ctx) = ALLOW_WITH_CONFIRMATION"
  shows "rq_risk request \<le> pd_effectiveRisk (evaluatePolicy U request ctx)"
proof -
  have n: "\<not> refused U request ctx"
    using assms by (auto simp: refused_verdict)
  have le: "drift_risk U request = r \<Longrightarrow> \<not> drift_confirms U request \<Longrightarrow> rq_risk request \<le> r" for r
    by (auto simp: drift_risk_def drift_confirms_def less_eq_risk_level_def)
  show ?thesis
    using drift_stage_eq [of U request] exfiltration_verdicts [of U request "drift_risk U request"]
      assms n le [OF refl]
    by (cases "write_verdict U request")
      (auto simp: not_refused_stages maxRisk_max intro: max.coboundedI1)
qed

subsection \<open>Facts the callers use\<close>

text \<open>The refusing facts read neither the mode, nor the plan, nor the unattended flag.\<close>

lemma refused_context [simp]:
  "refused U request (ctx\<lparr>cx_mode := m\<rparr>) = refused U request ctx"
  "refused U request (ctx\<lparr>cx_planApproval := p\<rparr>) = refused U request ctx"
  "refused U request (ctx\<lparr>cx_unattended := u\<rparr>) = refused U request ctx"
  by (simp_all add: refused_def blocks_def navigable_target_def)

lemma mode_allows_strict:
  "MODE_STRICTNESS m \<le> MODE_STRICTNESS m' \<Longrightarrow>
   mode_allows U request (ctx\<lparr>cx_mode := m'\<rparr>) r \<Longrightarrow>
   mode_allows U request (ctx\<lparr>cx_mode := m\<rparr>) r"
  by (cases m; cases m'; cases r)
    (auto simp: mode_allows_def less_risk_level_def site_grant_def split: option.splits)

lemma authorised_strict:
  "MODE_STRICTNESS m \<le> MODE_STRICTNESS m' \<Longrightarrow>
   authorised U request (ctx\<lparr>cx_mode := m'\<rparr>) r \<Longrightarrow>
   authorised U request (ctx\<lparr>cx_mode := m\<rparr>) r"
  using mode_allows_strict [of m m' U request ctx r]
  by (auto simp: authorised_def plan_applies_def split: option.splits)

lemma stricter_mode_rank:
  assumes "MODE_STRICTNESS m \<le> MODE_STRICTNESS m'"
  shows "policy_rank (pd_verdict (evaluatePolicy U request (ctx\<lparr>cx_mode := m\<rparr>))) \<le>
    policy_rank (pd_verdict (evaluatePolicy U request (ctx\<lparr>cx_mode := m'\<rparr>)))"
  using authorised_strict [OF assms, of U request ctx "drift_risk U request"]
  by (simp add: evaluatePolicy_verdict)

text \<open>Two decisions that differ in the approved plan only differ at the plan stage.\<close>

lemma context_stages [simp]:
  "blocked_site U request (ctx\<lparr>cx_planApproval := p\<rparr>) url = blocked_site U request ctx url"
  "navigable_stage U request (ctx\<lparr>cx_planApproval := p\<rparr>) = navigable_stage U request ctx"
  "unattended_stage (ctx\<lparr>cx_planApproval := p\<rparr>) x r = unattended_stage ctx x r"
  "mode_stage U request (ctx\<lparr>cx_planApproval := p\<rparr>) x r = mode_stage U request ctx x r"
  by (simp_all add: blocked_site_def navigable_stage_def unattended_stage_def mode_stage_def
      site_grant_def cong: option.case_cong permission_mode.case_cong)

lemma mode_stage_code:
  "pd_code (mode_stage U request ctx x r) \<in> {MODE_REQUIRES_APPROVAL, LOW_RISK, MODE_SKIP, SITE_ALLOWED}"
  by (auto simp: mode_stage_def split: permission_mode.split option.split)

definition plan_effect ::
  "url_parser \<Rightarrow> policy_request \<Rightarrow> policy_context \<Rightarrow> plan_approval \<Rightarrow> policy_decision \<Rightarrow>
   policy_decision \<Rightarrow> bool" where
  "plan_effect U request ctx p with_plan without_plan \<longleftrightarrow>
     pd_code with_plan = PLAN_ALLOWED \<and> pd_effectiveRisk with_plan \<le> R2 \<and>
     pd_code without_plan \<in> {MODE_REQUIRES_APPROVAL, LOW_RISK, MODE_SKIP, SITE_ALLOWED} \<and>
     cx_unattended ctx \<noteq> Some True \<and>
     (\<exists>scope. rq_siteScope request = Some scope \<and> planCoversSite U (Some p) scope)"

lemma authorise_plan:
  "authorise_stages U request (ctx\<lparr>cx_planApproval := Some p\<rparr>) x r =
     authorise_stages U request (ctx\<lparr>cx_planApproval := None\<rparr>) x r \<or>
   plan_effect U request ctx p (authorise_stages U request (ctx\<lparr>cx_planApproval := Some p\<rparr>) x r)
     (authorise_stages U request (ctx\<lparr>cx_planApproval := None\<rparr>) x r)"
  using mode_stage_code [of U request ctx x r]
  by (cases "floor_stage x r"; cases "unattended_stage ctx x r"; cases r; cases "rq_siteScope request")
    (auto simp: authorise_stages_def plan_stage_def plan_applies_def plan_effect_def constants
      less_eq_risk_level_def)

definition refusal ::
  "url_parser \<Rightarrow> policy_request \<Rightarrow> policy_context \<Rightarrow> policy_decision option" where
  "refusal U request ctx =
     (case prohibition_stage request of Some d \<Rightarrow> Some d | None \<Rightarrow>
        (case blocked_site U request ctx (rq_siteScope request) of Some d \<Rightarrow> Some d | None \<Rightarrow>
          (case blocked_site U request ctx (rq_targetUrl request) of Some d \<Rightarrow> Some d | None \<Rightarrow>
            navigable_stage U request ctx)))"

lemma refusal_None: "refusal U request ctx = None \<longleftrightarrow> \<not> refused U request ctx"
  by (simp add: refusal_def refused_def prohibition_stage_cases(1) [symmetric]
      blocked_site_cases(1) [symmetric, of U ctx _ request]
      navigable_stage_cases(1) [symmetric] split: option.split)

lemma refusal_Some: "refusal U request ctx = Some d \<Longrightarrow> evaluatePolicy U request ctx = d"
  by (simp add: refusal_def evaluatePolicy_def split: option.split_asm)

lemma refusal_plan [simp]:
  "refusal U request (ctx\<lparr>cx_planApproval := p\<rparr>) = refusal U request ctx"
  by (simp add: refusal_def cong: option.case_cong)

lemma evaluatePolicy_plan:
  "evaluatePolicy U request (ctx\<lparr>cx_planApproval := Some p\<rparr>) =
     evaluatePolicy U request (ctx\<lparr>cx_planApproval := None\<rparr>) \<or>
   plan_effect U request ctx p (evaluatePolicy U request (ctx\<lparr>cx_planApproval := Some p\<rparr>))
     (evaluatePolicy U request (ctx\<lparr>cx_planApproval := None\<rparr>))"
proof (cases "refused U request ctx")
  case True
  then obtain d where d: "refusal U request ctx = Some d"
    using refusal_None [of U request ctx] by auto
  then have "evaluatePolicy U request (ctx\<lparr>cx_planApproval := q\<rparr>) = d" for q
    by (intro refusal_Some) simp
  then show ?thesis by simp
next
  case False
  note n = not_refused_stages [of U request "ctx\<lparr>cx_planApproval := q\<rparr>" for q, simplified, OF False]
  show ?thesis
    using authorise_plan [of U request p ctx "write_decision U request" "drift_risk U request"]
      drift_stage_eq [of U request]
    by (cases "exfiltration_stage (write_decision U request) (drift_risk U request)")
      (auto simp: n)
qed

text \<open>The taint state is read by the write decision only.\<close>

lemma taint_stages [simp]:
  "prohibition_stage (request\<lparr>rq_taintState := t\<rparr>) = prohibition_stage request"
  "blocked_site U (request\<lparr>rq_taintState := t\<rparr>) ctx url = blocked_site U request ctx url"
  "navigable_stage U (request\<lparr>rq_taintState := t\<rparr>) ctx = navigable_stage U request ctx"
  "drift_stage U (request\<lparr>rq_taintState := t\<rparr>) = drift_stage U request"
  by (auto simp: prohibition_stage_def blocked_site_def navigable_stage_def drift_stage_def
      drift_def Let_def split: option.split list.split)

lemma taint_authorise [simp]:
  "authorise_stages U (request\<lparr>rq_taintState := t\<rparr>) ctx x r = authorise_stages U request ctx x r"
  by (simp add: authorise_stages_def plan_stage_def plan_applies_def mode_stage_def site_grant_def
      grant_scope_def cong: option.case_cong permission_mode.case_cong if_cong)

lemma write_decision_unknown:
  "write_decision U (request\<lparr>rq_taintState := Some (UNKNOWN r)\<rparr>) =
   write_decision U (request\<lparr>rq_taintState := Some KNOWN_UNTAINTED\<rparr>)"
  by (simp add: write_decision_def taintSources_def cong: option.case_cong)

subsection \<open>Properties\<close>

text \<open>The request and the context the witnesses run with.\<close>

definition sample_request :: policy_request where
  "sample_request =
     \<lparr>rq_tool = ''browser.click'', rq_taskId = ''t1'', rq_risk = R2, rq_prohibited = None,
      rq_targetUrl = Some ''https://shop.example.com/a'', rq_plannedUrl = None,
      rq_currentUrl = None, rq_siteScope = Some ''https://shop.example.com/a'',
      rq_writeDestination = None, rq_writePayload = JUndef, rq_taintState = None\<rparr>"

definition sample_context :: policy_context where
  "sample_context =
     \<lparr>cx_mode = skip_mode, cx_sitePolicy = emptySitePolicyState, cx_allowInsecureOrigins = None,
      cx_unattended = None, cx_planApproval = None\<rparr>"

text \<open>
  C31. \<open>evaluatePolicy\<close> is sound where it allows: the request names no prohibited category, its
  effective risk is at least the classified one and at most R2 (at most R1 when unattended), no
  blocking rule governs its scope or its target, the target may be automated, the page did not
  move under a changing action, and an outbound write was allowed by the exfiltration guard.
\<close>

theorem policy_allow_sound:
  assumes "pd_verdict (evaluatePolicy U request ctx) = ALLOW"
  shows "rq_prohibited request \<in> {None, Some []} \<and>
    rq_risk request \<le> pd_effectiveRisk (evaluatePolicy U request ctx) \<and>
    pd_effectiveRisk (evaluatePolicy U request ctx) \<le>
      (if cx_unattended ctx = Some True then R1 else R2) \<and>
    (\<forall>u rule. Some u \<in> {rq_siteScope request, rq_targetUrl request} \<and> u \<noteq> [] \<and>
       findRule U (cx_sitePolicy ctx) u = Some rule \<longrightarrow> sr_decision rule = Allow) \<and>
    (\<forall>u. rq_targetUrl request = Some u \<and> u \<noteq> [] \<longrightarrow>
       oc_allowed (checkNavigable U u (cx_allowInsecureOrigins ctx))) \<and>
    (\<forall>planned current. rq_plannedUrl request = Some planned \<and> planned \<noteq> [] \<and>
       rq_currentUrl request = Some current \<and> current \<noteq> [] \<and>
       ot_requiresRevalidation (evaluateTransition U planned current) \<longrightarrow> rq_risk request = R0) \<and>
    (\<forall>dest. rq_writeDestination request = Some dest \<longrightarrow>
       \<not> payloadContainsSecret (rq_writePayload request))"
    (is "?prohibited \<and> ?rise \<and> ?bound \<and> ?rules \<and> ?navigable \<and> ?still \<and> ?payload")
proof (intro conjI)
  note a = assms [unfolded allow_iff]
  note r = allow_risk [OF assms]
  show ?prohibited
    using a by (auto simp: refused_def prohibited_request_def)
  show ?rise
    by (rule r(3))
  show ?bound
    using a r(1,2)
    by (cases "drift_risk U request") (auto simp: authorised_def less_eq_risk_level_def)
  show ?rules
    using a by (metis (full_types) blocks_def insertE refused_def singletonD site_decision.exhaust)
  show ?navigable
    using a by (auto simp: refused_def navigable_target_def)
  show ?still
    using a by (auto simp: drift_confirms_def drifted_def drift_def truthy_def Let_def)
  show ?payload
    using a by (auto simp: write_verdict_def write_decision_def exfiltration_allow_iff)
qed

theorem policy_allow_sound_witness:
  "pd_effectiveRisk (evaluatePolicy https_parser sample_request sample_context) \<le> R2 \<and>
   oc_allowed (checkNavigable https_parser ''https://shop.example.com/a'' None)"
proof -
  have v: "pd_verdict (evaluatePolicy https_parser sample_request sample_context) = ALLOW"
    by code_simp
  have u: "cx_unattended sample_context \<noteq> Some True" "cx_allowInsecureOrigins sample_context = None"
    "rq_targetUrl sample_request = Some ''https://shop.example.com/a''"
    by (simp_all add: sample_context_def sample_request_def)
  show ?thesis
    using policy_allow_sound [OF v] u by auto
qed

text \<open>
  A denial is decided by the refusing stages alone: it holds exactly when a refusal applies, or
  a write whose payload holds a secret is reached without a drift confirmation before it; and no
  mode, no approved plan and no unattended flag turns it into anything else.
\<close>

theorem policy_deny_exact:
  "(pd_verdict (evaluatePolicy U request ctx) = DENY \<longleftrightarrow>
      refused U request ctx \<or>
      \<not> drift_confirms U request \<and> write_verdict U request = xf_block) \<and>
   (pd_verdict (evaluatePolicy U request
      (ctx\<lparr>cx_mode := m, cx_unattended := u, cx_planApproval := p\<rparr>)) = DENY \<longleftrightarrow>
    pd_verdict (evaluatePolicy U request ctx) = DENY)"
  by (simp add: deny_iff)

text \<open>
  Running under the strictest of two modes answers with the strictest of the two answers, for
  every request and every other part of the context.
\<close>

theorem policy_strictest_mode:
  "policy_rank (pd_verdict (evaluatePolicy U request (ctx\<lparr>cx_mode := strictestMode a b\<rparr>))) =
   max (policy_rank (pd_verdict (evaluatePolicy U request (ctx\<lparr>cx_mode := a\<rparr>))))
     (policy_rank (pd_verdict (evaluatePolicy U request (ctx\<lparr>cx_mode := b\<rparr>))))"
  using stricter_mode_rank [of a b U request ctx] stricter_mode_rank [of b a U request ctx]
    mode.worst_cases [of a b] mode.worst_left [of a b] mode.worst_right [of b a]
  by (auto simp: max_def strictestMode_def)

text \<open>
  C19. An approved plan changes exactly one thing: what the permission mode would have answered, a
  question included, becomes \<open>PLAN_ALLOWED\<close>, for a scope the plan covers, at most R2, with
  somebody present. Every other decision is the one without the plan.
\<close>

theorem policy_plan_effect:
  assumes "evaluatePolicy U request (ctx\<lparr>cx_planApproval := Some p\<rparr>) \<noteq>
    evaluatePolicy U request (ctx\<lparr>cx_planApproval := None\<rparr>)"
  shows "pd_code (evaluatePolicy U request (ctx\<lparr>cx_planApproval := Some p\<rparr>)) = PLAN_ALLOWED \<and>
    pd_effectiveRisk (evaluatePolicy U request (ctx\<lparr>cx_planApproval := Some p\<rparr>)) \<le> R2 \<and>
    pd_code (evaluatePolicy U request (ctx\<lparr>cx_planApproval := None\<rparr>)) \<in>
      {MODE_REQUIRES_APPROVAL, LOW_RISK, MODE_SKIP, SITE_ALLOWED} \<and>
    cx_unattended ctx \<noteq> Some True \<and>
    (\<exists>scope. rq_siteScope request = Some scope \<and> planCoversSite U (Some p) scope)"
  using evaluatePolicy_plan [of U request p ctx] assms by (simp add: plan_effect_def)

definition sample_plan :: plan_approval where
  "sample_plan =
     \<lparr>pa_planId = ''p1'', pa_taskId = ''t1'', pa_version = 1, pa_approvedSites = [''example.com''],
      pa_approvedAt = 0, pa_approvalProvenance = USER_PANEL_ACTION, pa_supersedes = None\<rparr>"

theorem policy_plan_effect_witness:
  "pd_code (evaluatePolicy https_parser sample_request
      (sample_context\<lparr>cx_mode := manual_mode, cx_planApproval := Some sample_plan\<rparr>)) = PLAN_ALLOWED"
proof -
  have "pd_code (evaluatePolicy https_parser sample_request
      (sample_context\<lparr>cx_mode := manual_mode, cx_planApproval := Some sample_plan\<rparr>)) \<noteq>
    pd_code (evaluatePolicy https_parser sample_request
      (sample_context\<lparr>cx_mode := manual_mode, cx_planApproval := None\<rparr>))"
    by code_simp
  then have "evaluatePolicy https_parser sample_request
      (sample_context\<lparr>cx_mode := manual_mode, cx_planApproval := Some sample_plan\<rparr>) \<noteq>
    evaluatePolicy https_parser sample_request
      (sample_context\<lparr>cx_mode := manual_mode, cx_planApproval := None\<rparr>)"
    by metis
  then show ?thesis
    using policy_plan_effect [of https_parser sample_request sample_plan
        "sample_context\<lparr>cx_mode := manual_mode\<rparr>"] by simp
qed

text \<open>
  A blocking rule stored for a site refuses every request scoped to it or aimed at it, whatever
  rules were there before, whatever the mode, the plan and the risk.
\<close>

theorem policy_block_rule_denies:
  assumes "sr_decision rule = Block" and "u \<noteq> []"
    and "rq_siteScope request = Some u \<or> rq_targetUrl request = Some u"
    and "siteForUrl U u = Some (siteOf (sr_site rule))" and "siteOf (sr_site rule) \<noteq> []"
  shows "pd_verdict (evaluatePolicy U request
    (ctx\<lparr>cx_sitePolicy := upsertRule state rule\<rparr>)) = DENY"
proof -
  have "findRule U (upsertRule state rule) u = Some (rule\<lparr>sr_site := siteOf (sr_site rule)\<rparr>)"
    using findRule_upsert [OF assms(4,5), of state rule] by simp
  then have "blocks U (ctx\<lparr>cx_sitePolicy := upsertRule state rule\<rparr>) (Some u)"
    using assms(1,2) by (simp add: blocks_def)
  then show ?thesis
    using assms(3) by (auto simp: deny_iff refused_def)
qed

definition sample_block :: site_rule where
  "sample_block =
     \<lparr>sr_site = ''www.example.com'', sr_decision = Block, sr_maxRisk = R0, sr_createdAt = 0,
      sr_note = None\<rparr>"

theorem policy_block_rule_denies_witness:
  "pd_verdict (evaluatePolicy https_parser sample_request
    (sample_context\<lparr>cx_sitePolicy := upsertRule emptySitePolicyState sample_block\<rparr>)) = DENY"
proof (rule policy_block_rule_denies [of _ "''https://shop.example.com/a''"])
  show "sr_decision sample_block = Block" by code_simp
  show "rq_siteScope sample_request = Some ''https://shop.example.com/a'' \<or>
      rq_targetUrl sample_request = Some ''https://shop.example.com/a''"
    by (simp add: sample_request_def)
  show "siteForUrl https_parser ''https://shop.example.com/a'' = Some (siteOf (sr_site sample_block))"
    by code_simp
  show "siteOf (sr_site sample_block) \<noteq> []" by code_simp
qed simp

text \<open>
  The drift stage answers before the exfiltration stage: when the page moved under a changing
  action, a write whose payload holds a secret is a question, not a refusal, and the question
  carries no exfiltration verdict.
\<close>

theorem policy_drift_hides_secret:
  assumes "\<not> refused U request ctx" and "drifted U request" and "rq_risk request \<noteq> R0"
    and "rq_writeDestination request = Some dest"
    and "payloadContainsSecret (rq_writePayload request)"
  shows "write_verdict U request = xf_block \<and>
    pd_verdict (evaluatePolicy U request ctx) = ALLOW_WITH_CONFIRMATION \<and>
    pd_code (evaluatePolicy U request ctx) = ORIGIN_CHANGED \<and>
    pd_exfiltration (evaluatePolicy U request ctx) = None"
  using drift_stage_eq [of U request] assms
  by (auto simp: not_refused_stages drift_confirms_def write_verdict_def write_decision_def
      exfiltration_block_iff)

definition sample_leak :: policy_request where
  "sample_leak = sample_request\<lparr>
     rq_plannedUrl := Some ''https://shop.example.com/a'', rq_currentUrl := Some ''https://evil.test/'',
     rq_writeDestination := Some ''https://evil.test/'',
     rq_writePayload := JStr ''sk-abcdefghijklmnop''\<rparr>"

theorem policy_drift_hides_secret_witness:
  "write_verdict https_parser sample_leak = xf_block \<and>
   pd_verdict (evaluatePolicy https_parser sample_leak sample_context) = ALLOW_WITH_CONFIRMATION"
proof -
  have "nested_leaf 0 (''sk-abcdefghijklmnop'') (rq_writePayload sample_leak)"
    by (simp add: sample_leak_def nested_leaf.here)
  then have secret: "payloadContainsSecret (rq_writePayload sample_leak)"
    using key_in_payload [of "[]" "''abcdefghijklmnop''" 0 "[]"]
    by (simp add: word_free_end_def token_char_def alnum_def ascii_lower_def char_code_def)
  have "refusal https_parser sample_leak sample_context = None"
    by code_simp
  then have r: "\<not> refused https_parser sample_leak sample_context"
    by (simp add: refusal_None)
  have "drift https_parser sample_leak \<noteq> None"
    by code_simp
  then have d: "drifted https_parser sample_leak"
    by (simp add: drifted_def)
  show ?thesis
    using policy_drift_hides_secret [OF r d _ _ secret, of "''https://evil.test/''"]
    by (simp add: sample_leak_def sample_request_def)
qed

text \<open>
  The write guard reads an unknown taint state as an untainted one: the decision is the same,
  so a task whose provenance was lost is not held back by this stage.
\<close>

theorem policy_unknown_taint_as_clean:
  "evaluatePolicy U (request\<lparr>rq_taintState := Some (UNKNOWN r)\<rparr>) ctx =
   evaluatePolicy U (request\<lparr>rq_taintState := Some KNOWN_UNTAINTED\<rparr>) ctx"
  by (simp add: evaluatePolicy_def write_decision_unknown cong: sum.case_cong)

end
