(* ===== verification/Results.thy ===== *)
theory Results
  imports Interfaces
begin

text \<open>
  \<open>src/types/result.ts\<close>, \<open>src/agent/recovery/retry-policy.ts\<close> and \<open>src/agent/budget/budget.ts\<close>: the
  error codes and what may be retried, the retry decision, and the resource budget of a task.
\<close>

subsection \<open>Errors\<close>

datatype error_code =
    AUTH_REQUIRED | AUTH_EXPIRED | PERMISSION_DENIED | POLICY_BLOCKED_ERROR | TOOL_NOT_FOUND
  | INVALID_ARGUMENT | ELEMENT_NOT_FOUND | ELEMENT_NOT_INTERACTABLE | TAB_NOT_FOUND
  | NAVIGATION_TIMEOUT | NETWORK_ERROR | CONNECTOR_ERROR | MCP_ERROR | RATE_LIMITED | MODEL_ERROR
  | MODEL_UNSUPPORTED | TOOL_CALL_INVALID | CONTEXT_LIMIT | TASK_TIMEOUT | LOOP_DETECTED
  | USER_CANCELLED | ORIGIN_CHANGED_ERROR | BUDGET_EXHAUSTED | NOT_IMPLEMENTED | INTERNAL_ERROR
  | DEBUGGER_UNAVAILABLE | PAGE_NOT_READY

fun error_name :: "error_code \<Rightarrow> string" where
  "error_name AUTH_REQUIRED = ''AUTH_REQUIRED''"
| "error_name AUTH_EXPIRED = ''AUTH_EXPIRED''"
| "error_name PERMISSION_DENIED = ''PERMISSION_DENIED''"
| "error_name POLICY_BLOCKED_ERROR = ''POLICY_BLOCKED''"
| "error_name TOOL_NOT_FOUND = ''TOOL_NOT_FOUND''"
| "error_name INVALID_ARGUMENT = ''INVALID_ARGUMENT''"
| "error_name ELEMENT_NOT_FOUND = ''ELEMENT_NOT_FOUND''"
| "error_name ELEMENT_NOT_INTERACTABLE = ''ELEMENT_NOT_INTERACTABLE''"
| "error_name TAB_NOT_FOUND = ''TAB_NOT_FOUND''"
| "error_name NAVIGATION_TIMEOUT = ''NAVIGATION_TIMEOUT''"
| "error_name NETWORK_ERROR = ''NETWORK_ERROR''"
| "error_name CONNECTOR_ERROR = ''CONNECTOR_ERROR''"
| "error_name MCP_ERROR = ''MCP_ERROR''"
| "error_name RATE_LIMITED = ''RATE_LIMITED''"
| "error_name MODEL_ERROR = ''MODEL_ERROR''"
| "error_name MODEL_UNSUPPORTED = ''MODEL_UNSUPPORTED''"
| "error_name TOOL_CALL_INVALID = ''TOOL_CALL_INVALID''"
| "error_name CONTEXT_LIMIT = ''CONTEXT_LIMIT''"
| "error_name TASK_TIMEOUT = ''TASK_TIMEOUT''"
| "error_name LOOP_DETECTED = ''LOOP_DETECTED''"
| "error_name USER_CANCELLED = ''USER_CANCELLED''"
| "error_name ORIGIN_CHANGED_ERROR = ''ORIGIN_CHANGED''"
| "error_name BUDGET_EXHAUSTED = ''BUDGET_EXHAUSTED''"
| "error_name NOT_IMPLEMENTED = ''NOT_IMPLEMENTED''"
| "error_name INTERNAL_ERROR = ''INTERNAL_ERROR''"
| "error_name DEBUGGER_UNAVAILABLE = ''DEBUGGER_UNAVAILABLE''"
| "error_name PAGE_NOT_READY = ''PAGE_NOT_READY''"

definition NON_RETRYABLE :: "error_code list" where
  "NON_RETRYABLE =
     [PERMISSION_DENIED, POLICY_BLOCKED_ERROR, AUTH_REQUIRED, AUTH_EXPIRED, INVALID_ARGUMENT,
      TOOL_CALL_INVALID, TOOL_NOT_FOUND, MODEL_UNSUPPORTED, USER_CANCELLED, LOOP_DETECTED,
      BUDGET_EXHAUSTED, NOT_IMPLEMENTED, ORIGIN_CHANGED_ERROR, MCP_ERROR]"

definition RETRYABLE :: "error_code list" where
  "RETRYABLE =
     [NETWORK_ERROR, RATE_LIMITED, NAVIGATION_TIMEOUT, ELEMENT_NOT_FOUND,
      ELEMENT_NOT_INTERACTABLE, PAGE_NOT_READY, CONNECTOR_ERROR]"

definition isRetryableCode :: "error_code \<Rightarrow> bool" where
  "isRetryableCode code =
     (if code \<in> set NON_RETRYABLE then False else code \<in> set RETRYABLE)"

record agent_error =
  ae_code :: error_code
  ae_message :: string
  ae_userMessage :: string
  ae_recoverable :: bool
  ae_retryable :: bool
  ae_technicalDetails :: "string option"

record error_init =
  ei_userMessage :: "string option"
  ei_recoverable :: "bool option"
  ei_retryable :: "bool option"
  ei_technicalDetails :: "string option"

definition default_init :: error_init where
  "default_init =
     \<lparr>ei_userMessage = None, ei_recoverable = None, ei_retryable = None,
      ei_technicalDetails = None\<rparr>"

definition or_default :: "'a option \<Rightarrow> 'a \<Rightarrow> 'a" where
  "or_default value fallback = (case value of None \<Rightarrow> fallback | Some v \<Rightarrow> v)"

definition createError :: "error_code \<Rightarrow> string \<Rightarrow> error_init \<Rightarrow> agent_error" where
  "createError code message init =
     (let retryable = or_default (ei_retryable init) (isRetryableCode code)
      in \<lparr>ae_code = code, ae_message = message,
          ae_userMessage = or_default (ei_userMessage init) message,
          ae_recoverable = or_default (ei_recoverable init) retryable,
          ae_retryable = retryable,
          ae_technicalDetails = ei_technicalDetails init\<rparr>)"

lemma or_default_simps [simp]: "or_default None d = d" "or_default (Some v) d = v"
  by (simp_all add: or_default_def)

lemma retry_lists_disjoint: "code \<in> set RETRYABLE \<Longrightarrow> code \<notin> set NON_RETRYABLE"
  by (auto simp: RETRYABLE_def NON_RETRYABLE_def)

lemma isRetryableCode_iff: "isRetryableCode code \<longleftrightarrow> code \<in> set RETRYABLE"
  using retry_lists_disjoint by (auto simp: isRetryableCode_def)

subsection \<open>The retry decision\<close>

text \<open>Delays are rationals, as JavaScript's numbers of milliseconds; \<open>random\<close> is the drawn value.\<close>

record retry_policy =
  rp_maxAttempts :: int
  rp_baseDelayMs :: rat
  rp_maxDelayMs :: rat
  rp_factor :: rat
  rp_maxServerDelayMs :: rat

definition DEFAULT_RETRY_POLICY :: retry_policy where
  "DEFAULT_RETRY_POLICY =
     \<lparr>rp_maxAttempts = 3, rp_baseDelayMs = 400, rp_maxDelayMs = 8000, rp_factor = 2,
      rp_maxServerDelayMs = 60000\<rparr>"

record retry_decision =
  rd_shouldRetry :: bool
  rd_delayMs :: int
  rd_reason :: string

record retry_classification =
  rc_code :: error_code
  rc_retryable :: bool
  rc_retryAfterMs :: "js_num option"

text \<open>\<open>Math.round\<close>: to the nearest integer, halves upwards.\<close>

definition js_round :: "rat \<Rightarrow> int" where
  "js_round q = \<lfloor>q + 1 / 2\<rfloor>"

definition stated_delay :: "js_num option \<Rightarrow> rat option" where
  "stated_delay stated =
     (case stated of Some (Fin q) \<Rightarrow> if 0 \<le> q then Some q else None | _ \<Rightarrow> None)"

definition decideRetryFor ::
  "retry_classification \<Rightarrow> int \<Rightarrow> retry_policy \<Rightarrow> rat \<Rightarrow> retry_decision" where
  "decideRetryFor classification attempt policy random =
     (let code = error_name (rc_code classification)
      in if \<not> rc_retryable classification then
           \<lparr>rd_shouldRetry = False, rd_delayMs = 0,
            rd_reason = code @ '' is not a transient failure.''\<rparr>
         else if attempt \<ge> rp_maxAttempts policy then
           \<lparr>rd_shouldRetry = False, rd_delayMs = 0,
            rd_reason =
              ''Retry limit reached ('' @ show_int (rp_maxAttempts policy) @ '' attempts).''\<rparr>
         else
           (case stated_delay (rc_retryAfterMs classification) of
              Some stated \<Rightarrow>
                if stated > rp_maxServerDelayMs policy then
                  \<lparr>rd_shouldRetry = False, rd_delayMs = 0,
                   rd_reason =
                     code @ ''; the provider asked to wait '' @ show_int \<lceil>stated / 1000\<rceil> @
                     ''s, which is longer than this task will hold for.''\<rparr>
                else
                  \<lparr>rd_shouldRetry = True, rd_delayMs = js_round stated,
                   rd_reason =
                     code @ ''; waiting the '' @ show_int \<lceil>stated / 1000\<rceil> @
                     ''s the provider asked for (attempt '' @ show_int (attempt + 1) @ '' of '' @
                     show_int (rp_maxAttempts policy) @ '').''\<rparr>
            | None \<Rightarrow>
                let exponential =
                      rp_baseDelayMs policy * power_int (rp_factor policy) (attempt - 1);
                    capped = min exponential (rp_maxDelayMs policy);
                    delayMs = js_round (capped * (1 / 2 + random * (1 / 2)))
                in \<lparr>rd_shouldRetry = True, rd_delayMs = delayMs,
                    rd_reason =
                      code @ '' is transient; retrying attempt '' @ show_int (attempt + 1) @
                      '' of '' @ show_int (rp_maxAttempts policy) @ ''.''\<rparr>))"

definition decideRetry :: "error_code \<Rightarrow> int \<Rightarrow> retry_policy \<Rightarrow> rat \<Rightarrow> retry_decision" where
  "decideRetry code attempt policy random =
     decideRetryFor
       \<lparr>rc_code = code, rc_retryable = isRetryableCode code, rc_retryAfterMs = None\<rparr>
       attempt policy random"

lemma shouldRetry_iff:
  "rd_shouldRetry (decideRetryFor c attempt policy random) \<longleftrightarrow>
     rc_retryable c \<and> attempt < rp_maxAttempts policy \<and>
     (\<forall>stated. stated_delay (rc_retryAfterMs c) = Some stated \<longrightarrow> stated \<le> rp_maxServerDelayMs policy)"
  by (auto simp: decideRetryFor_def Let_def split: option.splits)

lemma js_round_bounds: "0 \<le> q \<Longrightarrow> q \<le> of_int n \<Longrightarrow> 0 \<le> js_round q \<and> js_round q \<le> n"
  unfolding js_round_def by (simp add: le_floor_iff floor_le_iff)

lemma stated_delay_nonneg: "stated_delay s = Some q \<Longrightarrow> 0 \<le> q"
  by (auto simp: stated_delay_def split: option.splits js_num.splits if_splits)

lemma backoff_bounds:
  fixes capped random :: rat
  assumes "0 \<le> capped" and "0 \<le> random" and "random \<le> 1"
  shows "0 \<le> capped * (1 / 2 + random * (1 / 2)) \<and> capped * (1 / 2 + random * (1 / 2)) \<le> capped"
proof -
  have "1 / 2 + random * (1 / 2) \<le> 1" and "0 \<le> 1 / 2 + random * (1 / 2)"
    using assms by simp_all
  then show ?thesis
    using assms(1) mult_left_le [of "1 / 2 + random * (1 / 2)" capped] by simp
qed

lemma decideRetryFor_delay:
  assumes "rp_baseDelayMs policy \<ge> 0" and "rp_factor policy > 0"
    and "rp_maxDelayMs policy = of_int m" and "rp_maxServerDelayMs policy = of_int s" and "0 \<le> m"
    and "0 \<le> random" and "random \<le> 1"
  shows "0 \<le> rd_delayMs (decideRetryFor c attempt policy random) \<and>
    rd_delayMs (decideRetryFor c attempt policy random) \<le> max 0 (max m s)"
proof -
  let ?e = "rp_baseDelayMs policy * power_int (rp_factor policy) (attempt - 1)"
  let ?b = "min ?e (of_int m) * (1 / 2 + random * (1 / 2))"
  have nonneg: "0 \<le> min ?e (of_int m)"
    using assms(1,2,5) by simp
  have "?b \<le> of_int m" and "0 \<le> ?b"
    using backoff_bounds [OF nonneg assms(6,7)] by (simp_all add: min_le_iff_disj)
  then have b: "0 \<le> js_round ?b \<and> js_round ?b \<le> m"
    using js_round_bounds by blast
  have st: "0 \<le> js_round q \<and> js_round q \<le> s"
    if "stated_delay (rc_retryAfterMs c) = Some q" "q \<le> of_int s" for q
    using js_round_bounds stated_delay_nonneg [OF that(1)] that(2) by blast
  show ?thesis
    using b st by (auto simp: decideRetryFor_def Let_def assms(3,4) max_def split: option.splits)
qed

subsection \<open>The budget\<close>

record task_usage =
  us_toolCalls :: int
  us_modelRequests :: int
  us_retries :: int
  us_screenshots :: int
  us_externalWrites :: int
  us_promptTokens :: int
  us_completionTokens :: int
  us_elapsedMs :: int

definition emptyUsage :: task_usage where
  "emptyUsage =
     \<lparr>us_toolCalls = 0, us_modelRequests = 0, us_retries = 0, us_screenshots = 0,
      us_externalWrites = 0, us_promptTokens = 0, us_completionTokens = 0, us_elapsedMs = 0\<rparr>"

record resource_budget =
  bg_maxDurationMs :: int
  bg_maxToolCalls :: int
  bg_maxModelRequests :: int
  bg_maxRetries :: int
  bg_maxScreenshots :: int
  bg_maxExternalWrites :: int
  bg_maxTotalTokens :: int

definition DEFAULT_BUDGET :: resource_budget where
  "DEFAULT_BUDGET =
     \<lparr>bg_maxDurationMs = 10 * 60 * 1000, bg_maxToolCalls = 60, bg_maxModelRequests = 40,
      bg_maxRetries = 12, bg_maxScreenshots = 20, bg_maxExternalWrites = 10,
      bg_maxTotalTokens = 400000\<rparr>"

datatype budget_dimension =
  dim_duration | dim_toolCalls | dim_modelRequests | dim_retries | dim_screenshots
  | dim_externalWrites | dim_tokens

record budget_check =
  bc_exhausted :: bool
  bc_dimension :: "budget_dimension option"
  bc_detail :: "string option"

definition over :: "budget_dimension \<Rightarrow> int \<Rightarrow> int \<Rightarrow> string \<Rightarrow> budget_check option" where
  "over dimension used limit unit_name =
     (if used \<ge> limit then
        Some \<lparr>bc_exhausted = True, bc_dimension = Some dimension,
              bc_detail =
                Some (''Budget exhausted: '' @ show_int used @ '' of '' @ show_int limit @ '' '' @
                      unit_name @ '' used.'')\<rparr>
      else None)"

text \<open>The chain of \<open>??\<close>: the first dimension over its limit answers.\<close>

fun first_over :: "budget_check option list \<Rightarrow> budget_check" where
  "first_over [] = \<lparr>bc_exhausted = False, bc_dimension = None, bc_detail = None\<rparr>"
| "first_over (check # checks) =
     (case check of Some b \<Rightarrow> b | None \<Rightarrow> first_over checks)"

definition checkBudget :: "task_usage \<Rightarrow> resource_budget \<Rightarrow> budget_check" where
  "checkBudget usage budget =
     first_over
       [over dim_duration (us_elapsedMs usage) (bg_maxDurationMs budget) ''ms of runtime'',
        over dim_toolCalls (us_toolCalls usage) (bg_maxToolCalls budget) ''tool calls'',
        over dim_modelRequests (us_modelRequests usage) (bg_maxModelRequests budget)
          ''model requests'',
        over dim_retries (us_retries usage) (bg_maxRetries budget) ''retries'',
        over dim_screenshots (us_screenshots usage) (bg_maxScreenshots budget) ''screenshots'',
        over dim_externalWrites (us_externalWrites usage) (bg_maxExternalWrites budget)
          ''external writes'',
        over dim_tokens (us_promptTokens usage + us_completionTokens usage)
          (bg_maxTotalTokens budget) ''tokens'']"

lemma exhausted_iff:
  "bc_exhausted (checkBudget u b) \<longleftrightarrow>
     us_elapsedMs u \<ge> bg_maxDurationMs b \<or> us_toolCalls u \<ge> bg_maxToolCalls b \<or>
     us_modelRequests u \<ge> bg_maxModelRequests b \<or> us_retries u \<ge> bg_maxRetries b \<or>
     us_screenshots u \<ge> bg_maxScreenshots b \<or> us_externalWrites u \<ge> bg_maxExternalWrites b \<or>
     us_promptTokens u + us_completionTokens u \<ge> bg_maxTotalTokens b"
  by (simp add: checkBudget_def over_def)

text \<open>The dimension named in a check, and the ones before it in the chain.\<close>

definition dimension_over :: "task_usage \<Rightarrow> resource_budget \<Rightarrow> budget_dimension \<Rightarrow> bool" where
  "dimension_over u b dm =
     (case dm of
        dim_duration \<Rightarrow> us_elapsedMs u \<ge> bg_maxDurationMs b
      | dim_toolCalls \<Rightarrow> us_toolCalls u \<ge> bg_maxToolCalls b
      | dim_modelRequests \<Rightarrow> us_modelRequests u \<ge> bg_maxModelRequests b
      | dim_retries \<Rightarrow> us_retries u \<ge> bg_maxRetries b
      | dim_screenshots \<Rightarrow> us_screenshots u \<ge> bg_maxScreenshots b
      | dim_externalWrites \<Rightarrow> us_externalWrites u \<ge> bg_maxExternalWrites b
      | dim_tokens \<Rightarrow> us_promptTokens u + us_completionTokens u \<ge> bg_maxTotalTokens b)"

definition usage_le :: "task_usage \<Rightarrow> task_usage \<Rightarrow> bool" where
  "usage_le u v \<longleftrightarrow>
     us_toolCalls u \<le> us_toolCalls v \<and> us_modelRequests u \<le> us_modelRequests v \<and>
     us_retries u \<le> us_retries v \<and> us_screenshots u \<le> us_screenshots v \<and>
     us_externalWrites u \<le> us_externalWrites v \<and> us_promptTokens u \<le> us_promptTokens v \<and>
     us_completionTokens u \<le> us_completionTokens v \<and> us_elapsedMs u \<le> us_elapsedMs v"

lemma checkBudget_dimension:
  "bc_dimension (checkBudget u b) =
     List.find (dimension_over u b)
       [dim_duration, dim_toolCalls, dim_modelRequests, dim_retries, dim_screenshots,
        dim_externalWrites, dim_tokens]"
  by (simp add: checkBudget_def over_def dimension_over_def)

lemma exhausted_some_over: "bc_exhausted (checkBudget u b) \<longleftrightarrow> (\<exists>dm. dimension_over u b dm)"
proof -
  have "(\<exists>dm. dimension_over u b dm) \<longleftrightarrow>
      list_ex (dimension_over u b) [dim_duration, dim_toolCalls, dim_modelRequests, dim_retries,
        dim_screenshots, dim_externalWrites, dim_tokens]"
    by (simp add: list_ex_iff) (metis budget_dimension.exhaust)
  then show ?thesis
    by (simp add: exhausted_iff dimension_over_def)
qed

lemma dimension_over_mono: "usage_le u v \<Longrightarrow> dimension_over u b dm \<Longrightarrow> dimension_over v b dm"
  by (cases dm) (auto simp: usage_le_def dimension_over_def)

text \<open>
  The budget check is exact and cannot be outgrown. It is exhausted exactly where some dimension has
  reached its limit, the dimension it reports is one that has, a usage that only grew stays exhausted,
  and a fresh task is within the default budget.
\<close>

theorem budget_check_exact:
  "(bc_exhausted (checkBudget u b) \<longleftrightarrow> (\<exists>dm. dimension_over u b dm)) \<and>
   (\<forall>dm. bc_dimension (checkBudget u b) = Some dm \<longrightarrow> dimension_over u b dm) \<and>
   (bc_exhausted (checkBudget u b) \<longleftrightarrow> bc_dimension (checkBudget u b) \<noteq> None) \<and>
   (\<forall>v. usage_le u v \<longrightarrow> bc_exhausted (checkBudget u b) \<longrightarrow> bc_exhausted (checkBudget v b)) \<and>
   \<not> bc_exhausted (checkBudget emptyUsage DEFAULT_BUDGET)"
proof (intro conjI allI impI)
  show e: "bc_exhausted (checkBudget u b) \<longleftrightarrow> (\<exists>dm. dimension_over u b dm)"
    by (rule exhausted_some_over)
  show "dimension_over u b dm" if "bc_dimension (checkBudget u b) = Some dm" for dm
    using that unfolding checkBudget_dimension by (simp only: find_Some_iff) blast
  show "bc_exhausted (checkBudget u b) \<longleftrightarrow> bc_dimension (checkBudget u b) \<noteq> None"
    by (simp add: checkBudget_def over_def)
  show "bc_exhausted (checkBudget v b)" if "usage_le u v" and "bc_exhausted (checkBudget u b)" for v
    using that dimension_over_mono [OF that(1)] unfolding exhausted_some_over by blast
  show "\<not> bc_exhausted (checkBudget emptyUsage DEFAULT_BUDGET)"
    unfolding exhausted_iff by (simp add: emptyUsage_def DEFAULT_BUDGET_def)
qed

theorem budget_check_exact_witness:
  "bc_exhausted (checkBudget (emptyUsage\<lparr>us_toolCalls := 60\<rparr>) DEFAULT_BUDGET) \<and>
   bc_exhausted (checkBudget (emptyUsage\<lparr>us_toolCalls := 61\<rparr>) DEFAULT_BUDGET)"
proof -
  have "bc_exhausted (checkBudget (emptyUsage\<lparr>us_toolCalls := 60\<rparr>) DEFAULT_BUDGET)"
    unfolding exhausted_iff by (simp add: emptyUsage_def DEFAULT_BUDGET_def)
  moreover have "usage_le (emptyUsage\<lparr>us_toolCalls := 60\<rparr>) (emptyUsage\<lparr>us_toolCalls := 61\<rparr>)"
    by (simp add: usage_le_def emptyUsage_def)
  ultimately show ?thesis
    using budget_check_exact [of "emptyUsage\<lparr>us_toolCalls := 60\<rparr>" DEFAULT_BUDGET] by blast
qed

text \<open>
  Under the default policy a failure is retried exactly where it is classified as retryable, fewer
  than three attempts were made and the provider does not ask for more than a minute; the wait is never
  negative and never over a minute, and a failure that is not retried is not waited for.
\<close>

theorem retry_default_policy:
  assumes "0 \<le> random" and "random \<le> 1"
  shows "(rd_shouldRetry (decideRetryFor c attempt DEFAULT_RETRY_POLICY random) \<longleftrightarrow>
      rc_retryable c \<and> attempt < 3 \<and>
      (\<forall>q. rc_retryAfterMs c = Some (Fin q) \<longrightarrow> q \<le> 60000)) \<and>
    0 \<le> rd_delayMs (decideRetryFor c attempt DEFAULT_RETRY_POLICY random) \<and>
    rd_delayMs (decideRetryFor c attempt DEFAULT_RETRY_POLICY random) \<le> 60000 \<and>
    (\<not> rd_shouldRetry (decideRetryFor c attempt DEFAULT_RETRY_POLICY random) \<longrightarrow>
      rd_delayMs (decideRetryFor c attempt DEFAULT_RETRY_POLICY random) = 0)"
proof -
  let ?d = "decideRetryFor c attempt DEFAULT_RETRY_POLICY random"
  have "rd_shouldRetry ?d \<longleftrightarrow> rc_retryable c \<and> attempt < 3 \<and>
      (\<forall>q. rc_retryAfterMs c = Some (Fin q) \<longrightarrow> q \<le> 60000)"
    unfolding shouldRetry_iff
    by (auto simp: DEFAULT_RETRY_POLICY_def stated_delay_def split: option.splits js_num.splits if_splits)
  moreover have "0 \<le> rd_delayMs ?d \<and> rd_delayMs ?d \<le> 60000"
    using decideRetryFor_delay [of DEFAULT_RETRY_POLICY 8000 60000 random c attempt] assms
    by (simp add: DEFAULT_RETRY_POLICY_def)
  moreover have "\<not> rd_shouldRetry ?d \<longrightarrow> rd_delayMs ?d = 0"
    by (simp add: decideRetryFor_def Let_def split: option.split)
  ultimately show ?thesis by blast
qed

theorem retry_default_policy_witness:
  "rd_shouldRetry (decideRetry NETWORK_ERROR 1 DEFAULT_RETRY_POLICY (1 / 2)) \<and>
   rd_delayMs (decideRetry NETWORK_ERROR 1 DEFAULT_RETRY_POLICY (1 / 2)) \<le> 60000 \<and>
   \<not> rd_shouldRetry (decideRetry NETWORK_ERROR 3 DEFAULT_RETRY_POLICY (1 / 2))"
  using retry_default_policy [of "1 / 2" "\<lparr>rc_code = NETWORK_ERROR, rc_retryable = True, rc_retryAfterMs = None\<rparr>" 1]
    retry_default_policy [of "1 / 2" "\<lparr>rc_code = NETWORK_ERROR, rc_retryable = True, rc_retryAfterMs = None\<rparr>" 3]
  by (simp add: decideRetry_def isRetryableCode_def NON_RETRYABLE_def RETRYABLE_def)

end
