(* ===== verification/TaskModel.thy ===== *)
theory TaskModel
  imports Policy Results
begin

text \<open>
  \<open>src/tasks/task-model.ts\<close>: the states of a task and their transitions, the task record, and how
  a task is created.

  A task read from storage carries its security fields as unchecked JSON; once normalised they are
  typed. The record is parametric in the three fields, and both forms are instances.
\<close>

datatype task_state =
    QUEUED
  | PLANNING
  | RUNNING
  | WAITING_FOR_TOOL
  | WAITING_FOR_PERMISSION
  | WAITING_FOR_USER
  | PAUSED
  | RECOVERING
  | COMPLETED
  | PARTIAL
  | BLOCKED
  | FAILED
  | CANCELLED

definition TASK_STATES :: "task_state list" where
  "TASK_STATES =
     [QUEUED, PLANNING, RUNNING, WAITING_FOR_TOOL, WAITING_FOR_PERMISSION, WAITING_FOR_USER,
      PAUSED, RECOVERING, COMPLETED, PARTIAL, BLOCKED, FAILED, CANCELLED]"

definition TERMINAL_STATES :: "task_state list" where
  "TERMINAL_STATES = [COMPLETED, PARTIAL, BLOCKED, FAILED, CANCELLED]"

definition isTerminal :: "task_state \<Rightarrow> bool" where
  "isTerminal state = (state \<in> set TERMINAL_STATES)"

fun TRANSITIONS :: "task_state \<Rightarrow> task_state list" where
  "TRANSITIONS QUEUED = [PLANNING, PAUSED, CANCELLED, FAILED, BLOCKED, PARTIAL]"
| "TRANSITIONS PLANNING =
     [RUNNING, WAITING_FOR_USER, PAUSED, COMPLETED, FAILED, PARTIAL, CANCELLED, BLOCKED]"
| "TRANSITIONS RUNNING =
     [PLANNING, WAITING_FOR_TOOL, WAITING_FOR_PERMISSION, WAITING_FOR_USER, PAUSED, RECOVERING,
      COMPLETED, PARTIAL, BLOCKED, FAILED, CANCELLED]"
| "TRANSITIONS WAITING_FOR_TOOL =
     [RUNNING, WAITING_FOR_USER, RECOVERING, PAUSED, FAILED, PARTIAL, CANCELLED, BLOCKED]"
| "TRANSITIONS WAITING_FOR_PERMISSION = [RUNNING, BLOCKED, PAUSED, FAILED, PARTIAL, CANCELLED]"
| "TRANSITIONS WAITING_FOR_USER =
     [RUNNING, PLANNING, PAUSED, CANCELLED, FAILED, PARTIAL, BLOCKED]"
| "TRANSITIONS PAUSED = [RUNNING, PLANNING, CANCELLED, FAILED]"
| "TRANSITIONS RECOVERING =
     [RUNNING, PLANNING, PAUSED, PARTIAL, FAILED, CANCELLED, BLOCKED]"
| "TRANSITIONS COMPLETED = []"
| "TRANSITIONS PARTIAL = []"
| "TRANSITIONS BLOCKED = []"
| "TRANSITIONS FAILED = []"
| "TRANSITIONS CANCELLED = []"

definition canTransition :: "task_state \<Rightarrow> task_state \<Rightarrow> bool" where
  "canTransition from_state to_state = (to_state \<in> set (TRANSITIONS from_state))"

datatype step_kind = plan_step | tool_call_step | permission_step | error_step | message_step

datatype step_status = step_pending | step_success | step_error | step_denied | step_cancelled

record task_step =
  sp_id :: string
  sp_index :: nat
  sp_kind :: step_kind
  sp_summary :: string
  sp_tool :: "string option"
  sp_risk :: "risk_level option"
  sp_status :: step_status
  sp_startedAt :: int
  sp_finishedAt :: "int option"
  sp_evidenceIds :: "string list option"
  sp_error :: "agent_error option"

record agent_tab =
  tb_tabId :: int
  tb_role :: "string option"
  tb_url :: "string option"
  tb_origin :: "string option"
  tb_createdByAgent :: bool
  tb_lastObservedAt :: int

datatype task_outcome =
  out_COMPLETED | out_PARTIAL | out_BLOCKED | out_FAILED | out_CANCELLED

record task_result =
  tr_outcome :: task_outcome
  tr_summary :: string
  tr_completedActions :: "string list"
  tr_failedActions :: "string list"
  tr_blockedActions :: "string list"
  tr_externalWrites :: "string list"
  tr_evidenceIds :: "string list"

text \<open>The fields of a task that carry no security state.\<close>

record task_core =
  tk_id :: string
  tk_sessionId :: string
  tk_objective :: string
  tk_state :: task_state
  tk_providerId :: string
  tk_connectionId :: "string option"
  tk_workspaceId :: "string option"
  tk_modelId :: string
  tk_permissionMode :: permission_mode
  tk_authorizationModel :: "authorization_model option"
  tk_allowedTools :: "string list option"
  tk_permissionFloor :: "permission_mode option"
  tk_planProposal :: "plan_proposal option"
  tk_planApproval :: json
  tk_planRevisionNote :: "string option"
  tk_createdAt :: int
  tk_updatedAt :: int
  tk_startedAt :: "int option"
  tk_finishedAt :: "int option"
  tk_currentStepSummary :: "string option"
  tk_plan :: "string list"
  tk_steps :: "task_step list"
  tk_tabs :: "agent_tab list"
  tk_usage :: task_usage
  tk_evidenceIds :: "string list"
  tk_error :: "agent_error option"
  tk_result :: "task_result option"

record ('t, 's, 'e) task_record = task_core +
  tk_taintState :: 't
  tk_taintSalt :: 's
  tk_saltEpoch :: 'e

type_synonym agent_task = "(taint_state, string, int) task_record"
type_synonym stored_task = "(json, json, json) task_record"

record agent_session =
  ss_id :: string
  ss_providerId :: string
  ss_modelId :: string
  ss_permissionMode :: permission_mode
  ss_activeTaskId :: "string option"
  ss_createdAt :: int
  ss_lastActiveAt :: int

record create_task_input =
  in_id :: string
  in_sessionId :: string
  in_objective :: string
  in_providerId :: string
  in_connectionId :: "string option"
  in_workspaceId :: "string option"
  in_modelId :: string
  in_permissionMode :: permission_mode
  in_authorizationModel :: "authorization_model option"
  in_allowedTools :: "string list option"
  in_permissionFloor :: "permission_mode option"
  in_now :: int
  in_taintSalt :: "string option"

text \<open>\<open>/^[0-9a-f]{64}$/\<close>; \<open>$\<close> without flags is the end of the text.\<close>

definition hex_char :: "char \<Rightarrow> bool" where
  "hex_char c = (js_digit c \<or> (97 \<le> char_code c \<and> char_code c \<le> 102))"

definition isValidTaintSalt :: "json \<Rightarrow> bool" where
  "isValidTaintSalt salt =
     (case salt of JStr s \<Rightarrow> length s = 64 \<and> list_all hex_char s | _ \<Rightarrow> False)"

text \<open>The salt drawn where the input has none is the parameter \<open>generated\<close>.\<close>

definition createTask :: "create_task_input \<Rightarrow> string \<Rightarrow> agent_task" where
  "createTask input generated =
     \<lparr>tk_id = in_id input, tk_sessionId = in_sessionId input, tk_objective = in_objective input,
      tk_state = QUEUED, tk_providerId = in_providerId input,
      tk_connectionId = in_connectionId input, tk_workspaceId = in_workspaceId input,
      tk_modelId = in_modelId input, tk_permissionMode = in_permissionMode input,
      tk_authorizationModel = in_authorizationModel input,
      tk_allowedTools =
        (if in_allowedTools input = Some [] then None else in_allowedTools input),
      tk_permissionFloor = in_permissionFloor input, tk_planProposal = None,
      tk_planApproval = JUndef, tk_planRevisionNote = None, tk_createdAt = in_now input,
      tk_updatedAt = in_now input, tk_startedAt = None, tk_finishedAt = None,
      tk_currentStepSummary = None, tk_plan = [], tk_steps = [], tk_tabs = [],
      tk_usage = emptyUsage, tk_evidenceIds = [], tk_error = None, tk_result = None,
      tk_taintState = freshTaint,
      tk_taintSalt = (case in_taintSalt input of None \<Rightarrow> generated | Some salt \<Rightarrow> salt),
      tk_saltEpoch = 1\<rparr>"

fun outcomeForState :: "task_state \<Rightarrow> task_outcome option" where
  "outcomeForState COMPLETED = Some out_COMPLETED"
| "outcomeForState PARTIAL = Some out_PARTIAL"
| "outcomeForState BLOCKED = Some out_BLOCKED"
| "outcomeForState FAILED = Some out_FAILED"
| "outcomeForState CANCELLED = Some out_CANCELLED"
| "outcomeForState QUEUED = None"
| "outcomeForState PLANNING = None"
| "outcomeForState RUNNING = None"
| "outcomeForState WAITING_FOR_TOOL = None"
| "outcomeForState WAITING_FOR_PERMISSION = None"
| "outcomeForState WAITING_FOR_USER = None"
| "outcomeForState PAUSED = None"
| "outcomeForState RECOVERING = None"

subsection \<open>The state machine\<close>

lemma TASK_STATES_all: "set TASK_STATES = UNIV"
  by (auto simp: TASK_STATES_def intro: task_state.exhaust)

lemma isTerminal_no_transition: "isTerminal s \<longleftrightarrow> TRANSITIONS s = []"
  by (cases s) (simp_all add: isTerminal_def TERMINAL_STATES_def)

lemma isTerminal_outcome: "isTerminal s \<longleftrightarrow> outcomeForState s \<noteq> None"
  by (cases s) (simp_all add: isTerminal_def TERMINAL_STATES_def)

lemma outcomeForState_inj:
  "outcomeForState s = Some o' \<Longrightarrow> outcomeForState t = Some o' \<Longrightarrow> s = t"
  by (cases s; cases t) auto

interpretation task_machine: absorbing_machine canTransition isTerminal
  by unfold_locales (simp add: canTransition_def isTerminal_no_transition)

lemma live_can_stop: "\<not> isTerminal s \<Longrightarrow> canTransition s CANCELLED \<and> canTransition s FAILED"
  by (cases s) (simp_all add: isTerminal_def TERMINAL_STATES_def canTransition_def)

lemma queued_reaches: "canTransition\<^sup>*\<^sup>* QUEUED s"
proof -
  have s: "canTransition a b \<Longrightarrow> canTransition\<^sup>*\<^sup>* QUEUED a \<Longrightarrow> canTransition\<^sup>*\<^sup>* QUEUED b" for a b
    by (rule rtranclp.rtrancl_into_rtrancl)
  have p: "canTransition\<^sup>*\<^sup>* QUEUED PLANNING"
    by (rule s [of QUEUED]) (simp_all add: canTransition_def)
  have r: "canTransition\<^sup>*\<^sup>* QUEUED RUNNING"
    by (rule s [OF _ p]) (simp add: canTransition_def)
  show ?thesis
    using p r s [of RUNNING s] by (cases s) (simp_all add: canTransition_def)
qed

subsection \<open>Properties\<close>

text \<open>
  C28. The task state machine: every state is reachable from \<open>QUEUED\<close>; a state with an outcome is
  terminal and has no way out, whatever the path; every other state can be cancelled and can fail;
  and an outcome belongs to one state only.
\<close>

theorem task_state_machine:
  "canTransition\<^sup>*\<^sup>* QUEUED s \<and>
   (outcomeForState s = None \<longleftrightarrow> \<not> isTerminal s) \<and>
   (isTerminal s \<longrightarrow> (\<forall>t. canTransition\<^sup>*\<^sup>* s t \<longrightarrow> t = s)) \<and>
   (\<not> isTerminal s \<longrightarrow> canTransition s CANCELLED \<and> canTransition s FAILED) \<and>
   (\<forall>t. outcomeForState s = outcomeForState t \<longrightarrow> isTerminal s \<longrightarrow> s = t)"
  using queued_reaches [of s] isTerminal_outcome [of s] task_machine.terminal_run_fixed [of s]
    live_can_stop [of s] outcomeForState_inj [of s]
  by auto

theorem task_state_machine_witness:
  "canTransition PAUSED CANCELLED \<and> \<not> canTransition CANCELLED RUNNING"
proof -
  have "\<not> isTerminal PAUSED" by code_simp
  then show ?thesis
    using task_state_machine [of PAUSED] by (simp add: canTransition_def)
qed

end
