(* ===== verification/Storage.thy ===== *)
theory Storage
  imports Interfaces
begin

text \<open>
  \<open>src/storage/storage-area.ts\<close> and \<open>src/utils/keyed-mutex.ts\<close>: the storage areas every durable
  store is built on, namespacing, and the per-key mutual exclusion of read-modify-write cycles.
\<close>

subsection \<open>The in-memory area\<close>

text \<open>A JavaScript \<open>Map\<close>: an association list in insertion order. Values are copied.\<close>

type_synonym 'v storage_area = "(string \<times> 'v) list"

definition area_get :: "'v storage_area \<Rightarrow> string \<Rightarrow> 'v option" where
  "area_get area key = map_of area key"

definition area_set :: "string \<Rightarrow> 'v \<Rightarrow> 'v storage_area \<Rightarrow> 'v storage_area" where
  "area_set key v area = AList.update key v area"

definition area_remove :: "string \<Rightarrow> 'v storage_area \<Rightarrow> 'v storage_area" where
  "area_remove key area = AList.delete key area"

definition area_keys :: "'v storage_area \<Rightarrow> string list" where
  "area_keys area = map fst area"

definition area_clear :: "'v storage_area \<Rightarrow> 'v storage_area" where
  "area_clear area = []"

interpretation area: kv_store area_get area_set area_remove
  by unfold_locales (simp_all add: area_get_def area_set_def area_remove_def store_simps)

lemmas area_get_set [store_simps] = area.get_set
lemmas area_get_remove [store_simps] = area.get_remove

lemma area_keys_iff: "k \<in> set (area_keys area) \<longleftrightarrow> area_get area k \<noteq> None"
  by (auto simp: area_keys_def area_get_def map_of_eq_None_iff)

lemma area_distinct_set: "distinct (area_keys area) \<Longrightarrow> distinct (area_keys (area_set k v area))"
  unfolding area_keys_def area_set_def by (rule js_map_distinct_update)

lemma area_distinct_remove: "distinct (area_keys area) \<Longrightarrow> distinct (area_keys (area_remove k area))"
  unfolding area_keys_def area_remove_def by (rule distinct_delete)

subsection \<open>Namespaced areas\<close>

definition full :: "string \<Rightarrow> string \<Rightarrow> string" where
  "full namespace key = namespace @ '':'' @ key"

definition ns_get :: "string \<Rightarrow> 'v storage_area \<Rightarrow> string \<Rightarrow> 'v option" where
  "ns_get namespace area key = area_get area (full namespace key)"

definition ns_set :: "string \<Rightarrow> string \<Rightarrow> 'v \<Rightarrow> 'v storage_area \<Rightarrow> 'v storage_area" where
  "ns_set namespace key v area = area_set (full namespace key) v area"

definition ns_remove :: "string \<Rightarrow> string \<Rightarrow> 'v storage_area \<Rightarrow> 'v storage_area" where
  "ns_remove namespace key area = area_remove (full namespace key) area"

definition ns_keys :: "string \<Rightarrow> 'v storage_area \<Rightarrow> string list" where
  "ns_keys namespace area =
     (let pre = namespace @ '':''
      in map (\<lambda>k. drop (length pre) k) (filter (\<lambda>k. prefix pre k) (area_keys area)))"

definition ns_clear :: "string \<Rightarrow> 'v storage_area \<Rightarrow> 'v storage_area" where
  "ns_clear namespace area = fold (ns_remove namespace) (ns_keys namespace area) area"

lemma full_inj [simp]: "full n k = full n k' \<longleftrightarrow> k = k'"
  by (simp add: full_def)

text \<open>Namespaces without a colon never meet: their keys differ already before the separator.\<close>

lemma full_disjoint:
  assumes "n \<noteq> n'" and "CHR '':'' \<notin> set n" and "CHR '':'' \<notin> set n'"
  shows "full n k \<noteq> full n' k'"
proof
  assume "full n k = full n' k'"
  then have "takeWhile (\<lambda>c. c \<noteq> CHR '':'') (full n k) = takeWhile (\<lambda>c. c \<noteq> CHR '':'') (full n' k')"
    by simp
  moreover have "takeWhile (\<lambda>c. c \<noteq> CHR '':'') (full m j) = m" if "CHR '':'' \<notin> set m" for m j
    using that unfolding full_def by (subst takeWhile_append2) auto
  ultimately show False using assms by simp
qed

interpretation namespaced: kv_store "ns_get n" "ns_set n" "ns_remove n" for n
  by unfold_locales (simp_all add: ns_get_def ns_set_def ns_remove_def store_simps)

lemmas ns_get_set [store_simps] = namespaced.get_set
lemmas ns_get_remove [store_simps] = namespaced.get_remove

lemma ns_isolated:
  assumes "n \<noteq> n'" and "CHR '':'' \<notin> set n" and "CHR '':'' \<notin> set n'"
  shows "ns_get n (ns_set n' k v area) j = ns_get n area j"
    and "ns_get n (ns_remove n' k area) j = ns_get n area j"
  using full_disjoint [OF assms] by (simp_all add: ns_get_def ns_set_def ns_remove_def store_simps)

lemma ns_keys_iff: "k \<in> set (ns_keys n area) \<longleftrightarrow> ns_get n area k \<noteq> None"
proof -
  have "k \<in> set (ns_keys n area) \<longleftrightarrow> full n k \<in> set (area_keys area)"
    by (force simp: ns_keys_def Let_def full_def prefix_def)
  then show ?thesis by (simp add: area_keys_iff ns_get_def)
qed

lemma ns_clear_get: "ns_get n (ns_clear n area) k = None"
  using ns_keys_iff [of k n area] by (auto simp: ns_clear_def namespaced.get_fold_remove)

lemma fold_ns_remove_isolated:
  assumes "n \<noteq> n'" and "CHR '':'' \<notin> set n" and "CHR '':'' \<notin> set n'"
  shows "ns_get n (fold (ns_remove n') ks area) j = ns_get n area j"
  by (induction ks arbitrary: area) (simp_all add: ns_isolated [OF assms])

lemma ns_clear_isolated:
  assumes "n \<noteq> n'" and "CHR '':'' \<notin> set n" and "CHR '':'' \<notin> set n'"
  shows "ns_get n (ns_clear n' area) j = ns_get n area j"
  by (simp add: ns_clear_def fold_ns_remove_isolated [OF assms])

subsection \<open>Serialised transactions\<close>

text \<open>
  \<open>SerializedStorageArea.transaction\<close> runs its cycle under \<open>KeyedMutex.run\<close>, which chains it behind the
  promise that is the key's tail then (\<open>cy_previous\<close>; \<open>None\<close> is \<open>Promise.resolve()\<close>) and makes it the new
  tail; once a tail has settled, a callback removes it unless a newer one stands there. Cycles are numbered in
  the order they are submitted. A cycle starts when the promise before it has settled, whether it threw or
  not; it reads, lets \<open>mutate\<close> run, and writes, and any other cycle may take its steps in between. A cycle
  whose \<open>mutate\<close> throws (\<open>None\<close>) writes nothing and settles all the same. Nothing but these chains
  keeps two cycles of a key apart.
\<close>

record 'v transaction =
  tx_fallback :: 'v
  tx_mutate :: "'v \<Rightarrow> 'v option"

datatype 'v cycle_phase = Waiting | Has_Read 'v | Settled

record 'v mutex_cycle =
  cy_key :: string
  cy_tx :: "'v transaction"
  cy_previous :: "nat option"
  cy_phase :: "'v cycle_phase"

record 'v serialized_area =
  sa_area :: "'v storage_area"
  sa_cycles :: "'v mutex_cycle list"
  sa_tails :: "string \<rightharpoonup> nat"

definition get_or :: "'v storage_area \<Rightarrow> string \<Rightarrow> 'v \<Rightarrow> 'v" where
  "get_or area key fallback =
     (case area_get area key of None \<Rightarrow> fallback | Some v \<Rightarrow> v)"

definition submit :: "string \<Rightarrow> 'v transaction \<Rightarrow> 'v serialized_area \<Rightarrow> 'v serialized_area" where
  "submit key t s =
     s\<lparr>sa_cycles := sa_cycles s @ [\<lparr>cy_key = key, cy_tx = t, cy_previous = sa_tails s key, cy_phase = Waiting\<rparr>],
       sa_tails := (sa_tails s)(key \<mapsto> length (sa_cycles s))\<rparr>"

definition settled_at :: "'v serialized_area \<Rightarrow> nat \<Rightarrow> bool" where
  "settled_at s i = (i < length (sa_cycles s) \<and> (case cy_phase (sa_cycles s ! i) of Settled \<Rightarrow> True | _ \<Rightarrow> False))"

definition enter_phase :: "nat \<Rightarrow> 'v cycle_phase \<Rightarrow> 'v serialized_area \<Rightarrow> 'v serialized_area" where
  "enter_phase i ph s = s\<lparr>sa_cycles := (sa_cycles s)[i := (sa_cycles s ! i)\<lparr>cy_phase := ph\<rparr>]\<rparr>"

definition begin_cycle :: "nat \<Rightarrow> 'v serialized_area \<Rightarrow> 'v serialized_area option" where
  "begin_cycle i s =
     (if \<not> i < length (sa_cycles s) then None
      else
        (let c = sa_cycles s ! i in
         case cy_phase c of
           Waiting \<Rightarrow>
             if (case cy_previous c of None \<Rightarrow> True | Some j \<Rightarrow> settled_at s j)
             then Some (enter_phase i (Has_Read (get_or (sa_area s) (cy_key c) (tx_fallback (cy_tx c)))) s)
             else None
         | _ \<Rightarrow> None))"

definition end_cycle :: "nat \<Rightarrow> 'v serialized_area \<Rightarrow> 'v serialized_area option" where
  "end_cycle i s =
     (if \<not> i < length (sa_cycles s) then None
      else
        (let c = sa_cycles s ! i in
         case cy_phase c of
           Has_Read current \<Rightarrow>
             Some (enter_phase i Settled
               (s\<lparr>sa_area := (case tx_mutate (cy_tx c) current of
                    None \<Rightarrow> sa_area s | Some v \<Rightarrow> area_set (cy_key c) v (sa_area s))\<rparr>))
         | _ \<Rightarrow> None))"

text \<open>The callback on the tail that cycle \<open>i\<close> left behind.\<close>

definition drop_tail :: "nat \<Rightarrow> 'v serialized_area \<Rightarrow> 'v serialized_area option" where
  "drop_tail i s =
     (if settled_at s i
      then Some (if sa_tails s (cy_key (sa_cycles s ! i)) = Some i
                 then s\<lparr>sa_tails := (sa_tails s)(cy_key (sa_cycles s ! i) := None)\<rparr> else s)
      else None)"

definition isBusy :: "'v serialized_area \<Rightarrow> string \<Rightarrow> bool" where
  "isBusy s key \<longleftrightarrow> sa_tails s key \<noteq> None"

definition serial_start :: "'v storage_area \<Rightarrow> 'v serialized_area" where
  "serial_start area = \<lparr>sa_area = area, sa_cycles = [], sa_tails = (\<lambda>_. None)\<rparr>"

text \<open>The interleavings.\<close>

inductive serial_run :: "'v storage_area \<Rightarrow> 'v serialized_area \<Rightarrow> bool"
  for area :: "'v storage_area" where
  serial_start: "serial_run area (serial_start area)"
| serial_submit: "serial_run area s \<Longrightarrow> serial_run area (submit key t s)"
| serial_begin: "serial_run area s \<Longrightarrow> begin_cycle i s = Some s' \<Longrightarrow> serial_run area s'"
| serial_end: "serial_run area s \<Longrightarrow> end_cycle i s = Some s' \<Longrightarrow> serial_run area s'"
| serial_tail: "serial_run area s \<Longrightarrow> drop_tail i s = Some s' \<Longrightarrow> serial_run area s'"

text \<open>The specification: the cycles of a key one after the other, in the order submitted.\<close>

definition apply_tx :: "'v option \<Rightarrow> 'v transaction \<Rightarrow> 'v option" where
  "apply_tx stored t =
     (case tx_mutate t (case stored of None \<Rightarrow> tx_fallback t | Some v \<Rightarrow> v) of
        None \<Rightarrow> stored
      | Some v \<Rightarrow> Some v)"

definition apply_all :: "'v option \<Rightarrow> 'v transaction list \<Rightarrow> 'v option" where
  "apply_all stored ts = foldl apply_tx stored ts"

lemma apply_all_snoc: "apply_all stored (ts @ [t]) = apply_tx (apply_all stored ts) t"
  by (simp add: apply_all_def)

definition submitted :: "string \<Rightarrow> 'v serialized_area \<Rightarrow> 'v transaction list" where
  "submitted key s = map cy_tx (filter (\<lambda>c. cy_key c = key) (sa_cycles s))"

definition is_settled :: "'v mutex_cycle \<Rightarrow> bool" where
  "is_settled c = (case cy_phase c of Settled \<Rightarrow> True | _ \<Rightarrow> False)"

definition completed_txs :: "string \<Rightarrow> 'v serialized_area \<Rightarrow> 'v transaction list" where
  "completed_txs key s = map cy_tx (filter (\<lambda>c. cy_key c = key \<and> is_settled c) (sa_cycles s))"

text \<open>
  What every reachable state keeps. The chains: a cycle is chained behind the one of its key submitted last
  before it, or all before it have settled; the tail of a key is its last cycle, or all have settled. The
  exclusion: what has started has only settled cycles of its key before it. The values: the stored value of a
  key is the sequential result of its settled cycles, and what a cycle has read is still what is stored.
\<close>

definition tail_linked :: "'v mutex_cycle list \<Rightarrow> nat option \<Rightarrow> nat \<Rightarrow> string \<Rightarrow> bool" where
  "tail_linked cs p n key =
     (case p of
        None \<Rightarrow> \<forall>l < n. cy_key (cs ! l) = key \<longrightarrow> is_settled (cs ! l)
      | Some j \<Rightarrow> j < n \<and> cy_key (cs ! j) = key \<and> (\<forall>l < n. j < l \<longrightarrow> cy_key (cs ! l) \<noteq> key))"

definition chains_kept :: "'v serialized_area \<Rightarrow> bool" where
  "chains_kept s =
     ((\<forall>i < length (sa_cycles s). tail_linked (sa_cycles s) (cy_previous (sa_cycles s ! i)) i (cy_key (sa_cycles s ! i))) \<and>
      (\<forall>key. tail_linked (sa_cycles s) (sa_tails s key) (length (sa_cycles s)) key))"

definition starts_alone :: "'v mutex_cycle list \<Rightarrow> bool" where
  "starts_alone cs =
     (\<forall>i < length cs. cy_phase (cs ! i) \<noteq> Waiting \<longrightarrow>
        (\<forall>l < i. cy_key (cs ! l) = cy_key (cs ! i) \<longrightarrow> is_settled (cs ! l)))"

definition reads_fresh :: "'v serialized_area \<Rightarrow> bool" where
  "reads_fresh s =
     (\<forall>c \<in> set (sa_cycles s). \<forall>v. cy_phase c = Has_Read v \<longrightarrow>
        v = get_or (sa_area s) (cy_key c) (tx_fallback (cy_tx c)))"

definition serial_inv :: "'v storage_area \<Rightarrow> 'v serialized_area \<Rightarrow> bool" where
  "serial_inv area s =
     (chains_kept s \<and> starts_alone (sa_cycles s) \<and> reads_fresh s \<and>
      (\<forall>key. area_get (sa_area s) key = apply_all (area_get area key) (completed_txs key s)))"

lemma is_settled_iff [simp]: "is_settled c \<longleftrightarrow> cy_phase c = Settled"
  by (simp add: is_settled_def split: cycle_phase.split)

lemma settled_at_iff: "settled_at s i \<longleftrightarrow> i < length (sa_cycles s) \<and> cy_phase (sa_cycles s ! i) = Settled"
  by (simp add: settled_at_def split: cycle_phase.split)

lemma tail_linked_end:
  assumes "tail_linked cs p n key" and "l < n" and "cy_key (cs ! l) = key" and "cy_phase (cs ! l) \<noteq> Settled"
  obtains j where "p = Some j" and "l \<le> j" and "j < n" and "cy_key (cs ! j) = key"
  using assms unfolding tail_linked_def by (cases p) (auto simp: not_less [symmetric])

text \<open>Phases only move on, keys and chains stay.\<close>

lemma tail_linked_mono:
  assumes "tail_linked cs p n key" and "\<And>l. l < n \<Longrightarrow> cy_key (ds ! l) = cy_key (cs ! l)"
    and "\<And>l. l < n \<Longrightarrow> cy_phase (cs ! l) = Settled \<Longrightarrow> cy_phase (ds ! l) = Settled"
  shows "tail_linked ds p n key"
  using assms by (auto simp: tail_linked_def split: option.splits)

lemma enter_nth:
  "sa_cycles (enter_phase i ph s) ! l =
    (if l = i \<and> i < length (sa_cycles s) then (sa_cycles s ! i)\<lparr>cy_phase := ph\<rparr> else sa_cycles s ! l)"
  by (cases "i < length (sa_cycles s)") (auto simp: enter_phase_def list_update_beyond)

lemma enter_fields [simp]:
  "sa_tails (enter_phase i ph s) = sa_tails s" "length (sa_cycles (enter_phase i ph s)) = length (sa_cycles s)"
  "sa_area (enter_phase i ph s) = sa_area s"
  by (simp_all add: enter_phase_def)

lemma chains_enter:
  assumes kept: "chains_kept s" and ph: "cy_phase (sa_cycles s ! i) = Settled \<Longrightarrow> ph = Settled"
  shows "chains_kept (enter_phase i ph s)"
proof -
  have "tail_linked (sa_cycles (enter_phase i ph s)) p n key" if "tail_linked (sa_cycles s) p n key" for p n key
    using that by (rule tail_linked_mono) (use ph in \<open>auto simp: enter_nth\<close>)
  then show ?thesis using kept by (simp add: chains_kept_def enter_nth)
qed

lemma tail_linked_append: "tail_linked cs p n key \<Longrightarrow> n \<le> length cs \<Longrightarrow> tail_linked (cs @ ds) p n key"
  by (erule tail_linked_mono) (simp_all add: nth_append)

lemma tail_linked_Suc: "tail_linked cs p n key \<Longrightarrow> cy_key (cs ! n) \<noteq> key \<Longrightarrow> tail_linked cs p (Suc n) key"
  by (auto simp: tail_linked_def less_Suc_eq split: option.splits)

lemma tail_linked_last: "cy_key (cs ! n) = key \<Longrightarrow> tail_linked cs (Some n) (Suc n) key"
  by (simp add: tail_linked_def)

lemma chains_submit:
  assumes "chains_kept s"
  shows "chains_kept (submit key t s)"
proof -
  let ?cs = "sa_cycles s" and ?n = "length (sa_cycles s)"
  let ?ds = "?cs @ [\<lparr>cy_key = key, cy_tx = t, cy_previous = sa_tails s key, cy_phase = Waiting\<rparr>]"
  have old: "tail_linked ?ds p n k" if "tail_linked ?cs p n k" "n \<le> ?n" for p n k using that by (rule tail_linked_append)
  have "tail_linked ?ds (cy_previous (?ds ! i)) i (cy_key (?ds ! i))" if "i < Suc ?n" for i
    using that assms old by (cases "i < ?n") (simp_all add: chains_kept_def nth_append less_Suc_eq)
  moreover have "tail_linked ?ds (((sa_tails s)(key \<mapsto> ?n)) k) (Suc ?n) k" for k
    using assms old tail_linked_Suc [of ?ds "sa_tails s k" ?n k] by (cases "k = key") (simp_all add: chains_kept_def tail_linked_last)
  ultimately show ?thesis by (simp add: chains_kept_def submit_def)
qed

lemma chains_tail:
  assumes kept: "chains_kept s" and alone: "starts_alone (sa_cycles s)" and step: "drop_tail i s = Some s'"
  shows "chains_kept s'"
proof (cases "sa_tails s (cy_key (sa_cycles s ! i)) = Some i")
  case True
  let ?key = "cy_key (sa_cycles s ! i)" and ?n = "length (sa_cycles s)"
  have i: "i < ?n" "cy_phase (sa_cycles s ! i) = Settled" and s': "s' = s\<lparr>sa_tails := (sa_tails s)(?key := None)\<rparr>"
    using step True by (simp_all add: drop_tail_def settled_at_iff split: if_splits)
  have "tail_linked (sa_cycles s) (Some i) ?n ?key" using kept True unfolding chains_kept_def by metis
  then have "cy_phase (sa_cycles s ! l) = Settled" if "l < ?n" "cy_key (sa_cycles s ! l) = ?key" for l
    using that alone i by (cases l i rule: linorder_cases) (auto simp: tail_linked_def starts_alone_def)
  then have "tail_linked (sa_cycles s) None ?n ?key" by (simp add: tail_linked_def)
  then show ?thesis using kept by (simp add: s' chains_kept_def)
next
  case False
  then show ?thesis using step kept by (simp add: drop_tail_def split: if_splits)
qed

lemma starts_aloneD:
  "starts_alone cs \<Longrightarrow> i < length cs \<Longrightarrow> cy_phase (cs ! i) \<noteq> Waiting \<Longrightarrow> l < i \<Longrightarrow>
    cy_key (cs ! l) = cy_key (cs ! i) \<Longrightarrow> cy_phase (cs ! l) = Settled"
  by (simp add: starts_alone_def)

lemma begin_ready:
  assumes kept: "chains_kept s" "starts_alone (sa_cycles s)" and i: "i < length (sa_cycles s)"
    and ready: "case cy_previous (sa_cycles s ! i) of None \<Rightarrow> True | Some j \<Rightarrow> settled_at s j"
    and l: "l < i" "cy_key (sa_cycles s ! l) = cy_key (sa_cycles s ! i)"
  shows "cy_phase (sa_cycles s ! l) = Settled"
proof (rule ccontr)
  assume open_l: "cy_phase (sa_cycles s ! l) \<noteq> Settled"
  have "tail_linked (sa_cycles s) (cy_previous (sa_cycles s ! i)) i (cy_key (sa_cycles s ! i))"
    using kept(1) i by (simp add: chains_kept_def)
  from tail_linked_end [OF this l open_l] obtain j where j: "cy_previous (sa_cycles s ! i) = Some j" "l \<le> j" "j < i"
      "cy_key (sa_cycles s ! j) = cy_key (sa_cycles s ! i)" .
  then have ended: "cy_phase (sa_cycles s ! j) = Settled" using ready by (simp add: settled_at_iff)
  with open_l j(2) have "l < j" by (cases "l = j") simp_all
  with starts_aloneD [OF kept(2), of j l] ended i j(3,4) l(2) open_l show False by simp
qed

lemma completed_enter_other:
  assumes "ph \<noteq> Settled" and "cy_phase (sa_cycles s ! i) \<noteq> Settled"
  shows "completed_txs key (enter_phase i ph s) = completed_txs key s"
proof (cases "i < length (sa_cycles s)")
  case True
  show ?thesis
    unfolding completed_txs_def enter_phase_def
    by (subst (2) id_take_nth_drop [OF True]) (simp add: upd_conv_take_nth_drop [OF True] assms)
qed (simp add: enter_phase_def list_update_beyond)

text \<open>The cycle that settles is the last of its key to do so.\<close>

lemma completed_enter_settled:
  assumes i: "i < length (sa_cycles s)" and "open": "cy_phase (sa_cycles s ! i) \<noteq> Settled"
    and alone: "starts_alone (sa_cycles s)"
  shows "completed_txs key (enter_phase i Settled s) =
    completed_txs key s @ (if cy_key (sa_cycles s ! i) = key then [cy_tx (sa_cycles s ! i)] else [])"
proof -
  let ?cs = "sa_cycles s"
  have later: "cy_phase c \<noteq> Settled" if "c \<in> set (drop (Suc i) ?cs)" "cy_key c = cy_key (?cs ! i)" for c
  proof -
    from that(1) obtain l where "l < length (drop (Suc i) ?cs)" "drop (Suc i) ?cs ! l = c"
      unfolding in_set_conv_nth by blast
    then have l: "Suc i + l < length ?cs" "c = ?cs ! (Suc i + l)" by simp_all
    then have "cy_phase c = Waiting" using alone "open" that(2) unfolding starts_alone_def by force
    then show ?thesis by simp
  qed
  then have none: "filter (\<lambda>c. cy_key c = cy_key (?cs ! i) \<and> cy_phase c = Settled) (drop (Suc i) ?cs) = []"
    by (auto simp: filter_empty_conv)
  have split: "?cs = take i ?cs @ ?cs ! i # drop (Suc i) ?cs" by (rule id_take_nth_drop [OF i])
  have "completed_txs key s =
      map cy_tx (filter (\<lambda>c. cy_key c = key \<and> cy_phase c = Settled) (take i ?cs @ ?cs ! i # drop (Suc i) ?cs))"
    unfolding completed_txs_def is_settled_iff by (subst split) (rule refl)
  then show ?thesis
    using none "open" by (auto simp: completed_txs_def enter_phase_def upd_conv_take_nth_drop [OF i])
qed

lemma starts_enter:
  assumes alone: "starts_alone (sa_cycles s)" and i: "i < length (sa_cycles s)" and "open": "cy_phase (sa_cycles s ! i) \<noteq> Settled"
    and before: "\<And>l. l < i \<Longrightarrow> cy_key (sa_cycles s ! l) = cy_key (sa_cycles s ! i) \<Longrightarrow> cy_phase (sa_cycles s ! l) = Settled"
  shows "starts_alone (sa_cycles (enter_phase i ph s))"
proof -
  let ?cs = "sa_cycles s" and ?ds = "sa_cycles (enter_phase i ph s)"
  have nth: "?ds ! l = (if l = i then (?cs ! i)\<lparr>cy_phase := ph\<rparr> else ?cs ! l)" if "l < length ?cs" for l
    using that by (simp add: enter_phase_def)
  have "cy_phase (?ds ! l) = Settled"
    if "k < length ?cs" "cy_phase (?ds ! k) \<noteq> Waiting" "l < k" "cy_key (?ds ! l) = cy_key (?ds ! k)" for k l
  proof (cases "k = i")
    case True
    then show ?thesis using that before by (simp add: nth)
  next
    case False
    then have "cy_phase (?cs ! l) = Settled" using that alone unfolding starts_alone_def
      by (simp add: nth split: if_splits)
    then show ?thesis using that "open" by (auto simp: nth)
  qed
  then show ?thesis by (simp add: starts_alone_def)
qed

lemma serial_inv_start: "serial_inv area (serial_start area)"
  by (simp add: serial_inv_def serial_start_def chains_kept_def tail_linked_def starts_alone_def reads_fresh_def
      completed_txs_def apply_all_def)

lemma serial_inv_submit: "serial_inv area s \<Longrightarrow> serial_inv area (submit key t s)"
  using chains_submit [of s key t]
  by (auto simp: serial_inv_def reads_fresh_def starts_alone_def submit_def completed_txs_def nth_append)

lemma serial_inv_tail: "serial_inv area s \<Longrightarrow> drop_tail i s = Some s' \<Longrightarrow> serial_inv area s'"
  using chains_tail [of s i s']
  by (auto simp: serial_inv_def reads_fresh_def completed_txs_def drop_tail_def split: if_splits)

lemma serial_inv_begin:
  assumes inv: "serial_inv area s" and step: "begin_cycle i s = Some s'"
  shows "serial_inv area s'"
proof -
  let ?c = "sa_cycles s ! i" and ?ph = "Has_Read (get_or (sa_area s) (cy_key (sa_cycles s ! i)) (tx_fallback (cy_tx (sa_cycles s ! i))))"
  have i: "i < length (sa_cycles s)" and waiting: "cy_phase ?c = Waiting" and s': "s' = enter_phase i ?ph s"
    and ready: "case cy_previous ?c of None \<Rightarrow> True | Some j \<Rightarrow> settled_at s j"
    using step by (auto simp: begin_cycle_def Let_def split: if_splits cycle_phase.splits)
  have kept: "chains_kept s" "starts_alone (sa_cycles s)" using inv by (simp_all add: serial_inv_def)
  have "starts_alone (sa_cycles s')"
    unfolding s' using starts_enter [OF kept(2) i] waiting begin_ready [OF kept i ready] by simp
  moreover have "chains_kept s'" unfolding s' by (rule chains_enter [OF kept(1)]) (simp add: waiting)
  moreover have "reads_fresh s'"
    using inv unfolding s' by (auto simp: serial_inv_def reads_fresh_def enter_phase_def dest!: set_update_subset_insert [THEN subsetD])
  moreover have "completed_txs key s' = completed_txs key s" "sa_area s' = sa_area s" for key
    unfolding s' using completed_enter_other [of ?ph s i key] waiting by (simp_all add: enter_phase_def)
  ultimately show ?thesis using inv by (simp add: serial_inv_def)
qed

lemma serial_inv_end:
  assumes inv: "serial_inv area s" and step: "end_cycle i s = Some s'"
  shows "serial_inv area s'"
proof -
  let ?cs = "sa_cycles s" and ?c = "sa_cycles s ! i"
  obtain current where i: "i < length ?cs" and reading: "cy_phase ?c = Has_Read current"
    and s': "s' = enter_phase i Settled (s\<lparr>sa_area := (case tx_mutate (cy_tx ?c) current of
        None \<Rightarrow> sa_area s | Some v \<Rightarrow> area_set (cy_key ?c) v (sa_area s))\<rparr>)" (is "_ = enter_phase i Settled (s\<lparr>sa_area := ?area\<rparr>)")
    using step by (auto simp: end_cycle_def Let_def split: if_splits cycle_phase.splits)
  have kept: "chains_kept s" "starts_alone ?cs" and fresh: "reads_fresh s" using inv by (simp_all add: serial_inv_def)
  have current: "current = get_or (sa_area s) (cy_key ?c) (tx_fallback (cy_tx ?c))"
    using fresh reading nth_mem [OF i] unfolding reads_fresh_def by blast
  have before: "cy_phase (?cs ! l) = Settled" if "l < i" "cy_key (?cs ! l) = cy_key ?c" for l
    using kept(2) i reading that by (simp add: starts_alone_def)
  have "chains_kept (s\<lparr>sa_area := ?area\<rparr>)" using kept(1) by (simp add: chains_kept_def)
  from chains_enter [OF this] have "chains_kept s'" unfolding s' by blast
  moreover have "starts_alone (sa_cycles s')"
    using starts_enter [of "s\<lparr>sa_area := ?area\<rparr>" i Settled] kept(2) i reading before unfolding s' by simp
  moreover have "reads_fresh s'"
    unfolding reads_fresh_def
  proof (intro ballI allI impI)
    fix c v
    assume c: "c \<in> set (sa_cycles s')" "cy_phase c = Has_Read v"
    from c(1) obtain k where k: "k < length ?cs" "c = sa_cycles s' ! k"
      unfolding s' in_set_conv_nth by auto
    then have "k \<noteq> i" using c(2) i unfolding s' by (auto simp: enter_nth)
    then have k: "k < length ?cs" "k \<noteq> i" "c = ?cs ! k" using k unfolding s' by (simp_all add: enter_nth)
    have "cy_key c \<noteq> cy_key ?c"
    proof
      assume "cy_key c = cy_key ?c"
      then show False
        using starts_aloneD [OF kept(2), of i k] starts_aloneD [OF kept(2), of k i] c(2) reading i k
        by (cases k i rule: linorder_cases) simp_all
    qed
    moreover have "v = get_or (sa_area s) (cy_key c) (tx_fallback (cy_tx c))"
      using fresh c(2) k unfolding reads_fresh_def by simp
    ultimately show "v = get_or (sa_area s') (cy_key c) (tx_fallback (cy_tx c))"
      unfolding s' by (simp add: enter_phase_def get_or_def store_simps split: option.split)
  qed
  moreover have "area_get (sa_area s') key = apply_all (area_get area key) (completed_txs key s')" for key
  proof -
    have "completed_txs key s' = completed_txs key s @ (if cy_key ?c = key then [cy_tx ?c] else [])"
      using completed_enter_settled [of i "s\<lparr>sa_area := ?area\<rparr>" key] i reading kept(2) unfolding s'
      by (simp add: completed_txs_def)
    moreover have "area_get (sa_area s) key = apply_all (area_get area key) (completed_txs key s)"
      using inv by (simp add: serial_inv_def)
    ultimately show ?thesis
      unfolding s' by (auto simp: enter_phase_def apply_all_snoc apply_tx_def current get_or_def store_simps split: option.split)
  qed
  ultimately show ?thesis by (simp add: serial_inv_def)
qed

lemma serial_run_inv: "serial_run area s \<Longrightarrow> serial_inv area s"
  by (induction rule: serial_run.induct)
    (blast intro: serial_inv_start serial_inv_submit serial_inv_begin serial_inv_end serial_inv_tail)+

text \<open>The first open cycle of a key always has a step: no cycle, throwing ones included, blocks the next.\<close>

lemma serial_progress:
  assumes inv: "serial_inv area s" and k: "k < length (sa_cycles s)" "cy_phase (sa_cycles s ! k) \<noteq> Settled"
  shows "\<exists>i \<le> k. cy_key (sa_cycles s ! i) = cy_key (sa_cycles s ! k) \<and> (begin_cycle i s \<noteq> None \<or> end_cycle i s \<noteq> None)"
  using k
proof (induction k rule: less_induct)
  case (less k)
  let ?cs = "sa_cycles s"
  show ?case
  proof (cases "\<exists>l < k. cy_key (?cs ! l) = cy_key (?cs ! k) \<and> cy_phase (?cs ! l) \<noteq> Settled")
    case True
    then obtain l where l: "l < k" "cy_key (?cs ! l) = cy_key (?cs ! k)" "cy_phase (?cs ! l) \<noteq> Settled" by blast
    from less.IH [OF l(1)] l less.prems(1) show ?thesis by (metis less_imp_le less_trans order.trans)
  next
    case False
    have "tail_linked ?cs (cy_previous (?cs ! k)) k (cy_key (?cs ! k))"
      using inv less.prems(1) by (simp add: serial_inv_def chains_kept_def)
    then have "settled_at s j" if "cy_previous (?cs ! k) = Some j" for j
      using that False less.prems(1) by (auto simp: tail_linked_def settled_at_iff)
    then have "begin_cycle k s \<noteq> None \<or> end_cycle k s \<noteq> None"
      using less.prems by (auto simp: begin_cycle_def end_cycle_def Let_def split: cycle_phase.split option.split)
    then show ?thesis by blast
  qed
qed

subsection \<open>Properties\<close>

text \<open>
  C35. Read-modify-write cycles through a serialised area exclude each other and none is lost. In every
  interleaving of submissions, steps and dropped tails: no two cycles of a key are under way at once; the
  stored value of a key is that of its settled cycles, one after the other in the order submitted, where a cycle
  that threw changes nothing, hence of all submitted ones once the key is idle; and a cycle that has not
  settled always has a step of its key to wait for.
\<close>

theorem serialised_cycles_sequential:
  assumes "serial_run area s"
  shows "(\<forall>i j v w. i < length (sa_cycles s) \<and> j < length (sa_cycles s) \<and> i \<noteq> j \<and>
       cy_phase (sa_cycles s ! i) = Has_Read v \<and> cy_phase (sa_cycles s ! j) = Has_Read w \<longrightarrow>
       cy_key (sa_cycles s ! i) \<noteq> cy_key (sa_cycles s ! j)) \<and>
    area_get (sa_area s) key = apply_all (area_get area key) (completed_txs key s) \<and>
    (\<not> isBusy s key \<longrightarrow> area_get (sa_area s) key = apply_all (area_get area key) (submitted key s)) \<and>
    (\<forall>k < length (sa_cycles s). cy_phase (sa_cycles s ! k) \<noteq> Settled \<longrightarrow>
       (\<exists>i. cy_key (sa_cycles s ! i) = cy_key (sa_cycles s ! k) \<and> (begin_cycle i s \<noteq> None \<or> end_cycle i s \<noteq> None)))"
proof -
  let ?cs = "sa_cycles s"
  note inv = serial_run_inv [OF assms]
  have alone: "starts_alone ?cs" and chains: "chains_kept s"
    and result: "area_get (sa_area s) key = apply_all (area_get area key) (completed_txs key s)"
    using inv by (simp_all add: serial_inv_def)
  have one: "cy_key (?cs ! i) \<noteq> cy_key (?cs ! j)"
    if "i < j" "j < length ?cs" "cy_phase (?cs ! i) = Has_Read v" "cy_phase (?cs ! j) = Has_Read w" for i j v w
    using alone that by (force simp: starts_alone_def)
  have "completed_txs key s = submitted key s" if "\<not> isBusy s key"
  proof -
    have "tail_linked ?cs None (length ?cs) key" using chains that by (simp add: chains_kept_def isBusy_def) (metis option.exhaust)
    then show ?thesis unfolding completed_txs_def submitted_def
      by (intro arg_cong [where f = "map cy_tx"] filter_cong) (auto simp: tail_linked_def in_set_conv_nth)
  qed
  then show ?thesis
    using one result serial_progress [OF inv] by (metis linorder_neqE_nat)
qed

definition counting_tx :: "nat transaction" where
  "counting_tx = \<lparr>tx_fallback = 0, tx_mutate = \<lambda>n. Some (n + 1)\<rparr>"

definition contended_area :: "nat serialized_area" where
  "contended_area = submit ''k'' counting_tx (submit ''k'' counting_tx (serial_start []))"

theorem serialised_cycles_sequential_witness:
  "\<exists>s. begin_cycle 0 contended_area = Some s \<and> begin_cycle 1 s = None \<and>
     (\<exists>t. end_cycle 0 s = Some t \<and> area_get (sa_area t) ''k'' = apply_all None [counting_tx])"
proof -
  let ?s = "the (begin_cycle 0 contended_area)" and ?t = "the (end_cycle 0 (the (begin_cycle 0 contended_area)))"
  have steps: "begin_cycle 0 contended_area = Some ?s" "begin_cycle 1 ?s = None" "end_cycle 0 ?s = Some ?t"
    by (simp_all add: contended_area_def begin_cycle_def end_cycle_def submit_def serial_start_def enter_phase_def settled_at_def Let_def)
  have "serial_run [] contended_area" unfolding contended_area_def by (intro serial_submit serial_start)
  from serial_end [OF serial_begin [OF this steps(1)] steps(3)] have "serial_run [] ?t" .
  from serialised_cycles_sequential [OF this, of "''k''"]
  have "area_get (sa_area ?t) ''k'' = apply_all (area_get [] ''k'') (completed_txs ''k'' ?t)" by blast
  moreover have "completed_txs ''k'' ?t = [counting_tx]" "area_get [] ''k'' = (None :: nat option)"
    by (simp_all add: contended_area_def begin_cycle_def end_cycle_def submit_def serial_start_def enter_phase_def
        Let_def settled_at_def completed_txs_def is_settled_def counting_tx_def area_get_def)
  ultimately show ?thesis using steps by metis
qed

text \<open>
  Stores in different namespaces over one area never touch each other: no write, removal or
  clearing of one changes what the other reads; and a cleared namespace is empty.
\<close>

theorem namespaces_isolated:
  assumes "n \<noteq> n'" and "CHR '':'' \<notin> set n" and "CHR '':'' \<notin> set n'"
  shows "ns_get n (ns_set n' k v area) j = ns_get n area j \<and>
    ns_get n (ns_remove n' k area) j = ns_get n area j \<and>
    ns_get n (ns_clear n' area) j = ns_get n area j \<and> ns_get n' (ns_clear n' area) j = None"
  using ns_isolated [OF assms] ns_clear_isolated [OF assms] ns_clear_get by metis

theorem namespaces_isolated_witness:
  "ns_get ''tasks'' (ns_clear ''audit'' (ns_set ''tasks'' ''a'' (1::nat) [])) ''a'' = Some 1"
  using namespaces_isolated [of "''tasks''" "''audit''" _ _ "ns_set ''tasks'' ''a'' (1::nat) []" "''a''"]
  by (simp add: store_simps)

end
