(* ===== verification/TaskStore.thy ===== *)
theory TaskStore
  imports TaskModel Storage
begin

text \<open>
  \<open>src/tasks/task-store.ts\<close> and the recovery of \<open>src/background/lifecycle-manager.ts\<close>: tasks and
  sessions over a storage area, the index in most-recent-first order, retention, the repair of
  security fields on every read, and what a restart does to the tasks it interrupted.

  Each read-modify-write runs in the serialised area (theory \<open>Storage\<close>), so one operation is one
  step here. The area never fails; \<open>guard\<close>, which reports a failure and rethrows, is left out.
\<close>

subsection \<open>The security fields\<close>

definition to_core :: "'a task_core_scheme \<Rightarrow> task_core" where
  "to_core t = task_core.truncate t"

definition with_security :: "task_core \<Rightarrow> 't \<Rightarrow> 's \<Rightarrow> 'e \<Rightarrow> ('t, 's, 'e) task_record" where
  "with_security c taint salt epoch =
     task_core.extend c (task_record.fields taint salt epoch)"

text \<open>How storage holds a task: the structured clone of its security fields.\<close>

definition store_form :: "agent_task \<Rightarrow> stored_task" where
  "store_form t =
     with_security (to_core t) (taint_json (tk_taintState t)) (JStr (tk_taintSalt t))
       (JNum (Fin (of_int (tk_saltEpoch t))))"

definition read_salt :: "json \<Rightarrow> string" where
  "read_salt v = (if isValidTaintSalt v then (case v of JStr s \<Rightarrow> s | _ \<Rightarrow> []) else [])"

definition read_epoch :: "json \<Rightarrow> int" where
  "read_epoch v =
     (case v of JNum (Fin q) \<Rightarrow> if rat_integer q \<and> 0 < q then \<lfloor>q\<rfloor> else 0 | _ \<Rightarrow> 0)"

definition normaliseSecurityState :: "stored_task \<Rightarrow> agent_task" where
  "normaliseSecurityState t =
     with_security (to_core t) (parseTaintState (tk_taintState t)) (read_salt (tk_taintSalt t))
       (read_epoch (tk_saltEpoch t))"

definition hasUsableSecurityState :: "agent_task \<Rightarrow> bool" where
  "hasUsableSecurityState t =
     ((case tk_taintState t of UNKNOWN _ \<Rightarrow> False | _ \<Rightarrow> True) \<and> 0 < length (tk_taintSalt t))"

definition withFailedPersistence :: "agent_task \<Rightarrow> agent_task" where
  "withFailedPersistence t = t\<lparr>tk_taintState := unknownTaint persistence_failed\<rparr>"

subsection \<open>The store\<close>

text \<open>
  What the area holds: task records, the \<open>null\<close> an update of a missing task leaves behind, the
  two indexes, and sessions. A read of a task key finds a record, \<open>null\<close>, or nothing.
\<close>

datatype task_value =
    TaskValue stored_task
  | NullValue
  | IndexValue "string list"
  | SessionValue agent_session

type_synonym task_area = "task_value storage_area"

definition TASK_INDEX_KEY :: string where
  "TASK_INDEX_KEY = ''task-index''"

definition SESSION_INDEX_KEY :: string where
  "SESSION_INDEX_KEY = ''session-index''"

definition taskKey :: "string \<Rightarrow> string" where
  "taskKey i = ''task:'' @ i"

definition sessionKey :: "string \<Rightarrow> string" where
  "sessionKey i = ''session:'' @ i"

definition DEFAULT_MAX_TASKS :: nat where
  "DEFAULT_MAX_TASKS = 100"

definition get_index :: "string \<Rightarrow> task_area \<Rightarrow> string list" where
  "get_index key area = (case area_get area key of Some (IndexValue ids) \<Rightarrow> ids | _ \<Rightarrow> [])"

definition stored :: "task_area \<Rightarrow> string \<Rightarrow> stored_task option" where
  "stored area i = (case area_get area (taskKey i) of Some (TaskValue t) \<Rightarrow> Some t | _ \<Rightarrow> None)"

text \<open>\<open>evictOverflow\<close>: the loop over the ids past the cap, then the index without the removed.\<close>

fun evict_loop :: "string list \<Rightarrow> string list \<Rightarrow> task_area \<Rightarrow> string list \<times> task_area" where
  "evict_loop [] removed area = (removed, area)"
| "evict_loop (i # ids) removed area =
     (if (case stored area i of Some t \<Rightarrow> \<not> isTerminal (tk_state t) | None \<Rightarrow> False)
      then evict_loop ids removed area
      else evict_loop ids (removed @ [i]) (area_remove (taskKey i) area))"

definition evictOverflow :: "nat \<Rightarrow> task_area \<Rightarrow> task_area" where
  "evictOverflow maxTasks area =
     (let ids = get_index TASK_INDEX_KEY area
      in if length ids \<le> maxTasks then area
         else
           let (removed, area') = evict_loop (drop maxTasks ids) [] area
           in if removed \<noteq> [] then
                area_set TASK_INDEX_KEY
                  (IndexValue (filter (\<lambda>i. i \<notin> set removed) (get_index TASK_INDEX_KEY area')))
                  area'
              else area')"

definition saveTask :: "nat \<Rightarrow> agent_task \<Rightarrow> task_area \<Rightarrow> task_area" where
  "saveTask maxTasks t area =
     (let area1 = area_set (taskKey (tk_id t)) (TaskValue (store_form t)) area;
          ids = get_index TASK_INDEX_KEY area1;
          area2 = area_set TASK_INDEX_KEY
            (IndexValue (tk_id t # filter (\<lambda>i. i \<noteq> tk_id t) ids)) area1
      in evictOverflow maxTasks area2)"

text \<open>
  \<open>getTask\<close>: the outer \<open>None\<close> is the \<open>TypeError\<close> of normalising a stored \<open>null\<close>, the inner one is
  \<open>undefined\<close>. The flag says whether persistence health is told of a lost security state.
\<close>

definition getTask :: "string \<Rightarrow> task_area \<Rightarrow> agent_task option option \<times> bool" where
  "getTask i area =
     (case area_get area (taskKey i) of
        None \<Rightarrow> (Some None, False)
      | Some (TaskValue t) \<Rightarrow>
          let normalised = normaliseSecurityState t
          in (Some (Some normalised),
              \<not> hasUsableSecurityState normalised \<and> \<not> isTerminal (tk_state normalised))
      | Some _ \<Rightarrow> (None, False))"

text \<open>\<open>updateTask\<close>; a mutation always yields a task here, and a missing task leaves \<open>null\<close>.\<close>

definition updateTask ::
  "string \<Rightarrow> (agent_task \<Rightarrow> agent_task) \<Rightarrow> task_area \<Rightarrow> agent_task option \<times> task_area" where
  "updateTask i mutate area =
     (case stored area i of
        None \<Rightarrow> (None, area_set (taskKey i) NullValue area)
      | Some t \<Rightarrow>
          let nextTask = mutate (normaliseSecurityState t);
              area1 = area_set (taskKey i) (TaskValue (store_form nextTask)) area;
              ids = get_index TASK_INDEX_KEY area1
          in (Some nextTask,
              area_set TASK_INDEX_KEY (IndexValue (if i \<in> set ids then ids else i # ids)) area1))"

definition appendTaint ::
  "string \<Rightarrow> taint_source list \<Rightarrow> task_area \<Rightarrow> taint_state option \<times> task_area" where
  "appendTaint i sources area =
     (let (updated, area') =
        updateTask i (\<lambda>t. t\<lparr>tk_taintState := addTaint (tk_taintState t) sources\<rparr>) area
      in (map_option tk_taintState updated, area'))"

definition ensure_salt :: "string \<Rightarrow> agent_task \<Rightarrow> agent_task" where
  "ensure_salt candidate t =
     (if isValidTaintSalt (JStr (tk_taintSalt t)) \<and> 0 < tk_saltEpoch t then t
      else t\<lparr>tk_taintSalt := candidate, tk_saltEpoch := max (tk_saltEpoch t) 0 + 1\<rparr>)"

definition ensureSalt :: "string \<Rightarrow> string \<Rightarrow> task_area \<Rightarrow> agent_task option \<times> task_area" where
  "ensureSalt i candidate area = updateTask i (ensure_salt candidate) area"

definition listTasks :: "nat \<Rightarrow> task_area \<Rightarrow> agent_task list" where
  "listTasks limit area =
     List.map_filter (\<lambda>i. map_option normaliseSecurityState (stored area i))
       (take limit (get_index TASK_INDEX_KEY area))"

definition listInterrupted :: "nat \<Rightarrow> task_area \<Rightarrow> agent_task list" where
  "listInterrupted maxTasks area =
     filter (\<lambda>t. \<not> isTerminal (tk_state t)) (listTasks maxTasks area)"

definition deleteTask :: "string \<Rightarrow> task_area \<Rightarrow> task_area" where
  "deleteTask i area =
     (let area1 = area_remove (taskKey i) area
      in area_set TASK_INDEX_KEY
           (IndexValue (filter (\<lambda>j. j \<noteq> i) (get_index TASK_INDEX_KEY area1))) area1)"

definition saveSession :: "agent_session \<Rightarrow> task_area \<Rightarrow> task_area" where
  "saveSession s area =
     (let area1 = area_set (sessionKey (ss_id s)) (SessionValue s) area
      in area_set SESSION_INDEX_KEY
           (IndexValue (take 50
              (ss_id s # filter (\<lambda>i. i \<noteq> ss_id s) (get_index SESSION_INDEX_KEY area1)))) area1)"

definition getSession :: "string \<Rightarrow> task_area \<Rightarrow> agent_session option" where
  "getSession i area =
     (case area_get area (sessionKey i) of Some (SessionValue s) \<Rightarrow> Some s | _ \<Rightarrow> None)"

definition listSessions :: "nat \<Rightarrow> task_area \<Rightarrow> agent_session list" where
  "listSessions limit area =
     List.map_filter (\<lambda>i. getSession i area) (take limit (get_index SESSION_INDEX_KEY area))"

subsection \<open>Recovery after a restart\<close>

fun recoveryStateFor :: "task_state \<Rightarrow> task_state" where
  "recoveryStateFor RUNNING = PAUSED"
| "recoveryStateFor PLANNING = PAUSED"
| "recoveryStateFor WAITING_FOR_TOOL = PAUSED"
| "recoveryStateFor RECOVERING = PAUSED"
| "recoveryStateFor WAITING_FOR_PERMISSION = PAUSED"
| "recoveryStateFor QUEUED = QUEUED"
| "recoveryStateFor WAITING_FOR_USER = WAITING_FOR_USER"
| "recoveryStateFor PAUSED = PAUSED"
| "recoveryStateFor COMPLETED = COMPLETED"
| "recoveryStateFor PARTIAL = PARTIAL"
| "recoveryStateFor BLOCKED = BLOCKED"
| "recoveryStateFor FAILED = FAILED"
| "recoveryStateFor CANCELLED = CANCELLED"

definition recover_task :: "task_state \<Rightarrow> int \<Rightarrow> agent_task \<Rightarrow> agent_task" where
  "recover_task nextState now t =
     (if isTerminal (tk_state t) then t
      else t\<lparr>tk_state := nextState,
             tk_currentStepSummary :=
               Some (''Paused: the extension restarted while this task was running. '' @
                     ''Resume to continue, or retry to start again.''),
             tk_updatedAt := now\<rparr>)"

fun recover_loop ::
  "int \<Rightarrow> agent_task list \<Rightarrow> string list \<Rightarrow> task_area \<Rightarrow> string list \<times> task_area" where
  "recover_loop now [] recovered area = (recovered, area)"
| "recover_loop now (t # ts) recovered area =
     (let nextState = recoveryStateFor (tk_state t)
      in if nextState = tk_state t then recover_loop now ts recovered area
         else
           recover_loop now ts (recovered @ [tk_id t])
             (snd (updateTask (tk_id t) (recover_task nextState now) area)))"

definition recoverInterruptedTasks :: "nat \<Rightarrow> int \<Rightarrow> task_area \<Rightarrow> string list \<times> task_area" where
  "recoverInterruptedTasks maxTasks now area =
     recover_loop now (listInterrupted maxTasks area) [] area"

subsection \<open>Keys and the round trip of a record\<close>

lemma taskKey_inj [simp]: "taskKey i = taskKey j \<longleftrightarrow> i = j"
  by (simp add: taskKey_def)

lemma keys_differ [simp]:
  "taskKey i \<noteq> TASK_INDEX_KEY" "TASK_INDEX_KEY \<noteq> taskKey i" "taskKey i \<noteq> SESSION_INDEX_KEY"
  "SESSION_INDEX_KEY \<noteq> taskKey i" "taskKey i \<noteq> sessionKey j" "sessionKey j \<noteq> taskKey i"
  "sessionKey j \<noteq> TASK_INDEX_KEY" "TASK_INDEX_KEY \<noteq> sessionKey j"
  "sessionKey j \<noteq> SESSION_INDEX_KEY" "SESSION_INDEX_KEY \<noteq> sessionKey j"
  "TASK_INDEX_KEY \<noteq> SESSION_INDEX_KEY" "SESSION_INDEX_KEY \<noteq> TASK_INDEX_KEY"
  by (simp_all add: taskKey_def sessionKey_def TASK_INDEX_KEY_def SESSION_INDEX_KEY_def)

lemma with_security_fields [simp]:
  "tk_taintState (with_security c a b d) = a" "tk_taintSalt (with_security c a b d) = b"
  "tk_saltEpoch (with_security c a b d) = d" "to_core (with_security c a b d) = to_core c"
  "tk_state (with_security c a b d) = tk_state c" "tk_id (with_security c a b d) = tk_id c"
  by (simp_all add: with_security_def to_core_def task_core.defs task_record.defs)

lemma to_core_fields [simp]:
  "tk_state (to_core t) = tk_state t" "tk_id (to_core t) = tk_id t" "to_core (to_core t) = to_core t"
  by (simp_all add: to_core_def task_core.defs)

lemma core_split:
  "with_security (to_core t) (tk_taintState t) (tk_taintSalt t) (tk_saltEpoch t) = t"
  by (cases t) (simp add: with_security_def to_core_def task_core.defs task_record.defs)

definition security_ok :: "agent_task \<Rightarrow> bool" where
  "security_ok t \<longleftrightarrow>
     taint_ok (tk_taintState t) \<and>
     (isValidTaintSalt (JStr (tk_taintSalt t)) \<or> tk_taintSalt t = []) \<and> 0 \<le> tk_saltEpoch t"

lemma read_salt_text: "isValidTaintSalt (JStr s) \<or> s = [] \<Longrightarrow> read_salt (JStr s) = s"
  by (auto simp: read_salt_def)

lemma read_epoch_number: "0 \<le> e \<Longrightarrow> read_epoch (JNum (Fin (of_int e))) = e"
  by (simp add: read_epoch_def rat_integer_def)

lemma normalise_store: "security_ok t \<Longrightarrow> normaliseSecurityState (store_form t) = t"
  using core_split [of t]
  by (simp add: normaliseSecurityState_def store_form_def security_ok_def parseTaintState_json
      read_salt_text read_epoch_number)

lemma read_epoch_nonneg: "0 \<le> read_epoch v"
  by (auto simp: read_epoch_def split: json.split js_num.split)

lemma normalise_ok: "security_ok (normaliseSecurityState t)"
  by (auto simp: security_ok_def normaliseSecurityState_def parseTaintState_ok read_salt_def
      read_epoch_nonneg split: json.split)

lemma normalise_state [simp]:
  "tk_state (normaliseSecurityState t) = tk_state t" "tk_id (normaliseSecurityState t) = tk_id t"
  by (simp_all add: normaliseSecurityState_def)

lemma store_form_state [simp]:
  "tk_state (store_form t) = tk_state t" "tk_id (store_form t) = tk_id t"
  by (simp_all add: store_form_def)

subsection \<open>What the operations leave stored\<close>

lemma stored_set [simp]:
  "stored (area_set (taskKey i) v area) j =
     (if j = i then (case v of TaskValue t \<Rightarrow> Some t | _ \<Rightarrow> None) else stored area j)"
  "stored (area_set TASK_INDEX_KEY v area) j = stored area j"
  "stored (area_remove (taskKey i) area) j = (if j = i then None else stored area j)"
  by (simp_all add: stored_def store_simps)

lemma index_set [simp]:
  "get_index TASK_INDEX_KEY (area_set TASK_INDEX_KEY (IndexValue ids) area) = ids"
  "get_index TASK_INDEX_KEY (area_set (taskKey i) v area) = get_index TASK_INDEX_KEY area"
  "get_index TASK_INDEX_KEY (area_remove (taskKey i) area) = get_index TASK_INDEX_KEY area"
  by (simp_all add: get_index_def store_simps)

definition live :: "task_area \<Rightarrow> string \<Rightarrow> bool" where
  "live area i \<longleftrightarrow> (\<exists>t. stored area i = Some t \<and> \<not> isTerminal (tk_state t))"

lemma live_case: "live area i = (case stored area i of Some t \<Rightarrow> \<not> isTerminal (tk_state t) | None \<Rightarrow> False)"
  by (auto simp: live_def split: option.split)

lemma evict_loop_split:
  "evict_loop (i # ids) removed area =
     (if live area i then evict_loop ids removed area
      else evict_loop ids (removed @ [i]) (area_remove (taskKey i) area))"
  by (auto simp: live_def split: option.split)

lemma evict_loop_spec:
  assumes "evict_loop ids removed area = (removed', area')"
  shows "set removed' = set removed \<union> {i \<in> set ids. \<not> live area i} \<and>
    (\<forall>j. stored area' j = (if j \<in> set ids \<and> \<not> live area j then None else stored area j)) \<and>
    get_index TASK_INDEX_KEY area' = get_index TASK_INDEX_KEY area"
  using assms
proof (induction ids arbitrary: removed area)
  case (Cons i ids)
  show ?case
  proof (cases "live area i")
    case True
    then have "evict_loop ids removed area = (removed', area')"
      using Cons.prems by (simp only: evict_loop_split if_True)
    from Cons.IH [OF this] True show ?thesis by auto
  next
    case False
    then have "evict_loop ids (removed @ [i]) (area_remove (taskKey i) area) = (removed', area')"
      using Cons.prems by (simp only: evict_loop_split if_False)
    moreover have "live (area_remove (taskKey i) area) j \<longleftrightarrow> live area j" for j
      using False by (auto simp: live_def)
    ultimately show ?thesis
      using Cons.IH [of "removed @ [i]" "area_remove (taskKey i) area"] False by auto
  qed
qed simp

lemma evictOverflow_spec:
  "(\<forall>j. stored (evictOverflow n area) j =
      (if j \<in> set (drop n (get_index TASK_INDEX_KEY area)) \<and> \<not> live area j then None
       else stored area j)) \<and>
   get_index TASK_INDEX_KEY (evictOverflow n area) =
     filter (\<lambda>i. \<not> (i \<in> set (drop n (get_index TASK_INDEX_KEY area)) \<and> \<not> live area i))
       (get_index TASK_INDEX_KEY area)"
proof (cases "length (get_index TASK_INDEX_KEY area) \<le> n")
  case True
  then show ?thesis by (simp add: evictOverflow_def)
next
  case False
  obtain removed area' where l:
    "evict_loop (drop n (get_index TASK_INDEX_KEY area)) [] area = (removed, area')"
    by (cases "evict_loop (drop n (get_index TASK_INDEX_KEY area)) [] area")
  note spec = evict_loop_spec [OF l]
  have r: "i \<in> set removed \<longleftrightarrow> i \<in> set (drop n (get_index TASK_INDEX_KEY area)) \<and> \<not> live area i" for i
    using spec by auto
  show ?thesis
    using False spec l
    by (cases "removed = []") (auto simp: evictOverflow_def Let_def r [symmetric] intro!: filter_True [symmetric])
qed

text \<open>
  The invariant of the store: the index lists no id twice, and every stored task is listed, under
  its own id.
\<close>

definition store_ok :: "task_area \<Rightarrow> bool" where
  "store_ok area \<longleftrightarrow>
     distinct (get_index TASK_INDEX_KEY area) \<and>
     (\<forall>i t. stored area i = Some t \<longrightarrow> i \<in> set (get_index TASK_INDEX_KEY area) \<and> tk_id t = i)"

lemma store_ok_empty: "store_ok []"
  by (simp add: store_ok_def stored_def get_index_def area_get_def)

lemma store_ok_evict: "store_ok area \<Longrightarrow> store_ok (evictOverflow n area)"
  using evictOverflow_spec [of n area] by (auto simp: store_ok_def)

lemma store_ok_save: "store_ok area \<Longrightarrow> store_ok (saveTask n t area)"
  unfolding saveTask_def Let_def
  by (rule store_ok_evict) (auto simp: store_ok_def)

lemma store_ok_update:
  assumes "store_ok area" and "\<And>t. tk_id (mutate t) = tk_id t"
  shows "store_ok (snd (updateTask i mutate area))"
  using assms by (auto simp: store_ok_def updateTask_def Let_def split: option.split)

lemma store_ok_delete: "store_ok area \<Longrightarrow> store_ok (deleteTask i area)"
  by (auto simp: store_ok_def deleteTask_def Let_def)

lemma saveTask_index:
  assumes "0 < n"
  shows "hd (get_index TASK_INDEX_KEY (saveTask n t area)) = tk_id t"
proof -
  let ?a = "area_set TASK_INDEX_KEY (IndexValue (tk_id t # filter (\<lambda>i. i \<noteq> tk_id t)
    (get_index TASK_INDEX_KEY area))) (area_set (taskKey (tk_id t)) (TaskValue (store_form t)) area)"
  have "tk_id t \<notin> set (drop n (get_index TASK_INDEX_KEY ?a))"
    using assms by (cases n) (auto dest: in_set_dropD)
  then show ?thesis
    using evictOverflow_spec [of n ?a] by (simp add: saveTask_def Let_def)
qed

lemma saveTask_stored:
  assumes "0 < n"
  shows "stored (saveTask n t area) (tk_id t) = Some (store_form t)"
    and "i \<noteq> tk_id t \<Longrightarrow> live area i \<Longrightarrow> stored (saveTask n t area) i = stored area i"
    and "i \<noteq> tk_id t \<Longrightarrow> stored (saveTask n t area) i \<in> {None, stored area i}"
proof -
  let ?a = "area_set TASK_INDEX_KEY (IndexValue (tk_id t # filter (\<lambda>i. i \<noteq> tk_id t)
    (get_index TASK_INDEX_KEY area))) (area_set (taskKey (tk_id t)) (TaskValue (store_form t)) area)"
  have h: "tk_id t \<notin> set (drop n (get_index TASK_INDEX_KEY ?a))"
    using assms by (cases n) (auto dest: in_set_dropD)
  have s: "saveTask n t area = evictOverflow n ?a"
    by (simp add: saveTask_def Let_def)
  show "stored (saveTask n t area) (tk_id t) = Some (store_form t)"
    using evictOverflow_spec [of n ?a] h by (simp add: s)
  show "i \<noteq> tk_id t \<Longrightarrow> live area i \<Longrightarrow> stored (saveTask n t area) i = stored area i"
    using evictOverflow_spec [of n ?a] by (auto simp: s live_def)
  show "i \<noteq> tk_id t \<Longrightarrow> stored (saveTask n t area) i \<in> {None, stored area i}"
    using evictOverflow_spec [of n ?a] by (simp add: s)
qed

lemma getTask_stored: "stored area i = Some t \<Longrightarrow> fst (getTask i area) = Some (Some (normaliseSecurityState t))"
  by (auto simp: stored_def getTask_def Let_def split: option.splits task_value.splits)

lemma updateTask_stored:
  "stored area i = Some t \<Longrightarrow>
     stored (snd (updateTask i f area)) j =
       (if j = i then Some (store_form (f (normaliseSecurityState t))) else stored area j)"
  by (auto simp: updateTask_def Let_def)

lemma updateTask_missing:
  "stored area i = None \<Longrightarrow> fst (getTask i (snd (updateTask i f area))) = None"
  by (simp add: updateTask_def getTask_def store_simps)

lemma stored_id: "store_ok area \<Longrightarrow> stored area i = Some t \<Longrightarrow> tk_id t = i"
  by (simp add: store_ok_def)

lemma evict_index_tail:
  "i \<in> set (drop n (get_index TASK_INDEX_KEY (evictOverflow n area))) \<Longrightarrow>
   live (evictOverflow n area) i"
proof -
  let ?ids = "get_index TASK_INDEX_KEY area"
  let ?P = "\<lambda>i. \<not> (i \<in> set (drop n ?ids) \<and> \<not> live area i)"
  assume i: "i \<in> set (drop n (get_index TASK_INDEX_KEY (evictOverflow n area)))"
  have "filter ?P ?ids = filter ?P (take n ?ids) @ filter ?P (drop n ?ids)"
    by (metis append_take_drop_id filter_append)
  then have "i \<in> set (drop n (filter ?P (take n ?ids) @ filter ?P (drop n ?ids)))"
    using i evictOverflow_spec [of n area] by simp
  moreover have "length (filter ?P (take n ?ids)) \<le> n"
    using length_filter_le [of ?P "take n ?ids"] by simp
  ultimately have "i \<in> set (filter ?P (drop n ?ids))"
    by (auto dest: in_set_dropD)
  then show ?thesis
    using evictOverflow_spec [of n area] by (auto simp: live_def)
qed

lemma updateTask_id: "(\<And>t. tk_id (f t) = tk_id t) \<Longrightarrow> store_ok area \<Longrightarrow> store_ok (snd (updateTask i f area))"
  by (rule store_ok_update)

lemma recover_task_id [simp]: "tk_id (recover_task s now t) = tk_id t"
  by (simp add: recover_task_def)

lemma updateTask_live:
  assumes "stored area i = Some s"
  shows "stored (snd (updateTask i f area)) =
    (stored area)(i \<mapsto> store_form (f (normaliseSecurityState s)))"
  using updateTask_stored [OF assms] by auto

lemma recover_loop_spec:
  assumes "recover_loop now ts recovered area = (recovered', area')"
    and "distinct (map tk_id ts)"
    and "\<And>t. t \<in> set ts \<Longrightarrow> \<exists>s. stored area (tk_id t) = Some s \<and> t = normaliseSecurityState s"
  shows "\<forall>j. stored area' j =
    (case stored area j of
       None \<Rightarrow> None
     | Some s \<Rightarrow>
         if j \<in> tk_id ` set ts \<and> recoveryStateFor (tk_state s) \<noteq> tk_state s
         then Some (store_form (recover_task (recoveryStateFor (tk_state s)) now (normaliseSecurityState s)))
         else Some s)"
  using assms
proof (induction ts arbitrary: recovered area)
  case Nil
  then show ?case by (auto split: option.split)
next
  case (Cons t ts)
  obtain s where s: "stored area (tk_id t) = Some s" "t = normaliseSecurityState s"
    using Cons.prems(3) [of t] by auto
  have state: "tk_state t = tk_state s"
    by (simp add: s(2))
  show ?case
  proof (cases "recoveryStateFor (tk_state t) = tk_state t")
    case True
    then have "recover_loop now ts recovered area = (recovered', area')"
      using Cons.prems(1) by simp
    from Cons.IH [OF this] Cons.prems(2,3) show ?thesis
      using True s state by (auto split: option.split)
  next
    case False
    define a where "a = snd (updateTask (tk_id t) (recover_task (recoveryStateFor (tk_state t)) now) area)"
    have run: "recover_loop now ts (recovered @ [tk_id t]) a = (recovered', area')"
      using Cons.prems(1) False by (simp add: Let_def a_def)
    have upd: "stored a = (stored area)(tk_id t \<mapsto>
        store_form (recover_task (recoveryStateFor (tk_state s)) now (normaliseSecurityState s)))"
      unfolding a_def state [symmetric] by (rule updateTask_live [OF s(1)])
    have "\<exists>s. stored a (tk_id u) = Some s \<and> u = normaliseSecurityState s" if "u \<in> set ts" for u
    proof -
      have "tk_id u \<noteq> tk_id t"
        using Cons.prems(2) that by (simp, metis image_eqI)
      then show ?thesis
        using Cons.prems(3) [of u] that by (simp add: upd)
    qed
    note rest = Cons.IH [OF run _ this]
    have "tk_id t \<notin> tk_id ` set ts" and "distinct (map tk_id ts)"
      using Cons.prems(2) by simp_all
    then show ?thesis
      using rest False s(1) state by (auto simp: upd split: option.split)
  qed
qed

lemma map_filter_mem: "y \<in> set (List.map_filter f xs) \<longleftrightarrow> (\<exists>x \<in> set xs. f x = Some y)"
  by (induction xs) (auto simp: List.map_filter_simps split: option.split)

lemma listInterrupted_spec:
  assumes "store_ok area" and "length (get_index TASK_INDEX_KEY area) \<le> n"
  shows "distinct (map tk_id (listInterrupted n area))"
    and "t \<in> set (listInterrupted n area) \<longleftrightarrow>
      (\<exists>i s. stored area i = Some s \<and> t = normaliseSecurityState s \<and> \<not> isTerminal (tk_state s))"
proof -
  let ?ids = "get_index TASK_INDEX_KEY area"
  have l: "listTasks n area = List.map_filter (\<lambda>i. map_option normaliseSecurityState (stored area i)) ?ids"
    using assms(2) by (simp add: listTasks_def)
  have d: "distinct (map tk_id (List.map_filter (\<lambda>i. map_option normaliseSecurityState (stored area i)) xs)) \<and>
      tk_id ` set (List.map_filter (\<lambda>i. map_option normaliseSecurityState (stored area i)) xs) \<subseteq> set xs"
    if "distinct xs" for xs
    using that
    by (induction xs) (auto simp: List.map_filter_simps split: option.split dest: stored_id [OF assms(1)])
  then have "distinct (map tk_id (listTasks n area))"
    using assms(1) by (simp add: l store_ok_def)
  then show "distinct (map tk_id (listInterrupted n area))"
    unfolding listInterrupted_def by (rule distinct_map_filter)
  have listed: "stored area i = Some s \<Longrightarrow> i \<in> set ?ids" for i s
    using assms(1) by (auto simp: store_ok_def)
  show "t \<in> set (listInterrupted n area) \<longleftrightarrow>
      (\<exists>i s. stored area i = Some s \<and> t = normaliseSecurityState s \<and> \<not> isTerminal (tk_state s))"
    using listed by (auto simp: listInterrupted_def l map_filter_mem) blast
qed

lemma recovery_state_live:
  "\<not> isTerminal s \<Longrightarrow> recoveryStateFor s \<in> {QUEUED, WAITING_FOR_USER, PAUSED}"
  "isTerminal s \<Longrightarrow> recoveryStateFor s = s"
  "recoveryStateFor (recoveryStateFor s) = recoveryStateFor s"
  "recoveryStateFor s \<noteq> s \<Longrightarrow> canTransition s (recoveryStateFor s)"
  by (cases s; simp add: isTerminal_def TERMINAL_STATES_def canTransition_def)+

lemma recover_spec:
  assumes "store_ok area" and "length (get_index TASK_INDEX_KEY area) \<le> n"
  shows "stored (snd (recoverInterruptedTasks n now area)) j =
    (case stored area j of
       None \<Rightarrow> None
     | Some s \<Rightarrow>
         if recoveryStateFor (tk_state s) \<noteq> tk_state s
         then Some (store_form (recover_task (recoveryStateFor (tk_state s)) now (normaliseSecurityState s)))
         else Some s)"
proof -
  obtain recovered area' where r: "recover_loop now (listInterrupted n area) [] area = (recovered, area')"
    by (cases "recover_loop now (listInterrupted n area) [] area")
  have "\<exists>s. stored area (tk_id t) = Some s \<and> t = normaliseSecurityState s"
    if "t \<in> set (listInterrupted n area)" for t
    using that listInterrupted_spec(2) [OF assms, of t] stored_id [OF assms(1)] by auto
  note spec = recover_loop_spec [OF r listInterrupted_spec(1) [OF assms] this]
  show ?thesis
  proof (cases "stored area j")
    case (Some s)
    have "j \<in> tk_id ` set (listInterrupted n area)" if "recoveryStateFor (tk_state s) \<noteq> tk_state s"
    proof -
      have "\<not> isTerminal (tk_state s)"
        using that recovery_state_live(2) by blast
      then have "normaliseSecurityState s \<in> set (listInterrupted n area)"
        using listInterrupted_spec(2) [OF assms] Some by blast
      then show ?thesis
        using stored_id [OF assms(1) Some] by force
    qed
    then show ?thesis
      using spec Some r by (auto simp: recoverInterruptedTasks_def)
  next
    case None
    then show ?thesis
      using spec r by (simp add: recoverInterruptedTasks_def)
  qed
qed

lemma recovered_taint:
  assumes "security_ok t"
  shows "normaliseSecurityState (store_form (recover_task s now t)) = recover_task s now t \<and>
    tk_taintState (recover_task s now t) = tk_taintState t"
  using assms by (auto simp: recover_task_def security_ok_def intro!: normalise_store)

subsection \<open>Properties\<close>

definition sample_task :: "string \<Rightarrow> task_state \<Rightarrow> agent_task" where
  "sample_task i state =
     (createTask
       \<lparr>in_id = i, in_sessionId = ''s1'', in_objective = ''read'', in_providerId = ''p'',
        in_connectionId = None, in_workspaceId = None, in_modelId = ''m'',
        in_permissionMode = manual_mode, in_authorizationModel = None, in_allowedTools = None,
        in_permissionFloor = None, in_now = 0, in_taintSalt = Some []\<rparr> [])\<lparr>tk_state := state\<rparr>"

lemma sample_task_fields [simp]:
  "tk_id (sample_task i st) = i" "tk_state (sample_task i st) = st"
  "tk_taintState (sample_task i st) = KNOWN_UNTAINTED" "tk_taintSalt (sample_task i st) = []"
  "tk_saltEpoch (sample_task i st) = 1"
  by (simp_all add: sample_task_def createTask_def freshTaint_def)

text \<open>
  Saving a task stores it, keeps every live task, evicts only finished ones past the cap, and
  keeps the index free of duplicates and complete: what is read back is the task saved, it heads the
  index, and every id left past the cap names a live task.
\<close>

theorem save_task_retention:
  assumes "store_ok area" and "0 < maxTasks" and "security_ok t"
  shows "store_ok (saveTask maxTasks t area) \<and>
    fst (getTask (tk_id t) (saveTask maxTasks t area)) = Some (Some t) \<and>
    hd (get_index TASK_INDEX_KEY (saveTask maxTasks t area)) = tk_id t \<and>
    (\<forall>i. i \<noteq> tk_id t \<longrightarrow> live area i \<longrightarrow> stored (saveTask maxTasks t area) i = stored area i) \<and>
    (\<forall>i \<in> set (drop maxTasks (get_index TASK_INDEX_KEY (saveTask maxTasks t area))).
       live (saveTask maxTasks t area) i)"
proof (intro conjI)
  show "store_ok (saveTask maxTasks t area)"
    by (rule store_ok_save [OF assms(1)])
  show "fst (getTask (tk_id t) (saveTask maxTasks t area)) = Some (Some t)"
    using getTask_stored [OF saveTask_stored(1) [OF assms(2)]] normalise_store [OF assms(3)] by simp
  show "hd (get_index TASK_INDEX_KEY (saveTask maxTasks t area)) = tk_id t"
    by (rule saveTask_index [OF assms(2)])
  show "\<forall>i. i \<noteq> tk_id t \<longrightarrow> live area i \<longrightarrow> stored (saveTask maxTasks t area) i = stored area i"
    using saveTask_stored(2) [OF assms(2)] by blast
  show "\<forall>i \<in> set (drop maxTasks (get_index TASK_INDEX_KEY (saveTask maxTasks t area))).
      live (saveTask maxTasks t area) i"
    unfolding saveTask_def Let_def using evict_index_tail by blast
qed

theorem save_task_retention_witness:
  "fst (getTask ''a'' (saveTask 1 (sample_task ''b'' RUNNING)
     (saveTask 1 (sample_task ''a'' RUNNING) []))) = Some (Some (sample_task ''a'' RUNNING))"
proof -
  have ok: "security_ok (sample_task i RUNNING)" for i
    by (simp add: security_ok_def taint_ok_def)
  let ?area = "saveTask 1 (sample_task ''a'' RUNNING) []"
  have a: "store_ok ?area" "stored ?area ''a'' = Some (store_form (sample_task ''a'' RUNNING))"
    using store_ok_save [OF store_ok_empty] saveTask_stored(1) [of 1 "sample_task ''a'' RUNNING" "[]"]
    by simp_all
  then have "live ?area ''a''"
    by (simp add: live_def isTerminal_def TERMINAL_STATES_def)
  then have "stored (saveTask 1 (sample_task ''b'' RUNNING) ?area) ''a'' = stored ?area ''a''"
    using save_task_retention [OF a(1) _ ok, of 1 "''b''"] by simp
  then show ?thesis
    using getTask_stored [of "saveTask 1 (sample_task ''b'' RUNNING) ?area" "''a''"] a(2)
      normalise_store [OF ok] by simp
qed

text \<open>
  Taint appended to a stored task is what every later read finds: the state before with the
  sources added, so never less than before; no other task is touched, and a state that was unknown
  stays so across the write.
\<close>

theorem append_taint_persists:
  assumes "stored area i = Some s" and "list_all (\<lambda>x. ts_sourceType x \<noteq> []) sources"
  shows "fst (getTask i (snd (appendTaint i sources area))) =
      Some (Some ((normaliseSecurityState s)
        \<lparr>tk_taintState := addTaint (tk_taintState (normaliseSecurityState s)) sources\<rparr>)) \<and>
    (\<forall>j. j \<noteq> i \<longrightarrow> stored (snd (appendTaint i sources area)) j = stored area j)"
proof -
  let ?f = "\<lambda>t. t\<lparr>tk_taintState := addTaint (tk_taintState t) sources\<rparr>"
  have "security_ok (?f (normaliseSecurityState s))"
    using normalise_ok [of s] addTaint_ok [OF _ assms(2)] by (auto simp: security_ok_def)
  moreover have "snd (appendTaint i sources area) = snd (updateTask i ?f area)"
    by (simp add: appendTaint_def split: prod.split)
  ultimately show ?thesis
    using updateTask_stored [OF assms(1), of ?f]
      getTask_stored [of "snd (updateTask i ?f area)" i] by (simp add: normalise_store)
qed

theorem append_taint_persists_witness:
  "fst (getTask ''a'' (snd (appendTaint ''a'' [] (saveTask 1 (sample_task ''a'' RUNNING) [])))) \<noteq> None"
proof -
  have "stored (saveTask 1 (sample_task ''a'' RUNNING) []) ''a'' =
      Some (store_form (sample_task ''a'' RUNNING))"
    using saveTask_stored(1) [of 1 "sample_task ''a'' RUNNING" "[]"] by simp
  from append_taint_persists [OF this, of "[]"] show ?thesis by simp
qed

text \<open>
  After a restart no task the store lists within its cap is still running: every stored task that
  was planning, running, waiting for a tool or a permission, or recovering is paused, by a legal
  transition and with its taint as it was; every other task is untouched.
\<close>

theorem restart_recovery:
  assumes "store_ok area" and "length (get_index TASK_INDEX_KEY area) \<le> maxTasks"
    and "stored area i = Some s"
  shows "\<exists>s'. stored (snd (recoverInterruptedTasks maxTasks now area)) i = Some s' \<and>
    tk_state s' = recoveryStateFor (tk_state s) \<and>
    (tk_state s' = tk_state s \<or> tk_state s' = PAUSED \<and> canTransition (tk_state s) PAUSED) \<and>
    (isTerminal (tk_state s') \<or> tk_state s' \<in> {QUEUED, WAITING_FOR_USER, PAUSED}) \<and>
    tk_taintState (normaliseSecurityState s') = tk_taintState (normaliseSecurityState s) \<and>
    (recoveryStateFor (tk_state s) = tk_state s \<longrightarrow> s' = s)"
proof (cases "recoveryStateFor (tk_state s) = tk_state s")
  case True
  then show ?thesis
    using recover_spec [OF assms(1,2), of now i] assms(3) recovery_state_live(1) [of "tk_state s"]
    by auto
next
  case False
  then have live: "\<not> isTerminal (tk_state s)"
    using recovery_state_live(2) by blast
  let ?r = "recover_task (recoveryStateFor (tk_state s)) now (normaliseSecurityState s)"
  have "stored (snd (recoverInterruptedTasks maxTasks now area)) i = Some (store_form ?r)"
    using recover_spec [OF assms(1,2), of now i] assms(3) False by simp
  moreover have "tk_state ?r = recoveryStateFor (tk_state s)"
    using live by (simp add: recover_task_def)
  moreover have "recoveryStateFor (tk_state s) = PAUSED"
    using False by (cases "tk_state s") simp_all
  ultimately show ?thesis
    using False recovered_taint [OF normalise_ok] recovery_state_live(4) [OF False] by auto
qed

theorem restart_recovery_witness:
  "\<exists>s'. stored (snd (recoverInterruptedTasks 1 9 (saveTask 1 (sample_task ''a'' RUNNING) []))) ''a'' =
     Some s' \<and> tk_state s' = PAUSED"
proof -
  let ?area = "saveTask 1 (sample_task ''a'' RUNNING) []"
  have s: "stored ?area ''a'' = Some (store_form (sample_task ''a'' RUNNING))"
    using saveTask_stored(1) [of 1 "sample_task ''a'' RUNNING" "[]"] by simp
  have l: "length (get_index TASK_INDEX_KEY ?area) \<le> 1"
    by (simp add: saveTask_def evictOverflow_def get_index_def area_get_def area_set_def
        TASK_INDEX_KEY_def taskKey_def)
  show ?thesis
    using restart_recovery [OF store_ok_save [OF store_ok_empty] l s, of 9] by auto
qed

text \<open>
  Past the cap the recovery looks no further: a live task the eviction rightly kept, because it
  was live, is not among the interrupted ones, and a restart leaves it running for ever.
\<close>

theorem recovery_misses_overflow:
  "let area = saveTask 1 (sample_task ''b'' RUNNING) (saveTask 1 (sample_task ''a'' RUNNING) []) in
   live area ''a'' \<and> map tk_id (listInterrupted 1 area) = [''b''] \<and>
   map_option tk_state (stored (snd (recoverInterruptedTasks 1 9 area)) ''a'') = Some RUNNING"
  unfolding live_case by code_simp

text \<open>
  C32. An update of a task that is not stored writes \<open>null\<close> under its key, and the next read of that
  task throws instead of reporting it absent.
\<close>

theorem update_missing_poisons_read:
  assumes "stored area i = None"
  shows "fst (updateTask i f area) = None \<and> fst (getTask i (snd (updateTask i f area))) = None"
  using updateTask_missing [OF assms] assms by (simp add: updateTask_def)

theorem update_missing_poisons_read_witness:
  "fst (getTask ''x'' []) = Some None \<and> fst (getTask ''x'' (snd (updateTask ''x'' (\<lambda>t. t) []))) = None"
  using update_missing_poisons_read [of "[]" "''x''" "\<lambda>t. t"]
  by (simp add: getTask_def area_get_def stored_def)

text \<open>
  The repair of a record read from storage is total and stable: whatever the stored fields hold,
  the result is well formed and survives a write and a read unchanged, a damaged taint field never
  reads as clean, and renewing the salt keeps the taint and never lowers the epoch.
\<close>

theorem security_repair:
  "security_ok (normaliseSecurityState s) \<and>
   normaliseSecurityState (store_form (normaliseSecurityState s)) = normaliseSecurityState s \<and>
   (tk_taintState (normaliseSecurityState s) = KNOWN_UNTAINTED \<longrightarrow>
      (\<exists>obj. tk_taintState s = JObj obj \<and> json_get obj ''kind'' = JStr ''KNOWN_UNTAINTED'')) \<and>
   tk_taintState (ensure_salt salt t) = tk_taintState t \<and>
   tk_saltEpoch t \<le> tk_saltEpoch (ensure_salt salt t) \<and>
   (isValidTaintSalt (JStr salt) \<longrightarrow>
      ensure_salt other (ensure_salt salt t) = ensure_salt salt t)"
  using normalise_ok [of s] normalise_store [OF normalise_ok [of s]]
    parseTaintState_untainted [of "tk_taintState s"]
  by (auto simp: ensure_salt_def normaliseSecurityState_def)

theorem security_repair_witness:
  "security_ok (normaliseSecurityState (store_form (sample_task ''a'' QUEUED)))"
  using security_repair by blast

end
