(* ===== verification/Destination.thy ===== *)
theory Destination
  imports Exfiltration Risk
begin

text \<open>
  \<open>src/security/egress/destination.ts\<close> and \<open>src/security/egress/carrier.ts\<close>: where a transfer goes,
  under which canonical identity, and whether the act can carry data at all.
\<close>

datatype egress_channel =
    ch_none
  | ch_ai_provider
  | ch_web_ai_provider
  | ch_page_write
  | ch_navigation
  | ch_clipboard
  | ch_download
  | ch_connector
  | ch_mcp
  | ch_identity
  | ch_provider_auth

fun channel_name :: "egress_channel \<Rightarrow> string" where
  "channel_name ch_none = ''none''"
| "channel_name ch_ai_provider = ''ai_provider''"
| "channel_name ch_web_ai_provider = ''web_ai_provider''"
| "channel_name ch_page_write = ''page_write''"
| "channel_name ch_navigation = ''navigation''"
| "channel_name ch_clipboard = ''clipboard''"
| "channel_name ch_download = ''download''"
| "channel_name ch_connector = ''connector''"
| "channel_name ch_mcp = ''mcp''"
| "channel_name ch_identity = ''identity''"
| "channel_name ch_provider_auth = ''provider_auth''"

definition EGRESS_CHANNELS :: "egress_channel list" where
  "EGRESS_CHANNELS =
     [ch_none, ch_ai_provider, ch_web_ai_provider, ch_page_write, ch_navigation, ch_clipboard,
      ch_download, ch_connector, ch_mcp, ch_identity, ch_provider_auth]"

definition EXTERNAL_CHANNELS :: "egress_channel list" where
  "EXTERNAL_CHANNELS =
     [ch_identity, ch_ai_provider, ch_web_ai_provider, ch_page_write, ch_navigation, ch_clipboard,
      ch_download, ch_connector, ch_mcp, ch_provider_auth]"

definition isExternalChannel :: "egress_channel \<Rightarrow> bool" where
  "isExternalChannel channel = (channel \<in> set EXTERNAL_CHANNELS)"

record egress_destination =
  ds_channel :: egress_channel
  ds_identity :: "string option"
  ds_origin :: "string option"
  ds_providerId :: "string option"
  ds_connectionId :: "string option"
  ds_modelId :: "string option"
  ds_tabId :: "int option"
  ds_frameId :: "int option"
  ds_purpose :: "string option"
  ds_sensitivity :: "data_sensitivity option"
  ds_risk :: "risk_level option"

definition bare_destination :: "egress_channel \<Rightarrow> egress_destination" where
  "bare_destination channel =
     \<lparr>ds_channel = channel, ds_identity = None, ds_origin = None, ds_providerId = None,
      ds_connectionId = None, ds_modelId = None, ds_tabId = None, ds_frameId = None,
      ds_purpose = None, ds_sensitivity = None, ds_risk = None\<rparr>"

definition canonicalUrlIdentity :: "url_parser \<Rightarrow> string \<Rightarrow> string option" where
  "canonicalUrlIdentity U url =
     (case parseOrigin U url of
        None \<Rightarrow> None
      | Some info \<Rightarrow>
          if oi_protocol info \<in> set BLOCKED_SCHEMES then None
          else Some (js_lower (oi_origin info)))"

text \<open>The shape three canonical identities share; an empty origin or id is falsy.\<close>

definition identity_at :: "string \<Rightarrow> url_parser \<Rightarrow> string \<Rightarrow> string \<Rightarrow> string option" where
  "identity_at pre U given url =
     (case canonicalUrlIdentity U url of
        None \<Rightarrow> None
      | Some origin \<Rightarrow>
          if origin = [] then None
          else
            let ident = js_lower (js_trim given)
            in if ident = [] then None else Some (pre @ ident @ ''@'' @ origin))"

definition canonicalProviderIdentity :: "url_parser \<Rightarrow> string \<Rightarrow> string \<Rightarrow> string option" where
  "canonicalProviderIdentity U providerId baseUrl = identity_at [] U providerId baseUrl"

definition canonicalConnectorIdentity :: "url_parser \<Rightarrow> string \<Rightarrow> string \<Rightarrow> string option" where
  "canonicalConnectorIdentity U connectorId url = identity_at [] U connectorId url"

definition canonicalMcpIdentity :: "url_parser \<Rightarrow> string \<Rightarrow> string \<Rightarrow> string option" where
  "canonicalMcpIdentity U serverId url = identity_at ''mcp:'' U serverId url"

definition describeDestination :: "egress_destination \<Rightarrow> string" where
  "describeDestination destination =
     (case ds_identity destination of
        None \<Rightarrow> ''an unrecognised destination''
      | Some identity \<Rightarrow>
          let place = (case ds_origin destination of None \<Rightarrow> identity | Some origin \<Rightarrow> origin)
          in (case ds_providerId destination of
                Some providerId \<Rightarrow> providerId @ '' ('' @ place @ '')''
              | None \<Rightarrow> place))"

definition origin_of :: "url_parser \<Rightarrow> string \<Rightarrow> string option" where
  "origin_of U url = map_option oi_origin (parseOrigin U url)"

definition urlDestination ::
  "url_parser \<Rightarrow> egress_channel \<Rightarrow> string \<Rightarrow> int option \<Rightarrow> int option \<Rightarrow> string option \<Rightarrow>
   egress_destination" where
  "urlDestination U channel url tabId frameId purpose =
     (bare_destination channel)\<lparr>ds_identity := canonicalUrlIdentity U url,
        ds_origin := origin_of U url, ds_tabId := tabId, ds_frameId := frameId,
        ds_purpose := purpose\<rparr>"

definition providerDestination ::
  "url_parser \<Rightarrow> string \<Rightarrow> string \<Rightarrow> string option \<Rightarrow> string option \<Rightarrow> egress_destination" where
  "providerDestination U providerId baseUrl modelId connectionId =
     (bare_destination ch_ai_provider)\<lparr>
        ds_identity := canonicalProviderIdentity U providerId baseUrl,
        ds_origin := origin_of U baseUrl, ds_providerId := Some providerId,
        ds_connectionId := connectionId, ds_modelId := modelId\<rparr>"

text \<open>The identity endpoints are recognised by their origin only.\<close>

definition same_origin_as :: "url_parser \<Rightarrow> string \<Rightarrow> string \<Rightarrow> origin_info option" where
  "same_origin_as U expected url =
     (case (parseOrigin U url, parseOrigin U expected) of
        (Some info, Some ref) \<Rightarrow> if oi_origin info = oi_origin ref then Some info else None
      | _ \<Rightarrow> None)"

definition identityDestination :: "url_parser \<Rightarrow> string \<Rightarrow> string \<Rightarrow> egress_destination" where
  "identityDestination U backendOrigin url =
     (bare_destination ch_identity)\<lparr>
        ds_identity :=
          map_option (\<lambda>info. ''identity@'' @ oi_origin info) (same_origin_as U backendOrigin url),
        ds_origin := origin_of U url, ds_purpose := Some ''authentication''\<rparr>"

definition providerAuthDestination ::
  "url_parser \<Rightarrow> string \<Rightarrow> string \<Rightarrow> string \<Rightarrow> egress_destination" where
  "providerAuthDestination U providerId expectedEndpoint url =
     (bare_destination ch_provider_auth)\<lparr>
        ds_identity :=
          map_option (\<lambda>info. ''provider-auth:'' @ providerId @ ''@'' @ oi_origin info)
            (same_origin_as U expectedEndpoint url),
        ds_origin := origin_of U url, ds_purpose := Some ''account authorization''\<rparr>"

definition connectorDestination ::
  "url_parser \<Rightarrow> string \<Rightarrow> string \<Rightarrow> string option \<Rightarrow> data_sensitivity option \<Rightarrow>
   egress_destination" where
  "connectorDestination U connectorId url purpose sensitivity =
     (bare_destination ch_connector)\<lparr>
        ds_identity := canonicalConnectorIdentity U connectorId url,
        ds_origin := origin_of U url, ds_purpose := purpose, ds_sensitivity := sensitivity\<rparr>"

definition mcpDestination ::
  "url_parser \<Rightarrow> string \<Rightarrow> string \<Rightarrow> string option \<Rightarrow> data_sensitivity option \<Rightarrow>
   egress_destination" where
  "mcpDestination U serverId url meth sensitivity =
     (bare_destination ch_mcp)\<lparr>
        ds_identity := canonicalMcpIdentity U serverId url,
        ds_origin := origin_of U url, ds_purpose := meth, ds_sensitivity := sensitivity\<rparr>"

definition noEgress :: egress_destination where
  "noEgress = bare_destination ch_none"

subsection \<open>Carriers\<close>

datatype carrier_class = carrier_none | carrier_low | carrier_high

record carrier_input =
  ci_url :: "string option"
  ci_currentUrl :: "string option"
  ci_observedUrls :: "string list option"
  ci_writesValue :: "bool option"

definition sameUrl :: "url_parser \<Rightarrow> string \<Rightarrow> string \<Rightarrow> bool" where
  "sameUrl U a b =
     (case (U a, U b) of
        (Some left, Some right) \<Rightarrow>
          js_lower (u_origin left) = js_lower (u_origin right) \<and>
          u_pathname left = u_pathname right \<and> u_search left = u_search right \<and>
          u_hash left = u_hash right
      | _ \<Rightarrow> False)"

definition same_origin_page :: "url_parser \<Rightarrow> string option \<Rightarrow> origin_info \<Rightarrow> bool" where
  "same_origin_page U currentUrl target =
     (case currentUrl of
        None \<Rightarrow> False
      | Some url \<Rightarrow>
          (case parseOrigin U url of
             None \<Rightarrow> False
           | Some current \<Rightarrow> js_lower (oi_origin current) = js_lower (oi_origin target)))"

definition assessCarrier :: "url_parser \<Rightarrow> carrier_input \<Rightarrow> carrier_class" where
  "assessCarrier U input =
     (if ci_writesValue input = Some True then carrier_high
      else
        (case ci_url input of
           None \<Rightarrow> carrier_high
         | Some url \<Rightarrow>
             (case parseOrigin U url of
                None \<Rightarrow> carrier_high
              | Some target \<Rightarrow>
                  (case U url of
                     None \<Rightarrow> carrier_high
                   | Some parsed \<Rightarrow>
                       let hasPayloadSlot =
                             0 < length (u_search parsed) \<or> 0 < length (u_hash parsed);
                           observed =
                             (case ci_observedUrls input of None \<Rightarrow> [] | Some urls \<Rightarrow> urls)
                       in if \<not> hasPayloadSlot \<and>
                             list_ex (\<lambda>candidate. sameUrl U candidate url) observed
                          then carrier_none
                          else if hasPayloadSlot then carrier_high
                          else if same_origin_page U (ci_currentUrl input) target then carrier_low
                          else carrier_high))))"

definition consentRequiredFor :: "carrier_class \<Rightarrow> bool" where
  "consentRequiredFor carrier = (carrier = carrier_high)"

subsection \<open>Facts the gate rests on\<close>

lemma EGRESS_CHANNELS_all: "set EGRESS_CHANNELS = UNIV"
  by (auto simp: EGRESS_CHANNELS_def intro: egress_channel.exhaust)

lemma isExternalChannel_iff: "isExternalChannel channel \<longleftrightarrow> channel \<noteq> ch_none"
  by (cases channel) (simp_all add: isExternalChannel_def EXTERNAL_CHANNELS_def)

lemma channel_name_inj: "channel_name a = channel_name b \<Longrightarrow> a = b"
  by (cases a; cases b) simp_all

lemma channel_name_no_nul: "CHR 0x00 \<notin> set (channel_name c)"
  by (cases c) simp_all

text \<open>An act judged unable to carry data goes to a URL already observed, with no slot to fill.\<close>

lemma assessCarrier_none:
  assumes "assessCarrier U input = carrier_none"
  shows "ci_writesValue input \<noteq> Some True \<and>
    (\<exists>url parsed candidates seen. ci_url input = Some url \<and> U url = Some parsed \<and>
       u_search parsed = [] \<and> u_hash parsed = [] \<and> ci_observedUrls input = Some candidates \<and>
       seen \<in> set candidates \<and> sameUrl U seen url)"
  using assms
  by (force simp: assessCarrier_def Let_def list_ex_iff split: if_splits option.splits)

lemma identity_origin:
  "ds_identity (identityDestination U backend url) = Some i \<Longrightarrow>
   origin_of U url = origin_of U backend \<and> origin_of U url \<noteq> None"
  by (auto simp: identityDestination_def same_origin_as_def origin_of_def split: option.splits if_splits)

lemma provider_auth_origin:
  "ds_identity (providerAuthDestination U p expected url) = Some i \<Longrightarrow>
   origin_of U url = origin_of U expected \<and> origin_of U url \<noteq> None"
  by (auto simp: providerAuthDestination_def same_origin_as_def origin_of_def
      split: option.splits if_splits)

end
