(* ===== verification/Consent.thy ===== *)
theory Consent
  imports Destination TaintSignature
begin

text \<open>
  \<open>src/security/egress/consent.ts\<close>: consent grants, keyed by task, channel, destination, taint
  signature and sensitivity ceiling, and the provider a task is bound to.

  The content hash (SHA-256 of the platform) is the parameter \<open>H\<close>.
\<close>

record consent_key =
  ck_taskId :: string
  ck_destinationIdentity :: string
  ck_taintSignature :: string
  ck_sensitivityCeiling :: data_sensitivity
  ck_channel :: egress_channel

record provider_pin =
  pin_identity :: string
  pin_connectionId :: "string option"
  pin_modelId :: string

record consent_grant =
  cg_key :: consent_key
  cg_grantedAt :: int
  cg_expiresAt :: int
  cg_providerId :: "string option"
  cg_modelId :: "string option"

record consent_store =
  cs_grants :: "(string \<times> consent_grant) list"
  cs_pins :: "(string \<times> provider_pin) list"
  cs_ttlMs :: int

definition DEFAULT_TTL_MS :: int where
  "DEFAULT_TTL_MS = 15 * 60000"

definition newConsentStore :: "int \<Rightarrow> consent_store" where
  "newConsentStore ttlMs = \<lparr>cs_grants = [], cs_pins = [], cs_ttlMs = ttlMs\<rparr>"

definition taintSignature :: "(string \<Rightarrow> string) \<Rightarrow> (string \<Rightarrow> string) \<Rightarrow> taint_state \<Rightarrow> string" where
  "taintSignature nfc H state = H (canonicalTaintPayload nfc state)"

definition keyString :: "consent_key \<Rightarrow> string" where
  "keyString key =
     js_join [CHR 0x00]
       [ck_taskId key, channel_name (ck_channel key), ck_destinationIdentity key,
        ck_taintSignature key, sensitivity_name (ck_sensitivityCeiling key)]"

definition grant ::
  "consent_key \<Rightarrow> int \<Rightarrow> string option \<Rightarrow> string option \<Rightarrow> consent_store \<Rightarrow>
   consent_grant \<times> consent_store" where
  "grant key now providerId modelId store =
     (let entry =
        \<lparr>cg_key = key, cg_grantedAt = now, cg_expiresAt = now + cs_ttlMs store,
         cg_providerId = providerId, cg_modelId = modelId\<rparr>
      in (entry, store\<lparr>cs_grants := AList.update (keyString key) entry (cs_grants store)\<rparr>))"

definition find_consent ::
  "consent_key \<Rightarrow> int \<Rightarrow> string option \<Rightarrow> string option \<Rightarrow> consent_store \<Rightarrow>
   consent_grant option \<times> consent_store" where
  "find_consent key now providerId modelId store =
     (case map_of (cs_grants store) (keyString key) of
        None \<Rightarrow> (None, store)
      | Some entry \<Rightarrow>
          if cg_expiresAt entry \<le> now then
            (None, store\<lparr>cs_grants := AList.delete (keyString key) (cs_grants store)\<rparr>)
          else if providerId \<noteq> None \<and> cg_providerId entry \<noteq> providerId then (None, store)
          else if modelId \<noteq> None \<and> cg_modelId entry \<noteq> modelId then (None, store)
          else (Some entry, store))"

definition pinnedProvider :: "string \<Rightarrow> consent_store \<Rightarrow> provider_pin option" where
  "pinnedProvider taskId store = map_of (cs_pins store) taskId"

definition pinProvider :: "string \<Rightarrow> provider_pin \<Rightarrow> consent_store \<Rightarrow> consent_store" where
  "pinProvider taskId pin store =
     (if pinnedProvider taskId store = None
      then store\<lparr>cs_pins := AList.update taskId pin (cs_pins store)\<rparr> else store)"

definition matchesPin :: "string \<Rightarrow> provider_pin \<Rightarrow> consent_store \<Rightarrow> bool" where
  "matchesPin taskId pin store =
     (case pinnedProvider taskId store of
        None \<Rightarrow> False
      | Some existing \<Rightarrow>
          if pin_connectionId existing \<noteq> pin_connectionId pin then False
          else pin_identity existing = pin_identity pin \<and> pin_modelId existing = pin_modelId pin)"

definition revoke :: "consent_key \<Rightarrow> consent_store \<Rightarrow> consent_store" where
  "revoke key store = store\<lparr>cs_grants := AList.delete (keyString key) (cs_grants store)\<rparr>"

definition revokeTask :: "string \<Rightarrow> consent_store \<Rightarrow> consent_store" where
  "revokeTask taskId store =
     store\<lparr>cs_grants := filter (\<lambda>(stored, g). ck_taskId (cg_key g) \<noteq> taskId) (cs_grants store),
           cs_pins := AList.delete taskId (cs_pins store)\<rparr>"

definition revokeAll :: "consent_store \<Rightarrow> consent_store" where
  "revokeAll store = store\<lparr>cs_grants := [], cs_pins := []\<rparr>"

definition store_size :: "consent_store \<Rightarrow> nat" where
  "store_size store = length (cs_grants store)"

definition exceedsCeiling :: "data_sensitivity \<Rightarrow> data_sensitivity \<Rightarrow> bool" where
  "exceedsCeiling bound actual = (SENSITIVITY_RANK actual > SENSITIVITY_RANK bound)"

subsection \<open>Keys\<close>

text \<open>A key whose variable parts hold no NUL is determined by its string.\<close>

definition clean_key :: "consent_key \<Rightarrow> bool" where
  "clean_key key \<longleftrightarrow>
     CHR 0x00 \<notin> set (ck_taskId key) \<and> CHR 0x00 \<notin> set (ck_destinationIdentity key) \<and>
     CHR 0x00 \<notin> set (ck_taintSignature key)"

lemma keyString_inj:
  assumes "keyString a = keyString b" and "clean_key a" and "clean_key b"
  shows "a = b"
proof -
  let ?parts = "\<lambda>k. [ck_taskId k, channel_name (ck_channel k), ck_destinationIdentity k,
    ck_taintSignature k, sensitivity_name (ck_sensitivityCeiling k)]"
  have "js_split (CHR 0x00) (js_join [CHR 0x00] (?parts k)) = ?parts k" if "clean_key k" for k
    using that channel_name_no_nul sensitivity_name_no_nul
    by (intro js_split_join) (auto simp: clean_key_def)
  then have "?parts a = ?parts b"
    using assms unfolding keyString_def by metis
  then show ?thesis
    using channel_name_inj sensitivity_name_inj by (cases a; cases b) auto
qed

subsection \<open>The store's invariant\<close>

text \<open>Every grant is stored under its own key, and neither map has two entries for a key.\<close>

definition consent_ok :: "consent_store \<Rightarrow> bool" where
  "consent_ok store \<longleftrightarrow>
     distinct (map fst (cs_grants store)) \<and> distinct (map fst (cs_pins store)) \<and>
     (\<forall>(k, g) \<in> set (cs_grants store). k = keyString (cg_key g) \<and> cg_expiresAt g = cg_grantedAt g + cs_ttlMs store)"

lemma set_update_subset: "set (AList.update k v m) \<subseteq> insert (k, v) (set m)"
  by (induction m) auto

lemma set_delete_subset: "set (AList.delete k m) \<subseteq> set m"
  by (auto simp: AList.delete_eq)

lemma consent_ok_new: "consent_ok (newConsentStore ttl)"
  by (simp add: consent_ok_def newConsentStore_def)

lemma consent_ok_grant: "consent_ok store \<Longrightarrow> consent_ok (snd (grant key now p m store))"
  using set_update_subset [of "keyString key" _ "cs_grants store"]
  by (fastforce simp: consent_ok_def grant_def Let_def js_map_distinct_update)

lemma consent_ok_delete:
  "consent_ok store \<Longrightarrow> consent_ok (store\<lparr>cs_grants := AList.delete k (cs_grants store)\<rparr>)"
  using set_delete_subset [of k "cs_grants store"]
  by (auto simp: consent_ok_def js_map_distinct_delete)

lemma consent_ok_find: "consent_ok store \<Longrightarrow> consent_ok (snd (find_consent key now p m store))"
  by (auto simp: find_consent_def consent_ok_delete split: option.split)

lemma consent_ok_pin: "consent_ok store \<Longrightarrow> consent_ok (pinProvider taskId pin store)"
  by (simp add: consent_ok_def pinProvider_def js_map_distinct_update)

lemma consent_ok_revoke: "consent_ok store \<Longrightarrow> consent_ok (revoke key store)"
  by (simp add: revoke_def consent_ok_delete)

lemma consent_ok_revokeTask: "consent_ok store \<Longrightarrow> consent_ok (revokeTask taskId store)"
  by (auto simp: consent_ok_def revokeTask_def js_map_distinct_delete intro: distinct_fst_filter)

lemma consent_ok_revokeAll: "consent_ok (revokeAll store)"
  by (simp add: consent_ok_def revokeAll_def)

text \<open>What a lookup finds is a grant for that very key, still within its time.\<close>

lemma find_consent_sound:
  assumes "consent_ok store" and "fst (find_consent key now p m store) = Some g"
  shows "keyString (cg_key g) = keyString key \<and> now < cg_expiresAt g \<and>
    (p \<noteq> None \<longrightarrow> cg_providerId g = p) \<and> (m \<noteq> None \<longrightarrow> cg_modelId g = m) \<and>
    (keyString key, g) \<in> set (cs_grants store)"
  using assms
  by (auto simp: find_consent_def consent_ok_def split: option.splits if_splits dest!: map_of_SomeD)

lemma find_grant:
  "now < start + cs_ttlMs store \<Longrightarrow>
   fst (find_consent key now p m (snd (grant key start p m store))) = Some (fst (grant key start p m store))"
  by (simp add: grant_def find_consent_def Let_def update_conv')

lemma find_revoked_task:
  assumes "consent_ok store" and "clean_key key"
    and "\<And>k g. (k, g) \<in> set (cs_grants store) \<Longrightarrow> clean_key (cg_key g)"
  shows "fst (find_consent key now p m (revokeTask (ck_taskId key) store)) = None"
proof (rule ccontr)
  assume "fst (find_consent key now p m (revokeTask (ck_taskId key) store)) \<noteq> None"
  then obtain g where g: "fst (find_consent key now p m (revokeTask (ck_taskId key) store)) = Some g"
    by auto
  have f: "keyString (cg_key g) = keyString key"
    "(keyString key, g) \<in> set (cs_grants (revokeTask (ck_taskId key) store))"
    using find_consent_sound [OF consent_ok_revokeTask [OF assms(1)] g] by auto
  then have "ck_taskId (cg_key g) \<noteq> ck_taskId key" "clean_key (cg_key g)"
    using assms(3) by (auto simp: revokeTask_def)
  with f(1) assms(2) show False
    using keyString_inj by blast
qed

end
