(* ===== verification/Egress.thy ===== *)
theory Egress
  imports Consent Policy
begin

text \<open>
  \<open>src/security/egress/egress-gate.ts\<close>: the decision whether a transfer may leave the extension,
  and \<open>guardedSend\<close> of \<open>src/security/egress/provider-transport.ts\<close>, the only way to the network.
  The gate may bind the task to its first provider, so it returns the consent store.
\<close>

definition CARRIER_GRADED :: "egress_channel list" where
  "CARRIER_GRADED = [ch_navigation, ch_page_write, ch_web_ai_provider, ch_clipboard, ch_download]"

datatype egress_verdict = eg_allow | eg_confirm | eg_deny

datatype egress_code =
    NOT_AN_EGRESS
  | SECURITY_CONTEXT_UNKNOWN
  | DESTINATION_UNKNOWN
  | SECRET_PAYLOAD
  | POLICY_BLOCKED
  | CONSENT_REQUIRED
  | CONSENT_PRESENT
  | PROVIDER_BOUND
  | CARRIER_CANNOT_CONVEY
  | NO_PRIVATE_DATA

record egress_decision =
  ed_verdict :: egress_verdict
  ed_code :: egress_code
  ed_reason :: string
  ed_carrier :: carrier_class
  ed_destinationIdentity :: "string option"
  ed_sensitivity :: data_sensitivity
  ed_taintSourceIds :: "string list"
  ed_consentKey :: "consent_key option"

record egress_request =
  er_taskId :: string
  er_taintState :: taint_state
  er_taintSalt :: string
  er_destination :: egress_destination
  er_payload :: json
  er_carrierInput :: "carrier_input option"
  er_taintSignature :: "string option"
  er_now :: int

definition source_id :: "taint_source \<Rightarrow> string" where
  "source_id source =
     ts_sourceType source @ '':'' @ (case ts_site source of None \<Rightarrow> ''-'' | Some site \<Rightarrow> site)"

text \<open>The fields every decision of a request shares.\<close>

definition decide ::
  "egress_request \<Rightarrow> egress_verdict \<Rightarrow> egress_code \<Rightarrow> string \<Rightarrow> carrier_class \<Rightarrow>
   data_sensitivity \<Rightarrow> consent_key option \<Rightarrow> egress_decision" where
  "decide request verdict code reason carrier sensitivity key =
     \<lparr>ed_verdict = verdict, ed_code = code, ed_reason = reason, ed_carrier = carrier,
      ed_destinationIdentity = ds_identity (er_destination request),
      ed_sensitivity = sensitivity,
      ed_taintSourceIds = map source_id (taintSources (er_taintState request)),
      ed_consentKey = key\<rparr>"

subsection \<open>The stages of the gate\<close>

text \<open>Lines that deny before anything is read of the carrier or the consent.\<close>

definition context_stage :: "egress_request \<Rightarrow> egress_decision option" where
  "context_stage request =
     (case er_taintState request of
        UNKNOWN reason \<Rightarrow>
          Some (decide request eg_deny SECURITY_CONTEXT_UNKNOWN
            (''What this task has already read could not be established, so no outbound '' @
             ''transfer can be authorised. Start the task again.'') carrier_high secret None)
      | _ \<Rightarrow>
          if length (er_taintSalt request) = 0 then
            Some (decide request eg_deny SECURITY_CONTEXT_UNKNOWN
              ''This task is missing the key used to record outbound transfers.'' carrier_high
              secret None)
          else if ds_identity (er_destination request) = None then
            Some (decide request eg_deny DESTINATION_UNKNOWN
              ''The destination of this transfer could not be identified.'' carrier_high
              (highestSensitivity (er_taintState request)) None)
          else
            (case (if er_payload request = JUndef then None
                   else matchedSecretRule 0 (er_payload request)) of
               Some rule \<Rightarrow>
                 Some (decide request eg_deny SECRET_PAYLOAD
                   (''This transfer contains credential-shaped data ('' @ rule @
                    '') and cannot be sent anywhere.'') carrier_high secret None)
             | None \<Rightarrow> None))"

definition carrier_of :: "url_parser \<Rightarrow> egress_request \<Rightarrow> carrier_class" where
  "carrier_of U request =
     (if ds_channel (er_destination request) \<in> set CARRIER_GRADED then
        (case er_carrierInput request of
           None \<Rightarrow> carrier_high
         | Some input \<Rightarrow> assessCarrier U input)
      else carrier_none)"

text \<open>\<open>origin ?? identity\<close>; the identity is known at this point.\<close>

definition egress_exfiltration :: "url_parser \<Rightarrow> egress_request \<Rightarrow> exfiltration_decision" where
  "egress_exfiltration U request =
     evaluateExfiltration U
       (case ds_origin (er_destination request) of
          Some origin \<Rightarrow> origin
        | None \<Rightarrow> opt_string (ds_identity (er_destination request)))
       (er_payload request) (taintSources (er_taintState request))"

definition consent_key_of :: "egress_request \<Rightarrow> consent_key" where
  "consent_key_of request =
     \<lparr>ck_taskId = er_taskId request,
      ck_destinationIdentity = opt_string (ds_identity (er_destination request)),
      ck_taintSignature = opt_string (er_taintSignature request),
      ck_sensitivityCeiling = highestSensitivity (er_taintState request),
      ck_channel = ds_channel (er_destination request)\<rparr>"

definition pin_of :: "egress_request \<Rightarrow> provider_pin option" where
  "pin_of request =
     (if ds_channel (er_destination request) = ch_ai_provider then
        (case ds_identity (er_destination request) of
           None \<Rightarrow> None
         | Some identity \<Rightarrow>
             Some \<lparr>pin_identity = identity,
                   pin_connectionId = ds_connectionId (er_destination request),
                   pin_modelId = opt_string (ds_modelId (er_destination request))\<rparr>)
      else None)"

definition providerSwitched :: "egress_request \<Rightarrow> consent_store \<Rightarrow> bool" where
  "providerSwitched request store =
     (case pin_of request of
        None \<Rightarrow> False
      | Some pin \<Rightarrow>
          pinnedProvider (er_taskId request) store \<noteq> None \<and>
          \<not> matchesPin (er_taskId request) pin store)"

text \<open>The store after the pin of the first provider.\<close>

definition bind_provider :: "egress_request \<Rightarrow> consent_store \<Rightarrow> consent_store" where
  "bind_provider request store =
     (case pin_of request of
        None \<Rightarrow> store
      | Some pin \<Rightarrow>
          if pinnedProvider (er_taskId request) store = None
          then pinProvider (er_taskId request) pin store else store)"

definition carrierCanConvey :: "url_parser \<Rightarrow> egress_request \<Rightarrow> bool" where
  "carrierCanConvey U request =
     (ds_channel (er_destination request) \<notin> set CARRIER_GRADED \<or>
      carrier_of U request \<noteq> carrier_none)"

definition consent_stage ::
  "url_parser \<Rightarrow> egress_request \<Rightarrow> consent_store \<Rightarrow> egress_decision \<times> consent_store" where
  "consent_stage U request store =
     (let sensitivity = highestSensitivity (er_taintState request);
          carrier = carrier_of U request;
          key = consent_key_of request
      in if er_taintSignature request = None then
           (decide request eg_deny SECURITY_CONTEXT_UNKNOWN
              ''The taint signature for this transfer could not be computed.'' carrier
              sensitivity None, store)
         else
           let (existing, store) =
             find_consent key (er_now request) (ds_providerId (er_destination request))
               (ds_modelId (er_destination request)) store
           in case existing of
                Some g \<Rightarrow>
                  if \<not> exceedsCeiling (ck_sensitivityCeiling (cg_key g)) sensitivity then
                    (decide request eg_allow CONSENT_PRESENT
                       (''Already approved for '' @ describeDestination (er_destination request) @
                        '' in this task.'') carrier sensitivity (Some key), store)
                  else
                    (decide request eg_confirm CONSENT_REQUIRED
                       (if xd_verdict (egress_exfiltration U request) = xf_confirm
                        then xd_reason (egress_exfiltration U request)
                        else ''This will send data to '' @
                          describeDestination (er_destination request) @
                          ''. Approval is required.'') carrier sensitivity (Some key), store)
              | None \<Rightarrow>
                  (decide request eg_confirm CONSENT_REQUIRED
                     (if xd_verdict (egress_exfiltration U request) = xf_confirm
                      then xd_reason (egress_exfiltration U request)
                      else ''This will send data to '' @
                        describeDestination (er_destination request) @
                        ''. Approval is required.'') carrier sensitivity (Some key), store))"

definition authorizeEgress ::
  "url_parser \<Rightarrow> egress_request \<Rightarrow> consent_store \<Rightarrow> egress_decision \<times> consent_store" where
  "authorizeEgress U request store =
     (let sensitivity = highestSensitivity (er_taintState request)
      in if \<not> isExternalChannel (ds_channel (er_destination request)) then
           (decide request eg_allow NOT_AN_EGRESS
              ''This action does not send data outside the extension.'' carrier_none sensitivity
              None, store)
         else
           (case context_stage request of
              Some decision \<Rightarrow> (decision, store)
            | None \<Rightarrow>
                let carrier = carrier_of U request;
                    exfiltration = egress_exfiltration U request
                in if xd_verdict exfiltration = xf_block then
                     (decide request eg_deny POLICY_BLOCKED (xd_reason exfiltration) carrier secret
                        None, store)
                   else
                     let switched = providerSwitched request store;
                         bound = bind_provider request store;
                         key = Some (consent_key_of request)
                     in if pin_of request \<noteq> None \<and> \<not> switched then
                          (decide request eg_allow PROVIDER_BOUND
                             (''This task'' @ [CHR 0x27] @ ''s configured provider, '' @
                              describeDestination (er_destination request) @ ''.'')
                             carrier sensitivity key, bound)
                        else if \<not> switched \<and>
                          (xd_verdict exfiltration = xf_allow \<or> \<not> carrierCanConvey U request) then
                          (decide request eg_allow
                             (if carrierCanConvey U request then NO_PRIVATE_DATA
                              else CARRIER_CANNOT_CONVEY)
                             (if carrierCanConvey U request then xd_reason exfiltration
                              else ''This action cannot carry anything the task has read.'')
                             carrier sensitivity key, bound)
                        else consent_stage U request bound))"

subsection \<open>The guarded send\<close>

datatype payload_policy = digest | opaque

datatype body = NoBody | TextBody string | OtherBody

record guarded_send =
  gs_url :: string
  gs_body :: body
  gs_destination :: egress_destination
  gs_taskId :: string
  gs_taintState :: taint_state
  gs_taintSalt :: string
  gs_taintSignature :: string
  gs_payloadPolicy :: payload_policy

definition gated_payload :: "guarded_send \<Rightarrow> json" where
  "gated_payload send =
     (if gs_payloadPolicy send = opaque then JStr ''[authentication]''
      else
        (case gs_body send of
           NoBody \<Rightarrow> JUndef
         | TextBody text \<Rightarrow> JStr text
         | OtherBody \<Rightarrow> JStr ''[non-string body]''))"

definition send_request :: "guarded_send \<Rightarrow> int \<Rightarrow> egress_request" where
  "send_request send now =
     \<lparr>er_taskId = gs_taskId send, er_taintState = gs_taintState send,
      er_taintSalt = gs_taintSalt send, er_destination = gs_destination send,
      er_payload = gated_payload send, er_carrierInput = None,
      er_taintSignature = Some (gs_taintSignature send), er_now = now\<rparr>"

text \<open>
  \<open>guardedSend\<close>: the gate decides, the decision is handed to the callback that records it (it answers
  whether it returned; without a callback it always does), and only an allowed and recorded request reaches
  \<open>fetch\<close>.
\<close>

datatype send_failure = Egress_Denied egress_decision | Decision_Not_Recorded

definition guardedSend ::
  "url_parser \<Rightarrow> (egress_decision \<Rightarrow> json \<Rightarrow> bool) \<Rightarrow> guarded_send \<Rightarrow> int \<Rightarrow> consent_store \<Rightarrow>
   (send_failure + string \<times> body) \<times> consent_store" where
  "guardedSend U onDecision send now store =
     (let (decision, store) = authorizeEgress U (send_request send now) store
      in (if \<not> onDecision decision (gated_payload send) then Inl Decision_Not_Recorded
          else if ed_verdict decision \<noteq> eg_allow then Inl (Egress_Denied decision)
          else Inr (gs_url send, gs_body send), store))"

text \<open>\<open>createGuardedTransport(...).request\<close>.\<close>

record egress_context =
  ec_taskId :: string
  ec_taintState :: taint_state
  ec_taintSalt :: string
  ec_taintSignature :: string
  ec_providerId :: string
  ec_connectionId :: "string option"
  ec_modelId :: string

definition transport_request ::
  "url_parser \<Rightarrow> (egress_decision \<Rightarrow> json \<Rightarrow> bool) \<Rightarrow> string \<Rightarrow> body \<Rightarrow> egress_context \<Rightarrow> int \<Rightarrow> consent_store \<Rightarrow>
   (send_failure + string \<times> body) \<times> consent_store" where
  "transport_request U onDecision url bd ctx now store =
     guardedSend U onDecision
       \<lparr>gs_url = url, gs_body = bd,
        gs_destination =
          providerDestination U (ec_providerId ctx) url (Some (ec_modelId ctx))
            (ec_connectionId ctx),
        gs_taskId = ec_taskId ctx, gs_taintState = ec_taintState ctx,
        gs_taintSalt = ec_taintSalt ctx, gs_taintSignature = ec_taintSignature ctx,
        gs_payloadPolicy = digest\<rparr> now store"

subsection \<open>What the stages answer\<close>

lemma decide_fields [simp]:
  "ed_verdict (decide r v c s k z y) = v" "ed_code (decide r v c s k z y) = c"
  "ed_consentKey (decide r v c s k z y) = y" "ed_sensitivity (decide r v c s k z y) = z"
  by (simp_all add: decide_def)

lemma context_stage_None:
  "context_stage request = None \<longleftrightarrow>
     (\<forall>r. er_taintState request \<noteq> UNKNOWN r) \<and> er_taintSalt request \<noteq> [] \<and>
     ds_identity (er_destination request) \<noteq> None \<and>
     \<not> (er_payload request \<noteq> JUndef \<and> payloadContainsSecret (er_payload request))"
  by (auto simp: context_stage_def payloadContainsSecret_def split: taint_state.split option.split)

lemma context_stage_deny: "context_stage request = Some d \<Longrightarrow> ed_verdict d = eg_deny"
  by (auto simp: context_stage_def split: taint_state.splits option.splits if_splits)

lemma bound_matches:
  assumes "pin_of request = Some pin" and "\<not> providerSwitched request store"
  shows "matchesPin (er_taskId request) pin (bind_provider request store)"
  using assms
  by (cases "pinnedProvider (er_taskId request) store")
    (auto simp: providerSwitched_def bind_provider_def matchesPin_def pinProvider_def
      pinnedProvider_def store_simps split: if_splits)

lemma bind_keeps:
  "pinnedProvider t store = Some pin \<Longrightarrow> pinnedProvider t (bind_provider request store) = Some pin"
  by (auto simp: bind_provider_def pinProvider_def pinnedProvider_def store_simps split: option.split)

lemma find_pins [simp]: "cs_pins (snd (find_consent key now p m store)) = cs_pins store"
  by (simp add: find_consent_def split: option.split)

lemma consent_stage_pins [simp]:
  "pinnedProvider t (snd (consent_stage U request store)) = pinnedProvider t store"
  using find_pins [of "consent_key_of request" "er_now request" "ds_providerId (er_destination request)"
      "ds_modelId (er_destination request)" store]
  by (auto simp: consent_stage_def Let_def pinnedProvider_def simp del: find_pins
      split: prod.split option.split)

lemma consent_stage_allow:
  assumes "ed_verdict (fst (consent_stage U request store)) = eg_allow"
  shows "ed_code (fst (consent_stage U request store)) = CONSENT_PRESENT \<and>
    er_taintSignature request \<noteq> None \<and>
    (\<exists>g. fst (find_consent (consent_key_of request) (er_now request)
        (ds_providerId (er_destination request)) (ds_modelId (er_destination request)) store) = Some g \<and>
      highestSensitivity (er_taintState request) \<le> ck_sensitivityCeiling (cg_key g))"
  using assms
  by (auto simp: consent_stage_def Let_def exceedsCeiling_def less_eq_data_sensitivity_def
      split: prod.splits option.splits if_splits)

lemma no_payload_no_secret: "payload = JUndef \<Longrightarrow> \<not> payloadContainsSecret payload"
  by (simp add: payloadContainsSecret_def matchedSecretRule.simps)

text \<open>What an allowance of the gate rests on, per code.\<close>

definition allow_ground :: "url_parser \<Rightarrow> egress_request \<Rightarrow> consent_store \<Rightarrow> egress_code \<Rightarrow> bool" where
  "allow_ground U request store code \<longleftrightarrow>
     (case code of
        PROVIDER_BOUND \<Rightarrow> pin_of request \<noteq> None \<and> \<not> providerSwitched request store
      | NO_PRIVATE_DATA \<Rightarrow>
          \<not> providerSwitched request store \<and>
          xd_verdict (egress_exfiltration U request) = xf_allow
      | CARRIER_CANNOT_CONVEY \<Rightarrow>
          \<not> providerSwitched request store \<and>
          (\<exists>input. er_carrierInput request = Some input \<and> assessCarrier U input = carrier_none)
      | CONSENT_PRESENT \<Rightarrow>
          (\<exists>g. fst (find_consent (consent_key_of request) (er_now request)
              (ds_providerId (er_destination request)) (ds_modelId (er_destination request))
              (bind_provider request store)) = Some g \<and>
            highestSensitivity (er_taintState request) \<le> ck_sensitivityCeiling (cg_key g))
      | _ \<Rightarrow> False)"

lemma carrier_stuck:
  "\<not> carrierCanConvey U request \<Longrightarrow>
   \<exists>input. er_carrierInput request = Some input \<and> assessCarrier U input = carrier_none"
  by (auto simp: carrierCanConvey_def carrier_of_def split: if_splits option.splits)

lemma authorize_consent:
  assumes "isExternalChannel (ds_channel (er_destination request))" and "context_stage request = None"
    and "xd_verdict (egress_exfiltration U request) \<noteq> xf_block"
    and "pin_of request = None \<or> providerSwitched request store"
    and "providerSwitched request store \<or>
      xd_verdict (egress_exfiltration U request) \<noteq> xf_allow \<and> carrierCanConvey U request"
  shows "authorizeEgress U request store = consent_stage U request (bind_provider request store)"
  using assms by (auto simp: authorizeEgress_def Let_def)

lemma authorize_allow:
  assumes "ed_verdict (fst (authorizeEgress U request store)) = eg_allow"
    and "ds_channel (er_destination request) \<noteq> ch_none"
  shows "context_stage request = None \<and>
    allow_ground U request store (ed_code (fst (authorizeEgress U request store)))"
proof -
  have ext: "isExternalChannel (ds_channel (er_destination request))"
    using assms(2) by (simp add: isExternalChannel_iff)
  have ctx: "context_stage request = None"
    using assms(1) ext context_stage_deny
    by (cases "context_stage request") (auto simp: authorizeEgress_def Let_def)
  have nb: "xd_verdict (egress_exfiltration U request) \<noteq> xf_block"
    using assms(1) ext ctx by (auto simp: authorizeEgress_def Let_def)
  show ?thesis
  proof (cases "(pin_of request = None \<or> providerSwitched request store) \<and>
      (providerSwitched request store \<or>
       xd_verdict (egress_exfiltration U request) \<noteq> xf_allow \<and> carrierCanConvey U request)")
    case True
    then have eq: "authorizeEgress U request store = consent_stage U request (bind_provider request store)"
      using authorize_consent [OF ext ctx nb] by blast
    then show ?thesis
      using consent_stage_allow [of U request "bind_provider request store"] assms(1) ctx
      by (simp add: allow_ground_def)
  next
    case False
    then show ?thesis
      using ext ctx nb carrier_stuck [of U request]
      by (auto simp: authorizeEgress_def Let_def allow_ground_def)
  qed
qed

lemma authorize_pins:
  "pinnedProvider t store = Some pin \<Longrightarrow>
   pinnedProvider t (snd (authorizeEgress U request store)) = Some pin"
  using bind_keeps [of t store pin request]
  by (auto simp: authorizeEgress_def Let_def split: option.split)

lemma authorize_store:
  "snd (authorizeEgress U request store) \<in>
     {store, bind_provider request store,
      snd (consent_stage U request (bind_provider request store))}"
  by (auto simp: authorizeEgress_def Let_def split: option.split)

lemma bind_ok: "consent_ok store \<Longrightarrow> consent_ok (bind_provider request store)"
  by (auto simp: bind_provider_def consent_ok_pin split: option.split)

lemma consent_stage_store:
  "snd (consent_stage U request store) \<in>
     {store, snd (find_consent (consent_key_of request) (er_now request)
       (ds_providerId (er_destination request)) (ds_modelId (er_destination request)) store)}"
  by (auto simp: consent_stage_def Let_def split: prod.split option.split)

lemma authorize_ok: "consent_ok store \<Longrightarrow> consent_ok (snd (authorizeEgress U request store))"
  using authorize_store [of U request store] bind_ok [of store request]
    consent_stage_store [of U request "bind_provider request store"] consent_ok_find
  by (metis (no_types, lifting) insert_iff singletonD)

text \<open>A run of the gate over a sequence of requests, with each decision beside its request.\<close>

fun run_gate ::
  "url_parser \<Rightarrow> egress_request list \<Rightarrow> consent_store \<Rightarrow> (egress_request \<times> egress_decision) list" where
  "run_gate U [] store = []"
| "run_gate U (request # requests) store =
     (case authorizeEgress U request store of
        (decision, store') \<Rightarrow> (request, decision) # run_gate U requests store')"

lemma context_stage_code: "context_stage request = Some d \<Longrightarrow> ed_code d \<noteq> PROVIDER_BOUND"
  by (auto simp: context_stage_def split: taint_state.splits option.splits if_splits)

lemma consent_stage_code: "ed_code (fst (consent_stage U request store)) \<noteq> PROVIDER_BOUND"
  by (auto simp: consent_stage_def Let_def split: prod.split option.split)

lemma provider_bound_pin:
  assumes "ed_code (fst (authorizeEgress U request store)) = PROVIDER_BOUND"
  shows "\<exists>pin. pin_of request = Some pin \<and>
    pinnedProvider (er_taskId request) (snd (authorizeEgress U request store)) = Some pin"
proof -
  have allow: "ed_verdict (fst (authorizeEgress U request store)) = eg_allow \<and>
      snd (authorizeEgress U request store) = bind_provider request store \<and>
      pin_of request \<noteq> None \<and> \<not> providerSwitched request store"
    using assms context_stage_code [of request] consent_stage_code [of U request]
    by (auto simp: authorizeEgress_def Let_def split: option.splits if_splits)
  then obtain pin where "pin_of request = Some pin" by auto
  moreover from this allow have "matchesPin (er_taskId request) pin (bind_provider request store)"
    by (intro bound_matches) auto
  ultimately show ?thesis
    using allow by (auto simp: matchesPin_def split: option.splits if_splits)
qed

lemma run_gate_pinned:
  "(request, decision) \<in> set (run_gate U requests store) \<Longrightarrow> ed_code decision = PROVIDER_BOUND \<Longrightarrow>
   pinnedProvider (er_taskId request) store = Some pin \<Longrightarrow> pin_of request = Some pin"
proof (induction U requests store rule: run_gate.induct)
  case (2 U r requests store)
  obtain d s where ds: "authorizeEgress U r store = (d, s)"
    by (cases "authorizeEgress U r store")
  then have keep: "pinnedProvider (er_taskId request) s = Some pin"
    using authorize_pins [OF 2(4), of U r] by simp
  show ?case
  proof (cases "(request, decision) = (r, d)")
    case True
    then show ?thesis
      using provider_bound_pin [of U r store] 2(3) keep ds by auto
  next
    case False
    then show ?thesis
      using 2(1) [OF ds [symmetric]] 2(2,3) keep ds by auto
  qed
qed simp

lemma run_gate_one_provider:
  "(r1, d1) \<in> set (run_gate U requests store) \<Longrightarrow> (r2, d2) \<in> set (run_gate U requests store) \<Longrightarrow>
   ed_code d1 = PROVIDER_BOUND \<Longrightarrow> ed_code d2 = PROVIDER_BOUND \<Longrightarrow> er_taskId r1 = er_taskId r2 \<Longrightarrow>
   pin_of r1 = pin_of r2"
proof (induction U requests store rule: run_gate.induct)
  case (2 U r requests store)
  obtain d s where ds: "authorizeEgress U r store = (d, s)"
    by (cases "authorizeEgress U r store")
  have first: "pin_of r' = pin_of r"
    if "(r', d') \<in> set (run_gate U requests s)" "ed_code d' = PROVIDER_BOUND"
      "ed_code d = PROVIDER_BOUND" "er_taskId r' = er_taskId r" for r' d'
    using provider_bound_pin [of U r store] run_gate_pinned [OF that(1,2)] that ds by auto
  show ?case
    using 2(1) [OF ds [symmetric]] 2(2-6) first [of r1 d1] first [of r2 d2] ds by auto
qed simp

lemma run_gate_pin:
  "(r, d) \<in> set (run_gate U requests store) \<Longrightarrow> ed_code d = PROVIDER_BOUND \<Longrightarrow> pin_of r \<noteq> None"
proof (induction U requests store rule: run_gate.induct)
  case (2 U r' requests store)
  obtain d' s where ds: "authorizeEgress U r' store = (d', s)"
    by (cases "authorizeEgress U r' store")
  show ?case
    using 2(1) [OF ds [symmetric]] 2(2,3) provider_bound_pin [of U r' store] ds by auto
qed simp

lemma consent_present_code:
  assumes "ed_code (fst (authorizeEgress U request store)) = CONSENT_PRESENT"
  shows "ed_verdict (fst (authorizeEgress U request store)) = eg_allow \<and>
    ds_channel (er_destination request) \<noteq> ch_none"
proof -
  have "context_stage request = Some d \<Longrightarrow> ed_code d \<noteq> CONSENT_PRESENT" for d
    by (auto simp: context_stage_def split: taint_state.splits option.splits if_splits)
  moreover have "ed_code (fst (consent_stage U request s)) = CONSENT_PRESENT \<Longrightarrow>
      ed_verdict (fst (consent_stage U request s)) = eg_allow" for s
    by (auto simp: consent_stage_def Let_def split: prod.splits option.splits if_splits)
  ultimately show ?thesis
    using assms
    by (auto simp: authorizeEgress_def Let_def isExternalChannel_iff split: option.splits if_splits)
qed

lemma bind_grants [simp]: "cs_grants (bind_provider request store) = cs_grants store"
  by (simp add: bind_provider_def pinProvider_def split: option.split)

lemma consent_present_grant:
  assumes "ed_code (fst (authorizeEgress U request store)) = CONSENT_PRESENT" and "consent_ok store"
  shows "\<exists>g. (keyString (consent_key_of request), g) \<in> set (cs_grants store) \<and>
    keyString (cg_key g) = keyString (consent_key_of request) \<and> er_now request < cg_expiresAt g \<and>
    context_stage request = None"
proof -
  note code = consent_present_code [OF assms(1)]
  have a: "context_stage request = None \<and> allow_ground U request store CONSENT_PRESENT"
    using authorize_allow [of U request store] code assms(1) by simp
  then obtain g where "fst (find_consent (consent_key_of request) (er_now request)
      (ds_providerId (er_destination request)) (ds_modelId (er_destination request))
      (bind_provider request store)) = Some g"
    by (auto simp: allow_ground_def)
  from find_consent_sound [OF bind_ok [OF assms(2)] this] a show ?thesis by auto
qed

subsection \<open>Properties\<close>

definition sample_egress :: egress_request where
  "sample_egress =
     \<lparr>er_taskId = ''t1'',
      er_taintState = TAINTED [\<lparr>ts_sourceType = ''page'', ts_site = Some ''a.test'',
        ts_sensitivity = confidential\<rparr>],
      er_taintSalt = ''s'',
      er_destination = connectorDestination https_parser ''mail'' ''https://mail.test/send'' None None,
      er_payload = JUndef, er_carrierInput = None,
      er_taintSignature = Some (taintSignature (\<lambda>s. s) (\<lambda>s. s)
        (TAINTED [\<lparr>ts_sourceType = ''page'', ts_site = Some ''a.test'',
          ts_sensitivity = confidential\<rparr>])),
      er_now = 10\<rparr>"

definition sample_consents :: consent_store where
  "sample_consents = snd (grant (consent_key_of sample_egress) 0 None None (newConsentStore 1000))"

text \<open>
  C36. The gate is sound where it allows a transfer out of the extension: the task's provenance is
  known and its salt present, the destination has an identity, the payload holds no secret, and the
  allowance rests on one of four grounds: the provider the task is bound to, no private data from
  elsewhere, an act that cannot carry data, or a live grant for this very key and sensitivity.
\<close>

theorem egress_allow_sound:
  assumes "ed_verdict (fst (authorizeEgress U request store)) = eg_allow"
    and "ds_channel (er_destination request) \<noteq> ch_none"
  shows "(\<forall>r. er_taintState request \<noteq> UNKNOWN r) \<and> er_taintSalt request \<noteq> [] \<and>
    ds_identity (er_destination request) \<noteq> None \<and> \<not> payloadContainsSecret (er_payload request) \<and>
    allow_ground U request store (ed_code (fst (authorizeEgress U request store)))"
  using authorize_allow [OF assms] no_payload_no_secret [of "er_payload request"]
  by (auto simp: context_stage_None)

theorem egress_allow_sound_witness:
  "ed_verdict (fst (authorizeEgress https_parser sample_egress sample_consents)) = eg_allow \<and>
   \<not> payloadContainsSecret (er_payload sample_egress)"
proof -
  have v: "ed_verdict (fst (authorizeEgress https_parser sample_egress sample_consents)) = eg_allow"
    by code_simp
  have "ds_channel (er_destination sample_egress) \<noteq> ch_none"
    by code_simp
  from egress_allow_sound [OF v this] v show ?thesis by blast
qed

text \<open>
  Consent does not outlive what the task had read when it was given: a transfer allowed by a
  grant carries the same set of taint sources (up to Unicode normalisation and the case of their sites) as every state the
  grant's signature was computed from, or the two states are a collision of the content hash; and
  the grant is for this task, this destination and this channel, and has not expired.
\<close>

theorem consent_bound_to_taint:
  assumes "ed_code (fst (authorizeEgress U request store)) = CONSENT_PRESENT"
    and "consent_ok store" and "clean_key (consent_key_of request)"
    and "\<And>k g. (k, g) \<in> set (cs_grants store) \<Longrightarrow> clean_key (cg_key g)"
    and "er_taintSignature request = Some (taintSignature nfc H (er_taintState request))"
  shows "\<exists>g. (keyString (cg_key g), g) \<in> set (cs_grants store) \<and> cg_key g = consent_key_of request \<and>
    er_now request < cg_expiresAt g \<and>
    (\<forall>state. ck_taintSignature (cg_key g) = taintSignature nfc H state \<longrightarrow>
       (\<forall>r. state \<noteq> UNKNOWN r) \<and>
         canonical_key nfc ` set (taintSources state) = canonical_key nfc ` set (taintSources (er_taintState request)) \<or>
       canonicalTaintPayload nfc state \<noteq> canonicalTaintPayload nfc (er_taintState request) \<and>
         H (canonicalTaintPayload nfc state) = H (canonicalTaintPayload nfc (er_taintState request)))"
proof -
  obtain g where g: "(keyString (consent_key_of request), g) \<in> set (cs_grants store)"
    "keyString (cg_key g) = keyString (consent_key_of request)" "er_now request < cg_expiresAt g"
    "context_stage request = None"
    using consent_present_grant [OF assms(1,2)] by blast
  have key: "cg_key g = consent_key_of request"
    using keyString_inj [OF g(2) _ assms(3)] assms(4) g(1) by blast
  have known: "\<And>r. er_taintState request \<noteq> UNKNOWN r"
    using g(4) by (simp add: context_stage_None)
  have "(\<forall>r. state \<noteq> UNKNOWN r) \<and>
      canonical_key nfc ` set (taintSources state) = canonical_key nfc ` set (taintSources (er_taintState request))"
    if "canonicalTaintPayload nfc state = canonicalTaintPayload nfc (er_taintState request)" for state
    using that known unfolding canonicalTaintPayload_eq
    by (cases state; cases "er_taintState request") (auto simp: canonical_view_def)
  moreover have "ck_taintSignature (cg_key g) = H (canonicalTaintPayload nfc (er_taintState request))"
    using assms(5) by (simp add: key consent_key_of_def opt_string_def taintSignature_def)
  ultimately have "ck_taintSignature (cg_key g) = taintSignature nfc H state \<longrightarrow>
      (\<forall>r. state \<noteq> UNKNOWN r) \<and>
        canonical_key nfc ` set (taintSources state) = canonical_key nfc ` set (taintSources (er_taintState request)) \<or>
      canonicalTaintPayload nfc state \<noteq> canonicalTaintPayload nfc (er_taintState request) \<and>
        H (canonicalTaintPayload nfc state) = H (canonicalTaintPayload nfc (er_taintState request))" for state
    by (metis taintSignature_def)
  moreover have "(keyString (cg_key g), g) \<in> set (cs_grants store)"
    using g(1,2) by simp
  ultimately show ?thesis
    using g(3) key by blast
qed

theorem consent_bound_to_taint_witness:
  "\<exists>g. (keyString (cg_key g), g) \<in> set (cs_grants sample_consents) \<and>
     cg_key g = consent_key_of sample_egress"
proof -
  have c: "ed_code (fst (authorizeEgress https_parser sample_egress sample_consents)) = CONSENT_PRESENT"
    by code_simp
  have k: "clean_key (consent_key_of sample_egress)"
    by code_simp
  have o: "consent_ok sample_consents"
    unfolding sample_consents_def by (intro consent_ok_grant consent_ok_new)
  have "\<And>j g. (j, g) \<in> set (cs_grants sample_consents) \<Longrightarrow> clean_key (cg_key g)"
    using k by (auto simp: sample_consents_def grant_def newConsentStore_def Let_def)
  moreover have "er_taintSignature sample_egress =
      Some (taintSignature (\<lambda>s. s) (\<lambda>s. s) (er_taintState sample_egress))"
    by (simp add: sample_egress_def)
  ultimately show ?thesis
    using consent_bound_to_taint [OF c o k] by blast
qed

text \<open>
  C37. A task speaks to one provider: over any sequence of transfers, all those let through because
  the provider is the task's own name the same endpoint, the same connected account and the same
  model; a switch needs consent.
\<close>

theorem one_bound_provider:
  assumes "(r1, d1) \<in> set (run_gate U requests store)" and "(r2, d2) \<in> set (run_gate U requests store)"
    and "ed_code d1 = PROVIDER_BOUND" and "ed_code d2 = PROVIDER_BOUND"
    and "er_taskId r1 = er_taskId r2"
  shows "pin_of r1 = pin_of r2 \<and> pin_of r1 \<noteq> None"
proof -
  show ?thesis
    using run_gate_one_provider [OF assms] run_gate_pin [OF assms(1,3)] by simp
qed

definition sample_provider_send :: "string \<Rightarrow> egress_request" where
  "sample_provider_send modelId = sample_egress\<lparr>
     er_destination := providerDestination https_parser ''openai'' ''https://api.test/v1'' (Some modelId)
       (Some ''c1'')\<rparr>"

theorem one_bound_provider_witness:
  "pin_of (sample_provider_send ''m1'') \<noteq> None \<and>
   map (ed_code \<circ> snd) (run_gate https_parser
     [sample_provider_send ''m1'', sample_provider_send ''m2''] (newConsentStore 1000)) =
   [PROVIDER_BOUND, CONSENT_REQUIRED]"
proof -
  let ?rs = "[sample_provider_send ''m1'', sample_provider_send ''m2'']"
  let ?run = "run_gate https_parser ?rs (newConsentStore 1000)"
  have c: "map (ed_code \<circ> snd) ?run = [PROVIDER_BOUND, CONSENT_REQUIRED]"
    by code_simp
  have f: "map fst ?run = ?rs"
    by (simp split: prod.split)
  obtain d ds where run: "?run = (sample_provider_send ''m1'', d) # ds"
    using f by (cases ?run) auto
  then have "ed_code d = PROVIDER_BOUND"
    using c by simp
  then show ?thesis
    using one_bound_provider [of "sample_provider_send ''m1''" d https_parser ?rs "newConsentStore 1000"
        "sample_provider_send ''m1''" d] run c by (simp del: run_gate.simps)
qed

text \<open>
  C38. Nothing reaches the network past the gate: a provider transport hands to \<open>fetch\<close> the request it was
  given, and only where the gate, asked about that provider's address, the task's taint and the request's own
  body, answered allow and not merely did not deny, and where the decision could be recorded. Then the task's
  provenance is known, the provider has a recognised identity and a text body holds no secret. In every other
  case nothing is sent, and the caller gets the gate's decision or the failure to record it.
\<close>

theorem transport_sends_no_secret:
  assumes "transport_request U onDecision url bd ctx now store = (outcome, store')"
  shows "\<exists>request decision.
    er_taskId request = ec_taskId ctx \<and> er_taintState request = ec_taintState ctx \<and>
    er_destination request = providerDestination U (ec_providerId ctx) url (Some (ec_modelId ctx)) (ec_connectionId ctx) \<and>
    (\<forall>text. bd = TextBody text \<longrightarrow> er_payload request = JStr text) \<and>
    authorizeEgress U request store = (decision, store') \<and>
    (case outcome of
       Inr sent \<Rightarrow> sent = (url, bd) \<and> ed_verdict decision = eg_allow \<and> onDecision decision (er_payload request) \<and>
         (\<forall>r. ec_taintState ctx \<noteq> UNKNOWN r) \<and> ec_taintSalt ctx \<noteq> [] \<and>
         canonicalProviderIdentity U (ec_providerId ctx) url \<noteq> None \<and>
         (\<forall>text. bd = TextBody text \<longrightarrow> \<not> payloadContainsSecret (JStr text))
     | Inl (Egress_Denied answer) \<Rightarrow> answer = decision \<and> ed_verdict decision \<noteq> eg_allow
     | Inl Decision_Not_Recorded \<Rightarrow> \<not> onDecision decision (er_payload request))"
proof -
  define send where "send =
    \<lparr>gs_url = url, gs_body = bd,
     gs_destination = providerDestination U (ec_providerId ctx) url (Some (ec_modelId ctx)) (ec_connectionId ctx),
     gs_taskId = ec_taskId ctx, gs_taintState = ec_taintState ctx, gs_taintSalt = ec_taintSalt ctx,
     gs_taintSignature = ec_taintSignature ctx, gs_payloadPolicy = digest\<rparr>"
  let ?request = "send_request send now"
  obtain decision s where gate: "authorizeEgress U ?request store = (decision, s)" by fastforce
  have fields: "er_taskId ?request = ec_taskId ctx" "er_taintState ?request = ec_taintState ctx"
      "er_taintSalt ?request = ec_taintSalt ctx" "er_payload ?request = gated_payload send"
      "er_destination ?request = providerDestination U (ec_providerId ctx) url (Some (ec_modelId ctx)) (ec_connectionId ctx)"
      "bd = TextBody t \<Longrightarrow> gated_payload send = JStr t" for t
    by (simp_all add: send_request_def send_def gated_payload_def)
  have ran: "(outcome, store') =
      (if \<not> onDecision decision (gated_payload send) then Inl Decision_Not_Recorded
       else if ed_verdict decision \<noteq> eg_allow then Inl (Egress_Denied decision) else Inr (url, bd), s)"
  proof -
    have parts: "gs_url send = url" "gs_body send = bd" by (simp_all add: send_def)
    have "guardedSend U onDecision send now store = (outcome, store')"
      using assms by (simp add: transport_request_def send_def)
    then show ?thesis by (auto simp: guardedSend_def gate parts)
  qed
  have known: "(\<forall>r. ec_taintState ctx \<noteq> UNKNOWN r) \<and> ec_taintSalt ctx \<noteq> [] \<and>
      canonicalProviderIdentity U (ec_providerId ctx) url \<noteq> None \<and>
      (\<forall>text. bd = TextBody text \<longrightarrow> \<not> payloadContainsSecret (JStr text))" if "ed_verdict decision = eg_allow"
  proof -
    have "ds_channel (er_destination ?request) \<noteq> ch_none"
      by (simp add: fields providerDestination_def bare_destination_def)
    then have "context_stage ?request = None"
      using authorize_allow [of U ?request store] gate that by auto
    then show ?thesis using fields
      by (auto simp: context_stage_None providerDestination_def bare_destination_def)
  qed
  show ?thesis
    using ran fields gate known
    by (intro exI [of _ ?request] exI [of _ decision]) (auto split: if_splits)
qed

definition sample_transport :: egress_context where
  "sample_transport =
     \<lparr>ec_taskId = ''t1'', ec_taintState = KNOWN_UNTAINTED, ec_taintSalt = ''s'',
      ec_taintSignature = ''x'', ec_providerId = ''openai'', ec_connectionId = None,
      ec_modelId = ''m1''\<rparr>"

theorem transport_sends_no_secret_witness:
  "canonicalProviderIdentity https_parser ''openai'' ''https://api.test/v1'' \<noteq> None \<and>
   (\<exists>request. er_taskId request = ''t1'' \<and>
      ed_verdict (fst (authorizeEgress https_parser request (newConsentStore 1000))) = eg_allow)"
proof -
  have "fst (transport_request https_parser (\<lambda>_ _. True) ''https://api.test/v1'' NoBody
      sample_transport 0 (newConsentStore 1000)) = Inr (''https://api.test/v1'', NoBody)"
    by code_simp
  then obtain store' where "transport_request https_parser (\<lambda>_ _. True) ''https://api.test/v1'' NoBody
      sample_transport 0 (newConsentStore 1000) = (Inr (''https://api.test/v1'', NoBody), store')"
    by (metis prod.collapse)
  from transport_sends_no_secret [OF this] show ?thesis
    by (auto simp: sample_transport_def)
qed

end
