(* ===== verification/Permission.thy ===== *)
theory Permission
  imports Policy Storage
begin

text \<open>
  \<open>src/policy/permission-engine.ts\<close>: a policy decision becomes an approval outcome, with the person
  asked where the decision is a question, and the permission history written.

  The callbacks of \<open>PermissionEngineOptions\<close> are functions on a world \<open>'w\<close>; a rejected promise
  is \<open>None\<close>. Callbacks whose failure the engine swallows return the world only.
  The worker's own \<open>loadSitePolicy\<close> and \<open>saveSitePolicy\<close>
  (\<open>src/background/service-worker.ts\<close>) are at the end.
\<close>

record permission_request =
  pr_id :: string
  pr_taskId :: string
  pr_tool :: string
  pr_risk :: risk_level
  pr_reason :: string
  pr_targetUrl :: "string option"
  pr_siteScopeUrl :: "string option"
  pr_site :: "string option"
  pr_summary :: string
  pr_createdAt :: int
  pr_elevated :: bool

datatype permission_response =
    approve_once
  | approve_site risk_level
  | approve_task
  | deny

record permission_outcome =
  po_granted :: bool
  po_response :: permission_response

record site_rule_notice =
  sn_site :: string
  sn_maxRisk :: risk_level
  sn_tool :: string

record 'w permission_options =
  prompter :: "permission_request \<Rightarrow> 'w \<Rightarrow> permission_response option \<times> 'w"
  loadSitePolicy :: "'w \<Rightarrow> site_policy_state option \<times> 'w"
  saveSitePolicy :: "site_policy_state \<Rightarrow> 'w \<Rightarrow> unit option \<times> 'w"
  onDecision :: "(history_entry \<Rightarrow> 'w \<Rightarrow> 'w) option"
  amendTaskPlan :: "(string \<Rightarrow> string \<Rightarrow> 'w \<Rightarrow> 'w) option"
  onSiteRule :: "(site_rule_notice \<Rightarrow> 'w \<Rightarrow> 'w) option"
  now_ms :: "'w \<Rightarrow> int \<times> 'w"
  newId :: "string \<Rightarrow> 'w \<Rightarrow> string \<times> 'w"

record approval_input =
  ai_taskId :: string
  ai_tool :: string
  ai_decision :: policy_decision
  ai_summary :: string
  ai_targetUrl :: "string option"
  ai_siteScopeUrl :: "string option"
  ai_aborted :: bool

text \<open>\<open>DenyAllPrompter.prompt\<close>.\<close>

definition denyAllPrompter :: "permission_request \<Rightarrow> 'w \<Rightarrow> permission_response option \<times> 'w" where
  "denyAllPrompter request w = (Some deny, w)"

text \<open>\<open>siteScopeUrl ?? targetUrl\<close>, then falsy when empty.\<close>

definition grantSiteFor :: "url_parser \<Rightarrow> approval_input \<Rightarrow> string option" where
  "grantSiteFor U input =
     (case truthy (case ai_siteScopeUrl input of
                     Some u \<Rightarrow> Some u
                   | None \<Rightarrow> ai_targetUrl input) of
        None \<Rightarrow> None
      | Some url \<Rightarrow> siteForUrl U url)"

definition record_decision ::
  "url_parser \<Rightarrow> 'w permission_options \<Rightarrow> approval_input \<Rightarrow> history_decision \<Rightarrow> string \<Rightarrow> 'w \<Rightarrow>
   unit option \<times> 'w" where
  "record_decision U opts input decision reason w =
     (let (entryId, w) = newId opts ''ph'' w;
          (time, w) = now_ms opts w;
          entry =
            \<lparr>he_id = entryId, he_taskId = ai_taskId input, he_tool = ai_tool input,
             he_site =
               (case grantSiteFor U input of None \<Rightarrow> ''(no site)'' | Some site \<Rightarrow> site),
             he_risk = pd_effectiveRisk (ai_decision input), he_decision = decision,
             he_timestamp = time, he_reason = reason\<rparr>
      in case loadSitePolicy opts w of
           (None, w) \<Rightarrow> (None, w)
         | (Some state, w) \<Rightarrow>
             (case saveSitePolicy opts (appendHistory state entry) w of
                (None, w) \<Rightarrow> (None, w)
              | (Some _, w) \<Rightarrow>
                  (Some (),
                   case onDecision opts of None \<Rightarrow> w | Some notify \<Rightarrow> notify entry w)))"

text \<open>The two grants a response may widen.\<close>

definition widen_task ::
  "url_parser \<Rightarrow> 'w permission_options \<Rightarrow> approval_input \<Rightarrow> 'w \<Rightarrow> 'w" where
  "widen_task U opts input w =
     (case (truthy (grantSiteFor U input), amendTaskPlan opts) of
        (Some site, Some amend) \<Rightarrow> amend (ai_taskId input) site w
      | _ \<Rightarrow> w)"

definition widen_site ::
  "url_parser \<Rightarrow> 'w permission_options \<Rightarrow> approval_input \<Rightarrow> risk_level \<Rightarrow> 'w \<Rightarrow> unit option \<times> 'w" where
  "widen_site U opts input level w =
     (case truthy (grantSiteFor U input) of
        None \<Rightarrow> (Some (), w)
      | Some site \<Rightarrow>
          (case loadSitePolicy opts w of
             (None, w) \<Rightarrow> (None, w)
           | (Some state, w) \<Rightarrow>
               let (time, w) = now_ms opts w;
                   rule = \<lparr>sr_site = site, sr_decision = Allow, sr_maxRisk = level,
                           sr_createdAt = time,
                           sr_note =
                             Some (''Approved while running '' @ ai_tool input @ ''.'')\<rparr>
               in (case saveSitePolicy opts (upsertRule state rule) w of
                     (None, w) \<Rightarrow> (None, w)
                   | (Some _, w) \<Rightarrow>
                       (Some (),
                        case onSiteRule opts of
                          None \<Rightarrow> w
                        | Some notify \<Rightarrow>
                            notify \<lparr>sn_site = site, sn_maxRisk = level,
                                    sn_tool = ai_tool input\<rparr> w))))"

definition widen ::
  "url_parser \<Rightarrow> 'w permission_options \<Rightarrow> approval_input \<Rightarrow> permission_response \<Rightarrow> 'w \<Rightarrow>
   unit option \<times> 'w" where
  "widen U opts input response w =
     (case response of
        approve_task \<Rightarrow> (Some (), widen_task U opts input w)
      | approve_site level \<Rightarrow> widen_site U opts input level w
      | _ \<Rightarrow> (Some (), w))"

definition build_request ::
  "url_parser \<Rightarrow> 'w permission_options \<Rightarrow> approval_input \<Rightarrow> 'w \<Rightarrow> permission_request \<times> 'w" where
  "build_request U opts input w =
     (let (requestId, w) = newId opts ''perm'' w;
          (time, w) = now_ms opts w
      in (\<lparr>pr_id = requestId, pr_taskId = ai_taskId input, pr_tool = ai_tool input,
           pr_risk = pd_effectiveRisk (ai_decision input),
           pr_reason = pd_reason (ai_decision input), pr_targetUrl = ai_targetUrl input,
           pr_siteScopeUrl = ai_siteScopeUrl input, pr_site = grantSiteFor U input,
           pr_summary = ai_summary input, pr_createdAt = time,
           pr_elevated = (pd_code (ai_decision input) = EXFILTRATION_CONFIRM)\<rparr>, w))"

text \<open>A prompt that throws is a denial.\<close>

definition ask ::
  "'w permission_options \<Rightarrow> permission_request \<Rightarrow> 'w \<Rightarrow> permission_response \<times> 'w" where
  "ask opts request w =
     (case prompter opts request w of
        (None, w) \<Rightarrow> (deny, w)
      | (Some response, w) \<Rightarrow> (response, w))"

definition finish ::
  "permission_outcome \<Rightarrow> unit option \<times> 'w \<Rightarrow> permission_outcome option \<times> 'w" where
  "finish outcome result = (map_option (\<lambda>_. outcome) (fst result), snd result)"

definition requestApproval ::
  "url_parser \<Rightarrow> 'w permission_options \<Rightarrow> approval_input \<Rightarrow> 'w \<Rightarrow> permission_outcome option \<times> 'w" where
  "requestApproval U opts input w =
     (let decision = ai_decision input;
          refusal = \<lparr>po_granted = False, po_response = deny\<rparr>
      in case pd_verdict decision of
           DENY \<Rightarrow> finish refusal (record_decision U opts input blocked (pd_reason decision) w)
         | ALLOW \<Rightarrow>
             finish \<lparr>po_granted = True, po_response = approve_once\<rparr>
               (record_decision U opts input auto_approved (pd_reason decision) w)
         | ALLOW_WITH_CONFIRMATION \<Rightarrow>
             let (request, w) = build_request U opts input w
             in if ai_aborted input then
                  finish refusal
                    (record_decision U opts input denied
                      ''Task was cancelled before approval.'' w)
                else
                  let (response, w) = ask opts request w
                  in if response = deny then
                       finish refusal
                         (record_decision U opts input denied
                           ''The user declined this action.'' w)
                     else
                       (case widen U opts input response w of
                          (None, w) \<Rightarrow> (None, w)
                        | (Some _, w) \<Rightarrow>
                            finish \<lparr>po_granted = True, po_response = response\<rparr>
                              (record_decision U opts input approved
                                ''The user approved this action.'' w)))"

subsection \<open>Who grants\<close>

text \<open>The response the person gave, where the engine asks.\<close>

definition answer ::
  "url_parser \<Rightarrow> 'w permission_options \<Rightarrow> approval_input \<Rightarrow> 'w \<Rightarrow> permission_response" where
  "answer U opts input w =
     (let (request, w) = build_request U opts input w in fst (ask opts request w))"

lemma finish_Some: "fst (finish out r) = Some o' \<longleftrightarrow> o' = out \<and> fst r \<noteq> None"
  by (auto simp: finish_def)

lemma granted_cases:
  assumes "fst (requestApproval U opts input w) = Some outcome" and "po_granted outcome"
  shows "pd_verdict (ai_decision input) = ALLOW \<and> po_response outcome = approve_once \<or>
    pd_verdict (ai_decision input) = ALLOW_WITH_CONFIRMATION \<and> \<not> ai_aborted input \<and>
      po_response outcome = answer U opts input w \<and> answer U opts input w \<noteq> deny"
  using assms
  by (auto simp: requestApproval_def Let_def answer_def finish_Some
      split: policy_verdict.splits prod.splits if_splits option.splits)

lemma deny_outcome:
  assumes "pd_verdict (ai_decision input) = DENY"
    and "fst (requestApproval U opts input w) = Some outcome"
  shows "\<not> po_granted outcome"
  using granted_cases [OF assms(2)] assms(1) by auto

text \<open>A denied or allowed decision asks nobody: the result does not depend on the prompter.\<close>

lemma record_prompter [simp]:
  "record_decision U (opts\<lparr>prompter := p\<rparr>) input d reason w = record_decision U opts input d reason w"
  by (simp add: record_decision_def cong: option.case_cong prod.case_cong)

lemma build_prompter [simp]:
  "build_request U (opts\<lparr>prompter := p\<rparr>) input w = build_request U opts input w"
  by (simp add: build_request_def)

lemma not_asked:
  assumes "pd_verdict (ai_decision input) \<noteq> ALLOW_WITH_CONFIRMATION \<or> ai_aborted input"
  shows "requestApproval U (opts\<lparr>prompter := p\<rparr>) input w = requestApproval U opts input w"
  using assms by (auto simp: requestApproval_def Let_def split: policy_verdict.split prod.split)

subsection \<open>The site-policy port\<close>

text \<open>
  What the engine relies on of its load and save: a load returns what is stored, a save that
  returns is what the next load returns (repaired as every load is), and the clock, the ids and
  the notifications leave the policy alone. The prompt is not bound by it: while the person is
  being asked, anything may happen to the policy.
\<close>

locale policy_port =
  fixes opts :: "'w permission_options"
    and view :: "'w \<Rightarrow> site_policy_state"
  assumes load_view: "loadSitePolicy opts w = (Some (view w), w)"
    and save_view: "saveSitePolicy opts state w = (Some (), w') \<Longrightarrow> view w' = sanitiseSitePolicyState state"
    and save_total: "fst (saveSitePolicy opts state w) \<noteq> None"
    and id_frame: "view (snd (newId opts p w)) = view w"
    and now_frame: "view (snd (now_ms opts w)) = view w"
    and decision_frame: "onDecision opts = Some f \<Longrightarrow> view (f entry w) = view w"
    and amend_frame: "amendTaskPlan opts = Some g \<Longrightarrow> view (g t s w) = view w"
    and rule_frame: "onSiteRule opts = Some h \<Longrightarrow> view (h notice w) = view w"
begin

lemma saved: "\<exists>w'. saveSitePolicy opts state w = (Some (), w') \<and> view w' = sanitiseSitePolicyState state"
  using save_total [of state w] save_view [of state w]
  by (cases "saveSitePolicy opts state w") auto

lemma record_view:
  "\<exists>w' entry. record_decision U opts input d reason w = (Some (), w') \<and>
     view w' = sanitiseSitePolicyState (appendHistory (view w) entry) \<and>
     he_decision entry = d \<and> he_tool entry = ai_tool input \<and> he_taskId entry = ai_taskId input"
proof -
  obtain i w1 where i: "newId opts ''ph'' w = (i, w1)" by (cases "newId opts ''ph'' w")
  obtain t w2 where t: "now_ms opts w1 = (t, w2)" by (cases "now_ms opts w1")
  have v: "view w2 = view w"
    using id_frame [of "''ph''" w] now_frame [of w1] i t by simp
  define entry where "entry =
    \<lparr>he_id = i, he_taskId = ai_taskId input, he_tool = ai_tool input,
     he_site = (case grantSiteFor U input of None \<Rightarrow> ''(no site)'' | Some site \<Rightarrow> site),
     he_risk = pd_effectiveRisk (ai_decision input), he_decision = d, he_timestamp = t,
     he_reason = reason\<rparr>"
  obtain w3 where s: "saveSitePolicy opts (appendHistory (view w) entry) w2 = (Some (), w3)"
    "view w3 = sanitiseSitePolicyState (appendHistory (view w) entry)"
    using saved by blast
  have "record_decision U opts input d reason w =
      (Some (), case onDecision opts of None \<Rightarrow> w3 | Some f \<Rightarrow> f entry w3)"
    using i t v s(1) by (simp add: record_decision_def load_view entry_def split: option.split)
  moreover have "view (case onDecision opts of None \<Rightarrow> w3 | Some f \<Rightarrow> f entry w3) = view w3"
    by (simp add: decision_frame split: option.split)
  ultimately show ?thesis
    using s(2) by (intro exI [of _ "case onDecision opts of None \<Rightarrow> w3 | Some f \<Rightarrow> f entry w3"]
        exI [of _ entry]) (simp add: entry_def)
qed

lemma record_rules:
  "\<exists>w'. record_decision U opts input d reason w = (Some (), w') \<and>
     rules (view w') = map sanitise_rule (rules (view w))"
  using record_view [of U input d reason w] by (auto simp: sanitise_rules)

lemma widen_other:
  assumes "\<And>level. response \<noteq> approve_site level"
  shows "\<exists>w'. widen U opts input response w = (Some (), w') \<and> view w' = view w"
  using assms amend_frame
  by (cases response) (auto simp: widen_def widen_task_def split: option.split)

lemma widen_site_view:
  assumes "truthy (grantSiteFor U input) = Some site"
  shows "\<exists>w' rule. widen U opts input (approve_site level) w = (Some (), w') \<and>
    view w' = sanitiseSitePolicyState (upsertRule (view w) rule) \<and>
    sr_site rule = site \<and> sr_decision rule = Allow \<and> sr_maxRisk rule = level"
proof -
  obtain t w2 where t: "now_ms opts w = (t, w2)" by (cases "now_ms opts w")
  define rule where "rule = \<lparr>sr_site = site, sr_decision = Allow, sr_maxRisk = level,
    sr_createdAt = t, sr_note = Some (''Approved while running '' @ ai_tool input @ ''.'')\<rparr>"
  obtain w3 where s: "saveSitePolicy opts (upsertRule (view w) rule) w2 = (Some (), w3)"
    "view w3 = sanitiseSitePolicyState (upsertRule (view w) rule)"
    using saved by blast
  let ?n = "\<lparr>sn_site = site, sn_maxRisk = level, sn_tool = ai_tool input\<rparr>"
  have "widen U opts input (approve_site level) w =
      (Some (), case onSiteRule opts of None \<Rightarrow> w3 | Some h \<Rightarrow> h ?n w3)"
    using t s(1) assms by (simp add: widen_def widen_site_def load_view rule_def split: option.split)
  moreover have "view (case onSiteRule opts of None \<Rightarrow> w3 | Some h \<Rightarrow> h ?n w3) = view w3"
    by (simp add: rule_frame split: option.split)
  ultimately show ?thesis
    using s(2) by (intro exI [of _ "case onSiteRule opts of None \<Rightarrow> w3 | Some h \<Rightarrow> h ?n w3"]
        exI [of _ rule]) (simp add: rule_def)
qed

lemma widen_site_none:
  "truthy (grantSiteFor U input) = None \<Longrightarrow> widen U opts input (approve_site level) w = (Some (), w)"
  by (simp add: widen_def widen_site_def)

text \<open>With such a port no approval is lost to an error: the promise always resolves.\<close>

lemma widen_returns: "\<exists>w'. widen U opts input response w = (Some (), w')"
  using widen_other [of response U input w] widen_site_none [of U input _ w]
    widen_site_view [of U input _ _ w]
  by (cases response; cases "truthy (grantSiteFor U input)") blast+

lemma request_returns: "fst (requestApproval U opts input w) \<noteq> None"
proof -
  have r: "\<exists>w'. record_decision U opts input d reason v = (Some (), w')" for d reason v
    using record_rules by blast
  obtain request v where b: "build_request U opts input w = (request, v)"
    by (cases "build_request U opts input w")
  obtain response v' where a: "ask opts request v = (response, v')"
    by (cases "ask opts request v")
  obtain v'' where w: "widen U opts input response v' = (Some (), v'')"
    using widen_returns by blast
  show ?thesis
    using r [of blocked "pd_reason (ai_decision input)" w]
      r [of auto_approved "pd_reason (ai_decision input)" w]
      r [of denied "''Task was cancelled before approval.''" v]
      r [of denied "''The user declined this action.''" v']
      r [of approved "''The user approved this action.''" v'']
    by (auto simp: requestApproval_def Let_def b a w finish_def split: policy_verdict.split)
qed

end

end
