(* ===== verification/WorkerPolicy.thy ===== *)
theory WorkerPolicy
  imports Permission
begin

text \<open>
  The worker's side of the permission engine: \<open>loadSitePolicy\<close>, \<open>saveSitePolicy\<close> and the
  \<open>policy.removeSiteRule\<close> route of \<open>src/background/service-worker.ts\<close>, and
  \<open>src/background/unattended-prompter.ts\<close>. It provides the site-policy port the engine relies on.
\<close>

definition SITE_POLICY_KEY :: string where
  "SITE_POLICY_KEY = ''site-policy''"

definition POLICY_NAMESPACE :: string where
  "POLICY_NAMESPACE = ''policy''"

text \<open>The local area, as far as it holds site policies, and the rest of the worker.\<close>

record 'r worker =
  wk_local :: "site_policy_state storage_area"
  wk_rest :: 'r

definition worker_policy :: "'r worker \<Rightarrow> site_policy_state" where
  "worker_policy w =
     sanitiseSitePolicyState
       (case ns_get POLICY_NAMESPACE (wk_local w) SITE_POLICY_KEY of
          None \<Rightarrow> emptySitePolicyState
        | Some state \<Rightarrow> state)"

definition worker_load :: "'r worker \<Rightarrow> site_policy_state option \<times> 'r worker" where
  "worker_load w = (Some (worker_policy w), w)"

definition worker_save :: "site_policy_state \<Rightarrow> 'r worker \<Rightarrow> unit option \<times> 'r worker" where
  "worker_save state w =
     (Some (), w\<lparr>wk_local := ns_set POLICY_NAMESPACE SITE_POLICY_KEY state (wk_local w)\<rparr>)"

text \<open>
  The options the worker builds the engine with. The audit trail, the task plans, the clock and
  the id source live in the rest; the prompt is a function on the whole worker.
\<close>

definition on_rest :: "('r \<Rightarrow> 'r) \<Rightarrow> 'r worker \<Rightarrow> 'r worker" where
  "on_rest f w = w\<lparr>wk_rest := f (wk_rest w)\<rparr>"

definition from_rest :: "('r \<Rightarrow> 'a \<times> 'r) \<Rightarrow> 'r worker \<Rightarrow> 'a \<times> 'r worker" where
  "from_rest f w = (let (a, r) = f (wk_rest w) in (a, w\<lparr>wk_rest := r\<rparr>))"

definition worker_options ::
  "(permission_request \<Rightarrow> 'r worker \<Rightarrow> permission_response option \<times> 'r worker) \<Rightarrow>
   (history_entry \<Rightarrow> 'r \<Rightarrow> 'r) \<Rightarrow> (string \<Rightarrow> string \<Rightarrow> 'r \<Rightarrow> 'r) \<Rightarrow>
   (site_rule_notice \<Rightarrow> 'r \<Rightarrow> 'r) \<Rightarrow> ('r \<Rightarrow> int \<times> 'r) \<Rightarrow>
   (string \<Rightarrow> 'r \<Rightarrow> string \<times> 'r) \<Rightarrow> 'r worker permission_options" where
  "worker_options prompt audit amend notice clock ids =
     \<lparr>prompter = prompt, loadSitePolicy = worker_load, saveSitePolicy = worker_save,
      onDecision = Some (\<lambda>entry. on_rest (audit entry)),
      amendTaskPlan = Some (\<lambda>taskId site. on_rest (amend taskId site)),
      onSiteRule = Some (\<lambda>n. on_rest (notice n)),
      now_ms = from_rest clock, newId = (\<lambda>pre. from_rest (ids pre))\<rparr>"

text \<open>The \<open>policy.removeSiteRule\<close> route; its result says whether the removal is audited.\<close>

definition removeSiteRule_route ::
  "string \<Rightarrow> 'r worker \<Rightarrow> (site_policy_state \<times> bool) option \<times> 'r worker" where
  "removeSiteRule_route site w =
     (case worker_load w of
        (None, w) \<Rightarrow> (None, w)
      | (Some before, w) \<Rightarrow>
          let nextState = removeRule before site
          in (case worker_save nextState w of
                (None, w) \<Rightarrow> (None, w)
              | (Some _, w) \<Rightarrow>
                  (Some (nextState, length (rules nextState) \<noteq> length (rules before)), w)))"

subsection \<open>The unattended prompter\<close>

definition UNATTENDED_SESSION_PREFIX :: string where
  "UNATTENDED_SESSION_PREFIX = ''unattended_''"

definition isUnattendedSessionId :: "string \<Rightarrow> bool" where
  "isUnattendedSessionId sessionId = prefix UNATTENDED_SESSION_PREFIX sessionId"

text \<open>
  \<open>sessionOf\<close> may throw (outer \<open>None\<close>) or find no stored task (inner \<open>None\<close>). The observer of a
  refusal may throw too, which is swallowed, so it is a function on the world.
\<close>

record 'w unattended_options =
  up_interactive :: "permission_request \<Rightarrow> 'w \<Rightarrow> permission_response option \<times> 'w"
  up_sessionOf :: "string \<Rightarrow> 'w \<Rightarrow> string option option"
  up_onRefusal :: "(string \<Rightarrow> string \<Rightarrow> 'w \<Rightarrow> 'w) option"

definition unattended_prompt ::
  "'w unattended_options \<Rightarrow> permission_request \<Rightarrow> 'w \<Rightarrow> permission_response option \<times> 'w" where
  "unattended_prompt up request w =
     (case up_sessionOf up (pr_taskId request) w of
        None \<Rightarrow> (Some deny, w)
      | Some None \<Rightarrow> (Some deny, w)
      | Some (Some sessionId) \<Rightarrow>
          if \<not> isUnattendedSessionId sessionId then up_interactive up request w
          else (Some deny,
                case up_onRefusal up of
                  None \<Rightarrow> w
                | Some notify \<Rightarrow> notify sessionId (pr_tool request) w))"

lemma unattended_prompt_denies:
  assumes "\<And>s. up_sessionOf up (pr_taskId request) w = Some (Some s) \<Longrightarrow> isUnattendedSessionId s"
  shows "fst (unattended_prompt up request w) = Some deny"
  using assms by (auto simp: unattended_prompt_def split: option.split)

subsection \<open>The worker provides the port\<close>

lemma sanitise_rule_idem [simp]: "sanitise_rule (sanitise_rule r) = sanitise_rule r"
  using sanitise_rule_grantable [of r] by (simp add: sanitise_rule_def)

lemma worker_policy_sanitised: "map sanitise_rule (rules (worker_policy w)) = rules (worker_policy w)"
  by (simp add: worker_policy_def sanitise_rules)

lemma worker_policy_rest [simp]: "worker_policy (w\<lparr>wk_rest := r\<rparr>) = worker_policy w"
  by (simp add: worker_policy_def)

lemma worker_save_policy:
  "worker_save state w = (Some (), w') \<Longrightarrow> worker_policy w' = sanitiseSitePolicyState state"
  by (auto simp: worker_save_def worker_policy_def store_simps)

interpretation port: policy_port "worker_options prompt audit amend notice clock ids" worker_policy
  for prompt :: "permission_request \<Rightarrow> 'r worker \<Rightarrow> permission_response option \<times> 'r worker"
    and audit :: "history_entry \<Rightarrow> 'r \<Rightarrow> 'r" and amend :: "string \<Rightarrow> string \<Rightarrow> 'r \<Rightarrow> 'r"
    and notice :: "site_rule_notice \<Rightarrow> 'r \<Rightarrow> 'r" and clock :: "'r \<Rightarrow> int \<times> 'r"
    and ids :: "string \<Rightarrow> 'r \<Rightarrow> string \<times> 'r"
  by unfold_locales
    (auto simp: worker_options_def worker_load_def worker_save_policy on_rest_def from_rest_def
      split: prod.split, simp add: worker_save_def)

subsection \<open>What an approval changes\<close>

text \<open>The worker at the moment the answer is in.\<close>

definition asked ::
  "url_parser \<Rightarrow> 'w permission_options \<Rightarrow> approval_input \<Rightarrow> 'w \<Rightarrow> 'w" where
  "asked U opts input w =
     (let (request, w) = build_request U opts input w in snd (ask opts request w))"

lemma request_decided:
  assumes "pd_verdict (ai_decision input) \<noteq> ALLOW_WITH_CONFIRMATION"
  shows "\<exists>d reason. snd (requestApproval U opts input w) = snd (record_decision U opts input d reason w)"
  using assms
  by (cases "pd_verdict (ai_decision input)") (auto simp: requestApproval_def Let_def finish_def)

lemma request_answered:
  assumes "pd_verdict (ai_decision input) = ALLOW_WITH_CONFIRMATION" and "\<not> ai_aborted input"
    and "answer U opts input w \<noteq> deny"
    and "widen U opts input (answer U opts input w) (asked U opts input w) = (Some (), w')"
  shows "snd (requestApproval U opts input w) =
    snd (record_decision U opts input approved ''The user approved this action.'' w')"
proof -
  obtain request v where b: "build_request U opts input w = (request, v)"
    by (cases "build_request U opts input w")
  obtain response v' where a: "ask opts request v = (response, v')"
    by (cases "ask opts request v")
  show ?thesis
    using assms by (simp add: requestApproval_def Let_def b a answer_def asked_def finish_def)
qed

lemma request_denied:
  assumes "pd_verdict (ai_decision input) = ALLOW_WITH_CONFIRMATION" and "\<not> ai_aborted input"
    and "answer U opts input w = deny"
  shows "snd (requestApproval U opts input w) =
    snd (record_decision U opts input denied ''The user declined this action.'' (asked U opts input w))"
proof -
  obtain request v where b: "build_request U opts input w = (request, v)"
    by (cases "build_request U opts input w")
  obtain response v' where a: "ask opts request v = (response, v')"
    by (cases "ask opts request v")
  show ?thesis
    using assms by (simp add: requestApproval_def Let_def b a answer_def asked_def finish_def)
qed

lemma port_record_rules:
  fixes w :: "'r worker"
  assumes "opts = worker_options p a m n c i"
  shows "rules (worker_policy (snd (record_decision U opts input d reason w))) =
    rules (worker_policy w)"
  using port.record_rules [of U p a m n c i input d reason w]
  by (auto simp: assms worker_policy_sanitised)

text \<open>Without a person's standing grant no rule changes, whatever the verdict.\<close>

lemma rules_unchanged:
  fixes w :: "'r worker"
  assumes "opts = worker_options p a m n c i"
    and "pd_verdict (ai_decision input) \<noteq> ALLOW_WITH_CONFIRMATION"
  shows "rules (worker_policy (snd (requestApproval U opts input w))) = rules (worker_policy w)"
  using request_decided [OF assms(2), of U opts w] by (auto simp: port_record_rules [OF assms(1)])

lemma rules_unchanged_answer:
  fixes w :: "'r worker"
  assumes opts: "opts = worker_options p a m n c i"
    and v: "pd_verdict (ai_decision input) = ALLOW_WITH_CONFIRMATION" "\<not> ai_aborted input"
    and no: "\<And>level. answer U opts input w \<noteq> approve_site level"
  shows "rules (worker_policy (snd (requestApproval U opts input w))) =
    rules (worker_policy (asked U opts input w))"
proof (cases "answer U opts input w = deny")
  case True
  then show ?thesis
    by (simp add: request_denied [OF v True] port_record_rules [OF opts])
next
  case False
  obtain w' where w': "widen U opts input (answer U opts input w) (asked U opts input w) = (Some (), w')"
    "worker_policy w' = worker_policy (asked U opts input w)"
    using port.widen_other [of "answer U opts input w" U p a m n c i input "asked U opts input w"] no
    by (auto simp: opts)
  show ?thesis
    by (simp add: request_answered [OF v False w'(1)] port_record_rules [OF opts] w'(2))
qed

text \<open>A standing grant stores the site the person was shown, clamped to what is grantable.\<close>

lemma rules_granted:
  fixes w :: "'r worker"
  assumes opts: "opts = worker_options p a m n c i"
    and v: "pd_verdict (ai_decision input) = ALLOW_WITH_CONFIRMATION" "\<not> ai_aborted input"
    and yes: "answer U opts input w = approve_site level"
    and site: "truthy (grantSiteFor U input) = Some site"
  shows "\<exists>rule. sr_site rule = site \<and> sr_decision rule = Allow \<and> sr_maxRisk rule = level \<and>
    rules (worker_policy (snd (requestApproval U opts input w))) =
    map sanitise_rule (rules (upsertRule (worker_policy (asked U opts input w)) rule))"
proof -
  obtain w' rule where w': "widen U opts input (approve_site level) (asked U opts input w) = (Some (), w')"
    "worker_policy w' = sanitiseSitePolicyState (upsertRule (worker_policy (asked U opts input w)) rule)"
    "sr_site rule = site" "sr_decision rule = Allow" "sr_maxRisk rule = level"
    using port.widen_site_view [OF site, of p a m n c i level "asked U opts input w"]
    by (auto simp: opts)
  have "answer U opts input w \<noteq> deny"
    using yes by simp
  note final = request_answered [OF v this, unfolded yes, OF w'(1)]
  have "rules (worker_policy (snd (requestApproval U opts input w))) = rules (worker_policy w')"
    unfolding final by (rule port_record_rules [OF opts])
  with w' show ?thesis by (auto simp: sanitise_rules)
qed

subsection \<open>Lookups through a load\<close>

lemma find_map: "List.find P (map f xs) = map_option f (List.find (\<lambda>x. P (f x)) xs)"
  by (induction xs) auto

lemma filter_sanitised:
  "filter (\<lambda>r. sr_site r = site) (map sanitise_rule rs) =
   map sanitise_rule (filter (\<lambda>r. sr_site r = site) rs)"
  by (simp add: filter_map comp_def)

lemma findRule_sanitised:
  assumes "rules t = map sanitise_rule (rules s)"
  shows "findRule U t url = map_option sanitise_rule (findRule U s url)"
proof (cases "siteForUrl U url")
  case None
  then show ?thesis by (simp add: findRule_def)
next
  case (Some site)
  let ?ms = "filter (\<lambda>r. sr_site r = site) (rules s)"
  show ?thesis
    using Some
    by (cases ?ms; cases "List.find (\<lambda>r. sr_decision r = Block) ?ms")
      (auto simp: findRule_def Let_def assms filter_sanitised find_map)
qed

lemma worker_findRule_sanitised:
  "map_option sanitise_rule (findRule U (worker_policy w) url) = findRule U (worker_policy w) url"
  using findRule_sanitised [of "worker_policy w" "worker_policy w" U url] worker_policy_sanitised [of w]
  by simp

lemma confirm_if:
  assumes "R3 \<le> rq_risk request \<or> cx_unattended ctx = Some True \<and> R2 \<le> rq_risk request \<or>
    drift_confirms U request \<or> write_verdict U request \<noteq> xf_allow"
  shows "pd_verdict (evaluatePolicy U request ctx) \<noteq> ALLOW"
proof
  assume allowed: "pd_verdict (evaluatePolicy U request ctx) = ALLOW"
  then show False
    using assms allow_risk [OF allowed] allow_iff [of U request ctx]
    by (cases "rq_risk request"; cases "drift_risk U request")
      (auto simp: authorised_def less_eq_risk_level_def)
qed

lemma asked_prompter:
  assumes "prompter opts = unattended_prompt up"
    and "\<And>v s. up_sessionOf up (ai_taskId input) v = Some (Some s) \<Longrightarrow> isUnattendedSessionId s"
  shows "answer U opts input w = deny"
proof -
  obtain request v where b: "build_request U opts input w = (request, v)"
    by (cases "build_request U opts input w")
  then have "pr_taskId request = ai_taskId input"
    by (auto simp: build_request_def split: prod.splits)
  then have "fst (unattended_prompt up request v) = Some deny"
    using assms(2) by (intro unattended_prompt_denies) simp
  then show ?thesis
    by (cases "unattended_prompt up request v") (simp add: answer_def b ask_def assms(1))
qed

subsection \<open>Properties\<close>

definition sample_approval :: "policy_decision \<Rightarrow> approval_input" where
  "sample_approval decision =
     \<lparr>ai_taskId = ''t1'', ai_tool = ''browser.click'', ai_decision = decision, ai_summary = [],
      ai_targetUrl = None, ai_siteScopeUrl = Some ''https://shop.example.com/a'',
      ai_aborted = False\<rparr>"

definition sample_options ::
  "(permission_request \<Rightarrow> unit worker \<Rightarrow> permission_response option \<times> unit worker) \<Rightarrow>
   unit worker permission_options" where
  "sample_options prompt =
     worker_options prompt (\<lambda>_ r. r) (\<lambda>_ _ r. r) (\<lambda>_ r. r) (\<lambda>r. (0, r)) (\<lambda>pre r. (pre, r))"

definition sample_worker :: "unit worker" where
  "sample_worker = \<lparr>wk_local = [], wk_rest = ()\<rparr>"

definition sample_question :: policy_decision where
  "sample_question =
     evaluatePolicy https_parser (sample_request\<lparr>rq_risk := R3\<rparr>) sample_context"

text \<open>
  C32. An action at R3 or above, a changing action of an unattended run, one whose page moved, and a
  write the guard did not allow, are executed only after the person was asked about this very
  request and did not decline, and never where a refusal applies.
\<close>

theorem permission_granted_by_person:
  assumes "ai_decision input = evaluatePolicy U request ctx"
    and "R3 \<le> rq_risk request \<or> cx_unattended ctx = Some True \<and> R2 \<le> rq_risk request \<or>
      drift_confirms U request \<or> write_verdict U request \<noteq> xf_allow"
    and "fst (requestApproval U opts input w) = Some outcome" and "po_granted outcome"
  shows "\<not> refused U request ctx \<and> \<not> ai_aborted input \<and> answer U opts input w \<noteq> deny \<and>
    po_response outcome = answer U opts input w"
  using granted_cases [OF assms(3,4)] confirm_if [OF assms(2)] assms(1) by (auto simp: refused_verdict)

theorem permission_granted_by_person_witness:
  "\<not> refused https_parser (sample_request\<lparr>rq_risk := R3\<rparr>) sample_context"
proof -
  let ?opts = "sample_options (\<lambda>_ w. (Some approve_once, w))"
  have "fst (requestApproval https_parser ?opts (sample_approval sample_question) sample_worker) =
      Some \<lparr>po_granted = True, po_response = approve_once\<rparr>"
    by code_simp
  from permission_granted_by_person [OF _ _ this, of "sample_request\<lparr>rq_risk := R3\<rparr>" sample_context]
  show ?thesis
    by (simp add: sample_approval_def sample_question_def less_eq_risk_level_def)
qed

text \<open>
  A standing grant for a site is what later calls find: after the person approved the site, the
  rule of every URL of that site allows up to the level approved, clamped to R2, and the rule of
  every other site is the one in force when the answer came in.
\<close>

theorem permission_site_grant:
  fixes w :: "'r worker"
  assumes "opts = worker_options prompt audit amend notice clock ids"
    and "pd_verdict (ai_decision input) = ALLOW_WITH_CONFIRMATION" and "\<not> ai_aborted input"
    and "answer U opts input w = approve_site level"
    and "truthy (grantSiteFor U input) = Some site" and "siteOf site = site"
    and "siteForUrl U url = Some s" and "s \<noteq> []"
  shows "\<exists>rule. sr_decision rule = Allow \<and> sr_maxRisk rule = clampToGrantable level \<and>
    findRule U (worker_policy (snd (requestApproval U opts input w))) url =
      (if s = site then Some rule else findRule U (worker_policy (asked U opts input w)) url)"
proof -
  obtain rule where rule: "sr_site rule = site" "sr_decision rule = Allow" "sr_maxRisk rule = level"
    "rules (worker_policy (snd (requestApproval U opts input w))) =
      map sanitise_rule (rules (upsertRule (worker_policy (asked U opts input w)) rule))"
    using rules_granted [OF assms(1-5)] by blast
  have "findRule U (worker_policy (snd (requestApproval U opts input w))) url =
      map_option sanitise_rule (if s = site then Some rule
        else findRule U (worker_policy (asked U opts input w)) url)"
    unfolding findRule_sanitised [OF rule(4)] findRule_upsert [OF assms(7,8)]
    using rule(1) assms(6) by (cases rule) simp
  then show ?thesis
    using rule(2,3) worker_findRule_sanitised [of U "asked U opts input w" url]
    by (intro exI [of _ "sanitise_rule rule"]) (auto simp: sanitise_rule_def clampToGrantable_def)
qed

theorem permission_site_grant_witness:
  "\<exists>rule. sr_decision rule = Allow \<and> sr_maxRisk rule = R1 \<and>
     findRule https_parser
       (worker_policy (snd (requestApproval https_parser
          (sample_options (\<lambda>_ w. (Some (approve_site R1), w))) (sample_approval sample_question)
          sample_worker)))
       ''https://www.example.com/other'' = Some rule"
proof -
  let ?opts = "sample_options (\<lambda>_ w. (Some (approve_site R1), w))"
  have "answer https_parser ?opts (sample_approval sample_question) sample_worker = approve_site R1"
    by code_simp
  moreover have "pd_verdict (ai_decision (sample_approval sample_question)) = ALLOW_WITH_CONFIRMATION"
    by code_simp
  moreover have "truthy (grantSiteFor https_parser (sample_approval sample_question)) = Some ''example.com''"
    by code_simp
  moreover have "siteForUrl https_parser ''https://www.example.com/other'' = Some ''example.com''"
    by code_simp
  moreover have "siteOf ''example.com'' = ''example.com''"
    by code_simp
  moreover have "clampToGrantable R1 = R1" by code_simp
  ultimately show ?thesis
    using permission_site_grant [OF sample_options_def, of "sample_approval sample_question"
        https_parser "\<lambda>_ w. (Some (approve_site R1), w)" sample_worker R1 "''example.com''"
        "''https://www.example.com/other''" "''example.com''"]
    by (simp add: sample_approval_def)
qed

text \<open>
  C10. Nothing but a standing grant changes the rules: a decision that is not a question leaves
  them as they are, and after any answer other than \<open>approve_site\<close> they are those in force when the
  answer came in.
\<close>

theorem permission_rules_frame:
  fixes w :: "'r worker"
  assumes "opts = worker_options prompt audit amend notice clock ids"
  shows "(pd_verdict (ai_decision input) \<noteq> ALLOW_WITH_CONFIRMATION \<longrightarrow>
      rules (worker_policy (snd (requestApproval U opts input w))) = rules (worker_policy w)) \<and>
    (pd_verdict (ai_decision input) = ALLOW_WITH_CONFIRMATION \<and> \<not> ai_aborted input \<and>
       (\<forall>level. answer U opts input w \<noteq> approve_site level) \<longrightarrow>
      rules (worker_policy (snd (requestApproval U opts input w))) =
        rules (worker_policy (asked U opts input w)))"
  using rules_unchanged [OF assms] rules_unchanged_answer [OF assms] by blast

theorem permission_rules_frame_witness:
  "rules (worker_policy (snd (requestApproval https_parser
      (sample_options (\<lambda>_ w. (Some approve_task, w)))
      (sample_approval (evaluatePolicy https_parser sample_request sample_context)) sample_worker))) =
   rules (worker_policy sample_worker)"
proof -
  have "pd_verdict (ai_decision (sample_approval
      (evaluatePolicy https_parser sample_request sample_context))) \<noteq> ALLOW_WITH_CONFIRMATION"
    by code_simp
  then show ?thesis
    using permission_rules_frame [OF sample_options_def] by blast
qed

text \<open>
  An unattended run never performs a changing action: behind the unattended prompter, a request
  at R2 or above is not granted, whatever the mode, the rules and the plan; a task whose session
  cannot be read counts as unattended.
\<close>

theorem unattended_never_granted:
  assumes "ai_decision input = evaluatePolicy U request ctx"
    and "cx_unattended ctx = Some True" and "R2 \<le> rq_risk request"
    and "prompter opts = unattended_prompt up"
    and "\<And>v s. up_sessionOf up (ai_taskId input) v = Some (Some s) \<Longrightarrow> isUnattendedSessionId s"
    and "fst (requestApproval U opts input w) = Some outcome"
  shows "\<not> po_granted outcome"
  using granted_cases [OF assms(6)] asked_prompter [OF assms(4,5)]
    confirm_if [of request ctx U] assms(1-3) by auto

definition sample_unattended :: "unit worker unattended_options" where
  "sample_unattended =
     \<lparr>up_interactive = (\<lambda>_ w. (Some approve_once, w)),
      up_sessionOf = (\<lambda>_ _. Some (Some ''unattended_1'')), up_onRefusal = None\<rparr>"

theorem unattended_never_granted_witness:
  "\<exists>outcome. fst (requestApproval https_parser (sample_options (unattended_prompt sample_unattended))
      (sample_approval (evaluatePolicy https_parser sample_request
        (sample_context\<lparr>cx_unattended := Some True\<rparr>))) sample_worker) = Some outcome \<and>
    \<not> po_granted outcome"
proof -
  let ?input = "sample_approval (evaluatePolicy https_parser sample_request
    (sample_context\<lparr>cx_unattended := Some True\<rparr>))"
  let ?opts = "sample_options (unattended_prompt sample_unattended)"
  have r: "fst (requestApproval https_parser ?opts ?input sample_worker) \<noteq> None"
    unfolding sample_options_def by (rule port.request_returns)
  then obtain outcome where o: "fst (requestApproval https_parser ?opts ?input sample_worker) = Some outcome"
    by auto
  have "isUnattendedSessionId ''unattended_1''" by code_simp
  then have "\<not> po_granted outcome"
    using unattended_never_granted [OF _ _ _ _ _ o, of sample_request
        "sample_context\<lparr>cx_unattended := Some True\<rparr>" sample_unattended]
    by (simp add: sample_approval_def sample_options_def worker_options_def sample_unattended_def
        sample_request_def sample_context_def less_eq_risk_level_def)
  with o show ?thesis by blast
qed

definition late_history_save :: "history_entry \<Rightarrow> string \<Rightarrow> 'r worker \<Rightarrow> 'r worker" where
  "late_history_save entry site w =
     (case worker_load w of
        (None, w) \<Rightarrow> w
      | (Some stale, w) \<Rightarrow>
          snd (worker_save (appendHistory stale entry) (snd (removeSiteRule_route site w))))"

text \<open>
  The history write of a decision and the removal of a rule are two read-modify-write cycles
  without a common lock: when the engine has loaded the policy before the removal and saves its
  history entry after it, the removed rule is in force again.
\<close>

theorem removed_rule_returns:
  "rules (worker_policy (late_history_save entry site w)) = rules (worker_policy w) \<and>
   fst (removeSiteRule_route site w) =
     Some (removeRule (worker_policy w) site,
       length (rules (removeRule (worker_policy w) site)) \<noteq> length (rules (worker_policy w)))"
proof -
  obtain w' where w': "worker_save (appendHistory (worker_policy w) entry)
      (snd (removeSiteRule_route site w)) = (Some (), w')"
    by (simp add: worker_save_def)
  then have "late_history_save entry site w = w'"
    by (simp add: late_history_save_def worker_load_def)
  then show ?thesis
    using worker_save_policy [OF w'] worker_policy_sanitised [of w]
    by (simp add: sanitise_rules removeSiteRule_route_def worker_load_def worker_save_def Let_def)
qed

end
