(* ===== verification/ToolRegistry.thy ===== *)
theory ToolRegistry
  imports Egress WorkerPolicy Redaction Results
begin

text \<open>
  \<open>src/tools/registry/tool-registry.ts\<close> with the types of \<open>src/tools/core/tool-types.ts\<close> and
  \<open>src/evidence/evidence-model.ts\<close>: the one path on which a model's tool call is looked up,
  validated, scoped, decided by policy and egress gate, approved and executed.

  The registry's options, the tools and the engine's callbacks are functions on a world \<open>'w\<close>, in the
  order the code awaits them. An effect whose rejection leaves \<open>dispatch\<close> has an \<open>option\<close> result,
  \<open>None\<close> being the rejection; what the code catches is a value. Schemas (zod) and the bodies of the
  tools are parameters. Observers of a dispatch see a frozen clone and cannot change it; they are
  functions on the world. The text \<open>describeCall\<close> renders is a parameter (\<open>JSON.stringify\<close>).
\<close>

subsection \<open>Effects that may reject\<close>

type_synonym ('w, 'a) effect = "'w \<Rightarrow> 'a option \<times> 'w"

definition andThen :: "('w, 'a) effect \<Rightarrow> ('a \<Rightarrow> ('w, 'b) effect) \<Rightarrow> ('w, 'b) effect" where
  "andThen m k w = (case m w of (None, w') \<Rightarrow> (None, w') | (Some a, w') \<Rightarrow> k a w')"

definition yields :: "'a \<Rightarrow> ('w, 'a) effect" where
  "yields a w = (Some a, w)"

text \<open>An optional callback: absent, it yields the default.\<close>

definition optional :: "('w, 'a) effect option \<Rightarrow> 'a \<Rightarrow> ('w, 'a) effect" where
  "optional m fallback = (case m of None \<Rightarrow> yields fallback | Some effect \<Rightarrow> effect)"

lemma andThen_Some:
  "fst (andThen m k w) = Some b \<longleftrightarrow> (\<exists>a w'. m w = (Some a, w') \<and> fst (k a w') = Some b)"
  by (auto simp: andThen_def split: prod.split option.split)

lemma yields_Some [simp]: "fst (yields a w) = Some b \<longleftrightarrow> b = a"
  by (auto simp: yields_def)

subsection \<open>The types of a tool\<close>

datatype evidence_type =
  SCREENSHOT | DOM | CONSOLE | NETWORK | EV_TEXT | API_RESPONSE | EV_FILE | USER_APPROVAL
  | EGRESS_DECISION

record evidence_reference =
  ev_id :: string
  ev_type :: evidence_type
  ev_taskId :: string
  ev_toolCallId :: "string option"
  ev_sourceTool :: string
  ev_createdAt :: int
  ev_sensitivity :: data_sensitivity
  ev_trust :: string
  ev_origin :: "string option"
  ev_label :: string
  ev_byteLength :: nat
  ev_hash :: "string option"

record evidence_payload =
  ep_content :: string
  ep_encoding :: string
  ep_mimeType :: string

record tool_envelope =
  te_toolCallId :: string
  te_success :: bool
  te_result :: json
  te_error :: "(error_code \<times> string) option"
  te_retryable :: "bool option"
  te_evidence :: "string list option"

definition successEnvelope :: "string \<Rightarrow> json \<Rightarrow> string list \<Rightarrow> tool_envelope" where
  "successEnvelope toolCallId result evidence =
     \<lparr>te_toolCallId = toolCallId, te_success = True, te_result = result, te_error = None,
      te_retryable = None, te_evidence = (if evidence = [] then None else Some evidence)\<rparr>"

definition errorEnvelope :: "string \<Rightarrow> agent_error \<Rightarrow> tool_envelope" where
  "errorEnvelope toolCallId error =
     \<lparr>te_toolCallId = toolCallId, te_success = False, te_result = JUndef,
      te_error = Some (ae_code error, ae_userMessage error), te_retryable = Some (ae_retryable error),
      te_evidence = None\<rparr>"

datatype site_scope = scope_page | scope_destination | scope_none

record egress_call =
  el_destination :: egress_destination
  el_carrier :: "carrier_input option"
  el_payload :: json

record call_classification =
  cl_risk :: "risk_level option"
  cl_prohibited :: "prohibited_category list option"
  cl_targetUrl :: "string option"
  cl_writeDestination :: "string option"
  cl_writePayload :: json
  cl_egress :: "egress_call option"
  cl_summary :: "string option"

definition no_classification :: call_classification where
  "no_classification =
     \<lparr>cl_risk = None, cl_prohibited = None, cl_targetUrl = None, cl_writeDestination = None,
      cl_writePayload = JUndef, cl_egress = None, cl_summary = None\<rparr>"

record execution_context =
  xc_taskId :: string
  xc_sessionId :: string
  xc_toolCallId :: string
  xc_tabId :: "int option"
  xc_workspaceTabIds :: "int list option"
  xc_workspaceGroupId :: "int option"
  xc_authorisedUrl :: "string option"
  xc_currentUrl :: "string option"

record execution_result =
  xe_success :: bool
  xe_data :: json
  xe_error :: "agent_error option"
  xe_taint :: "taint_source list option"

text \<open>What \<open>execute\<close>, raced against its timeout, ends with: what it threw, or its result.\<close>

datatype tool_failure =
    Thrown_ToolError error_code string error_init
  | Thrown_Timeout
  | Thrown_Abort
  | Thrown_Other string

record 'w agent_tool =
  at_name :: string
  at_description :: string
  at_inputSchema :: "json \<Rightarrow> (string list \<times> string) list + json"
  at_parameters :: json
  at_risk :: risk_level
  at_siteAuthorization :: site_scope
  at_timeoutMs :: int
  at_classify :: "(json \<Rightarrow> execution_context \<Rightarrow> call_classification) option"
  at_execute ::
    "json \<Rightarrow> execution_context \<Rightarrow> 'w \<Rightarrow>
     (tool_failure + execution_result) \<times> (evidence_reference \<times> evidence_payload) list \<times> 'w"

subsection \<open>Invocations, results and options\<close>

record tool_invocation =
  iv_toolCallId :: string
  iv_taskId :: string
  iv_sessionId :: string
  iv_name :: string
  iv_arguments :: json
  iv_tabId :: "int option"
  iv_plannedUrl :: "string option"
  iv_taintState :: "taint_state option"
  iv_taintSalt :: "string option"
  iv_saltEpoch :: "int option"
  iv_taintSignature :: "string option"

record dispatch_result =
  dr_envelope :: tool_envelope
  dr_evidence :: "evidence_reference list"
  dr_risk :: risk_level
  dr_policy :: "policy_decision option"
  dr_taint :: "taint_source list"
  dr_executed :: bool

record security_context =
  sx_taintState :: taint_state
  sx_taintSalt :: string
  sx_saltEpoch :: int
  sx_taintSignature :: string

record egress_evidence_input =
  gi_taskId :: string
  gi_toolCallId :: string
  gi_sourceTool :: string
  gi_destination :: egress_destination
  gi_decision :: egress_decision
  gi_payload :: json
  gi_taintSalt :: string
  gi_saltEpoch :: int
  gi_now :: int

record dispatch_observation =
  ob_taskId :: string
  ob_toolCallId :: string
  ob_tool :: string
  ob_arguments :: json
  ob_risk :: risk_level
  ob_executed :: bool
  ob_success :: bool
  ob_errorCode :: "error_code option"
  ob_tabId :: "int option"
  ob_site :: "string option"

record 'w egress_port =
  gp_consent :: "'w \<Rightarrow> consent_store"
  gp_setConsent :: "consent_store \<Rightarrow> 'w \<Rightarrow> 'w"
  gp_record :: "egress_evidence_input \<Rightarrow> ('w, unit) effect"

record 'w registry_options =
  ro_permissionEngine :: "'w permission_options"
  ro_loadPolicyContext :: "string \<Rightarrow> ('w, policy_context) effect"
  ro_evidenceStore :: "(evidence_reference \<Rightarrow> evidence_payload \<Rightarrow> ('w, evidence_reference) effect) option"
  ro_resolveTabUrl :: "(int \<Rightarrow> ('w, string option) effect) option"
  ro_checkWorkspaceMember :: "(string \<Rightarrow> int \<Rightarrow> ('w, string + unit) effect) option"
  ro_resolveWorkspaceTabs :: "(string \<Rightarrow> ('w, int list) effect) option"
  ro_resolveAllowedTools :: "(string \<Rightarrow> ('w, string list option) effect) option"
  ro_resolveWorkspaceGroupId :: "(string \<Rightarrow> ('w, int option) effect) option"
  ro_egress :: "'w egress_port option"
  ro_publish :: "(string \<Rightarrow> security_context \<Rightarrow> 'w \<Rightarrow> 'w) option"
  ro_observers :: "(dispatch_observation \<Rightarrow> 'w \<Rightarrow> 'w) list"
  ro_describeCall :: "string \<Rightarrow> json \<Rightarrow> string"
  ro_now :: "'w \<Rightarrow> int \<times> 'w"
  ro_aborted :: "'w \<Rightarrow> bool"

subsection \<open>The tools\<close>

text \<open>The registered tools by name, in registration order; registering a name twice throws.\<close>

type_synonym 'w tools = "(string \<times> 'w agent_tool) list"

definition register :: "'w agent_tool \<Rightarrow> 'w tools \<Rightarrow> 'w tools option" where
  "register tool ts =
     (if map_of ts (at_name tool) \<noteq> None then None else Some (ts @ [(at_name tool, tool)]))"

fun registerAll :: "'w agent_tool list \<Rightarrow> 'w tools \<Rightarrow> 'w tools option" where
  "registerAll [] ts = Some ts"
| "registerAll (tool # rest) ts =
     (case register tool ts of None \<Rightarrow> None | Some ts' \<Rightarrow> registerAll rest ts')"

definition unregister :: "string \<Rightarrow> 'w tools \<Rightarrow> bool \<times> 'w tools" where
  "unregister name ts = (map_of ts name \<noteq> None, AList.delete name ts)"

definition MCP_WIRE_PREFIX :: string where
  "MCP_WIRE_PREFIX = ''mcp__''"

definition toWireName :: "string \<Rightarrow> string" where
  "toWireName name = map (\<lambda>c. if c = CHR ''.'' then CHR ''_'' else c) name"

definition fromWireName :: "string \<Rightarrow> string" where
  "fromWireName name =
     (if CHR ''.'' \<in> set name then name
      else if prefix MCP_WIRE_PREFIX name then name
      else
        (let ahead = takeWhile (\<lambda>c. c \<noteq> CHR ''_'') name
         in if length ahead = length name then name
            else ahead @ ''.'' @ drop (Suc (length ahead)) name))"

record tool_schema =
  ks_name :: string
  ks_description :: string
  ks_parameters :: json

definition toCanonicalSchemas :: "'w tools \<Rightarrow> string list option \<Rightarrow> tool_schema list" where
  "toCanonicalSchemas ts allowed =
     map (\<lambda>t. \<lparr>ks_name = toWireName (at_name t), ks_description = at_description t,
               ks_parameters = at_parameters t\<rparr>)
       (filter (\<lambda>t. case allowed of None \<Rightarrow> True | Some names \<Rightarrow> at_name t \<in> set names)
         (map snd ts))"

subsection \<open>Dispatch\<close>

definition refuse :: "tool_invocation \<Rightarrow> agent_error \<Rightarrow> risk_level \<Rightarrow> dispatch_result" where
  "refuse iv error risk =
     \<lparr>dr_envelope = errorEnvelope (iv_toolCallId iv) error, dr_evidence = [], dr_risk = risk,
      dr_policy = None, dr_taint = [], dr_executed = False\<rparr>"

definition with_message :: "error_code \<Rightarrow> string \<Rightarrow> string \<Rightarrow> agent_error" where
  "with_message code message userMessage =
     createError code message (default_init\<lparr>ei_userMessage := Some userMessage\<rparr>)"

definition toAgentError :: "tool_failure \<Rightarrow> string \<Rightarrow> agent_error" where
  "toAgentError failure tool =
     (case failure of
        Thrown_ToolError code message init \<Rightarrow> createError code message init
      | Thrown_Timeout \<Rightarrow>
          createError TASK_TIMEOUT (tool @ '' timed out.'')
            (default_init\<lparr>ei_userMessage := Some (tool @ '' did not finish in time.''),
               ei_retryable := Some True\<rparr>)
      | Thrown_Abort \<Rightarrow> createError USER_CANCELLED (tool @ '' was cancelled.'') default_init
      | Thrown_Other details \<Rightarrow>
          createError INTERNAL_ERROR (tool @ '' threw an unexpected error.'')
            (default_init\<lparr>ei_userMessage := Some (tool @ '' failed unexpectedly.''),
               ei_technicalDetails := Some details\<rparr>))"

text \<open>\<open>resolveSiteScope\<close>, and the request the policy engine sees.\<close>

definition resolveSiteScope :: "site_scope \<Rightarrow> string option \<Rightarrow> call_classification \<Rightarrow> string option" where
  "resolveSiteScope scope currentUrl cl =
     (case scope of
        scope_page \<Rightarrow> currentUrl
      | scope_destination \<Rightarrow> cl_targetUrl cl
      | scope_none \<Rightarrow> None)"

definition classify :: "'w agent_tool \<Rightarrow> json \<Rightarrow> execution_context \<Rightarrow> call_classification" where
  "classify tool parsed ctx =
     (case at_classify tool of None \<Rightarrow> no_classification | Some f \<Rightarrow> f parsed ctx)"

definition call_risk :: "'w agent_tool \<Rightarrow> call_classification \<Rightarrow> risk_level" where
  "call_risk tool cl = maxRisk (at_risk tool) (or_default (cl_risk cl) (at_risk tool))"

definition policy_request_of ::
  "'w agent_tool \<Rightarrow> tool_invocation \<Rightarrow> call_classification \<Rightarrow> string option \<Rightarrow> policy_request" where
  "policy_request_of tool iv cl currentUrl =
     \<lparr>rq_tool = fromWireName (iv_name iv), rq_taskId = iv_taskId iv, rq_risk = call_risk tool cl,
      rq_prohibited = cl_prohibited cl, rq_targetUrl = cl_targetUrl cl,
      rq_plannedUrl = iv_plannedUrl iv, rq_currentUrl = currentUrl,
      rq_siteScope = resolveSiteScope (at_siteAuthorization tool) currentUrl cl,
      rq_writeDestination = cl_writeDestination cl, rq_writePayload = cl_writePayload cl,
      rq_taintState = iv_taintState iv\<rparr>"

definition egress_request_of :: "tool_invocation \<Rightarrow> egress_call \<Rightarrow> int \<Rightarrow> egress_request" where
  "egress_request_of iv call time =
     \<lparr>er_taskId = iv_taskId iv,
      er_taintState = or_default (iv_taintState iv) (unknownTaint field_absent),
      er_taintSalt = or_default (iv_taintSalt iv) [], er_destination = el_destination call,
      er_payload = el_payload call, er_carrierInput = el_carrier call,
      er_taintSignature = iv_taintSignature iv, er_now = time\<rparr>"

text \<open>The gate's verdict overrides the policy's where it is stricter.\<close>

definition effective_decision :: "policy_decision \<Rightarrow> egress_decision \<Rightarrow> policy_decision" where
  "effective_decision decision gate =
     (if ed_verdict gate = eg_deny then
        \<lparr>pd_verdict = DENY, pd_code = EXFILTRATION_BLOCKED, pd_reason = ed_reason gate,
         pd_effectiveRisk = R4, pd_exfiltration = None\<rparr>
      else if ed_verdict gate = eg_confirm \<and> pd_verdict decision \<noteq> DENY then
        \<lparr>pd_verdict = ALLOW_WITH_CONFIRMATION, pd_code = EXFILTRATION_CONFIRM,
         pd_reason = ed_reason gate, pd_effectiveRisk = maxRisk (pd_effectiveRisk decision) R3,
         pd_exfiltration = None\<rparr>
      else decision)"

definition egress_stage ::
  "url_parser \<Rightarrow> 'w registry_options \<Rightarrow> tool_invocation \<Rightarrow> call_classification \<Rightarrow> policy_decision \<Rightarrow>
   ('w, policy_decision) effect" where
  "egress_stage U opts iv cl decision w =
     (case (cl_egress cl, ro_egress opts) of
        (Some call, Some port) \<Rightarrow>
          let (time, w) = ro_now opts w;
              (gate, store) = authorizeEgress U (egress_request_of iv call time) (gp_consent port w);
              w = gp_setConsent port store w;
              (recordedAt, w) = ro_now opts w
          in andThen
               (gp_record port
                  \<lparr>gi_taskId = iv_taskId iv, gi_toolCallId = iv_toolCallId iv,
                   gi_sourceTool = fromWireName (iv_name iv), gi_destination = el_destination call,
                   gi_decision = gate, gi_payload = el_payload call,
                   gi_taintSalt = or_default (iv_taintSalt iv) [],
                   gi_saltEpoch = or_default (iv_saltEpoch iv) 0, gi_now = recordedAt\<rparr>)
               (\<lambda>_. yields (effective_decision decision gate)) w
      | _ \<Rightarrow> yields decision w)"

text \<open>Evidence that cannot be stored is dropped; without a store it is returned with its size.\<close>

fun persist_each ::
  "(evidence_reference \<Rightarrow> evidence_payload \<Rightarrow> ('w, evidence_reference) effect) \<Rightarrow>
   (evidence_reference \<times> evidence_payload) list \<Rightarrow> 'w \<Rightarrow> evidence_reference list \<times> 'w" where
  "persist_each put [] w = ([], w)"
| "persist_each put ((reference, payload) # rest) w =
     (let (stored, w1) = put reference payload w;
          (others, w2) = persist_each put rest w1
      in (case stored of None \<Rightarrow> others | Some s \<Rightarrow> s # others, w2))"

definition persistEvidence ::
  "'w registry_options \<Rightarrow> (evidence_reference \<times> evidence_payload) list \<Rightarrow> 'w \<Rightarrow>
   evidence_reference list \<times> 'w" where
  "persistEvidence opts recorded w =
     (case ro_evidenceStore opts of
        None \<Rightarrow> (map (\<lambda>(r, p). r\<lparr>ev_byteLength := length (ep_content p)\<rparr>) recorded, w)
      | Some put \<Rightarrow> persist_each put recorded w)"

definition executed_result ::
  "tool_invocation \<Rightarrow> risk_level \<Rightarrow> policy_decision \<Rightarrow> tool_envelope \<Rightarrow> evidence_reference list \<Rightarrow>
   taint_source list \<Rightarrow> dispatch_result" where
  "executed_result iv risk decision envelope evidence taint =
     \<lparr>dr_envelope = envelope, dr_evidence = evidence, dr_risk = risk, dr_policy = Some decision,
      dr_taint = taint, dr_executed = True\<rparr>"

definition execute_stage ::
  "'w registry_options \<Rightarrow> 'w agent_tool \<Rightarrow> tool_invocation \<Rightarrow> json \<Rightarrow> execution_context \<Rightarrow>
   risk_level \<Rightarrow> policy_decision \<Rightarrow> 'w \<Rightarrow> dispatch_result \<times> 'w" where
  "execute_stage opts tool iv parsed ctx risk decision w =
     (let name = fromWireName (iv_name iv);
          (outcome, recorded, w) = at_execute tool parsed ctx w;
          (evidence, w) = persistEvidence opts recorded w
      in (case outcome of
            Inl failure \<Rightarrow>
              executed_result iv risk decision
                (errorEnvelope (iv_toolCallId iv) (toAgentError failure name)) evidence []
          | Inr result \<Rightarrow>
              if \<not> xe_success result then
                executed_result iv risk decision
                  (errorEnvelope (iv_toolCallId iv)
                     (or_default (xe_error result)
                        (createError INTERNAL_ERROR
                           (name @ '' reported failure without an error.'') default_init)))
                  evidence (or_default (xe_taint result) [])
              else
                executed_result iv risk decision
                  (successEnvelope (iv_toolCallId iv) (redactValue 0 (xe_data result))
                     (map ev_id evidence))
                  evidence (or_default (xe_taint result) []), w))"

definition approval_input_of ::
  "'w registry_options \<Rightarrow> 'w agent_tool \<Rightarrow> tool_invocation \<Rightarrow> json \<Rightarrow> call_classification \<Rightarrow>
   string option \<Rightarrow> policy_decision \<Rightarrow> 'w \<Rightarrow> approval_input" where
  "approval_input_of opts tool iv parsed cl siteScope effective w =
     \<lparr>ai_taskId = iv_taskId iv, ai_tool = fromWireName (iv_name iv), ai_decision = effective,
      ai_summary =
        or_default (cl_summary cl) (ro_describeCall opts (at_name tool) (redactValue 0 parsed)),
      ai_targetUrl = cl_targetUrl cl, ai_siteScopeUrl = siteScope, ai_aborted = ro_aborted opts w\<rparr>"

definition approved_stage ::
  "'w registry_options \<Rightarrow> 'w agent_tool \<Rightarrow> tool_invocation \<Rightarrow> json \<Rightarrow> execution_context \<Rightarrow>
   call_classification \<Rightarrow> policy_decision \<Rightarrow> policy_decision \<Rightarrow> permission_outcome \<Rightarrow>
   ('w, dispatch_result) effect" where
  "approved_stage opts tool iv parsed ctx cl decision effective outcome w =
     (if \<not> po_granted outcome then
        (Some
           \<lparr>dr_envelope =
              errorEnvelope (iv_toolCallId iv)
                (with_message
                   (if pd_verdict effective = DENY then POLICY_BLOCKED_ERROR else PERMISSION_DENIED)
                   (pd_reason effective) (pd_reason effective)),
            dr_evidence = [], dr_risk = pd_effectiveRisk decision, dr_policy = Some decision,
            dr_taint = [], dr_executed = False\<rparr>, w)
      else if ro_aborted opts w then
        (Some
           (refuse iv
              (createError USER_CANCELLED ''The task was cancelled before this tool ran.'' default_init)
              (call_risk tool cl)), w)
      else
        (let (result, w) = execute_stage opts tool iv parsed ctx (call_risk tool cl) decision w
         in (Some result, w)))"

definition approval_stage ::
  "url_parser \<Rightarrow> 'w registry_options \<Rightarrow> 'w agent_tool \<Rightarrow> tool_invocation \<Rightarrow> json \<Rightarrow>
   execution_context \<Rightarrow> call_classification \<Rightarrow> policy_decision \<Rightarrow> policy_decision \<Rightarrow>
   ('w, dispatch_result) effect" where
  "approval_stage U opts tool iv parsed ctx cl decision effective w =
     (let siteScope = resolveSiteScope (at_siteAuthorization tool) (xc_currentUrl ctx) cl
      in andThen
           (requestApproval U (ro_permissionEngine opts)
              (approval_input_of opts tool iv parsed cl siteScope effective w))
           (approved_stage opts tool iv parsed ctx cl decision effective) w)"

definition current_url :: "'w registry_options \<Rightarrow> tool_invocation \<Rightarrow> ('w, string option) effect" where
  "current_url opts iv =
     (case (iv_tabId iv, ro_resolveTabUrl opts) of
        (Some tab, Some resolve) \<Rightarrow> resolve tab
      | _ \<Rightarrow> yields None)"

definition execution_context_of ::
  "tool_invocation \<Rightarrow> int list option \<Rightarrow> int option \<Rightarrow> string option \<Rightarrow> execution_context" where
  "execution_context_of iv tabs grp currentUrl =
     \<lparr>xc_taskId = iv_taskId iv, xc_sessionId = iv_sessionId iv, xc_toolCallId = iv_toolCallId iv,
      xc_tabId = iv_tabId iv, xc_workspaceTabIds = tabs, xc_workspaceGroupId = grp,
      xc_authorisedUrl = iv_plannedUrl iv, xc_currentUrl = currentUrl\<rparr>"

definition decided_stage ::
  "url_parser \<Rightarrow> 'w registry_options \<Rightarrow> 'w agent_tool \<Rightarrow> tool_invocation \<Rightarrow> json \<Rightarrow>
   execution_context \<Rightarrow> ('w, dispatch_result \<times> string option) effect" where
  "decided_stage U opts tool iv parsed ctx =
     (let cl = classify tool parsed ctx;
          siteScope = resolveSiteScope (at_siteAuthorization tool) (xc_currentUrl ctx) cl;
          site = (case siteScope of None \<Rightarrow> None | Some url \<Rightarrow> siteForUrl U url)
      in andThen (ro_loadPolicyContext opts (iv_taskId iv))
           (\<lambda>pctx.
              let decision = evaluatePolicy U (policy_request_of tool iv cl (xc_currentUrl ctx)) pctx
              in andThen (egress_stage U opts iv cl decision)
                   (\<lambda>effective.
                      andThen (approval_stage U opts tool iv parsed ctx cl decision effective)
                        (\<lambda>result. yields (result, site)))))"

definition context_effects ::
  "url_parser \<Rightarrow> 'w registry_options \<Rightarrow> 'w agent_tool \<Rightarrow> tool_invocation \<Rightarrow> json \<Rightarrow>
   ('w, dispatch_result \<times> string option) effect" where
  "context_effects U opts tool iv parsed =
     andThen (optional (map_option (\<lambda>f. andThen (f (iv_taskId iv)) (\<lambda>x. yields (Some x)))
                (ro_resolveWorkspaceTabs opts)) None)
       (\<lambda>tabs.
          andThen (optional (map_option (\<lambda>f. f (iv_taskId iv)) (ro_resolveWorkspaceGroupId opts)) None)
            (\<lambda>grp.
               andThen (current_url opts iv)
                 (\<lambda>url. decided_stage U opts tool iv parsed (execution_context_of iv tabs grp url))))"

definition publish :: "'w registry_options \<Rightarrow> tool_invocation \<Rightarrow> 'w \<Rightarrow> 'w" where
  "publish opts iv w =
     (case (ro_publish opts, iv_taintState iv, iv_taintSalt iv) of
        (Some f, Some state, Some salt) \<Rightarrow>
          f (iv_taskId iv)
            \<lparr>sx_taintState = state, sx_taintSalt = salt, sx_saltEpoch = or_default (iv_saltEpoch iv) 1,
             sx_taintSignature = or_default (iv_taintSignature iv) []\<rparr> w
      | _ \<Rightarrow> w)"

definition membership :: "'w registry_options \<Rightarrow> tool_invocation \<Rightarrow> ('w, string + unit) effect" where
  "membership opts iv =
     (case (iv_tabId iv, ro_checkWorkspaceMember opts) of
        (Some tab, Some check) \<Rightarrow> check (iv_taskId iv) tab
      | _ \<Rightarrow> yields (Inr ()))"

definition scoped_stage ::
  "url_parser \<Rightarrow> 'w registry_options \<Rightarrow> 'w agent_tool \<Rightarrow> tool_invocation \<Rightarrow> json \<Rightarrow>
   ('w, dispatch_result \<times> string option) effect" where
  "scoped_stage U opts tool iv parsed w =
     andThen (membership opts iv)
       (\<lambda>verdict.
          case verdict of
            Inl reason \<Rightarrow>
              yields (refuse iv (with_message POLICY_BLOCKED_ERROR reason reason) (at_risk tool), None)
          | Inr _ \<Rightarrow> context_effects U opts tool iv parsed)
       (publish opts iv w)"

definition schema_issues :: "(string list \<times> string) list \<Rightarrow> string" where
  "schema_issues issues =
     js_join ''; ''
       (map (\<lambda>(path, message).
               (let place = js_join ''.'' path in if place = [] then ''(root)'' else place) @ '': '' @
               message) issues)"

definition outside_tools :: "string list option \<Rightarrow> string \<Rightarrow> bool" where
  "outside_tools allowed name =
     (case allowed of None \<Rightarrow> False | Some names \<Rightarrow> names \<noteq> [] \<and> name \<notin> set names)"

definition run_dispatch ::
  "url_parser \<Rightarrow> 'w registry_options \<Rightarrow> 'w tools \<Rightarrow> tool_invocation \<Rightarrow>
   ('w, dispatch_result \<times> string option) effect" where
  "run_dispatch U opts ts iv =
     (let name = fromWireName (iv_name iv)
      in case map_of ts name of
           None \<Rightarrow>
             yields
               (refuse iv
                  (with_message TOOL_NOT_FOUND (''No tool named '' @ [CHR 0x22] @ name @ [CHR 0x22] @ ''.'')
                     (''The model asked for a tool that does not exist: '' @ name @ ''.'')) R0, None)
         | Some tool \<Rightarrow>
             andThen (optional (map_option (\<lambda>f. f (iv_taskId iv)) (ro_resolveAllowedTools opts)) None)
               (\<lambda>allowed.
                  if outside_tools allowed name then
                    yields
                      (refuse iv
                         (createError POLICY_BLOCKED_ERROR (name @ '' is outside the tools this task may use.'')
                            (default_init\<lparr>ei_userMessage :=
                               Some (''This task was started with a restricted set of tools, and '' @
                                     name @ '' is not one of them.''),
                               ei_retryable := Some False\<rparr>)) (at_risk tool), None)
                  else
                    (case at_inputSchema tool (iv_arguments iv) of
                       Inl issues \<Rightarrow>
                         yields
                           (refuse iv
                              (with_message INVALID_ARGUMENT (''Invalid arguments for '' @ name @ ''.'')
                                 (''Arguments for '' @ name @ '' did not match its schema. '' @
                                  schema_issues issues)) (at_risk tool), None)
                     | Inr parsed \<Rightarrow> scoped_stage U opts tool iv parsed)))"

definition observation_of :: "tool_invocation \<Rightarrow> dispatch_result \<Rightarrow> string option \<Rightarrow> dispatch_observation" where
  "observation_of iv result site =
     \<lparr>ob_taskId = iv_taskId iv, ob_toolCallId = iv_toolCallId iv, ob_tool = fromWireName (iv_name iv),
      ob_arguments = iv_arguments iv, ob_risk = dr_risk result, ob_executed = dr_executed result,
      ob_success = te_success (dr_envelope result),
      ob_errorCode = map_option fst (te_error (dr_envelope result)), ob_tabId = iv_tabId iv,
      ob_site = site\<rparr>"

definition dispatch ::
  "url_parser \<Rightarrow> 'w registry_options \<Rightarrow> 'w tools \<Rightarrow> tool_invocation \<Rightarrow> ('w, dispatch_result) effect" where
  "dispatch U opts ts iv =
     andThen (run_dispatch U opts ts iv)
       (\<lambda>(result, site) w.
          (Some result, foldl (\<lambda>w f. f (observation_of iv result site) w) w (ro_observers opts)))"

subsection \<open>What an execution went through\<close>

lemma run_executed:
  assumes "fst (run_dispatch U opts ts iv w) = Some (r, site)" and "dr_executed r"
  shows "\<exists>tool allowed parsed w'. map_of ts (fromWireName (iv_name iv)) = Some tool \<and>
    optional (map_option (\<lambda>f. f (iv_taskId iv)) (ro_resolveAllowedTools opts)) None w = (Some allowed, w') \<and>
    \<not> outside_tools allowed (fromWireName (iv_name iv)) \<and>
    at_inputSchema tool (iv_arguments iv) = Inr parsed \<and>
    fst (scoped_stage U opts tool iv parsed w') = Some (r, site)"
  using assms
  by (auto simp: run_dispatch_def Let_def andThen_Some refuse_def split: option.splits if_splits sum.splits)

lemma scoped_executed:
  assumes "fst (scoped_stage U opts tool iv parsed w) = Some (r, site)" and "dr_executed r"
  shows "\<exists>w'. membership opts iv (publish opts iv w) = (Some (Inr ()), w') \<and>
    fst (context_effects U opts tool iv parsed w') = Some (r, site)"
proof -
  obtain verdict w' where v: "membership opts iv (publish opts iv w) = (Some verdict, w')"
      "fst ((case verdict of
          Inl reason \<Rightarrow> yields (refuse iv (with_message POLICY_BLOCKED_ERROR reason reason) (at_risk tool), None)
        | Inr _ \<Rightarrow> context_effects U opts tool iv parsed) w') = Some (r, site)"
    using assms(1) by (auto simp: scoped_stage_def andThen_Some)
  with assms(2) show ?thesis
    by (cases verdict) (auto simp: refuse_def)
qed

lemma context_decided:
  assumes "fst (context_effects U opts tool iv parsed w) = Some (r, site)"
  shows "\<exists>tabs grp url w'.
    fst (decided_stage U opts tool iv parsed (execution_context_of iv tabs grp url) w') = Some (r, site)"
  using assms by (auto simp: context_effects_def andThen_Some)

lemma decided_executed:
  assumes "fst (decided_stage U opts tool iv parsed ctx w) = Some (r, site)"
  shows "\<exists>pctx effective w' w''.
    fst (egress_stage U opts iv (classify tool parsed ctx)
      (evaluatePolicy U (policy_request_of tool iv (classify tool parsed ctx) (xc_currentUrl ctx)) pctx) w') =
      Some effective \<and>
    fst (approval_stage U opts tool iv parsed ctx (classify tool parsed ctx)
      (evaluatePolicy U (policy_request_of tool iv (classify tool parsed ctx) (xc_currentUrl ctx)) pctx)
      effective w'') = Some r"
  using assms by (auto simp: decided_stage_def Let_def andThen_Some) (metis fst_conv)

lemma approval_executed:
  assumes "fst (approval_stage U opts tool iv parsed ctx cl decision effective w) = Some r" and "dr_executed r"
  shows "dr_policy r = Some decision \<and> dr_risk r = call_risk tool cl \<and>
    (\<exists>input outcome v. ai_decision input = effective \<and> ai_taskId input = iv_taskId iv \<and>
       ai_tool input = fromWireName (iv_name iv) \<and>
       fst (requestApproval U (ro_permissionEngine opts) input v) = Some outcome \<and> po_granted outcome)"
proof -
  let ?input = "approval_input_of opts tool iv parsed cl
    (resolveSiteScope (at_siteAuthorization tool) (xc_currentUrl ctx) cl) effective w"
  obtain outcome w' where req: "requestApproval U (ro_permissionEngine opts) ?input w = (Some outcome, w')"
    and granted: "po_granted outcome"
    and ran: "r = fst (execute_stage opts tool iv parsed ctx (call_risk tool cl) decision w')"
    using assms
    by (auto simp: approval_stage_def approved_stage_def Let_def andThen_Some refuse_def
        split: if_splits prod.splits)
  have "dr_policy r = Some decision \<and> dr_risk r = call_risk tool cl"
    unfolding ran execute_stage_def executed_result_def
    by (simp add: Let_def split: prod.split sum.split)
  moreover have "ai_decision ?input = effective" "ai_taskId ?input = iv_taskId iv"
    "ai_tool ?input = fromWireName (iv_name iv)"
    by (simp_all add: approval_input_of_def)
  ultimately show ?thesis
    using req granted by (metis fst_conv)
qed

text \<open>The decision an execution was granted under: the policy's, raised by the gate.\<close>

lemma egress_effective:
  assumes "fst (egress_stage U opts iv cl decision w) = Some effective"
  shows "effective = decision \<and> (cl_egress cl = None \<or> ro_egress opts = None) \<or>
    (\<exists>call port time store. cl_egress cl = Some call \<and> ro_egress opts = Some port \<and>
       effective = effective_decision decision
         (fst (authorizeEgress U (egress_request_of iv call time) store)))"
  using assms
  by (auto simp: egress_stage_def Let_def andThen_Some split: option.splits prod.splits) (metis fst_conv)

lemma effective_not_deny:
  "pd_verdict (effective_decision decision gate) \<noteq> DENY \<Longrightarrow>
   pd_verdict decision \<noteq> DENY \<and> ed_verdict gate \<noteq> eg_deny"
  by (auto simp: effective_decision_def split: if_splits)

lemma effective_allow:
  "pd_verdict (effective_decision decision gate) = ALLOW \<Longrightarrow>
   pd_verdict decision = ALLOW \<and> ed_verdict gate = eg_allow"
  by (cases "ed_verdict gate") (auto simp: effective_decision_def split: if_splits)

text \<open>Everything an executed call passed, in one place.\<close>

definition authorised_call ::
  "url_parser \<Rightarrow> 'w registry_options \<Rightarrow> tool_invocation \<Rightarrow> call_classification \<Rightarrow> policy_decision \<Rightarrow> bool" where
  "authorised_call U opts iv cl decision \<longleftrightarrow>
     pd_verdict decision \<noteq> DENY \<and>
     (\<exists>effective input v.
        ai_decision input = effective \<and> ai_taskId input = iv_taskId iv \<and>
        ai_tool input = fromWireName (iv_name iv) \<and>
        (pd_verdict effective = ALLOW \<or>
         \<not> ai_aborted input \<and> answer U (ro_permissionEngine opts) input v \<noteq> deny) \<and>
        (pd_verdict effective = ALLOW \<longrightarrow> pd_verdict decision = ALLOW) \<and>
        (\<forall>call port. cl_egress cl = Some call \<longrightarrow> ro_egress opts = Some port \<longrightarrow>
           (\<exists>time store gate. gate = fst (authorizeEgress U (egress_request_of iv call time) store) \<and>
              ed_verdict gate \<noteq> eg_deny \<and>
              (pd_verdict effective = ALLOW \<longrightarrow> ed_verdict gate = eg_allow))))"

lemma decided_authorised:
  assumes "fst (decided_stage U opts tool iv parsed ctx w) = Some (r, site)" and "dr_executed r"
  defines "cl \<equiv> classify tool parsed ctx"
  shows "\<exists>pctx decision. decision = evaluatePolicy U (policy_request_of tool iv cl (xc_currentUrl ctx)) pctx \<and>
    dr_policy r = Some decision \<and> dr_risk r = call_risk tool cl \<and> authorised_call U opts iv cl decision"
proof -
  obtain pctx effective w' w'' where
      e: "fst (egress_stage U opts iv cl
        (evaluatePolicy U (policy_request_of tool iv cl (xc_currentUrl ctx)) pctx) w') = Some effective"
    and a: "fst (approval_stage U opts tool iv parsed ctx cl
        (evaluatePolicy U (policy_request_of tool iv cl (xc_currentUrl ctx)) pctx) effective w'') = Some r"
    using decided_executed [OF assms(1)] unfolding cl_def by blast
  define decision where
    "decision = evaluatePolicy U (policy_request_of tool iv cl (xc_currentUrl ctx)) pctx"
  note a' = approval_executed [OF a assms(2), folded decision_def]
  obtain input outcome v where i: "ai_decision input = effective" "ai_taskId input = iv_taskId iv"
      "ai_tool input = fromWireName (iv_name iv)"
      "fst (requestApproval U (ro_permissionEngine opts) input v) = Some outcome" "po_granted outcome"
    using a' by blast
  have g: "pd_verdict effective = ALLOW \<or>
      \<not> ai_aborted input \<and> answer U (ro_permissionEngine opts) input v \<noteq> deny"
    using granted_cases [OF i(4,5)] i(1) by auto
  have nd: "pd_verdict effective \<noteq> DENY"
    using granted_cases [OF i(4,5)] i(1) by auto
  from egress_effective [OF e, folded decision_def]
  have "pd_verdict decision \<noteq> DENY \<and> (pd_verdict effective = ALLOW \<longrightarrow> pd_verdict decision = ALLOW) \<and>
      (\<forall>call port. cl_egress cl = Some call \<longrightarrow> ro_egress opts = Some port \<longrightarrow>
         (\<exists>time store gate. gate = fst (authorizeEgress U (egress_request_of iv call time) store) \<and>
            ed_verdict gate \<noteq> eg_deny \<and> (pd_verdict effective = ALLOW \<longrightarrow> ed_verdict gate = eg_allow)))"
  proof (elim disjE exE conjE)
    assume "effective = decision" and "cl_egress cl = None"
    with nd show ?thesis by simp
  next
    assume "effective = decision" and "ro_egress opts = None"
    with nd show ?thesis by simp
  next
    fix call port time store
    assume c: "cl_egress cl = Some call" "ro_egress opts = Some port"
      and eff: "effective = effective_decision decision
        (fst (authorizeEgress U (egress_request_of iv call time) store))"
    let ?gate = "fst (authorizeEgress U (egress_request_of iv call time) store)"
    have "pd_verdict decision \<noteq> DENY" and "ed_verdict ?gate \<noteq> eg_deny"
      using effective_not_deny nd unfolding eff by blast+
    moreover have "pd_verdict effective = ALLOW \<longrightarrow> pd_verdict decision = ALLOW \<and> ed_verdict ?gate = eg_allow"
      using effective_allow unfolding eff by blast
    ultimately show ?thesis
      using c by (metis option.inject)
  qed
  then have "authorised_call U opts iv cl decision"
    unfolding authorised_call_def using i(1,2,3) g by blast
  then show ?thesis
    using a' decision_def by blast
qed

lemma dispatch_run: "fst (dispatch U opts ts iv w) = Some r \<Longrightarrow> \<exists>site. fst (run_dispatch U opts ts iv w) = Some (r, site)"
  by (cases "run_dispatch U opts ts iv w") (auto simp: dispatch_def andThen_def split: option.splits)

lemma executed_path:
  assumes "fst (dispatch U opts ts iv w) = Some r" and "dr_executed r"
  obtains tool allowed parsed ctx pctx w1 where
    "map_of ts (fromWireName (iv_name iv)) = Some tool"
    "optional (map_option (\<lambda>f. f (iv_taskId iv)) (ro_resolveAllowedTools opts)) None w = (Some allowed, w1)"
    "\<not> outside_tools allowed (fromWireName (iv_name iv))" "at_inputSchema tool (iv_arguments iv) = Inr parsed"
    "dr_policy r = Some (evaluatePolicy U
      (policy_request_of tool iv (classify tool parsed ctx) (xc_currentUrl ctx)) pctx)"
    "dr_risk r = call_risk tool (classify tool parsed ctx)"
    "authorised_call U opts iv (classify tool parsed ctx) (evaluatePolicy U
      (policy_request_of tool iv (classify tool parsed ctx) (xc_currentUrl ctx)) pctx)"
proof -
  obtain site where run: "fst (run_dispatch U opts ts iv w) = Some (r, site)"
    using dispatch_run [OF assms(1)] by blast
  obtain tool allowed parsed w1 where t: "map_of ts (fromWireName (iv_name iv)) = Some tool"
      "optional (map_option (\<lambda>f. f (iv_taskId iv)) (ro_resolveAllowedTools opts)) None w = (Some allowed, w1)"
      "\<not> outside_tools allowed (fromWireName (iv_name iv))"
      "at_inputSchema tool (iv_arguments iv) = Inr parsed"
      "fst (scoped_stage U opts tool iv parsed w1) = Some (r, site)"
    using run_executed [OF run assms(2)] by blast
  obtain w2 where c: "fst (context_effects U opts tool iv parsed w2) = Some (r, site)"
    using scoped_executed [OF t(5) assms(2)] by blast
  obtain ctx w3 where "fst (decided_stage U opts tool iv parsed ctx w3) = Some (r, site)"
    using context_decided [OF c] by blast
  from decided_authorised [OF this assms(2)] that [OF t(1-4)] show thesis by blast
qed

subsection \<open>Refusals touch no tool\<close>

text \<open>The same tools with other bodies.\<close>

definition with_bodies ::
  "(string \<Rightarrow> json \<Rightarrow> execution_context \<Rightarrow> 'w \<Rightarrow>
     (tool_failure + execution_result) \<times> (evidence_reference \<times> evidence_payload) list \<times> 'w) \<Rightarrow>
   'w tools \<Rightarrow> 'w tools" where
  "with_bodies body ts = map (\<lambda>(n, t). (n, t\<lparr>at_execute := body n\<rparr>)) ts"

lemma with_bodies_lookup:
  "map_of (with_bodies body ts) n = map_option (\<lambda>t. t\<lparr>at_execute := body n\<rparr>) (map_of ts n)"
  by (induction ts) (auto simp: with_bodies_def)

lemma andThen_eqI:
  "(\<And>a w'. m w = (Some a, w') \<Longrightarrow> k a w' = k' a w') \<Longrightarrow> andThen m k w = andThen m k' w"
  by (auto simp: andThen_def split: prod.split option.split)

lemma andThen_eqM: "m w = m' w \<Longrightarrow> andThen m k w = andThen m' k w"
  by (simp add: andThen_def)

lemma andThen_yields: "fst (andThen m (\<lambda>a. yields (f a)) w) = map_option f (fst (m w))"
  by (simp add: andThen_def yields_def split: prod.split option.split)

lemma andThen_prem:
  "m w = (Some a, w') \<Longrightarrow> fst (k a w') = Some b \<Longrightarrow> fst (andThen m k w) = Some b"
  by (simp add: andThen_def)

lemma execute_executed: "dr_executed (fst (execute_stage opts tool iv parsed ctx risk decision w))"
  by (simp add: execute_stage_def executed_result_def Let_def split: prod.split sum.split)

lemma approved_inert:
  assumes "\<And>r. fst (approved_stage opts tool iv parsed ctx cl decision effective outcome w) = Some r \<Longrightarrow>
    \<not> dr_executed r"
  shows "approved_stage opts (tool\<lparr>at_execute := body\<rparr>) iv parsed ctx cl decision effective outcome w =
    approved_stage opts tool iv parsed ctx cl decision effective outcome w"
proof (cases "po_granted outcome \<and> \<not> ro_aborted opts w")
  case True
  then have "fst (approved_stage opts tool iv parsed ctx cl decision effective outcome w) =
      Some (fst (execute_stage opts tool iv parsed ctx (call_risk tool cl) decision w))"
    by (simp add: approved_stage_def case_prod_beta)
  from assms [OF this] show ?thesis by (simp add: execute_executed)
next
  case False
  then show ?thesis by (auto simp: approved_stage_def call_risk_def)
qed

lemma approval_inert:
  assumes "\<And>r. fst (approval_stage U opts tool iv parsed ctx cl decision effective w) = Some r \<Longrightarrow> \<not> dr_executed r"
  shows "approval_stage U opts (tool\<lparr>at_execute := body\<rparr>) iv parsed ctx cl decision effective w =
    approval_stage U opts tool iv parsed ctx cl decision effective w"
proof -
  have same: "approval_input_of opts (tool\<lparr>at_execute := body\<rparr>) = approval_input_of opts tool"
      "at_siteAuthorization (tool\<lparr>at_execute := body\<rparr>) = at_siteAuthorization tool"
    by (simp_all add: approval_input_of_def fun_eq_iff)
  show ?thesis
    unfolding approval_stage_def Let_def same
  proof (intro andThen_eqI approved_inert, goal_cases)
    case (1 outcome w' r)
    then have "fst (approval_stage U opts tool iv parsed ctx cl decision effective w) = Some r"
      unfolding approval_stage_def Let_def by (intro andThen_prem)
    with assms show ?case by blast
  qed
qed

lemma decided_inert:
  assumes "\<And>r site. fst (decided_stage U opts tool iv parsed ctx w) = Some (r, site) \<Longrightarrow> \<not> dr_executed r"
  shows "decided_stage U opts (tool\<lparr>at_execute := body\<rparr>) iv parsed ctx w =
    decided_stage U opts tool iv parsed ctx w"
proof -
  have same: "classify (tool\<lparr>at_execute := body\<rparr>) parsed ctx = classify tool parsed ctx"
      "policy_request_of (tool\<lparr>at_execute := body\<rparr>) iv cl url = policy_request_of tool iv cl url"
      "at_siteAuthorization (tool\<lparr>at_execute := body\<rparr>) = at_siteAuthorization tool" for cl url
    by (simp_all add: classify_def policy_request_of_def call_risk_def)
  show ?thesis
    unfolding decided_stage_def Let_def same
  proof (rule andThen_eqI, rule andThen_eqI, rule andThen_eqM, rule approval_inert, goal_cases)
    case (1 pctx w1 effective w2 r)
    have "fst (decided_stage U opts tool iv parsed ctx w) =
        Some (r, case resolveSiteScope (at_siteAuthorization tool) (xc_currentUrl ctx) (classify tool parsed ctx) of
            None \<Rightarrow> None | Some url \<Rightarrow> siteForUrl U url)"
      unfolding decided_stage_def Let_def
      by (rule andThen_prem, rule 1(1), rule andThen_prem, rule 1(2)) (simp add: andThen_yields 1(3))
    with assms show ?case by blast
  qed
qed

lemma context_inert:
  assumes "\<And>r site. fst (context_effects U opts tool iv parsed w) = Some (r, site) \<Longrightarrow> \<not> dr_executed r"
  shows "context_effects U opts (tool\<lparr>at_execute := body\<rparr>) iv parsed w =
    context_effects U opts tool iv parsed w"
  unfolding context_effects_def
proof (intro andThen_eqI decided_inert, goal_cases)
  case (1 tabs w1 grp w2 url w3 r site)
  then have "fst (context_effects U opts tool iv parsed w) = Some (r, site)"
    unfolding context_effects_def by (intro andThen_prem)
  with assms show ?case by blast
qed

lemma scoped_inert:
  assumes "\<And>r site. fst (scoped_stage U opts tool iv parsed w) = Some (r, site) \<Longrightarrow> \<not> dr_executed r"
  shows "scoped_stage U opts (tool\<lparr>at_execute := body\<rparr>) iv parsed w = scoped_stage U opts tool iv parsed w"
  unfolding scoped_stage_def
proof (rule andThen_eqI)
  fix verdict w'
  assume m: "membership opts iv (publish opts iv w) = (Some verdict, w')"
  show "(case verdict of
      Inl reason \<Rightarrow> yields (refuse iv (with_message POLICY_BLOCKED_ERROR reason reason)
        (at_risk (tool\<lparr>at_execute := body\<rparr>)), None)
    | Inr _ \<Rightarrow> context_effects U opts (tool\<lparr>at_execute := body\<rparr>) iv parsed) w' =
    (case verdict of
      Inl reason \<Rightarrow> yields (refuse iv (with_message POLICY_BLOCKED_ERROR reason reason) (at_risk tool), None)
    | Inr _ \<Rightarrow> context_effects U opts tool iv parsed) w'"
  proof (cases verdict)
    case (Inr u)
    have n: "\<not> dr_executed r" if "fst (context_effects U opts tool iv parsed w') = Some (r, site)" for r site
      using that m Inr assms [of r site] by (simp add: scoped_stage_def andThen_def)
    show ?thesis
      by (simp add: Inr context_inert [OF n])
  qed simp
qed

lemma run_inert:
  assumes "\<And>r site. fst (run_dispatch U opts ts iv w) = Some (r, site) \<Longrightarrow> \<not> dr_executed r"
  shows "run_dispatch U opts (with_bodies body ts) iv w = run_dispatch U opts ts iv w"
proof (cases "map_of ts (fromWireName (iv_name iv))")
  case None
  then show ?thesis by (simp add: run_dispatch_def with_bodies_lookup)
next
  case (Some tool)
  let ?allowed = "optional (map_option (\<lambda>f. f (iv_taskId iv)) (ro_resolveAllowedTools opts)) None"
  have "scoped_stage U opts (tool\<lparr>at_execute := body (fromWireName (iv_name iv))\<rparr>) iv parsed w' =
      scoped_stage U opts tool iv parsed w'"
    if "?allowed w = (Some allowed, w')" "\<not> outside_tools allowed (fromWireName (iv_name iv))"
      "at_inputSchema tool (iv_arguments iv) = Inr parsed" for allowed parsed w'
  proof (rule scoped_inert)
    fix r site
    assume "fst (scoped_stage U opts tool iv parsed w') = Some (r, site)"
    then have "fst (run_dispatch U opts ts iv w) = Some (r, site)"
      using that by (simp add: run_dispatch_def Let_def Some andThen_def)
    then show "\<not> dr_executed r" by (rule assms)
  qed
  then show ?thesis
    by (auto simp: run_dispatch_def Let_def Some with_bodies_lookup intro!: andThen_eqI split: sum.split)
qed

subsection \<open>Names and registration\<close>

lemma takeWhile_neq: "c \<notin> set xs \<Longrightarrow> takeWhile (\<lambda>x. x \<noteq> c) (xs @ c # ys) = xs"
  by (induction xs) auto

lemma map_id_without: "c \<notin> set xs \<Longrightarrow> map (\<lambda>x. if x = c then d else x) xs = xs"
  by (induction xs) auto

lemma wire_name_back:
  assumes "CHR ''.'' \<notin> set namespace" and "CHR ''_'' \<notin> set namespace"
    and "CHR ''.'' \<notin> set rest" and "\<not> prefix MCP_WIRE_PREFIX (namespace @ ''_'' @ rest)"
  shows "fromWireName (toWireName (namespace @ ''.'' @ rest)) = namespace @ ''.'' @ rest"
proof -
  have wire: "toWireName (namespace @ ''.'' @ rest) = namespace @ CHR ''_'' # rest"
    using assms(1,3) by (simp add: toWireName_def map_id_without)
  have "CHR ''.'' \<notin> set (namespace @ CHR ''_'' # rest)"
    using assms(1,3) by simp
  then show ?thesis
    using assms(4) unfolding wire fromWireName_def by (simp add: takeWhile_neq [OF assms(2)] Let_def)
qed

lemma register_lookup:
  "register tool ts = Some ts' \<Longrightarrow>
   map_of ts (at_name tool) = None \<and>
   map_of ts' n = (if n = at_name tool then Some tool else map_of ts n)"
  by (auto simp: register_def map_add_def split: if_splits option.splits)

lemma registerAll_keeps:
  "registerAll tools ts = Some ts' \<Longrightarrow> map_of ts n = Some t \<Longrightarrow> map_of ts' n = Some t"
proof (induction tools arbitrary: ts)
  case (Cons a tools)
  then obtain ts1 where r: "register a ts = Some ts1" "registerAll tools ts1 = Some ts'"
    by (auto split: option.splits)
  have "map_of ts1 n = Some t"
    using register_lookup [OF r(1), of n] Cons.prems(2) by auto
  with Cons.IH [OF r(2)] show ?case .
qed simp

lemma registerAll_finds:
  "registerAll tools ts = Some ts' \<Longrightarrow> tool \<in> set tools \<Longrightarrow> map_of ts' (at_name tool) = Some tool"
proof (induction tools arbitrary: ts)
  case (Cons a tools)
  then obtain ts1 where r: "register a ts = Some ts1" "registerAll tools ts1 = Some ts'"
    by (auto split: option.splits)
  with Cons show ?case
    using registerAll_keeps [OF r(2), of "at_name a" a] register_lookup [OF r(1), of "at_name a"] by auto
qed simp

subsection \<open>Properties\<close>

text \<open>A registry with one tool, a skip-mode policy and the worker's site-policy port.\<close>

definition sample_tool :: "unit worker agent_tool" where
  "sample_tool =
     \<lparr>at_name = ''mail.send'', at_description = [], at_inputSchema = (\<lambda>v. Inr v), at_parameters = JObj [],
      at_risk = R3, at_siteAuthorization = scope_none, at_timeoutMs = 1000,
      at_classify = Some (\<lambda>_ _. no_classification\<lparr>cl_egress := Some
        \<lparr>el_destination = connectorDestination https_parser ''mail'' ''https://mail.test/send'' None None,
         el_carrier = None, el_payload = JUndef\<rparr>, cl_summary := Some ''send''\<rparr>),
      at_execute = (\<lambda>_ _ w.
        (Inr \<lparr>xe_success = True, xe_data = JObj [(''password'', JStr ''hunter2'')], xe_error = None,
              xe_taint = None\<rparr>, [], w))\<rparr>"

definition sample_registry :: "permission_response \<Rightarrow> unit worker registry_options" where
  "sample_registry reply =
     \<lparr>ro_permissionEngine = sample_options (\<lambda>_ w. (Some reply, w)),
      ro_loadPolicyContext = (\<lambda>_. yields sample_context), ro_evidenceStore = None,
      ro_resolveTabUrl = None, ro_checkWorkspaceMember = None, ro_resolveWorkspaceTabs = None,
      ro_resolveAllowedTools = Some (\<lambda>_. yields (Some [''mail.send''])),
      ro_resolveWorkspaceGroupId = None,
      ro_egress = Some \<lparr>gp_consent = (\<lambda>_. newConsentStore DEFAULT_TTL_MS), gp_setConsent = (\<lambda>_ w. w),
        gp_record = (\<lambda>_. yields ())\<rparr>,
      ro_publish = None, ro_observers = [], ro_describeCall = (\<lambda>name _. name),
      ro_now = (\<lambda>w. (0, w)), ro_aborted = (\<lambda>_. False)\<rparr>"

definition sample_invocation :: tool_invocation where
  "sample_invocation =
     \<lparr>iv_toolCallId = ''c1'', iv_taskId = ''t1'', iv_sessionId = ''s1'', iv_name = ''mail_send'',
      iv_arguments = JObj [], iv_tabId = None, iv_plannedUrl = None,
      iv_taintState = Some KNOWN_UNTAINTED, iv_taintSalt = Some ''aa'', iv_saltEpoch = Some 1,
      iv_taintSignature = Some ''sig''\<rparr>"

lemma sample_executes:
  "\<exists>r. fst (dispatch https_parser (sample_registry approve_once) [(''mail.send'', sample_tool)]
      sample_invocation sample_worker) = Some r \<and> dr_executed r \<and> dr_risk r = R3 \<and>
    te_result (dr_envelope r) = JObj [(''password'', JStr REDACTED)]"
proof -
  have "map_option (\<lambda>r. (dr_executed r, dr_risk r, te_result (dr_envelope r)))
      (fst (dispatch https_parser (sample_registry approve_once) [(''mail.send'', sample_tool)]
         sample_invocation sample_worker)) = Some (True, R3, JObj [(''password'', JStr REDACTED)])"
    by code_simp
  then show ?thesis by auto
qed

text \<open>
  C27. A dispatched call is executed only when everything in front of it agreed: the name is a registered
  tool, in the list the task is restricted to, the arguments passed its schema, the policy engine did
  not deny, the egress gate did not deny, and where either of them asked, the person was asked about
  this tool of this task and did not decline. The decision reported is the policy engine's own.
\<close>

theorem dispatch_executes_authorised:
  assumes "fst (dispatch U opts ts iv w) = Some r" and "dr_executed r"
  shows "\<exists>tool parsed ctx pctx decision.
    map_of ts (fromWireName (iv_name iv)) = Some tool \<and> at_inputSchema tool (iv_arguments iv) = Inr parsed \<and>
    (\<forall>f names. ro_resolveAllowedTools opts = Some f \<longrightarrow> fst (f (iv_taskId iv) w) = Some (Some names) \<longrightarrow>
       names = [] \<or> fromWireName (iv_name iv) \<in> set names) \<and>
    decision = evaluatePolicy U
      (policy_request_of tool iv (classify tool parsed ctx) (xc_currentUrl ctx)) pctx \<and>
    dr_policy r = Some decision \<and> authorised_call U opts iv (classify tool parsed ctx) decision"
proof -
  obtain tool allowed parsed ctx pctx w1 where t: "map_of ts (fromWireName (iv_name iv)) = Some tool"
      "at_inputSchema tool (iv_arguments iv) = Inr parsed"
    and allowed:
      "optional (map_option (\<lambda>f. f (iv_taskId iv)) (ro_resolveAllowedTools opts)) None w = (Some allowed, w1)"
      "\<not> outside_tools allowed (fromWireName (iv_name iv))"
    and d: "dr_policy r = Some (evaluatePolicy U
        (policy_request_of tool iv (classify tool parsed ctx) (xc_currentUrl ctx)) pctx)"
      "authorised_call U opts iv (classify tool parsed ctx) (evaluatePolicy U
        (policy_request_of tool iv (classify tool parsed ctx) (xc_currentUrl ctx)) pctx)"
    by (rule executed_path [OF assms]) (rule that, assumption+)
  have "names = [] \<or> fromWireName (iv_name iv) \<in> set names"
    if "ro_resolveAllowedTools opts = Some f" "fst (f (iv_taskId iv) w) = Some (Some names)" for f names
    using allowed that by (simp add: optional_def outside_tools_def)
  with t d show ?thesis by blast
qed

theorem dispatch_executes_authorised_witness:
  "\<exists>r decision. fst (dispatch https_parser (sample_registry approve_once) [(''mail.send'', sample_tool)]
      sample_invocation sample_worker) = Some r \<and> dr_policy r = Some decision \<and> pd_verdict decision \<noteq> DENY"
proof -
  obtain r where r: "fst (dispatch https_parser (sample_registry approve_once) [(''mail.send'', sample_tool)]
      sample_invocation sample_worker) = Some r" "dr_executed r"
    using sample_executes by blast
  from dispatch_executes_authorised [OF this] r(1) show ?thesis
    unfolding authorised_call_def by metis
qed

text \<open>
  C28. Nothing at R3 or above runs without the person: an executed call whose risk, the tool's own or
  the one its arguments raise it to, is R3 or higher, or that the policy engine did not simply allow,
  was put to the person as a question about this tool of this task, while the task was not cancelled,
  and was not declined.
\<close>

theorem dispatch_risky_needs_person:
  assumes "fst (dispatch U opts ts iv w) = Some r" and "dr_executed r"
    and "R3 \<le> dr_risk r \<or> (\<forall>decision. dr_policy r = Some decision \<longrightarrow> pd_verdict decision \<noteq> ALLOW)"
  shows "\<exists>input v. ai_taskId input = iv_taskId iv \<and> ai_tool input = fromWireName (iv_name iv) \<and>
    \<not> ai_aborted input \<and> answer U (ro_permissionEngine opts) input v \<noteq> deny"
proof -
  obtain tool parsed ctx pctx where "map_of ts (fromWireName (iv_name iv)) = Some tool"
    and p: "dr_policy r = Some (evaluatePolicy U
        (policy_request_of tool iv (classify tool parsed ctx) (xc_currentUrl ctx)) pctx)"
      "dr_risk r = call_risk tool (classify tool parsed ctx)"
      "authorised_call U opts iv (classify tool parsed ctx) (evaluatePolicy U
        (policy_request_of tool iv (classify tool parsed ctx) (xc_currentUrl ctx)) pctx)"
    by (rule executed_path [OF assms(1,2)]) (rule that, assumption+)
  then have "pd_verdict (evaluatePolicy U
      (policy_request_of tool iv (classify tool parsed ctx) (xc_currentUrl ctx)) pctx) \<noteq> ALLOW"
    using assms(3)
      confirm_if [of "policy_request_of tool iv (classify tool parsed ctx) (xc_currentUrl ctx)" pctx U]
    by (auto simp: policy_request_of_def)
  then show ?thesis
    using p(3) unfolding authorised_call_def by blast
qed

theorem dispatch_risky_needs_person_witness:
  "\<exists>input v. ai_tool input = ''mail.send'' \<and>
     answer https_parser (ro_permissionEngine (sample_registry approve_once)) input v \<noteq> deny"
proof -
  obtain r where "fst (dispatch https_parser (sample_registry approve_once) [(''mail.send'', sample_tool)]
      sample_invocation sample_worker) = Some r" "dr_executed r" "dr_risk r = R3"
    using sample_executes by blast
  moreover have "fromWireName (iv_name sample_invocation) = ''mail.send''"
    by code_simp
  ultimately show ?thesis
    using dispatch_risky_needs_person [of https_parser "sample_registry approve_once"
        "[(''mail.send'', sample_tool)]" sample_invocation sample_worker r]
    by auto
qed

lemma gate_not_deny:
  assumes "ed_verdict (fst (authorizeEgress U request store)) \<noteq> eg_deny"
    and "ds_channel (er_destination request) \<noteq> ch_none"
  shows "context_stage request = None"
proof (rule ccontr)
  assume "context_stage request \<noteq> None"
  then obtain d where "context_stage request = Some d" by auto
  moreover have "isExternalChannel (ds_channel (er_destination request))"
    using assms(2) by (simp add: isExternalChannel_iff)
  ultimately show False
    using assms(1) context_stage_deny by (auto simp: authorizeEgress_def Let_def)
qed

text \<open>
  C29. No executed call sends a secret through a declared egress. Whatever channel outside the extension
  the tool declares for a call that was executed, the declared payload held nothing the credential
  scan recognises, the destination was identified, and what the task had read was known and sealed
  with a salt; approval by the person does not lift any of this.
\<close>

theorem dispatch_contains_secrets:
  assumes "fst (dispatch U opts ts iv w) = Some r" and "dr_executed r" and "ro_egress opts = Some port"
  shows "\<exists>tool parsed ctx. map_of ts (fromWireName (iv_name iv)) = Some tool \<and>
    at_inputSchema tool (iv_arguments iv) = Inr parsed \<and>
    (\<forall>call. cl_egress (classify tool parsed ctx) = Some call \<longrightarrow> ds_channel (el_destination call) \<noteq> ch_none \<longrightarrow>
       \<not> payloadContainsSecret (el_payload call) \<and> ds_identity (el_destination call) \<noteq> None \<and>
       (\<exists>state. iv_taintState iv = Some state \<and> (\<forall>reason. state \<noteq> UNKNOWN reason)) \<and>
       (\<exists>salt. iv_taintSalt iv = Some salt \<and> salt \<noteq> []))"
proof -
  obtain tool parsed ctx pctx where t: "map_of ts (fromWireName (iv_name iv)) = Some tool"
      "at_inputSchema tool (iv_arguments iv) = Inr parsed"
      "authorised_call U opts iv (classify tool parsed ctx) (evaluatePolicy U
        (policy_request_of tool iv (classify tool parsed ctx) (xc_currentUrl ctx)) pctx)"
    by (rule executed_path [OF assms(1,2)]) (rule that, assumption+)
  have "\<not> payloadContainsSecret (el_payload call) \<and> ds_identity (el_destination call) \<noteq> None \<and>
       (\<exists>state. iv_taintState iv = Some state \<and> (\<forall>reason. state \<noteq> UNKNOWN reason)) \<and>
       (\<exists>salt. iv_taintSalt iv = Some salt \<and> salt \<noteq> [])"
    if c: "cl_egress (classify tool parsed ctx) = Some call" "ds_channel (el_destination call) \<noteq> ch_none" for call
  proof -
    obtain time store where
      "ed_verdict (fst (authorizeEgress U (egress_request_of iv call time) store)) \<noteq> eg_deny"
      using t(3) c(1) assms(3) unfolding authorised_call_def by blast
    from gate_not_deny [OF this] c(2) have "context_stage (egress_request_of iv call time) = None"
      by (simp add: egress_request_of_def)
    then show ?thesis
      using no_payload_no_secret [of "el_payload call"] unfolding context_stage_None
      by (cases "iv_taintState iv"; cases "iv_taintSalt iv")
        (auto simp: egress_request_of_def or_default_def unknownTaint_def)
  qed
  with t show ?thesis by blast
qed

theorem dispatch_contains_secrets_witness:
  "\<exists>state. iv_taintState sample_invocation = Some state \<and> (\<forall>reason. state \<noteq> UNKNOWN reason)"
proof -
  obtain r where "fst (dispatch https_parser (sample_registry approve_once) [(''mail.send'', sample_tool)]
      sample_invocation sample_worker) = Some r" "dr_executed r"
    using sample_executes by blast
  moreover obtain port where "ro_egress (sample_registry approve_once :: unit worker registry_options) = Some port"
    by (simp add: sample_registry_def)
  moreover have "fromWireName (iv_name sample_invocation) = ''mail.send''"
    by code_simp
  moreover have "ds_channel (connectorDestination https_parser ''mail'' ''https://mail.test/send'' None None) \<noteq> ch_none"
    by code_simp
  ultimately show ?thesis
    using dispatch_contains_secrets [of https_parser "sample_registry approve_once"
        "[(''mail.send'', sample_tool)]" sample_invocation sample_worker r port]
    by (auto simp: sample_tool_def classify_def)
qed

text \<open>The payload of a result: nothing, or a redacted value.\<close>

definition shaped :: "dispatch_result \<Rightarrow> bool" where
  "shaped r \<longleftrightarrow> te_result (dr_envelope r) = JUndef \<or> (\<exists>data. te_result (dr_envelope r) = redactValue 0 data)"

lemma shaped_error [simp]:
  "shaped (refuse iv error risk)"
  "te_result (errorEnvelope i error) = JUndef"
  by (simp_all add: shaped_def refuse_def errorEnvelope_def)

lemma shaped_executed: "shaped (fst (execute_stage opts tool iv parsed ctx risk decision w))"
  by (auto simp: execute_stage_def executed_result_def shaped_def successEnvelope_def Let_def
      split: prod.split sum.split)

lemma shaped_approved:
  "fst (approved_stage opts tool iv parsed ctx cl decision effective outcome w) = Some r \<Longrightarrow> shaped r"
  by (auto simp: approved_stage_def case_prod_beta shaped_executed split: if_splits)
    (simp_all add: shaped_def)

lemma shaped_run: "fst (run_dispatch U opts ts iv w) = Some (r, site) \<Longrightarrow> shaped r"
proof -
  have "shaped r" if "fst (decided_stage U opts tool iv parsed ctx w) = Some (r, site)" for tool parsed ctx w
    using decided_executed [OF that] shaped_approved by (auto simp: approval_stage_def Let_def andThen_Some)
  then have c: "shaped r" if "fst (context_effects U opts tool iv parsed w) = Some (r, site)" for tool parsed w
    using context_decided [OF that] by blast
  have s: "shaped r" if h: "fst (scoped_stage U opts tool iv parsed w) = Some (r, site)" for tool parsed w
  proof -
    obtain verdict w' where m: "membership opts iv (publish opts iv w) = (Some verdict, w')"
      using h by (cases "membership opts iv (publish opts iv w)"; cases "fst (membership opts iv (publish opts iv w))")
        (auto simp: scoped_stage_def andThen_def)
    with h show ?thesis
      by (cases verdict) (auto simp: scoped_stage_def andThen_def intro: c)
  qed
  show "fst (run_dispatch U opts ts iv w) = Some (r, site) \<Longrightarrow> shaped r"
    by (auto simp: run_dispatch_def Let_def andThen_Some intro: s split: option.splits if_splits sum.splits)
qed

lemma dispatch_result_shape:
  "fst (dispatch U opts ts iv w) = Some r \<Longrightarrow>
   te_result (dr_envelope r) = JUndef \<or> (\<exists>data. te_result (dr_envelope r) = redactValue 0 data)"
  using dispatch_run [of U opts ts iv w r] shaped_run [of U opts ts iv w r] by (auto simp: shaped_def)

text \<open>
  C30. A refused call touches no tool. Where dispatch refuses or rejects, what it returns and the world
  it leaves are the same whatever the bodies of the registered tools are; and every result, refused or
  executed, carries only the redaction mark under a sensitive field name, at any depth.
\<close>

theorem dispatch_refusal_inert:
  "((\<forall>r. fst (dispatch U opts ts iv w) = Some r \<longrightarrow> \<not> dr_executed r) \<longrightarrow>
      dispatch U opts (with_bodies body ts) iv w = dispatch U opts ts iv w) \<and>
   (\<forall>r path key v. fst (dispatch U opts ts iv w) = Some r \<longrightarrow>
      value_at (te_result (dr_envelope r)) (path @ [Key key]) = Some v \<longrightarrow> isSensitiveFieldName key \<longrightarrow>
      v = JStr REDACTED)"
proof (intro conjI impI allI)
  assume refused: "\<forall>r. fst (dispatch U opts ts iv w) = Some r \<longrightarrow> \<not> dr_executed r"
  have "\<not> dr_executed r" if h: "fst (run_dispatch U opts ts iv w) = Some (r, site)" for r site
  proof -
    obtain w' where "run_dispatch U opts ts iv w = (Some (r, site), w')"
      using h by (cases "run_dispatch U opts ts iv w") auto
    then have "fst (dispatch U opts ts iv w) = Some r"
      by (simp add: dispatch_def andThen_def)
    with refused show ?thesis by blast
  qed
  then show "dispatch U opts (with_bodies body ts) iv w = dispatch U opts ts iv w"
    unfolding dispatch_def by (intro andThen_eqM run_inert)
next
  fix r path key v
  assume r: "fst (dispatch U opts ts iv w) = Some r"
    and v: "value_at (te_result (dr_envelope r)) (path @ [Key key]) = Some v" "isSensitiveFieldName key"
  show "v = JStr REDACTED"
    using redact_hides_fields [OF _ v(2)] v(1) dispatch_result_shape [OF r] value_at_undef by auto
qed

theorem dispatch_refusal_inert_witness:
  "dispatch https_parser (sample_registry deny)
      (with_bodies (\<lambda>_ _ _ w. (Inl Thrown_Timeout, [], w)) [(''mail.send'', sample_tool)])
      sample_invocation sample_worker =
   dispatch https_parser (sample_registry deny) [(''mail.send'', sample_tool)] sample_invocation sample_worker"
proof -
  have "map_option dr_executed (fst (dispatch https_parser (sample_registry deny)
      [(''mail.send'', sample_tool)] sample_invocation sample_worker)) = Some False"
    by code_simp
  then have "\<forall>r. fst (dispatch https_parser (sample_registry deny) [(''mail.send'', sample_tool)]
      sample_invocation sample_worker) = Some r \<longrightarrow> \<not> dr_executed r"
    by auto
  then show ?thesis
    by (rule mp [OF conjunct1 [OF dispatch_refusal_inert]])
qed

end
