(* ===== verification/PersistenceHealth.thy ===== *)
theory PersistenceHealth
  imports Storage Interfaces
begin

text \<open>
  \<open>src/storage/persistence-health.ts\<close>: the record of how far stored state can be trusted, which
  decides whether a task may start or resume.

  A stored value is what \<open>chrome.storage\<close> returns under the key: an index whose entries may be damaged
  (a field of another type is \<open>None\<close>, an entry may be \<open>null\<close>), \<open>null\<close>, or anything else. Every write is
  given with whether it succeeded, and every read with whether it did; the in-memory floor is a map.
  The count \<open>reports\<close> is a number wherever the entry exists.
\<close>

datatype persistence_state = HEALTHY | DEGRADED | CORRUPT | RECOVERY_REQUIRED | IRRECOVERABLE

definition PERSISTENCE_STATES :: "persistence_state list" where
  "PERSISTENCE_STATES = [HEALTHY, DEGRADED, CORRUPT, RECOVERY_REQUIRED, IRRECOVERABLE]"

fun severityOf :: "persistence_state \<Rightarrow> nat" where
  "severityOf HEALTHY = 0"
| "severityOf DEGRADED = 1"
| "severityOf CORRUPT = 2"
| "severityOf RECOVERY_REQUIRED = 3"
| "severityOf IRRECOVERABLE = 4"

datatype health_domain = task_security | audit_domain | storage_domain

definition HEALTH_DOMAINS :: "health_domain list" where
  "HEALTH_DOMAINS = [task_security, audit_domain, storage_domain]"

definition GATING_DOMAINS :: "health_domain list" where
  "GATING_DOMAINS = [task_security, storage_domain]"

record health_record =
  hr_domain :: health_domain
  hr_state :: persistence_state
  hr_reason :: string
  hr_since :: int
  hr_reports :: int

text \<open>A stored entry, field by field as far as each has the expected type.\<close>

record health_entry =
  he_domain_field :: "health_domain option"
  he_state_field :: "persistence_state option"
  he_reason_field :: "string option"
  he_since_field :: "int option"
  he_reports_field :: int

datatype health_value =
    Health_Index "health_entry option list"
  | Health_Null
  | Health_Malformed

record health_snapshot =
  hs_records :: "health_record list"
  hs_gating :: persistence_state
  hs_blocked :: bool

record health_store =
  ht_area :: "health_value storage_area"
  ht_floor :: "health_domain \<Rightarrow> health_record option"

definition HEALTH_KEY :: string where
  "HEALTH_KEY = ''persistence-health''"

definition healthy :: "health_domain \<Rightarrow> int \<Rightarrow> health_record" where
  "healthy domain now =
     \<lparr>hr_domain = domain, hr_state = HEALTHY, hr_reason = ''nothing reported'', hr_since = now,
      hr_reports = 0\<rparr>"

text \<open>\<open>isHealthRecord\<close>, with the record it recognises.\<close>

definition isHealthRecord :: "health_entry \<Rightarrow> health_record option" where
  "isHealthRecord e =
     (case (he_domain_field e, he_state_field e, he_reason_field e, he_since_field e) of
        (Some domain, Some state, Some reason, Some since) \<Rightarrow>
          Some \<lparr>hr_domain = domain, hr_state = state, hr_reason = reason, hr_since = since,
                hr_reports = he_reports_field e\<rparr>
      | _ \<Rightarrow> None)"

definition entry_of :: "health_record \<Rightarrow> health_entry" where
  "entry_of r =
     \<lparr>he_domain_field = Some (hr_domain r), he_state_field = Some (hr_state r),
      he_reason_field = Some (hr_reason r), he_since_field = Some (hr_since r),
      he_reports_field = hr_reports r\<rparr>"

text \<open>
  \<open>records.find(...)\<close>: reading a field of \<open>null\<close> throws, so the scan stops there (outer \<open>None\<close>).
\<close>

fun find_entry :: "health_domain \<Rightarrow> health_entry option list \<Rightarrow> health_entry option option" where
  "find_entry domain [] = Some None"
| "find_entry domain (None # entries) = None"
| "find_entry domain (Some e # entries) =
     (if he_domain_field e = Some domain then Some (Some e) else find_entry domain entries)"

text \<open>\<open>indexOf\<close> of a state that is none of the known ones is \<open>-1\<close>.\<close>

definition entry_severity :: "health_entry \<Rightarrow> int" where
  "entry_severity e = (case he_state_field e of None \<Rightarrow> - 1 | Some s \<Rightarrow> int (severityOf s))"

text \<open>A traversal of all entries throws where one of them is \<open>null\<close>.\<close>

definition all_present :: "health_entry option list \<Rightarrow> health_entry list option" where
  "all_present entries = (if None \<in> set entries then None else Some (map the entries))"

subsection \<open>Reporting\<close>

text \<open>The callback of \<open>update\<close> in \<open>report\<close>; \<open>None\<close> where it throws.\<close>

definition raise_entries ::
  "health_domain \<Rightarrow> persistence_state \<Rightarrow> string \<Rightarrow> int \<Rightarrow> health_entry option list \<Rightarrow>
   health_entry option list option" where
  "raise_entries domain state reason time entries =
     (case find_entry domain entries of
        None \<Rightarrow> None
      | Some existing \<Rightarrow>
          (case all_present entries of
             None \<Rightarrow> None
           | Some present \<Rightarrow>
               if (case existing of None \<Rightarrow> False | Some e \<Rightarrow> int (severityOf state) \<le> entry_severity e) then
                 Some (map Some
                   (map (\<lambda>e. if he_domain_field e = Some domain
                             then e\<lparr>he_reports_field := he_reports_field e + 1\<rparr> else e) present))
               else
                 Some (map Some
                   (filter (\<lambda>e. he_domain_field e \<noteq> Some domain) present @
                    [\<lparr>he_domain_field = Some domain, he_state_field = Some state,
                      he_reason_field = Some reason,
                      he_since_field =
                        (case existing of None \<Rightarrow> Some time | Some e \<Rightarrow> he_since_field e),
                      he_reports_field =
                        (case existing of None \<Rightarrow> 0 | Some e \<Rightarrow> he_reports_field e) + 1\<rparr>]))))"

definition current_index :: "health_value storage_area \<Rightarrow> health_entry option list option" where
  "current_index area =
     (case area_get area HEALTH_KEY of
        None \<Rightarrow> Some []
      | Some Health_Null \<Rightarrow> Some []
      | Some Health_Malformed \<Rightarrow> None
      | Some (Health_Index entries) \<Rightarrow> Some entries)"

definition update_index ::
  "bool \<Rightarrow> (health_entry option list \<Rightarrow> health_entry option list option) \<Rightarrow>
   health_value storage_area \<Rightarrow> health_value storage_area" where
  "update_index works change area =
     (case current_index area of
        None \<Rightarrow> area
      | Some entries \<Rightarrow>
          (case change entries of
             None \<Rightarrow> area
           | Some changed \<Rightarrow>
               if works then area_set HEALTH_KEY (Health_Index changed) area else area))"

definition raise_floor ::
  "health_domain \<Rightarrow> persistence_state \<Rightarrow> string \<Rightarrow> int \<Rightarrow>
   (health_domain \<Rightarrow> health_record option) \<Rightarrow> health_domain \<Rightarrow> health_record option" where
  "raise_floor domain state reason time level =
     (case level domain of
        None \<Rightarrow>
          level(domain \<mapsto> \<lparr>hr_domain = domain, hr_state = state, hr_reason = reason, hr_since = time,
                            hr_reports = 1\<rparr>)
      | Some before \<Rightarrow>
          if severityOf (hr_state before) < severityOf state then
            level(domain \<mapsto> \<lparr>hr_domain = domain, hr_state = state, hr_reason = reason,
                              hr_since = hr_since before, hr_reports = hr_reports before + 1\<rparr>)
          else level)"

definition report ::
  "health_domain \<Rightarrow> persistence_state \<Rightarrow> string \<Rightarrow> int \<Rightarrow> bool \<Rightarrow> health_store \<Rightarrow> health_store" where
  "report domain state reason time works s =
     s\<lparr>ht_floor := raise_floor domain state reason time (ht_floor s),
       ht_area := update_index works (raise_entries domain state reason time) (ht_area s)\<rparr>"

subsection \<open>Reading\<close>

text \<open>The persisted records, and the reason where reading failed.\<close>

definition read_records ::
  "bool \<Rightarrow> health_value storage_area \<Rightarrow> health_entry option list \<times> string option" where
  "read_records works area =
     (if \<not> works then ([], Some ''health could not be read'')
      else
        (case area_get area HEALTH_KEY of
           None \<Rightarrow> ([], None)
         | Some (Health_Index entries) \<Rightarrow> (entries, None)
         | Some _ \<Rightarrow> ([], Some ''the health record could not be understood'')))"

definition worse_record :: "health_record \<Rightarrow> health_record \<Rightarrow> health_record" where
  "worse_record a b = (if severityOf (hr_state a) < severityOf (hr_state b) then b else a)"

definition candidates_for ::
  "health_domain \<Rightarrow> health_entry option \<Rightarrow> (health_domain \<Rightarrow> health_record option) \<Rightarrow> string option \<Rightarrow>
   int \<Rightarrow> health_record list" where
  "candidates_for domain found level failed time =
     (case found of None \<Rightarrow> [] | Some e \<Rightarrow> (case isHealthRecord e of None \<Rightarrow> [] | Some r \<Rightarrow> [r])) @
     (case level domain of None \<Rightarrow> [] | Some r \<Rightarrow> [r]) @
     (case failed of
        None \<Rightarrow> []
      | Some reason \<Rightarrow>
          if domain = storage_domain then
            [\<lparr>hr_domain = domain, hr_state = IRRECOVERABLE, hr_reason = reason, hr_since = time,
              hr_reports = 1\<rparr>]
          else [])"

definition domain_record ::
  "health_domain \<Rightarrow> health_entry option \<Rightarrow> (health_domain \<Rightarrow> health_record option) \<Rightarrow> string option \<Rightarrow>
   int \<Rightarrow> health_record" where
  "domain_record domain found level failed time =
     (case candidates_for domain found level failed time of
        [] \<Rightarrow> healthy domain time
      | c # cs \<Rightarrow> foldl worse_record c cs)"

definition worse_state :: "persistence_state \<Rightarrow> persistence_state \<Rightarrow> persistence_state" where
  "worse_state a b = (if severityOf a < severityOf b then b else a)"

definition gating_of :: "health_record list \<Rightarrow> persistence_state" where
  "gating_of records =
     foldl (\<lambda>worst r. worse_state worst (hr_state r)) HEALTHY
       (filter (\<lambda>r. hr_domain r \<in> set GATING_DOMAINS) records)"

text \<open>\<open>None\<close> where a \<open>null\<close> entry makes \<open>find\<close> throw, which leaves \<open>snapshot\<close>.\<close>

definition snapshot :: "int \<Rightarrow> bool \<Rightarrow> health_store \<Rightarrow> health_snapshot option" where
  "snapshot time works s =
     (let (entries, failed) = read_records works (ht_area s)
      in case those (map (\<lambda>d. find_entry d entries) HEALTH_DOMAINS) of
           None \<Rightarrow> None
         | Some found \<Rightarrow>
             let records =
                   map2 (\<lambda>d e. domain_record d e (ht_floor s) failed time) HEALTH_DOMAINS found;
                 gating = gating_of records
             in Some \<lparr>hs_records = records, hs_gating = gating,
                      hs_blocked = severityOf DEGRADED \<le> severityOf gating\<rparr>)"

definition blocksExecution :: "int \<Rightarrow> bool \<Rightarrow> health_store \<Rightarrow> bool option" where
  "blocksExecution time works s = map_option hs_blocked (snapshot time works s)"

definition drop_domain :: "health_domain \<Rightarrow> health_entry option list \<Rightarrow> health_entry option list option" where
  "drop_domain domain entries =
     (case all_present entries of
        None \<Rightarrow> None
      | Some present \<Rightarrow> Some (map Some (filter (\<lambda>e. he_domain_field e \<noteq> Some domain) present)))"

definition acknowledge :: "health_domain \<Rightarrow> bool \<Rightarrow> health_store \<Rightarrow> health_store" where
  "acknowledge domain works s =
     s\<lparr>ht_floor := (ht_floor s)(domain := None),
       ht_area := update_index works (drop_domain domain) (ht_area s)\<rparr>"

definition acknowledge_snapshot :: "health_domain \<Rightarrow> bool \<Rightarrow> int \<Rightarrow> bool \<Rightarrow> health_store \<Rightarrow> health_snapshot option" where
  "acknowledge_snapshot domain works time reads s = snapshot time reads (acknowledge domain works s)"

subsection \<open>The severity scale\<close>

lemma severityOf_index: "PERSISTENCE_STATES ! severityOf s = s"
  by (cases s) (simp_all add: PERSISTENCE_STATES_def)

lemma severityOf_inj: "severityOf a = severityOf b \<Longrightarrow> a = b"
  by (metis severityOf_index)

interpretation health: severity_scale severityOf worse_state
  by unfold_locales (auto simp: worse_state_def intro: severityOf_inj)

lemma worse_record_state: "hr_state (worse_record a b) = worse_state (hr_state a) (hr_state b)"
  by (simp add: worse_record_def worse_state_def)

lemma foldl_worse_record:
  "hr_state (foldl worse_record c cs) = foldl (\<lambda>w r. worse_state w (hr_state r)) (hr_state c) cs"
  by (induction cs arbitrary: c) (simp_all add: worse_record_state)

lemma worse_record_in: "foldl worse_record c cs \<in> set (c # cs)"
  by (induction cs arbitrary: c) (auto simp: worse_record_def split: if_splits)

lemma domain_record_ge:
  assumes "c \<in> set (candidates_for d found level failed time)"
  shows "severityOf (hr_state c) \<le> severityOf (hr_state (domain_record d found level failed time))"
proof (cases "candidates_for d found level failed time")
  case (Cons x xs)
  then show ?thesis
    using assms health.foldl_worst_ge [of c xs hr_state "hr_state x"]
      health.foldl_worst_ge_start [of "hr_state x" hr_state xs]
    by (auto simp: domain_record_def foldl_worse_record)
qed (use assms in simp)

lemma isHealthRecord_fields:
  "isHealthRecord e = Some r \<Longrightarrow>
   he_domain_field e = Some (hr_domain r) \<and> he_state_field e = Some (hr_state r)"
  by (auto simp: isHealthRecord_def split: option.splits)

lemma candidates_domain:
  assumes "\<forall>e. found = Some e \<longrightarrow> he_domain_field e = Some d" and "\<forall>r. level d = Some r \<longrightarrow> hr_domain r = d"
    and "c \<in> set (candidates_for d found level failed time)"
  shows "hr_domain c = d"
  using assms
  by (auto simp: candidates_for_def dest!: isHealthRecord_fields isHealthRecord_fields [OF sym] split: option.splits if_splits)

lemma domain_record_domain:
  assumes "\<forall>e. found = Some e \<longrightarrow> he_domain_field e = Some d" and "\<forall>r. level d = Some r \<longrightarrow> hr_domain r = d"
  shows "hr_domain (domain_record d found level failed time) = d"
proof -
  have c: "hr_domain c = d" if "c \<in> set (candidates_for d found level failed time)" for c
    using candidates_domain [OF assms that] .
  then show ?thesis
    using worse_record_in
    by (cases "candidates_for d found level failed time")
      (auto simp: domain_record_def healthy_def)
qed

lemma find_entry_domain: "find_entry d entries = Some (Some e) \<Longrightarrow> he_domain_field e = Some d"
  by (induction d entries rule: find_entry.induct) (auto split: if_splits)

text \<open>A floor is keyed by its records' own domain.\<close>

definition floor_ok :: "(health_domain \<Rightarrow> health_record option) \<Rightarrow> bool" where
  "floor_ok level \<longleftrightarrow> (\<forall>d r. level d = Some r \<longrightarrow> hr_domain r = d)"

lemma gating_ge:
  assumes "r \<in> set records" and "hr_domain r \<in> set GATING_DOMAINS"
  shows "severityOf (hr_state r) \<le> severityOf (gating_of records)"
  using assms unfolding gating_of_def
  by (intro health.foldl_worst_ge [of r _ hr_state]) simp

lemma snapshot_fields:
  assumes "snapshot time works s = Some snap" and "read_records works (ht_area s) = (entries, failed)"
  shows "\<exists>found. those (map (\<lambda>d. find_entry d entries) HEALTH_DOMAINS) = Some found \<and>
    hs_records snap = map2 (\<lambda>d e. domain_record d e (ht_floor s) failed time) HEALTH_DOMAINS found"
    and "hs_gating snap = gating_of (hs_records snap)"
    and "hs_blocked snap \<longleftrightarrow> severityOf DEGRADED \<le> severityOf (hs_gating snap)"
  using assms by (auto simp: snapshot_def Let_def split: option.splits)

text \<open>A candidate of a gating domain bounds the gating state of every snapshot from below.\<close>

lemma snapshot_ge:
  assumes "snapshot time works s = Some snap" and "floor_ok (ht_floor s)" and "d \<in> set GATING_DOMAINS"
    and "c \<in> set (candidates_for d found (ht_floor s) failed time)"
    and "read_records works (ht_area s) = (entries, failed)" and "find_entry d entries = Some found"
  shows "severityOf (hr_state c) \<le> severityOf (hs_gating snap)"
proof -
  let ?r = "domain_record d found (ht_floor s) failed time"
  obtain fs where fs: "those (map (\<lambda>d. find_entry d entries) HEALTH_DOMAINS) = Some fs"
      "hs_records snap = map2 (\<lambda>d e. domain_record d e (ht_floor s) failed time) HEALTH_DOMAINS fs"
    using snapshot_fields(1) [OF assms(1,5)] by blast
  have "?r \<in> set (hs_records snap)"
    using fs assms(6) by (cases d) (auto simp: HEALTH_DOMAINS_def split: option.splits)
  moreover have "hr_domain ?r = d"
    using assms(2,6) find_entry_domain by (intro domain_record_domain) (auto simp: floor_ok_def)
  ultimately show ?thesis
    using gating_ge [of ?r "hs_records snap"] domain_record_ge [OF assms(4)] assms(3)
      snapshot_fields(2) [OF assms(1,5)] by (metis le_trans)
qed

lemma snapshot_finds:
  assumes "snapshot time works s = Some snap"
  obtains entries failed found where "read_records works (ht_area s) = (entries, failed)"
    and "find_entry d entries = Some found"
proof -
  obtain entries failed where r: "read_records works (ht_area s) = (entries, failed)"
    by (cases "read_records works (ht_area s)")
  then obtain fs where "those (map (\<lambda>d. find_entry d entries) HEALTH_DOMAINS) = Some fs"
    using snapshot_fields(1) [OF assms] by blast
  then obtain found where "find_entry d entries = Some found"
    by (cases d) (auto simp: HEALTH_DOMAINS_def split: option.splits)
  with r show thesis by (rule that)
qed

lemma snapshot_blocked:
  assumes "snapshot time works s = Some snap"
  shows "hs_blocked snap \<longleftrightarrow> hs_gating snap \<noteq> HEALTHY"
proof -
  obtain entries failed where "read_records works (ht_area s) = (entries, failed)"
    by (cases "read_records works (ht_area s)")
  then show ?thesis
    using snapshot_fields(3) [OF assms] by (cases "hs_gating snap") simp_all
qed

subsection \<open>The floor only rises\<close>

lemma raise_floor_ok: "floor_ok level \<Longrightarrow> floor_ok (raise_floor d state reason time level)"
  by (auto simp: floor_ok_def raise_floor_def split: option.splits)

lemma raise_floor_reached:
  "\<exists>r. raise_floor d state reason time level d = Some r \<and> severityOf state \<le> severityOf (hr_state r)"
  by (auto simp: raise_floor_def split: option.split)

lemma raise_floor_mono:
  "level x = Some r \<Longrightarrow>
   \<exists>r'. raise_floor d state reason time level x = Some r' \<and> severityOf (hr_state r) \<le> severityOf (hr_state r')"
  by (auto simp: raise_floor_def split: option.split)

text \<open>A sequence of reports, each with whether its write succeeded.\<close>

definition report_all ::
  "(health_domain \<times> persistence_state \<times> string \<times> int \<times> bool) list \<Rightarrow> health_store \<Rightarrow> health_store" where
  "report_all reports s = foldl (\<lambda>s (d, state, reason, time, works). report d state reason time works s) s reports"

lemma report_all_floor:
  "floor_ok (ht_floor s) \<Longrightarrow> ht_floor s x = Some r \<Longrightarrow>
   floor_ok (ht_floor (report_all reports s)) \<and>
   (\<exists>r'. ht_floor (report_all reports s) x = Some r' \<and> severityOf (hr_state r) \<le> severityOf (hr_state r'))"
proof (induction reports arbitrary: s r)
  case Nil
  then show ?case by (simp add: report_all_def)
next
  case (Cons a reports)
  obtain d state reason time works where a: "a = (d, state, reason, time, works)" by (cases a)
  obtain r1 where r1: "raise_floor d state reason time (ht_floor s) x = Some r1"
      "severityOf (hr_state r) \<le> severityOf (hr_state r1)"
    using raise_floor_mono [of "ht_floor s" x r] Cons.prems(2) by blast
  have "floor_ok (ht_floor (report d state reason time works s))"
      "ht_floor (report d state reason time works s) x = Some r1"
    using raise_floor_ok [of "ht_floor s"] Cons.prems(1) r1(1) by (simp_all add: report_def)
  from Cons.IH [OF this] r1(2) show ?case
    by (auto simp: report_all_def a intro: order_trans)
qed

subsection \<open>What is stored survives a restart\<close>

definition entries_ok :: "health_entry option list \<Rightarrow> bool" where
  "entries_ok entries \<longleftrightarrow> (\<forall>e \<in> set entries. \<exists>r. e = Some (entry_of r))"

definition health_ok :: "health_value storage_area \<Rightarrow> bool" where
  "health_ok area \<longleftrightarrow> (\<exists>entries. current_index area = Some entries \<and> entries_ok entries)"

lemma isHealthRecord_entry [simp]: "isHealthRecord (entry_of r) = Some r"
  by (simp add: isHealthRecord_def entry_of_def)

lemma entries_ok_find: "entries_ok entries \<Longrightarrow> \<exists>found. find_entry d entries = Some found \<and> (\<forall>e. found = Some e \<longrightarrow> Some e \<in> set entries)"
  by (induction entries) (auto simp: entries_ok_def)

lemma entries_ok_present: "entries_ok entries \<Longrightarrow> all_present entries = Some (map the entries)"
  by (auto simp: entries_ok_def all_present_def)

lemma entries_ok_map: "entries_ok (map Some xs) \<longleftrightarrow> (\<forall>e \<in> set xs. \<exists>r. e = entry_of r)"
  by (auto simp: entries_ok_def)

lemma find_in: "find_entry d (map Some xs) = Some (List.find (\<lambda>e. he_domain_field e = Some d) xs)"
  by (induction xs) auto

lemma entries_ok_somes:
  assumes "entries_ok entries"
  obtains rs where "entries = map (\<lambda>r. Some (entry_of r)) rs"
proof -
  have "\<exists>rs. entries = map (\<lambda>r. Some (entry_of r)) rs"
    using assms
  proof (induction entries)
    case (Cons e entries)
    then obtain rs r where "entries = map (\<lambda>r. Some (entry_of r)) rs" "e = Some (entry_of r)"
      by (auto simp: entries_ok_def)
    then have "e # entries = map (\<lambda>r. Some (entry_of r)) (r # rs)" by simp
    then show ?case by (rule exI)
  qed simp
  then show thesis using that by blast
qed

lemma he_domain_entry [simp]: "he_domain_field (entry_of r) = Some (hr_domain r)"
  and he_state_entry [simp]: "he_state_field (entry_of r) = Some (hr_state r)"
  and he_since_entry [simp]: "he_since_field (entry_of r) = Some (hr_since r)"
  and he_reports_entry [simp]: "he_reports_field (entry_of r) = hr_reports r"
  by (simp_all add: entry_of_def)

lemma entry_severity_entry [simp]: "entry_severity (entry_of r) = int (severityOf (hr_state r))"
  by (simp add: entry_severity_def)

lemma find_entry_entries:
  "find_entry d (map (\<lambda>r. Some (entry_of r)) rs) =
   Some (map_option entry_of (List.find (\<lambda>r. hr_domain r = d) rs))"
  by (induction rs) simp_all

lemma all_present_entries:
  "all_present (map (\<lambda>r. Some (entry_of r)) rs) = Some (map entry_of rs)"
  by (auto simp: all_present_def)

text \<open>What a report does to an index of well-formed records.\<close>

definition raise_records ::
  "health_domain \<Rightarrow> persistence_state \<Rightarrow> string \<Rightarrow> int \<Rightarrow> health_record list \<Rightarrow> health_record list" where
  "raise_records d state reason time rs =
     (case List.find (\<lambda>r. hr_domain r = d) rs of
        None \<Rightarrow>
          filter (\<lambda>r. hr_domain r \<noteq> d) rs @
          [\<lparr>hr_domain = d, hr_state = state, hr_reason = reason, hr_since = time, hr_reports = 1\<rparr>]
      | Some old \<Rightarrow>
          if severityOf state \<le> severityOf (hr_state old) then
            map (\<lambda>r. if hr_domain r = d then r\<lparr>hr_reports := hr_reports r + 1\<rparr> else r) rs
          else
            filter (\<lambda>r. hr_domain r \<noteq> d) rs @
            [\<lparr>hr_domain = d, hr_state = state, hr_reason = reason, hr_since = hr_since old,
              hr_reports = hr_reports old + 1\<rparr>])"

lemma entry_of_reports: "(entry_of r)\<lparr>he_reports_field := n\<rparr> = entry_of (r\<lparr>hr_reports := n\<rparr>)"
  by (simp add: entry_of_def)

lemma raise_entries_records:
  "raise_entries d state reason time (map (\<lambda>r. Some (entry_of r)) rs) =
   Some (map (\<lambda>r. Some (entry_of r)) (raise_records d state reason time rs))"
proof (cases "List.find (\<lambda>r. hr_domain r = d) rs")
  case None
  then show ?thesis
    by (simp add: raise_entries_def find_entry_entries all_present_entries raise_records_def
        filter_map o_def)
      (simp add: entry_of_def)
next
  case (Some old)
  then show ?thesis
    by (simp add: raise_entries_def find_entry_entries all_present_entries raise_records_def
        filter_map o_def entry_of_reports if_distrib cong: if_cong)
      (simp add: entry_of_def)
qed

lemma find_append:
  "List.find P (xs @ ys) = (case List.find P xs of None \<Rightarrow> List.find P ys | Some x \<Rightarrow> Some x)"
  by (induction xs) auto

lemma find_filter_other:
  "x \<noteq> d \<Longrightarrow>
   List.find (\<lambda>r. hr_domain r = x) (filter (\<lambda>r. hr_domain r \<noteq> d) rs) = List.find (\<lambda>r. hr_domain r = x) rs"
  by (induction rs) auto

lemma find_filter_same: "List.find (\<lambda>r. hr_domain r = d) (filter (\<lambda>r. hr_domain r \<noteq> d) rs) = None"
  by (induction rs) auto

lemma find_map_reports:
  "List.find (\<lambda>r. hr_domain r = x) (map (\<lambda>r. if hr_domain r = d then r\<lparr>hr_reports := hr_reports r + 1\<rparr> else r) rs) =
   map_option (\<lambda>r. if hr_domain r = d then r\<lparr>hr_reports := hr_reports r + 1\<rparr> else r)
     (List.find (\<lambda>r. hr_domain r = x) rs)"
  by (induction rs) auto

lemma raise_records_mono:
  assumes "List.find (\<lambda>r. hr_domain r = x) rs = Some r"
  shows "\<exists>r'. List.find (\<lambda>r. hr_domain r = x) (raise_records d state reason time rs) = Some r' \<and>
    severityOf (hr_state r) \<le> severityOf (hr_state r')"
  using assms
  by (cases "x = d")
    (auto simp: raise_records_def find_map_reports find_append find_filter_other find_filter_same
      split: option.split)

lemma raise_records_reached:
  "\<exists>r. List.find (\<lambda>r. hr_domain r = d) (raise_records d state reason time rs) = Some r \<and>
    severityOf state \<le> severityOf (hr_state r)"
  by (auto simp: raise_records_def find_map_reports find_append find_filter_same split: option.split)

text \<open>The index holds a record of the domain at least as severe as a level.\<close>

definition recorded :: "health_value storage_area \<Rightarrow> health_domain \<Rightarrow> nat \<Rightarrow> bool" where
  "recorded area d level \<longleftrightarrow>
     (\<exists>rs r. current_index area = Some (map (\<lambda>r. Some (entry_of r)) rs) \<and>
       List.find (\<lambda>r. hr_domain r = d) rs = Some r \<and> level \<le> severityOf (hr_state r))"

lemma current_index_set: "current_index (area_set HEALTH_KEY (Health_Index entries) area) = Some entries"
  by (simp add: current_index_def area_get_set)

lemma health_okE:
  assumes "health_ok area"
  obtains rs where "current_index area = Some (map (\<lambda>r. Some (entry_of r)) rs)"
  using assms entries_ok_somes unfolding health_ok_def by metis

lemma report_records:
  assumes "health_ok (ht_area s)"
  shows "recorded (ht_area (report d state reason time True s)) d (severityOf state)"
proof -
  obtain rs where rs: "current_index (ht_area s) = Some (map (\<lambda>r. Some (entry_of r)) rs)"
    using assms by (rule health_okE)
  obtain r where "List.find (\<lambda>r. hr_domain r = d) (raise_records d state reason time rs) = Some r"
      "severityOf state \<le> severityOf (hr_state r)"
    using raise_records_reached by blast
  then show ?thesis
    using rs by (auto simp: recorded_def report_def update_index_def raise_entries_records current_index_set)
qed

lemma report_keeps_recorded:
  assumes "recorded (ht_area s) x level"
  shows "recorded (ht_area (report d state reason time works s)) x level"
proof -
  obtain rs r where rs: "current_index (ht_area s) = Some (map (\<lambda>r. Some (entry_of r)) rs)"
      "List.find (\<lambda>r. hr_domain r = x) rs = Some r" "level \<le> severityOf (hr_state r)"
    using assms by (auto simp: recorded_def)
  obtain r' where "List.find (\<lambda>r. hr_domain r = x) (raise_records d state reason time rs) = Some r'"
      "level \<le> severityOf (hr_state r')"
    using raise_records_mono [OF rs(2)] rs(3) order_trans by blast
  then show ?thesis
    using rs
    by (cases works) (auto simp: recorded_def report_def update_index_def raise_entries_records current_index_set)
qed

lemma report_all_recorded:
  "recorded (ht_area s) x level \<Longrightarrow> recorded (ht_area (report_all reports s)) x level"
  unfolding report_all_def
  by (induction reports arbitrary: s) (auto intro!: report_keeps_recorded)

lemma read_records_index:
  "current_index area = Some entries \<Longrightarrow> \<exists>failed. read_records True area = (entries, failed) \<or> entries = []"
  by (auto simp: current_index_def read_records_def split: option.splits health_value.splits)

lemma snapshot_recorded:
  assumes "snapshot time True s = Some snap" and "recorded (ht_area s) d level"
    and "floor_ok (ht_floor s)" and "d \<in> set GATING_DOMAINS"
  shows "level \<le> severityOf (hs_gating snap)"
proof -
  obtain rs r where rs: "current_index (ht_area s) = Some (map (\<lambda>r. Some (entry_of r)) rs)"
      "List.find (\<lambda>r. hr_domain r = d) rs = Some r" "level \<le> severityOf (hr_state r)"
    using assms(2) by (auto simp: recorded_def)
  have "rs \<noteq> []" using rs(2) by auto
  then obtain failed where read: "read_records True (ht_area s) = (map (\<lambda>r. Some (entry_of r)) rs, failed)"
    using read_records_index [OF rs(1)] by auto
  have "r \<in> set (candidates_for d (Some (entry_of r)) (ht_floor s) failed time)"
    by (simp add: candidates_for_def)
  then show ?thesis
    using snapshot_ge [OF assms(1,3,4) _ read] rs(2,3) by (auto simp: find_entry_entries intro: order_trans)
qed

lemma report_all_blocked:
  assumes "floor_ok (ht_floor s)" and "d \<in> set GATING_DOMAINS"
    and "snapshot time works (report_all reports (report d state reason at0 w s)) = Some snap"
  shows "severityOf state \<le> severityOf (hs_gating snap)"
proof -
  let ?s = "report d state reason at0 w s"
  obtain r where r: "ht_floor ?s d = Some r" "severityOf state \<le> severityOf (hr_state r)"
    using raise_floor_reached [of d state reason at0 "ht_floor s"] by (auto simp: report_def)
  have "floor_ok (ht_floor ?s)" using assms(1) raise_floor_ok by (simp add: report_def)
  then obtain r' where r': "floor_ok (ht_floor (report_all reports ?s))"
      "ht_floor (report_all reports ?s) d = Some r'" "severityOf (hr_state r) \<le> severityOf (hr_state r')"
    using report_all_floor [OF _ r(1)] by blast
  obtain entries failed found where e: "read_records works (ht_area (report_all reports ?s)) = (entries, failed)"
      "find_entry d entries = Some found"
    using snapshot_finds [OF assms(3)] .
  have "r' \<in> set (candidates_for d found (ht_floor (report_all reports ?s)) failed time)"
    using r'(2) by (simp add: candidates_for_def)
  from snapshot_ge [OF assms(3) r'(1) assms(2) this e] show ?thesis
    using r(2) r'(3) by simp
qed

subsection \<open>An acknowledgement\<close>

lemma malformed_stays:
  assumes "area_get (ht_area s) HEALTH_KEY = Some Health_Malformed"
  shows "ht_area (report d state reason time works s) = ht_area s"
    and "ht_area (acknowledge d works s) = ht_area s"
  using assms by (simp_all add: report_def acknowledge_def update_index_def current_index_def)

lemma malformed_snapshot:
  assumes "area_get (ht_area s) HEALTH_KEY = Some Health_Malformed" and "floor_ok (ht_floor s)"
  shows "\<exists>snap. snapshot time works s = Some snap \<and> hs_gating snap = IRRECOVERABLE \<and> hs_blocked snap"
proof -
  obtain failed where f: "read_records works (ht_area s) = ([], Some failed)"
    using assms(1) by (cases works) (simp_all add: read_records_def)
  then obtain snap where s: "snapshot time works s = Some snap"
    by (simp add: snapshot_def Let_def HEALTH_DOMAINS_def)
  let ?c = "\<lparr>hr_domain = storage_domain, hr_state = IRRECOVERABLE, hr_reason = failed, hr_since = time,
              hr_reports = 1\<rparr>"
  have "?c \<in> set (candidates_for storage_domain None (ht_floor s) (Some failed) time)"
    by (simp add: candidates_for_def)
  from snapshot_ge [OF s assms(2) _ this f] have "hs_gating snap = IRRECOVERABLE"
    by (cases "hs_gating snap") (simp_all add: GATING_DOMAINS_def)
  then show ?thesis using s snapshot_blocked [OF s] by simp
qed

text \<open>Acknowledgements and reports, in any order and with any outcome of the writes.\<close>

datatype health_step =
    Health_Report health_domain persistence_state string int bool
  | Health_Acknowledge health_domain bool

fun health_run :: "health_step \<Rightarrow> health_store \<Rightarrow> health_store" where
  "health_run (Health_Report d state reason time works) s = report d state reason time works s"
| "health_run (Health_Acknowledge d works) s = acknowledge d works s"

lemma floor_ok_step: "floor_ok (ht_floor s) \<Longrightarrow> floor_ok (ht_floor (health_run a s))"
proof (cases a)
  case (Health_Acknowledge d works)
  then show "floor_ok (ht_floor s) \<Longrightarrow> ?thesis" by (simp add: acknowledge_def floor_ok_def)
qed (simp add: report_def raise_floor_ok)

lemma malformed_steps:
  "area_get (ht_area s) HEALTH_KEY = Some Health_Malformed \<Longrightarrow> floor_ok (ht_floor s) \<Longrightarrow>
   area_get (ht_area (fold health_run steps s)) HEALTH_KEY = Some Health_Malformed \<and>
   floor_ok (ht_floor (fold health_run steps s))"
proof (induction steps arbitrary: s)
  case (Cons a steps)
  have "ht_area (health_run a s) = ht_area s"
    using malformed_stays [OF Cons.prems(1)] by (cases a) simp_all
  then show ?case
    using Cons.IH [of "health_run a s"] Cons.prems floor_ok_step [OF Cons.prems(2)] by simp
qed simp

subsection \<open>The properties\<close>

text \<open>
  C40. A storage fault blocks execution until a person acknowledges it. Once a domain that gates
  execution is reported worse than \<open>HEALTHY\<close>, every snapshot taken after any further reports, whatever
  becomes of their writes and of the read, is blocked and at least as severe as the report. When the
  report could be stored beside well-formed records, the block also survives the loss of the
  in-memory floor, that is a restart.
\<close>

theorem health_fault_blocks:
  assumes "floor_ok (ht_floor s)" and "d \<in> set GATING_DOMAINS" and "state \<noteq> HEALTHY"
    and "faulted = report d state reason reported stored s"
  shows "(snapshot time reads (report_all reports faulted) = Some snap \<longrightarrow>
      hs_blocked snap \<and> severityOf state \<le> severityOf (hs_gating snap)) \<and>
    (stored \<and> health_ok (ht_area s) \<longrightarrow>
     snapshot time True \<lparr>ht_area = ht_area (report_all reports faulted), ht_floor = \<lambda>_. None\<rparr> = Some snap \<longrightarrow>
       hs_blocked snap \<and> severityOf state \<le> severityOf (hs_gating snap))"
proof (intro conjI impI)
  have pos: "severityOf state > 0" using assms(3) by (cases state) simp_all
  have blocked: "hs_blocked snap" if "snapshot t w x = Some snap" "severityOf state \<le> severityOf (hs_gating snap)"
    for t w x
    using snapshot_blocked [OF that(1)] that(2) pos by (cases "hs_gating snap") simp_all
  { assume h: "snapshot time reads (report_all reports faulted) = Some snap"
    show "severityOf state \<le> severityOf (hs_gating snap)"
      using report_all_blocked [OF assms(1,2)] h assms(4) by blast
    then show "hs_blocked snap" using blocked [OF h] by simp }
  { assume ok: "stored \<and> health_ok (ht_area s)"
      and h: "snapshot time True \<lparr>ht_area = ht_area (report_all reports faulted), ht_floor = \<lambda>_. None\<rparr> = Some snap"
    have "recorded (ht_area (report_all reports faulted)) d (severityOf state)"
      using report_all_recorded [OF report_records] ok assms(4) by simp
    then show "severityOf state \<le> severityOf (hs_gating snap)"
      using snapshot_recorded [OF h _ _ assms(2)] by (simp add: floor_ok_def)
    then show "hs_blocked snap" using blocked [OF h] by simp }
qed

definition empty_health :: health_store where
  "empty_health = \<lparr>ht_area = [], ht_floor = \<lambda>_. None\<rparr>"

theorem health_fault_blocks_witness:
  "map_option hs_blocked
     (snapshot 9 True
       (report_all [(task_security, DEGRADED, ''x'', 7, False)]
         (report task_security CORRUPT ''x'' 5 True empty_health))) = Some True"
proof -
  let ?s = "report task_security CORRUPT ''x'' 5 True empty_health"
  let ?r = "[(task_security, DEGRADED, ''x'', 7, False)]"
  have "floor_ok (ht_floor empty_health)" by (simp add: empty_health_def floor_ok_def)
  from health_fault_blocks [OF this, of task_security CORRUPT ?s "''x''" 5 True 9 True ?r]
  have "snapshot 9 True (report_all ?r ?s) = Some snap \<Longrightarrow> hs_blocked snap" for snap
    by (simp add: GATING_DOMAINS_def)
  moreover have "snapshot 9 True (report_all ?r ?s) \<noteq> None"
    by code_simp
  ultimately show ?thesis by auto
qed

text \<open>
  C40. A stored health record that is not an index can never be acknowledged away: whatever sequence of
  reports and acknowledgements follows, and whatever becomes of their writes, every snapshot still
  reads \<open>IRRECOVERABLE\<close> and execution stays blocked, because the callback of \<open>update\<close> throws on the value
  before anything is replaced.
\<close>

theorem health_malformed_unclearable:
  assumes "area_get (ht_area s) HEALTH_KEY = Some Health_Malformed" and "floor_ok (ht_floor s)"
  shows "\<exists>snap. acknowledge_snapshot d works time reads (fold health_run steps s) = Some snap \<and>
    hs_gating snap = IRRECOVERABLE \<and> hs_blocked snap"
proof -
  let ?s = "fold health_run (steps @ [Health_Acknowledge d works]) s"
  have "area_get (ht_area ?s) HEALTH_KEY = Some Health_Malformed \<and> floor_ok (ht_floor ?s)"
    by (rule malformed_steps [OF assms])
  then show ?thesis using malformed_snapshot [of ?s time reads] by (simp add: acknowledge_snapshot_def)
qed

theorem health_malformed_unclearable_witness:
  "map_option hs_blocked
     (acknowledge_snapshot storage_domain True 9 True
       (fold health_run [Health_Acknowledge storage_domain True]
         \<lparr>ht_area = [(HEALTH_KEY, Health_Malformed)], ht_floor = \<lambda>_. None\<rparr>)) = Some True"
proof -
  let ?s = "\<lparr>ht_area = [(HEALTH_KEY, Health_Malformed)], ht_floor = \<lambda>_. None :: health_record option\<rparr>"
  have "area_get (ht_area ?s) HEALTH_KEY = Some Health_Malformed" by code_simp
  from health_malformed_unclearable [OF this, of storage_domain True 9 True "[Health_Acknowledge storage_domain True]"]
  show ?thesis by (auto simp: floor_ok_def)
qed

end
