(* ===== verification/LoopDetector.thy ===== *)
theory LoopDetector
  imports Results "HOL-Library.Word" "HOL-Library.Multiset"
begin

text \<open>
  \<open>src/agent/loop-detection/loop-detector.ts\<close>: the argument hash (FNV-1a at 32 bits) and the three
  loop checks over a bounded window of executions. The wording of a detection is left out.

  The canonical form is a list of UTF-16 code units, because it holds the character U+2026. How
  JavaScript prints a number is the parameter \<open>N\<close>.
\<close>

unbundle bit_operations_syntax

subsection \<open>The argument hash\<close>

definition units :: "string \<Rightarrow> nat list" where
  "units s = map char_code s"

definition hex_digit :: "nat \<Rightarrow> char" where
  "hex_digit d = (if d < 10 then char_of (48 + d) else char_of (87 + d))"

text \<open>\<open>JSON.stringify\<close> of one character of a string.\<close>

definition json_escape :: "char \<Rightarrow> string" where
  "json_escape c =
     (let n = char_code c
      in if n = 34 then [CHR 0x5C, CHR 0x22]
         else if n = 92 then [CHR 0x5C, CHR 0x5C]
         else if n = 8 then [CHR 0x5C, CHR ''b'']
         else if n = 9 then [CHR 0x5C, CHR ''t'']
         else if n = 10 then [CHR 0x5C, CHR ''n'']
         else if n = 12 then [CHR 0x5C, CHR ''f'']
         else if n = 13 then [CHR 0x5C, CHR ''r'']
         else if n < 32 then [CHR 0x5C] @ ''u00'' @ [hex_digit (n div 16), hex_digit (n mod 16)]
         else [c])"

definition json_quote :: "string \<Rightarrow> string" where
  "json_quote s = [CHR 0x22] @ concat (map json_escape s) @ [CHR 0x22]"

definition join_units :: "nat list list \<Rightarrow> nat list" where
  "join_units parts =
     (case parts of [] \<Rightarrow> [] | p # ps \<Rightarrow> p @ concat (map (\<lambda>q. 44 # q) ps))"

text \<open>Numbers that JSON has no form for print as \<open>null\<close>.\<close>

definition number_text :: "(rat \<Rightarrow> string) \<Rightarrow> js_num \<Rightarrow> string" where
  "number_text N n = (case n of Fin q \<Rightarrow> N q | _ \<Rightarrow> ''null'')"

definition sort_entries :: "(string \<times> 'a) list \<Rightarrow> (string \<times> 'a) list" where
  "sort_entries entries = sort_key (\<lambda>e. units (fst e)) entries"

function canonicalise :: "(rat \<Rightarrow> string) \<Rightarrow> json \<Rightarrow> nat \<Rightarrow> nat list" where
  "canonicalise N v depth =
     (if 10 < depth then [34, 8230, 34]
      else
        (case v of
           JNull \<Rightarrow> units ''null''
         | JUndef \<Rightarrow> units ''undefined''
         | JBool b \<Rightarrow> units (if b then ''true'' else ''false'')
         | JNum n \<Rightarrow> units (number_text N n)
         | JStr s \<Rightarrow> units (json_quote s)
         | JArr items \<Rightarrow>
             [91] @ join_units (map (\<lambda>item. canonicalise N item (Suc depth)) items) @ [93]
         | JObj entries \<Rightarrow>
             [123] @
             join_units
               (map (\<lambda>e. units (json_quote (fst e)) @ [58] @ snd e)
                 (sort_entries
                   (map (\<lambda>e. (fst e, canonicalise N (snd e) (Suc depth)))
                     (filter (\<lambda>e. snd e \<noteq> JUndef) entries)))) @
             [125]))"
  by pat_completeness auto

termination canonicalise
  by (relation "measure (\<lambda>(_, _, depth). 11 - depth)") auto

declare canonicalise.simps [simp del]

definition fnv_step :: "32 word \<Rightarrow> nat \<Rightarrow> 32 word" where
  "fnv_step hash code_unit = (hash XOR word_of_nat code_unit) * 16777619"

fun base36_digit :: "nat \<Rightarrow> char" where
  "base36_digit d = (if d < 10 then char_of (48 + d) else char_of (87 + d))"

fun show_base36 :: "nat \<Rightarrow> string" where
  "show_base36 n =
     (if n < 36 then [base36_digit n] else show_base36 (n div 36) @ [base36_digit (n mod 36)])"

declare show_base36.simps [simp del]

definition hashArguments :: "(rat \<Rightarrow> string) \<Rightarrow> json \<Rightarrow> string" where
  "hashArguments N args =
     show_base36 (unat (foldl fnv_step 2166136261 (canonicalise N args 0)))"

subsection \<open>The detector\<close>

record execution_record =
  xr_tool :: string
  xr_argsHash :: string
  xr_success :: bool
  xr_errorCode :: "error_code option"
  xr_timestamp :: int
  xr_mutating :: bool

record loop_detector =
  ld_history :: "execution_record list"
  ld_identicalThreshold :: nat
  ld_repeatedFailureThreshold :: nat
  ld_cycleThreshold :: nat
  ld_windowSize :: nat

datatype loop_kind = identical_repetition | repeated_failure | cycle

record loop_detection =
  lk_detected :: bool
  lk_kind :: "loop_kind option"
  lk_tool :: "string option"

definition newLoopDetector :: loop_detector where
  "newLoopDetector =
     \<lparr>ld_history = [], ld_identicalThreshold = 3, ld_repeatedFailureThreshold = 3,
      ld_cycleThreshold = 3, ld_windowSize = 20\<rparr>"

definition signatureOf :: "execution_record \<Rightarrow> string" where
  "signatureOf r =
     (let outcome =
        (if xr_success r then ''ok''
         else (case xr_errorCode r of Some code \<Rightarrow> error_name code | None \<Rightarrow> ''err''))
      in xr_tool r @ ''|'' @ xr_argsHash r @ ''|'' @ outcome)"

definition record_execution :: "execution_record \<Rightarrow> loop_detector \<Rightarrow> loop_detector" where
  "record_execution entry d =
     (let hist = ld_history d @ [entry]
      in d\<lparr>ld_history :=
             (if length hist > ld_windowSize d then drop (length hist - ld_windowSize d) hist
              else hist)\<rparr>)"

definition reset_detector :: "loop_detector \<Rightarrow> loop_detector" where
  "reset_detector d = d\<lparr>ld_history := []\<rparr>"

text \<open>A count per key, in the order the keys were first met: the JavaScript \<open>Map\<close>.\<close>

type_synonym counts = "(string \<times> (nat \<times> string)) list"

definition bump :: "string \<Rightarrow> string \<Rightarrow> counts \<Rightarrow> counts" where
  "bump key tool counts =
     AList.update key
       (case map_of counts key of Some (n, t) \<Rightarrow> (Suc n, t) | None \<Rightarrow> (1, tool)) counts"

fun identical_counts :: "counts \<Rightarrow> execution_record list \<Rightarrow> counts" where
  "identical_counts counts [] = counts"
| "identical_counts counts (r # rs) =
     (let key = signatureOf r;
          kept = (if xr_mutating r \<and> xr_success r then filter (\<lambda>e. fst e = key) counts else counts)
      in identical_counts (bump key (xr_tool r) kept) rs)"

definition first_at_least :: "nat \<Rightarrow> counts \<Rightarrow> (nat \<times> string) option" where
  "first_at_least threshold counts =
     map_option snd (List.find (\<lambda>e. threshold \<le> fst (snd e)) counts)"

definition detection :: "loop_kind \<Rightarrow> string option \<Rightarrow> loop_detection" where
  "detection kind tool = \<lparr>lk_detected = True, lk_kind = Some kind, lk_tool = tool\<rparr>"

definition checkIdentical :: "loop_detector \<Rightarrow> loop_detection option" where
  "checkIdentical d =
     map_option (\<lambda>e. detection identical_repetition (Some (snd e)))
       (first_at_least (ld_identicalThreshold d) (identical_counts [] (ld_history d)))"

definition failureKey :: "execution_record \<Rightarrow> string" where
  "failureKey r =
     xr_tool r @ ''|'' @ xr_argsHash r @ ''|'' @
     (case xr_errorCode r of Some code \<Rightarrow> error_name code | None \<Rightarrow> ''UNKNOWN'')"

fun failure_counts :: "counts \<Rightarrow> execution_record list \<Rightarrow> counts" where
  "failure_counts counts [] = counts"
| "failure_counts counts (r # rs) =
     (if xr_success r then failure_counts counts rs
      else failure_counts (bump (failureKey r) (xr_tool r) counts) rs)"

definition checkRepeatedFailure :: "loop_detector \<Rightarrow> loop_detection option" where
  "checkRepeatedFailure d =
     map_option (\<lambda>e. detection repeated_failure (Some (snd e)))
       (first_at_least (ld_repeatedFailureThreshold d) (failure_counts [] (ld_history d)))"

definition cycleKey :: "execution_record \<Rightarrow> string" where
  "cycleKey r = xr_tool r @ ''|'' @ xr_argsHash r"

text \<open>\<open>slice(-n)\<close>: the last \<open>n\<close> elements, and all of them where \<open>n\<close> is zero.\<close>

definition slice_back :: "nat \<Rightarrow> 'a list \<Rightarrow> 'a list" where
  "slice_back n xs = (if n = 0 then xs else take_last n xs)"

definition cycle_at :: "loop_detector \<Rightarrow> nat \<Rightarrow> bool" where
  "cycle_at d period =
     (let keys = map cycleKey (ld_history d);
          needed = period * ld_cycleThreshold d;
          tail = slice_back needed keys;
          pattern = take period tail
      in needed \<le> length keys \<and> 2 \<le> card (set pattern) \<and>
         (\<forall>i < length tail. tail ! i = pattern ! (i mod period)))"

definition checkCycle :: "loop_detector \<Rightarrow> loop_detection option" where
  "checkCycle d =
     (case List.find (cycle_at d) [2, 3, 4] of
        None \<Rightarrow> None
      | Some period \<Rightarrow>
          (case slice_back (period * ld_cycleThreshold d) (ld_history d) of
             [] \<Rightarrow> Some (detection cycle None)
           | r # _ \<Rightarrow> Some (detection cycle (Some (xr_tool r)))))"

definition check_loop :: "loop_detector \<Rightarrow> loop_detection" where
  "check_loop d =
     (case checkRepeatedFailure d of
        Some l \<Rightarrow> l
      | None \<Rightarrow>
          (case checkIdentical d of
             Some l \<Rightarrow> l
           | None \<Rightarrow>
               (case checkCycle d of
                  Some l \<Rightarrow> l
                | None \<Rightarrow> \<lparr>lk_detected = False, lk_kind = None, lk_tool = None\<rparr>)))"

text \<open>
  The text \<open>detail\<close> that accompanies a detection; it goes to the person, never back into a check. The
  arrow between the tools of a cycle is written in ASCII.
\<close>

definition first_entry :: "nat \<Rightarrow> counts \<Rightarrow> (string \<times> nat \<times> string) option" where
  "first_entry threshold counts = List.find (\<lambda>e. threshold \<le> fst (snd e)) counts"

definition failed_code :: "string \<Rightarrow> execution_record list \<Rightarrow> string" where
  "failed_code key hist =
     (case List.find (\<lambda>r. \<not> xr_success r \<and> failureKey r = key) hist of
        Some r \<Rightarrow> (case xr_errorCode r of Some code \<Rightarrow> error_name code | None \<Rightarrow> ''UNKNOWN'')
      | None \<Rightarrow> ''UNKNOWN'')"

definition loop_detail :: "loop_detector \<Rightarrow> string option" where
  "loop_detail d =
     (case first_entry (ld_repeatedFailureThreshold d) (failure_counts [] (ld_history d)) of
        Some (key, n, tool) \<Rightarrow>
          Some (tool @ '' failed '' @ show_nat n @ '' times with '' @ failed_code key (ld_history d) @
                '' for the same target. A different approach is required.'')
      | None \<Rightarrow>
          (case first_entry (ld_identicalThreshold d) (identical_counts [] (ld_history d)) of
             Some (key, n, tool) \<Rightarrow>
               Some (tool @ '' was called '' @ show_nat n @
                     '' times with identical arguments and the same outcome, with nothing changing in '' @
                     ''between. Repeating it will not help.'')
           | None \<Rightarrow>
               (case List.find (cycle_at d) [2, 3, 4] of
                  Some period \<Rightarrow>
                    let tools = map xr_tool (slice_back (period * ld_cycleThreshold d) (ld_history d))
                    in Some (''A repeating cycle of '' @ js_join '' -> '' (rev (remdups (rev tools))) @
                             '' ran '' @ show_nat (ld_cycleThreshold d) @
                             '' times without making progress.'')
                | None \<Rightarrow> None)))"

subsection \<open>The window\<close>



lemma record_suffix:
  "suffix (ld_history (record_execution entry d)) (ld_history d @ [entry])"
  by (auto simp: record_execution_def Let_def suffix_drop)

subsection \<open>What the counts count\<close>

lemma bump_count:
  "map_of (bump key tool counts) k =
     (if k = key then
        Some (case map_of counts key of Some (n, t) \<Rightarrow> (Suc n, t) | None \<Rightarrow> (1, tool))
      else map_of counts k)"
  by (simp add: bump_def update_conv')

definition count_of :: "counts \<Rightarrow> string \<Rightarrow> nat" where
  "count_of counts k = (case map_of counts k of Some (n, _) \<Rightarrow> n | None \<Rightarrow> 0)"

lemma count_of_Nil [simp]: "count_of [] k = 0"
  by (simp add: count_of_def)

lemma count_of_bump: "count_of (bump key tool counts) k = count_of counts k + (if k = key then 1 else 0)"
  by (auto simp: count_of_def bump_count split: option.split)

lemma failure_counts_count:
  "count_of (failure_counts counts rs) k =
     count_of counts k + length (filter (\<lambda>r. \<not> xr_success r \<and> failureKey r = k) rs)"
  by (induction counts rs rule: failure_counts.induct) (auto simp: count_of_bump)

lemma count_of_filter: "count_of (filter (\<lambda>e. fst e = key) counts) k = (if k = key then count_of counts k else 0)"
  by (induction counts) (auto simp: count_of_def)

text \<open>
  The count of a signature: the executions with it since the last successful mutation with another
  signature.
\<close>

definition clears :: "string \<Rightarrow> execution_record \<Rightarrow> bool" where
  "clears key r \<longleftrightarrow> xr_mutating r \<and> xr_success r \<and> signatureOf r \<noteq> key"

fun run_count :: "string \<Rightarrow> nat \<Rightarrow> execution_record list \<Rightarrow> nat" where
  "run_count key n [] = n"
| "run_count key n (r # rs) =
     run_count key
       (if clears key r then 0 else if signatureOf r = key then Suc n else n) rs"

lemma identical_counts_count:
  "count_of (identical_counts counts rs) k = run_count k (count_of counts k) rs"
  by (induction counts rs rule: identical_counts.induct)
    (auto simp: Let_def count_of_bump count_of_filter clears_def)

lemma bump_distinct: "distinct (map fst counts) \<Longrightarrow> distinct (map fst (bump key tool counts))"
  by (simp add: bump_def js_map_distinct_update)

lemma failure_counts_distinct:
  "distinct (map fst counts) \<Longrightarrow> distinct (map fst (failure_counts counts rs))"
  by (induction counts rs rule: failure_counts.induct) (auto intro: bump_distinct)

lemma identical_counts_distinct:
  "distinct (map fst counts) \<Longrightarrow> distinct (map fst (identical_counts counts rs))"
proof (induction counts rs rule: identical_counts.induct)
  case (2 counts r rs)
  then have "distinct (map fst (bump (signatureOf r) (xr_tool r)
      (if xr_mutating r \<and> xr_success r then filter (\<lambda>e. fst e = signatureOf r) counts else counts)))"
    by (intro bump_distinct) (simp add: distinct_fst_filter)
  with 2 show ?case by (simp add: Let_def)
qed simp

lemma first_at_least_iff:
  assumes "distinct (map fst counts)" and "0 < threshold"
  shows "first_at_least threshold counts \<noteq> None \<longleftrightarrow> (\<exists>k. threshold \<le> count_of counts k)"
proof -
  have "first_at_least threshold counts \<noteq> None \<longleftrightarrow> (\<exists>e \<in> set counts. threshold \<le> fst (snd e))"
    by (simp add: first_at_least_def find_None_iff Bex_def)
  also have "\<dots> \<longleftrightarrow> (\<exists>k. threshold \<le> count_of counts k)"
  proof
    assume "\<exists>e \<in> set counts. threshold \<le> fst (snd e)"
    then obtain k n t where e: "(k, (n, t)) \<in> set counts" "threshold \<le> n" by auto
    then have "map_of counts k = Some (n, t)"
      using assms(1) by (simp add: map_of_is_SomeI)
    with e show "\<exists>k. threshold \<le> count_of counts k"
      by (auto simp: count_of_def intro!: exI [of _ k])
  next
    assume "\<exists>k. threshold \<le> count_of counts k"
    then show "\<exists>e \<in> set counts. threshold \<le> fst (snd e)"
      using assms(2) by (force simp: count_of_def dest: map_of_SomeD split: option.splits)
  qed
  finally show ?thesis .
qed

lemma repeated_failure_iff:
  assumes "0 < ld_repeatedFailureThreshold d"
  shows "checkRepeatedFailure d \<noteq> None \<longleftrightarrow>
    (\<exists>k. ld_repeatedFailureThreshold d \<le>
       length (filter (\<lambda>r. \<not> xr_success r \<and> failureKey r = k) (ld_history d)))"
  using first_at_least_iff [OF failure_counts_distinct assms, of "[]" "ld_history d"]
  by (simp add: checkRepeatedFailure_def failure_counts_count)

lemma identical_iff:
  assumes "0 < ld_identicalThreshold d"
  shows "checkIdentical d \<noteq> None \<longleftrightarrow>
    (\<exists>k. ld_identicalThreshold d \<le> run_count k 0 (ld_history d))"
  using first_at_least_iff [OF identical_counts_distinct assms, of "[]" "ld_history d"]
  by (simp add: checkIdentical_def identical_counts_count)

lemma check_loop_detected:
  "lk_detected (check_loop d) \<longleftrightarrow>
     checkRepeatedFailure d \<noteq> None \<or> checkIdentical d \<noteq> None \<or> checkCycle d \<noteq> None"
proof -
  have r: "checkRepeatedFailure d = Some l \<Longrightarrow> lk_detected l" for l
    by (auto simp: checkRepeatedFailure_def detection_def)
  have i: "checkIdentical d = Some l \<Longrightarrow> lk_detected l" for l
    by (auto simp: checkIdentical_def detection_def)
  have c: "checkCycle d = Some l \<Longrightarrow> lk_detected l" for l
    by (auto simp: checkCycle_def detection_def split: option.splits list.splits)
  show ?thesis
    by (cases "checkRepeatedFailure d"; cases "checkIdentical d"; cases "checkCycle d")
      (simp_all add: check_loop_def r i c)
qed

lemma checkCycle_iff: "checkCycle d \<noteq> None \<longleftrightarrow> (\<exists>p \<in> {2, 3, 4}. cycle_at d p)"
  by (auto simp: checkCycle_def split: option.split list.split)



lemma record_options [simp]:
  "ld_windowSize (record_execution r d) = ld_windowSize d"
  "ld_identicalThreshold (record_execution r d) = ld_identicalThreshold d"
  "ld_repeatedFailureThreshold (record_execution r d) = ld_repeatedFailureThreshold d"
  by (simp_all add: record_execution_def Let_def)


lemma fold_record_options [simp]:
  "ld_windowSize (fold record_execution rs d) = ld_windowSize d"
  "ld_identicalThreshold (fold record_execution rs d) = ld_identicalThreshold d"
  by (induction rs arbitrary: d) simp_all


subsection \<open>The hash reads no order of keys\<close>

lemma units_inj: "units a = units b \<Longrightarrow> a = b"
  unfolding units_def by (rule map_injective [of char_code]) (auto simp: inj_def char_code_def)

lemma sort_entries_perm:
  assumes "mset xs = mset ys" and "distinct (map fst xs)"
  shows "sort_entries xs = sort_entries ys"
  unfolding sort_entries_def
proof (rule sort_key_inj_key_eq)
  show "mset xs = mset (sort_key (\<lambda>e. units (fst e)) ys)"
    using assms(1) by simp
  show "inj_on (\<lambda>e. units (fst e)) (set xs)"
    using assms(2) units_inj by (auto simp: inj_on_def distinct_map)
qed simp

lemma canonicalise_perm:
  assumes "mset xs = mset ys" and "distinct (map fst xs)"
  shows "canonicalise N (JObj xs) depth = canonicalise N (JObj ys) depth"
proof -
  let ?f = "\<lambda>es. map (\<lambda>e. (fst e, canonicalise N (snd e) (Suc depth))) (filter (\<lambda>e. snd e \<noteq> JUndef) es)"
  have "mset (?f xs) = mset (?f ys)"
    using assms(1) by simp
  moreover have "distinct (map fst (?f xs))"
    using assms(2) by (simp add: comp_def distinct_map_filter)
  ultimately have "sort_entries (?f xs) = sort_entries (?f ys)"
    by (rule sort_entries_perm)
  then show ?thesis
    by (subst (1 2) canonicalise.simps) simp
qed

subsection \<open>What the check promises\<close>

text \<open>
  The check of the loop detector is exact: it fires exactly where one failing call stands in the
  window as often as its threshold, or one signature repeats that often since the last successful
  change with another signature, or the window ends in a repeated pattern of two to four calls.
\<close>

theorem loop_check_exact:
  assumes "0 < ld_repeatedFailureThreshold d" and "0 < ld_identicalThreshold d"
  shows "lk_detected (check_loop d) \<longleftrightarrow>
    (\<exists>k. ld_repeatedFailureThreshold d \<le>
       length (filter (\<lambda>r. \<not> xr_success r \<and> failureKey r = k) (ld_history d))) \<or>
    (\<exists>k. ld_identicalThreshold d \<le> run_count k 0 (ld_history d)) \<or>
    (\<exists>p \<in> {2, 3, 4}. cycle_at d p)"
  by (simp only: check_loop_detected repeated_failure_iff [OF assms(1)] identical_iff [OF assms(2)]
      checkCycle_iff)

definition sample_call :: "string \<Rightarrow> bool \<Rightarrow> execution_record" where
  "sample_call tool changes =
     \<lparr>xr_tool = tool, xr_argsHash = ''h'', xr_success = True, xr_errorCode = None, xr_timestamp = 0,
      xr_mutating = changes\<rparr>"

theorem loop_check_exact_witness:
  "\<not> lk_detected (check_loop
      (newLoopDetector\<lparr>ld_history := [sample_call ''read'' False, sample_call ''read'' False,
         sample_call ''click'' True, sample_call ''read'' False]\<rparr>)) \<and>
   \<not> cycle_at
      (newLoopDetector\<lparr>ld_history := [sample_call ''read'' False, sample_call ''read'' False,
         sample_call ''click'' True, sample_call ''read'' False]\<rparr>) 2"
proof -
  let ?d = "newLoopDetector\<lparr>ld_history := [sample_call ''read'' False, sample_call ''read'' False,
         sample_call ''click'' True, sample_call ''read'' False]\<rparr>"
  have n: "\<not> lk_detected (check_loop ?d)" by code_simp
  have "0 < ld_repeatedFailureThreshold ?d" and "0 < ld_identicalThreshold ?d"
    by (simp_all add: newLoopDetector_def)
  from loop_check_exact [OF this] n show ?thesis by blast
qed












end
