(* ===== verification/AgentRuntime.thy ===== *)
theory AgentRuntime
  imports ContextBuilder LoopDetector
begin

text \<open>
  \<open>src/agent/runtime/agent-runtime.ts\<close> and \<open>src/tasks/task-control.ts\<close>: the loop in which a task's
  model is asked, its tool calls are dispatched one after the other, and the run is ended.

  The callbacks, the registry, the provider and the browser are functions on a world \<open>'w\<close>. An effect
  whose rejection leaves \<open>run\<close> has an \<open>option\<close> result, as in \<open>ToolRegistry\<close>. The clock, the random
  source, the identifiers of steps and the abort signal are read from the world. \<open>JSON.stringify\<close> and the
  signature of a taint state (an HMAC of the platform) are parameters. Log lines are left out, and so is
  the list \<open>messages\<close> of a run's output, which the code always leaves empty.
\<close>

datatype abort_signal = Signal_Live | Signal_Aborted "string option"

definition PAUSE_ABORT_REASON :: string where
  "PAUSE_ABORT_REASON = ''aba:task-paused''"

fun aborted :: "abort_signal \<Rightarrow> bool" where
  "aborted Signal_Live = False"
| "aborted (Signal_Aborted reason) = True"

definition abortedForPause :: "abort_signal \<Rightarrow> bool" where
  "abortedForPause signal = (signal = Signal_Aborted (Some PAUSE_ABORT_REASON))"

subsection \<open>What the loop exchanges with its surroundings\<close>

record tool_call =
  tc_toolCallId :: string
  tc_name :: string
  tc_arguments :: json
  tc_parseError :: "string option"
  tc_providerSignature :: "string option"

record canonical_response =
  cn_text :: string
  cn_toolCalls :: "tool_call list"
  cn_promptTokens :: int
  cn_completionTokens :: int

datatype failure_kind =
    Provider_Request_Error agent_error
  | Dom_Abort
  | Dom_Timeout
  | Other_Failure string

record provider_failure =
  pf_kind :: failure_kind
  pf_retryAfterMs :: "js_num option"

record completion =
  oc_state :: task_state
  oc_result :: task_result
  oc_usage :: task_usage
  oc_error :: "agent_error option"

record run_output =
  ru_result :: task_result
  ru_usage :: task_usage
  ru_error :: "agent_error option"

record 'w runtime =
  rt_now :: "'w \<Rightarrow> int"
  rt_random :: "'w \<Rightarrow> rat"
  rt_newStepId :: "'w \<Rightarrow> string"
  rt_signal :: "'w \<Rightarrow> abort_signal"
  rt_sleep :: "int \<Rightarrow> 'w \<Rightarrow> bool \<times> 'w"
  rt_onStateChange :: "string \<Rightarrow> task_state \<Rightarrow> string option \<Rightarrow> ('w, unit) effect"
  rt_onComplete :: "string \<Rightarrow> completion \<Rightarrow> ('w, unit) effect"
  rt_onStep :: "string \<Rightarrow> task_step \<Rightarrow> ('w, unit) effect"
  rt_onActivity :: "string \<Rightarrow> string \<Rightarrow> ('w, unit) effect"
  rt_onUsage :: "string \<Rightarrow> task_usage \<Rightarrow> ('w, unit) effect"
  rt_onEvidence :: "string \<Rightarrow> evidence_reference list \<Rightarrow> ('w, unit) effect"
  rt_persistTaint :: "string \<Rightarrow> taint_source list \<Rightarrow> ('w, taint_state option) effect"
  rt_recoverSalt :: "string \<Rightarrow> ('w, (string \<times> int) option) effect"
  rt_resolveTabUrl :: "(int \<Rightarrow> ('w, string option) effect) option"
  rt_schemas :: "string list option \<Rightarrow> tool_schema list"
  rt_dispatch :: "tool_invocation \<Rightarrow> ('w, dispatch_result) effect"
  rt_generate :: "canonical_request \<Rightarrow> 'w \<Rightarrow> (provider_failure + canonical_response) \<times> 'w"
  rt_taintSignature :: "taint_state \<Rightarrow> string"
  rt_resultText :: "tool_envelope + agent_error \<Rightarrow> string"
  rt_argumentsSize :: "json \<Rightarrow> nat"
  rt_numberText :: "rat \<Rightarrow> string"
  rt_budget :: "resource_budget option"
  rt_contextBudget :: "context_budget option"

record run_input =
  ri_task :: agent_task
  ri_toolCalling :: bool
  ri_vision :: bool
  ri_tabId :: "int option"
  ri_history :: "canonical_message list"

text \<open>What a run fixes before its loop, and the local variables of the loop.\<close>

record run_context =
  rx_task :: agent_task
  rx_taintSalt :: string
  rx_saltEpoch :: int
  rx_tools :: "tool_schema list"
  rx_vision :: bool
  rx_tabId :: "int option"
  rx_startedAt :: int

record run_state =
  rs_messages :: "canonical_message list"
  rs_detector :: loop_detector
  rs_taint :: taint_state
  rs_evidenceIds :: "string list"
  rs_completed :: "string list"
  rs_failed :: "string list"
  rs_blocked :: "string list"
  rs_externalWrites :: "string list"
  rs_usage :: task_usage
  rs_stepIndex :: nat
  rs_parts :: "canonical_content list"

subsection \<open>Ending a run\<close>

fun state_of :: "task_outcome \<Rightarrow> task_state" where
  "state_of out_COMPLETED = COMPLETED"
| "state_of out_PARTIAL = PARTIAL"
| "state_of out_BLOCKED = BLOCKED"
| "state_of out_FAILED = FAILED"
| "state_of out_CANCELLED = CANCELLED"

definition terminate ::
  "'w runtime \<Rightarrow> agent_task \<Rightarrow> task_outcome \<Rightarrow> string \<Rightarrow> string list \<Rightarrow> task_usage \<Rightarrow>
   string list \<times> string list \<times> string list \<times> string list \<Rightarrow> agent_error option \<Rightarrow>
   ('w, run_output) effect" where
  "terminate rt task outcome summary evidenceIds usage actions error =
     (let (completed, failed, blocked, externalWrites) = actions;
          result =
            \<lparr>tr_outcome = outcome, tr_summary = summary, tr_completedActions = completed,
             tr_failedActions = failed, tr_blockedActions = blocked,
             tr_externalWrites = externalWrites, tr_evidenceIds = evidenceIds\<rparr>
      in andThen
           (rt_onComplete rt (tk_id task)
              \<lparr>oc_state = state_of outcome, oc_result = result, oc_usage = usage, oc_error = error\<rparr>)
           (\<lambda>_. yields \<lparr>ru_result = result, ru_usage = usage, ru_error = error\<rparr>))"

definition no_actions :: "string list \<times> string list \<times> string list \<times> string list" where
  "no_actions = ([], [], [], [])"

definition actions_of :: "run_state \<Rightarrow> string list \<times> string list \<times> string list \<times> string list" where
  "actions_of s = (rs_completed s, rs_failed s, rs_blocked s, rs_externalWrites s)"

definition stop ::
  "'w runtime \<Rightarrow> agent_task \<Rightarrow> string list \<Rightarrow> task_usage \<Rightarrow> ('w, run_output) effect" where
  "stop rt task evidenceIds usage w =
     (if abortedForPause (rt_signal rt w) then
        yields
          \<lparr>ru_result =
             \<lparr>tr_outcome = out_PARTIAL, tr_summary = ''Paused before finishing.'',
              tr_completedActions = [], tr_failedActions = [], tr_blockedActions = [],
              tr_externalWrites = [], tr_evidenceIds = evidenceIds\<rparr>,
           ru_usage = usage, ru_error = None\<rparr> w
      else
        terminate rt task out_CANCELLED ''The task was cancelled.'' evidenceIds usage no_actions None w)"

text \<open>The outcome of a run that ends early: partial once anything was completed.\<close>

definition partial_or_failed :: "run_state \<Rightarrow> task_outcome" where
  "partial_or_failed s = (if rs_completed s \<noteq> [] then out_PARTIAL else out_FAILED)"

definition recordStep ::
  "'w runtime \<Rightarrow> string \<Rightarrow> nat \<Rightarrow> step_kind \<Rightarrow> string option \<Rightarrow> risk_level option \<Rightarrow> string \<Rightarrow>
   step_status \<Rightarrow> string list option \<Rightarrow> agent_error option \<Rightarrow> ('w, unit) effect" where
  "recordStep rt taskId index kind tool risk summary status evidenceIds error w =
     (let now = rt_now rt w
      in rt_onStep rt taskId
           \<lparr>sp_id = rt_newStepId rt w, sp_index = index, sp_kind = kind, sp_summary = summary,
            sp_tool = tool, sp_risk = risk, sp_status = status, sp_startedAt = now,
            sp_finishedAt = Some now, sp_evidenceIds = evidenceIds, sp_error = error\<rparr> w)"

fun toProviderError :: "failure_kind \<Rightarrow> agent_error" where
  "toProviderError (Provider_Request_Error e) = e"
| "toProviderError Dom_Abort = createError USER_CANCELLED ''The request was cancelled.'' default_init"
| "toProviderError Dom_Timeout =
     createError NETWORK_ERROR ''The provider did not respond in time.''
       (default_init\<lparr>ei_retryable := Some True\<rparr>)"
| "toProviderError (Other_Failure text) =
     createError MODEL_ERROR ''The provider request failed.''
       (default_init\<lparr>ei_userMessage := Some ''The AI provider request failed.'',
                     ei_technicalDetails := Some text\<rparr>)"

definition ACTIVITY_LABELS :: "(string \<times> string) list" where
  "ACTIVITY_LABELS =
     [(''browser.read_page'', ''Reading the page''), (''browser.click'', ''Clicking''),
      (''browser.type'', ''Typing''), (''browser.select'', ''Choosing an option''),
      (''browser.navigate'', ''Navigating''), (''browser.scroll'', ''Scrolling''),
      (''browser.wait'', ''Waiting''), (''browser.screenshot'', ''Taking a screenshot''),
      (''browser.reload'', ''Reloading''), (''browser.go_back'', ''Going back''),
      (''browser.go_forward'', ''Going forward''), (''tabs.list'', ''Listing tabs''),
      (''tabs.create'', ''Opening a tab''), (''tabs.close'', ''Closing a tab''),
      (''tabs.activate'', ''Switching tabs''), (''debugger.console'', ''Checking the console''),
      (''debugger.network'', ''Checking network activity''),
      (''debugger.dom'', ''Inspecting the DOM''), (''debugger.page_state'', ''Checking page state'')]"

definition describeActivity :: "string \<Rightarrow> string" where
  "describeActivity tool =
     (case map_of ACTIVITY_LABELS tool of Some label \<Rightarrow> label | None \<Rightarrow> ''Running '' @ tool)"

definition toolResultPart :: "'w runtime \<Rightarrow> tool_call \<Rightarrow> tool_envelope + agent_error \<Rightarrow> canonical_content" where
  "toolResultPart rt call envelope =
     Tool_Result_Part (tc_toolCallId call) (tc_name call) (rt_resultText rt envelope)
       (case envelope of Inl e \<Rightarrow> \<not> te_success e | Inr error \<Rightarrow> True)"

text \<open>A stage either goes on with a state or ends the run.\<close>

definition continuing ::
  "('w, 'a + run_output) effect \<Rightarrow> ('a \<Rightarrow> ('w, 'b + run_output) effect) \<Rightarrow> ('w, 'b + run_output) effect" where
  "continuing m k = andThen m (\<lambda>r. case r of Inl a \<Rightarrow> k a | Inr out \<Rightarrow> yields (Inr out))"

definition ends :: "('w, run_output) effect \<Rightarrow> ('w, 'a + run_output) effect" where
  "ends m = andThen m (\<lambda>out. yields (Inr out))"

subsection \<open>One tool call\<close>

definition invocation_of :: "'w runtime \<Rightarrow> run_context \<Rightarrow> string option \<Rightarrow> tool_call \<Rightarrow> run_state \<Rightarrow> tool_invocation" where
  "invocation_of rt c plannedUrl call s =
     \<lparr>iv_toolCallId = tc_toolCallId call, iv_taskId = tk_id (rx_task c),
      iv_sessionId = tk_sessionId (rx_task c), iv_name = tc_name call,
      iv_arguments = tc_arguments call, iv_tabId = rx_tabId c, iv_plannedUrl = plannedUrl,
      iv_taintState = Some (rs_taint s), iv_taintSalt = Some (rx_taintSalt c),
      iv_saltEpoch = Some (rx_saltEpoch c),
      iv_taintSignature = Some (rt_taintSignature rt (rs_taint s))\<rparr>"

text \<open>Arguments that were not valid JSON are answered without a dispatch.\<close>

definition malformed_call ::
  "'w runtime \<Rightarrow> run_context \<Rightarrow> tool_call \<Rightarrow> string \<Rightarrow> run_state \<Rightarrow> ('w, run_state + run_output) effect" where
  "malformed_call rt c call problem s =
     (let name = fromWireName (tc_name call);
          error = createError TOOL_CALL_INVALID
            (''Arguments for '' @ name @ '' were not valid JSON.'')
            (default_init\<lparr>ei_userMessage := Some (''The model produced malformed arguments: '' @ problem)\<rparr>)
      in andThen
           (recordStep rt (tk_id (rx_task c)) (rs_stepIndex s) tool_call_step (Some name) None
             (name @ '' was called with malformed arguments.'') step_error None (Some error))
           (\<lambda>_. yields (Inl
              (s\<lparr>rs_parts := rs_parts s @ [toolResultPart rt call (Inr error)],
                 rs_failed := rs_failed s @ [name @ '': malformed arguments''],
                 rs_stepIndex := rs_stepIndex s + 1\<rparr>))))"

definition count_call :: "dispatch_result \<Rightarrow> task_usage \<Rightarrow> task_usage" where
  "count_call d usage =
     usage\<lparr>us_toolCalls := us_toolCalls usage + 1,
           us_screenshots :=
             (if te_evidence (dr_envelope d) \<noteq> None \<and>
                 list_ex (\<lambda>e. ev_type e = SCREENSHOT) (dr_evidence d)
              then us_screenshots usage + 1 else us_screenshots usage)\<rparr>"

definition evidence_stage ::
  "'w runtime \<Rightarrow> run_context \<Rightarrow> dispatch_result \<Rightarrow> run_state \<Rightarrow> ('w, run_state) effect" where
  "evidence_stage rt c d s =
     (let s = s\<lparr>rs_usage := count_call d (rs_usage s)\<rparr>
      in if dr_evidence d = [] then yields s
         else andThen (rt_onEvidence rt (tk_id (rx_task c)) (dr_evidence d))
                (\<lambda>_. yields (s\<lparr>rs_evidenceIds := rs_evidenceIds s @ map ev_id (dr_evidence d)\<rparr>)))"

definition taint_stage ::
  "'w runtime \<Rightarrow> run_context \<Rightarrow> dispatch_result \<Rightarrow> run_state \<Rightarrow> ('w, run_state + run_output) effect" where
  "taint_stage rt c d s =
     (if dr_taint d = [] then yields (Inl s)
      else andThen (rt_persistTaint rt (tk_id (rx_task c)) (dr_taint d))
             (\<lambda>persisted. case persisted of
                None \<Rightarrow>
                  ends (terminate rt (rx_task c) out_PARTIAL
                    (''Paused: the record of what this task has read could not be saved, so no '' @
                     ''further action can be authorised. Resume once storage is available.'')
                    (rs_evidenceIds s) (rs_usage s) (actions_of s) None)
              | Some taint \<Rightarrow> yields (Inl (s\<lparr>rs_taint := taint\<rparr>))))"

definition refused_code :: "error_code option \<Rightarrow> bool" where
  "refused_code code = (code = Some POLICY_BLOCKED_ERROR \<or> code = Some PERMISSION_DENIED)"

definition message_or :: "dispatch_result \<Rightarrow> string \<Rightarrow> string" where
  "message_or d fallback =
     (case te_error (dr_envelope d) of None \<Rightarrow> fallback | Some (code, message) \<Rightarrow> message)"

definition note_outcome :: "string \<Rightarrow> dispatch_result \<Rightarrow> run_state \<Rightarrow> run_state" where
  "note_outcome name d s =
     (if te_success (dr_envelope d) then
        (let s = s\<lparr>rs_completed := rs_completed s @ [name]\<rparr>
         in case dr_policy d of
              None \<Rightarrow> s
            | Some policy \<Rightarrow>
                if pd_exfiltration policy \<noteq> None then
                  s\<lparr>rs_externalWrites := rs_externalWrites s @ [name],
                    rs_usage := (rs_usage s)\<lparr>us_externalWrites := us_externalWrites (rs_usage s) + 1\<rparr>\<rparr>
                else s)
      else if refused_code (map_option fst (te_error (dr_envelope d))) then
        s\<lparr>rs_blocked := rs_blocked s @ [name @ '': '' @ message_or d ''refused'']\<rparr>
      else s\<lparr>rs_failed := rs_failed s @ [name @ '': '' @ message_or d ''failed'']\<rparr>)"

definition loop_stage ::
  "'w runtime \<Rightarrow> run_context \<Rightarrow> run_state \<Rightarrow> ('w, run_state + run_output) effect" where
  "loop_stage rt c s =
     (if \<not> lk_detected (check_loop (rs_detector s)) then yields (Inl s)
      else
        let detail = loop_detail (rs_detector s);
            error = createError LOOP_DETECTED (or_default detail ''The task stopped repeating.'')
              (default_init
                 \<lparr>ei_userMessage :=
                    Some (or_default detail ''The agent repeated the same action without progress.'' @
                          '' The task stopped rather than carrying on. Retry it, or start it '' @
                          ''again with a more specific objective.''),
                  ei_recoverable := Some True\<rparr>)
        in andThen
             (recordStep rt (tk_id (rx_task c)) (rs_stepIndex s) error_step None None
               (or_default detail ''Loop detected.'') step_error None (Some error))
             (\<lambda>_. ends
                (terminate rt (rx_task c) (partial_or_failed s) (ae_userMessage error)
                  (rs_evidenceIds s) (rs_usage s) (actions_of s) (Some error))))"

definition report_stage ::
  "'w runtime \<Rightarrow> run_context \<Rightarrow> tool_call \<Rightarrow> dispatch_result \<Rightarrow> run_state \<Rightarrow> ('w, run_state + run_output) effect" where
  "report_stage rt c call d s =
     (let name = fromWireName (tc_name call);
          success = te_success (dr_envelope d);
          code = map_option fst (te_error (dr_envelope d));
          s = note_outcome name d s
      in andThen
           (recordStep rt (tk_id (rx_task c)) (rs_stepIndex s) tool_call_step (Some name) (Some (dr_risk d))
             (name @ '' '' @ (if success then ''succeeded'' else message_or d ''failed''))
             (if success then step_success else if refused_code code then step_denied else step_error)
             (Some (map ev_id (dr_evidence d)))
             (map_option (\<lambda>(code, message). createError code message default_init) (te_error (dr_envelope d))))
           (\<lambda>_ w. loop_stage rt c
              (s\<lparr>rs_stepIndex := rs_stepIndex s + 1,
                 rs_parts := rs_parts s @ [toolResultPart rt call (Inl (dr_envelope d))],
                 rs_detector :=
                   record_execution
                     \<lparr>xr_tool = name, xr_argsHash = hashArguments (rt_numberText rt) (tc_arguments call),
                      xr_success = success, xr_errorCode = code, xr_timestamp = rt_now rt w,
                      xr_mutating = (dr_risk d \<noteq> R0)\<rparr>
                     (rs_detector s)\<rparr>) w))"

definition dispatch_call ::
  "'w runtime \<Rightarrow> run_context \<Rightarrow> string option \<Rightarrow> tool_call \<Rightarrow> run_state \<Rightarrow> ('w, run_state + run_output) effect" where
  "dispatch_call rt c plannedUrl call s =
     andThen (rt_onActivity rt (tk_id (rx_task c)) (describeActivity (fromWireName (tc_name call))))
       (\<lambda>_. andThen (rt_onStateChange rt (tk_id (rx_task c)) WAITING_FOR_TOOL None)
       (\<lambda>_. andThen (rt_dispatch rt (invocation_of rt c plannedUrl call s))
       (\<lambda>d. andThen (evidence_stage rt c d s)
       (\<lambda>s. continuing (taint_stage rt c d s)
       (\<lambda>s. report_stage rt c call d s)))))"

definition run_call ::
  "'w runtime \<Rightarrow> run_context \<Rightarrow> string option \<Rightarrow> tool_call \<Rightarrow> run_state \<Rightarrow> ('w, run_state + run_output) effect" where
  "run_call rt c plannedUrl call s w =
     (if aborted (rt_signal rt w) then
        ends (stop rt (rx_task c) (rs_evidenceIds s) (rs_usage s)) w
      else
        (case tc_parseError call of
           Some problem \<Rightarrow>
             if problem \<noteq> [] then malformed_call rt c call problem s w
             else dispatch_call rt c plannedUrl call s w
         | None \<Rightarrow> dispatch_call rt c plannedUrl call s w))"

fun run_calls ::
  "'w runtime \<Rightarrow> run_context \<Rightarrow> string option \<Rightarrow> tool_call list \<Rightarrow> run_state \<Rightarrow> ('w, run_state + run_output) effect" where
  "run_calls rt c plannedUrl [] s = yields (Inl s)"
| "run_calls rt c plannedUrl (call # calls) s =
     continuing (run_call rt c plannedUrl call s) (run_calls rt c plannedUrl calls)"

subsection \<open>One turn\<close>

definition observeTabUrl :: "'w runtime \<Rightarrow> int option \<Rightarrow> ('w, string option) effect" where
  "observeTabUrl rt tabId w =
     (case (tabId, rt_resolveTabUrl rt) of
        (Some tab, Some resolve) \<Rightarrow>
          (case resolve tab w of (None, w') \<Rightarrow> (Some None, w') | (Some url, w') \<Rightarrow> (Some url, w'))
      | _ \<Rightarrow> (Some None, w))"

definition request_of :: "'w runtime \<Rightarrow> run_context \<Rightarrow> run_state \<Rightarrow> canonical_request" where
  "request_of rt c s =
     buildRequest (rt_argumentsSize rt) (tk_permissionMode (rx_task c)) (rs_messages s) (rx_tools c)
       (rx_vision c) (rt_contextBudget rt) None
       (Some \<lparr>re_taskId = tk_id (rx_task c), re_taintState = rs_taint s,
              re_taintSalt = rx_taintSalt c, re_saltEpoch = rx_saltEpoch c,
              re_taintSignature = rt_taintSignature rt (rs_taint s),
              re_providerId = tk_providerId (rx_task c),
              re_connectionId = tk_connectionId (rx_task c), re_modelId = tk_modelId (rx_task c)\<rparr>)"

text \<open>The wait before a retry, which an abort cuts short.\<close>

definition retry_wait ::
  "'w runtime \<Rightarrow> run_context \<Rightarrow> int \<Rightarrow> run_state \<Rightarrow> ('w, run_state + run_output) effect" where
  "retry_wait rt c delayMs s w =
     (let (slept, w) = rt_sleep rt delayMs w
      in if slept then yields (Inl s) w
         else ends (stop rt (rx_task c) (rs_evidenceIds s) (rs_usage s)) w)"

definition failed_turn ::
  "'w runtime \<Rightarrow> run_context \<Rightarrow> provider_failure \<Rightarrow> run_state \<Rightarrow> ('w, run_state + run_output) effect" where
  "failed_turn rt c failure s w =
     (let error = toProviderError (pf_kind failure);
          retry = decideRetryFor
            \<lparr>rc_code = ae_code error, rc_retryable = ae_retryable error,
             rc_retryAfterMs = pf_retryAfterMs failure\<rparr>
            (us_retries (rs_usage s) + 1) DEFAULT_RETRY_POLICY (rt_random rt w)
      in if ae_code error = USER_CANCELLED then
           ends (stop rt (rx_task c) (rs_evidenceIds s) (rs_usage s)) w
         else if rd_shouldRetry retry then
           (let s = s\<lparr>rs_usage := (rs_usage s)\<lparr>us_retries := us_retries (rs_usage s) + 1\<rparr>\<rparr>
            in andThen (rt_onStateChange rt (tk_id (rx_task c)) RECOVERING (Some (rd_reason retry)))
                 (\<lambda>_. andThen (rt_onActivity rt (tk_id (rx_task c)) ''Retrying after a provider error'')
                 (\<lambda>_. retry_wait rt c (rd_delayMs retry) s)) w)
         else
           andThen
             (recordStep rt (tk_id (rx_task c)) (rs_stepIndex s) error_step None None
               (ae_userMessage error) step_error None (Some error))
             (\<lambda>_. ends
                (terminate rt (rx_task c) (partial_or_failed s) (ae_userMessage error)
                  (rs_evidenceIds s) (rs_usage s) (actions_of s) (Some error))) w)"

definition assistant_message :: "canonical_response \<Rightarrow> canonical_message" where
  "assistant_message response =
     \<lparr>cm_role = role_assistant,
      cm_content =
        (if js_trim (cn_text response) \<noteq> [] then [Text_Part (cn_text response)] else []) @
        map (\<lambda>call. Tool_Call_Part (tc_toolCallId call) (tc_name call) (tc_arguments call)
                      (tc_providerSignature call)) (cn_toolCalls response)\<rparr>"

definition count_response :: "canonical_response \<Rightarrow> task_usage \<Rightarrow> task_usage" where
  "count_response response usage =
     usage\<lparr>us_modelRequests := us_modelRequests usage + 1,
           us_promptTokens := us_promptTokens usage + cn_promptTokens response,
           us_completionTokens := us_completionTokens usage + cn_completionTokens response\<rparr>"

definition final_turn ::
  "'w runtime \<Rightarrow> run_context \<Rightarrow> canonical_response \<Rightarrow> run_state \<Rightarrow> ('w, run_state + run_output) effect" where
  "final_turn rt c response s =
     (let text = js_trim (cn_text response)
      in andThen
           (recordStep rt (tk_id (rx_task c)) (rs_stepIndex s) message_step None None (take 200 text)
             step_success None None)
           (\<lambda>_. ends
              (terminate rt (rx_task c)
                (if rs_failed s \<noteq> [] \<or> rs_blocked s \<noteq> [] then out_PARTIAL else out_COMPLETED)
                (if text \<noteq> [] then text else ''The task finished.'')
                (rs_evidenceIds s) (rs_usage s) (actions_of s) None)))"

definition answered_turn ::
  "'w runtime \<Rightarrow> run_context \<Rightarrow> string option \<Rightarrow> canonical_response \<Rightarrow> run_state \<Rightarrow>
   ('w, run_state + run_output) effect" where
  "answered_turn rt c plannedUrl response s =
     (let s = s\<lparr>rs_usage := count_response response (rs_usage s)\<rparr>
      in andThen (rt_onUsage rt (tk_id (rx_task c)) (rs_usage s))
           (\<lambda>_. if cn_toolCalls response = [] then final_turn rt c response s
                 else
                   continuing
                     (run_calls rt c plannedUrl (cn_toolCalls response)
                       (s\<lparr>rs_messages := rs_messages s @ [assistant_message response], rs_parts := []\<rparr>))
                     (\<lambda>s. let s = s\<lparr>rs_messages := rs_messages s @ [\<lparr>cm_role = role_tool, cm_content = rs_parts s\<rparr>]\<rparr>
                           in andThen (rt_onUsage rt (tk_id (rx_task c)) (rs_usage s))
                                (\<lambda>_. yields (Inl s)))))"

definition settled_turn ::
  "'w runtime \<Rightarrow> run_context \<Rightarrow> run_state \<Rightarrow> string option \<Rightarrow> provider_failure + canonical_response \<Rightarrow>
   ('w, run_state + run_output) effect" where
  "settled_turn rt c s plannedUrl generated =
     (case generated of
        Inl failure \<Rightarrow> failed_turn rt c failure s
      | Inr response \<Rightarrow> answered_turn rt c plannedUrl response s)"

definition asked_turn ::
  "'w runtime \<Rightarrow> run_context \<Rightarrow> run_state \<Rightarrow> ('w, run_state + run_output) effect" where
  "asked_turn rt c s =
     andThen (rt_onActivity rt (tk_id (rx_task c)) ''Thinking'')
       (\<lambda>_. andThen (rt_onStateChange rt (tk_id (rx_task c)) RUNNING None)
       (\<lambda>_. andThen (observeTabUrl rt (rx_tabId c))
       (\<lambda>plannedUrl w. let (generated, w) = rt_generate rt (request_of rt c s) w
                       in settled_turn rt c s plannedUrl generated w)))"

definition run_turn ::
  "'w runtime \<Rightarrow> run_context \<Rightarrow> run_state \<Rightarrow> ('w, run_state + run_output) effect" where
  "run_turn rt c s w =
     (if aborted (rt_signal rt w) then
        ends (stop rt (rx_task c) (rs_evidenceIds s) (rs_usage s)) w
      else
        (let s = s\<lparr>rs_usage := (rs_usage s)\<lparr>us_elapsedMs := rt_now rt w - rx_startedAt c\<rparr>\<rparr>;
             check = checkBudget (rs_usage s) (or_default (rt_budget rt) DEFAULT_BUDGET)
         in if bc_exhausted check then
              ends
                (terminate rt (rx_task c) (partial_or_failed s)
                  (or_default (bc_detail check) ''A resource budget was exhausted.'' @
                   '' The task stopped rather than continuing past its limit.'')
                  (rs_evidenceIds s) (rs_usage s) (actions_of s) None) w
            else asked_turn rt c s w))"

subsection \<open>What a stage leaves\<close>

lemma continuing_Inl:
  "fst (continuing m k w) = Some (Inl b) \<longleftrightarrow> (\<exists>a w'. m w = (Some (Inl a), w') \<and> fst (k a w') = Some (Inl b))"
  by (cases "m w") (auto simp: continuing_def andThen_def yields_def split: sum.splits option.splits)

lemma continuing_Inr:
  "fst (continuing m k w) = Some (Inr out) \<longleftrightarrow>
   fst (m w) = Some (Inr out) \<or> (\<exists>a w'. m w = (Some (Inl a), w') \<and> fst (k a w') = Some (Inr out))"
  by (cases "m w") (auto simp: continuing_def andThen_def yields_def split: sum.splits option.splits)

lemma ends_Some: "fst (ends m w) = Some r \<longleftrightarrow> (\<exists>out. r = Inr out \<and> fst (m w) = Some out)"
  by (auto simp: ends_def andThen_Some) (metis fst_conv prod.collapse)

lemmas stage_simps = andThen_Some continuing_Inl continuing_Inr ends_Some

text \<open>The two counters that bound the loop.\<close>

definition same_counts :: "run_state \<Rightarrow> run_state \<Rightarrow> bool" where
  "same_counts s s' \<longleftrightarrow>
     us_modelRequests (rs_usage s') = us_modelRequests (rs_usage s) \<and>
     us_retries (rs_usage s') = us_retries (rs_usage s)"

lemma note_outcome_counts: "same_counts s (note_outcome name d s)"
  by (auto simp: same_counts_def note_outcome_def Let_def split: option.split)

lemma loop_stage_Inl: "fst (loop_stage rt c s w) = Some (Inl s') \<Longrightarrow> s' = s"
  by (auto simp: loop_stage_def Let_def stage_simps split: if_splits)

lemma report_stage_Inl:
  assumes "fst (report_stage rt c call d s w) = Some (Inl s')"
  shows "\<exists>parts detector. s' = (note_outcome (fromWireName (tc_name call)) d s)
     \<lparr>rs_stepIndex := rs_stepIndex s + 1, rs_parts := parts, rs_detector := detector\<rparr>"
proof -
  have [simp]: "rs_stepIndex (note_outcome n d s) = rs_stepIndex s" for n
    by (simp add: note_outcome_def Let_def split: option.split)
  show ?thesis
    using assms by (auto simp: report_stage_def Let_def andThen_Some dest!: loop_stage_Inl)
qed

lemma taint_stage_Inl:
  "fst (taint_stage rt c d s w) = Some (Inl s') \<Longrightarrow> \<exists>taint. s' = s\<lparr>rs_taint := taint\<rparr>"
  by (cases s) (auto simp: taint_stage_def stage_simps split: if_splits option.splits)

lemma evidence_stage_Some:
  "fst (evidence_stage rt c d s w) = Some s' \<Longrightarrow>
   \<exists>ids. s' = s\<lparr>rs_usage := count_call d (rs_usage s), rs_evidenceIds := ids\<rparr>"
  by (cases s) (auto simp: evidence_stage_def Let_def andThen_Some split: if_splits)

lemma dispatch_call_counts:
  assumes "fst (dispatch_call rt c url call s w) = Some (Inl s')"
  shows "same_counts s s'"
proof -
  obtain d w1 s1 w2 s2 w3 where
      e: "fst (evidence_stage rt c d s w1) = Some s1"
      and t: "fst (taint_stage rt c d s1 w2) = Some (Inl s2)"
      and r: "fst (report_stage rt c call d s2 w3) = Some (Inl s')"
    using assms by (auto simp: dispatch_call_def stage_simps) (metis fst_conv)
  show ?thesis
    using evidence_stage_Some [OF e] taint_stage_Inl [OF t] report_stage_Inl [OF r]
      note_outcome_counts [of s2 "fromWireName (tc_name call)" d]
    by (auto simp: same_counts_def count_call_def)
qed

lemma malformed_call_counts:
  "fst (malformed_call rt c call problem s w) = Some (Inl s') \<Longrightarrow> same_counts s s'"
  by (auto simp: malformed_call_def Let_def stage_simps same_counts_def)

lemma run_call_counts: "fst (run_call rt c url call s w) = Some (Inl s') \<Longrightarrow> same_counts s s'"
  by (auto simp: run_call_def stage_simps dest: dispatch_call_counts malformed_call_counts
      split: if_splits option.splits)

lemma run_calls_counts: "fst (run_calls rt c url calls s w) = Some (Inl s') \<Longrightarrow> same_counts s s'"
proof (induction calls arbitrary: s w)
  case (Cons call calls)
  then obtain s1 w1 where "fst (run_call rt c url call s w) = Some (Inl s1)"
      "fst (run_calls rt c url calls s1 w1) = Some (Inl s')"
    by (auto simp: continuing_Inl)
  then show ?case
    using run_call_counts Cons.IH by (fastforce simp: same_counts_def)
qed (simp add: same_counts_def)

text \<open>A turn that does not end the run made one request or one retry, within the limits.\<close>

definition advanced :: "'w runtime \<Rightarrow> run_state \<Rightarrow> run_state \<Rightarrow> bool" where
  "advanced rt s s' \<longleftrightarrow>
     us_modelRequests (rs_usage s) < bg_maxModelRequests (or_default (rt_budget rt) DEFAULT_BUDGET) \<and>
     (us_modelRequests (rs_usage s') = us_modelRequests (rs_usage s) + 1 \<and>
        us_retries (rs_usage s') = us_retries (rs_usage s) \<or>
      us_modelRequests (rs_usage s') = us_modelRequests (rs_usage s) \<and>
        us_retries (rs_usage s') = us_retries (rs_usage s) + 1 \<and>
        us_retries (rs_usage s') < rp_maxAttempts DEFAULT_RETRY_POLICY)"

lemma retry_wait_Inl: "fst (retry_wait rt c delayMs s w) = Some (Inl s') \<Longrightarrow> s' = s"
  by (auto simp: retry_wait_def case_prod_beta stage_simps split: if_splits)

lemma failed_turn_Inl:
  "fst (failed_turn rt c failure s w) = Some (Inl s') \<Longrightarrow>
   s' = s\<lparr>rs_usage := (rs_usage s)\<lparr>us_retries := us_retries (rs_usage s) + 1\<rparr>\<rparr> \<and>
   us_retries (rs_usage s) + 1 < rp_maxAttempts DEFAULT_RETRY_POLICY"
  by (auto simp: failed_turn_def Let_def stage_simps shouldRetry_iff dest!: retry_wait_Inl split: if_splits)

lemma answered_turn_Inl:
  assumes "fst (answered_turn rt c url response s w) = Some (Inl s')"
  shows "us_modelRequests (rs_usage s') = us_modelRequests (rs_usage s) + 1 \<and>
    us_retries (rs_usage s') = us_retries (rs_usage s)"
proof -
  let ?s = "s\<lparr>rs_usage := count_response response (rs_usage s)\<rparr>"
  let ?s0 = "?s\<lparr>rs_messages := rs_messages s @ [assistant_message response], rs_parts := []\<rparr>"
  have "cn_toolCalls response \<noteq> []"
    using assms by (auto simp: answered_turn_def final_turn_def Let_def stage_simps)
  then obtain s1 w1 w2 where r: "run_calls rt c url (cn_toolCalls response) ?s0 w1 = (Some (Inl s1), w2)"
      and "rs_usage s' = rs_usage s1"
    using assms by (auto simp: answered_turn_def Let_def stage_simps)
  moreover have "same_counts ?s0 s1" by (rule run_calls_counts [of rt c url "cn_toolCalls response" ?s0 w1]) (simp add: r)
  ultimately show ?thesis by (simp add: same_counts_def count_response_def)
qed

lemma run_turn_advanced:
  assumes "run_turn rt c s w = (Some (Inl s'), w')"
  shows "advanced rt s s'"
proof -
  let ?s = "s\<lparr>rs_usage := (rs_usage s)\<lparr>us_elapsedMs := rt_now rt w - rx_startedAt c\<rparr>\<rparr>"
  have fst: "fst (run_turn rt c s w) = Some (Inl s')" using assms by simp
  have live: "\<not> aborted (rt_signal rt w)"
    using fst by (auto simp: run_turn_def stage_simps split: if_splits)
  have within_budget: "\<not> bc_exhausted (checkBudget (rs_usage ?s) (or_default (rt_budget rt) DEFAULT_BUDGET))"
    and asked: "fst (asked_turn rt c ?s w) = Some (Inl s')"
    using fst live by (auto simp: run_turn_def Let_def stage_simps split: if_splits)
  have m: "us_modelRequests (rs_usage s) < bg_maxModelRequests (or_default (rt_budget rt) DEFAULT_BUDGET)"
    using within_budget by (simp add: exhausted_iff)
  from asked obtain url generated w1 where "fst (settled_turn rt c ?s url generated w1) = Some (Inl s')"
    by (auto simp: asked_turn_def andThen_Some case_prod_beta)
  then have "us_modelRequests (rs_usage s') = us_modelRequests (rs_usage s) + 1 \<and>
        us_retries (rs_usage s') = us_retries (rs_usage s) \<or>
      us_modelRequests (rs_usage s') = us_modelRequests (rs_usage s) \<and>
        us_retries (rs_usage s') = us_retries (rs_usage s) + 1 \<and>
        us_retries (rs_usage s') < rp_maxAttempts DEFAULT_RETRY_POLICY"
    by (auto simp: settled_turn_def split: sum.splits dest!: failed_turn_Inl answered_turn_Inl)
  then show ?thesis using m by (auto simp: advanced_def)
qed

subsection \<open>The loop\<close>

definition remaining :: "'w runtime \<Rightarrow> run_state \<Rightarrow> nat" where
  "remaining rt s =
     nat (bg_maxModelRequests (or_default (rt_budget rt) DEFAULT_BUDGET) - us_modelRequests (rs_usage s)) +
     nat (rp_maxAttempts DEFAULT_RETRY_POLICY - us_retries (rs_usage s))"

lemma advanced_remaining: "advanced rt s s' \<Longrightarrow> remaining rt s' < remaining rt s"
  by (auto simp: advanced_def remaining_def)

function run_loop :: "'w runtime \<Rightarrow> run_context \<Rightarrow> run_state \<Rightarrow> ('w, run_output) effect" where
  "run_loop rt c s w =
     (case run_turn rt c s w of
        (None, w') \<Rightarrow> (None, w')
      | (Some (Inr out), w') \<Rightarrow> (Some out, w')
      | (Some (Inl s'), w') \<Rightarrow> run_loop rt c s' w')"
  by pat_completeness auto

termination
  by (relation "measure (\<lambda>(rt, c, s, w). remaining rt s)")
    (auto dest!: run_turn_advanced [OF sym] intro: advanced_remaining)

declare run_loop.simps [simp del]

subsection \<open>A run\<close>

definition start_state :: "run_input \<Rightarrow> run_state" where
  "start_state input =
     (let task = ri_task input
      in \<lparr>rs_messages =
            ri_history input @ [\<lparr>cm_role = role_user, cm_content = [Text_Part (tk_objective task)]\<rparr>],
          rs_detector = newLoopDetector, rs_taint = tk_taintState task,
          rs_evidenceIds = tk_evidenceIds task, rs_completed = [], rs_failed = [], rs_blocked = [],
          rs_externalWrites = [], rs_usage = (tk_usage task)\<lparr>us_elapsedMs := 0\<rparr>,
          rs_stepIndex = length (tk_steps task), rs_parts = []\<rparr>)"

definition usable_salt :: "'w runtime \<Rightarrow> agent_task \<Rightarrow> ('w, (string \<times> int) option) effect" where
  "usable_salt rt task =
     (if isValidTaintSalt (JStr (tk_taintSalt task)) then
        yields (Some (tk_taintSalt task, tk_saltEpoch task))
      else rt_recoverSalt rt (tk_id task))"

definition run_with_salt ::
  "'w runtime \<Rightarrow> run_input \<Rightarrow> int \<Rightarrow> (string \<times> int) option \<Rightarrow> ('w, run_output) effect" where
  "run_with_salt rt input startedAt salt =
     (let task = ri_task input; s = start_state input
      in case salt of
           None \<Rightarrow>
             terminate rt task out_PARTIAL
               (''Paused: the key used to record outbound transfers could not be restored, so no '' @
                ''transfer can be authorised. Resume once storage is available.'')
               (rs_evidenceIds s) (rs_usage s) no_actions None
         | Some (taintSalt, saltEpoch) \<Rightarrow>
             andThen (rt_onStateChange rt (tk_id task) PLANNING (Some ''Planning the approach.''))
               (\<lambda>_. run_loop rt
                  \<lparr>rx_task = task, rx_taintSalt = taintSalt, rx_saltEpoch = saltEpoch,
                   rx_tools =
                     rt_schemas rt
                       (if tk_allowedTools task = Some [] then None else tk_allowedTools task),
                   rx_vision = ri_vision input, rx_tabId = ri_tabId input,
                   rx_startedAt = startedAt\<rparr> s))"

definition run :: "'w runtime \<Rightarrow> run_input \<Rightarrow> ('w, run_output) effect" where
  "run rt input w =
     (let task = ri_task input; startedAt = rt_now rt w
      in if \<not> ri_toolCalling input then
           terminate rt task out_BLOCKED
             (''The selected model does not support tool calling, so it cannot operate the browser. '' @
              ''Choose a model that passes the tool-calling check in the capability doctor.'')
             [] (emptyUsage\<lparr>us_elapsedMs := rt_now rt w - startedAt\<rparr>) no_actions None w
         else andThen (usable_salt rt task) (run_with_salt rt input startedAt) w)"

subsection \<open>Effects that leave a part of the world alone\<close>

definition keeps :: "('w \<Rightarrow> 'c) \<Rightarrow> ('w, 'a) effect \<Rightarrow> bool" where
  "keeps part m \<longleftrightarrow> (\<forall>w. part (snd (m w)) = part w)"

named_theorems keeps_intros

lemma keepsI: "(\<And>w. part (snd (m w)) = part w) \<Longrightarrow> keeps part m"
  by (simp add: keeps_def)

lemma keepsD: "keeps part m \<Longrightarrow> part (snd (m w)) = part w"
  by (simp add: keeps_def)

lemma keeps_yields [keeps_intros]: "keeps part (yields a)"
  by (simp add: keeps_def yields_def)

lemma keeps_andThen [keeps_intros]:
  assumes "keeps part m" and "\<And>a. keeps part (k a)"
  shows "keeps part (andThen m k)"
proof (rule keepsI)
  fix w
  obtain r w' where "m w = (r, w')" by fastforce
  moreover from this have "part w' = part w" using keepsD [OF assms(1), of w] by simp
  ultimately show "part (snd (andThen m k w)) = part w"
    using keepsD [OF assms(2)] by (cases r) (simp_all add: andThen_def)
qed

lemma keeps_continuing [keeps_intros]:
  "keeps part m \<Longrightarrow> (\<And>a. keeps part (k a)) \<Longrightarrow> keeps part (continuing m k)"
  unfolding continuing_def by (intro keeps_andThen) (auto split: sum.split intro: keeps_yields)

lemma keeps_ends [keeps_intros]: "keeps part m \<Longrightarrow> keeps part (ends m)"
  unfolding ends_def by (intro keeps_andThen keeps_yields)

text \<open>
  Neither the callbacks that write and announce nor the timer change \<open>part\<close>; and, in \<open>only_generate\<close>,
  nothing but the provider does.
\<close>

definition quiet :: "('w \<Rightarrow> 'c) \<Rightarrow> 'w runtime \<Rightarrow> bool" where
  "quiet part rt \<longleftrightarrow>
     (\<forall>delay w. part (snd (rt_sleep rt delay w)) = part w) \<and>
     (\<forall>task state summary. keeps part (rt_onStateChange rt task state summary)) \<and>
     (\<forall>task result. keeps part (rt_onComplete rt task result)) \<and>
     (\<forall>task step. keeps part (rt_onStep rt task step)) \<and>
     (\<forall>task activity. keeps part (rt_onActivity rt task activity)) \<and>
     (\<forall>task usage. keeps part (rt_onUsage rt task usage)) \<and>
     (\<forall>task evidence. keeps part (rt_onEvidence rt task evidence)) \<and>
     (\<forall>task. keeps part (rt_recoverSalt rt task)) \<and>
     (\<forall>resolve tab. rt_resolveTabUrl rt = Some resolve \<longrightarrow> keeps part (resolve tab))"

definition only_generate :: "('w \<Rightarrow> 'c) \<Rightarrow> 'w runtime \<Rightarrow> bool" where
  "only_generate part rt \<longleftrightarrow>
     quiet part rt \<and> (\<forall>task sources. keeps part (rt_persistTaint rt task sources)) \<and>
     (\<forall>iv. keeps part (rt_dispatch rt iv))"

lemma only_quiet [keeps_intros]: "only_generate part rt \<Longrightarrow> quiet part rt"
  by (simp add: only_generate_def)

lemma keeps_callbacks [keeps_intros]:
  "quiet part rt \<Longrightarrow> keeps part (rt_onStateChange rt task state summary)"
  "quiet part rt \<Longrightarrow> keeps part (rt_onComplete rt task result)"
  "quiet part rt \<Longrightarrow> keeps part (rt_onStep rt task step)"
  "quiet part rt \<Longrightarrow> keeps part (rt_onActivity rt task activity)"
  "quiet part rt \<Longrightarrow> keeps part (rt_onUsage rt task usage)"
  "quiet part rt \<Longrightarrow> keeps part (rt_onEvidence rt task evidence)"
  "quiet part rt \<Longrightarrow> keeps part (rt_recoverSalt rt task)"
  by (simp_all add: quiet_def)

lemma keeps_actors [keeps_intros]:
  "only_generate part rt \<Longrightarrow> keeps part (rt_persistTaint rt task sources)"
  "only_generate part rt \<Longrightarrow> keeps part (rt_dispatch rt iv)"
  by (simp_all add: only_generate_def)

lemma keeps_terminate [keeps_intros]:
  "quiet part rt \<Longrightarrow> keeps part (terminate rt task outcome summary ids usage actions error)"
  by (cases actions) (simp add: terminate_def Let_def keeps_intros)

lemma keeps_stop [keeps_intros]: "quiet part rt \<Longrightarrow> keeps part (stop rt task ids usage)"
  by (rule keepsI) (simp add: stop_def keepsD keeps_intros)

lemma keeps_recordStep [keeps_intros]:
  "quiet part rt \<Longrightarrow> keeps part (recordStep rt task i kind tool risk summary status ids error)"
  by (rule keepsI) (simp add: recordStep_def Let_def keepsD keeps_intros)

lemma keeps_evidence_stage [keeps_intros]:
  "quiet part rt \<Longrightarrow> keeps part (evidence_stage rt c d s)"
  by (simp add: evidence_stage_def Let_def keeps_intros)

lemma keeps_taint_stage [keeps_intros]: "only_generate part rt \<Longrightarrow> keeps part (taint_stage rt c d s)"
  by (auto simp: taint_stage_def intro!: keeps_intros split: option.split)

lemma keeps_loop_stage [keeps_intros]: "quiet part rt \<Longrightarrow> keeps part (loop_stage rt c s)"
  by (simp add: loop_stage_def Let_def keeps_intros)

lemma keeps_report_stage [keeps_intros]:
  "quiet part rt \<Longrightarrow> keeps part (report_stage rt c call d s)"
  unfolding report_stage_def Let_def
  by (intro keeps_intros keepsI) (simp_all add: keepsD keeps_intros)

lemma keeps_run_call: "only_generate part rt \<Longrightarrow> keeps part (run_call rt c url call s)"
  by (rule keepsI)
    (simp add: run_call_def malformed_call_def dispatch_call_def Let_def keepsD keeps_intros split: option.split)

lemma keeps_run_calls [keeps_intros]:
  "only_generate part rt \<Longrightarrow> keeps part (run_calls rt c url calls s)"
  by (induction calls arbitrary: s) (simp_all add: keeps_intros keeps_run_call)

lemma keeps_observeTabUrl [keeps_intros]: "quiet part rt \<Longrightarrow> keeps part (observeTabUrl rt tab)"
  by (rule keepsI)
    (auto simp: observeTabUrl_def quiet_def keeps_def split: option.split prod.split dest!: sym [of _ "(_, _)"],
     (metis snd_conv)+)

lemma keeps_retry_wait [keeps_intros]:
  assumes "quiet part rt"
  shows "keeps part (retry_wait rt c delayMs s)"
proof (rule keepsI)
  fix w
  have "part (snd (rt_sleep rt delayMs w)) = part w" using assms by (simp add: quiet_def)
  then show "part (snd (retry_wait rt c delayMs s w)) = part w"
    using assms by (simp add: retry_wait_def case_prod_beta keepsD keeps_intros)
qed

lemma keeps_settled_turn [keeps_intros]:
  assumes "only_generate part rt"
  shows "keeps part (settled_turn rt c s url generated)"
proof (cases generated)
  case (Inl failure)
  then show ?thesis
    using assms by (intro keepsI) (simp add: settled_turn_def failed_turn_def Let_def keepsD keeps_intros)
next
  case (Inr response)
  then show ?thesis
    using assms
    by (simp add: settled_turn_def answered_turn_def final_turn_def Let_def keeps_intros)
qed

subsection \<open>Weakest preconditions\<close>

definition leaves :: "('w, 'a) effect \<Rightarrow> 'w \<Rightarrow> ('a \<Rightarrow> 'w \<Rightarrow> bool) \<Rightarrow> bool" where
  "leaves m w Q \<longleftrightarrow> (\<forall>a w'. m w = (Some a, w') \<longrightarrow> Q a w')"

named_theorems leaves_simps

lemma leaves_yields [leaves_simps]: "leaves (yields a) w Q \<longleftrightarrow> Q a w"
  by (simp add: leaves_def yields_def)

lemma leaves_andThen [leaves_simps]:
  "leaves (andThen m k) w Q \<longleftrightarrow> leaves m w (\<lambda>a w'. leaves (k a) w' Q)"
  by (auto simp: leaves_def andThen_def split: prod.splits option.splits)

lemma leaves_ends [leaves_simps]: "leaves (ends m) w Q \<longleftrightarrow> leaves m w (\<lambda>out. Q (Inr out))"
  by (simp add: ends_def leaves_simps)

lemma leaves_continuing [leaves_simps]:
  "leaves (continuing m k) w Q \<longleftrightarrow>
   leaves m w (\<lambda>r w'. case r of Inl a \<Rightarrow> leaves (k a) w' Q | Inr out \<Rightarrow> Q (Inr out) w')"
proof -
  have "leaves (case r of Inl a \<Rightarrow> k a | Inr out \<Rightarrow> yields (Inr out)) w Q \<longleftrightarrow>
      (case r of Inl a \<Rightarrow> leaves (k a) w Q | Inr out \<Rightarrow> Q (Inr out) w)" for r w
    by (cases r) (simp_all add: leaves_simps)
  then show ?thesis by (simp add: continuing_def leaves_simps)
qed

lemma leaves_mono: "leaves m w Q \<Longrightarrow> (\<And>a w'. m w = (Some a, w') \<Longrightarrow> Q a w' \<Longrightarrow> R a w') \<Longrightarrow> leaves m w R"
  by (auto simp: leaves_def)

lemma leavesD: "leaves m w Q \<Longrightarrow> m w = (Some a, w') \<Longrightarrow> Q a w'"
  by (simp add: leaves_def)

lemma leavesI: "(\<And>a w'. m w = (Some a, w') \<Longrightarrow> Q a w') \<Longrightarrow> leaves m w Q"
  by (simp add: leaves_def)

lemma leaves_anything: "(\<And>a w'. Q a w') \<Longrightarrow> leaves m w Q"
  by (simp add: leaves_def)

lemma leaves_at: "m w = m' w \<Longrightarrow> leaves m w Q \<longleftrightarrow> leaves m' w Q"
  by (simp add: leaves_def)

lemma leaves_keeps: "keeps part m \<Longrightarrow> (\<And>a w'. part w' = part w \<Longrightarrow> Q a w') \<Longrightarrow> leaves m w Q"
  unfolding leaves_def keeps_def by (metis snd_conv)

subsection \<open>How long a run can last\<close>

fun usage_of :: "run_state + run_output \<Rightarrow> task_usage" where
  "usage_of (Inl s) = rs_usage s"
| "usage_of (Inr out) = ru_usage out"

definition counters :: "task_usage \<Rightarrow> int \<times> int" where
  "counters u = (us_modelRequests u, us_retries u)"

lemma terminate_output:
  "leaves (terminate rt task outcome summary ids usage actions error) w
     (\<lambda>out w'. ru_usage out = usage \<and> tr_outcome (ru_result out) = outcome \<and> ru_error out = error \<and>
        actions = (tr_completedActions (ru_result out), tr_failedActions (ru_result out),
                   tr_blockedActions (ru_result out), tr_externalWrites (ru_result out)))"
  by (cases actions) (simp add: terminate_def Let_def leaves_simps leaves_anything)

lemma stop_output:
  "leaves (stop rt task ids usage) w
     (\<lambda>out w'. ru_usage out = usage \<and> tr_outcome (ru_result out) \<noteq> out_COMPLETED)"
proof (cases "abortedForPause (rt_signal rt w)")
  case False
  then have "stop rt task ids usage w =
      terminate rt task out_CANCELLED ''The task was cancelled.'' ids usage no_actions None w"
    by (simp add: stop_def)
  then show ?thesis
    by (subst leaves_at, assumption) (rule leaves_mono [OF terminate_output], simp)
qed (simp add: stop_def leaves_def yields_def)

lemma terminate_usage:
  "(\<And>out w'. ru_usage out = usage \<Longrightarrow> Q out w') \<Longrightarrow>
   leaves (terminate rt task outcome summary ids usage actions error) w Q"
  by (rule leaves_mono [OF terminate_output]) simp

lemma stop_usage:
  "(\<And>out w'. ru_usage out = usage \<Longrightarrow> Q out w') \<Longrightarrow> leaves (stop rt task ids usage) w Q"
  by (rule leaves_mono [OF stop_output]) simp

lemma dispatch_call_ends:
  "leaves (dispatch_call rt c url call s) w (\<lambda>r w'. counters (usage_of r) = counters (rs_usage s))"
proof -
  have note_counters: "counters (rs_usage (note_outcome name d s)) = counters (rs_usage s)" for name d s
    using note_outcome_counts [of s name d] by (simp add: same_counts_def counters_def)
  have loop: "leaves (loop_stage rt c s) w (\<lambda>r w'. counters (usage_of r) = counters (rs_usage s))" for s w
    by (auto simp: loop_stage_def Let_def leaves_simps intro!: leaves_anything terminate_usage)
  have report: "leaves (report_stage rt c call d s) w (\<lambda>r w'. counters (usage_of r) = counters (rs_usage s))"
    for d s w
  proof -
    have logged: "leaves (\<lambda>w. loop_stage rt c (f w) w) w (\<lambda>r w'. counters (usage_of r) = counters (rs_usage s))"
      if "counters (rs_usage (f w)) = counters (rs_usage s)" for f w
      using leavesD [OF loop [of "f w" w]] that by (simp add: leaves_def)
    show ?thesis
      unfolding report_stage_def Let_def leaves_andThen
      by (rule leaves_anything, rule logged) (simp add: note_counters)
  qed
  have taint: "leaves (taint_stage rt c d s) w
      (\<lambda>r w'. counters (usage_of r) = counters (rs_usage s))" for d s w
  proof (cases "dr_taint d = []")
    case False
    have "leaves (terminate rt (rx_task c) outcome summary ids (rs_usage s) actions error) w
        (\<lambda>out w'. counters (ru_usage out) = counters (rs_usage s))" for outcome summary ids actions error w
      by (rule terminate_usage) simp
    then show ?thesis
      using False unfolding taint_stage_def
      by (simp add: leaves_simps) (rule leaves_anything, simp add: leaves_simps split: option.split)
  qed (simp add: taint_stage_def leaves_simps)
  have evidence: "leaves (evidence_stage rt c d s) w (\<lambda>s' w'. counters (rs_usage s') = counters (rs_usage s))"
    for d s w
    by (simp add: evidence_stage_def Let_def leaves_simps leaves_anything counters_def count_call_def)
  have after: "leaves (continuing (taint_stage rt c d s) (report_stage rt c call d)) w
      (\<lambda>r w'. counters (usage_of r) = counters (rs_usage s))" for d s w
    unfolding leaves_continuing
    by (rule leaves_mono [OF taint], auto split: sum.split intro!: leaves_mono [OF report])
  show ?thesis
    unfolding dispatch_call_def leaves_andThen
    by (rule leaves_anything, rule leaves_anything, rule leaves_anything, rule leaves_mono [OF evidence],
        rule leaves_mono [OF after], simp)
qed

lemma run_call_ends:
  "leaves (run_call rt c url call s) w (\<lambda>r w'. counters (usage_of r) = counters (rs_usage s))"
proof -
  have stopped: "leaves (ends (stop rt (rx_task c) (rs_evidenceIds s) (rs_usage s))) w
      (\<lambda>r w'. counters (usage_of r) = counters (rs_usage s))"
    by (simp add: leaves_simps stop_usage)
  have malformed: "leaves (malformed_call rt c call problem s) w
      (\<lambda>r w'. counters (usage_of r) = counters (rs_usage s))" for problem
    by (simp add: malformed_call_def Let_def leaves_simps leaves_anything)
  consider "aborted (rt_signal rt w)"
    | problem where "\<not> aborted (rt_signal rt w)" "tc_parseError call = Some problem" "problem \<noteq> []"
    | "\<not> aborted (rt_signal rt w)" "tc_parseError call = None \<or> tc_parseError call = Some []"
    by (cases "tc_parseError call") auto
  then show ?thesis
  proof cases
    case 1
    with stopped show ?thesis by (simp add: leaves_def run_call_def)
  next
    case 2
    with malformed show ?thesis by (simp add: leaves_def run_call_def)
  next
    case 3
    with dispatch_call_ends [of rt c url call s w] show ?thesis
      by (auto simp: leaves_def run_call_def)
  qed
qed

lemma run_calls_ends:
  "leaves (run_calls rt c url calls s) w (\<lambda>r w'. counters (usage_of r) = counters (rs_usage s))"
proof (induction calls arbitrary: s w)
  case (Cons call calls)
  show ?case
    unfolding run_calls.simps leaves_continuing
  proof (rule leaves_mono [OF run_call_ends])
    fix r w'
    assume r: "counters (usage_of r) = counters (rs_usage s)"
    show "case r of Inl a \<Rightarrow> leaves (run_calls rt c url calls a) w'
          (\<lambda>r w'. counters (usage_of r) = counters (rs_usage s))
        | Inr out \<Rightarrow> counters (usage_of (Inr out)) = counters (rs_usage s)"
      using r leaves_mono [OF Cons.IH] by (cases r) auto
  qed
qed (simp add: leaves_simps)

text \<open>The usage a run ends with: one request beyond the last state, and only within the budget.\<close>

definition ends_within :: "'w runtime \<Rightarrow> run_state \<Rightarrow> run_output \<Rightarrow> bool" where
  "ends_within rt s out \<longleftrightarrow>
     us_modelRequests (ru_usage out)
       \<le> max (us_modelRequests (rs_usage s)) (bg_maxModelRequests (or_default (rt_budget rt) DEFAULT_BUDGET)) \<and>
     us_retries (ru_usage out)
       \<le> max (us_retries (rs_usage s)) (rp_maxAttempts DEFAULT_RETRY_POLICY - 1)"

lemma failed_turn_ends:
  "leaves (failed_turn rt c failure s) w
     (\<lambda>r w'. us_modelRequests (usage_of r) = us_modelRequests (rs_usage s) \<and>
        us_retries (usage_of r) \<le> max (us_retries (rs_usage s)) (rp_maxAttempts DEFAULT_RETRY_POLICY - 1))"
proof -
  let ?error = "toProviderError (pf_kind failure)"
  let ?retry = "decideRetryFor
      \<lparr>rc_code = ae_code ?error, rc_retryable = ae_retryable ?error, rc_retryAfterMs = pf_retryAfterMs failure\<rparr>
      (us_retries (rs_usage s) + 1) DEFAULT_RETRY_POLICY (rt_random rt w)"
  let ?s = "s\<lparr>rs_usage := (rs_usage s)\<lparr>us_retries := us_retries (rs_usage s) + 1\<rparr>\<rparr>"
  let ?Q = "\<lambda>r w'. us_modelRequests (usage_of r) = us_modelRequests (rs_usage s) \<and>
        us_retries (usage_of r) \<le> max (us_retries (rs_usage s)) (rp_maxAttempts DEFAULT_RETRY_POLICY - 1)"
  have stopped: "leaves (ends (stop rt (rx_task c) ids (rs_usage s))) w' ?Q" for ids w'
    by (simp add: leaves_simps stop_usage)
  have waited: "leaves (retry_wait rt c delayMs ?s) w' ?Q" if "rd_shouldRetry ?retry" for delayMs w'
  proof -
    have "us_retries (rs_usage s) + 1 < rp_maxAttempts DEFAULT_RETRY_POLICY"
      using that by (simp add: shouldRetry_iff)
    then have ok: "?Q (Inl ?s) w''" and "leaves (ends (stop rt (rx_task c) ids (rs_usage ?s))) w'' ?Q" for ids w''
      by (simp_all add: leaves_simps stop_usage)
    then show ?thesis
      by (cases "rt_sleep rt delayMs w'") (auto simp: retry_wait_def leaves_def yields_def)
  qed
  have ended: "leaves (ends (terminate rt (rx_task c) outcome summary ids (rs_usage s) actions error)) w' ?Q"
    for outcome summary ids actions error w'
    by (simp add: leaves_simps terminate_usage)
  consider "ae_code ?error = USER_CANCELLED" | "ae_code ?error \<noteq> USER_CANCELLED" "rd_shouldRetry ?retry"
    | "ae_code ?error \<noteq> USER_CANCELLED" "\<not> rd_shouldRetry ?retry"
    by blast
  then show ?thesis
  proof cases
    case 1
    with stopped show ?thesis by (simp add: failed_turn_def Let_def leaves_def)
  next
    case 2
    have "leaves (andThen (rt_onStateChange rt (tk_id (rx_task c)) RECOVERING (Some (rd_reason ?retry)))
        (\<lambda>_. andThen (rt_onActivity rt (tk_id (rx_task c)) ''Retrying after a provider error'')
        (\<lambda>_. retry_wait rt c (rd_delayMs ?retry) ?s))) w ?Q"
      unfolding leaves_andThen by (rule leaves_anything, rule leaves_anything, rule waited [OF 2(2)])
    then show ?thesis
      using 2 by (subst leaves_at) (auto simp: failed_turn_def Let_def)
  next
    case 3
    have "leaves (andThen
        (recordStep rt (tk_id (rx_task c)) (rs_stepIndex s) error_step None None
           (ae_userMessage ?error) step_error None (Some ?error))
        (\<lambda>_. ends (terminate rt (rx_task c) (partial_or_failed s) (ae_userMessage ?error)
           (rs_evidenceIds s) (rs_usage s) (actions_of s) (Some ?error)))) w ?Q"
      unfolding leaves_andThen by (rule leaves_anything, rule ended)
    then show ?thesis
      using 3 by (subst leaves_at) (auto simp: failed_turn_def Let_def)
  qed
qed

lemma answered_turn_ends:
  "leaves (answered_turn rt c url response s) w
     (\<lambda>r w'. counters (usage_of r) = counters (count_response response (rs_usage s)))"
proof -
  let ?u = "count_response response (rs_usage s)"
  have final: "leaves (final_turn rt c response (s\<lparr>rs_usage := ?u\<rparr>)) w
      (\<lambda>r w'. counters (usage_of r) = counters ?u)" for w
    unfolding final_turn_def Let_def leaves_andThen leaves_ends
    by (rule leaves_anything, rule terminate_usage) simp
  have calls: "leaves (continuing (run_calls rt c url cs s0)
      (\<lambda>s. andThen (rt_onUsage rt (tk_id (rx_task c)) (rs_usage s)) (\<lambda>_. yields (Inl (f s))))) w
      (\<lambda>r w'. counters (usage_of r) = counters (rs_usage s0))"
    if "\<And>s. rs_usage (f s) = rs_usage s" for cs s0 f w
    unfolding leaves_continuing
    by (rule leaves_mono [OF run_calls_ends])
      (auto simp: leaves_simps that split: sum.split intro: leaves_anything)
  show ?thesis
    unfolding answered_turn_def Let_def leaves_andThen
    by (rule leaves_anything)
      (auto intro!: final leaves_mono [OF calls])
qed

lemma run_turn_ends:
  assumes "run_turn rt c s w = (Some (Inr out), w')"
  shows "ends_within rt s out"
proof -
  let ?s = "s\<lparr>rs_usage := (rs_usage s)\<lparr>us_elapsedMs := rt_now rt w - rx_startedAt c\<rparr>\<rparr>"
  let ?check = "checkBudget (rs_usage ?s) (or_default (rt_budget rt) DEFAULT_BUDGET)"
  let ?Q = "\<lambda>r w'. \<forall>out. r = Inr out \<longrightarrow> ends_within rt s out"
  have same: "ends_within rt s out" if "ru_usage out = rs_usage ?s \<or> ru_usage out = rs_usage s" for out
    using that by (auto simp: ends_within_def)
  have stopped: "leaves (ends (stop rt (rx_task c) ids (rs_usage s))) w' ?Q" for ids w'
    by (auto simp: leaves_simps intro!: stop_usage same)
  have over_budget: "leaves (ends (terminate rt (rx_task c) outcome summary ids (rs_usage ?s) actions error)) w' ?Q"
    for outcome summary ids actions error w'
    using same by (auto simp: leaves_simps intro!: terminate_usage)
  have settled: "leaves (settled_turn rt c ?s url generated) w1 ?Q" if "\<not> bc_exhausted ?check" for url generated w1
  proof (cases generated)
    case (Inl failure)
    have "leaves (failed_turn rt c failure ?s) w1 ?Q"
      by (rule leaves_mono [OF failed_turn_ends]) (auto simp: ends_within_def)
    then show ?thesis using Inl by (simp add: settled_turn_def)
  next
    case (Inr response)
    have "us_modelRequests (rs_usage s) < bg_maxModelRequests (or_default (rt_budget rt) DEFAULT_BUDGET)"
      using that by (simp add: exhausted_iff)
    then have "leaves (answered_turn rt c url response ?s) w1 ?Q"
      by (intro leaves_mono [OF answered_turn_ends])
        (auto simp: ends_within_def counters_def count_response_def)
    then show ?thesis using Inr by (simp add: settled_turn_def)
  qed
  have generated: "leaves (\<lambda>w. let (g, w) = rt_generate rt request w in settled_turn rt c ?s url g w) w1 ?Q"
    if "\<not> bc_exhausted ?check" for request url w1
    using settled [OF that] by (cases "rt_generate rt request w1") (simp add: leaves_def)
  have asked: "leaves (asked_turn rt c ?s) w1 ?Q" if "\<not> bc_exhausted ?check" for w1
    unfolding asked_turn_def leaves_andThen
    by (rule leaves_anything, rule leaves_anything, rule leaves_anything, rule generated [OF that])
  consider "aborted (rt_signal rt w)" | "\<not> aborted (rt_signal rt w)" "bc_exhausted ?check"
    | "\<not> aborted (rt_signal rt w)" "\<not> bc_exhausted ?check" by blast
  then have "leaves (run_turn rt c s) w ?Q"
  proof cases
    case 1
    with stopped show ?thesis by (simp add: leaves_def run_turn_def)
  next
    case 2
    with over_budget show ?thesis by (simp add: leaves_def run_turn_def Let_def)
  next
    case 3
    with asked show ?thesis by (simp add: leaves_def run_turn_def Let_def)
  qed
  then show ?thesis using assms by (simp add: leaves_def)
qed

lemma run_loop_ends: "leaves (run_loop rt c s) w (\<lambda>out w'. ends_within rt s out)"
proof (induction rt c s w rule: run_loop.induct)
  case (1 rt c s w)
  obtain r w1 where turn: "run_turn rt c s w = (r, w1)" by fastforce
  show ?case
  proof (cases r)
    case None
    then show ?thesis using turn by (simp add: leaves_def run_loop.simps [of rt c s w])
  next
    case (Some r')
    show ?thesis
    proof (cases r')
      case (Inr out)
      then show ?thesis
        using turn Some run_turn_ends [of rt c s w out w1]
        by (simp add: leaves_def run_loop.simps [of rt c s w])
    next
      case (Inl s')
      have "leaves (run_loop rt c s') w1 (\<lambda>out w'. ends_within rt s out)"
        using 1 [OF turn [symmetric] Some Inl] run_turn_advanced [of rt c s w s' w1] turn Some Inl
        by (auto simp: ends_within_def advanced_def elim!: leaves_mono)
      then show ?thesis
        using turn Some Inl by (simp add: leaves_def run_loop.simps [of rt c s w])
    qed
  qed
qed

subsection \<open>How often the provider is asked\<close>

definition counts_generate :: "('w \<Rightarrow> nat) \<Rightarrow> 'w runtime \<Rightarrow> bool" where
  "counts_generate calls rt \<longleftrightarrow>
     only_generate calls rt \<and> (\<forall>request w. calls (snd (rt_generate rt request w)) = Suc (calls w))"

lemma asked_turn_calls:
  assumes "counts_generate calls rt"
  shows "calls (snd (asked_turn rt c s w)) \<le> Suc (calls w)"
proof -
  have only: "only_generate calls rt" using assms by (simp add: counts_generate_def)
  have step: "calls (snd (andThen m k w)) \<le> Suc (calls w)"
    if "keeps calls m" "\<And>a w. calls (snd (k a w)) \<le> Suc (calls w)" for m :: "('a, 'z) effect" and k :: "'z \<Rightarrow> ('a, 'y) effect" and w
  proof -
    obtain r w1 where m: "m w = (r, w1)" by fastforce
    then have "calls w1 = calls w" using keepsD [OF that(1), of w] by simp
    then show ?thesis using m that(2) by (cases r) (simp_all add: andThen_def, metis)
  qed
  have "calls (snd (let (g, w) = rt_generate rt request w in settled_turn rt c s url g w)) \<le> Suc (calls w)"
    for request url w
    using assms keepsD [OF keeps_settled_turn [OF only]]
    by (simp add: counts_generate_def case_prod_beta)
  then show ?thesis
    unfolding asked_turn_def by (intro step keeps_intros only)
qed

lemma run_turn_calls:
  assumes "counts_generate calls rt"
  shows "calls (snd (run_turn rt c s w)) \<le> Suc (calls w)"
proof -
  have only: "only_generate calls rt" using assms by (simp add: counts_generate_def)
  show ?thesis
    using asked_turn_calls [OF assms]
    by (simp add: run_turn_def Let_def keepsD [OF keeps_ends [OF keeps_stop [OF only_quiet [OF only]]]]
        keepsD [OF keeps_ends [OF keeps_terminate [OF only_quiet [OF only]]]])
qed

lemma run_loop_calls:
  "counts_generate calls rt \<Longrightarrow> calls (snd (run_loop rt c s w)) \<le> calls w + remaining rt s + 1"
proof (induction rt c s w rule: run_loop.induct)
  case (1 rt c s w)
  obtain r w1 where turn: "run_turn rt c s w = (r, w1)" by fastforce
  have w1: "calls w1 \<le> Suc (calls w)" using run_turn_calls [OF 1(2), of c s w] turn by simp
  show ?case
  proof (cases r)
    case None
    then show ?thesis using turn w1 by (simp add: run_loop.simps [of rt c s w])
  next
    case (Some r')
    show ?thesis
    proof (cases r')
      case (Inr out)
      then show ?thesis using turn Some w1 by (simp add: run_loop.simps [of rt c s w])
    next
      case (Inl s')
      have "remaining rt s' < remaining rt s"
        using run_turn_advanced [of rt c s w s' w1] turn Some Inl by (simp add: advanced_remaining)
      moreover have "calls (snd (run_loop rt c s' w1)) \<le> calls w1 + remaining rt s' + 1"
        using 1(1) [OF turn [symmetric] Some Inl 1(2)] .
      ultimately show ?thesis
        using turn Some Inl w1 by (simp add: run_loop.simps [of rt c s w])
    qed
  qed
qed

lemma run_with_salt_loop:
  assumes "salt = Some p"
  obtains c where "run_with_salt rt input startedAt salt =
    andThen (rt_onStateChange rt (tk_id (ri_task input)) PLANNING (Some ''Planning the approach.''))
      (\<lambda>_. run_loop rt c (start_state input))"
  using assms by (cases p) (auto simp: run_with_salt_def Let_def)

subsection \<open>The trace of a run\<close>

datatype run_event =
    Asked canonical_request
  | Dispatched tool_invocation dispatch_result
  | Persisted "taint_source list" "taint_state option"

text \<open>The world records what the provider, the registry and the taint store were asked.\<close>

definition traced :: "('w \<Rightarrow> run_event list) \<Rightarrow> 'w runtime \<Rightarrow> bool" where
  "traced trace rt \<longleftrightarrow>
     quiet trace rt \<and>
     (\<forall>request w. trace (snd (rt_generate rt request w)) = trace w @ [Asked request]) \<and>
     (\<forall>iv w. trace (snd (rt_dispatch rt iv w)) =
        trace w @ (case fst (rt_dispatch rt iv w) of None \<Rightarrow> [] | Some d \<Rightarrow> [Dispatched iv d])) \<and>
     (\<forall>task sources w. trace (snd (rt_persistTaint rt task sources w)) =
        trace w @ (case fst (rt_persistTaint rt task sources w) of
                     None \<Rightarrow> [] | Some saved \<Rightarrow> [Persisted sources saved]))"

text \<open>
  Following a trace: the taint state known so far, \<open>None\<close> once it could not be saved, and whether there
  is something read that is not saved yet. A trace that asks, or dispatches, with another taint state, or
  before what was read is saved, has no result.
\<close>

fun follow ::
  "taint_state option \<Rightarrow> taint_source list \<Rightarrow> run_event list \<Rightarrow> (taint_state option \<times> taint_source list) option" where
  "follow known unsaved [] = Some (known, unsaved)"
| "follow known unsaved (Asked request # events) =
     (if known \<noteq> None \<and> unsaved = [] \<and> map_option re_taintState (cr_egress request) = known
      then follow known unsaved events else None)"
| "follow known unsaved (Dispatched iv d # events) =
     (if known \<noteq> None \<and> unsaved = [] \<and> iv_taintState iv = known
      then follow known (dr_taint d) events else None)"
| "follow known unsaved (Persisted sources saved # events) =
     (if sources = unsaved then follow saved [] events else None)"

lemma follow_append:
  "follow known unsaved (xs @ ys) =
     (case follow known unsaved xs of None \<Rightarrow> None | Some (k, u) \<Rightarrow> follow k u ys)"
  by (induction known unsaved xs rule: follow.induct) auto

fun dispatches :: "run_event list \<Rightarrow> (tool_invocation \<times> dispatch_result) list" where
  "dispatches [] = []"
| "dispatches (Dispatched iv d # events) = (iv, d) # dispatches events"
| "dispatches (_ # events) = dispatches events"

lemma dispatches_append [simp]: "dispatches (xs @ ys) = dispatches xs @ dispatches ys"
  by (induction xs rule: dispatches.induct) auto

definition names_of :: "(tool_invocation \<times> dispatch_result) list \<Rightarrow> string list" where
  "names_of calls = map (\<lambda>(iv, d). fromWireName (iv_name iv)) calls"

definition succeeded :: "tool_invocation \<times> dispatch_result \<Rightarrow> bool" where
  "succeeded call = te_success (dr_envelope (snd call))"

definition wrote :: "tool_invocation \<times> dispatch_result \<Rightarrow> bool" where
  "wrote call \<longleftrightarrow>
     succeeded call \<and> (case dr_policy (snd call) of None \<Rightarrow> False | Some p \<Rightarrow> pd_exfiltration p \<noteq> None)"

text \<open>The lists a run keeps are what its dispatches did.\<close>

definition accounts :: "(tool_invocation \<times> dispatch_result) list \<Rightarrow> run_state \<Rightarrow> bool" where
  "accounts calls s \<longleftrightarrow>
     rs_completed s = names_of (filter succeeded calls) \<and>
     rs_externalWrites s = names_of (filter wrote calls) \<and>
     (rs_failed s = [] \<and> rs_blocked s = [] \<longrightarrow> list_all succeeded calls)"

definition honest :: "(tool_invocation \<times> dispatch_result) list \<Rightarrow> run_output \<Rightarrow> bool" where
  "honest calls out \<longleftrightarrow>
     (tr_outcome (ru_result out) = out_COMPLETED \<longrightarrow>
      list_all succeeded calls \<and> tr_completedActions (ru_result out) = names_of calls \<and>
      tr_externalWrites (ru_result out) = names_of (filter wrote calls) \<and>
      tr_failedActions (ru_result out) = [] \<and> tr_blockedActions (ru_result out) = [] \<and>
      ru_error out = None)"

lemma accounts_note:
  assumes "accounts calls s"
  shows "accounts (calls @ [(iv, d)]) (note_outcome (fromWireName (iv_name iv)) d s)"
  using assms
  by (auto simp: accounts_def note_outcome_def names_of_def succeeded_def wrote_def Let_def
      split: option.split)

text \<open>What a stage adds to the trace, and what it ends with.\<close>

definition emits ::
  "('w \<Rightarrow> run_event list) \<Rightarrow> ('w, 'a) effect \<Rightarrow> 'w \<Rightarrow> ('a option \<Rightarrow> run_event list \<Rightarrow> bool) \<Rightarrow> bool" where
  "emits trace m w Q \<longleftrightarrow> (\<exists>events. trace (snd (m w)) = trace w @ events \<and> Q (fst (m w)) events)"

lemma emits_mono: "emits trace m w Q \<Longrightarrow> (\<And>r es. Q r es \<Longrightarrow> R r es) \<Longrightarrow> emits trace m w R"
  by (auto simp: emits_def)

lemma emits_andThen:
  assumes "emits trace m w (\<lambda>r es. case r of None \<Rightarrow> Q None es
      | Some a \<Rightarrow> \<forall>w'. emits trace (k a) w' (\<lambda>r es'. Q r (es @ es')))"
  shows "emits trace (andThen m k) w Q"
proof -
  obtain r w1 where m: "m w = (r, w1)" by fastforce
  show ?thesis
  proof (cases r)
    case None
    then show ?thesis using assms m by (simp add: emits_def andThen_def)
  next
    case (Some a)
    then obtain es where es: "trace w1 = trace w @ es" "emits trace (k a) w1 (\<lambda>r es'. Q r (es @ es'))"
      using assms m by (auto simp: emits_def [of trace m])
    then show ?thesis using m Some by (auto simp: emits_def andThen_def)
  qed
qed

lemma emits_yields: "Q (Some a) [] \<Longrightarrow> emits trace (yields a) w Q"
  by (simp add: emits_def yields_def)

lemma emits_keeps:
  "keeps trace m \<Longrightarrow> (\<And>r. Q r []) \<Longrightarrow> emits trace m w Q"
  by (auto simp: emits_def keeps_def)

lemma emits_ends:
  "emits trace m w (\<lambda>r es. Q (map_option Inr r) es) \<Longrightarrow> emits trace (ends m) w Q"
  by (cases "m w") (auto simp: emits_def ends_def andThen_def yields_def split: option.split)

lemma emits_continuing:
  assumes "emits trace m w (\<lambda>r es. case r of None \<Rightarrow> Q None es
      | Some (Inr out) \<Rightarrow> Q (Some (Inr out)) es
      | Some (Inl a) \<Rightarrow> \<forall>w'. emits trace (k a) w' (\<lambda>r es'. Q r (es @ es')))"
  shows "emits trace (continuing m k) w Q"
  unfolding continuing_def
  by (rule emits_andThen, rule emits_mono [OF assms])
    (auto split: option.split sum.split intro: emits_yields)

lemma emits_at: "m w = m' w \<Longrightarrow> emits trace m w Q \<longleftrightarrow> emits trace m' w Q"
  by (simp add: emits_def)

text \<open>What a stage of the loop may do, from a state to its result.\<close>

definition stage_ok :: "run_state \<Rightarrow> (run_state + run_output) option \<Rightarrow> run_event list \<Rightarrow> bool" where
  "stage_ok s r events \<longleftrightarrow>
     (case r of
        None \<Rightarrow> follow (Some (rs_taint s)) [] events \<noteq> None
      | Some (Inl s') \<Rightarrow>
          follow (Some (rs_taint s)) [] events = Some (Some (rs_taint s'), []) \<and>
          (\<forall>calls. accounts calls s \<longrightarrow> accounts (calls @ dispatches events) s')
      | Some (Inr out) \<Rightarrow>
          follow (Some (rs_taint s)) [] events \<noteq> None \<and>
          (\<forall>calls. accounts calls s \<longrightarrow> honest (calls @ dispatches events) out))"

lemma stage_ok_trans:
  assumes "stage_ok s (Some (Inl s')) xs" and "stage_ok s' r ys"
  shows "stage_ok s r (xs @ ys)"
  using assms
  by (cases r rule: option.exhaust; auto simp: stage_ok_def follow_append split: sum.splits)

lemma emits_run_continuing:
  assumes "emits trace m w (stage_ok s)" and "\<And>s' w'. emits trace (k s') w' (stage_ok s')"
  shows "emits trace (continuing m k) w (stage_ok s)"
proof (rule emits_continuing, rule emits_mono [OF assms(1)])
  fix r es
  assume r: "stage_ok s r es"
  show "case r of None \<Rightarrow> stage_ok s None es
      | Some (Inl a) \<Rightarrow> \<forall>w'. emits trace (k a) w' (\<lambda>r es'. stage_ok s r (es @ es'))
      | Some (Inr out) \<Rightarrow> stage_ok s (Some (Inr out)) es"
    using r stage_ok_trans emits_mono [OF assms(2)] by (auto split: option.split sum.split)
qed

text \<open>An output whose outcome is not \<open>COMPLETED\<close> claims nothing.\<close>

lemma honest_other: "tr_outcome (ru_result out) \<noteq> out_COMPLETED \<Longrightarrow> honest calls out"
  by (simp add: honest_def)

lemma emits_terminate:
  assumes "quiet trace rt" and "\<And>out. tr_outcome (ru_result out) = outcome \<Longrightarrow> Q (Some out)" and "Q None"
  shows "emits trace (terminate rt task outcome summary ids usage actions error) w (\<lambda>r es. es = [] \<and> Q r)"
proof -
  let ?m = "terminate rt task outcome summary ids usage actions error"
  obtain r w' where m: "?m w = (r, w')" by fastforce
  have "Q r"
  proof (cases r)
    case (Some out)
    then have "tr_outcome (ru_result out) = outcome"
      using leavesD [OF terminate_output, of rt task outcome summary ids usage actions error w out w'] m
      by simp
    then show ?thesis using Some assms(2) by simp
  qed (simp add: assms(3))
  then show ?thesis
    using keepsD [OF keeps_terminate [OF assms(1)], of task outcome summary ids usage actions error w] m
    by (simp add: emits_def)
qed

lemma emits_ends_terminate:
  assumes "quiet trace rt" and "outcome \<noteq> out_COMPLETED" and "follow (Some (rs_taint s)) [] [] \<noteq> None"
  shows "emits trace (ends (terminate rt task outcome summary ids usage actions error)) w (stage_ok s)"
proof -
  have "emits trace (terminate rt task outcome summary ids usage actions error) w
      (\<lambda>r es. es = [] \<and> stage_ok s (map_option Inr r) [])"
    by (rule emits_terminate [OF assms(1)]) (use assms(2) in \<open>simp_all add: stage_ok_def honest_other\<close>)
  then show ?thesis by (intro emits_ends) (auto elim: emits_mono)
qed

lemma emits_ends_stop:
  assumes "quiet trace rt"
  shows "emits trace (ends (stop rt task ids usage)) w (stage_ok s)"
proof (cases "abortedForPause (rt_signal rt w)")
  case True
  then have "emits trace (stop rt task ids usage) w (\<lambda>r es. stage_ok s (map_option Inr r) es)"
    by (simp add: emits_def stop_def yields_def stage_ok_def honest_def)
  then show ?thesis by (rule emits_ends)
next
  case False
  have "emits trace (ends (stop rt task ids usage)) w (stage_ok s) \<longleftrightarrow>
      emits trace (ends (terminate rt task out_CANCELLED ''The task was cancelled.'' ids usage no_actions None)) w
        (stage_ok s)"
    using False by (intro emits_at) (simp add: ends_def stop_def andThen_def)
  then show ?thesis
    using emits_ends_terminate [OF assms, of out_CANCELLED s] by simp
qed

lemma stage_ok_stay: "rs_taint s' = rs_taint s \<Longrightarrow> (\<And>calls. accounts calls s \<Longrightarrow> accounts calls s') \<Longrightarrow>
  stage_ok s (Some (Inl s')) []"
  by (simp add: stage_ok_def)

lemma stage_ok_None: "stage_ok s None []"
  by (simp add: stage_ok_def)

text \<open>An effect outside the trace, then a stage.\<close>

lemma emits_quietly:
  assumes "keeps trace m" and "\<And>a w'. emits trace (k a) w' (stage_ok s)"
  shows "emits trace (andThen m k) w (stage_ok s)"
  by (rule emits_andThen, rule emits_keeps [OF assms(1)]) (auto simp: stage_ok_None assms(2) split: option.split)

lemma stage_ok_cong:
  "rs_taint s' = rs_taint s \<Longrightarrow> (\<And>calls. accounts calls s \<Longrightarrow> accounts calls s') \<Longrightarrow>
   stage_ok s' r es \<Longrightarrow> stage_ok s r es"
  by (auto simp: stage_ok_def split: option.splits sum.splits)

lemma emits_malformed:
  assumes "quiet trace rt"
  shows "emits trace (malformed_call rt c call problem s) w (stage_ok s)"
  unfolding malformed_call_def Let_def
  by (rule emits_quietly [OF keeps_recordStep [OF assms]], rule emits_yields, rule stage_ok_stay)
    (simp_all add: accounts_def)

lemma emits_loop_stage:
  assumes "quiet trace rt"
  shows "emits trace (loop_stage rt c s) w (stage_ok s)"
proof (cases "lk_detected (check_loop (rs_detector s))")
  case True
  have "partial_or_failed s \<noteq> out_COMPLETED" by (simp add: partial_or_failed_def)
  then show ?thesis
    using True emits_quietly [OF keeps_recordStep [OF assms]] emits_ends_terminate [OF assms]
    by (simp add: loop_stage_def Let_def)
next
  case False
  then show ?thesis by (simp add: loop_stage_def emits_yields stage_ok_stay)
qed

lemma emits_report_stage:
  assumes "quiet trace rt"
  shows "emits trace (report_stage rt c call d s) w
    (stage_ok (note_outcome (fromWireName (tc_name call)) d s))"
proof -
  let ?s = "note_outcome (fromWireName (tc_name call)) d s"
  have logged: "emits trace (\<lambda>w. loop_stage rt c (f w) w) w' (stage_ok ?s)"
    if "rs_taint (f w') = rs_taint ?s" "\<And>calls. accounts calls ?s \<Longrightarrow> accounts calls (f w')" for f w'
  proof -
    have "emits trace (loop_stage rt c (f w')) w' (stage_ok ?s)"
      by (rule emits_mono [OF emits_loop_stage [OF assms]]) (rule stage_ok_cong [OF that])
    then show ?thesis by (simp add: emits_def)
  qed
  show ?thesis
    unfolding report_stage_def Let_def
    by (rule emits_quietly [OF keeps_recordStep [OF assms]], rule logged) (simp_all add: accounts_def)
qed

text \<open>After a dispatch, what it read is saved before anything else is asked.\<close>

lemma note_outcome_taint [simp]: "rs_taint (note_outcome name d s) = rs_taint s"
  by (simp add: note_outcome_def Let_def split: option.split)

lemma accounts_cong:
  "rs_completed s' = rs_completed s \<Longrightarrow> rs_failed s' = rs_failed s \<Longrightarrow> rs_blocked s' = rs_blocked s \<Longrightarrow>
   rs_externalWrites s' = rs_externalWrites s \<Longrightarrow> accounts calls s' = accounts calls s"
  by (simp add: accounts_def)

lemma emits_after_dispatch:
  assumes "traced trace rt" and "iv_taintState iv = Some (rs_taint s)" and "iv_name iv = tc_name call"
    and "rs_taint s1 = rs_taint s" and "\<And>calls. accounts calls s1 = accounts calls s"
  shows "emits trace (continuing (taint_stage rt c d s1) (report_stage rt c call d)) w
    (\<lambda>r es. stage_ok s r (Dispatched iv d # es))"
proof -
  have quiet: "quiet trace rt" using assms(1) by (simp add: traced_def)
  have noted: "accounts (calls @ [(iv, d)]) (note_outcome (fromWireName (tc_name call)) d s2)"
    if "accounts calls s" "\<And>calls. accounts calls s2 = accounts calls s1" for calls s2
    using accounts_note [of calls s2 iv d] that assms(3,5) by simp
  have report: "emits trace (report_stage rt c call d s2) w'
      (\<lambda>r es'. stage_ok s r (Dispatched iv d # es @ es'))"
    if "follow (Some (rs_taint s)) (dr_taint d) es = Some (Some (rs_taint s2), [])" "dispatches es = []"
      "\<And>calls. accounts calls s2 = accounts calls s1" for s2 es w'
  proof (rule emits_mono [OF emits_report_stage [OF quiet]])
    fix r es'
    assume "stage_ok (note_outcome (fromWireName (tc_name call)) d s2) r es'"
    moreover have "stage_ok s (Some (Inl (note_outcome (fromWireName (tc_name call)) d s2))) (Dispatched iv d # es)"
      using that noted assms(2) by (simp add: stage_ok_def)
    ultimately show "stage_ok s r (Dispatched iv d # es @ es')"
      using stage_ok_trans by fastforce
  qed
  show ?thesis
  proof (cases "dr_taint d = []")
    case True
    have "emits trace (continuing (taint_stage rt c d s1) (report_stage rt c call d)) w
        (\<lambda>r es. stage_ok s r (Dispatched iv d # es)) \<longleftrightarrow>
      emits trace (report_stage rt c call d s1) w (\<lambda>r es. stage_ok s r (Dispatched iv d # es))"
      by (rule emits_at) (simp add: True taint_stage_def continuing_def andThen_def yields_def)
    then show ?thesis using report [of "[]" s1] True assms(4) by simp
  next
    case False
    let ?m = "rt_persistTaint rt (tk_id (rx_task c)) (dr_taint d)"
    have persist: "emits trace ?m w' (\<lambda>r es. es = (case r of None \<Rightarrow> [] | Some saved \<Rightarrow> [Persisted (dr_taint d) saved]))"
      for w'
      using assms(1) by (auto simp: traced_def emits_def)
    have ended: "emits trace (ends (terminate rt task outcome summary ids usage actions error)) w'
        (\<lambda>r es. (\<forall>a. r \<noteq> Some (Inl a)) \<and> stage_ok s r (Dispatched iv d # Persisted (dr_taint d) None # es))"
      if "outcome \<noteq> out_COMPLETED" for task outcome summary ids usage actions error w'
    proof -
      have "emits trace (terminate rt task outcome summary ids usage actions error) w'
          (\<lambda>r es. es = [] \<and> stage_ok s (map_option Inr r) [Dispatched iv d, Persisted (dr_taint d) None])"
        by (rule emits_terminate [OF quiet])
          (use that assms(2) in \<open>simp_all add: stage_ok_def honest_other\<close>)
      then show ?thesis by (intro emits_ends) (auto elim: emits_mono)
    qed
    show ?thesis
      unfolding taint_stage_def if_not_P [OF False]
      apply (rule emits_continuing, rule emits_andThen, rule emits_mono [OF persist])
      subgoal premises es for r es
      proof (cases r)
        case None
        then show ?thesis using es assms(2) by (simp add: stage_ok_def)
      next
        case (Some saved)
        show ?thesis
        proof (cases saved)
          case None
          show ?thesis
            unfolding Some None option.case
            by (intro allI, rule emits_mono [OF ended])
              (use es Some None in \<open>auto split: option.split sum.split\<close>)
        next
          case (Some taint)
          have same: "accounts calls (s1\<lparr>rs_taint := taint\<rparr>) = accounts calls s1" for calls
            by (rule accounts_cong) simp_all
          have "emits trace (report_stage rt c call d (s1\<lparr>rs_taint := taint\<rparr>)) w'
              (\<lambda>r es'. stage_ok s r (Dispatched iv d # es @ es'))" for w'
            using report [of es "s1\<lparr>rs_taint := taint\<rparr>" w'] es \<open>r = Some saved\<close> Some same
            by simp
          then show ?thesis
            unfolding \<open>r = Some saved\<close> Some option.case by (intro allI emits_yields) simp
        qed
      qed
      done
  qed
qed

lemma emits_dispatch_call:
  assumes "traced trace rt"
  shows "emits trace (dispatch_call rt c url call s) w (stage_ok s)"
proof -
  have quiet: "quiet trace rt" using assms by (simp add: traced_def)
  let ?iv = "invocation_of rt c url call s"
  have iv: "iv_taintState ?iv = Some (rs_taint s)" "iv_name ?iv = tc_name call"
    by (simp_all add: invocation_of_def)
  have dispatch: "emits trace (rt_dispatch rt ?iv) w'
      (\<lambda>r es. es = (case r of None \<Rightarrow> [] | Some d \<Rightarrow> [Dispatched ?iv d]))" for w'
    using assms by (auto simp: traced_def emits_def)
  have evidence: "emits trace (evidence_stage rt c d s) w' (\<lambda>r es. es = [] \<and>
      (\<forall>s1. r = Some s1 \<longrightarrow> rs_taint s1 = rs_taint s \<and> (\<forall>calls. accounts calls s1 = accounts calls s)))" for d w'
    using keepsD [OF keeps_evidence_stage [OF quiet], of c d s w'] evidence_stage_Some [of rt c d s w']
    by (auto simp: emits_def accounts_def)
  have after: "emits trace (andThen (evidence_stage rt c d s)
      (\<lambda>s1. continuing (taint_stage rt c d s1) (report_stage rt c call d))) w'
      (\<lambda>r es. stage_ok s r (Dispatched ?iv d # es))" for d w'
    by (rule emits_andThen, rule emits_mono [OF evidence])
      (auto simp: stage_ok_def [of s None] iv split: option.split
        intro!: emits_mono [OF emits_after_dispatch [OF assms iv]])
  show ?thesis
    unfolding dispatch_call_def
    by (rule emits_quietly [OF keeps_callbacks(4) [OF quiet]], rule emits_quietly [OF keeps_callbacks(1) [OF quiet]],
        rule emits_andThen, rule emits_mono [OF dispatch])
      (auto simp: stage_ok_None split: option.split intro!: emits_mono [OF after])
qed

lemma emits_run_call:
  assumes "traced trace rt"
  shows "emits trace (run_call rt c url call s) w (stage_ok s)"
proof -
  have quiet: "quiet trace rt" using assms by (simp add: traced_def)
  show ?thesis
    using emits_ends_stop [OF quiet, of "rx_task c" "rs_evidenceIds s" "rs_usage s" w s]
      emits_malformed [OF quiet, of c call _ s w] emits_dispatch_call [OF assms, of c url call s w]
    by (auto simp: run_call_def emits_def split: option.split)
qed

lemma emits_run_calls:
  "traced trace rt \<Longrightarrow> emits trace (run_calls rt c url calls s) w (stage_ok s)"
proof (induction calls arbitrary: s w)
  case Nil
  then show ?case by (simp add: emits_yields stage_ok_stay)
next
  case (Cons call calls)
  then show ?case
    unfolding run_calls.simps by (intro emits_run_continuing emits_run_call) blast+
qed

text \<open>A run is only reported complete where nothing failed and nothing was refused.\<close>

lemma emits_final_turn:
  assumes "quiet trace rt"
  shows "emits trace (final_turn rt c response s) w (stage_ok s)"
proof -
  let ?outcome = "if rs_failed s \<noteq> [] \<or> rs_blocked s \<noteq> [] then out_PARTIAL else out_COMPLETED"
  have "emits trace (ends (terminate rt (rx_task c) ?outcome summary (rs_evidenceIds s) (rs_usage s) (actions_of s) None)) w'
      (stage_ok s)" for summary w'
  proof -
    let ?m = "terminate rt (rx_task c) ?outcome summary (rs_evidenceIds s) (rs_usage s) (actions_of s) None"
    obtain r w1 where m: "?m w' = (r, w1)" by fastforce
    have "honest calls out" if "r = Some out" "accounts calls s" for calls out
    proof -
      have filtered: "filter succeeded calls = calls" if "list_all succeeded calls"
        using that by (simp add: list_all_iff filter_id_conv)
      have "tr_outcome (ru_result out) = ?outcome \<and> ru_error out = None \<and>
          actions_of s = (tr_completedActions (ru_result out), tr_failedActions (ru_result out),
            tr_blockedActions (ru_result out), tr_externalWrites (ru_result out))"
        using leavesD [OF terminate_output m [unfolded that(1)]] by simp
      then show ?thesis
        using that(2) filtered by (auto simp: honest_def actions_of_def accounts_def split: if_splits)
    qed
    moreover have "trace w1 = trace w'"
      using keepsD [OF keeps_terminate [OF assms], of "rx_task c" ?outcome summary "rs_evidenceIds s" "rs_usage s"
          "actions_of s" None w'] m by simp
    ultimately have "emits trace ?m w' (\<lambda>r es. stage_ok s (map_option Inr r) es)"
      using m by (cases r) (auto simp: emits_def stage_ok_def)
    then show ?thesis by (rule emits_ends)
  qed
  then show ?thesis
    unfolding final_turn_def Let_def by (intro emits_quietly keeps_recordStep [OF assms])
qed

lemma emits_answered_turn:
  assumes "traced trace rt"
  shows "emits trace (answered_turn rt c url response s) w (stage_ok s)"
proof -
  have quiet: "quiet trace rt" using assms by (simp add: traced_def)
  let ?s = "s\<lparr>rs_usage := count_response response (rs_usage s)\<rparr>"
  have cong: "stage_ok s r es" if "stage_ok s0 r es" "rs_taint s0 = rs_taint s"
    "rs_completed s0 = rs_completed s" "rs_failed s0 = rs_failed s" "rs_blocked s0 = rs_blocked s"
    "rs_externalWrites s0 = rs_externalWrites s" for r es s0
    by (rule stage_ok_cong [OF _ _ that(1)]) (use that accounts_cong in \<open>auto simp: accounts_def\<close>)
  have last: "emits trace (andThen (rt_onUsage rt task usage) (\<lambda>_. yields (Inl s2))) w' (stage_ok s1)"
    if "stage_ok s1 (Some (Inl s2)) []" for task usage s1 s2 w'
    by (rule emits_quietly [OF keeps_callbacks(5) [OF quiet]], rule emits_yields) (rule that)
  have final: "emits trace (final_turn rt c response ?s) w' (stage_ok s)" for w'
    by (rule emits_mono [OF emits_final_turn [OF quiet]]) (rule cong, assumption, simp_all)
  have calls: "emits trace (continuing (run_calls rt c url calls s0)
      (\<lambda>s. andThen (rt_onUsage rt (tk_id (rx_task c)) (rs_usage s)) (\<lambda>_. yields (Inl (f s))))) w' (stage_ok s0)"
    if "\<And>s1. stage_ok s1 (Some (Inl (f s1))) []" for calls s0 f w'
    by (rule emits_run_continuing, rule emits_run_calls [OF assms], rule last) (rule that)
  have called: "emits trace
      (continuing (run_calls rt c url cs (?s\<lparr>rs_messages := m, rs_parts := []\<rparr>))
        (\<lambda>s. andThen (rt_onUsage rt (tk_id (rx_task c)) (rs_usage s))
          (\<lambda>_. yields (Inl (s\<lparr>rs_messages := g s\<rparr>))))) w' (stage_ok s)" for cs m g w'
    by (rule emits_mono [OF calls]) (auto simp: accounts_def intro: stage_ok_stay elim!: cong)
  have after: "emits trace
      (if cn_toolCalls response = [] then final_turn rt c response ?s
       else continuing (run_calls rt c url cs (?s\<lparr>rs_messages := m, rs_parts := []\<rparr>))
        (\<lambda>s. andThen (rt_onUsage rt (tk_id (rx_task c)) (rs_usage s))
          (\<lambda>_. yields (Inl (s\<lparr>rs_messages := g s\<rparr>))))) w' (stage_ok s)" for cs m g w'
    using final called by simp
  have messages: "rs_messages ?s = rs_messages s" and usage: "rs_usage (s1\<lparr>rs_messages := m\<rparr>) = rs_usage s1" for s1 m
    by simp_all
  show ?thesis
    unfolding answered_turn_def Let_def messages usage
    by (rule emits_quietly [OF keeps_callbacks(5) [OF quiet]], rule after)
qed

lemma emits_failed_turn:
  assumes "quiet trace rt"
  shows "emits trace (failed_turn rt c failure s) w (stage_ok s)"
proof -
  let ?s = "s\<lparr>rs_usage := (rs_usage s)\<lparr>us_retries := us_retries (rs_usage s) + 1\<rparr>\<rparr>"
  have waited: "emits trace (retry_wait rt c delayMs ?s) w' (stage_ok s)" for delayMs w'
  proof -
    obtain slept w1 where sleep: "rt_sleep rt delayMs w' = (slept, w1)" by fastforce
    then have "trace w1 = trace w'" using assms by (auto simp: quiet_def) (metis snd_conv)
    moreover have "stage_ok s (Some (Inl ?s)) []" by (rule stage_ok_stay) (simp_all add: accounts_def)
    ultimately show ?thesis
      using sleep emits_ends_stop [OF assms, of "rx_task c" "rs_evidenceIds ?s" "rs_usage ?s" w1 s]
      by (cases slept) (simp_all add: retry_wait_def emits_def yields_def)
  qed
  let ?error = "toProviderError (pf_kind failure)"
  let ?retry = "decideRetryFor
      \<lparr>rc_code = ae_code ?error, rc_retryable = ae_retryable ?error, rc_retryAfterMs = pf_retryAfterMs failure\<rparr>
      (us_retries (rs_usage s) + 1) DEFAULT_RETRY_POLICY (rt_random rt w)"
  have retried: "emits trace (andThen (rt_onStateChange rt (tk_id (rx_task c)) RECOVERING reason)
      (\<lambda>_. andThen (rt_onActivity rt (tk_id (rx_task c)) activity) (\<lambda>_. retry_wait rt c delayMs ?s))) w (stage_ok s)"
    for reason activity delayMs
    by (rule emits_quietly [OF keeps_callbacks(1) [OF assms]], rule emits_quietly [OF keeps_callbacks(4) [OF assms]],
        rule waited)
  have "partial_or_failed s \<noteq> out_COMPLETED" by (simp add: partial_or_failed_def)
  then have given_up: "emits trace (andThen (recordStep rt (tk_id (rx_task c)) i k t ri su st ids e)
      (\<lambda>_. ends (terminate rt (rx_task c) (partial_or_failed s) su' (rs_evidenceIds s) (rs_usage s) (actions_of s) e'))) w
      (stage_ok s)" for i k t ri su st ids e su' e'
    by (intro emits_quietly keeps_recordStep [OF assms] emits_ends_terminate [OF assms]) simp_all
  consider "ae_code ?error = USER_CANCELLED" | "ae_code ?error \<noteq> USER_CANCELLED" "rd_shouldRetry ?retry"
    | "ae_code ?error \<noteq> USER_CANCELLED" "\<not> rd_shouldRetry ?retry"
    by blast
  then show ?thesis
  proof cases
    case 1
    then show ?thesis
      using emits_ends_stop [OF assms, of "rx_task c" "rs_evidenceIds s" "rs_usage s" w s]
      by (simp add: failed_turn_def Let_def emits_def)
  next
    case 2
    then show ?thesis
      using retried [of "Some (rd_reason ?retry)" "''Retrying after a provider error''" "rd_delayMs ?retry"]
      by (simp add: failed_turn_def Let_def emits_def)
  next
    case 3
    then show ?thesis
      using given_up [of "rs_stepIndex s" error_step None None "ae_userMessage ?error" step_error None "Some ?error"
          "ae_userMessage ?error" "Some ?error"]
      by (simp add: failed_turn_def Let_def emits_def)
  qed
qed

lemma traced_quiet: "traced trace rt \<Longrightarrow> quiet trace rt"
  by (simp add: traced_def)

lemma emits_settled_turn:
  "traced trace rt \<Longrightarrow> emits trace (settled_turn rt c s url generated) w (stage_ok s)"
  using emits_failed_turn [OF traced_quiet] emits_answered_turn
  by (cases generated) (simp_all add: settled_turn_def)

lemma keeps_observe: "traced trace rt \<Longrightarrow> keeps trace (observeTabUrl rt tab)"
  by (rule keeps_observeTabUrl) (simp add: traced_def)

lemma emits_asked_turn:
  assumes "traced trace rt"
  shows "emits trace (asked_turn rt c s) w (stage_ok s)"
proof -
  have quiet: "quiet trace rt" using assms by (simp add: traced_def)
  have generated: "emits trace (\<lambda>w. let (generated, w) = rt_generate rt (request_of rt c s) w
      in settled_turn rt c s url generated w) w' (stage_ok s)" for url w'
  proof -
    obtain generated w1 where g: "rt_generate rt (request_of rt c s) w' = (generated, w1)" by fastforce
    then have "trace w1 = trace w' @ [Asked (request_of rt c s)]"
      using assms by (auto simp: traced_def) (metis snd_conv)
    moreover have "stage_ok s r (Asked (request_of rt c s) # es)" if "stage_ok s r es" for r es
      using that by (simp add: stage_ok_def request_of_def buildRequest_def split: option.splits sum.splits)
    ultimately show ?thesis
      using emits_settled_turn [OF assms, of c s url generated w1] g
      by (auto simp: emits_def)
  qed
  show ?thesis
    unfolding asked_turn_def
    by (rule emits_quietly [OF keeps_callbacks(4) [OF quiet]], rule emits_quietly [OF keeps_callbacks(1) [OF quiet]],
        rule emits_quietly [OF keeps_observe [OF assms]], rule generated)
qed

lemma emits_run_turn:
  assumes "traced trace rt"
  shows "emits trace (run_turn rt c s) w (stage_ok s)"
proof -
  have quiet: "quiet trace rt" using assms by (simp add: traced_def)
  let ?s = "s\<lparr>rs_usage := (rs_usage s)\<lparr>us_elapsedMs := rt_now rt w - rx_startedAt c\<rparr>\<rparr>"
  let ?check = "checkBudget (rs_usage ?s) (or_default (rt_budget rt) DEFAULT_BUDGET)"
  have "partial_or_failed ?s \<noteq> out_COMPLETED" by (simp add: partial_or_failed_def)
  then have over_budget: "emits trace (ends (terminate rt (rx_task c) (partial_or_failed ?s) summary (rs_evidenceIds s)
      (rs_usage ?s) (actions_of ?s) None)) w (stage_ok s)" for summary
    by (rule emits_ends_terminate [OF quiet]) simp
  have "emits trace (asked_turn rt c ?s) w (stage_ok s)"
    by (rule emits_mono [OF emits_asked_turn [OF assms]], rule stage_ok_cong, simp_all add: accounts_def)
  then show ?thesis
    using over_budget emits_ends_stop [OF quiet, of "rx_task c" "rs_evidenceIds s" "rs_usage s" w s]
    by (simp add: run_turn_def Let_def emits_def)
qed

text \<open>From a state, a run's trace can be followed, and its output is honest.\<close>

definition output_ok :: "run_state \<Rightarrow> run_output option \<Rightarrow> run_event list \<Rightarrow> bool" where
  "output_ok s r events \<longleftrightarrow>
     follow (Some (rs_taint s)) [] events \<noteq> None \<and>
     (\<forall>out calls. r = Some out \<longrightarrow> accounts calls s \<longrightarrow> honest (calls @ dispatches events) out)"

lemma emits_run_loop:
  "traced trace rt \<Longrightarrow> emits trace (run_loop rt c s) w (output_ok s)"
proof (induction rt c s w rule: run_loop.induct)
  case (1 rt c s w)
  obtain r w1 where turn: "run_turn rt c s w = (r, w1)" by fastforce
  obtain es where es: "trace w1 = trace w @ es" "stage_ok s r es"
    using emits_run_turn [OF 1(2), of c s w] turn by (auto simp: emits_def)
  show ?case
  proof (cases r)
    case None
    then show ?thesis
      using turn es by (simp add: emits_def run_loop.simps [of rt c s w] stage_ok_def output_ok_def)
  next
    case (Some r')
    show ?thesis
    proof (cases r')
      case (Inr out)
      then show ?thesis
        using turn Some es by (simp add: emits_def run_loop.simps [of rt c s w] stage_ok_def output_ok_def)
    next
      case (Inl s')
      have "emits trace (run_loop rt c s') w1 (output_ok s')"
        using 1(1) [OF turn [symmetric] Some Inl 1(2)] .
      then obtain es' where es': "trace (snd (run_loop rt c s' w1)) = trace w1 @ es'"
          "output_ok s' (fst (run_loop rt c s' w1)) es'"
        by (auto simp: emits_def)
      have "output_ok s (fst (run_loop rt c s' w1)) (es @ es')"
        unfolding output_ok_def
      proof (intro conjI allI impI)
        show "follow (Some (rs_taint s)) [] (es @ es') \<noteq> None"
          using es(2) es'(2) Some Inl by (auto simp: stage_ok_def output_ok_def follow_append)
        fix out calls
        assume out: "fst (run_loop rt c s' w1) = Some out" and "accounts calls s"
        then have "accounts (calls @ dispatches es) s'"
          using es(2) Some Inl by (simp add: stage_ok_def)
        then have "honest ((calls @ dispatches es) @ dispatches es') out"
          using es'(2) out unfolding output_ok_def by blast
        then show "honest (calls @ dispatches (es @ es')) out" by simp
      qed
      then show ?thesis
        using turn Some Inl es(1) es'(1) by (simp add: emits_def run_loop.simps [of rt c s w])
    qed
  qed
qed

lemma emits_run:
  assumes "traced trace rt"
  shows "emits trace (run rt input) w (output_ok (start_state input))"
proof -
  have quiet: "quiet trace rt" using assms by (simp add: traced_def)
  let ?s = "start_state input"
  have ended: "emits trace (terminate rt task outcome summary ids usage actions error) w' (output_ok ?s)"
    if "outcome \<noteq> out_COMPLETED" for task outcome summary ids usage actions error w'
  proof -
    have "emits trace (terminate rt task outcome summary ids usage actions error) w'
        (\<lambda>r es. es = [] \<and> output_ok ?s r [])"
      by (rule emits_terminate [OF quiet]) (use that in \<open>auto simp: output_ok_def honest_def\<close>)
    then show ?thesis by (auto elim: emits_mono)
  qed
  have quietly: "emits trace (andThen m k) w' (output_ok ?s)"
    if "keeps trace m" "\<And>a w'. emits trace (k a) w' (output_ok ?s)" for m :: "('a, 'z) effect" and k w'
  proof (rule emits_andThen, rule emits_keeps [OF that(1)])
    fix r
    have "output_ok ?s None []" by (simp add: output_ok_def)
    then show "case r of None \<Rightarrow> output_ok ?s None []
        | Some a \<Rightarrow> \<forall>w'. emits trace (k a) w' (\<lambda>r es'. output_ok ?s r ([] @ es'))"
      using that(2) by (cases r) simp_all
  qed
  have salted: "emits trace (run_with_salt rt input startedAt salt) w' (output_ok ?s)" for startedAt salt w'
  proof (cases salt)
    case None
    then show ?thesis using ended by (simp add: run_with_salt_def Let_def)
  next
    case (Some p)
    then obtain c where c: "run_with_salt rt input startedAt salt =
        andThen (rt_onStateChange rt (tk_id (ri_task input)) PLANNING (Some ''Planning the approach.''))
          (\<lambda>_. run_loop rt c ?s)"
      by (rule run_with_salt_loop)
    show ?thesis
      unfolding c by (rule quietly [OF keeps_callbacks(1) [OF quiet]], rule emits_run_loop [OF assms])
  qed
  have "keeps trace (usable_salt rt (ri_task input))"
    by (simp add: usable_salt_def keeps_intros quiet)
  then have "emits trace (andThen (usable_salt rt (ri_task input)) (run_with_salt rt input (rt_now rt w))) w
      (output_ok ?s)"
    by (rule quietly) (rule salted)
  then show ?thesis
    using ended [of out_BLOCKED] by (simp add: run_def Let_def emits_def)
qed

subsection \<open>The life cycle a run expects\<close>

text \<open>
  What the runtime relies on in its owner: the state of the task, which a requested change moves where
  the task state machine allows it, and which a completion ends unless the task is over or paused.
\<close>

definition LOOP_STATES :: "task_state list" where
  "LOOP_STATES = [PLANNING, RUNNING, WAITING_FOR_TOOL, RECOVERING]"

locale task_lifecycle =
  fixes state_in :: "'w \<Rightarrow> task_state option"
    and change :: "task_state \<Rightarrow> string option \<Rightarrow> 'w \<Rightarrow> 'w"
    and complete :: "completion \<Rightarrow> 'w \<Rightarrow> 'w"
  assumes change_state: "state_in w = Some s \<Longrightarrow>
      state_in (change s' summary w) = Some (if s = s' \<or> canTransition s s' then s' else s)"
    and complete_state: "state_in w = Some s \<Longrightarrow>
      state_in (complete outcome w) =
        Some (if isTerminal s \<or> s = PAUSED \<or> \<not> canTransition s (oc_state outcome) then s else oc_state outcome)"
begin

definition in_loop :: "'w \<Rightarrow> bool" where
  "in_loop w \<longleftrightarrow> (\<exists>s \<in> set LOOP_STATES. state_in w = Some s)"

text \<open>The runtime of one task over this life cycle, whose other effects leave the state alone.\<close>

definition drives :: "'w runtime \<Rightarrow> string \<Rightarrow> bool" where
  "drives rt task \<longleftrightarrow>
     (\<forall>s' summary w. rt_onStateChange rt task s' summary w = (Some (), change s' summary w)) \<and>
     (\<forall>outcome w. rt_onComplete rt task outcome w = (Some (), complete outcome w)) \<and>
     (\<forall>delay w. state_in (snd (rt_sleep rt delay w)) = state_in w) \<and>
     (\<forall>task step. keeps state_in (rt_onStep rt task step)) \<and>
     (\<forall>task activity. keeps state_in (rt_onActivity rt task activity)) \<and>
     (\<forall>task usage. keeps state_in (rt_onUsage rt task usage)) \<and>
     (\<forall>task evidence. keeps state_in (rt_onEvidence rt task evidence)) \<and>
     (\<forall>task sources. keeps state_in (rt_persistTaint rt task sources)) \<and>
     (\<forall>task. keeps state_in (rt_recoverSalt rt task)) \<and>
     (\<forall>resolve tab. rt_resolveTabUrl rt = Some resolve \<longrightarrow> keeps state_in (resolve tab)) \<and>
     (\<forall>request w. state_in (snd (rt_generate rt request w)) = state_in w) \<and>
     (\<forall>iv. keeps state_in (rt_dispatch rt iv))"

text \<open>How a run may leave the task: in the state of its outcome, or paused with nothing written.\<close>

definition settled :: "'w runtime \<Rightarrow> run_output \<Rightarrow> 'w \<Rightarrow> bool" where
  "settled rt out w \<longleftrightarrow>
     state_in w = Some (state_of (tr_outcome (ru_result out))) \<or> abortedForPause (rt_signal rt w)"

definition loop_ok :: "'w runtime \<Rightarrow> run_state + run_output \<Rightarrow> 'w \<Rightarrow> bool" where
  "loop_ok rt r w = (case r of Inl s \<Rightarrow> in_loop w | Inr out \<Rightarrow> settled rt out w)"

lemma loop_ok_simps [simp]:
  "loop_ok rt (Inl s) = in_loop" "loop_ok rt (Inr out) = settled rt out"
  by (simp_all add: loop_ok_def fun_eq_iff)

lemma in_loop_change: "in_loop w \<Longrightarrow> s' \<in> set LOOP_STATES \<Longrightarrow> in_loop (change s' summary w)"
  using change_state [of w _ s' summary] by (auto simp: in_loop_def)

lemma change_running: "in_loop w \<Longrightarrow> state_in (change RUNNING summary w) = Some RUNNING"
  using change_state [of w _ RUNNING summary] by (auto simp: in_loop_def LOOP_STATES_def canTransition_def)

lemma leaves_terminate:
  assumes "drives rt (tk_id task)" and "in_loop w" and "outcome = out_COMPLETED \<Longrightarrow> state_in w = Some RUNNING"
  shows "leaves (terminate rt task outcome summary ids usage actions error) w (settled rt)"
proof -
  obtain s where s: "state_in w = Some s" "s \<in> set LOOP_STATES" using assms(2) by (auto simp: in_loop_def)
  have "canTransition s (state_of outcome)"
    using s assms(3) by (cases outcome) (auto simp: LOOP_STATES_def canTransition_def)
  moreover have "\<not> isTerminal s" "s \<noteq> PAUSED"
    using s(2) by (auto simp: LOOP_STATES_def isTerminal_def TERMINAL_STATES_def)
  ultimately show ?thesis
    using assms(1) complete_state [OF s(1)]
    by (cases actions) (simp add: terminate_def Let_def drives_def leaves_def andThen_def yields_def settled_def)
qed

lemma leaves_ends_terminate:
  assumes "drives rt (tk_id task)" and "in_loop w" and "outcome \<noteq> out_COMPLETED"
  shows "leaves (ends (terminate rt task outcome summary ids usage actions error)) w (loop_ok rt)"
proof -
  have "leaves (terminate rt task outcome summary ids usage actions error) w (settled rt)"
    using assms(3) by (intro leaves_terminate [OF assms(1,2)]) simp
  then show ?thesis by (simp add: leaves_simps)
qed

lemma leaves_stop:
  assumes "drives rt (tk_id task)" and "in_loop w"
  shows "leaves (stop rt task ids usage) w (settled rt)"
proof (cases "abortedForPause (rt_signal rt w)")
  case True
  then show ?thesis by (simp add: stop_def leaves_def yields_def settled_def)
next
  case False
  then show ?thesis
    using leaves_terminate [OF assms, of out_CANCELLED "''The task was cancelled.''" ids usage no_actions None]
    by (simp add: stop_def leaves_def)
qed

lemma in_loop_keeps: "keeps state_in m \<Longrightarrow> in_loop w \<Longrightarrow> (\<And>a w'. in_loop w' \<Longrightarrow> Q a w') \<Longrightarrow> leaves m w Q"
  by (rule leaves_keeps) (auto simp: in_loop_def)

lemma leaves_recordStep:
  "drives rt task \<Longrightarrow> in_loop w \<Longrightarrow> (\<And>a w'. in_loop w' \<Longrightarrow> Q a w') \<Longrightarrow>
   leaves (recordStep rt t i k tool risk summary st ids e) w Q"
  by (rule in_loop_keeps) (auto simp: drives_def keeps_def recordStep_def Let_def)

lemma leaves_loop_stage:
  assumes "drives rt (tk_id (rx_task c))" and "in_loop w"
  shows "leaves (loop_stage rt c s) w (loop_ok rt)"
proof -
  have "partial_or_failed s \<noteq> out_COMPLETED" by (simp add: partial_or_failed_def)
  then show ?thesis
    using assms(2) leaves_recordStep [OF assms] leaves_ends_terminate [OF assms(1)]
    by (simp add: loop_stage_def Let_def leaves_andThen leaves_yields)
qed

lemma leaves_report_stage:
  assumes "drives rt (tk_id (rx_task c))" and "in_loop w"
  shows "leaves (report_stage rt c call d s) w (loop_ok rt)"
proof -
  have "leaves (\<lambda>w. loop_stage rt c (f w) w) w' (loop_ok rt)" if "in_loop w'" for f w'
    using leaves_loop_stage [OF assms(1) that, of "f w'"] by (simp add: leaves_def)
  then show ?thesis
    unfolding report_stage_def Let_def leaves_andThen
    by (intro leaves_recordStep [OF assms]) auto
qed

lemma leaves_taint_stage:
  assumes "drives rt (tk_id (rx_task c))" and "in_loop w"
  shows "leaves (taint_stage rt c d s) w (loop_ok rt)"
proof (cases "dr_taint d = []")
  case False
  have "keeps state_in (rt_persistTaint rt (tk_id (rx_task c)) (dr_taint d))" using assms(1) by (simp add: drives_def)
  then show ?thesis
    unfolding taint_stage_def if_not_P [OF False] leaves_andThen
    by (rule in_loop_keeps [OF _ assms(2)])
      (auto simp: leaves_yields in_loop_def intro: leaves_ends_terminate [OF assms(1)] split: option.split)
qed (use assms in \<open>simp add: taint_stage_def leaves_simps\<close>)

lemma leaves_dispatch_call:
  assumes "drives rt (tk_id (rx_task c))" and "in_loop w"
  shows "leaves (dispatch_call rt c url call s) w (loop_ok rt)"
proof -
  have after: "leaves (continuing (taint_stage rt c d s) (report_stage rt c call d)) w' (loop_ok rt)"
    if "in_loop w'" for d s w'
    unfolding leaves_continuing
    by (rule leaves_mono [OF leaves_taint_stage [OF assms(1) that]])
      (auto split: sum.splits intro: leaves_report_stage [OF assms(1)])
  have evidence: "keeps state_in (evidence_stage rt c d s)" for d
    using assms(1) by (simp add: evidence_stage_def Let_def drives_def keeps_intros)
  have activity: "keeps state_in (rt_onActivity rt t a)" and dispatch: "keeps state_in (rt_dispatch rt iv)" for t a iv
    using assms(1) by (simp_all add: drives_def)
  have tool: "WAITING_FOR_TOOL \<in> set LOOP_STATES" by (simp add: LOOP_STATES_def)
  have waiting: "leaves (rt_onStateChange rt (tk_id (rx_task c)) WAITING_FOR_TOOL None) w' Q"
    if "in_loop w'" "\<And>a w'. in_loop w' \<Longrightarrow> Q a w'" for w' and Q :: "unit \<Rightarrow> 'w \<Rightarrow> bool"
    using assms(1) in_loop_change [OF that(1) tool] that(2) by (simp add: leaves_def drives_def)
  show ?thesis
    unfolding dispatch_call_def leaves_andThen
    by (rule in_loop_keeps [OF activity assms(2)], rule waiting, assumption,
        rule in_loop_keeps [OF dispatch], assumption, rule in_loop_keeps [OF evidence], assumption, rule after)
qed

lemma leaves_run_call:
  assumes "drives rt (tk_id (rx_task c))" and "in_loop w"
  shows "leaves (run_call rt c url call s) w (loop_ok rt)"
proof -
  have "leaves (malformed_call rt c call problem s) w (loop_ok rt)" for problem
    unfolding malformed_call_def Let_def leaves_andThen
    by (rule leaves_recordStep [OF assms]) (simp add: leaves_yields)
  moreover have "leaves (ends (stop rt (rx_task c) (rs_evidenceIds s) (rs_usage s))) w (loop_ok rt)"
    using leaves_stop [OF assms] by (simp add: leaves_ends)
  ultimately show ?thesis
    using leaves_dispatch_call [OF assms] by (auto simp: run_call_def leaves_def split: option.split)
qed

lemma leaves_run_calls:
  "drives rt (tk_id (rx_task c)) \<Longrightarrow> in_loop w \<Longrightarrow> leaves (run_calls rt c url calls s) w (loop_ok rt)"
proof (induction calls arbitrary: s w)
  case (Cons call calls)
  show ?case
    unfolding run_calls.simps leaves_continuing
    by (rule leaves_mono [OF leaves_run_call [OF Cons.prems]])
      (auto split: sum.splits intro: Cons.IH [OF Cons.prems(1)])
qed (simp add: leaves_yields)

lemma leaves_answered_turn:
  assumes "drives rt (tk_id (rx_task c))" and "in_loop w" and "state_in w = Some RUNNING"
  shows "leaves (answered_turn rt c url response s) w (loop_ok rt)"
proof -
  have running: "leaves m w Q" if "in_loop w" "state_in w = Some RUNNING" "keeps state_in m"
      "\<And>a w'. in_loop w' \<Longrightarrow> state_in w' = Some RUNNING \<Longrightarrow> Q a w'"
    for m :: "('w, unit) effect" and w Q
    using that by (intro leaves_keeps [OF that(3)]) (auto simp: in_loop_def)
  have usage: "keeps state_in (rt_onUsage rt t u)" for t u using assms(1) by (simp add: drives_def)
  have recorded: "keeps state_in (recordStep rt t i k tool risk summary st ids e)" for t i k tool risk summary st ids e
    using assms(1) by (auto simp: drives_def keeps_def recordStep_def Let_def)
  have final: "leaves (final_turn rt c response s') w' (loop_ok rt)"
    if "in_loop w'" "state_in w' = Some RUNNING" for s' w'
    unfolding final_turn_def Let_def leaves_andThen leaves_ends loop_ok_simps
    by (rule running [OF that recorded], rule leaves_terminate [OF assms(1)])
  have calls: "leaves (continuing (run_calls rt c url cs s')
      (\<lambda>s. andThen (rt_onUsage rt (tk_id (rx_task c)) (rs_usage s)) (\<lambda>_. yields (Inl (f s))))) w' (loop_ok rt)"
    if "in_loop w'" for cs s' f w'
    unfolding leaves_continuing
    by (rule leaves_mono [OF leaves_run_calls [OF assms(1) that]])
      (auto simp: leaves_andThen leaves_yields split: sum.splits intro: in_loop_keeps [OF usage])
  show ?thesis
    unfolding answered_turn_def Let_def leaves_andThen
    by (rule running [OF assms(2,3) usage]) (auto intro: final leaves_mono [OF calls])
qed

lemma leaves_failed_turn:
  assumes "drives rt (tk_id (rx_task c))" and "in_loop w"
  shows "leaves (failed_turn rt c failure s) w (loop_ok rt)"
proof -
  let ?s = "s\<lparr>rs_usage := (rs_usage s)\<lparr>us_retries := us_retries (rs_usage s) + 1\<rparr>\<rparr>"
  let ?error = "toProviderError (pf_kind failure)"
  let ?retry = "decideRetryFor
      \<lparr>rc_code = ae_code ?error, rc_retryable = ae_retryable ?error, rc_retryAfterMs = pf_retryAfterMs failure\<rparr>
      (us_retries (rs_usage s) + 1) DEFAULT_RETRY_POLICY (rt_random rt w)"
  have stopped: "leaves (ends (stop rt (rx_task c) ids u)) w' (loop_ok rt)" if "in_loop w'" for ids u w'
    using leaves_stop [OF assms(1) that] by (simp add: leaves_ends)
  have waited: "leaves (retry_wait rt c delayMs ?s) w' (loop_ok rt)" if "in_loop w'" for delayMs w'
  proof -
    obtain slept w1 where sleep: "rt_sleep rt delayMs w' = (slept, w1)" by fastforce
    moreover from this have "state_in w1 = state_in w'" using assms(1) unfolding drives_def by (metis snd_conv)
    then have "in_loop w1" using that by (simp add: in_loop_def)
    ultimately show ?thesis
      using stopped [of w1 "rs_evidenceIds ?s" "rs_usage ?s"]
      by (cases slept) (simp_all add: retry_wait_def leaves_def yields_def)
  qed
  have activity: "keeps state_in (rt_onActivity rt t a)" for t a using assms(1) by (simp add: drives_def)
  have recovering: "RECOVERING \<in> set LOOP_STATES" by (simp add: LOOP_STATES_def)
  have changed: "leaves (rt_onStateChange rt (tk_id (rx_task c)) RECOVERING reason) w Q"
    if "\<And>a w'. in_loop w' \<Longrightarrow> Q a w'" for reason and Q :: "unit \<Rightarrow> 'w \<Rightarrow> bool"
    using assms(1) in_loop_change [OF assms(2) recovering] that by (simp add: leaves_def drives_def)
  have retried: "leaves (andThen (rt_onStateChange rt (tk_id (rx_task c)) RECOVERING reason)
      (\<lambda>_. andThen (rt_onActivity rt (tk_id (rx_task c)) activity) (\<lambda>_. retry_wait rt c delayMs ?s))) w (loop_ok rt)"
    for reason activity delayMs
    unfolding leaves_andThen by (rule changed, rule in_loop_keeps [OF activity], assumption, rule waited)
  have "partial_or_failed s \<noteq> out_COMPLETED" by (simp add: partial_or_failed_def)
  then have given_up: "leaves (andThen (recordStep rt (tk_id (rx_task c)) i k t ri su st ids e)
      (\<lambda>_. ends (terminate rt (rx_task c) (partial_or_failed s) su' ids' u acts e'))) w (loop_ok rt)"
    for i k t ri su st ids e su' ids' u acts e'
    unfolding leaves_andThen
    by (intro leaves_recordStep [OF assms] leaves_ends_terminate [OF assms(1)])
  show ?thesis
    using stopped [OF assms(2), of "rs_evidenceIds s" "rs_usage s"]
      retried [of "Some (rd_reason ?retry)" "''Retrying after a provider error''" "rd_delayMs ?retry"]
      given_up [of "rs_stepIndex s" error_step None None "ae_userMessage ?error" step_error None "Some ?error"
        "ae_userMessage ?error" "rs_evidenceIds s" "rs_usage s" "actions_of s" "Some ?error"]
    by (simp add: failed_turn_def Let_def leaves_def)
qed

lemma leaves_run_turn:
  assumes "drives rt (tk_id (rx_task c))" and "in_loop w"
  shows "leaves (run_turn rt c s) w (loop_ok rt)"
proof -
  let ?s = "s\<lparr>rs_usage := (rs_usage s)\<lparr>us_elapsedMs := rt_now rt w - rx_startedAt c\<rparr>\<rparr>"
  have settled: "leaves (settled_turn rt c s' url generated) w' (loop_ok rt)"
    if "in_loop w'" "state_in w' = Some RUNNING" for s' url generated w'
    using leaves_failed_turn [OF assms(1) that(1)] leaves_answered_turn [OF assms(1) that]
    by (cases generated) (simp_all add: settled_turn_def)
  have generated: "leaves (\<lambda>w. let (g, w) = rt_generate rt request w in settled_turn rt c s' url g w) w' (loop_ok rt)"
    if "in_loop w'" "state_in w' = Some RUNNING" for s' request url w'
  proof -
    obtain g w1 where g: "rt_generate rt request w' = (g, w1)" by fastforce
    moreover from this have "state_in w1 = state_in w'" using assms(1) unfolding drives_def by (metis snd_conv)
    ultimately show ?thesis
      using settled [of w1 s' url g] that by (simp add: leaves_def in_loop_def)
  qed
  have activity: "keeps state_in (rt_onActivity rt t a)" for t a using assms(1) by (simp add: drives_def)
  have observe: "keeps state_in (observeTabUrl rt tab)" for tab
  proof (rule keepsI)
    fix w'
    show "state_in (snd (observeTabUrl rt tab w')) = state_in w'"
    proof (cases tab; cases "rt_resolveTabUrl rt")
      fix t resolve
      assume h: "tab = Some t" "rt_resolveTabUrl rt = Some resolve"
      then have "state_in (snd (resolve t w')) = state_in w'" using assms(1) by (auto simp: drives_def keeps_def)
      then show ?thesis using h by (auto simp: observeTabUrl_def split: prod.split option.split)
    qed (simp_all add: observeTabUrl_def)
  qed
  have running: "RUNNING \<in> set LOOP_STATES" by (simp add: LOOP_STATES_def)
  have changed: "leaves (rt_onStateChange rt (tk_id (rx_task c)) RUNNING None) w' Q"
    if "in_loop w'" "\<And>a w'. in_loop w' \<Longrightarrow> state_in w' = Some RUNNING \<Longrightarrow> Q a w'"
    for w' and Q :: "unit \<Rightarrow> 'w \<Rightarrow> bool"
    using assms(1) in_loop_change [OF that(1) running] change_running [OF that(1)] that(2)
    by (simp add: leaves_def drives_def)
  have observed: "leaves (observeTabUrl rt tab) w' Q"
    if "in_loop w'" "state_in w' = Some RUNNING" "\<And>a w'. in_loop w' \<Longrightarrow> state_in w' = Some RUNNING \<Longrightarrow> Q a w'"
    for tab w' Q
    by (rule leaves_keeps [OF observe]) (use that in \<open>auto simp: in_loop_def\<close>)
  have asked: "leaves (asked_turn rt c ?s) w (loop_ok rt)"
    unfolding asked_turn_def leaves_andThen
    by (rule in_loop_keeps [OF activity assms(2)], rule changed, assumption, rule observed, assumption, assumption,
        rule generated)
  have "partial_or_failed ?s \<noteq> out_COMPLETED" by (simp add: partial_or_failed_def)
  then have "leaves (ends (terminate rt (rx_task c) (partial_or_failed ?s) summary ids usage actions error)) w (loop_ok rt)"
    for summary ids usage actions error
    by (rule leaves_ends_terminate [OF assms])
  moreover have "leaves (ends (stop rt (rx_task c) (rs_evidenceIds s) (rs_usage s))) w (loop_ok rt)"
    using leaves_stop [OF assms] by (simp add: leaves_ends)
  ultimately show ?thesis
    using asked by (simp add: run_turn_def Let_def leaves_def)
qed

lemma leaves_run_loop:
  "drives rt (tk_id (rx_task c)) \<Longrightarrow> in_loop w \<Longrightarrow> leaves (run_loop rt c s) w (settled rt)"
proof (induction rt c s w rule: run_loop.induct)
  case (1 rt c s w)
  obtain r w1 where turn: "run_turn rt c s w = (r, w1)" by fastforce
  show ?case
  proof (cases r)
    case None
    then show ?thesis using turn by (simp add: leaves_def run_loop.simps [of rt c s w])
  next
    case (Some r')
    have ok: "loop_ok rt r' w1"
      using leavesD [OF leaves_run_turn [OF 1(2,3)]] turn Some by simp
    show ?thesis
    proof (cases r')
      case (Inr out)
      then show ?thesis using turn Some ok by (simp add: leaves_def run_loop.simps [of rt c s w])
    next
      case (Inl s')
      have "leaves (run_loop rt c s') w1 (settled rt)"
        using 1(1) [OF turn [symmetric] Some Inl 1(2)] ok Inl by simp
      then show ?thesis using turn Some Inl by (simp add: leaves_def run_loop.simps [of rt c s w])
    qed
  qed
qed

lemma leaves_run:
  assumes "drives rt (tk_id (ri_task input))" and "state_in w = Some PLANNING"
  shows "leaves (run rt input) w (settled rt)"
proof -
  have loop: "in_loop w'" if "state_in w' = Some PLANNING" for w'
    using that by (simp add: in_loop_def LOOP_STATES_def)
  have ended: "leaves (terminate rt (ri_task input) outcome summary ids usage actions error) w' (settled rt)"
    if "state_in w' = Some PLANNING" "outcome \<noteq> out_COMPLETED" for outcome summary ids usage actions error w'
    by (rule leaves_terminate [OF assms(1) loop [OF that(1)]]) (use that(2) in simp)
  have planning: "PLANNING \<in> set LOOP_STATES" by (simp add: LOOP_STATES_def)
  have salted: "leaves (run_with_salt rt input startedAt salt) w' (settled rt)"
    if "state_in w' = Some PLANNING" for startedAt salt w'
  proof (cases salt)
    case None
    then show ?thesis using ended [OF that] by (simp add: run_with_salt_def Let_def)
  next
    case (Some p)
    let ?c = "\<lparr>rx_task = ri_task input, rx_taintSalt = fst p, rx_saltEpoch = snd p,
      rx_tools = rt_schemas rt (if tk_allowedTools (ri_task input) = Some [] then None else tk_allowedTools (ri_task input)),
      rx_vision = ri_vision input, rx_tabId = ri_tabId input, rx_startedAt = startedAt\<rparr>"
    have c: "rx_task ?c = ri_task input" by simp
    have run: "run_with_salt rt input startedAt salt =
        andThen (rt_onStateChange rt (tk_id (ri_task input)) PLANNING (Some ''Planning the approach.''))
          (\<lambda>_. run_loop rt ?c (start_state input))"
      using Some by (cases p) (simp add: run_with_salt_def Let_def)
    have "in_loop (change PLANNING (Some ''Planning the approach.'') w')"
      by (rule in_loop_change [OF loop [OF that] planning])
    then have "leaves (run_loop rt ?c (start_state input)) (change PLANNING (Some ''Planning the approach.'') w') (settled rt)"
      using leaves_run_loop [of rt ?c] assms(1) c by simp
    then show ?thesis
      using assms(1) unfolding run leaves_andThen by (simp add: leaves_def drives_def)
  qed
  have salt: "keeps state_in (usable_salt rt (ri_task input))"
    using assms(1) by (simp add: usable_salt_def drives_def keeps_yields)
  have "leaves (andThen (usable_salt rt (ri_task input)) (run_with_salt rt input (rt_now rt w))) w (settled rt)"
    unfolding leaves_andThen by (rule leaves_keeps [OF salt], rule salted) (use assms(2) in simp)
  then show ?thesis
    using ended [OF assms(2), of out_BLOCKED] by (simp add: run_def Let_def leaves_def)
qed

end

subsection \<open>A run to evaluate\<close>

definition sample_result :: dispatch_result where
  "sample_result =
     \<lparr>dr_envelope = successEnvelope ''c1'' JNull [], dr_evidence = [], dr_risk = R0, dr_policy = None,
      dr_taint = [], dr_executed = True\<rparr>"

definition sample_response :: "run_event list \<Rightarrow> canonical_response" where
  "sample_response w =
     \<lparr>cn_text = ''Done'',
      cn_toolCalls =
        (if w = [] then
           [\<lparr>tc_toolCallId = ''c1'', tc_name = ''browser_read_page'', tc_arguments = JNull,
             tc_parseError = None, tc_providerSignature = None\<rparr>]
         else []),
      cn_promptTokens = 1, cn_completionTokens = 1\<rparr>"

definition sample_runtime :: "run_event list runtime" where
  "sample_runtime =
     \<lparr>rt_now = \<lambda>_. 0, rt_random = \<lambda>_. 0, rt_newStepId = \<lambda>_. ''s'', rt_signal = \<lambda>_. Signal_Live,
      rt_sleep = \<lambda>_ w. (True, w), rt_onStateChange = \<lambda>_ _ _. yields (), rt_onComplete = \<lambda>_ _. yields (),
      rt_onStep = \<lambda>_ _. yields (), rt_onActivity = \<lambda>_ _. yields (), rt_onUsage = \<lambda>_ _. yields (),
      rt_onEvidence = \<lambda>_ _. yields (),
      rt_persistTaint = \<lambda>_ sources w. (Some (Some KNOWN_UNTAINTED), w @ [Persisted sources (Some KNOWN_UNTAINTED)]),
      rt_recoverSalt = \<lambda>_. yields (Some (''salt'', 1)), rt_resolveTabUrl = None, rt_schemas = \<lambda>_. [],
      rt_dispatch = \<lambda>iv w. (Some sample_result, w @ [Dispatched iv sample_result]),
      rt_generate = \<lambda>request w. (Inr (sample_response w), w @ [Asked request]),
      rt_taintSignature = \<lambda>_. ''sig'', rt_resultText = \<lambda>_. ''{}'', rt_argumentsSize = \<lambda>_. 2,
      rt_numberText = \<lambda>_. ''0'', rt_budget = None, rt_contextBudget = None\<rparr>"

definition sample_input :: run_input where
  "sample_input =
     \<lparr>ri_task =
        createTask
          \<lparr>in_id = ''t1'', in_sessionId = ''s1'', in_objective = ''read'', in_providerId = ''p'',
           in_connectionId = None, in_workspaceId = None, in_modelId = ''m'',
           in_permissionMode = manual_mode, in_authorizationModel = None, in_allowedTools = None,
           in_permissionFloor = None, in_now = 0, in_taintSalt = None\<rparr> [],
      ri_toolCalling = True, ri_vision = False, ri_tabId = None, ri_history = []\<rparr>"

lemma sample_quiet: "quiet part sample_runtime"
  by (simp add: quiet_def sample_runtime_def keeps_yields)

lemma sample_traced: "traced (\<lambda>w. w) sample_runtime"
  by (simp add: traced_def sample_quiet) (simp add: sample_runtime_def)

fun is_asked :: "run_event \<Rightarrow> bool" where
  "is_asked (Asked request) = True"
| "is_asked _ = False"

lemma sample_counts: "counts_generate (\<lambda>w. length (filter is_asked w)) sample_runtime"
  by (simp add: counts_generate_def only_generate_def sample_quiet) (simp add: sample_runtime_def keeps_def)

lemma sample_runtime_fields:
  "rt_now sample_runtime w = 0" "rt_signal sample_runtime w = Signal_Live"
  "rt_onStateChange sample_runtime task state summary = yields ()"
  "rt_onComplete sample_runtime task result = yields ()" "rt_onStep sample_runtime task step = yields ()"
  "rt_onActivity sample_runtime task activity = yields ()" "rt_onUsage sample_runtime task usage = yields ()"
  "rt_resolveTabUrl sample_runtime = None" "rt_budget sample_runtime = None"
  "rt_dispatch sample_runtime iv w = (Some sample_result, w @ [Dispatched iv sample_result])"
  "rt_generate sample_runtime request w = (Inr (sample_response w), w @ [Asked request])"
  by (simp_all add: sample_runtime_def)

lemmas sample_turn_simps =
  run_turn_def asked_turn_def settled_turn_def answered_turn_def final_turn_def run_call_def dispatch_call_def
  evidence_stage_def taint_stage_def report_stage_def loop_stage_def note_outcome_def recordStep_def terminate_def
  observeTabUrl_def continuing_def ends_def andThen_def yields_def sample_runtime_fields sample_response_def
  sample_result_def successEnvelope_def

lemma sample_budget: "\<not> bc_exhausted (checkBudget u DEFAULT_BUDGET)"
  if "us_elapsedMs u = 0" "us_toolCalls u \<le> 1" "us_modelRequests u \<le> 1" "us_retries u = 0"
    "us_screenshots u = 0" "us_externalWrites u = 0" "us_promptTokens u + us_completionTokens u \<le> 2"
  using that by (simp add: exhausted_iff DEFAULT_BUDGET_def)

lemma sample_no_loop: "\<not> lk_detected (check_loop (record_execution r newLoopDetector))"
  by (simp add: check_loop_def checkRepeatedFailure_def checkIdentical_def checkCycle_def cycle_at_def
      record_execution_def newLoopDetector_def first_at_least_def bump_def Let_def)

lemma sample_first_turn:
  assumes "rs_usage s = emptyUsage" and "rs_detector s = newLoopDetector" and "rx_startedAt c = 0" and "rx_tabId c = None"
  shows "\<exists>s' e1 e2. run_turn sample_runtime c s [] = (Some (Inl s'), [e1, e2]) \<and>
    rs_completed s' = rs_completed s @ [''browser.read_page''] \<and> rs_failed s' = rs_failed s \<and>
    rs_blocked s' = rs_blocked s \<and> us_elapsedMs (rs_usage s') = 0 \<and> us_toolCalls (rs_usage s') = 1 \<and>
    us_modelRequests (rs_usage s') = 1 \<and> us_retries (rs_usage s') = 0 \<and> us_screenshots (rs_usage s') = 0 \<and>
    us_externalWrites (rs_usage s') = 0 \<and> us_promptTokens (rs_usage s') + us_completionTokens (rs_usage s') = 2"
proof -
  have name: "fromWireName ''browser_read_page'' = ''browser.read_page''" by code_simp
  have budget: "\<not> bc_exhausted (checkBudget (emptyUsage\<lparr>us_elapsedMs := 0\<rparr>) DEFAULT_BUDGET)"
    by (rule sample_budget) (simp_all add: emptyUsage_def)
  show ?thesis
    using assms budget sample_no_loop name
    by (simp add: sample_turn_simps Let_def count_call_def count_response_def emptyUsage_def)
qed

lemma sample_second_turn:
  assumes "us_elapsedMs (rs_usage s) = 0" "us_toolCalls (rs_usage s) = 1" "us_modelRequests (rs_usage s) = 1"
    "us_retries (rs_usage s) = 0" "us_screenshots (rs_usage s) = 0" "us_externalWrites (rs_usage s) = 0"
    "us_promptTokens (rs_usage s) + us_completionTokens (rs_usage s) = 2"
    "rs_failed s = []" "rs_blocked s = []" "rx_startedAt c = 0" "rx_tabId c = None" "w \<noteq> []"
  shows "\<exists>out. fst (run_turn sample_runtime c s w) = Some (Inr out) \<and>
    tr_outcome (ru_result out) = out_COMPLETED \<and> tr_completedActions (ru_result out) = rs_completed s"
proof -
  have trimmed: "js_trim ''Done'' = ''Done''" by code_simp
  have budget: "\<not> bc_exhausted (checkBudget ((rs_usage s)\<lparr>us_elapsedMs := 0\<rparr>) DEFAULT_BUDGET)"
    by (rule sample_budget) (use assms in simp_all)
  show ?thesis
    using assms budget trimmed by (simp add: sample_turn_simps Let_def actions_of_def)
qed

lemma sample_completes:
  "\<exists>out. fst (run sample_runtime sample_input []) = Some out \<and> tr_outcome (ru_result out) = out_COMPLETED \<and>
     tr_completedActions (ru_result out) = [''browser.read_page'']"
proof -
  let ?s = "start_state sample_input"
  obtain c where c: "rx_startedAt c = 0" "rx_tabId c = None"
      "run sample_runtime sample_input [] = run_loop sample_runtime c ?s []"
    using that [of "\<lparr>rx_task = ri_task sample_input, rx_taintSalt = ''salt'', rx_saltEpoch = 1,
        rx_tools = [], rx_vision = False, rx_tabId = None, rx_startedAt = 0\<rparr>"]
    by (simp add: run_def Let_def sample_input_def sample_runtime_def usable_salt_def createTask_def
        isValidTaintSalt_def run_with_salt_def andThen_def yields_def)
  have start: "rs_usage ?s = emptyUsage" "rs_detector ?s = newLoopDetector" "rs_completed ?s = []"
      "rs_failed ?s = []" "rs_blocked ?s = []"
    by (simp_all add: start_state_def Let_def sample_input_def createTask_def emptyUsage_def)
  obtain s' e1 e2 where t: "run_turn sample_runtime c ?s [] = (Some (Inl s'), [e1, e2])"
    and s': "rs_completed s' = [''browser.read_page'']" "rs_failed s' = []" "rs_blocked s' = []"
      "us_elapsedMs (rs_usage s') = 0" "us_toolCalls (rs_usage s') = 1" "us_modelRequests (rs_usage s') = 1"
      "us_retries (rs_usage s') = 0" "us_screenshots (rs_usage s') = 0" "us_externalWrites (rs_usage s') = 0"
      "us_promptTokens (rs_usage s') + us_completionTokens (rs_usage s') = 2"
    using sample_first_turn [OF start(1,2) c(1,2)] start by auto
  obtain out where out: "fst (run_turn sample_runtime c s' [e1, e2]) = Some (Inr out)"
      "tr_outcome (ru_result out) = out_COMPLETED" "tr_completedActions (ru_result out) = rs_completed s'"
    using sample_second_turn [of s' c "[e1, e2]"] s' c(1,2) by auto
  have "fst (run_loop sample_runtime c ?s []) = Some out"
    using t out(1)
    by (cases "run_turn sample_runtime c s' [e1, e2]")
      (simp add: run_loop.simps [of _ c ?s] run_loop.simps [of _ c s'])
  then show ?thesis using c(3) out s'(1) by simp
qed

subsection \<open>The properties\<close>

text \<open>
  C24. A run always ends, and stays within its limits: however the tools, the callbacks and the provider
  behave, the model is asked at most once more than the model requests and retries still allowed, the
  request counter never passes the larger of its start and the budget, and the retry counter never
  passes the larger of its start and the attempts of the retry policy.
\<close>

theorem run_bounded:
  assumes "counts_generate calls rt"
  shows "calls (snd (run rt input w)) \<le> calls w + remaining rt (start_state input) + 1 \<and>
    (\<forall>out. fst (run rt input w) = Some out \<and> ri_toolCalling input \<longrightarrow> ends_within rt (start_state input) out)"
proof
  have only: "only_generate calls rt" using assms by (simp add: counts_generate_def)
  let ?n = "remaining rt (start_state input) + 1"
  have step: "calls (snd (andThen m k w)) \<le> calls w + ?n"
    if "keeps calls m" "\<And>a w. calls (snd (k a w)) \<le> calls w + ?n"
    for m :: "('a, 'z) effect" and k :: "'z \<Rightarrow> ('a, 'y) effect" and w
  proof -
    obtain r w1 where m: "m w = (r, w1)" by fastforce
    then have "calls w1 = calls w" using keepsD [OF that(1), of w] by simp
    then show ?thesis using m that(2) by (cases r) (simp_all add: andThen_def, metis)
  qed
  have loop: "calls (snd (run_loop rt c (start_state input) w)) \<le> calls w + ?n" for c w
    using run_loop_calls [OF assms, of c "start_state input" w] by simp
  have salted: "calls (snd (run_with_salt rt input startedAt salt w)) \<le> calls w + ?n" for startedAt salt w
  proof (cases salt)
    case None
    then show ?thesis
      using keepsD [OF keeps_terminate [OF only_quiet [OF only]]] by (simp add: run_with_salt_def Let_def)
  next
    case (Some p)
    then obtain c where salted: "run_with_salt rt input startedAt salt =
        andThen (rt_onStateChange rt (tk_id (ri_task input)) PLANNING (Some ''Planning the approach.''))
          (\<lambda>_. run_loop rt c (start_state input))"
      by (rule run_with_salt_loop)
    show ?thesis unfolding salted by (intro step keeps_intros only loop)
  qed
  have "keeps calls (usable_salt rt (ri_task input))"
    by (simp add: usable_salt_def keeps_intros only)
  then have "calls (snd (andThen (usable_salt rt (ri_task input)) (run_with_salt rt input (rt_now rt w)) w))
      \<le> calls w + ?n"
    by (rule step) (rule salted)
  then show "calls (snd (run rt input w)) \<le> calls w + remaining rt (start_state input) + 1"
    using keepsD [OF keeps_terminate [OF only_quiet [OF only]]] by (simp add: run_def Let_def)
  show "\<forall>out. fst (run rt input w) = Some out \<and> ri_toolCalling input \<longrightarrow> ends_within rt (start_state input) out"
  proof (intro allI impI)
    fix out
    assume run: "fst (run rt input w) = Some out \<and> ri_toolCalling input"
    have usage: "ends_within rt (start_state input) out"
      if "ru_usage out = rs_usage (start_state input)" for out
      using that by (simp add: ends_within_def)
    have salted_ends: "leaves (run_with_salt rt input startedAt salt) w'
        (\<lambda>out w'. ends_within rt (start_state input) out)"
      for startedAt salt w'
    proof (cases salt)
      case None
      have "leaves (terminate rt (ri_task input) outcome summary ids (rs_usage (start_state input)) actions error) w'
          (\<lambda>out w'. ends_within rt (start_state input) out)" for outcome summary ids actions error
        by (rule terminate_usage, rule usage)
      then show ?thesis using None by (simp add: run_with_salt_def Let_def)
    next
      case (Some p)
      then obtain c where c: "run_with_salt rt input startedAt salt =
          andThen (rt_onStateChange rt (tk_id (ri_task input)) PLANNING (Some ''Planning the approach.''))
            (\<lambda>_. run_loop rt c (start_state input))"
        by (rule run_with_salt_loop)
      show ?thesis unfolding c leaves_andThen by (rule leaves_anything, rule run_loop_ends)
    qed
    have "leaves (andThen (usable_salt rt (ri_task input)) (run_with_salt rt input (rt_now rt w))) w
        (\<lambda>out w'. ends_within rt (start_state input) out)"
      unfolding leaves_andThen by (rule leaves_anything, rule salted_ends)
    then show "ends_within rt (start_state input) out"
      using run by (auto simp: run_def Let_def leaves_def) (metis prod.collapse)
  qed
qed

theorem run_bounded_witness:
  "length (filter is_asked (snd (run sample_runtime sample_input []))) \<le> 44"
proof -
  have "remaining sample_runtime (start_state sample_input) = 43"
    by (simp add: remaining_def sample_runtime_fields start_state_def Let_def sample_input_def createTask_def
        emptyUsage_def DEFAULT_BUDGET_def DEFAULT_RETRY_POLICY_def)
  then show ?thesis using run_bounded [OF sample_counts, of sample_input "[]"] by simp
qed

text \<open>
  C25. In every run, whatever the callbacks answer, the provider is asked and a tool is dispatched only
  with the taint state as last saved, and only after everything the previous tool read has been offered
  to the store; once a save fails, neither happens again.
\<close>

theorem run_follows_taint:
  assumes "traced trace rt"
  shows "\<exists>events. trace (snd (run rt input w)) = trace w @ events \<and>
    follow (Some (tk_taintState (ri_task input))) [] events \<noteq> None"
  using emits_run [OF assms, of input w]
  by (auto simp: emits_def output_ok_def start_state_def Let_def)

theorem run_follows_taint_witness:
  "follow (Some KNOWN_UNTAINTED) [] (snd (run sample_runtime sample_input [])) \<noteq> None"
proof -
  have "tk_taintState (ri_task sample_input) = KNOWN_UNTAINTED"
    by (simp add: sample_input_def createTask_def freshTaint_def)
  then show ?thesis using run_follows_taint [OF sample_traced, of sample_input "[]"] by auto
qed

text \<open>
  C26. A run reported \<open>COMPLETED\<close> is honest: every call dispatched in it succeeded, its result lists exactly
  these calls in order and exactly those that wrote to the outside, and there is no failed or refused
  action and no error.
\<close>

theorem run_completed_honest:
  assumes "traced trace rt" and "fst (run rt input w) = Some out"
    and "tr_outcome (ru_result out) = out_COMPLETED"
  shows "\<exists>events. trace (snd (run rt input w)) = trace w @ events \<and>
    list_all succeeded (dispatches events) \<and>
    tr_completedActions (ru_result out) = names_of (dispatches events) \<and>
    tr_externalWrites (ru_result out) = names_of (filter wrote (dispatches events)) \<and>
    tr_failedActions (ru_result out) = [] \<and> tr_blockedActions (ru_result out) = [] \<and> ru_error out = None"
proof -
  have "accounts [] (start_state input)"
    by (simp add: accounts_def start_state_def Let_def names_of_def)
  then show ?thesis
    using emits_run [OF assms(1), of input w] assms(2,3)
    by (auto simp: emits_def output_ok_def honest_def)
qed

theorem run_completed_honest_witness:
  "names_of (dispatches (snd (run sample_runtime sample_input []))) = [''browser.read_page'']"
proof -
  obtain out where "fst (run sample_runtime sample_input []) = Some out"
      "tr_outcome (ru_result out) = out_COMPLETED" "tr_completedActions (ru_result out) = [''browser.read_page'']"
    using sample_completes by blast
  then show ?thesis using run_completed_honest [OF sample_traced, of sample_input "[]" out] by auto
qed

subsection \<open>The budget inside a turn\<close>

definition well_formed_call :: "tool_call \<Rightarrow> bool" where
  "well_formed_call call \<longleftrightarrow> tc_parseError call = None \<or> tc_parseError call = Some []"

lemma note_outcome_toolCalls: "us_toolCalls (rs_usage (note_outcome name d s)) = us_toolCalls (rs_usage s)"
  by (simp add: note_outcome_def Let_def split: option.split)

lemma dispatch_call_toolCalls:
  assumes "fst (dispatch_call rt c url call s w) = Some (Inl s')"
  shows "us_toolCalls (rs_usage s') = us_toolCalls (rs_usage s) + 1"
proof -
  obtain d w1 s1 w2 s2 w3 where
      e: "fst (evidence_stage rt c d s w1) = Some s1"
      and t: "fst (taint_stage rt c d s1 w2) = Some (Inl s2)"
      and r: "fst (report_stage rt c call d s2 w3) = Some (Inl s')"
    using assms by (auto simp: dispatch_call_def stage_simps) (metis fst_conv)
  show ?thesis
    using evidence_stage_Some [OF e] taint_stage_Inl [OF t] report_stage_Inl [OF r]
    by (auto simp: note_outcome_toolCalls count_call_def)
qed

lemma run_call_toolCalls:
  "fst (run_call rt c url call s w) = Some (Inl s') \<Longrightarrow>
   us_toolCalls (rs_usage s') = us_toolCalls (rs_usage s) + (if well_formed_call call then 1 else 0)"
  by (auto simp: run_call_def malformed_call_def well_formed_call_def Let_def stage_simps
      dest: dispatch_call_toolCalls split: if_splits option.splits)

text \<open>
  Within one response the budget is not looked at: when the loop over the calls of a response comes to
  its end, every well-formed call has been dispatched and counted, whatever the limit on tool calls, so
  a task passes its limit by as many calls as the model puts into one response.
\<close>

theorem budget_unchecked_within_turn:
  assumes "fst (run_calls rt c url calls s w) = Some (Inl s')"
  shows "us_toolCalls (rs_usage s') = us_toolCalls (rs_usage s) + int (length (filter well_formed_call calls))"
  using assms
proof (induction calls arbitrary: s w)
  case (Cons call calls)
  then obtain s1 w1 where "fst (run_call rt c url call s w) = Some (Inl s1)"
      "fst (run_calls rt c url calls s1 w1) = Some (Inl s')"
    by (auto simp: continuing_Inl)
  then show ?case using run_call_toolCalls [of rt c url call s w s1] Cons.IH by auto
qed simp

definition sample_call :: "string \<Rightarrow> tool_call" where
  "sample_call i =
     \<lparr>tc_toolCallId = i, tc_name = ''browser_read_page'', tc_arguments = JNull, tc_parseError = None,
      tc_providerSignature = None\<rparr>"

definition sample_context :: run_context where
  "sample_context =
     \<lparr>rx_task = ri_task sample_input, rx_taintSalt = ''salt'', rx_saltEpoch = 1, rx_tools = [],
      rx_vision = False, rx_tabId = None, rx_startedAt = 0\<rparr>"

lemma sample_run_calls:
  "\<exists>s'. fst (run_calls (sample_runtime\<lparr>rt_budget := Some (DEFAULT_BUDGET\<lparr>bg_maxToolCalls := 0\<rparr>)\<rparr>) sample_context
     None [sample_call ''a''] (start_state sample_input) []) = Some (Inl s')"
proof -
  have "rs_detector (start_state sample_input) = newLoopDetector"
    by (simp add: start_state_def Let_def)
  then show ?thesis
    using sample_no_loop
    by (simp add: run_call_def dispatch_call_def evidence_stage_def taint_stage_def report_stage_def
        loop_stage_def note_outcome_def recordStep_def continuing_def andThen_def yields_def sample_call_def
        sample_runtime_def sample_result_def successEnvelope_def Let_def)
qed

theorem budget_unchecked_within_turn_witness:
  "\<exists>s'. fst (run_calls (sample_runtime\<lparr>rt_budget := Some (DEFAULT_BUDGET\<lparr>bg_maxToolCalls := 0\<rparr>)\<rparr>) sample_context
     None [sample_call ''a''] (start_state sample_input) []) = Some (Inl s') \<and> us_toolCalls (rs_usage s') = 1"
proof -
  obtain s' where s': "fst (run_calls (sample_runtime\<lparr>rt_budget := Some (DEFAULT_BUDGET\<lparr>bg_maxToolCalls := 0\<rparr>)\<rparr>)
      sample_context None [sample_call ''a''] (start_state sample_input) []) = Some (Inl s')"
    using sample_run_calls by blast
  moreover have "us_toolCalls (rs_usage (start_state sample_input)) = 0"
    by (simp add: start_state_def Let_def sample_input_def createTask_def emptyUsage_def)
  ultimately show ?thesis
    using budget_unchecked_within_turn [OF s'] by (simp add: sample_call_def well_formed_call_def)
qed

end
