(* ===== verification/TaskManager.thy ===== *)
theory TaskManager
  imports AgentRuntime TaskStore PersistenceHealth
begin

text \<open>
  \<open>src/background/task-manager.ts\<close>: who may start, stop and finish a task. The manager owns the task
  records in the store and, in memory, one abort controller per running task.

  The state holds the stored records, the map \<open>running\<close> from task to controller, the signal of every
  controller ever made, the health store and the lifecycle events an observer was told. An execution is
  launched without being awaited; its three parts between the awaits that matter (\<open>begin_execution\<close>,
  \<open>drive\<close>, \<open>finish_execution\<close>) are operations of their own, so that other operations may come between
  them. Resolving the provider, the planning turn and the runtime are effects of the options, which may
  do to the manager whatever a person does meanwhile. Log lines, broadcasts, the technical details of a
  thrown value and the identities an observer is also told are left out.
\<close>

subsection \<open>The state\<close>

datatype lifecycle_kind = lc_created | lc_state | lc_completed

record lifecycle_event =
  le_kind :: lifecycle_kind
  le_taskId :: string
  le_state :: "task_state option"
  le_errorCode :: "error_code option"

record manager =
  mg_area :: task_area
  mg_running :: "(string \<times> nat) list"
  mg_signals :: "nat \<Rightarrow> abort_signal"
  mg_controllers :: nat
  mg_health :: health_store
  mg_lifecycle :: "lifecycle_event list"
  mg_launched :: "string list"
  mg_now :: int

record resolved_provider =
  rv_providerId :: string
  rv_connectionId :: "string option"
  rv_modelId :: string
  rv_toolCalling :: bool
  rv_vision :: bool

record manager_options =
  mo_maxTasks :: nat
  mo_health :: bool
  mo_healthReads :: "manager \<Rightarrow> bool"
  mo_resolveProvider :: "manager \<Rightarrow> (agent_error option + resolved_provider) \<times> manager"
  mo_resolveWorkspaceId :: "(manager, string option) effect"
  mo_getPermissionMode :: "(manager, permission_mode) effect"
  mo_getActiveTabId :: "manager \<Rightarrow> (agent_error option + int option) \<times> manager"
  mo_newTaskId :: "manager \<Rightarrow> string"
  mo_newPlanId :: "manager \<Rightarrow> string"
  mo_generateSalt :: "manager \<Rightarrow> string"
  mo_propose :: "agent_task \<Rightarrow> nat \<Rightarrow> (manager, plan_proposal) effect"
  mo_run :: "run_input \<Rightarrow> nat \<Rightarrow> manager \<Rightarrow> (agent_error option + run_output) \<times> manager"

text \<open>
  What an operation throws, or yields. An awaited effect of \<open>execute\<close> throws with the \<open>agentError\<close> the
  thrown value carries, if it carries one.
\<close>

type_synonym 'a outcome = "agent_error + 'a"

datatype plan_failure = missing_task | no_proposal | already_approved | finished_task

fun plannedTaskError :: "plan_failure \<Rightarrow> agent_error" where
  "plannedTaskError missing_task = createError INVALID_ARGUMENT ''That task no longer exists.'' default_init"
| "plannedTaskError no_proposal =
     createError INVALID_ARGUMENT ''That task has no plan to approve.''
       (default_init\<lparr>ei_userMessage := Some ''There is no plan waiting for approval on this task.''\<rparr>)"
| "plannedTaskError finished_task =
     createError INVALID_ARGUMENT ''That task has already finished.''
       (default_init\<lparr>ei_userMessage := Some ''This task has finished. Start a new one to plan again.'',
                     ei_retryable := Some False\<rparr>)"
| "plannedTaskError already_approved =
     createError POLICY_BLOCKED_ERROR ''That task already has an approved plan.''
       (default_init
          \<lparr>ei_userMessage :=
             Some (''This task is already running under an approved plan. Stop it and start a new '' @
                   ''one to plan again.''),
           ei_retryable := Some False\<rparr>)"

definition NO_TASK :: agent_error where
  "NO_TASK = createError INVALID_ARGUMENT ''That task no longer exists.'' default_init"

subsection \<open>Moving a task\<close>

definition observe :: "lifecycle_event \<Rightarrow> manager \<Rightarrow> manager" where
  "observe event m = m\<lparr>mg_lifecycle := mg_lifecycle m @ [event]\<rparr>"

definition moved :: "task_state \<Rightarrow> string option \<Rightarrow> int \<Rightarrow> agent_task \<Rightarrow> agent_task" where
  "moved nextState summary now task =
     task\<lparr>tk_state := nextState, tk_updatedAt := now,
          tk_currentStepSummary := (case summary of None \<Rightarrow> tk_currentStepSummary task | Some s \<Rightarrow> Some s),
          tk_finishedAt := (if isTerminal nextState then Some now else tk_finishedAt task)\<rparr>"

text \<open>The mutation of \<open>transition\<close>, and what it sets \<open>allowed\<close> to.\<close>

definition transition_task ::
  "task_state \<Rightarrow> string option \<Rightarrow> int \<Rightarrow> agent_task \<Rightarrow> agent_task \<times> bool" where
  "transition_task nextState summary now task =
     (if tk_state task = nextState then (task, True)
      else if \<not> canTransition (tk_state task) nextState then (task, False)
      else (moved nextState summary now task, True))"

text \<open>
  A mutation with a verdict, run by \<open>updateTask\<close>: the stored task afterwards, and the verdict, which is
  \<open>fallback\<close> where the task is missing and the mutation never runs.
\<close>

definition mutate_with ::
  "string \<Rightarrow> (agent_task \<Rightarrow> agent_task \<times> 'a) \<Rightarrow> 'a \<Rightarrow> manager \<Rightarrow> agent_task option \<times> 'a \<times> manager" where
  "mutate_with taskId mutation fallback m =
     (let verdict =
            (case stored (mg_area m) taskId of
               None \<Rightarrow> fallback | Some t \<Rightarrow> snd (mutation (normaliseSecurityState t)));
          (updated, area) = updateTask taskId (\<lambda>t. fst (mutation t)) (mg_area m)
      in (updated, verdict, m\<lparr>mg_area := area\<rparr>))"

definition transition :: "string \<Rightarrow> task_state \<Rightarrow> string option \<Rightarrow> manager \<Rightarrow> bool \<times> manager" where
  "transition taskId nextState summary m =
     (let (updated, allowed, m) =
            mutate_with taskId (transition_task nextState summary (mg_now m)) False m
      in (allowed,
          if updated \<noteq> None \<and> allowed then
            observe \<lparr>le_kind = (if isTerminal nextState then lc_completed else lc_state),
                     le_taskId = taskId, le_state = Some nextState, le_errorCode = None\<rparr> m
          else m))"

definition fail_task :: "agent_error \<Rightarrow> int \<Rightarrow> agent_task \<Rightarrow> agent_task \<times> bool" where
  "fail_task error now task =
     (if isTerminal (tk_state task) then (task, False)
      else (task\<lparr>tk_state := FAILED, tk_error := Some error, tk_finishedAt := Some now,
                 tk_updatedAt := now\<rparr>, True))"

definition fail_run :: "string \<Rightarrow> agent_error \<Rightarrow> manager \<Rightarrow> manager" where
  "fail_run taskId error m =
     (let (updated, applied, m) = mutate_with taskId (fail_task error (mg_now m)) False m
      in if applied then
           observe \<lparr>le_kind = lc_completed, le_taskId = taskId, le_state = Some FAILED,
                    le_errorCode = Some (ae_code error)\<rparr> m
         else m)"

subsection \<open>The runtime's callbacks\<close>

definition complete_task :: "completion \<Rightarrow> int \<Rightarrow> agent_task \<Rightarrow> agent_task \<times> bool" where
  "complete_task outcome now task =
     (if isTerminal (tk_state task) then (task, False)
      else if tk_state task = PAUSED then (task, False)
      else if \<not> canTransition (tk_state task) (oc_state outcome) then (task, False)
      else
        (task\<lparr>tk_state := oc_state outcome, tk_result := Some (oc_result outcome),
              tk_usage := oc_usage outcome,
              tk_currentStepSummary := Some (tr_summary (oc_result outcome)),
              tk_error := (case oc_error outcome of None \<Rightarrow> tk_error task | Some e \<Rightarrow> Some e),
              tk_finishedAt := Some now, tk_updatedAt := now\<rparr>, True))"

definition onComplete :: "string \<Rightarrow> completion \<Rightarrow> manager \<Rightarrow> manager" where
  "onComplete taskId outcome m =
     (let (updated, applied, m) = mutate_with taskId (complete_task outcome (mg_now m)) False m
      in if applied then
           observe \<lparr>le_kind = lc_completed, le_taskId = taskId, le_state = Some (oc_state outcome),
                    le_errorCode = map_option ae_code (oc_error outcome)\<rparr> m
         else m)"

definition update_only :: "string \<Rightarrow> (agent_task \<Rightarrow> agent_task) \<Rightarrow> manager \<Rightarrow> manager" where
  "update_only taskId mutate m = m\<lparr>mg_area := snd (updateTask taskId mutate (mg_area m))\<rparr>"

definition onStep :: "string \<Rightarrow> task_step \<Rightarrow> manager \<Rightarrow> manager" where
  "onStep taskId step m =
     update_only taskId (\<lambda>t. t\<lparr>tk_steps := tk_steps t @ [step], tk_updatedAt := mg_now m\<rparr>) m"

definition onUsage :: "string \<Rightarrow> task_usage \<Rightarrow> manager \<Rightarrow> manager" where
  "onUsage taskId usage m =
     update_only taskId (\<lambda>t. t\<lparr>tk_usage := usage, tk_updatedAt := mg_now m\<rparr>) m"

definition onEvidence :: "string \<Rightarrow> evidence_reference list \<Rightarrow> manager \<Rightarrow> manager" where
  "onEvidence taskId evidence m =
     update_only taskId
       (\<lambda>t. t\<lparr>tk_evidenceIds := tk_evidenceIds t @ map ev_id evidence, tk_updatedAt := mg_now m\<rparr>) m"

definition persistTaint :: "string \<Rightarrow> taint_source list \<Rightarrow> manager \<Rightarrow> taint_state option \<times> manager" where
  "persistTaint taskId sources m =
     (let (taint, area) = appendTaint taskId sources (mg_area m) in (taint, m\<lparr>mg_area := area\<rparr>))"

definition recoverSalt :: "manager_options \<Rightarrow> string \<Rightarrow> manager \<Rightarrow> (string \<times> int) option \<times> manager" where
  "recoverSalt opts taskId m =
     (let (repaired, area) = ensureSalt taskId (mo_generateSalt opts m) (mg_area m)
      in (map_option (\<lambda>t. (tk_taintSalt t, tk_saltEpoch t)) repaired, m\<lparr>mg_area := area\<rparr>))"

text \<open>\<open>createCallbacks\<close>: the runtime with these callbacks, and the signal of one controller.\<close>

definition with_callbacks :: "manager_options \<Rightarrow> nat \<Rightarrow> manager runtime \<Rightarrow> manager runtime" where
  "with_callbacks opts controller rt =
     rt\<lparr>rt_signal := (\<lambda>m. mg_signals m controller),
        rt_onStateChange := (\<lambda>taskId state summary m. (Some (), snd (transition taskId state summary m))),
        rt_onComplete := (\<lambda>taskId outcome m. (Some (), onComplete taskId outcome m)),
        rt_onStep := (\<lambda>taskId step m. (Some (), onStep taskId step m)),
        rt_onActivity := (\<lambda>taskId activity. yields ()),
        rt_onUsage := (\<lambda>taskId usage m. (Some (), onUsage taskId usage m)),
        rt_onEvidence := (\<lambda>taskId evidence m. (Some (), onEvidence taskId evidence m)),
        rt_persistTaint :=
          (\<lambda>taskId sources m. let (taint, m) = persistTaint taskId sources m in (Some taint, m)),
        rt_recoverSalt :=
          (\<lambda>taskId m. let (salt, m) = recoverSalt opts taskId m in (Some salt, m))\<rparr>"

subsection \<open>Starting\<close>

fun state_name :: "persistence_state \<Rightarrow> string" where
  "state_name HEALTHY = ''HEALTHY''"
| "state_name DEGRADED = ''DEGRADED''"
| "state_name CORRUPT = ''CORRUPT''"
| "state_name RECOVERY_REQUIRED = ''RECOVERY_REQUIRED''"
| "state_name IRRECOVERABLE = ''IRRECOVERABLE''"

text \<open>\<open>describeBlock\<close>, for the state a snapshot gates on; typographic marks are written in ASCII.\<close>

fun describeBlock :: "persistence_state \<Rightarrow> string" where
  "describeBlock HEALTHY = ''Storage is working normally.''"
| "describeBlock DEGRADED =
     ''Some of this extension's stored state could not be written, so a task's security '' @
     ''state is no longer established. Starting or resuming work is blocked until you '' @
     ''acknowledge this in Settings.''"
| "describeBlock CORRUPT =
     ''Some of this extension's stored state could not be read back as written. Starting '' @
     ''or resuming work is blocked until you acknowledge this in Settings.''"
| "describeBlock RECOVERY_REQUIRED = ''Stored state needs to be reviewed before work can continue.''"
| "describeBlock IRRECOVERABLE =
     ''This extension's storage is not usable, so nothing can be started safely.''"

text \<open>The error where work may not start; a snapshot that throws is an error too.\<close>

definition requireHealthyPersistence :: "manager_options \<Rightarrow> string \<Rightarrow> manager \<Rightarrow> agent_error option" where
  "requireHealthyPersistence opts act m =
     (if \<not> mo_health opts then None
      else
        (case snapshot (mg_now m) (mo_healthReads opts m) (mg_health m) of
           None \<Rightarrow> Some (createError INTERNAL_ERROR ''The health record could not be read.'' default_init)
         | Some snap \<Rightarrow>
             if \<not> hs_blocked snap then None
             else
               Some (createError POLICY_BLOCKED_ERROR
                 (''Persistence is '' @ state_name (hs_gating snap) @ ''; '' @ act @ '' is refused.'')
                 (default_init\<lparr>ei_userMessage := Some (describeBlock (hs_gating snap)),
                               ei_retryable := Some False\<rparr>))))"

record create_options =
  co_authorizationModel :: "authorization_model option"
  co_allowedTools :: "string list option"
  co_permissionFloor :: "permission_mode option"

definition no_options :: create_options where
  "no_options = \<lparr>co_authorizationModel = None, co_allowedTools = None, co_permissionFloor = None\<rparr>"

text \<open>A fresh controller under a task's key, and the launch of its execution.\<close>

definition launch :: "string \<Rightarrow> manager \<Rightarrow> manager" where
  "launch taskId m =
     m\<lparr>mg_running := AList.update taskId (mg_controllers m) (mg_running m),
       mg_signals := (mg_signals m)(mg_controllers m := Signal_Live),
       mg_controllers := mg_controllers m + 1, mg_launched := mg_launched m @ [taskId]\<rparr>"

definition new_task ::
  "manager_options \<Rightarrow> string \<Rightarrow> string \<Rightarrow> create_options \<Rightarrow> resolved_provider \<Rightarrow> string option \<Rightarrow>
   permission_mode \<Rightarrow> manager \<Rightarrow> agent_task" where
  "new_task opts objective sessionId options provider workspaceId mode m =
     createTask
       \<lparr>in_id = mo_newTaskId opts m, in_sessionId = sessionId, in_objective = objective,
        in_providerId = rv_providerId provider, in_connectionId = rv_connectionId provider,
        in_workspaceId = workspaceId, in_modelId = rv_modelId provider, in_permissionMode = mode,
        in_authorizationModel = co_authorizationModel options,
        in_allowedTools =
          (if co_allowedTools options = Some [] then None else co_allowedTools options),
        in_permissionFloor = co_permissionFloor options, in_now = mg_now m, in_taintSalt = None\<rparr>
       (mo_generateSalt opts m)"

definition create ::
  "manager_options \<Rightarrow> string \<Rightarrow> string \<Rightarrow> create_options \<Rightarrow> (manager, agent_task outcome) effect" where
  "create opts objective sessionId options m =
     (case requireHealthyPersistence opts ''starting a task'' m of
        Some error \<Rightarrow> (Some (Inl error), m)
      | None \<Rightarrow>
          let trimmed = js_trim objective
          in if trimmed = [] then
               (Some (Inl (createError INVALID_ARGUMENT ''A task needs an objective.''
                  (default_init\<lparr>ei_userMessage := Some ''Describe what you want the agent to do.''\<rparr>))), m)
             else
               (case mo_resolveProvider opts m of
                  (Inl thrown, m) \<Rightarrow> (None, m)
                | (Inr provider, m) \<Rightarrow>
                    andThen (mo_resolveWorkspaceId opts)
                      (\<lambda>workspaceId. andThen (mo_getPermissionMode opts)
                      (\<lambda>mode m.
                         let task = new_task opts trimmed sessionId options provider workspaceId mode m;
                             m = m\<lparr>mg_area := saveTask (mo_maxTasks opts) task (mg_area m)\<rparr>;
                             m = observe \<lparr>le_kind = lc_created, le_taskId = tk_id task, le_state = None,
                                          le_errorCode = None\<rparr> m
                         in (Some (Inr task), launch (tk_id task) m))) m))"

subsection \<open>An execution\<close>

text \<open>Up to the guard: the task and the controller it runs under, or nothing.\<close>

definition begin_execution :: "string \<Rightarrow> manager \<Rightarrow> (agent_task \<times> nat) option \<times> manager" where
  "begin_execution taskId m =
     (case fst (getTask taskId (mg_area m)) of
        Some (Some task) \<Rightarrow>
          (case map_of (mg_running m) taskId of
             Some controller \<Rightarrow>
               if aborted (mg_signals m controller) \<or> isTerminal (tk_state task) then
                 (None, m\<lparr>mg_running := AList.delete taskId (mg_running m)\<rparr>)
               else (Some (task, controller), m)
           | None \<Rightarrow> (None, m\<lparr>mg_running := AList.delete taskId (mg_running m)\<rparr>))
      | Some None \<Rightarrow> (None, m\<lparr>mg_running := AList.delete taskId (mg_running m)\<rparr>)
      | None \<Rightarrow> (None, m))"

text \<open>The \<open>finally\<close> of an execution.\<close>

definition finish_execution :: "string \<Rightarrow> manager \<Rightarrow> manager" where
  "finish_execution taskId m = m\<lparr>mg_running := AList.delete taskId (mg_running m)\<rparr>"

definition switched :: "agent_task \<Rightarrow> resolved_provider \<Rightarrow> bool" where
  "switched task provider \<longleftrightarrow>
     rv_providerId provider \<noteq> tk_providerId task \<or> rv_modelId provider \<noteq> tk_modelId task \<or>
     (tk_connectionId task \<noteq> None \<and> rv_connectionId provider \<noteq> tk_connectionId task)"

definition switched_error :: "agent_task \<Rightarrow> resolved_provider \<Rightarrow> agent_error" where
  "switched_error task provider =
     createError POLICY_BLOCKED_ERROR
       (''This task started on '' @ tk_providerId task @ ''/'' @ tk_modelId task @ ''; '' @
        rv_providerId provider @ ''/'' @ rv_modelId provider @ '' is active now.'')
       (default_init
          \<lparr>ei_userMessage :=
             Some (''This task was started with '' @ tk_modelId task @ '', and '' @ rv_modelId provider @
                   '' is active now. Switch back to continue it, or retry it on the current model.''),
           ei_retryable := Some False\<rparr>)"

definition planning_error :: agent_error where
  "planning_error =
     createError MODEL_ERROR ''The AI provider could not produce a plan.''
       (default_init
          \<lparr>ei_userMessage :=
             Some (''The AI model could not produce a plan for this task. Try again, or start it '' @
                   ''without planning first.''),
           ei_retryable := Some True\<rparr>)"

text \<open>The planning turn stores its proposal, and waits for the person.\<close>

definition store_proposal :: "plan_proposal \<Rightarrow> int \<Rightarrow> agent_task \<Rightarrow> agent_task" where
  "store_proposal proposal now task =
     task\<lparr>tk_planRevisionNote := None, tk_planProposal := Some proposal, tk_updatedAt := now\<rparr>"

definition proposePlan :: "manager_options \<Rightarrow> agent_task \<Rightarrow> nat \<Rightarrow> manager \<Rightarrow> manager" where
  "proposePlan opts task controller m =
     (let (proposed, m) = mo_propose opts task controller m
      in if aborted (mg_signals m controller) then m
         else
           (case proposed of
              None \<Rightarrow> fail_run (tk_id task) planning_error m
            | Some proposal \<Rightarrow>
                let m = update_only (tk_id task) (store_proposal proposal (mg_now m)) m
                in snd (transition (tk_id task) WAITING_FOR_USER
                     (Some ''Waiting for you to approve the plan.'') m)))"

definition carriedError :: "agent_error option \<Rightarrow> agent_error" where
  "carriedError thrown =
     (case thrown of
        Some error \<Rightarrow> error
      | None \<Rightarrow>
          createError INTERNAL_ERROR ''The task failed unexpectedly.''
            (default_init\<lparr>ei_userMessage := Some ''The task stopped because of an internal error.''\<rparr>))"

definition run_input_of :: "agent_task \<Rightarrow> resolved_provider \<Rightarrow> int option \<Rightarrow> manager \<Rightarrow> run_input" where
  "run_input_of task provider tabId m =
     \<lparr>ri_task = task\<lparr>tk_startedAt := Some (mg_now m)\<rparr>, ri_toolCalling = rv_toolCalling provider,
      ri_vision = rv_vision provider, ri_tabId = tabId, ri_history = []\<rparr>"

text \<open>Between the guard and the \<open>finally\<close>; a throw of an awaited effect fails the task.\<close>

definition drive :: "manager_options \<Rightarrow> agent_task \<Rightarrow> nat \<Rightarrow> manager \<Rightarrow> manager" where
  "drive opts task controller m =
     (case mo_resolveProvider opts m of
        (Inl thrown, m) \<Rightarrow> fail_run (tk_id task) (carriedError thrown) m
      | (Inr provider, m) \<Rightarrow>
          if switched task provider then fail_run (tk_id task) (switched_error task provider) m
          else
            (case transition (tk_id task) PLANNING None m of
               (False, m) \<Rightarrow> m
             | (True, m) \<Rightarrow>
                 if tk_authorizationModel task = Some classic \<and> tk_planApproval task = JUndef then
                   proposePlan opts task controller m
                 else
                   (case mo_getActiveTabId opts m of
                      (Inl thrown, m) \<Rightarrow> fail_run (tk_id task) (carriedError thrown) m
                    | (Inr tabId, m) \<Rightarrow>
                        (case mo_run opts (run_input_of task provider tabId m) controller m of
                           (Inl thrown, m) \<Rightarrow> fail_run (tk_id task) (carriedError thrown) m
                         | (Inr output, m) \<Rightarrow> m))))"

definition execute :: "manager_options \<Rightarrow> string \<Rightarrow> manager \<Rightarrow> manager" where
  "execute opts taskId m =
     (case begin_execution taskId m of
        (None, m) \<Rightarrow> m
      | (Some (task, controller), m) \<Rightarrow> finish_execution taskId (drive opts task controller m))"

subsection \<open>What a person may do\<close>

definition abort_running :: "string \<Rightarrow> string option \<Rightarrow> manager \<Rightarrow> manager" where
  "abort_running taskId reason m =
     (case map_of (mg_running m) taskId of
        None \<Rightarrow> m
      | Some controller \<Rightarrow>
          if aborted (mg_signals m controller) then m
          else m\<lparr>mg_signals := (mg_signals m)(controller := Signal_Aborted reason)\<rparr>)"

definition pause :: "string \<Rightarrow> manager \<Rightarrow> task_state outcome option \<times> manager" where
  "pause taskId m =
     (let m = finish_execution taskId (abort_running taskId (Some PAUSE_ABORT_REASON) m);
          (paused, m) = transition taskId PAUSED (Some ''Paused.'') m
      in (case fst (getTask taskId (mg_area m)) of
            None \<Rightarrow> None
          | Some None \<Rightarrow> Some (Inl NO_TASK)
          | Some (Some task) \<Rightarrow> Some (Inr (tk_state task)), m))"

fun task_state_name :: "task_state \<Rightarrow> string" where
  "task_state_name QUEUED = ''QUEUED''"
| "task_state_name PLANNING = ''PLANNING''"
| "task_state_name RUNNING = ''RUNNING''"
| "task_state_name WAITING_FOR_TOOL = ''WAITING_FOR_TOOL''"
| "task_state_name WAITING_FOR_PERMISSION = ''WAITING_FOR_PERMISSION''"
| "task_state_name WAITING_FOR_USER = ''WAITING_FOR_USER''"
| "task_state_name PAUSED = ''PAUSED''"
| "task_state_name RECOVERING = ''RECOVERING''"
| "task_state_name COMPLETED = ''COMPLETED''"
| "task_state_name PARTIAL = ''PARTIAL''"
| "task_state_name BLOCKED = ''BLOCKED''"
| "task_state_name FAILED = ''FAILED''"
| "task_state_name CANCELLED = ''CANCELLED''"

definition not_resumable :: "agent_task \<Rightarrow> agent_error" where
  "not_resumable task =
     createError INVALID_ARGUMENT (''A '' @ task_state_name (tk_state task) @ '' task cannot be resumed.'')
       (default_init
          \<lparr>ei_userMessage :=
             Some (''This task already finished ('' @ task_state_name (tk_state task) @
                   ''). Use retry to run it again.'')\<rparr>)"

definition resume :: "manager_options \<Rightarrow> string \<Rightarrow> manager \<Rightarrow> task_state outcome option \<times> manager" where
  "resume opts taskId m =
     (case requireHealthyPersistence opts ''resuming a task'' m of
        Some error \<Rightarrow> (Some (Inl error), m)
      | None \<Rightarrow>
          (case fst (getTask taskId (mg_area m)) of
             None \<Rightarrow> (None, m)
           | Some None \<Rightarrow> (Some (Inl NO_TASK), m)
           | Some (Some task) \<Rightarrow>
               if isTerminal (tk_state task) then (Some (Inl (not_resumable task)), m)
               else if map_of (mg_running m) taskId \<noteq> None then (Some (Inr (tk_state task)), m)
               else (Some (Inr RUNNING), launch taskId m)))"

definition cancel :: "string \<Rightarrow> manager \<Rightarrow> task_state \<times> manager" where
  "cancel taskId m =
     (CANCELLED,
      snd (transition taskId CANCELLED (Some ''Cancelled by the user.'')
        (finish_execution taskId (abort_running taskId None m))))"

definition retry_options :: "agent_task \<Rightarrow> create_options" where
  "retry_options previous = no_options\<lparr>co_authorizationModel := tk_authorizationModel previous\<rparr>"

definition retry :: "manager_options \<Rightarrow> string \<Rightarrow> (manager, agent_task outcome) effect" where
  "retry opts taskId m =
     (case requireHealthyPersistence opts ''retrying a task'' m of
        Some error \<Rightarrow> (Some (Inl error), m)
      | None \<Rightarrow>
          (case fst (getTask taskId (mg_area m)) of
             None \<Rightarrow> (None, m)
           | Some None \<Rightarrow> (Some (Inl NO_TASK), m)
           | Some (Some previous) \<Rightarrow>
               let m = (if isTerminal (tk_state previous) then m else snd (cancel taskId m))
               in create opts (tk_objective previous) (tk_sessionId previous) (retry_options previous) m))"

definition markWaitingForUser :: "string \<Rightarrow> string \<Rightarrow> manager \<Rightarrow> manager" where
  "markWaitingForUser taskId summary m = snd (transition taskId WAITING_FOR_USER (Some summary) m)"

definition markUserResponded :: "string \<Rightarrow> manager \<Rightarrow> manager" where
  "markUserResponded taskId m = snd (transition taskId RUNNING None m)"

subsection \<open>Plans\<close>

text \<open>What both plan operations do with the verdict of their mutation.\<close>

definition settle_plan ::
  "manager_options \<Rightarrow> string \<Rightarrow> plan_failure option \<Rightarrow> agent_task option \<Rightarrow> manager \<Rightarrow>
   agent_task outcome option \<times> manager" where
  "settle_plan opts taskId failure updated m =
     (case (failure, updated) of
        (None, Some task) \<Rightarrow>
          (case resume opts taskId m of
             (Some (Inr state), m) \<Rightarrow> (Some (Inr task), m)
           | (Some (Inl error), m) \<Rightarrow> (Some (Inl error), m)
           | (None, m) \<Rightarrow> (None, m))
      | (Some reason, _) \<Rightarrow> (Some (Inl (plannedTaskError reason)), m)
      | (None, None) \<Rightarrow> (Some (Inl (plannedTaskError missing_task)), m))"

definition approve_task ::
  "string \<Rightarrow> int \<Rightarrow> agent_task \<Rightarrow> agent_task \<times> plan_failure option" where
  "approve_task planId now task =
     (if isTerminal (tk_state task) then (task, Some finished_task)
      else if tk_planApproval task \<noteq> JUndef then (task, Some already_approved)
      else
        (case tk_planProposal task of
           None \<Rightarrow> (task, Some no_proposal)
         | Some proposal \<Rightarrow>
             (task\<lparr>tk_planApproval := approval_json (approvePlan proposal planId (of_int now)),
                   tk_updatedAt := now\<rparr>, None)))"

definition approvePlanFor :: "manager_options \<Rightarrow> string \<Rightarrow> manager \<Rightarrow> agent_task outcome option \<times> manager" where
  "approvePlanFor opts taskId m =
     (let (updated, failure, m) =
            mutate_with taskId (approve_task (mo_newPlanId opts m) (mg_now m)) (Some missing_task) m
      in settle_plan opts taskId failure updated m)"

definition MAX_REVISION_NOTE :: nat where
  "MAX_REVISION_NOTE = 500"

definition revise_task :: "string \<Rightarrow> int \<Rightarrow> agent_task \<Rightarrow> agent_task \<times> plan_failure option" where
  "revise_task note now task =
     (if isTerminal (tk_state task) then (task, Some finished_task)
      else if tk_planApproval task \<noteq> JUndef then (task, Some already_approved)
      else
        (task\<lparr>tk_planProposal := None, tk_planRevisionNote := (if note = [] then None else Some note),
              tk_updatedAt := now\<rparr>, None))"

definition revisePlan ::
  "manager_options \<Rightarrow> string \<Rightarrow> string option \<Rightarrow> manager \<Rightarrow> agent_task outcome option \<times> manager" where
  "revisePlan opts taskId note m =
     (let trimmed = (case note of None \<Rightarrow> [] | Some text \<Rightarrow> take MAX_REVISION_NOTE (js_trim text));
          (updated, failure, m) =
            mutate_with taskId (revise_task trimmed (mg_now m)) (Some missing_task) m
      in settle_plan opts taskId failure updated m)"

text \<open>
  The approval a record holds, as \<open>amendPlan\<close> reads it. On a value of another shape it throws, so that the
  update of \<open>addSiteToPlan\<close> writes nothing.
\<close>

fun string_items :: "json list \<Rightarrow> string list option" where
  "string_items [] = Some []"
| "string_items (JStr s # items) = map_option (\<lambda>ss. s # ss) (string_items items)"
| "string_items (item # items) = None"

definition approval_of :: "json \<Rightarrow> plan_approval option" where
  "approval_of v =
     (case v of
        JObj obj \<Rightarrow>
          (case (json_get obj ''planId'', json_get obj ''taskId'', json_get obj ''version'',
                 json_get obj ''approvedSites'', json_get obj ''approvedAt'') of
             (JStr planId, JStr taskId, JNum (Fin version), JArr items, JNum (Fin approvedAt)) \<Rightarrow>
               map_option
                 (\<lambda>sites.
                    \<lparr>pa_planId = planId, pa_taskId = taskId, pa_version = \<lfloor>version\<rfloor>,
                     pa_approvedSites = sites, pa_approvedAt = approvedAt,
                     pa_approvalProvenance = USER_PANEL_ACTION,
                     pa_supersedes = (case json_get obj ''supersedes'' of JStr s \<Rightarrow> Some s | _ \<Rightarrow> None)\<rparr>)
                 (string_items items)
           | _ \<Rightarrow> None)
      | _ \<Rightarrow> None)"

definition add_site :: "url_parser \<Rightarrow> string \<Rightarrow> int \<Rightarrow> agent_task \<Rightarrow> agent_task" where
  "add_site U site now task =
     (if tk_planApproval task = JUndef then task
      else
        (case approval_of (tk_planApproval task) of
           None \<Rightarrow> task
         | Some approval \<Rightarrow>
             let amended = amendPlan U approval site (of_int now)
             in if amended = approval then task
                else task\<lparr>tk_planApproval := approval_json amended, tk_updatedAt := now\<rparr>))"

definition addSiteToPlan :: "url_parser \<Rightarrow> string \<Rightarrow> string \<Rightarrow> manager \<Rightarrow> manager" where
  "addSiteToPlan U taskId site m = update_only taskId (add_site U site (mg_now m)) m"

definition isRunning :: "string \<Rightarrow> manager \<Rightarrow> bool" where
  "isRunning taskId m = (map_of (mg_running m) taskId \<noteq> None)"

definition abort_controller :: "nat \<Rightarrow> (nat \<Rightarrow> abort_signal) \<Rightarrow> nat \<Rightarrow> abort_signal" where
  "abort_controller c signals = (if aborted (signals c) then signals else signals(c := Signal_Aborted None))"

definition abortAll :: "manager \<Rightarrow> manager" where
  "abortAll m =
     m\<lparr>mg_signals := fold abort_controller (map snd (mg_running m)) (mg_signals m), mg_running := []\<rparr>"

subsection \<open>How a stored task may change\<close>

text \<open>
  \<open>pinned\<close> is what a task was started with. \<open>evolves\<close> is what any operation may do to a task: what was
  pinned stays, the state follows the transition table, an approved plan is at most amended by further
  sites, and the taint never shrinks unless it becomes unknown.
\<close>

definition pinned where
  "pinned t =
     ((tk_id t, tk_sessionId t, tk_objective t), (tk_providerId t, tk_connectionId t, tk_modelId t),
      (tk_workspaceId t, tk_permissionMode t), (tk_authorizationModel t, tk_allowedTools t, tk_permissionFloor t))"

definition taint_grows :: "taint_state \<Rightarrow> taint_state \<Rightarrow> bool" where
  "taint_grows a b \<longleftrightarrow>
     (case b of UNKNOWN _ \<Rightarrow> True
      | _ \<Rightarrow> (\<forall>r. a \<noteq> UNKNOWN r) \<and> set (taintSources a) \<subseteq> set (taintSources b))"

definition plan_grows :: "json \<Rightarrow> json \<Rightarrow> bool" where
  "plan_grows a b \<longleftrightarrow>
     a = JUndef \<or> b = a \<or>
     (\<exists>p q. approval_of a = Some p \<and> approval_of b = Some q \<and> pa_planId q = pa_planId p \<and>
        pa_taskId q = pa_taskId p \<and> pa_version p \<le> pa_version q \<and>
        set (pa_approvedSites p) \<subseteq> set (pa_approvedSites q))"

definition evolves :: "agent_task \<Rightarrow> agent_task \<Rightarrow> bool" where
  "evolves t t' \<longleftrightarrow>
     pinned t' = pinned t \<and> canTransition\<^sup>*\<^sup>* (tk_state t) (tk_state t') \<and>
     plan_grows (tk_planApproval t) (tk_planApproval t') \<and>
     taint_grows (tk_taintState t) (tk_taintState t')"

definition task_of :: "manager \<Rightarrow> string \<Rightarrow> agent_task option" where
  "task_of m i = map_option normaliseSecurityState (stored (mg_area m) i)"

definition state_of_task :: "string \<Rightarrow> manager \<Rightarrow> task_state option" where
  "state_of_task i m = map_option tk_state (task_of m i)"

definition moves :: "manager \<Rightarrow> manager \<Rightarrow> bool" where
  "moves m m' \<longleftrightarrow> (\<forall>i. rel_option evolves (task_of m i) (task_of m' i))"

lemma taint_grows_refl: "taint_grows a a"
  by (cases a) (simp_all add: taint_grows_def)

lemma taint_grows_trans: "taint_grows a b \<Longrightarrow> taint_grows b c \<Longrightarrow> taint_grows a c"
  by (cases b; cases c) (auto simp: taint_grows_def)

lemma taint_grows_add: "taint_grows a (addTaint a sources)"
proof (cases "\<exists>r. addTaint a sources = UNKNOWN r")
  case False
  then have "\<forall>r. a \<noteq> UNKNOWN r" by auto
  then show ?thesis
    using False addTaint_keeps [of a sources] by (cases "addTaint a sources") (simp_all add: taint_grows_def)
qed (auto simp: taint_grows_def)

lemma plan_grows_refl: "plan_grows a a"
  by (simp add: plan_grows_def)

lemma plan_grows_undef: "plan_grows JUndef b"
  by (simp add: plan_grows_def)

lemma plan_grows_trans: "plan_grows a b \<Longrightarrow> plan_grows b c \<Longrightarrow> plan_grows a c"
proof -
  have "approval_of JUndef = None" by (simp add: approval_of_def)
  then show "plan_grows a b \<Longrightarrow> plan_grows b c \<Longrightarrow> plan_grows a c"
    unfolding plan_grows_def by (elim disjE exE conjE) (simp_all, force)
qed

lemma string_items_map: "string_items (map JStr ss) = Some ss"
  by (induction ss) simp_all

lemma approval_of_json: "approval_of (approval_json a) = Some a"
proof -
  have "pa_approvalProvenance a = USER_PANEL_ACTION" by (cases "pa_approvalProvenance a") simp
  then show ?thesis
    by (cases "pa_supersedes a") (simp_all add: approval_of_def approval_json_def json_get_def string_items_map)
qed

lemma plan_grows_amend: "approval_of a = Some p \<Longrightarrow> plan_grows a (approval_json (amendPlan U p site now))"
  by (auto simp: plan_grows_def approval_of_json) (auto simp: amendPlan_def split: option.split)

lemma evolves_refl: "evolves t t"
  by (simp add: evolves_def taint_grows_refl plan_grows_refl)

lemma evolves_trans: "evolves a b \<Longrightarrow> evolves b c \<Longrightarrow> evolves a c"
  unfolding evolves_def
  using taint_grows_trans [of "tk_taintState a" "tk_taintState b" "tk_taintState c"]
    plan_grows_trans [of "tk_planApproval a" "tk_planApproval b" "tk_planApproval c"]
    rtranclp_trans [of canTransition "tk_state a" "tk_state b" "tk_state c"] by auto

lemma moves_refl: "moves m m"
  by (simp add: moves_def option.rel_refl evolves_refl)

lemma moves_trans: "moves a b \<Longrightarrow> moves b c \<Longrightarrow> moves a c"
proof -
  have t: "rel_option evolves x y \<Longrightarrow> rel_option evolves y z \<Longrightarrow> rel_option evolves x z" for x y z
    by (cases x; cases y; cases z) (auto intro: evolves_trans)
  show "moves a b \<Longrightarrow> moves b c \<Longrightarrow> moves a c"
    unfolding moves_def by (blast intro: t)
qed

lemma moves_same_area: "mg_area m' = mg_area m \<Longrightarrow> moves m m'"
  by (simp add: moves_def task_of_def option.rel_refl evolves_refl)

text \<open>A task that is stored and read back: the same but for a taint that cannot be read, which is unknown.\<close>

lemma parse_sources_bad:
  "\<not> list_all (\<lambda>s. ts_sourceType s \<noteq> []) sources \<Longrightarrow> parse_sources (map source_json sources) = None"
proof (induction sources)
  case (Cons s sources)
  have "ts_sourceType s = [] \<Longrightarrow> parseSource (source_json s) = None"
    by (simp add: parseSource_def source_json_def json_get_def)
  then show ?case using Cons by (auto split: option.split)
qed simp

lemma taint_reload: "taint_grows s (parseTaintState (taint_json s))"
proof (cases "taint_ok s")
  case True
  then show ?thesis by (simp add: parseTaintState_json taint_grows_refl)
next
  case False
  then obtain sources where s: "s = TAINTED sources"
      "sources = [] \<or> \<not> list_all (\<lambda>s. ts_sourceType s \<noteq> []) sources"
    by (cases s) (auto simp: taint_ok_def)
  then have "\<exists>r. parseTaintState (taint_json s) = UNKNOWN r"
    using parse_sources_bad [of sources]
    by (auto simp: parseTaintState_def json_get_def unknownTaint_def split: option.split)
  then show ?thesis by (auto simp: taint_grows_def)
qed

lemma reload_core:
  "pinned (normaliseSecurityState (store_form t)) = pinned t"
  "tk_state (normaliseSecurityState (store_form t)) = tk_state t"
  "tk_planApproval (normaliseSecurityState (store_form t)) = tk_planApproval t"
  "tk_taintState (normaliseSecurityState (store_form t)) = parseTaintState (taint_json (tk_taintState t))"
  by (simp_all add: pinned_def normaliseSecurityState_def store_form_def with_security_def to_core_def
      task_core.defs task_record.defs)

lemma evolves_reload: "evolves t (normaliseSecurityState (store_form t))"
  by (simp add: evolves_def reload_core taint_reload plan_grows_refl)

subsection \<open>What the operations leave stored\<close>

lemma update_task_of:
  "task_of (m\<lparr>mg_area := snd (updateTask i f (mg_area m))\<rparr>) j =
     (if j = i then map_option (\<lambda>t. normaliseSecurityState (store_form (f t))) (task_of m i) else task_of m j)"
  by (cases "stored (mg_area m) i") (auto simp: task_of_def updateTask_stored updateTask_def Let_def)

lemma task_of_simps [simp]:
  "task_of (observe e m) = task_of m"
  "task_of (m\<lparr>mg_running := r\<rparr>) = task_of m"
  "task_of (m\<lparr>mg_signals := s\<rparr>) = task_of m"
  "task_of (launch i m) = task_of m"
  "task_of (finish_execution i m) = task_of m"
  "task_of (abort_running i reason m) = task_of m"
  by (simp_all add: task_of_def fun_eq_iff observe_def launch_def finish_execution_def abort_running_def
      split: option.split)

lemma mutate_with_verdict:
  "fst (snd (mutate_with i f d m)) = (case task_of m i of None \<Rightarrow> d | Some t \<Rightarrow> snd (f t))"
  by (simp add: mutate_with_def Let_def task_of_def split: prod.split option.split)

lemma mutate_with_updated:
  "fst (mutate_with i f d m) = map_option (\<lambda>t. fst (f t)) (task_of m i)"
  by (simp add: mutate_with_def Let_def task_of_def updateTask_def split: prod.split option.split)

lemma mutate_with_area:
  "snd (snd (mutate_with i f d m)) = m\<lparr>mg_area := snd (updateTask i (\<lambda>t. fst (f t)) (mg_area m))\<rparr>"
  by (simp add: mutate_with_def Let_def split: prod.split)

lemma mutate_with_eq:
  "mutate_with i f d m =
     (map_option (\<lambda>t. fst (f t)) (task_of m i), (case task_of m i of None \<Rightarrow> d | Some t \<Rightarrow> snd (f t)),
      m\<lparr>mg_area := snd (updateTask i (\<lambda>t. fst (f t)) (mg_area m))\<rparr>)"
  by (simp add: prod_eq_iff mutate_with_verdict mutate_with_updated mutate_with_area)

lemma moves_update:
  assumes "\<And>t. evolves t (f t)"
  shows "moves m (m\<lparr>mg_area := snd (updateTask i f (mg_area m))\<rparr>)"
  unfolding moves_def
proof
  fix j
  show "rel_option evolves (task_of m j) (task_of (m\<lparr>mg_area := snd (updateTask i f (mg_area m))\<rparr>) j)"
    using evolves_trans [OF assms evolves_reload] by (cases "task_of m i"; cases "task_of m j")
      (auto simp: update_task_of evolves_refl)
qed

lemmas moves_intros = moves_refl moves_update moves_trans

lemma moves_mutate: "(\<And>t. evolves t (fst (f t))) \<Longrightarrow> moves m (snd (snd (mutate_with i f d m)))"
  unfolding mutate_with_area by (rule moves_update)

text \<open>A mutation that keeps what was pinned, the approval and the taint, and moves the state lawfully.\<close>

lemma evolvesI:
  "pinned t' = pinned t \<Longrightarrow> tk_state t' = tk_state t \<or> canTransition (tk_state t) (tk_state t') \<Longrightarrow>
   tk_planApproval t' = tk_planApproval t \<Longrightarrow> tk_taintState t' = tk_taintState t \<Longrightarrow> evolves t t'"
  by (auto simp: evolves_def taint_grows_refl plan_grows_refl)

lemma transition_task_evolves: "evolves t (fst (transition_task s' summary now t))"
  by (rule evolvesI) (simp_all add: transition_task_def moved_def pinned_def)

lemma fail_task_evolves: "evolves t (fst (fail_task error now t))"
  using live_can_stop [of "tk_state t"] by (intro evolvesI) (auto simp: fail_task_def pinned_def)

lemma complete_task_evolves: "evolves t (fst (complete_task outcome now t))"
  by (rule evolvesI) (simp_all add: complete_task_def pinned_def)

lemma approve_task_evolves: "evolves t (fst (approve_task planId now t))"
  by (auto simp: evolves_def approve_task_def pinned_def taint_grows_refl plan_grows_refl plan_grows_undef
      split: option.split)

lemma revise_task_evolves: "evolves t (fst (revise_task note now t))"
  by (rule evolvesI) (simp_all add: revise_task_def pinned_def)

lemma store_proposal_evolves: "evolves t (store_proposal proposal now t)"
  by (rule evolvesI) (simp_all add: store_proposal_def pinned_def)

lemma add_site_evolves: "evolves t (add_site U site now t)"
  by (auto simp: evolves_def add_site_def pinned_def taint_grows_refl plan_grows_refl Let_def
      intro: plan_grows_amend split: option.split)

lemma ensure_salt_evolves: "evolves t (ensure_salt candidate t)"
  by (rule evolvesI) (simp_all add: ensure_salt_def pinned_def)

lemma moves_observe: "moves m m' \<Longrightarrow> moves m (observe e m')"
  by (simp add: moves_def)

lemma moves_transition: "moves m (snd (transition i s' summary m))"
  using moves_mutate [of "transition_task s' summary (mg_now m)" m i False, OF transition_task_evolves]
  by (auto simp: transition_def split: prod.split intro: moves_observe)

lemma moves_fail_run: "moves m (fail_run i error m)"
  using moves_mutate [of "fail_task error (mg_now m)" m i False, OF fail_task_evolves]
  by (auto simp: fail_run_def split: prod.split intro: moves_observe)

lemma moves_onComplete: "moves m (onComplete i outcome m)"
  using moves_mutate [of "complete_task outcome (mg_now m)" m i False, OF complete_task_evolves]
  by (auto simp: onComplete_def split: prod.split intro: moves_observe)

lemma moves_update_only: "(\<And>t. evolves t (f t)) \<Longrightarrow> moves m (update_only i f m)"
  unfolding update_only_def by (rule moves_update)

lemma moves_records: "moves m (onStep i step m)" "moves m (onUsage i usage m)" "moves m (onEvidence i evidence m)"
  unfolding onStep_def onUsage_def onEvidence_def
  by (rule moves_update_only, rule evolvesI; simp add: pinned_def)+

lemma moves_persistTaint: "moves m (snd (persistTaint i sources m))"
proof -
  have "evolves t (t\<lparr>tk_taintState := addTaint (tk_taintState t) sources\<rparr>)" for t
    by (simp add: evolves_def pinned_def taint_grows_add plan_grows_refl)
  from moves_update [OF this] show ?thesis
    by (simp add: persistTaint_def appendTaint_def case_prod_beta)
qed

lemma moves_recoverSalt: "moves m (snd (recoverSalt opts i m))"
  using moves_update [OF ensure_salt_evolves] by (simp add: recoverSalt_def ensureSalt_def case_prod_beta)

lemma moves_resume: "moves m (snd (resume opts i m))"
  by (simp add: resume_def moves_refl split: option.split) (simp add: moves_def option.rel_refl evolves_refl)

lemma moves_finish: "moves m (finish_execution i m)"
  by (rule moves_same_area) (simp add: finish_execution_def)

lemma moves_begin: "moves m (snd (begin_execution i m))"
  by (simp add: begin_execution_def moves_refl moves_same_area split: option.split)

lemma moves_abort: "moves m (abort_running i reason m)"
  by (rule moves_same_area) (simp add: abort_running_def split: option.split)

lemma moves_cancel: "moves m (snd (cancel i m))"
  unfolding cancel_def snd_conv by (rule moves_trans [OF moves_trans [OF moves_abort moves_finish] moves_transition])

lemma moves_pause: "moves m (snd (pause i m))"
  using moves_trans [OF moves_trans [OF moves_abort moves_finish] moves_transition]
  by (simp add: pause_def Let_def case_prod_beta)

lemma settle_plan_area: "mg_area (snd (settle_plan opts i failure updated m)) = mg_area m"
  by (auto simp: settle_plan_def resume_def launch_def split: option.split prod.split sum.split if_splits)

lemma moves_approve: "moves m (snd (approvePlanFor opts i m))"
  by (simp add: approvePlanFor_def case_prod_beta)
    (rule moves_trans [OF moves_mutate moves_same_area [OF settle_plan_area]], rule approve_task_evolves)

lemma moves_revise: "moves m (snd (revisePlan opts i note m))"
  by (simp add: revisePlan_def Let_def case_prod_beta)
    (rule moves_trans [OF moves_mutate moves_same_area [OF settle_plan_area]], rule revise_task_evolves)

subsection \<open>The operations in any order\<close>

text \<open>
  One step of the manager on a stored task: any operation that changes the task it is given, a callback of a run, or
  anything that leaves the stored tasks alone, such as the clock, the health store, or an observer.
\<close>

inductive manager_step :: "manager_options \<Rightarrow> manager \<Rightarrow> manager \<Rightarrow> bool" for opts where
  step_transition: "manager_step opts m (snd (transition i s summary m))"
| step_fail: "manager_step opts m (fail_run i e m)"
| step_complete: "manager_step opts m (onComplete i outcome m)"
| step_step: "manager_step opts m (onStep i st m)"
| step_usage: "manager_step opts m (onUsage i usage m)"
| step_evidence: "manager_step opts m (onEvidence i evidence m)"
| step_taint: "manager_step opts m (snd (persistTaint i sources m))"
| step_salt: "manager_step opts m (snd (recoverSalt opts i m))"
| step_proposal: "manager_step opts m (update_only i (store_proposal proposal now) m)"
| step_begin: "manager_step opts m (snd (begin_execution i m))"
| step_finish: "manager_step opts m (finish_execution i m)"
| step_pause: "manager_step opts m (snd (pause i m))"
| step_resume: "manager_step opts m (snd (resume opts i m))"
| step_cancel: "manager_step opts m (snd (cancel i m))"
| step_approve: "manager_step opts m (snd (approvePlanFor opts i m))"
| step_revise: "manager_step opts m (snd (revisePlan opts i note m))"
| step_site: "manager_step opts m (addSiteToPlan U i site m)"
| step_abortAll: "manager_step opts m (abortAll m)"
| step_other: "mg_area m' = mg_area m \<Longrightarrow> manager_step opts m m'"

lemma step_moves: "manager_step opts m m' \<Longrightarrow> moves m m'"
  by (induction rule: manager_step.induct)
    (simp_all add: moves_transition moves_fail_run moves_onComplete moves_records moves_persistTaint
      moves_recoverSalt moves_update_only store_proposal_evolves addSiteToPlan_def add_site_evolves moves_begin moves_finish moves_pause moves_resume
      moves_cancel moves_approve moves_revise moves_same_area abortAll_def)

text \<open>
  What else can happen while a task \<open>i\<close> is watched: \<open>create\<close> stores another task, which evicts finished tasks past
  the cap.
\<close>

inductive manager_life :: "manager_options \<Rightarrow> string \<Rightarrow> manager \<Rightarrow> manager \<Rightarrow> bool" for opts i where
  life_step: "manager_step opts m m' \<Longrightarrow> manager_life opts i m m'"
| life_save: "tk_id t \<noteq> i \<Longrightarrow> manager_life opts i m (m\<lparr>mg_area := saveTask (mo_maxTasks opts) t (mg_area m)\<rparr>)"

abbreviation manager_history where
  "manager_history opts i \<equiv> (manager_life opts i)\<^sup>*\<^sup>*"

lemma run_then: "manager_history opts i m m' \<Longrightarrow> manager_step opts m' m'' \<Longrightarrow> manager_history opts i m m''"
  by (erule rtranclp.rtrancl_into_rtrancl) (rule life_step)

text \<open>What awaiting an effect of the options lets happen: any such history, operations of others included.\<close>

definition effects_live :: "manager_options \<Rightarrow> string \<Rightarrow> bool" where
  "effects_live opts i \<longleftrightarrow>
     (\<forall>m. manager_history opts i m (snd (mo_resolveProvider opts m))) \<and>
     (\<forall>m. manager_history opts i m (snd (mo_resolveWorkspaceId opts m))) \<and>
     (\<forall>m. manager_history opts i m (snd (mo_getPermissionMode opts m))) \<and>
     (\<forall>m. manager_history opts i m (snd (mo_getActiveTabId opts m))) \<and>
     (\<forall>t c m. manager_history opts i m (snd (mo_propose opts t c m))) \<and>
     (\<forall>input c m. manager_history opts i m (snd (mo_run opts input c m)))"

lemma effects_liveD:
  assumes "effects_live opts i"
  shows "mo_resolveProvider opts m = (p, m1) \<Longrightarrow> manager_history opts i m m1"
    and "mo_resolveWorkspaceId opts m = (q, m1) \<Longrightarrow> manager_history opts i m m1"
    and "mo_getPermissionMode opts m = (r, m1) \<Longrightarrow> manager_history opts i m m1"
    and "mo_getActiveTabId opts m = (u, m1) \<Longrightarrow> manager_history opts i m m1"
    and "mo_propose opts t c m = (v, m1) \<Longrightarrow> manager_history opts i m m1"
    and "mo_run opts input c m = (w, m1) \<Longrightarrow> manager_history opts i m m1"
  using assms unfolding effects_live_def by (metis snd_conv)+

lemma run_proposePlan:
  assumes "effects_live opts i"
  shows "manager_history opts i m (proposePlan opts task c m)"
proof -
  obtain p m1 where p: "mo_propose opts task c m = (p, m1)" by fastforce
  note r = effects_liveD(5) [OF assms p]
  have stored: "manager_history opts i m
      (snd (transition j s summary (update_only k (store_proposal proposal now) m1)))" for j s summary k proposal now
    by (rule run_then [OF run_then [OF r step_proposal] step_transition])
  show ?thesis
    using r stored run_then [OF r step_fail] by (simp add: proposePlan_def p Let_def split: option.split)
qed

lemma run_drive:
  assumes "effects_live opts i"
  shows "manager_history opts i m (drive opts task c m)"
proof -
  obtain p m1 where p: "mo_resolveProvider opts m = (p, m1)" by fastforce
  note r1 = effects_liveD(1) [OF assms p]
  obtain ok m2 where t: "transition (tk_id task) PLANNING None m1 = (ok, m2)" by fastforce
  then have r2: "manager_history opts i m m2"
    using run_then [OF r1 step_transition [of _ _ "tk_id task" PLANNING None]] by simp
  obtain tab m3 where a: "mo_getActiveTabId opts m2 = (tab, m3)" by fastforce
  have r3: "manager_history opts i m m3" using r2 effects_liveD(4) [OF assms a] by (rule rtranclp_trans)
  have planned: "manager_history opts i m (proposePlan opts task c m2)"
    using r2 run_proposePlan [OF assms] by (rule rtranclp_trans)
  have failed: "manager_history opts i m (fail_run j e m')" if "manager_history opts i m m'" for j e m'
    using that step_fail by (rule run_then)
  have result: "manager_history opts i m (case mo_run opts input c m3 of
      (Inl thrown, m) \<Rightarrow> fail_run (tk_id task) (carriedError thrown) m | (Inr output, m) \<Rightarrow> m)" for input
  proof -
    obtain r m4 where r: "mo_run opts input c m3 = (r, m4)" by fastforce
    have "manager_history opts i m m4" using r3 effects_liveD(6) [OF assms r] by (rule rtranclp_trans)
    then show ?thesis using r failed by (simp split: sum.split)
  qed
  show ?thesis
    using r1 r2 planned failed [OF r1] failed [OF r3] result by (simp add: drive_def p t a split: sum.split bool.split)
qed

lemma run_execute:
  assumes "effects_live opts i"
  shows "manager_history opts i m (execute opts j m)"
proof -
  obtain b m1 where b: "begin_execution j m = (b, m1)" by fastforce
  then have "manager_step opts m m1" using step_begin [of opts m j] by simp
  then have r: "manager_history opts i m m1" by (intro r_into_rtranclp life_step)
  have "manager_history opts i m (finish_execution j (drive opts t c m1))" for t c
    by (rule run_then [OF rtranclp_trans [OF r run_drive [OF assms]] step_finish])
  then show ?thesis using r by (simp add: execute_def b split: option.split)
qed

lemma run_create:
  assumes "effects_live opts i" and "\<And>m. mo_newTaskId opts m \<noteq> i"
  shows "manager_history opts i m (snd (create opts objective sessionId options m))"
proof -
  let ?T = "\<lambda>provider ws mode m. new_task opts (js_trim objective) sessionId options provider ws mode m"
  let ?S = "\<lambda>provider ws mode m. m\<lparr>mg_area := saveTask (mo_maxTasks opts) (?T provider ws mode m) (mg_area m)\<rparr>"
  obtain p m1 where p: "mo_resolveProvider opts m = (p, m1)" by fastforce
  obtain q m2 where q: "mo_resolveWorkspaceId opts m1 = (q, m2)" by fastforce
  obtain r m3 where r: "mo_getPermissionMode opts m2 = (r, m3)" by fastforce
  note h1 = effects_liveD(1) [OF assms(1) p]
  have h2: "manager_history opts i m m2" using h1 effects_liveD(2) [OF assms(1) q] by (rule rtranclp_trans)
  have h3: "manager_history opts i m m3" using h2 effects_liveD(3) [OF assms(1) r] by (rule rtranclp_trans)
  have "tk_id (?T provider ws mode m3) \<noteq> i" for provider ws mode
    using assms(2) [of m3] by (simp add: new_task_def createTask_def)
  then have saved: "manager_history opts i m (?S provider ws mode m3)" for provider ws mode
    by (intro rtranclp.rtrancl_into_rtrancl [OF h3] life_save)
  have "manager_history opts i m (launch j (observe e (?S provider ws mode m3)))" for j e provider ws mode
    by (rule run_then [OF saved [of provider ws mode]], rule step_other) (simp add: launch_def observe_def)
  then show ?thesis
    using h1 h2 h3
    by (auto simp: create_def Let_def p andThen_def q r split: option.split sum.split)
qed

lemma run_retry:
  assumes "effects_live opts i" and "\<And>m. mo_newTaskId opts m \<noteq> i"
  shows "manager_history opts i m (snd (retry opts j m))"
proof -
  have "manager_history opts i m (snd (cancel j m))" by (intro r_into_rtranclp life_step step_cancel)
  then have "manager_history opts i m (snd (create opts objective sessionId options (snd (cancel j m))))" for objective sessionId options
    using run_create [OF assms] by (rule rtranclp_trans)
  then show ?thesis using run_create [OF assms] by (auto simp: retry_def Let_def split: option.split)
qed

text \<open>The operations of the manager as its callers see them, on any task, creation and execution included.\<close>

inductive manager_operation :: "manager_options \<Rightarrow> manager \<Rightarrow> manager \<Rightarrow> bool" for opts where
  op_step: "manager_step opts m m' \<Longrightarrow> manager_operation opts m m'"
| op_execute: "manager_operation opts m (execute opts j m)"
| op_create: "manager_operation opts m (snd (create opts objective sessionId options m))"
| op_retry: "manager_operation opts m (snd (retry opts j m))"

lemma operations_history:
  assumes "(manager_operation opts)\<^sup>*\<^sup>* m m'" and "effects_live opts i" and "\<And>m. mo_newTaskId opts m \<noteq> i"
  shows "manager_history opts i m m'"
  using assms(1)
proof (induction rule: rtranclp_induct)
  case (step m1 m2)
  from step.hyps(2) have "manager_history opts i m1 m2"
    by cases (auto intro: life_step run_execute [OF assms(2)] run_create [OF assms(2,3)] run_retry [OF assms(2,3)])
  with step.IH show ?case by (rule rtranclp_trans)
qed simp

text \<open>A stored task stays and evolves, until it has finished; only then can it be evicted.\<close>

definition ended_within :: "manager_options \<Rightarrow> string \<Rightarrow> agent_task \<Rightarrow> manager \<Rightarrow> manager \<Rightarrow> bool" where
  "ended_within opts i t m m' \<longleftrightarrow>
     (\<exists>m1 t1. manager_history opts i m m1 \<and> manager_history opts i m1 m' \<and> task_of m1 i = Some t1 \<and> evolves t t1 \<and>
       isTerminal (tk_state t1))"

lemma save_other:
  assumes "0 < n" and "tk_id t \<noteq> i" and "task_of m i = Some x"
  shows "task_of (m\<lparr>mg_area := saveTask n t (mg_area m)\<rparr>) i = Some x \<or>
    task_of (m\<lparr>mg_area := saveTask n t (mg_area m)\<rparr>) i = None \<and> isTerminal (tk_state x)"
proof (cases "isTerminal (tk_state x)")
  case True
  then show ?thesis using saveTask_stored(3) [OF assms(1), of i t "mg_area m"] assms(2,3) by (auto simp: task_of_def)
next
  case False
  obtain r where r: "stored (mg_area m) i = Some r" "x = normaliseSecurityState r" using assms(3) by (auto simp: task_of_def)
  then have "live (mg_area m) i" using False by (simp add: live_def)
  then show ?thesis using saveTask_stored(2) [OF assms(1), of i t "mg_area m"] assms(2,3) by (simp add: task_of_def)
qed

lemma history_keeps:
  assumes "manager_history opts i m m'" and n: "0 < mo_maxTasks opts" and t: "task_of m i = Some t"
  shows "(\<exists>t'. task_of m' i = Some t' \<and> evolves t t') \<or> task_of m' i = None \<and> ended_within opts i t m m'"
  using assms(1)
proof (induction rule: rtranclp_induct)
  case base
  then show ?case using t evolves_refl by blast
next
  case (step m1 m2)
  have after: "ended_within opts i t m m2" if "ended_within opts i t m m1"
    using that step.hyps(2) unfolding ended_within_def by (meson rtranclp.rtrancl_into_rtrancl)
  from step.hyps(2) show ?case
  proof cases
    case life_step
    then have "rel_option evolves (task_of m1 i) (task_of m2 i)" using step_moves by (auto simp: moves_def)
    then show ?thesis using step.IH after evolves_trans by (cases "task_of m2 i") (auto simp: option_rel_Some1 option_rel_Some2)
  next
    case (life_save x)
    from step.IH show ?thesis
    proof (elim disjE exE conjE)
      fix t'
      assume t': "task_of m1 i = Some t'" "evolves t t'"
      have "ended_within opts i t m m2" if "isTerminal (tk_state t')"
        using t' that step.hyps unfolding ended_within_def by blast
      then show ?thesis using save_other [OF n life_save(2) t'(1)] t'(2) unfolding life_save(1) by blast
    next
      assume "task_of m1 i = None" "ended_within opts i t m m1"
      then show ?thesis
        using saveTask_stored(3) [OF n, of i x "mg_area m1"] life_save after by (auto simp: task_of_def)
    qed
  qed
qed

subsection \<open>A run under the manager\<close>

lemma state_of_observe [simp]:
  "state_of_task i (observe e m) = state_of_task i m"
  "state_of_task i (m\<lparr>mg_running := r\<rparr>) = state_of_task i m"
  "state_of_task i (launch j m) = state_of_task i m"
  "state_of_task i (finish_execution j m) = state_of_task i m"
  "state_of_task i (abort_running j reason m) = state_of_task i m"
  by (simp_all add: state_of_task_def)

lemma state_of_update:
  "state_of_task i (m\<lparr>mg_area := snd (updateTask j f (mg_area m))\<rparr>) =
     (if i = j then map_option (\<lambda>t. tk_state (f t)) (task_of m i) else state_of_task i m)"
  by (cases "task_of m i") (auto simp: state_of_task_def update_task_of reload_core)

lemma transition_state:
  assumes "state_of_task i m = Some s"
  shows "state_of_task i (snd (transition i s' summary m)) =
      Some (if s = s' \<or> canTransition s s' then s' else s)"
    and "fst (transition i s' summary m) \<longleftrightarrow> s = s' \<or> canTransition s s'"
proof -
  obtain t where t: "task_of m i = Some t" "tk_state t = s"
    using assms by (auto simp: state_of_task_def)
  then show "state_of_task i (snd (transition i s' summary m)) =
      Some (if s = s' \<or> canTransition s s' then s' else s)"
    by (auto simp: transition_def mutate_with_eq state_of_update transition_task_def moved_def)
  show "fst (transition i s' summary m) \<longleftrightarrow> s = s' \<or> canTransition s s'"
    using t by (auto simp: transition_def mutate_with_eq transition_task_def)
qed

lemma onComplete_state:
  assumes "state_of_task i m = Some s"
  shows "state_of_task i (onComplete i outcome m) =
    Some (if isTerminal s \<or> s = PAUSED \<or> \<not> canTransition s (oc_state outcome) then s else oc_state outcome)"
proof -
  obtain t where "task_of m i = Some t" "tk_state t = s"
    using assms by (auto simp: state_of_task_def)
  then show ?thesis
    by (auto simp: onComplete_def mutate_with_eq state_of_update complete_task_def)
qed

lemma fail_run_state:
  assumes "task_of m i = Some t" and "\<not> isTerminal (tk_state t)"
  shows "state_of_task i (fail_run i error m) = Some FAILED"
  using assms by (simp add: fail_run_def mutate_with_eq state_of_update fail_task_def)

interpretation managed: task_lifecycle "state_of_task i" "\<lambda>s summary m. snd (transition i s summary m)"
  "onComplete i" for i
  by unfold_locales (simp_all add: transition_state onComplete_state)

lemma update_only_state: "(\<And>t. tk_state (f t) = tk_state t) \<Longrightarrow> state_of_task i (update_only j f m) = state_of_task i m"
  unfolding update_only_def state_of_update by (auto simp: state_of_task_def option.map_comp comp_def)

lemma records_state:
  "state_of_task i (onStep j st m) = state_of_task i m"
  "state_of_task i (onUsage j usage m) = state_of_task i m"
  "state_of_task i (onEvidence j evidence m) = state_of_task i m"
  "state_of_task i (snd (persistTaint j sources m)) = state_of_task i m"
  "state_of_task i (snd (recoverSalt opts j m)) = state_of_task i m"
proof -
  show "state_of_task i (snd (persistTaint j sources m)) = state_of_task i m"
    using update_only_state [of "\<lambda>t. t\<lparr>tk_taintState := addTaint (tk_taintState t) sources\<rparr>" i j m]
    by (simp add: persistTaint_def appendTaint_def update_only_def case_prod_beta)
  show "state_of_task i (snd (recoverSalt opts j m)) = state_of_task i m"
    using update_only_state [of "ensure_salt (mo_generateSalt opts m)" i j m]
    by (simp add: recoverSalt_def ensureSalt_def update_only_def ensure_salt_def case_prod_beta)
qed (simp_all add: onStep_def onUsage_def onEvidence_def update_only_state)

text \<open>The effects of the runtime that are not callbacks of the manager, and leave the task's state alone.\<close>

definition undisturbed :: "string \<Rightarrow> manager runtime \<Rightarrow> bool" where
  "undisturbed i rt \<longleftrightarrow>
     (\<forall>delay m. state_of_task i (snd (rt_sleep rt delay m)) = state_of_task i m) \<and>
     (\<forall>resolve tab. rt_resolveTabUrl rt = Some resolve \<longrightarrow> keeps (state_of_task i) (resolve tab)) \<and>
     (\<forall>request m. state_of_task i (snd (rt_generate rt request m)) = state_of_task i m) \<and>
     (\<forall>iv. keeps (state_of_task i) (rt_dispatch rt iv))"

lemma managed_drives: "undisturbed i rt \<Longrightarrow> managed.drives i (with_callbacks opts c rt) i"
  by (simp add: managed.drives_def undisturbed_def with_callbacks_def keeps_def records_state yields_def
      case_prod_beta)

subsection \<open>Properties\<close>

definition sample_manager :: "agent_task \<Rightarrow> manager" where
  "sample_manager t =
     \<lparr>mg_area = saveTask 1 t [], mg_running = [], mg_signals = \<lambda>_. Signal_Live, mg_controllers = 0,
      mg_health = empty_health, mg_lifecycle = [], mg_launched = [], mg_now = 0\<rparr>"

definition sample_provider :: resolved_provider where
  "sample_provider =
     \<lparr>rv_providerId = ''p'', rv_connectionId = None, rv_modelId = ''m'', rv_toolCalling = True, rv_vision = False\<rparr>"

definition sample_options :: manager_options where
  "sample_options =
     \<lparr>mo_maxTasks = 10, mo_health = True, mo_healthReads = \<lambda>_. True,
      mo_resolveProvider = \<lambda>m. (Inr sample_provider, m), mo_resolveWorkspaceId = yields None,
      mo_getPermissionMode = yields manual_mode, mo_getActiveTabId = \<lambda>m. (Inr None, m),
      mo_newTaskId = \<lambda>_. ''t2'', mo_newPlanId = \<lambda>_. ''plan'', mo_generateSalt = \<lambda>_. [],
      mo_propose = \<lambda>_ _ m. (None, m), mo_run = \<lambda>_ _ m. (Inl None, m)\<rparr>"

lemma sample_manager_task:
  assumes "security_ok t"
  shows "task_of (sample_manager t) (tk_id t) = Some t"
  using saveTask_stored(1) [of 1 t "[]"] normalise_store [OF assms] by (simp add: task_of_def sample_manager_def)

lemma sample_task_ok: "security_ok (sample_task i s)"
  by (simp add: security_ok_def taint_ok_def)

text \<open>
  C1. Whatever operations, callbacks and executions come in whatever order, with whatever else happens while they
  wait, a stored task only evolves: its id, objective, provider, model, connection, workspace, permission mode,
  allowed tools and permission floor are those it was created with, its state has followed the transition table, an
  approved plan is at most amended by further sites, its taint has not shrunk unless it became unknown, and once it
  has finished its state stays. It can be lost only by the eviction that \<open>create\<close> and \<open>retry\<close> run, and only after it
  has finished. The ids drawn for new tasks are taken to differ from its own.
\<close>

theorem task_only_evolves:
  assumes "(manager_operation opts)\<^sup>*\<^sup>* m m'" and "effects_live opts i" and "\<forall>m. mo_newTaskId opts m \<noteq> i"
    and "0 < mo_maxTasks opts" and "task_of m i = Some t"
  shows "(\<exists>t'. task_of m' i = Some t' \<and> evolves t t' \<and> (isTerminal (tk_state t) \<longrightarrow> tk_state t' = tk_state t)) \<or>
    (task_of m' i = None \<and> ended_within opts i t m m')"
proof -
  have fixed: "evolves t t' \<Longrightarrow> isTerminal (tk_state t) \<Longrightarrow> tk_state t' = tk_state t" for t'
    using task_machine.terminal_run_fixed [of "tk_state t" "tk_state t'"] by (auto simp: evolves_def)
  have "manager_history opts i m m'" using operations_history [OF assms(1,2)] assms(3) by blast
  from history_keeps [OF this assms(4,5)] fixed show ?thesis by blast
qed

lemma sample_effects: "effects_live sample_options i"
  by (simp add: effects_live_def sample_options_def yields_def)

theorem task_only_evolves_witness:
  "map_option tk_state (task_of (snd (cancel ''t1'' (snd (create sample_options ''read'' ''s1'' no_options
     (sample_manager (sample_task ''t1'' COMPLETED)))))) ''t1'') \<in> {Some COMPLETED, None}"
proof -
  let ?m = "sample_manager (sample_task ''t1'' COMPLETED)"
  have "(manager_operation sample_options)\<^sup>*\<^sup>* ?m (snd (cancel ''t1'' (snd (create sample_options ''read'' ''s1'' no_options ?m))))"
    by (rule rtranclp.rtrancl_into_rtrancl [OF r_into_rtranclp], rule op_create, rule op_step, rule step_cancel)
  note evolved = task_only_evolves [OF this sample_effects [of "''t1''"], of "sample_task ''t1'' COMPLETED"]
  have "task_of ?m ''t1'' = Some (sample_task ''t1'' COMPLETED)"
    using sample_manager_task [OF sample_task_ok, of "''t1''" COMPLETED] by simp
  then show ?thesis using evolved by (auto simp: sample_options_def isTerminal_def TERMINAL_STATES_def)
qed

text \<open>
  A run that nothing else disturbs, neither a person nor another run of the task, leaves the stored task in the state
  of the outcome it returns, unless it was stopped to pause it.
\<close>

lemma managed_run_settles:
  assumes "state_of_task (tk_id (ri_task input)) m = Some PLANNING"
    and "undisturbed (tk_id (ri_task input)) rt"
    and "run (with_callbacks opts c rt) input m = (Some out, m')"
  shows "state_of_task (tk_id (ri_task input)) m' = Some (state_of (tr_outcome (ru_result out))) \<or>
    abortedForPause (mg_signals m' c)"
proof -
  have "leaves (run (with_callbacks opts c rt) input) m
      (managed.settled (tk_id (ri_task input)) (with_callbacks opts c rt))"
    using managed_drives [OF assms(2)] assms(1) by (rule managed.leaves_run)
  then show ?thesis
    using assms(3) by (simp add: leaves_def managed.settled_def with_callbacks_def)
qed

lemma unhealthy_blocked:
  assumes "mo_health opts" and "floor_ok (ht_floor s)" and "d \<in> set GATING_DOMAINS" and "state \<noteq> HEALTHY"
    and "mg_health m = report_all reports (report d state reason at0 w s)"
  shows "\<exists>e. requireHealthyPersistence opts act m = Some e"
proof (cases "snapshot (mg_now m) (mo_healthReads opts m) (mg_health m)")
  case (Some snap)
  have "severityOf state \<le> severityOf (hs_gating snap)"
    using report_all_blocked [OF assms(2,3)] Some assms(5) by simp
  then have "hs_gating snap \<noteq> HEALTHY" using assms(4) by (cases state) auto
  then show ?thesis using snapshot_blocked [OF Some] Some assms(1) by (simp add: requireHealthyPersistence_def)
qed (use assms(1) in \<open>simp add: requireHealthyPersistence_def\<close>)

lemma resume_blocked: "requireHealthyPersistence opts ''resuming a task'' m = Some e \<Longrightarrow> resume opts i m = (Some (Inl e), m)"
  by (simp add: resume_def)

lemma settle_plan_blocked:
  assumes "\<exists>e. requireHealthyPersistence opts ''resuming a task'' m = Some e"
  shows "snd (settle_plan opts i failure updated m) = m"
  using assms resume_blocked by (auto simp: settle_plan_def split: option.split)

lemma updated_manager:
  "mg_health (snd (snd (mutate_with i f d m))) = mg_health m"
  "mg_launched (snd (snd (mutate_with i f d m))) = mg_launched m"
  "mg_running (snd (snd (mutate_with i f d m))) = mg_running m"
  by (simp_all add: mutate_with_area)

text \<open>
  C2. While persistence is unhealthy nothing starts. Once a domain that gates execution is reported worse
  than \<open>HEALTHY\<close>, and whatever is reported afterwards, \<open>create\<close>, \<open>resume\<close> and \<open>retry\<close> answer with an error and
  change nothing, and approving or revising a plan launches nothing.
\<close>

theorem unhealthy_nothing_starts:
  assumes "mo_health opts" and "floor_ok (ht_floor s)" and "d \<in> set GATING_DOMAINS" and "state \<noteq> HEALTHY"
    and "mg_health m = report_all reports (report d state reason at0 w s)"
  shows "(\<exists>e. create opts objective sessionId options m = (Some (Inl e), m)) \<and>
    (\<exists>e. resume opts i m = (Some (Inl e), m)) \<and> (\<exists>e. retry opts i m = (Some (Inl e), m)) \<and>
    mg_launched (snd (approvePlanFor opts i m)) = mg_launched m \<and>
    mg_launched (snd (revisePlan opts i note m)) = mg_launched m"
proof (intro conjI)
  have blocked: "\<exists>e. requireHealthyPersistence opts act m' = Some e" if "mg_health m' = mg_health m" for act m'
    using unhealthy_blocked [OF assms(1-4), of m' reports reason at0 w act] that assms(5) by simp
  show "\<exists>e. create opts objective sessionId options m = (Some (Inl e), m)"
    using blocked [of m "''starting a task''"] by (auto simp: create_def)
  show "\<exists>e. resume opts i m = (Some (Inl e), m)"
    using blocked [of m "''resuming a task''"] by (auto simp: resume_def)
  show "\<exists>e. retry opts i m = (Some (Inl e), m)"
    using blocked [of m "''retrying a task''"] by (auto simp: retry_def)
  have settled: "mg_launched (snd (settle_plan opts i failure updated (snd (snd (mutate_with i f d' m))))) = mg_launched m"
    for failure updated f d'
    using settle_plan_blocked [OF blocked, of "snd (snd (mutate_with i f d' m))"] by (simp add: updated_manager)
  show "mg_launched (snd (approvePlanFor opts i m)) = mg_launched m"
    by (simp add: approvePlanFor_def case_prod_beta settled)
  show "mg_launched (snd (revisePlan opts i note m)) = mg_launched m"
    by (simp add: revisePlan_def case_prod_beta Let_def settled)
qed

theorem unhealthy_nothing_starts_witness:
  "\<exists>e. fst (resume sample_options ''t1''
     ((sample_manager (sample_task ''t1'' PAUSED))
        \<lparr>mg_health := report task_security DEGRADED ''write failed'' 0 True empty_health\<rparr>)) = Some (Inl e)"
proof -
  let ?h = "report task_security DEGRADED ''write failed'' 0 True empty_health"
  let ?m = "(sample_manager (sample_task ''t1'' PAUSED))\<lparr>mg_health := ?h\<rparr>"
  have "mo_health sample_options" by (simp add: sample_options_def)
  moreover have "floor_ok (ht_floor empty_health)" by (simp add: empty_health_def floor_ok_def)
  moreover have "task_security \<in> set GATING_DOMAINS" by (simp add: GATING_DOMAINS_def)
  moreover have "mg_health ?m = report_all [] ?h" by (simp add: report_all_def)
  ultimately have "\<exists>e. resume sample_options ''t1'' ?m = (Some (Inl e), ?m)"
    using unhealthy_nothing_starts [of sample_options empty_health task_security DEGRADED ?m "[]"] by blast
  then show ?thesis by auto
qed

text \<open>
  C3. What reaches the runtime. If an execution depends on the runtime at all, then the provider that was
  resolved is the one the task started with, down to the connection it recorded; the task could move to
  \<open>PLANNING\<close>; and a Classic task has an approved plan. Where the provider was switched, a live task fails
  and nothing is planned or run.
\<close>

theorem runtime_is_gated:
  assumes "mo_resolveProvider opts m = (Inr provider, m1)"
  shows "(drive (opts\<lparr>mo_run := r\<rparr>) task c m \<noteq> drive opts task c m \<longrightarrow>
      \<not> switched task provider \<and> fst (transition (tk_id task) PLANNING None m1) \<and>
      (tk_authorizationModel task = Some classic \<longrightarrow> tk_planApproval task \<noteq> JUndef)) \<and>
    (switched task provider \<longrightarrow> state_of_task (tk_id task) m1 = Some s \<longrightarrow> \<not> isTerminal s \<longrightarrow>
      drive opts task c m = drive (opts\<lparr>mo_run := r, mo_propose := q\<rparr>) task c m \<and>
      state_of_task (tk_id task) (drive opts task c m) = Some FAILED)"
proof (intro conjI impI)
  obtain ok m2 where t: "transition (tk_id task) PLANNING None m1 = (ok, m2)" by fastforce
  assume differs: "drive (opts\<lparr>mo_run := r\<rparr>) task c m \<noteq> drive opts task c m"
  show "\<not> switched task provider" using differs assms by (auto simp: drive_def)
  then show "fst (transition (tk_id task) PLANNING None m1)"
    using differs assms t by (cases ok) (simp_all add: drive_def)
  then show "tk_planApproval task \<noteq> JUndef" if "tk_authorizationModel task = Some classic"
    using differs assms t that by (cases ok) (auto simp: drive_def proposePlan_def)
next
  assume h: "switched task provider" "state_of_task (tk_id task) m1 = Some s" "\<not> isTerminal s"
  then show "drive opts task c m = drive (opts\<lparr>mo_run := r, mo_propose := q\<rparr>) task c m"
    using assms by (simp add: drive_def)
  show "state_of_task (tk_id task) (drive opts task c m) = Some FAILED"
    using h assms fail_run_state by (auto simp: drive_def state_of_task_def [of _ m1])
qed

theorem runtime_is_gated_witness:
  "state_of_task ''t1'' (drive sample_options ((sample_task ''t1'' QUEUED)\<lparr>tk_modelId := ''other''\<rparr>) 0
     (sample_manager (sample_task ''t1'' QUEUED))) = Some FAILED"
proof -
  let ?m = "sample_manager (sample_task ''t1'' QUEUED)"
  have "mo_resolveProvider sample_options ?m = (Inr sample_provider, ?m)" by (simp add: sample_options_def)
  note gated = runtime_is_gated [OF this, of _ "(sample_task ''t1'' QUEUED)\<lparr>tk_modelId := ''other''\<rparr>" 0 QUEUED]
  have "state_of_task ''t1'' ?m = Some QUEUED"
    using sample_manager_task [OF sample_task_ok, of "''t1''" QUEUED] by (simp add: state_of_task_def)
  then show ?thesis
    using gated by (simp add: switched_def sample_provider_def isTerminal_def TERMINAL_STATES_def)
qed

text \<open>
  C4. Pausing stops a run without ending its task. The controller of a running task is aborted with the
  reason the runtime recognises, the task is no longer running, a task that may be paused is stored as
  \<open>PAUSED\<close>, and the completion the stopped run may still report changes nothing at all: neither any stored task,
  in any field, nor what is running, aborted, launched or announced.
\<close>

theorem pause_holds:
  assumes "map_of (mg_running m) i = Some c" and "mg_signals m c = Signal_Live"
    and "state_of_task i m = Some s" and "canTransition s PAUSED" and "distinct (map fst (mg_running m))"
  shows "abortedForPause (mg_signals (snd (pause i m)) c) \<and> \<not> isRunning i (snd (pause i m)) \<and>
    state_of_task i (snd (pause i m)) = Some PAUSED \<and>
    task_of (onComplete i outcome (snd (pause i m))) = task_of (snd (pause i m)) \<and>
    mg_running (onComplete i outcome (snd (pause i m))) = mg_running (snd (pause i m)) \<and>
    mg_signals (onComplete i outcome (snd (pause i m))) = mg_signals (snd (pause i m)) \<and>
    mg_launched (onComplete i outcome (snd (pause i m))) = mg_launched (snd (pause i m)) \<and>
    mg_lifecycle (onComplete i outcome (snd (pause i m))) = mg_lifecycle (snd (pause i m))"
proof -
  let ?m = "finish_execution i (abort_running i (Some PAUSE_ABORT_REASON) m)"
  have snd: "snd (pause i m) = snd (transition i PAUSED (Some ''Paused.'') ?m)"
    by (simp add: pause_def Let_def case_prod_beta)
  have kept: "mg_signals (snd (transition i s' summary m')) = mg_signals m'"
      "mg_running (snd (transition i s' summary m')) = mg_running m'" for s' summary m'
    by (simp_all add: transition_def mutate_with_eq observe_def)
  have paused: "state_of_task i (snd (pause i m)) = Some PAUSED"
    using transition_state(1) [of i ?m s PAUSED] assms(3,4) unfolding snd by simp
  then obtain t where t: "task_of (snd (pause i m)) i = Some t" "tk_state t = PAUSED"
    by (auto simp: state_of_task_def)
  have "abortedForPause (mg_signals ?m c)" "map_of (mg_running ?m) i = None"
    using assms(1,2,5) by (simp_all add: abort_running_def finish_execution_def abortedForPause_def delete_conv')
  moreover have "mg_lifecycle (onComplete i outcome (snd (pause i m))) = mg_lifecycle (snd (pause i m))"
      "mg_running (onComplete i outcome (snd (pause i m))) = mg_running (snd (pause i m))"
      "mg_signals (onComplete i outcome (snd (pause i m))) = mg_signals (snd (pause i m))"
      "mg_launched (onComplete i outcome (snd (pause i m))) = mg_launched (snd (pause i m))"
    using t by (simp_all add: onComplete_def mutate_with_eq complete_task_def)
  moreover have "task_of (onComplete i outcome (snd (pause i m))) = task_of (snd (pause i m))"
  proof
    fix j
    have "normaliseSecurityState (store_form t) = t"
      using t(1) normalise_ok normalise_store by (auto simp: task_of_def)
    then show "task_of (onComplete i outcome (snd (pause i m))) j = task_of (snd (pause i m)) j"
      using t by (simp add: onComplete_def mutate_with_eq update_task_of complete_task_def)
  qed
  ultimately show ?thesis using paused by (simp add: snd kept isRunning_def)
qed

theorem pause_holds_witness:
  "state_of_task ''t1'' (snd (pause ''t1'' (launch ''t1'' (sample_manager (sample_task ''t1'' RUNNING))))) = Some PAUSED"
proof -
  let ?m = "launch ''t1'' (sample_manager (sample_task ''t1'' RUNNING))"
  have "state_of_task ''t1'' ?m = Some RUNNING"
    using sample_manager_task [OF sample_task_ok, of "''t1''" RUNNING] by (simp add: state_of_task_def)
  then show ?thesis
    using pause_holds [of ?m "''t1''" 0 RUNNING]
    by (simp add: launch_def sample_manager_def canTransition_def)
qed

text \<open>
  C7. A paused run that ends late disarms the run resumed after it. Pausing and resuming a running task
  gives it a new controller; when the first execution then reaches its \<open>finally\<close>, which deletes by task
  and not by controller, the new run is no longer known: neither cancelling nor pausing nor stopping
  everything aborts it, and a second resume launches the task twice.
\<close>

theorem late_finish_disarms_resume:
  assumes "map_of (mg_running m) i = Some c" and "distinct (map fst (mg_running m))"
    and "state_of_task i m = Some s" and "canTransition s PAUSED" and "mo_health opts = False"
    and "m1 = snd (resume opts i (snd (pause i m)))" and "m2 = finish_execution i m1"
  shows "map_of (mg_running m1) i = Some (mg_controllers m) \<and> \<not> isRunning i m2 \<and>
    mg_signals (snd (cancel i m2)) (mg_controllers m) = Signal_Live \<and>
    mg_signals (snd (pause i m2)) (mg_controllers m) = Signal_Live \<and>
    mg_launched (snd (resume opts i m2)) = mg_launched m @ [i, i]"
proof -
  have kept: "mg_signals (snd (transition i s' summary m')) = mg_signals m'"
      "mg_running (snd (transition i s' summary m')) = mg_running m'"
      "mg_controllers (snd (transition i s' summary m')) = mg_controllers m'"
      "mg_launched (snd (transition i s' summary m')) = mg_launched m'" for s' summary m'
    by (simp_all add: transition_def mutate_with_eq observe_def)
  let ?p = "snd (pause i m)"
  have p [simp]: "mg_controllers ?p = mg_controllers m" "mg_launched ?p = mg_launched m"
      "mg_running ?p = AList.delete i (mg_running m)"
    by (simp_all add: pause_def Let_def case_prod_beta kept finish_execution_def abort_running_def split: option.split)
  have "state_of_task i ?p = Some PAUSED"
    using transition_state(1) [of i "finish_execution i (abort_running i (Some PAUSE_ABORT_REASON) m)" s PAUSED] assms(3,4)
    by (simp add: pause_def Let_def case_prod_beta)
  then obtain t where t: "task_of ?p i = Some t" "tk_state t = PAUSED" by (auto simp: state_of_task_def)
  have resumed: "snd (resume opts i m') = launch i m'"
    if "task_of m' i = Some t" "map_of (mg_running m') i = None" for m'
    using that t(2) assms(5)
    by (auto simp: resume_def requireHealthyPersistence_def task_of_def getTask_stored isTerminal_def TERMINAL_STATES_def)
  have m1: "m1 = launch i ?p"
    unfolding assms(6) by (rule resumed [OF t(1)]) (use assms(2) in \<open>simp add: p delete_conv'\<close>)
  have m2: "task_of m2 i = Some t" "mg_signals m2 (mg_controllers m) = Signal_Live"
      "mg_launched m2 = mg_launched m @ [i]"
    using t(1) by (simp_all add: assms(7) m1) (simp_all add: finish_execution_def launch_def p)
  have d: "map_of (mg_running m2) i = None"
    using assms(2) by (simp add: assms(7) m1 finish_execution_def launch_def p delete_conv' distinct_delete distinct_update)
  show ?thesis
    using resumed [OF m2(1) d] d m2 
    by (simp add: m1 isRunning_def cancel_def kept finish_execution_def abort_running_def)
      (simp add: launch_def update_conv' pause_def [of i m2] Let_def case_prod_beta kept finish_execution_def
        abort_running_def)
qed

theorem late_finish_disarms_resume_witness:
  "mg_signals (snd (cancel ''t1'' (finish_execution ''t1'' (snd (resume (sample_options\<lparr>mo_health := False\<rparr>) ''t1''
     (snd (pause ''t1'' (launch ''t1'' (sample_manager (sample_task ''t1'' RUNNING)))))))))) 1 = Signal_Live"
proof -
  let ?m = "launch ''t1'' (sample_manager (sample_task ''t1'' RUNNING))"
  have "state_of_task ''t1'' ?m = Some RUNNING"
    using sample_manager_task [OF sample_task_ok, of "''t1''" RUNNING] by (simp add: state_of_task_def)
  moreover have "map_of (mg_running ?m) ''t1'' = Some 0" "distinct (map fst (mg_running ?m))" "mg_controllers ?m = 1"
    by (simp_all add: launch_def sample_manager_def)
  ultimately show ?thesis
    using late_finish_disarms_resume [of ?m "''t1''" 0 RUNNING "sample_options\<lparr>mo_health := False\<rparr>"]
    by (simp add: canTransition_def)
qed

lemma create_made:
  assumes "create opts objective sessionId options m = (Some (Inr made), m')"
  shows "\<exists>provider workspaceId mode m1. made = new_task opts (js_trim objective) sessionId options provider workspaceId mode m1"
  using assms
  by (auto simp: create_def Let_def andThen_def split: option.splits sum.splits if_splits prod.splits)

text \<open>
  Retrying keeps the objective and drops the limits. Whatever task a retry makes has the objective,
  session and authorization model of the task it repeats, no approval, and neither the allowed tools nor
  the permission floor the first task was restricted to.
\<close>

theorem retry_drops_limits:
  assumes "retry opts i m = (Some (Inr made), m')" and "task_of m i = Some previous"
  shows "tk_objective made = js_trim (tk_objective previous) \<and> tk_sessionId made = tk_sessionId previous \<and>
    tk_authorizationModel made = tk_authorizationModel previous \<and> tk_planApproval made = JUndef \<and>
    tk_state made = QUEUED \<and> tk_allowedTools made = None \<and> tk_permissionFloor made = None"
proof -
  have "fst (getTask i (mg_area m)) = Some (Some previous)"
    using assms(2) getTask_stored by (auto simp: task_of_def)
  then obtain m1 where "create opts (tk_objective previous) (tk_sessionId previous) (retry_options previous) m1 =
      (Some (Inr made), m')"
    using assms(1) by (auto simp: retry_def Let_def split: option.splits)
  from create_made [OF this] show ?thesis
    by (auto simp: new_task_def createTask_def retry_options_def no_options_def)
qed

theorem retry_drops_limits_witness:
  "\<exists>made m'. retry sample_options ''t1''
       (sample_manager ((sample_task ''t1'' FAILED)\<lparr>tk_allowedTools := Some [''browser.read_page'']\<rparr>)) =
     (Some (Inr made), m') \<and> tk_allowedTools made = None"
proof -
  let ?t = "(sample_task ''t1'' FAILED)\<lparr>tk_allowedTools := Some [''browser.read_page'']\<rparr>"
  let ?m = "sample_manager ?t"
  have ok: "security_ok ?t" using sample_task_ok [of "''t1''" FAILED] by (simp add: security_ok_def)
  have t: "task_of ?m ''t1'' = Some ?t" using sample_manager_task [OF ok] by simp
  then have g: "fst (getTask ''t1'' (mg_area ?m)) = Some (Some ?t)"
    using getTask_stored by (auto simp: task_of_def)
  have healthy: "requireHealthyPersistence sample_options act ?m = None" for act
  proof -
    have "map_option hs_blocked (snapshot 0 True empty_health) = Some False" by code_simp
    then show ?thesis by (auto simp: requireHealthyPersistence_def sample_options_def sample_manager_def)
  qed
  have objective: "tk_objective ?t = ''read''" "tk_sessionId ?t = ''s1''"
    by (simp_all add: sample_task_def createTask_def)
  have trimmed: "js_trim ''read'' = ''read''" by code_simp
  obtain made m' where made: "create sample_options ''read'' ''s1'' (retry_options ?t) ?m = (Some (Inr made), m')"
    by (simp add: create_def healthy trimmed Let_def) (simp add: sample_options_def andThen_def yields_def Let_def)
  have "retry sample_options ''t1'' ?m = (Some (Inr made), m')"
    using made objective by (simp add: retry_def healthy g isTerminal_def TERMINAL_STATES_def)
  then show ?thesis using retry_drops_limits [OF _ t] by blast
qed


end
