(* ===== verification/AuditBounds.thy ===== *)
theory AuditBounds
  imports LoopDetector
begin

text \<open>
  \<open>src/audit/boundaries.ts\<close>: the widths an audit record may have, the width of the record they add up to,
  and the table of what produces each field. Widths are in UTF-16 code units of the serialised form.
  Quotation marks and dashes in the table's prose are left out.
\<close>

subsection \<open>Limits\<close>

definition MAX_DNS_NAME :: nat where "MAX_DNS_NAME = 253"

definition SCHEME_PREFIX_WIDTH :: nat where
  "SCHEME_PREFIX_WIDTH = length ''https'' + length ''://''"

definition PORT_SUFFIX :: string where "PORT_SUFFIX = '':65535''"

definition MAX_FILENAME :: nat where "MAX_FILENAME = 255"

definition MAX_MEDIA_TYPE :: nat where "MAX_MEDIA_TYPE = 127 + length ''/'' + 127"

definition MAX_ORIGIN :: nat where
  "MAX_ORIGIN = SCHEME_PREFIX_WIDTH + MAX_DNS_NAME + length PORT_SUFFIX"

definition MAX_STRING :: nat where "MAX_STRING = 256"

definition serialisedWidth :: "string \<Rightarrow> nat" where
  "serialisedWidth value = length (json_quote value) - 2"

definition MAX_OPAQUE_ID :: nat where "MAX_OPAQUE_ID = 80"

definition MAX_EVENT_BYTES :: nat where "MAX_EVENT_BYTES = 4096"

definition MAX_ARRAY_STRING :: nat where "MAX_ARRAY_STRING = 128"

definition MAX_EVIDENCE_IDS :: nat where "MAX_EVIDENCE_IDS = 4"

definition MAX_SCOPES :: nat where "MAX_SCOPES = 16"

definition MAX_ARRAY_ENTRIES :: nat where
  "MAX_ARRAY_ENTRIES = max MAX_EVIDENCE_IDS MAX_SCOPES"

definition arrayLimit :: "string \<Rightarrow> nat" where
  "arrayLimit key =
     (if key = ''evidenceIds'' then MAX_EVIDENCE_IDS
      else if key = ''scopes'' then MAX_SCOPES
      else MAX_ARRAY_ENTRIES)"

definition OPAQUE_ID_FIELDS :: "string list" where
  "OPAQUE_ID_FIELDS =
     [''taskId'', ''sessionId'', ''workflowId'', ''shortcutId'', ''scheduleId'', ''runId'', ''connectorId'',
      ''route'', ''senderClass'']"

definition ARRAY_FIELDS :: "string list" where
  "ARRAY_FIELDS = [''scopes'', ''evidenceIds'']"

definition NUMERIC_FIELDS :: "string list" where
  "NUMERIC_FIELDS =
     [''at'', ''byteLength'', ''tabId'', ''stepCount'', ''stepIndex'', ''workflowVersion'', ''recordCount'',
      ''removedCount'', ''removedFromSeq'', ''removedToSeq'']"

definition BOOLEAN_FIELDS :: "string list" where
  "BOOLEAN_FIELDS = [''executed'', ''cancelled'']"

definition MAX_MCP_SERVER_ID :: nat where "MAX_MCP_SERVER_ID = 64"

definition MAX_MCP_TOOL_NAME :: nat where "MAX_MCP_TOOL_NAME = 128"

definition MAX_MCP_DISPLAY_NAME :: nat where "MAX_MCP_DISPLAY_NAME = 128"

definition MAX_ENDPOINT_PATH :: nat where "MAX_ENDPOINT_PATH = 128"

definition MAX_ENDPOINT_URL :: nat where "MAX_ENDPOINT_URL = MAX_ORIGIN + MAX_ENDPOINT_PATH"

definition MCP_TOOL_NAME_OVERHEAD :: nat where
  "MCP_TOOL_NAME_OVERHEAD = length ''mcp'' + length ''__'' + length ''__''"

definition MCP_TOOL_NAME_MAX :: nat where
  "MCP_TOOL_NAME_MAX = MCP_TOOL_NAME_OVERHEAD + MAX_MCP_SERVER_ID + MAX_MCP_TOOL_NAME"

definition MCP_IDENTITY_MAX :: nat where
  "MCP_IDENTITY_MAX = length ''mcp:'' + MAX_MCP_SERVER_ID + length ''@'' + MAX_ORIGIN"

definition MAX_DESTINATION :: nat where
  "MAX_DESTINATION = max MCP_IDENTITY_MAX MAX_ENDPOINT_URL"

definition MAX_SKILL_ID :: nat where "MAX_SKILL_ID = 64"

definition MAX_SKILL_VERSION :: nat where "MAX_SKILL_VERSION = 32"

definition MAX_MODEL_ID :: nat where "MAX_MODEL_ID = MAX_STRING"

definition MAX_DETAIL :: nat where "MAX_DETAIL = MAX_STRING"

definition fieldLimit :: "string \<Rightarrow> nat" where
  "fieldLimit key =
     (if key = ''origin'' \<or> key = ''site'' then MAX_ORIGIN
      else if key = ''fileName'' then MAX_FILENAME
      else if key = ''destination'' then MAX_DESTINATION
      else if key \<in> set OPAQUE_ID_FIELDS then MAX_OPAQUE_ID
      else MAX_STRING)"

text \<open>\<open>boundedDetail\<close>, over code units because of the ellipsis U+2026.\<close>

definition boundedDetail :: "nat list \<Rightarrow> nat list" where
  "boundedDetail text =
     (if length text \<le> MAX_DETAIL then text else take (MAX_DETAIL - 1) text @ [8230])"

subsection \<open>Widths\<close>

definition fieldValueWidth :: "string \<Rightarrow> nat" where
  "fieldValueWidth key =
     (if key \<in> set ARRAY_FIELDS then
        let entries = arrayLimit key in 2 + entries * (MAX_ARRAY_STRING + 2) + (entries - 1)
      else if key \<in> set NUMERIC_FIELDS then 20
      else if key \<in> set BOOLEAN_FIELDS then 5
      else fieldLimit key + 2)"

fun field_widths :: "string list \<Rightarrow> nat" where
  "field_widths [] = 0"
| "field_widths (key # keys) =
     (if key = ''type'' then field_widths keys
      else 1 + length key + 3 + fieldValueWidth key + field_widths keys)"

text \<open>The literal texts of \<open>recordWidth\<close>, whose quotation marks are counted by hand.\<close>

definition recordWidth :: "string list \<Rightarrow> nat" where
  "recordWidth keys =
     2 + (length ''type'' + 3) + 34 + field_widths keys + (length ''id:aud_xxxxxxxxxx_xxxx,'' + 4) +
     (length ''at:1700000000000,'' + 2) + (length ''seq:999999,'' + 2) + (length ''prevDigest:,'' + 64 + 4) +
     (length ''eventVersion:99'' + 2)"

subsection \<open>The contracts\<close>

record boundary_contract =
  bc_field :: string
  bc_producer :: string
  bc_producerMax :: nat
  bc_transformation :: string
  bc_transformedMax :: nat
  bc_consumer :: string
  bc_consumerMax :: nat

definition contract ::
  "string \<Rightarrow> string \<Rightarrow> nat \<Rightarrow> string \<Rightarrow> nat \<Rightarrow> string \<Rightarrow> nat \<Rightarrow> boundary_contract" where
  "contract field producer producerMax transformation transformedMax consumer consumerMax =
     \<lparr>bc_field = field, bc_producer = producer, bc_producerMax = producerMax, bc_transformation = transformation,
      bc_transformedMax = transformedMax, bc_consumer = consumer, bc_consumerMax = consumerMax\<rparr>"

definition BOUNDARY_CONTRACTS :: "boundary_contract list" where
  "BOUNDARY_CONTRACTS =
     [
      contract ''fileName'' ''checkDownloadFilename (download-safety.ts)'' (200)
        ''recorded verbatim'' (200) ''AuditLog fileName'' (MAX_FILENAME),
      contract ''fileName'' ''safeDisplayName (file-model.ts)'' (MAX_FILENAME)
        ''recorded verbatim'' (MAX_FILENAME) ''AuditLog fileName'' (MAX_FILENAME),
      contract ''tool'' ''validateServerDescriptor id + admitDiscoveredTool name'' (MAX_MCP_SERVER_ID + MAX_MCP_TOOL_NAME)
        ''mcpToolName: mcp__ + id + __ + name'' (MCP_TOOL_NAME_MAX) ''AuditLog tool'' (MAX_STRING),
      contract ''destination'' ''validateServerDescriptor id + origin'' (MAX_MCP_SERVER_ID)
        ''mcpDestination: mcp: + id + @ + origin'' (MCP_IDENTITY_MAX) ''AuditLog destination'' (MAX_DESTINATION),
      contract ''destination'' ''validateServerDescriptor url'' (MAX_ENDPOINT_URL)
        ''recorded verbatim by mcp.server.added'' (MAX_ENDPOINT_URL) ''AuditLog destination'' (MAX_DESTINATION),
      contract ''origin'' ''parseOrigin of any reachable URL'' (MAX_ORIGIN)
        ''scheme + host + optional port'' (MAX_ORIGIN) ''AuditLog origin'' (MAX_ORIGIN),
      contract ''site'' ''siteOf of any reachable hostname'' (MAX_DNS_NAME)
        ''registrable domain'' (MAX_DNS_NAME) ''AuditLog site'' (MAX_ORIGIN),
      contract ''modelId'' ''checkModelId at provider selection'' (MAX_MODEL_ID)
        ''recorded verbatim'' (MAX_MODEL_ID) ''AuditLog modelId'' (MAX_STRING),
      contract ''modelId'' ''parseModelCatalogue of a 9Router /models response'' (MAX_MODEL_ID)
        ''carried verbatim - never split on /, never normalised'' (MAX_MODEL_ID) ''AuditLog modelId'' (MAX_STRING),
      contract ''mimeType'' ''safeMediaType of a Content-Type or a picked file'' (MAX_MEDIA_TYPE)
        ''type/subtype only, parameters dropped'' (MAX_MEDIA_TYPE) ''AuditLog mimeType'' (MAX_STRING),
      contract ''skillId'' ''validateSkillDefinition id (bundled, recorded or imported)'' (MAX_SKILL_ID)
        ''recorded verbatim by skill.started, skill.step, skill.finished'' (MAX_SKILL_ID) ''AuditLog skillId'' (MAX_STRING),
      contract ''skillVersion'' ''validateSkillDefinition version'' (MAX_SKILL_VERSION)
        ''recorded verbatim'' (MAX_SKILL_VERSION) ''AuditLog skillVersion'' (MAX_STRING),
      contract ''detail'' ''boundedDetail of a composed sentence'' (MAX_DETAIL)
        ''shortened with a visible ellipsis when over'' (MAX_DETAIL) ''AuditLog detail'' (MAX_STRING),
      contract ''taskId'' ''managementTaskId (provider-transport.ts)'' (MAX_OPAQUE_ID)
        ''prefix + providerId + truncated digest'' (MAX_OPAQUE_ID) ''AuditLog isOpaqueId'' (MAX_OPAQUE_ID),
      contract ''sessionId'' ''unattendedSessionIdFor (schedule-model.ts)'' (75)
        ''unattended_ + srun_ + scheduleId + _ + occurrenceAt'' (75) ''AuditLog isOpaqueId'' (MAX_OPAQUE_ID),
      contract ''evidenceIds[]'' ''buildEgressEvidence reference id'' (length ''egress_'' + MAX_OPAQUE_ID + 1 + 13 + 1 + 6)
        ''egress_ + taskId + _ + now + _ + random'' (length ''egress_'' + MAX_OPAQUE_ID + 1 + 13 + 1 + 6) ''AuditLog array entry'' (MAX_ARRAY_STRING)
     ]"

lemmas width_constants =
  MAX_DNS_NAME_def SCHEME_PREFIX_WIDTH_def PORT_SUFFIX_def MAX_FILENAME_def MAX_MEDIA_TYPE_def MAX_ORIGIN_def
  MAX_STRING_def MAX_OPAQUE_ID_def MAX_ARRAY_STRING_def MAX_EVIDENCE_IDS_def MAX_SCOPES_def
  MAX_ARRAY_ENTRIES_def MAX_MCP_SERVER_ID_def MAX_MCP_TOOL_NAME_def MAX_ENDPOINT_PATH_def MAX_ENDPOINT_URL_def
  MCP_TOOL_NAME_OVERHEAD_def MCP_TOOL_NAME_MAX_def MCP_IDENTITY_MAX_def MAX_DESTINATION_def MAX_SKILL_ID_def
  MAX_SKILL_VERSION_def MAX_MODEL_ID_def MAX_DETAIL_def

lemma contracts_hold: "list_all (\<lambda>c. bc_transformedMax c \<le> bc_consumerMax c) BOUNDARY_CONTRACTS"
  by (simp add: BOUNDARY_CONTRACTS_def contract_def width_constants)

lemma boundedDetail_length: "length (boundedDetail text) \<le> MAX_DETAIL"
  by (simp add: boundedDetail_def width_constants)

subsection \<open>Serialised text\<close>

text \<open>
  \<open>JSON.stringify\<close> of a value other than \<open>undefined\<close>, which it skips in an object and writes as \<open>null\<close> in a
  list. How a number prints is the parameter \<open>N\<close>.
\<close>

fun json_text :: "(rat \<Rightarrow> string) \<Rightarrow> json \<Rightarrow> string"
  and json_items :: "(rat \<Rightarrow> string) \<Rightarrow> json list \<Rightarrow> string list"
  and json_entries :: "(rat \<Rightarrow> string) \<Rightarrow> (string \<times> json) list \<Rightarrow> string list" where
  "json_text N JUndef = ''null''"
| "json_text N JNull = ''null''"
| "json_text N (JBool b) = (if b then ''true'' else ''false'')"
| "json_text N (JNum n) = number_text N n"
| "json_text N (JStr s) = json_quote s"
| "json_text N (JArr items) = ''['' @ js_join '','' (json_items N items) @ '']''"
| "json_text N (JObj entries) = ''{'' @ js_join '','' (json_entries N entries) @ ''}''"
| "json_items N [] = []"
| "json_items N (item # items) = json_text N item # json_items N items"
| "json_entries N [] = []"
| "json_entries N ((key, value) # entries) =
     (if value = JUndef then json_entries N entries
      else (json_quote key @ '':'' @ json_text N value) # json_entries N entries)"

text \<open>Characters that are written as they are.\<close>

definition plain_char :: "char \<Rightarrow> bool" where
  "plain_char c \<longleftrightarrow> 32 \<le> char_code c \<and> char_code c \<noteq> 34 \<and> char_code c \<noteq> 92"

lemma json_escape_plain: "plain_char c \<Longrightarrow> json_escape c = [c]"
  by (simp add: plain_char_def json_escape_def Let_def)

lemma json_quote_plain: "list_all plain_char s \<Longrightarrow> json_quote s = [CHR 0x22] @ s @ [CHR 0x22]"
proof -
  have "list_all plain_char s \<Longrightarrow> concat (map json_escape s) = s"
    by (induction s) (simp_all add: json_escape_plain)
  then show "list_all plain_char s \<Longrightarrow> json_quote s = [CHR 0x22] @ s @ [CHR 0x22]"
    by (simp add: json_quote_def)
qed

lemma set_js_join: "set (js_join sep xs) = (\<Union>x \<in> set xs. set x) \<union> (if length xs \<le> 1 then {} else set sep)"
  by (induction sep xs rule: js_join.induct) auto

lemma length_js_join: "length (js_join sep xs) = sum_list (map length xs) + (length xs - 1) * length sep"
  by (induction sep xs rule: js_join.induct) auto

end
