(* ===== verification/AuditLog.thy ===== *)
theory AuditLog
  imports AuditBounds Redaction PersistenceHealth
begin

text \<open>
  \<open>src/audit/audit-log.ts\<close>: what an audit record may hold, how records are appended under retention, and
  what \<open>verifyIntegrity\<close> says of the trail.

  A record is the entries its producer supplied and the five fields the log owns. Times and sequence
  numbers are integers. The digest, the printing of numbers and the registry of tools are parameters of
  the options, as is which storage transactions succeed. A type that is not a string is refused at once.
  Log lines are left out.
\<close>

subsection \<open>Records\<close>

type_synonym audit_entries = "(string \<times> json) list"

record audit_event =
  au_entries :: audit_entries
  au_eventVersion :: int
  au_seq :: int
  au_prevDigest :: string
  au_id :: string
  au_at :: int

record recordable_event =
  re_at :: "int option"
  re_entries :: audit_entries

definition AUDIT_EVENT_TYPES :: "string list" where
  "AUDIT_EVENT_TYPES =
     [''task.created'', ''task.state'', ''task.completed'', ''tool.invoked'', ''tool.refused'',
      ''permission.decided'', ''egress.decided'', ''provider.selected'', ''file.selected'',
      ''file.attached'', ''file.downloaded'', ''connector.configured'', ''connector.auth'',
      ''connector.operation'', ''skill.started'', ''skill.step'', ''skill.finished'',
      ''workflow.recorded'', ''workflow.removed'', ''skill.enablement'', ''policy.site_rule'',
      ''workspace.membership'', ''workflow.replay'', ''shortcut.resolved'', ''shortcut.launched'',
      ''route.refused'', ''persistence.health'', ''schedule.created'', ''schedule.updated'',
      ''schedule.paused'', ''schedule.resumed'', ''schedule.deleted'', ''schedule.run_started'',
      ''schedule.run_completed'', ''schedule.run_failed'', ''schedule.run_blocked'',
      ''schedule.run_cancelled'', ''schedule.run_missed'', ''plan.approved'', ''plan.site_added'',
      ''plan.revised'', ''mcp.server.added'', ''mcp.server.removed'', ''k1.protection'',
      ''session.permission_mode'', ''shortcut.configured'', ''storage.preference'', ''data.exported'',
      ''data.imported'', ''retention.compacted'']"

definition PROHIBITED_FIELDS :: "string list" where
  "PROHIBITED_FIELDS =
     map js_lower
     [''access_token'', ''accessToken'', ''refresh_token'', ''refreshToken'', ''client_secret'',
      ''clientSecret'', ''code_verifier'', ''codeVerifier'', ''authorization_code'',
      ''authorizationCode'', ''id_token'', ''idToken'', ''password'', ''passwd'', ''secret'', ''token'',
      ''cookie'', ''cookies'', ''apikey'', ''api_key'', ''authorization'', ''credential'',
      ''credentials'', ''session'', ''payload'', ''content'', ''body'', ''inputs'', ''outputs'',
      ''result'', ''results'', ''arguments'', ''args'', ''steps'', ''definition'', ''binding'',
      ''bindings'', ''selector'', ''selectors'', ''xpath'', ''elementid'', ''prompt'', ''completion'',
      ''message'', ''messages'', ''text'', ''value'', ''values'', ''sources'', ''taintsignature'']"

definition AUDIT_OUTCOMES :: "string list" where
  "AUDIT_OUTCOMES = [''allowed'', ''denied'', ''confirmed'', ''failed'', ''info'']"

definition TASK_SCOPED :: "string list" where
  "TASK_SCOPED =
     [''task.created'', ''task.state'', ''task.completed'', ''tool.invoked'', ''tool.refused'',
      ''permission.decided'', ''egress.decided'', ''skill.started'', ''skill.step'', ''skill.finished'',
      ''workflow.replay'', ''shortcut.launched'']"

definition INTERNAL_AUDIT_SOURCES :: "(string \<times> string list) list" where
  "INTERNAL_AUDIT_SOURCES = [(''provider.request'', [''egress.decided''])]"

definition UNKNOWN_TOOL :: string where
  "UNKNOWN_TOOL = ''(unknown)''"

definition AUDIT_EVENT_VERSION :: int where
  "AUDIT_EVENT_VERSION = 1"

definition GENESIS_DIGEST :: string where
  "GENESIS_DIGEST = replicate 64 CHR ''0''"

text \<open>The options, with their defaults resolved, and the parameters of the platform.\<close>

record audit_options =
  ao_maxEvents :: nat
  ao_maxBytes :: nat
  ao_retentionMs :: int
  ao_knownTool :: "string \<Rightarrow> bool"
  ao_digest :: "string \<Rightarrow> string"
  ao_number :: "rat \<Rightarrow> string"

text \<open>What \<open>prepare\<close> throws.\<close>

datatype audit_refusal =
    AuditShapeError string string
  | ProhibitedAuditFieldError string

subsection \<open>What a record may hold\<close>

definition MAX_AUDIT_DEPTH :: nat where
  "MAX_AUDIT_DEPTH = 8"

text \<open>\<open>walkForProhibited\<close>: the path of the first field that is refused.\<close>

fun walkForProhibited :: "json \<Rightarrow> string list \<Rightarrow> nat \<Rightarrow> string list option"
  and walk_items :: "json list \<Rightarrow> nat \<Rightarrow> string list \<Rightarrow> nat \<Rightarrow> string list option"
  and walk_entries :: "audit_entries \<Rightarrow> string list \<Rightarrow> nat \<Rightarrow> string list option" where
  "walkForProhibited v path depth =
     (if MAX_AUDIT_DEPTH < depth then Some (if path = [] then [''(root)''] else path)
      else
        (case v of
           JArr items \<Rightarrow> walk_items items 0 path (Suc depth)
         | JObj entries \<Rightarrow> walk_entries entries path (Suc depth)
         | _ \<Rightarrow> None))"
| "walk_items [] index path depth = None"
| "walk_items (item # items) index path depth =
     (case walkForProhibited item (path @ [show_nat index]) depth of
        None \<Rightarrow> walk_items items (Suc index) path depth
      | Some found \<Rightarrow> Some found)"
| "walk_entries [] path depth = None"
| "walk_entries ((key, nested) # entries) path depth =
     (if js_lower key \<in> set PROHIBITED_FIELDS then Some (path @ [key])
      else
        (case walkForProhibited nested (path @ [key]) depth of
           None \<Rightarrow> walk_entries entries path depth
         | Some found \<Rightarrow> Some found))"

declare walkForProhibited.simps [simp del]

definition assertAuditSafe :: "audit_entries \<Rightarrow> audit_refusal option" where
  "assertAuditSafe event =
     map_option (\<lambda>path. ProhibitedAuditFieldError (js_join ''.'' path)) (walkForProhibited (JObj event) [] 0)"

fun check_list_items :: "string \<Rightarrow> json list \<Rightarrow> audit_refusal option" where
  "check_list_items key [] = None"
| "check_list_items key (JStr s # items) =
     (if MAX_ARRAY_STRING < serialisedWidth s then
        Some (AuditShapeError key (''holds an entry longer than '' @ show_nat MAX_ARRAY_STRING))
      else check_list_items key items)"
| "check_list_items key (item # items) = Some (AuditShapeError key ''holds a non-string entry'')"

definition check_field :: "string \<Rightarrow> json \<Rightarrow> audit_refusal option" where
  "check_field key v =
     (case v of
        JArr items \<Rightarrow>
          if key \<notin> set ARRAY_FIELDS then Some (AuditShapeError key ''may not be a list'')
          else if arrayLimit key < length items then
            Some (AuditShapeError key (''holds more than '' @ show_nat (arrayLimit key) @ '' entries''))
          else check_list_items key items
      | JObj entries \<Rightarrow> Some (AuditShapeError key ''may not be a nested object'')
      | JStr s \<Rightarrow>
          if fieldLimit key < serialisedWidth s then
            Some (AuditShapeError key
              (''is longer than '' @ show_nat (fieldLimit key) @ '' characters''))
          else None
      | _ \<Rightarrow> None)"

fun check_fields :: "audit_entries \<Rightarrow> audit_refusal option" where
  "check_fields [] = None"
| "check_fields ((key, v) # entries) =
     (case check_field key v of None \<Rightarrow> check_fields entries | Some e \<Rightarrow> Some e)"

definition assertAuditShape :: "(rat \<Rightarrow> string) \<Rightarrow> audit_entries \<Rightarrow> audit_refusal option" where
  "assertAuditShape N event =
     (case check_fields event of
        Some e \<Rightarrow> Some e
      | None \<Rightarrow>
          if MAX_EVENT_BYTES < length (json_text N (JObj event)) then
            Some (AuditShapeError ''(record)'' (''is larger than '' @ show_nat MAX_EVENT_BYTES @ '' bytes''))
          else None)"

text \<open>\<open>text.includes(part)\<close>.\<close>

fun text_includes :: "string \<Rightarrow> string \<Rightarrow> bool" where
  "text_includes [] part = (part = [])"
| "text_includes (c # cs) part = (take (length part) (c # cs) = part \<or> text_includes cs part)"

definition dropRedactedFields :: "audit_entries \<Rightarrow> audit_entries" where
  "dropRedactedFields event =
     filter (\<lambda>(key, v).
       case v of
         JStr s \<Rightarrow> s = [] \<or> (redactValue 0 (JStr s) = JStr s \<and> \<not> text_includes s REDACTED)
       | _ \<Rightarrow> True) event"

definition opaque_char :: "char \<Rightarrow> bool" where
  "opaque_char c \<longleftrightarrow> ascii_lower c \<or> ascii_upper c \<or> js_digit c \<or> c \<in> set ''_.:-''"

definition isOpaqueId :: "json \<Rightarrow> bool" where
  "isOpaqueId v =
     (case v of JStr s \<Rightarrow> s \<noteq> [] \<and> length s \<le> MAX_OPAQUE_ID \<and> list_all opaque_char s | _ \<Rightarrow> False)"

subsection \<open>Preparing\<close>

definition OWNED_FIELDS :: "string list" where
  "OWNED_FIELDS = [''id'', ''seq'', ''prevDigest'', ''eventVersion'']"

definition verified_source :: "audit_options \<Rightarrow> string \<Rightarrow> string \<Rightarrow> bool" where
  "verified_source opts type name =
     ((case map_of INTERNAL_AUDIT_SOURCES name of None \<Rightarrow> False | Some types \<Rightarrow> type \<in> set types) \<or>
      ao_knownTool opts name)"

definition mask_source :: "audit_options \<Rightarrow> string \<Rightarrow> string \<times> json \<Rightarrow> string \<times> json" where
  "mask_source opts type entry =
     (case entry of
        (key, JStr name) \<Rightarrow>
          if key \<in> {''tool'', ''ran''} \<and> \<not> verified_source opts type name then (key, JStr UNKNOWN_TOOL) else entry
      | _ \<Rightarrow> entry)"

definition bad_identifier :: "audit_entries \<Rightarrow> string option" where
  "bad_identifier supplied =
     find (\<lambda>field. json_get supplied field \<noteq> JUndef \<and> \<not> isOpaqueId (json_get supplied field)) OPAQUE_ID_FIELDS"

definition prepare :: "audit_options \<Rightarrow> audit_entries \<Rightarrow> audit_refusal + audit_entries" where
  "prepare opts event =
     (let supplied = filter (\<lambda>(key, _). key \<notin> set OWNED_FIELDS) event
      in case json_get supplied ''type'' of
           JStr type \<Rightarrow>
             if type \<notin> set AUDIT_EVENT_TYPES then Inl (AuditShapeError ''type'' ''is not one this build records'')
             else if json_get supplied ''outcome'' \<notin> JStr ` set AUDIT_OUTCOMES then
               Inl (AuditShapeError ''outcome'' ''is not a known outcome'')
             else
               let supplied = map (mask_source opts type) supplied
               in case bad_identifier supplied of
                    Some field \<Rightarrow> Inl (AuditShapeError field ''is not a usable identifier'')
                  | None \<Rightarrow>
                      if type \<in> set TASK_SCOPED \<and> \<not> isOpaqueId (json_get supplied ''taskId'') then
                        Inl (AuditShapeError ''taskId'' ''is required for this kind of record'')
                      else
                        (case assertAuditSafe supplied of
                           Some e \<Rightarrow> Inl e
                         | None \<Rightarrow>
                             let kept = dropRedactedFields supplied
                             in case assertAuditShape (ao_number opts) kept of
                                  Some e \<Rightarrow> Inl e
                                | None \<Rightarrow> Inr kept)
         | _ \<Rightarrow> Inl (AuditShapeError ''type'' ''is not one this build records''))"

subsection \<open>The canonical form\<close>

definition event_entries :: "audit_event \<Rightarrow> audit_entries" where
  "event_entries e =
     filter (\<lambda>(key, _). key \<noteq> ''at'') (au_entries e) @
     [(''eventVersion'', JNum (Fin (of_int (au_eventVersion e)))), (''seq'', JNum (Fin (of_int (au_seq e)))),
      (''prevDigest'', JStr (au_prevDigest e)), (''id'', JStr (au_id e)), (''at'', JNum (Fin (of_int (au_at e))))]"

definition canonicalForm :: "(rat \<Rightarrow> string) \<Rightarrow> audit_event \<Rightarrow> string" where
  "canonicalForm N e =
     ''{'' @
     js_join '',''
       (map (\<lambda>(key, v). json_quote key @ '':'' @ json_text N v)
         (sort_entries (filter (\<lambda>(key, v). key \<noteq> ''prevDigest'' \<and> v \<noteq> JUndef) (event_entries e)))) @
     ''}''"

definition digestOf :: "audit_options \<Rightarrow> audit_event \<Rightarrow> string" where
  "digestOf opts e = ao_digest opts (canonicalForm (ao_number opts) e)"

definition show_base36_int :: "int \<Rightarrow> string" where
  "show_base36_int i = (if i < 0 then ''-'' @ show_base36 (nat (- i)) else show_base36 (nat i))"

definition mintId :: "int \<Rightarrow> int \<Rightarrow> string" where
  "mintId time seq = ''aud_'' @ show_base36_int time @ ''_'' @ show_base36_int seq"

subsection \<open>Appending\<close>

text \<open>\<open>withinBytes\<close>: a tenth of the trail at a time, from its old end.\<close>

definition events_size :: "audit_options \<Rightarrow> audit_event list \<Rightarrow> nat" where
  "events_size opts events = length (json_text (ao_number opts) (JArr (map (\<lambda>e. JObj (event_entries e)) events)))"

function withinBytes :: "audit_options \<Rightarrow> audit_event list \<Rightarrow> audit_event list" where
  "withinBytes opts kept =
     (if 1 < length kept \<and> ao_maxBytes opts < events_size opts kept then
        withinBytes opts (take (max 1 (length kept * 9 div 10)) kept)
      else kept)"
  by pat_completeness auto

termination withinBytes
  by (relation "measure (\<lambda>(_, kept). length kept)") auto

declare withinBytes.simps [simp del]

definition keep_count :: "audit_options \<Rightarrow> nat \<Rightarrow> nat" where
  "keep_count opts fresh =
     (let headroom = ao_maxEvents opts - 2
      in if ao_maxEvents opts < fresh + 2 then min (ao_maxEvents opts * 9 div 10) headroom
         else min fresh headroom)"

definition highest_seq :: "audit_event list \<Rightarrow> int" where
  "highest_seq events = fold max (map au_seq events) 0"

definition marker_of :: "audit_event list \<Rightarrow> int \<Rightarrow> string \<Rightarrow> int \<Rightarrow> audit_event" where
  "marker_of evicted seq prevDigest time =
     \<lparr>au_entries =
        [(''type'', JStr ''retention.compacted''), (''outcome'', JStr ''info''),
         (''removedCount'', JNum (Fin (of_nat (length evicted)))),
         (''removedFromSeq'', JNum (Fin (of_int (Min (set (map au_seq evicted)))))),
         (''removedToSeq'', JNum (Fin (of_int (Max (set (map au_seq evicted))))))],
      au_eventVersion = AUDIT_EVENT_VERSION, au_seq = seq, au_prevDigest = prevDigest,
      au_id = mintId time seq, au_at = time\<rparr>"

definition appended :: "audit_options \<Rightarrow> int \<Rightarrow> audit_entries \<Rightarrow> audit_event list \<Rightarrow> audit_event list \<times> audit_event" where
  "appended opts time entries existing =
     (let cutoff = time - ao_retentionMs opts;
          expired = filter (\<lambda>e. au_at e < cutoff) existing;
          fresh = filter (\<lambda>e. cutoff \<le> au_at e) existing;
          keepCount = keep_count opts (length fresh);
          survivors = take keepCount fresh;
          evicted = drop keepCount fresh @ expired;
          seq = highest_seq existing;
          prevDigest = (case existing of [] \<Rightarrow> GENESIS_DIGEST | newest # _ \<Rightarrow> digestOf opts newest);
          marker = marker_of evicted (seq + 1) prevDigest time;
          (seq, prevDigest, additions) =
            (if evicted \<noteq> [] then (seq + 1, digestOf opts marker, [marker]) else (seq, prevDigest, []));
          written =
            \<lparr>au_entries = entries, au_eventVersion = AUDIT_EVENT_VERSION, au_seq = seq + 1,
             au_prevDigest = prevDigest, au_id = mintId time (seq + 1), au_at = time\<rparr>
      in (withinBytes opts (written # additions @ survivors), written))"

text \<open>
  The log: the stored trail, newest first, why it is degraded, and what persistence health was told of the
  audit domain.
\<close>

record audit_log =
  al_events :: "audit_event list"
  al_degraded :: "string option"
  al_health :: "(persistence_state \<times> string) list"

definition reportHealth :: "persistence_state \<Rightarrow> string \<Rightarrow> audit_log \<Rightarrow> audit_log" where
  "reportHealth state reason s = s\<lparr>al_health := al_health s @ [(state, reason)]\<rparr>"

text \<open>One transaction: \<open>None\<close> where the area throws, and then nothing is stored.\<close>

definition append_event ::
  "audit_options \<Rightarrow> int \<Rightarrow> int option \<Rightarrow> audit_entries \<Rightarrow> bool \<Rightarrow> audit_log \<Rightarrow> audit_event option \<times> audit_log" where
  "append_event opts now given entries works s =
     (if \<not> works then (None, s)
      else
        let (events, written) = appended opts (case given of None \<Rightarrow> now | Some t \<Rightarrow> t) entries (al_events s)
        in (Some written, s\<lparr>al_events := events, al_degraded := None\<rparr>))"

definition compact :: "audit_options \<Rightarrow> bool \<Rightarrow> audit_log \<Rightarrow> audit_log option" where
  "compact opts works s =
     (if works then Some (s\<lparr>al_events := take (ao_maxEvents opts div 2) (al_events s)\<rparr>) else None)"

definition refusal_suffix :: "audit_refusal \<Rightarrow> string" where
  "refusal_suffix e = (case e of AuditShapeError field why \<Rightarrow> '': '' @ field | _ \<Rightarrow> [])"

definition supplied_entries :: "recordable_event \<Rightarrow> audit_entries" where
  "supplied_entries event =
     re_entries event @ (case re_at event of None \<Rightarrow> [] | Some t \<Rightarrow> [(''at'', JNum (Fin (of_int t)))])"

text \<open>\<open>record\<close>; the three transactions it may try succeed as given.\<close>

definition record_event ::
  "audit_options \<Rightarrow> int \<Rightarrow> recordable_event \<Rightarrow> bool \<times> bool \<times> bool \<Rightarrow> audit_log \<Rightarrow> audit_event option \<times> audit_log" where
  "record_event opts now event works s =
     (case prepare opts (supplied_entries event) of
        Inl e \<Rightarrow>
          (None,
           reportHealth CORRUPT (''a record could not be shaped'' @ refusal_suffix e)
             (s\<lparr>al_degraded :=
                  Some (''A record was refused because its shape was not usable'' @ refusal_suffix e @ ''.'')\<rparr>))
      | Inr prepared \<Rightarrow>
          let (first, compacted, second) = works
          in case append_event opts now (re_at event) prepared first s of
               (Some written, s) \<Rightarrow> (Some written, s)
             | (None, s) \<Rightarrow>
                 (case Option.bind (compact opts compacted s)
                         (\<lambda>s'. case append_event opts now (re_at event) prepared second s' of
                                 (None, _) \<Rightarrow> None | (Some written, s'') \<Rightarrow> Some (written, s'')) of
                    Some (written, s') \<Rightarrow> (Some written, s')
                  | None \<Rightarrow>
                      let s = (case compact opts compacted s of None \<Rightarrow> s | Some s' \<Rightarrow> s')
                      in (None,
                          reportHealth DEGRADED ''a record could not be written''
                            (s\<lparr>al_degraded :=
                                 Some ''The audit trail could not be written to; records are missing.''\<rparr>))))"

subsection \<open>Integrity\<close>

datatype integrity_verdict =
    trail_ok | trail_empty | trail_gap | trail_reordered | trail_chain_broken | trail_truncated
  | trail_future_version | trail_corrupt

record integrity_report =
  ir_verdict :: integrity_verdict
  ir_checked :: nat
  ir_atSeq :: "int option"

text \<open>The loop over the records, oldest first; a value that is not a usable record is \<open>None\<close>.\<close>

fun verify_loop :: "audit_options \<Rightarrow> audit_event option \<Rightarrow> audit_event option list \<Rightarrow> (integrity_verdict \<times> int option) option" where
  "verify_loop opts previous [] = None"
| "verify_loop opts previous (None # rest) = Some (trail_corrupt, None)"
| "verify_loop opts previous (Some e # rest) =
     (if AUDIT_EVENT_VERSION < au_eventVersion e then Some (trail_future_version, Some (au_seq e))
      else
        (case previous of
           None \<Rightarrow> verify_loop opts (Some e) rest
         | Some p \<Rightarrow>
             if au_seq e = au_seq p then Some (trail_reordered, Some (au_seq e))
             else if au_seq e < au_seq p then Some (trail_reordered, Some (au_seq e))
             else if au_seq e \<noteq> au_seq p + 1 then Some (trail_gap, Some (au_seq e))
             else if au_prevDigest e \<noteq> digestOf opts p then Some (trail_chain_broken, Some (au_seq e))
             else verify_loop opts (Some e) rest))"

definition verifyIntegrity :: "audit_options \<Rightarrow> audit_event option list \<Rightarrow> integrity_report" where
  "verifyIntegrity opts events =
     (if events = [] then \<lparr>ir_verdict = trail_empty, ir_checked = 0, ir_atSeq = None\<rparr>
      else
        let ordered = rev events
        in case verify_loop opts None ordered of
             Some (verdict, seq_no) \<Rightarrow> \<lparr>ir_verdict = verdict, ir_checked = length ordered, ir_atSeq = seq_no\<rparr>
           | None \<Rightarrow>
               (case hd ordered of
                  Some oldest \<Rightarrow>
                    if 1 < au_seq oldest then
                      \<lparr>ir_verdict = trail_truncated, ir_checked = length ordered, ir_atSeq = Some (au_seq oldest)\<rparr>
                    else \<lparr>ir_verdict = trail_ok, ir_checked = length ordered, ir_atSeq = None\<rparr>
                | None \<Rightarrow> \<lparr>ir_verdict = trail_ok, ir_checked = length ordered, ir_atSeq = None\<rparr>))"

subsection \<open>Reading\<close>

record audit_query =
  aq_exact :: "(string \<times> string) list"
  aq_site :: "string option"
  aq_offset :: "int option"
  aq_limit :: "int option"

definition EXACT_MATCH_FIELDS :: "string list" where
  "EXACT_MATCH_FIELDS =
     [''taskId'', ''workflowId'', ''skillId'', ''shortcutId'', ''scheduleId'', ''runId'', ''connectorId'']"

definition site_of_event :: "audit_event \<Rightarrow> string" where
  "site_of_event e = (case json_get (event_entries e) ''site'' of JStr s \<Rightarrow> s | _ \<Rightarrow> [])"

definition matches :: "audit_event \<Rightarrow> audit_query \<Rightarrow> bool" where
  "matches e query \<longleftrightarrow>
     list_all (\<lambda>field. case map_of (aq_exact query) field of
         None \<Rightarrow> True | Some wanted \<Rightarrow> json_get (event_entries e) field = JStr wanted) EXACT_MATCH_FIELDS \<and>
     (case aq_site query of None \<Rightarrow> True | Some site \<Rightarrow> js_lower (site_of_event e) = js_lower site)"

record audit_page =
  ap_events :: "audit_event list"
  ap_total :: nat
  ap_offset :: nat
  ap_limit :: nat
  ap_degraded :: "string option"

definition usable :: "audit_event option list \<Rightarrow> audit_event list" where
  "usable events = List.map_filter (\<lambda>e. e) events"

definition list_events :: "nat \<Rightarrow> audit_event option list \<Rightarrow> audit_event list" where
  "list_events limit events = take limit (usable events)"

definition page :: "audit_query \<Rightarrow> audit_event option list \<Rightarrow> string option \<Rightarrow> audit_page" where
  "page query events degraded =
     (let matching = filter (\<lambda>e. matches e query) (usable events);
          offset = nat (max 0 (case aq_offset query of None \<Rightarrow> 0 | Some n \<Rightarrow> n));
          size = nat (min (max 1 (case aq_limit query of None \<Rightarrow> 50 | Some n \<Rightarrow> n)) 200)
      in \<lparr>ap_events = take size (drop offset matching), ap_total = length matching, ap_offset = offset,
          ap_limit = size, ap_degraded = degraded\<rparr>)"

definition forTask :: "audit_options \<Rightarrow> string \<Rightarrow> nat \<Rightarrow> audit_event option list \<Rightarrow> audit_event list" where
  "forTask opts taskId limit events =
     take limit (filter (\<lambda>e. json_get (event_entries e) ''taskId'' = JStr taskId)
       (list_events (ao_maxEvents opts) events))"

definition forSite :: "audit_options \<Rightarrow> string \<Rightarrow> nat \<Rightarrow> audit_event option list \<Rightarrow> audit_event list" where
  "forSite opts site limit events =
     take limit (filter (\<lambda>e. js_lower (site_of_event e) = js_lower site)
       (list_events (ao_maxEvents opts) events))"

definition clear_trail :: "audit_log \<Rightarrow> audit_log" where
  "clear_trail s = s\<lparr>al_events := []\<rparr>"

subsection \<open>Exporting\<close>

datatype audit_export_scope = task_scope string | all_scope

datatype scope_problem = scope_missing | not_an_object | unknown_kind | bad_task_id | unexpected_fields

definition parseAuditExportScope :: "json \<Rightarrow> scope_problem + audit_export_scope" where
  "parseAuditExportScope value =
     (case value of
        JUndef \<Rightarrow> Inl scope_missing
      | JNull \<Rightarrow> Inl scope_missing
      | JObj entries \<Rightarrow>
          let kind = json_get entries ''kind''
          in if kind = JStr ''all'' then
               (if length entries \<noteq> 1 then Inl unexpected_fields else Inr all_scope)
             else if kind = JStr ''task'' then
               (if length entries \<noteq> 2 \<or> ''taskId'' \<notin> fst ` set entries then Inl unexpected_fields
                else
                  (case json_get entries ''taskId'' of
                     JStr taskId \<Rightarrow>
                       if isOpaqueId (JStr taskId) then Inr (task_scope taskId) else Inl bad_task_id
                   | _ \<Rightarrow> Inl bad_task_id))
             else Inl unknown_kind
      | _ \<Rightarrow> Inl not_an_object)"

fun describeScopeProblem :: "scope_problem \<Rightarrow> string" where
  "describeScopeProblem scope_missing = ''An export needs an explicit scope: one task, or every task.''"
| "describeScopeProblem not_an_object = ''The export scope was not a scope.''"
| "describeScopeProblem unknown_kind = ''The export scope named a kind this build does not know.''"
| "describeScopeProblem bad_task_id = ''The export scope named a task id that is not a usable identifier.''"
| "describeScopeProblem unexpected_fields = ''The export scope carried fields this build does not recognise.''"

record audit_export =
  ax_exportedAt :: int
  ax_scope :: audit_export_scope
  ax_window :: "(int \<times> int) option"
  ax_integrity :: integrity_report
  ax_events :: "audit_event list"

fun first_refusal :: "audit_options \<Rightarrow> audit_event list \<Rightarrow> audit_refusal option" where
  "first_refusal opts [] = None"
| "first_refusal opts (e # events) =
     (case assertAuditSafe (event_entries e) of
        Some r \<Rightarrow> Some r
      | None \<Rightarrow>
          (case assertAuditShape (ao_number opts) (event_entries e) of
             Some r \<Rightarrow> Some r
           | None \<Rightarrow> first_refusal opts events))"

definition buildAuditExport ::
  "audit_options \<Rightarrow> audit_event list \<Rightarrow> int \<Rightarrow> audit_export_scope \<Rightarrow> integrity_report \<Rightarrow> audit_refusal + audit_export" where
  "buildAuditExport opts events time scope integrity =
     (case first_refusal opts events of
        Some r \<Rightarrow> Inl r
      | None \<Rightarrow>
          Inr \<lparr>ax_exportedAt = time, ax_scope = scope,
               ax_window =
                 (if events = [] then None
                  else Some (Min (set (map au_seq events)), Max (set (map au_seq events)))),
               ax_integrity = integrity, ax_events = events\<rparr>)"

subsection \<open>The observer of dispatches\<close>

text \<open>\<open>src/audit/dispatch-audit.ts\<close>: the record \<open>writeRecord\<close> makes of one observation.\<close>

record dispatch_observation =
  do_taskId :: string
  do_tool :: string
  do_risk :: string
  do_success :: bool
  do_executed :: bool
  do_errorCode :: "string option"
  do_tabId :: "int option"
  do_site :: "string option"

definition optional_entry :: "string \<Rightarrow> string option \<Rightarrow> audit_entries" where
  "optional_entry key value = (case value of None \<Rightarrow> [] | Some s \<Rightarrow> [(key, JStr s)])"

definition dispatch_record ::
  "dispatch_observation \<Rightarrow> string option \<Rightarrow> string option \<Rightarrow> recordable_event" where
  "dispatch_record observation permissionMode taintKind =
     \<lparr>re_at = None,
      re_entries =
        [(''type'', JStr (if do_executed observation then ''tool.invoked'' else ''tool.refused'')),
         (''taskId'', JStr (do_taskId observation)), (''tool'', JStr (do_tool observation)),
         (''risk'', JStr (do_risk observation)),
         (''outcome'', JStr (if do_success observation then ''allowed'' else ''denied'')),
         (''executed'', JBool (do_executed observation))] @
        optional_entry ''code'' (do_errorCode observation) @
        (case do_tabId observation of None \<Rightarrow> [] | Some t \<Rightarrow> [(''tabId'', JNum (Fin (of_int t)))]) @
        optional_entry ''site'' (do_site observation) @
        optional_entry ''permissionMode'' permissionMode @ optional_entry ''taintKind'' taintKind\<rparr>"

text \<open>
  \<open>src/audit/record-with-evidence.ts\<close>: evidence is stored only where its record was written. The evidence
  store is the list of what was put.
\<close>

definition recordWithEvidence ::
  "audit_options \<Rightarrow> int \<Rightarrow> string \<Rightarrow> (string \<Rightarrow> recordable_event) \<Rightarrow> bool \<times> bool \<times> bool \<Rightarrow>
   audit_log \<times> string list \<Rightarrow> audit_log \<times> string list" where
  "recordWithEvidence opts now evidenceId event works state =
     (case record_event opts now (event evidenceId) works (fst state) of
        (None, s) \<Rightarrow> (s, snd state)
      | (Some written, s) \<Rightarrow> (s, snd state @ [evidenceId]))"

subsection \<open>The chain\<close>

text \<open>A trail, newest first, in which every record follows the one before it.\<close>

fun chained :: "audit_options \<Rightarrow> audit_event list \<Rightarrow> bool" where
  "chained opts [] = True"
| "chained opts [e] \<longleftrightarrow> au_eventVersion e \<le> AUDIT_EVENT_VERSION"
| "chained opts (e # older # rest) \<longleftrightarrow>
     au_eventVersion e \<le> AUDIT_EVENT_VERSION \<and> au_seq e = au_seq older + 1 \<and>
     au_prevDigest e = digestOf opts older \<and> chained opts (older # rest)"

definition timed :: "audit_event list \<Rightarrow> bool" where
  "timed events \<longleftrightarrow> sorted_wrt (\<lambda>newer older. au_at older \<le> au_at newer) events"

lemma chained_Cons:
  "chained opts (e # es) \<longleftrightarrow>
     au_eventVersion e \<le> AUDIT_EVENT_VERSION \<and>
     (es = [] \<or> (au_seq e = au_seq (hd es) + 1 \<and> au_prevDigest e = digestOf opts (hd es) \<and> chained opts es))"
  by (cases es) auto

lemma chained_take: "chained opts es \<Longrightarrow> chained opts (take n es)"
proof (induction es arbitrary: n)
  case (Cons e es)
  then show ?case
    by (cases n; cases es) (auto simp: chained_Cons hd_take take_Cons')
qed simp

lemma timed_take: "timed es \<Longrightarrow> timed (take n es)"
  unfolding timed_def by (rule sorted_wrt_take)

lemma withinBytes_take: "\<exists>n \<ge> 1. withinBytes opts es = take n es"
proof (induction opts es rule: withinBytes.induct)
  case (1 opts kept)
  show ?case
  proof (cases "1 < length kept \<and> ao_maxBytes opts < events_size opts kept")
    case True
    then obtain n where n: "1 \<le> n"
        "withinBytes opts (take (max 1 (length kept * 9 div 10)) kept) = take n (take (max 1 (length kept * 9 div 10)) kept)"
      using 1 by blast
    have "withinBytes opts kept = take (min n (max 1 (length kept * 9 div 10))) kept"
      using True n(2) by (simp add: withinBytes.simps [of opts kept])
    moreover have "1 \<le> min n (max 1 (length kept * 9 div 10))" using n(1) by simp
    ultimately show ?thesis by blast
  next
    case False
    then have "withinBytes opts kept = take (max 1 (length kept)) kept"
      by (subst withinBytes.simps) (simp only: if_False, simp)
    then show ?thesis by (intro exI [of _ "max 1 (length kept)"]) simp
  qed
qed

lemma withinBytes_size:
  "length (withinBytes opts es) \<le> 1 \<or> events_size opts (withinBytes opts es) \<le> ao_maxBytes opts"
proof (induction opts es rule: withinBytes.induct)
  case (1 opts kept)
  then show ?case by (subst (1 2) withinBytes.simps) auto
qed

lemma highest_seq_chained: "chained opts (e # es) \<Longrightarrow> list_all (\<lambda>e. 1 \<le> au_seq e) (e # es) \<Longrightarrow> highest_seq (e # es) = au_seq e"
proof -
  have below: "chained opts (e # es) \<Longrightarrow> x \<in> set es \<Longrightarrow> au_seq x < au_seq e" for e es x
  proof (induction es arbitrary: e)
    case (Cons a es)
    then show ?case by (auto simp: chained_Cons) (force)
  qed simp
  have dominated: "\<forall>x \<in> set xs. x \<le> m \<Longrightarrow> fold max xs m = m" for xs :: "int list" and m
    by (induction xs) (auto simp: max_def)
  assume c: "chained opts (e # es)" and p: "list_all (\<lambda>e. 1 \<le> au_seq e) (e # es)"
  have "\<forall>x \<in> set (map au_seq es). x \<le> au_seq e" using below [OF c] by force
  then have "fold max (map au_seq es) (au_seq e) = au_seq e" by (rule dominated)
  then show "highest_seq (e # es) = au_seq e" using p by (simp add: highest_seq_def max_def)
qed

lemma timed_filter: "timed es \<Longrightarrow> \<exists>n. filter (\<lambda>e. c \<le> au_at e) es = take n es"
proof (induction es)
  case (Cons e es)
  then obtain n where n: "filter (\<lambda>e. c \<le> au_at e) es = take n es" by (auto simp: timed_def)
  show ?case
  proof (cases "c \<le> au_at e")
    case True
    then show ?thesis using n by (intro exI [of _ "Suc n"]) simp
  next
    case False
    then have "filter (\<lambda>e. c \<le> au_at e) (e # es) = []"
      using Cons.prems by (auto simp: timed_def filter_empty_conv)
    then show ?thesis by (intro exI [of _ 0]) simp
  qed
qed simp

text \<open>What every trail the log builds satisfies.\<close>

definition trail_inv :: "audit_options \<Rightarrow> audit_event list \<Rightarrow> bool" where
  "trail_inv opts es \<longleftrightarrow> chained opts es \<and> timed es \<and> list_all (\<lambda>e. 1 \<le> au_seq e) es"

lemma trail_inv_take: "trail_inv opts es \<Longrightarrow> trail_inv opts (take n es)"
  by (auto simp: trail_inv_def chained_take timed_take list_all_iff dest: in_set_takeD)

lemma trail_inv_Cons:
  "trail_inv opts (e # es) \<longleftrightarrow>
     au_eventVersion e \<le> AUDIT_EVENT_VERSION \<and> 1 \<le> au_seq e \<and> list_all (\<lambda>x. au_at x \<le> au_at e) es \<and> trail_inv opts es \<and>
     (es = [] \<or> (au_seq e = au_seq (hd es) + 1 \<and> au_prevDigest e = digestOf opts (hd es)))"
  by (auto simp: trail_inv_def chained_Cons timed_def list_all_iff)

lemma highest_seq_nonneg: "0 \<le> highest_seq es"
proof -
  have "n \<le> fold max xs n" for xs :: "int list" and n
    by (induction xs arbitrary: n) (auto intro: order_trans [OF max.cobounded2])
  then show ?thesis by (simp add: highest_seq_def)
qed

lemma appended_eq:
  "\<exists>fresh keep marker.
     fresh = filter (\<lambda>e. time - ao_retentionMs opts \<le> au_at e) existing \<and> keep \<le> ao_maxEvents opts - 2 \<and>
     au_seq marker = highest_seq existing + 1 \<and> au_eventVersion marker = AUDIT_EVENT_VERSION \<and> au_at marker = time \<and>
     au_prevDigest marker = (case existing of [] \<Rightarrow> GENESIS_DIGEST | newest # _ \<Rightarrow> digestOf opts newest) \<and>
     appended opts time entries existing =
       (let evicts = take keep fresh \<noteq> existing;
            written = \<lparr>au_entries = entries, au_eventVersion = AUDIT_EVENT_VERSION,
              au_seq = (if evicts then highest_seq existing + 2 else highest_seq existing + 1),
              au_prevDigest = (if evicts then digestOf opts marker else au_prevDigest marker),
              au_id = mintId time (if evicts then highest_seq existing + 2 else highest_seq existing + 1), au_at = time\<rparr>
        in (withinBytes opts (written # (if evicts then [marker] else []) @ take keep fresh), written))"
proof -
  let ?fresh = "filter (\<lambda>e. time - ao_retentionMs opts \<le> au_at e) existing"
  let ?keep = "keep_count opts (length ?fresh)"
  let ?evicted = "drop ?keep ?fresh @ filter (\<lambda>e. au_at e < time - ao_retentionMs opts) existing"
  let ?digest = "case existing of [] \<Rightarrow> GENESIS_DIGEST | newest # _ \<Rightarrow> digestOf opts newest"
  let ?marker = "marker_of ?evicted (highest_seq existing + 1) ?digest time"
  have kept: "?keep \<le> ao_maxEvents opts - 2" by (auto simp: keep_count_def Let_def)
  have evicts: "?evicted \<noteq> [] \<longleftrightarrow> take ?keep ?fresh \<noteq> existing"
  proof
    assume "?evicted \<noteq> []"
    then have "length (take ?keep ?fresh) < length existing"
      using sum_length_filter_compl [of "\<lambda>e. time - ao_retentionMs opts \<le> au_at e" existing]
      by (auto simp: filter_empty_conv not_le min_def)
        (metis filter_False length_filter_less less_irrefl linorder_not_less nat_le_linear order_less_le_trans)+
    then show "take ?keep ?fresh \<noteq> existing" by (metis less_irrefl)
  next
    assume h: "take ?keep ?fresh \<noteq> existing"
    show "?evicted \<noteq> []"
    proof
      assume "?evicted = []"
      then have "length ?fresh \<le> ?keep" "filter (\<lambda>e. au_at e < time - ao_retentionMs opts) existing = []" by auto
      then have "take ?keep ?fresh = existing" by (auto simp: filter_empty_conv not_less intro: filter_True)
      then show False using h by contradiction
    qed
  qed
  have app: "appended opts time entries existing =
      (let evicts = ?evicted \<noteq> [];
           written = \<lparr>au_entries = entries, au_eventVersion = AUDIT_EVENT_VERSION,
             au_seq = (if evicts then highest_seq existing + 2 else highest_seq existing + 1),
             au_prevDigest = (if evicts then digestOf opts ?marker else ?digest),
             au_id = mintId time (if evicts then highest_seq existing + 2 else highest_seq existing + 1), au_at = time\<rparr>
       in (withinBytes opts (written # (if evicts then [?marker] else []) @ take ?keep ?fresh), written))"
    by (cases "?evicted = []") (simp_all only: appended_def Let_def if_True if_False not_True_eq_False
        not_False_eq_True prod.case add.assoc one_add_one simp_thms append_Nil append_Cons)
  have marker: "au_seq ?marker = highest_seq existing + 1" "au_eventVersion ?marker = AUDIT_EVENT_VERSION"
      "au_at ?marker = time" "au_prevDigest ?marker = ?digest"
    by (simp_all add: marker_of_def)
  show ?thesis
    by (rule exI [of _ ?fresh], rule exI [of _ ?keep], rule exI [of _ ?marker], unfold app evicts)
      (simp only: marker kept simp_thms)
qed

text \<open>An append keeps the trail a chain, as long as no record is dated after the one appended.\<close>

lemma appended_inv:
  assumes inv: "trail_inv opts existing" and late: "list_all (\<lambda>e. au_at e \<le> time) existing"
    and res: "appended opts time entries existing = (events, written)"
  shows "trail_inv opts events \<and> list_all (\<lambda>e. au_at e \<le> time) events \<and>
    length events \<le> max 2 (ao_maxEvents opts)"
proof -
  obtain fresh keep marker where
      fresh: "fresh = filter (\<lambda>e. time - ao_retentionMs opts \<le> au_at e) existing" "keep \<le> ao_maxEvents opts - 2"
    and marker: "au_seq marker = highest_seq existing + 1" "au_eventVersion marker = AUDIT_EVENT_VERSION"
        "au_at marker = time"
        "au_prevDigest marker = (case existing of [] \<Rightarrow> GENESIS_DIGEST | newest # _ \<Rightarrow> digestOf opts newest)"
    and app: "appended opts time entries existing =
       (let evicts = take keep fresh \<noteq> existing;
            written = \<lparr>au_entries = entries, au_eventVersion = AUDIT_EVENT_VERSION,
              au_seq = (if evicts then highest_seq existing + 2 else highest_seq existing + 1),
              au_prevDigest = (if evicts then digestOf opts marker else au_prevDigest marker),
              au_id = mintId time (if evicts then highest_seq existing + 2 else highest_seq existing + 1), au_at = time\<rparr>
        in (withinBytes opts (written # (if evicts then [marker] else []) @ take keep fresh), written))"
    using appended_eq [of time opts existing entries] by blast
  obtain n where "fresh = take n existing"
    using timed_filter [of existing "time - ao_retentionMs opts"] inv fresh(1) by (auto simp: trail_inv_def)
  then obtain k where k: "take keep fresh = take k existing" by auto
  have survivors: "trail_inv opts (take k existing)" "list_all (\<lambda>e. au_at e \<le> time) (take k existing)"
    using trail_inv_take [OF inv] late by (auto simp: list_all_iff dest: in_set_takeD)
  have head: "highest_seq existing = au_seq (hd existing)" if "existing \<noteq> []"
    using inv that highest_seq_chained [of opts "hd existing" "tl existing"] by (simp add: trail_inv_def)
  have link: "take k existing = [] \<or>
      (highest_seq existing = au_seq (hd (take k existing)) \<and> au_prevDigest marker = digestOf opts (hd (take k existing)))"
    using head marker(4) by (cases existing; cases k) auto
  have marked: "trail_inv opts (marker # take k existing)"
    using survivors link marker highest_seq_nonneg [of existing] by (auto simp: trail_inv_Cons AUDIT_EVENT_VERSION_def)
  have fits: "length (take k existing) \<le> ao_maxEvents opts - 2" unfolding k [symmetric] using fresh(2) by simp
  define full where "full = written # (if take k existing \<noteq> existing then [marker] else []) @ take k existing"
  have events: "events = withinBytes opts full"
    using res app unfolding k full_def by (auto simp: Let_def split del: if_split)
  have w: "au_eventVersion written = AUDIT_EVENT_VERSION" "au_at written = time"
      "au_seq written = highest_seq existing + (if take k existing \<noteq> existing then 2 else 1)"
      "au_prevDigest written = (if take k existing \<noteq> existing then digestOf opts marker else au_prevDigest marker)"
    using res app unfolding k by (auto simp: Let_def)
  have "trail_inv opts full"
    using marked survivors link w marker highest_seq_nonneg [of existing]
    by (auto simp: full_def trail_inv_Cons AUDIT_EVENT_VERSION_def)
  moreover have "list_all (\<lambda>e. au_at e \<le> time) full" using survivors w marker by (simp add: full_def)
  moreover have "length full \<le> max 2 (ao_maxEvents opts)" using fits by (auto simp: full_def)
  moreover obtain m where "withinBytes opts full = take m full" using withinBytes_take by blast
  ultimately show ?thesis
    using trail_inv_take [of opts full m] by (auto simp: events list_all_iff dest: in_set_takeD)
qed

lemma chained_snoc:
  "chained opts (xs @ [e, p]) \<longleftrightarrow>
     chained opts (xs @ [e]) \<and> au_eventVersion p \<le> AUDIT_EVENT_VERSION \<and> au_seq e = au_seq p + 1 \<and>
     au_prevDigest e = digestOf opts p"
proof (induction xs)
  case (Cons x xs)
  then show ?case by (cases xs) (auto simp: chained_Cons)
qed auto

lemma chained_last_version: "chained opts (xs @ [e]) \<Longrightarrow> au_eventVersion e \<le> AUDIT_EVENT_VERSION"
  by (cases xs rule: rev_cases) (auto simp: chained_snoc)

lemma verify_loop_chained:
  "au_eventVersion p \<le> AUDIT_EVENT_VERSION \<Longrightarrow>
   verify_loop opts (Some p) (map Some es) = None \<longleftrightarrow> chained opts (rev es @ [p])"
proof (induction es arbitrary: p)
  case (Cons e es)
  then show ?case
    using chained_snoc [of opts "rev es" e p] chained_last_version [of opts "rev es" e] by auto
qed simp

lemma verify_loop_first:
  "verify_loop opts None (map Some es) = None \<longleftrightarrow> chained opts (rev es)"
proof (cases es)
  case (Cons e es')
  show ?thesis
    using verify_loop_chained [of e opts es'] chained_last_version [of opts "rev es'" e] Cons by auto
qed simp

lemma verify_loop_verdict:
  "verify_loop opts previous vs = Some (v, n) \<Longrightarrow> v \<notin> {trail_empty, trail_ok, trail_truncated}"
  by (induction opts previous vs rule: verify_loop.induct) (auto split: if_splits option.splits)

lemma verify_accepts:
  "ir_verdict (verifyIntegrity opts (map Some es)) \<in> {trail_empty, trail_ok, trail_truncated} \<longleftrightarrow> chained opts es"
proof (cases es)
  case (Cons e es')
  have rev: "rev (map Some es) = map Some (rev es)" by (simp add: rev_map)
  have "rev es \<noteq> []" using Cons by simp
  then have hd: "hd (map Some (rev es)) = Some (hd (rev es))" by (rule hd_map)
  have first: "verify_loop opts None (map Some (rev es)) = None \<longleftrightarrow> chained opts es"
    using verify_loop_first [of opts "rev es"] by simp
  show ?thesis
  proof (cases "verify_loop opts None (map Some (rev es))")
    case None
    then show ?thesis using first Cons unfolding verifyIntegrity_def Let_def rev hd by simp
  next
    case (Some r)
    then show ?thesis
      using first Cons verify_loop_verdict [of opts None "map Some (rev es)" "fst r" "snd r"]
      unfolding verifyIntegrity_def Let_def rev by (cases r) simp
  qed
qed (simp add: verifyIntegrity_def)

subsection \<open>Any sequence of records\<close>

type_synonym audit_step = "int \<times> recordable_event \<times> (bool \<times> bool \<times> bool)"

definition step_time :: "audit_step \<Rightarrow> int" where
  "step_time step = (case step of (now, event, works) \<Rightarrow> case re_at event of None \<Rightarrow> now | Some t \<Rightarrow> t)"

fun audit_run :: "audit_options \<Rightarrow> audit_step list \<Rightarrow> audit_log \<Rightarrow> audit_log" where
  "audit_run opts [] s = s"
| "audit_run opts ((now, event, works) # steps) s = audit_run opts steps (snd (record_event opts now event works s))"

definition log_inv :: "audit_options \<Rightarrow> int \<Rightarrow> audit_log \<Rightarrow> bool" where
  "log_inv opts time s \<longleftrightarrow>
     trail_inv opts (al_events s) \<and> list_all (\<lambda>e. au_at e \<le> time) (al_events s) \<and>
     length (al_events s) \<le> max 2 (ao_maxEvents opts)"

lemma log_inv_append:
  assumes "log_inv opts (case given of None \<Rightarrow> now | Some t \<Rightarrow> t) s"
  shows "log_inv opts (case given of None \<Rightarrow> now | Some t \<Rightarrow> t) (snd (append_event opts now given entries works s))"
proof -
  obtain events written where a: "appended opts (case given of None \<Rightarrow> now | Some t \<Rightarrow> t) entries (al_events s) = (events, written)"
    by fastforce
  from appended_inv [OF _ _ a] show ?thesis
    using assms by (simp add: append_event_def a log_inv_def)
qed

lemma log_inv_compact: "log_inv opts t s \<Longrightarrow> compact opts works s = Some s' \<Longrightarrow> log_inv opts t s'"
  by (auto simp: compact_def log_inv_def trail_inv_take list_all_iff split: if_splits) (blast dest: in_set_takeD)

lemma log_inv_fields: "log_inv opts t (s\<lparr>al_degraded := d\<rparr>) = log_inv opts t s" "log_inv opts t (reportHealth st r s) = log_inv opts t s"
  by (simp_all add: log_inv_def reportHealth_def)

lemma append_event_None: "append_event opts now given entries works s = (None, s') \<Longrightarrow> s' = s"
  by (auto simp: append_event_def split: if_splits prod.splits)

lemma log_inv_record:
  assumes "log_inv opts (step_time (now, event, works)) s"
  shows "log_inv opts (step_time (now, event, works)) (snd (record_event opts now event works s))"
proof (cases "prepare opts (supplied_entries event)")
  case (Inl e)
  then show ?thesis using assms by (simp add: record_event_def log_inv_fields)
next
  case (Inr prepared)
  obtain first compacted second where w: "works = (first, compacted, second)" by (cases works)
  let ?t = "case re_at event of None \<Rightarrow> now | Some t \<Rightarrow> t"
  have t: "step_time (now, event, works) = ?t" by (simp add: step_time_def)
  note kept = log_inv_append [where given = "re_at event" and now = now and opts = opts and entries = prepared]
  obtain r1 s1 where a1: "append_event opts now (re_at event) prepared first s = (r1, s1)" by fastforce
  show ?thesis
  proof (cases r1)
    case (Some written)
    then show ?thesis using kept [where s = s and works = first] assms a1 Inr w t by (simp add: record_event_def)
  next
    case None
    then have s1: "s1 = s" using append_event_None a1 by blast
    show ?thesis
    proof (cases "compact opts compacted s")
      case (Some s2)
      have c: "log_inv opts ?t s2" using log_inv_compact Some assms t by auto
      obtain r3 s3 where a3: "append_event opts now (re_at event) prepared second s2 = (r3, s3)" by fastforce
      show ?thesis
        using kept [OF c, where works = second] c a1 a3 Some None s1 Inr w t
        by (cases r3) (simp_all add: record_event_def log_inv_fields)
    qed (use a1 s1 None assms Inr w in \<open>simp add: record_event_def log_inv_fields\<close>)
  qed
qed

lemma log_inv_later: "log_inv opts t s \<Longrightarrow> t \<le> t' \<Longrightarrow> log_inv opts t' s"
  by (auto simp: log_inv_def list_all_iff)

lemma log_inv_run:
  "sorted (map step_time steps) \<Longrightarrow> (\<And>step. step \<in> set steps \<Longrightarrow> t \<le> step_time step) \<Longrightarrow> log_inv opts t s \<Longrightarrow>
   \<exists>t'. log_inv opts t' (audit_run opts steps s)"
proof (induction opts steps s arbitrary: t rule: audit_run.induct)
  case (2 opts now event works steps s)
  let ?t = "step_time (now, event, works)"
  have "log_inv opts ?t s" using log_inv_later [OF 2(4)] 2(3) [of "(now, event, works)"] by simp
  then have "log_inv opts ?t (snd (record_event opts now event works s))" by (rule log_inv_record)
  then show ?case using 2(1) [of ?t] 2(2) by auto
qed auto

definition new_log :: audit_log where
  "new_log = \<lparr>al_events = [], al_degraded = None, al_health = []\<rparr>"

text \<open>
  C5. The trail verifies as it was written. From an empty log, after any sequence of records, refused,
  failed, compacted or written, whose times do not go back, the integrity check accepts the trail, and
  the trail holds at most \<open>maxEvents\<close> records (two at the least).
\<close>

theorem audit_trail_verifies:
  assumes "sorted (map step_time steps)"
  shows "ir_verdict (verifyIntegrity opts (map Some (al_events (audit_run opts steps new_log))))
      \<in> {trail_empty, trail_ok, trail_truncated} \<and>
    length (al_events (audit_run opts steps new_log)) \<le> max 2 (ao_maxEvents opts)"
proof -
  have first: "t \<le> step_time step" if "step \<in> set steps" "t = Min (set (map step_time steps))" for t step
    using that by simp
  have "log_inv opts (Min (set (map step_time steps))) new_log"
    by (simp add: log_inv_def new_log_def trail_inv_def timed_def)
  then obtain t' where "log_inv opts t' (audit_run opts steps new_log)"
    using log_inv_run [OF assms, of "Min (set (map step_time steps))" opts new_log] first by blast
  then show ?thesis using verify_accepts by (auto simp: log_inv_def trail_inv_def)
qed

definition sample_audit :: audit_options where
  "sample_audit =
     \<lparr>ao_maxEvents = 3, ao_maxBytes = 100000, ao_retentionMs = 100, ao_knownTool = \<lambda>_. False,
      ao_digest = \<lambda>text. text, ao_number = \<lambda>q. show_int \<lfloor>q\<rfloor>\<rparr>"

definition sample_step :: "int \<Rightarrow> audit_step" where
  "sample_step t =
     (t, \<lparr>re_at = None, re_entries = [(''type'', JStr ''data.exported''), (''outcome'', JStr ''info'')]\<rparr>, (True, True, True))"

theorem audit_trail_verifies_witness:
  "ir_verdict (verifyIntegrity sample_audit (map Some (al_events (audit_run sample_audit [sample_step 5, sample_step 7] new_log))))
     \<noteq> trail_gap"
  using audit_trail_verifies [of "[sample_step 5, sample_step 7]" sample_audit] by (simp add: sample_step_def step_time_def) auto


lemma verify_loop_append:
  "verify_loop opts previous (map Some xs) = None \<Longrightarrow> xs \<noteq> [] \<Longrightarrow>
   verify_loop opts previous (map Some xs @ ys) = verify_loop opts (Some (last xs)) ys"
proof (induction xs arbitrary: previous)
  case (Cons x xs)
  then show ?case
    by (cases "xs = []"; cases previous) (auto split: if_splits)
qed simp

lemma chained_append: "chained opts (xs @ ys) \<Longrightarrow> chained opts xs \<and> chained opts ys"
  by (induction xs) (auto simp: chained_Cons)

lemma chained_link:
  "chained opts (xs @ [x, e] @ ys) \<Longrightarrow>
   au_eventVersion x \<le> AUDIT_EVENT_VERSION \<and> au_seq x = au_seq e + 1 \<and> au_prevDigest x = digestOf opts e"
  using chained_append [of opts xs "[x, e] @ ys"] by simp

lemma chained_replace:
  "chained opts (e # ys) \<Longrightarrow> au_eventVersion e' = au_eventVersion e \<Longrightarrow> au_seq e' = au_seq e \<Longrightarrow>
   au_prevDigest e' = au_prevDigest e \<Longrightarrow> chained opts (e' # ys)"
  by (cases ys) auto

text \<open>The check of a chain whose record \<open>e\<close> was replaced by one with another digest.\<close>

lemma verify_tampered:
  assumes "chained opts (xs @ [x, e] @ ys)" and "au_eventVersion e' = au_eventVersion e" and "au_seq e' = au_seq e"
    and "au_prevDigest e' = au_prevDigest e" and "digestOf opts e' \<noteq> digestOf opts e"
  shows "verify_loop opts None (map Some (rev (xs @ [x, e'] @ ys))) = Some (trail_chain_broken, Some (au_seq x))"
proof -
  have "chained opts (e' # ys)"
    using chained_append [OF assms(1)] assms(2-4) chained_replace [of opts e ys e'] by (auto simp: chained_Cons)
  then have "verify_loop opts None (map Some (rev ys @ [e'])) = None"
    using verify_loop_first [of opts "rev ys @ [e']"] by simp
  from verify_loop_append [OF this, of "Some x # map Some (rev xs)"]
  have "verify_loop opts None (map Some (rev ys @ [e']) @ Some x # map Some (rev xs)) =
      verify_loop opts (Some e') (Some x # map Some (rev xs))"
    by simp
  moreover have "verify_loop opts (Some e') (Some x # map Some (rev xs)) = Some (trail_chain_broken, Some (au_seq x))"
    using chained_link [OF assms(1)] assms(3,5) by simp
  ultimately show ?thesis by simp
qed

text \<open>
  C6. What the check sees of a changed record, and what it does not. In a trail that verifies, a record with
  one after it cannot be replaced by one of another digest without the check reporting a broken chain at
  the record after it. The newest record can be replaced unnoticed, and so can an older one together with
  the link of its successor alone, because the digest of a record leaves out its own link.
\<close>

theorem audit_tamper_detected:
  assumes "chained opts (xs @ [x, e] @ ys)" and "au_eventVersion e' = au_eventVersion e" and "au_seq e' = au_seq e"
    and "au_prevDigest e' = au_prevDigest e" and "digestOf opts e' \<noteq> digestOf opts e"
  shows "verifyIntegrity opts (map Some (xs @ [x, e'] @ ys)) =
      \<lparr>ir_verdict = trail_chain_broken, ir_checked = length (xs @ [x, e] @ ys), ir_atSeq = Some (au_seq x)\<rparr> \<and>
    verifyIntegrity opts (map Some (e' # ys)) = verifyIntegrity opts (map Some (e # ys)) \<and>
    verifyIntegrity opts (map Some (xs @ [x\<lparr>au_prevDigest := digestOf opts e'\<rparr>, e'] @ ys)) =
      verifyIntegrity opts (map Some (xs @ [x, e] @ ys))"
proof (intro conjI)
  have rev: "rev (map Some zs) = map Some (rev zs)" for zs :: "audit_event list" by (simp add: rev_map)
  show "verifyIntegrity opts (map Some (xs @ [x, e'] @ ys)) =
      \<lparr>ir_verdict = trail_chain_broken, ir_checked = length (xs @ [x, e] @ ys), ir_atSeq = Some (au_seq x)\<rparr>"
    using verify_tampered [OF assms] unfolding verifyIntegrity_def Let_def rev by simp
  have accepted: "verifyIntegrity opts (map Some zs) = verifyIntegrity opts (map Some zs')"
    if "chained opts zs" "chained opts zs'" "zs \<noteq> []" "length zs' = length zs"
      "au_seq (last zs') = au_seq (last zs)" for zs zs'
  proof -
    have "verify_loop opts None (map Some (rev zs)) = None" "verify_loop opts None (map Some (rev zs')) = None"
      using that(1,2) verify_loop_first [of opts "rev zs"] verify_loop_first [of opts "rev zs'"] by simp_all
    moreover have "zs' \<noteq> []" using that(3,4) by auto
    ultimately show ?thesis
      using that(3-5) unfolding verifyIntegrity_def Let_def rev
      by (simp add: rev_map hd_map hd_rev)
  qed
  have "chained opts (e # ys)" using chained_append [OF assms(1)] by (simp add: chained_Cons)
  moreover from this have c': "chained opts (e' # ys)" by (rule chained_replace) (rule assms(2-4))+
  ultimately show "verifyIntegrity opts (map Some (e' # ys)) = verifyIntegrity opts (map Some (e # ys))"
    by (intro accepted) (simp_all add: assms(3))
  let ?x = "x\<lparr>au_prevDigest := digestOf opts e'\<rparr>"
  have same: "digestOf opts ?x = digestOf opts x"
    by (simp add: digestOf_def canonicalForm_def event_entries_def)
  have replaced: "chained opts (zs @ [x, e] @ ys) \<Longrightarrow> chained opts (zs @ [?x, e'] @ ys)" for zs
  proof (induction zs)
    case Nil
    then show ?case using c' assms(3) by simp
  next
    case (Cons z zs)
    then show ?case using same by (cases zs) (auto simp: chained_Cons)
  qed
  show "verifyIntegrity opts (map Some (xs @ [?x, e'] @ ys)) = verifyIntegrity opts (map Some (xs @ [x, e] @ ys))"
    by (rule accepted [OF replaced [OF assms(1)] assms(1)]) (simp_all add: assms(3) last_append)
qed

definition sample_event :: "int \<Rightarrow> string \<Rightarrow> string \<Rightarrow> audit_event" where
  "sample_event seq kind prev =
     \<lparr>au_entries = [(''type'', JStr kind)], au_eventVersion = 1, au_seq = seq, au_prevDigest = prev, au_id = ''i'', au_at = 0\<rparr>"

definition sample_tamper :: audit_options where
  "sample_tamper = sample_audit\<lparr>ao_digest := \<lambda>text. if CHR ''x'' \<in> set text then ''1'' else ''0'', ao_number := \<lambda>_. ''0''\<rparr>"

lemma set_canonicalForm:
  "c \<notin> set ''{},:'' \<Longrightarrow> c \<in> set (canonicalForm N e) \<longleftrightarrow>
     (\<exists>(key, v) \<in> set (event_entries e). key \<noteq> ''prevDigest'' \<and> v \<noteq> JUndef \<and>
        (c \<in> set (json_quote key) \<or> c \<in> set (json_text N v)))"
  by (auto simp: canonicalForm_def set_js_join sort_entries_def split: prod.splits if_splits)

lemma sample_sizes:
  "json_quote ''eventVersion'' = [CHR 0x22] @ ''eventVersion'' @ [CHR 0x22]"
  "json_quote ''seq'' = [CHR 0x22] @ ''seq'' @ [CHR 0x22]" "json_quote ''at'' = [CHR 0x22] @ ''at'' @ [CHR 0x22]"
  "json_quote ''id'' = [CHR 0x22] @ ''id'' @ [CHR 0x22]" "json_quote ''type'' = [CHR 0x22] @ ''type'' @ [CHR 0x22]"
  "json_quote ''prevDigest'' = [CHR 0x22] @ ''prevDigest'' @ [CHR 0x22]"
  "json_quote ''outcome'' = [CHR 0x22] @ ''outcome'' @ [CHR 0x22]" "json_quote ''info'' = [CHR 0x22] @ ''info'' @ [CHR 0x22]"
  "json_quote ''retention.compacted'' = [CHR 0x22] @ ''retention.compacted'' @ [CHR 0x22]"
  "json_quote ''removedCount'' = [CHR 0x22] @ ''removedCount'' @ [CHR 0x22]"
  "json_quote ''removedFromSeq'' = [CHR 0x22] @ ''removedFromSeq'' @ [CHR 0x22]"
  "json_quote ''removedToSeq'' = [CHR 0x22] @ ''removedToSeq'' @ [CHR 0x22]"
  "json_quote ''i'' = [CHR 0x22] @ ''i'' @ [CHR 0x22]" "json_quote ''a'' = [CHR 0x22] @ ''a'' @ [CHR 0x22]"
  "json_quote ''0'' = [CHR 0x22] @ ''0'' @ [CHR 0x22]" "json_quote ''1'' = [CHR 0x22] @ ''1'' @ [CHR 0x22]"
  "json_quote ''aud_5k_3'' = [CHR 0x22] @ ''aud_5k_3'' @ [CHR 0x22]" "json_quote ''aud_5k_4'' = [CHR 0x22] @ ''aud_5k_4'' @ [CHR 0x22]"
  "json_quote [] = [CHR 0x22, CHR 0x22]"
  by (rule json_quote_plain, code_simp)+ (simp add: json_quote_def)

lemma sample_digest: "digestOf sample_tamper (sample_event n [c] p) = (if c = CHR ''x'' then ''1'' else ''0'')"
  if "plain_char c" for n c p
proof -
  have "json_quote [c] = [CHR 0x22, c, CHR 0x22]" using that by (simp add: json_quote_plain)
  then show ?thesis
    by (simp add: digestOf_def sample_tamper_def sample_event_def set_canonicalForm event_entries_def sample_sizes
        number_text_def)
qed

theorem audit_tamper_detected_witness:
  "ir_verdict (verifyIntegrity sample_tamper
     [Some (sample_event 2 ''b'' ''0''), Some (sample_event 1 ''x'' [])]) = trail_chain_broken"
proof -
  have p: "plain_char CHR ''a''" "plain_char CHR ''x''" by code_simp+
  show ?thesis
    using audit_tamper_detected [of sample_tamper "[]" "sample_event 2 ''b'' ''0''" "sample_event 1 ''a'' []" "[]"
        "sample_event 1 ''x'' []"] sample_digest [OF p(1), of 1 "[]"] sample_digest [OF p(2), of 1 "[]"]
    by (simp add: sample_event_def AUDIT_EVENT_VERSION_def)
qed

text \<open>
  Retention judges age by the clock and not by position. Where a record was written while the clock was
  ahead and the next one after it was set back, an append that expires the newer of the two keeps the
  older: the trail then has a gap the check reports, although nothing was lost but by retention.
\<close>

theorem clock_step_reads_as_gap:
  assumes "chained opts [newer, ahead]" and "1 \<le> au_seq ahead" and "4 \<le> ao_maxEvents opts"
    and "au_at newer < time - ao_retentionMs opts" and "time - ao_retentionMs opts \<le> au_at ahead"
    and "appended opts time entries [newer, ahead] = (events, written)"
    and "3 \<le> length events"
  shows "ir_verdict (verifyIntegrity opts (map Some events)) = trail_gap \<and> au_seq written = au_seq ahead + 3"
proof -
  have h: "highest_seq [newer, ahead] = au_seq ahead + 1"
    using assms(1,2) by (simp add: highest_seq_def)
  obtain marker where events: "events = withinBytes opts [written, marker, ahead]"
      and marker: "au_seq marker = au_seq ahead + 2" "au_eventVersion marker = AUDIT_EVENT_VERSION"
      and w: "au_seq written = au_seq ahead + 3" "au_eventVersion written = AUDIT_EVENT_VERSION"
    using assms(3-6) h by (auto simp: appended_def Let_def keep_count_def marker_of_def)
  obtain n where "withinBytes opts [written, marker, ahead] = take n [written, marker, ahead]"
    using withinBytes_take by blast
  then have "events = [written, marker, ahead]" using events assms(7) by (cases "n < 3") auto
  then show ?thesis
    using assms(1) marker w by (simp add: verifyIntegrity_def Let_def)
qed

theorem clock_step_reads_as_gap_witness:
  "ir_verdict (verifyIntegrity (sample_tamper\<lparr>ao_maxEvents := 4, ao_digest := \<lambda>_. ''0''\<rparr>)
     (map Some (fst (appended (sample_tamper\<lparr>ao_maxEvents := 4, ao_digest := \<lambda>_. ''0''\<rparr>) 200 []
       [sample_event 2 ''b'' ''0'', (sample_event 1 ''a'' [])\<lparr>au_at := 150\<rparr>])))) = trail_gap"
proof -
  let ?opts = "sample_tamper\<lparr>ao_maxEvents := 4, ao_digest := \<lambda>_. ''0''\<rparr>"
  let ?ahead = "(sample_event 1 ''a'' [])\<lparr>au_at := 150\<rparr>"
  let ?newer = "sample_event 2 ''b'' ''0''"
  have d: "digestOf ?opts e = ''0''" for e by (simp add: digestOf_def)
  have ids: "mintId 200 3 = ''aud_5k_3''" "mintId 200 4 = ''aud_5k_4''" by code_simp+
  have three: "3 \<le> length (fst (appended ?opts 200 [] [?newer, ?ahead]))"
    by (simp add: appended_def Let_def keep_count_def marker_of_def highest_seq_def withinBytes.simps events_size_def
        event_entries_def sample_sizes number_text_def length_js_join ids sample_event_def sample_tamper_def
        sample_audit_def digestOf_def)
  have "chained ?opts [?newer, ?ahead]"
    using d unfolding chained.simps by (simp add: sample_event_def AUDIT_EVENT_VERSION_def)
  then show ?thesis
    using clock_step_reads_as_gap [of ?opts ?newer ?ahead 200 "[]", OF _ _ _ _ _ surjective_pairing three]
    by (simp add: sample_event_def sample_tamper_def sample_audit_def)
qed

subsection \<open>What is recorded\<close>

text \<open>
  What the code ensures of a field. The strings inside the two permitted lists are only bounded in width: the
  redactor is applied to strings at the top of a record and not to the items of a list, although the comment
  on \<open>dropRedactedFields\<close> makes no exception for them.
\<close>

definition field_safe :: "string \<Rightarrow> json \<Rightarrow> bool" where
  "field_safe key v \<longleftrightarrow>
     js_lower key \<notin> set PROHIBITED_FIELDS \<and> key \<notin> set OWNED_FIELDS \<and>
     (case v of
        JStr s \<Rightarrow> (s = [] \<or> redact s = s) \<and> serialisedWidth s \<le> fieldLimit key
      | JArr items \<Rightarrow>
          key \<in> set ARRAY_FIELDS \<and> length items \<le> arrayLimit key \<and>
          list_all (\<lambda>item. case item of JStr s \<Rightarrow> serialisedWidth s \<le> MAX_ARRAY_STRING | _ \<Rightarrow> False) items
      | JObj entries \<Rightarrow> False
      | _ \<Rightarrow> True)"

lemma walk_entries_None: "walk_entries entries path depth = None \<Longrightarrow> (key, v) \<in> set entries \<Longrightarrow>
    js_lower key \<notin> set PROHIBITED_FIELDS"
  by (induction entries) (auto split: if_splits option.splits)

lemma check_list_items_None:
  "check_list_items key items = None \<Longrightarrow>
   list_all (\<lambda>item. case item of JStr s \<Rightarrow> serialisedWidth s \<le> MAX_ARRAY_STRING | _ \<Rightarrow> False) items"
  by (induction key items rule: check_list_items.induct) (auto split: if_splits)

lemma check_fields_None: "check_fields entries = None \<Longrightarrow> (key, v) \<in> set entries \<Longrightarrow> check_field key v = None"
  by (induction entries rule: check_fields.induct) (auto split: option.splits)

lemma assertAuditShape_None: "assertAuditShape N event = None \<Longrightarrow> check_fields event = None"
  by (auto simp: assertAuditShape_def split: option.splits)

lemma assertAuditSafe_None: "assertAuditSafe event = None \<Longrightarrow> walk_entries event [] 1 = None"
  by (simp add: assertAuditSafe_def walkForProhibited.simps MAX_AUDIT_DEPTH_def)

lemma dropRedacted_string:
  "(key, JStr s) \<in> set (dropRedactedFields event) \<Longrightarrow> s = [] \<or> redact s = s"
  by (auto simp: dropRedactedFields_def redactValue.simps MAX_REDACTION_DEPTH_def)

lemma prepare_fields:
  assumes "prepare opts event = Inr kept"
  shows "list_all (\<lambda>(key, v). field_safe key v) kept"
proof -
  obtain supplied where s: "assertAuditSafe supplied = None" "kept = dropRedactedFields supplied"
      "assertAuditShape (ao_number opts) kept = None" and own: "\<forall>e \<in> set supplied. fst e \<notin> set OWNED_FIELDS"
  proof -
    let ?f = "filter (\<lambda>(key, _). key \<notin> set OWNED_FIELDS) event"
    obtain t where t: "json_get ?f ''type'' = JStr t"
      using assms by (auto simp: prepare_def Let_def split: json.splits)
    let ?s = "map (mask_source opts t) ?f"
    have keys: "fst (mask_source opts t e) = fst e" for e
      by (cases e) (auto simp: mask_source_def split: json.split)
    have "\<forall>e \<in> set ?s. fst e \<notin> set OWNED_FIELDS" by (auto simp: keys)
    moreover have "assertAuditSafe ?s = None" "kept = dropRedactedFields ?s" "assertAuditShape (ao_number opts) kept = None"
      using assms t by (auto simp: prepare_def Let_def split: if_splits option.splits)
    ultimately show thesis by (intro that [of ?s])
  qed
  have "field_safe key v" if e: "(key, v) \<in> set kept" for key v
  proof -
    have m: "(key, v) \<in> set supplied" using e s(2) by (simp add: dropRedactedFields_def)
    have "js_lower key \<notin> set PROHIBITED_FIELDS"
      by (rule walk_entries_None [OF assertAuditSafe_None [OF s(1)] m])
    moreover have c: "check_field key v = None"
      by (rule check_fields_None [OF assertAuditShape_None [OF s(3)] e])
    moreover have "key \<notin> set OWNED_FIELDS" using own m by auto
    moreover have "v = JStr t \<Longrightarrow> t = [] \<or> redact t = t" for t
      using dropRedacted_string e s(2) by simp
    ultimately show ?thesis
      by (cases v) (auto simp: field_safe_def check_field_def split: if_splits dest: check_list_items_None)
  qed
  then show ?thesis by (auto simp: list_all_iff)
qed

lemma record_written:
  assumes "record_event opts now event works s = (Some written, s')"
  shows "prepare opts (supplied_entries event) = Inr (au_entries written)"
proof -
  have a: "append_event opts now given entries w s1 = (Some written, s2) \<Longrightarrow> au_entries written = entries" for given entries w s1 s2
    by (auto simp: append_event_def appended_def Let_def split: if_splits prod.splits)
  obtain first compacted second where w: "works = (first, compacted, second)" by (cases works)
  obtain prepared where p: "prepare opts (supplied_entries event) = Inr prepared"
    using assms by (cases "prepare opts (supplied_entries event)") (auto simp: record_event_def)
  obtain r s1 where r: "append_event opts now (re_at event) prepared first s = (r, s1)" by fastforce
  have "au_entries written = prepared"
  proof (cases r)
    case (Some x)
    then show ?thesis using assms p w r a [of "re_at event" prepared first s s1] by (simp add: record_event_def)
  next
    case None
    then obtain s2 where c: "compact opts compacted s1 = Some s2"
      using assms p w r by (cases "compact opts compacted s1") (simp_all add: record_event_def)
    obtain r3 s3 where r3: "append_event opts now (re_at event) prepared second s2 = (r3, s3)" by fastforce
    then have "r3 = Some written"
      using assms p w r None c by (cases r3) (simp_all add: record_event_def)
    then show ?thesis using a r3 by blast
  qed
  then show ?thesis using p by simp
qed

text \<open>
  What the trail holds. Whatever a producer supplies, a record that is written has no field of a
  prohibited name or of the log's own, no nested object, no list but the two permitted ones within their
  limits, and no string of its own that the secret redactor would change or that is wider than its field
  allows; the items of a permitted list are bounded in width and otherwise as supplied.
\<close>

theorem recorded_fields_safe:
  "case fst (record_event opts now event works s) of
     None \<Rightarrow> True
   | Some written \<Rightarrow> list_all (\<lambda>(key, v). field_safe key v) (au_entries written)"
proof (cases "record_event opts now event works s")
  case (Pair r s')
  then show ?thesis
    using record_written [of opts now event works s _ s'] prepare_fields by (cases r) auto
qed

subsection \<open>Widths\<close>

text \<open>
  The types the producers give the fields: numbers that print in twenty characters, booleans in the
  boolean fields, and names that are written as they are.
\<close>

definition width_typed :: "(rat \<Rightarrow> string) \<Rightarrow> audit_entries \<Rightarrow> bool" where
  "width_typed N entries \<longleftrightarrow>
     list_all (\<lambda>(key, v). list_all plain_char key \<and>
       (case v of
          JNum (Fin q) \<Rightarrow> key \<notin> set BOOLEAN_FIELDS \<and> length (N q) \<le> 20
        | JStr s \<Rightarrow> key \<notin> set BOOLEAN_FIELDS \<and> key \<notin> set NUMERIC_FIELDS
        | _ \<Rightarrow> True)) entries"

lemma length_json_quote: "length (json_quote s) = serialisedWidth s + 2"
  by (simp add: serialisedWidth_def json_quote_def)

lemma field_widths_least: "5 \<le> fieldValueWidth key" "key \<notin> set BOOLEAN_FIELDS \<Longrightarrow> 20 \<le> fieldValueWidth key"
  by (auto simp: fieldValueWidth_def Let_def fieldLimit_def arrayLimit_def width_constants)

lemma list_width:
  "check_list_items key items = None \<Longrightarrow>
   sum_list (map length (json_items N items)) \<le> length items * (MAX_ARRAY_STRING + 2) \<and>
   length (json_items N items) = length items"
  by (induction key items rule: check_list_items.induct) (auto simp: length_json_quote split: if_splits)

lemma value_width:
  assumes "check_field key v = None" and "v \<noteq> JUndef"
    and "case v of JNum (Fin q) \<Rightarrow> key \<notin> set BOOLEAN_FIELDS \<and> length (N q) \<le> 20
      | JStr s \<Rightarrow> key \<notin> set BOOLEAN_FIELDS \<and> key \<notin> set NUMERIC_FIELDS | _ \<Rightarrow> True"
  shows "length (json_text N v) \<le> fieldValueWidth key"
proof (cases v)
  case (JNum n)
  then show ?thesis
    using assms(3) field_widths_least [of key] by (cases n) (auto simp: number_text_def)
next
  case (JStr s)
  then have "length (json_text N v) \<le> fieldLimit key + 2"
    using assms(1) by (simp add: check_field_def length_json_quote split: if_splits)
  moreover have "fieldLimit key + 2 \<le> fieldValueWidth key"
    using assms(3) JStr
    by (auto simp: fieldValueWidth_def Let_def fieldLimit_def arrayLimit_def width_constants ARRAY_FIELDS_def OPAQUE_ID_FIELDS_def)
  ultimately show ?thesis by simp
next
  case (JArr items)
  then have h: "key \<in> set ARRAY_FIELDS" "length items \<le> arrayLimit key" "check_list_items key items = None"
    using assms(1) by (auto simp: check_field_def split: if_splits)
  have "length (json_text N v) = 2 + sum_list (map length (json_items N items)) + (length items - 1)"
    using JArr list_width [OF h(3), of N] by (simp add: length_js_join)
  also have "\<dots> \<le> 2 + length items * (MAX_ARRAY_STRING + 2) + (length items - 1)"
    using list_width [OF h(3), of N] by simp
  also have "\<dots> \<le> 2 + arrayLimit key * (MAX_ARRAY_STRING + 2) + (arrayLimit key - 1)"
    using h(2) by (intro add_mono mult_right_mono) simp_all
  finally show ?thesis using h(1) by (simp add: fieldValueWidth_def Let_def)
qed (use assms field_widths_least [of key] in \<open>auto simp: check_field_def\<close>)

definition entries_width :: "(rat \<Rightarrow> string) \<Rightarrow> audit_entries \<Rightarrow> nat" where
  "entries_width N entries = sum_list (map (\<lambda>t. length t + 1) (json_entries N entries))"

lemma entries_width_Cons:
  assumes "check_field key v = None" and "width_typed N ((key, v) # entries)" and "key \<noteq> ''type''"
  shows "entries_width N ((key, v) # entries) \<le> 1 + length key + 3 + fieldValueWidth key + entries_width N entries"
proof (cases "v = JUndef")
  case False
  have "length (json_text N v) \<le> fieldValueWidth key"
    using assms False by (intro value_width) (simp_all add: width_typed_def)
  then show ?thesis
    using assms(2) False by (simp add: entries_width_def width_typed_def json_quote_plain)
qed (simp add: entries_width_def)

lemma entries_width_plain:
  "check_fields entries = None \<Longrightarrow> width_typed N entries \<Longrightarrow> ''type'' \<notin> fst ` set entries \<Longrightarrow>
   entries_width N entries \<le> field_widths (map fst entries)"
proof (induction entries)
  case (Cons e entries)
  obtain key v where e: "e = (key, v)" by (cases e)
  have "entries_width N entries \<le> field_widths (map fst entries)"
    using Cons e by (auto simp: width_typed_def split: option.splits)
  moreover have "check_field key v = None" using Cons.prems(1) e by (auto split: option.splits)
  moreover have "key \<noteq> ''type''" using Cons.prems(3) e by auto
  ultimately show ?case
    using entries_width_Cons [of key v N entries] Cons.prems e by simp
qed (simp add: entries_width_def)

lemma type_width: "t \<in> set AUDIT_EVENT_TYPES \<Longrightarrow> length (json_quote t) \<le> 34"
proof -
  have "list_all (\<lambda>t. list_all plain_char t \<and> length t \<le> 32) AUDIT_EVENT_TYPES" by code_simp
  then show "t \<in> set AUDIT_EVENT_TYPES \<Longrightarrow> length (json_quote t) \<le> 34"
    by (auto simp: list_all_iff json_quote_plain)
qed

lemma entries_width_typed:
  "check_fields entries = None \<Longrightarrow> width_typed N entries \<Longrightarrow> distinct (map fst entries) \<Longrightarrow>
   json_get entries ''type'' = JStr t \<Longrightarrow> t \<in> set AUDIT_EVENT_TYPES \<Longrightarrow>
   entries_width N entries \<le> field_widths (map fst entries) + 42"
proof (induction entries)
  case (Cons e entries)
  obtain key v where e: "e = (key, v)" by (cases e)
  have ok: "check_field key v = None" "check_fields entries = None" "width_typed N entries"
    using Cons.prems(1,2) e by (auto simp: width_typed_def split: option.splits)
  show ?case
  proof (cases "key = ''type''")
    case True
    then have "v = JStr t" using Cons.prems(4) e by (simp add: json_get_def)
    moreover have "json_quote ''type'' = [CHR 0x22] @ ''type'' @ [CHR 0x22]" by (rule sample_sizes)
    ultimately have "entries_width N (e # entries) \<le> 42 + entries_width N entries"
      using True e type_width [OF Cons.prems(5)] by (simp add: entries_width_def)
    moreover have "entries_width N entries \<le> field_widths (map fst entries)"
      using entries_width_plain [OF ok(2,3)] Cons.prems(3) True e by simp
    ultimately show ?thesis using True e by simp
  next
    case False
    then have "json_get entries ''type'' = JStr t" using Cons.prems(4) e by (simp add: json_get_def)
    then have "entries_width N entries \<le> field_widths (map fst entries) + 42"
      using Cons ok by simp
    then show ?thesis
      using entries_width_Cons [OF ok(1), of N entries] Cons.prems(2) False e by simp
  qed
qed (simp add: json_get_def)

text \<open>
  C9. The widths of the fields bound the width of the record. A record of a known type whose fields pass the
  shape check, each field once and of the type its producers give it, serialises within the width
  \<open>recordWidth\<close> computes from the names of its fields alone.
\<close>

theorem record_within_width:
  assumes "assertAuditShape N entries = None" and "width_typed N entries" and "distinct (map fst entries)"
    and "json_get entries ''type'' = JStr t" and "t \<in> set AUDIT_EVENT_TYPES"
  shows "length (json_text N (JObj entries)) \<le> recordWidth (map fst entries)"
proof -
  have "entries_width N entries \<le> field_widths (map fst entries) + 42"
    using entries_width_typed [OF assertAuditShape_None [OF assms(1)] assms(2-5)] .
  moreover have "length (js_join '','' ts) \<le> sum_list (map (\<lambda>t. length t + 1) ts)" for ts
    by (simp add: length_js_join sum_list_Suc)
  ultimately have "length (js_join '','' (json_entries N entries)) \<le> field_widths (map fst entries) + 42"
    unfolding entries_width_def by (rule order_trans [rotated])
  then show ?thesis by (simp add: recordWidth_def)
qed

theorem record_within_width_witness:
  "length (json_text (\<lambda>_. ''0'') (JObj [(''type'', JStr ''data.exported''), (''recordCount'', JNum (Fin 3))])) \<le> 700"
proof -
  let ?es = "[(''type'', JStr ''data.exported''), (''recordCount'', JNum (Fin 3))]"
  have plain: "list_all plain_char ''type''" "list_all plain_char ''data.exported''" "list_all plain_char ''recordCount''"
    by code_simp+
  have q: "json_quote ''data.exported'' = [CHR 0x22] @ ''data.exported'' @ [CHR 0x22]" "json_quote ''type'' = [CHR 0x22] @ ''type'' @ [CHR 0x22]"
      "json_quote ''recordCount'' = [CHR 0x22] @ ''recordCount'' @ [CHR 0x22]"
    by (rule json_quote_plain, rule plain)+
  have "assertAuditShape (\<lambda>_. ''0'') ?es = None"
    by (simp add: assertAuditShape_def check_field_def serialisedWidth_def q fieldLimit_def OPAQUE_ID_FIELDS_def width_constants
        MAX_EVENT_BYTES_def number_text_def)
  moreover have "width_typed (\<lambda>_. ''0'') ?es"
    by (simp add: width_typed_def BOOLEAN_FIELDS_def NUMERIC_FIELDS_def plain_char_def char_code_def)
  moreover have "''data.exported'' \<in> set AUDIT_EVENT_TYPES" by (simp add: AUDIT_EVENT_TYPES_def)
  ultimately have "length (json_text (\<lambda>_. ''0'') (JObj ?es)) \<le> recordWidth (map fst ?es)"
    using record_within_width [of "\<lambda>_. ''0''" ?es "''data.exported''"] by (simp add: json_get_def)
  moreover have "recordWidth (map fst ?es) \<le> 700" by code_simp
  ultimately show ?thesis by linarith
qed

end
