(* ===== verification/Calendar.thy ===== *)
theory Calendar
  imports Prelude
begin

text \<open>
  The calendar arithmetic of the ECMAScript \<open>Date\<close>, as far as the schedules use it: the proleptic
  Gregorian calendar on day numbers (day 0 is 1 January 1970), \<open>new Date(y, m, d, h, mi)\<close> and the local
  getters. Times are whole milliseconds within the range of \<open>Date\<close> (about 270 thousand years around
  1970), beyond which \<open>Date\<close> is invalid. The time zone is the host's: a map from instants to local time
  values and one backward, which resolves wall-clock times that exist twice or not at all.
\<close>

subsection \<open>Years\<close>

definition leap_year :: "int \<Rightarrow> bool" where
  "leap_year y = (y mod 4 = 0 \<and> y mod 100 \<noteq> 0 \<or> y mod 400 = 0)"

definition days_in_year :: "int \<Rightarrow> int" where
  "days_in_year y = (if leap_year y then 366 else 365)"

definition day_from_year :: "int \<Rightarrow> int" where
  "day_from_year y = 365 * (y - 1970) + (y - 1969) div 4 - (y - 1901) div 100 + (y - 1601) div 400"

text \<open>The year of a day: an estimate from the mean length of a year, corrected by at most one.\<close>

definition year_from_day :: "int \<Rightarrow> int" where
  "year_from_day d =
     (let y = (400 * (d + 719528)) div 146097
      in if d < day_from_year y then y - 1 else if day_from_year (y + 1) \<le> d then y + 1 else y)"

lemma div_succ:
  fixes z n :: int
  assumes "0 < n"
  shows "(z + 1) div n = z div n + (if (z + 1) mod n = 0 then 1 else 0)"
proof -
  have z: "z = n * (z div n) + z mod n" by simp
  have r: "0 \<le> z mod n" "z mod n < n" using assms by simp_all
  show ?thesis
  proof (cases "z mod n = n - 1")
    case True
    then have next_multiple: "z + 1 = n * (z div n + 1)" using z unfolding distrib_left by linarith
    show ?thesis unfolding next_multiple using assms by simp
  next
    case False
    then have "0 \<le> z mod n + 1" "z mod n + 1 < n" using r by simp_all
    then have "(z + 1) div n = z div n" "(z + 1) mod n = z mod n + 1"
      using z int_div_pos_eq [of "z + 1" n "z div n" "z mod n + 1"] int_mod_pos_eq [of "z + 1" n "z div n" "z mod n + 1"]
      by simp_all
    then show ?thesis using r by simp
  qed
qed

lemma leap_arith:
  assumes "p400 \<Longrightarrow> p100" and "p100 \<Longrightarrow> p4"
  shows "k + 365 + (a + (if p4 then 1 else 0)) - (b + (if p100 then 1 else 0)) + (c + (if p400 then 1 else 0)) =
    k + a - b + c + (if p4 \<and> \<not> p100 \<or> p400 then 366 else (365 :: int))"
  using assms by (cases p4; cases p100; cases p400) simp_all

lemma day_from_year_step: "day_from_year (y + 1) = day_from_year y + days_in_year y"
proof -
  have c4: "(y - 1969 + 1) div 4 = (y - 1969) div 4 + (if y mod 4 = 0 then 1 else 0)"
    using div_succ [of 4 "y - 1969"] mod_mult_self1 [of y "-492" 4] by simp
  have c100: "(y - 1901 + 1) div 100 = (y - 1901) div 100 + (if y mod 100 = 0 then 1 else 0)"
    using div_succ [of 100 "y - 1901"] mod_mult_self1 [of y "-19" 100] by simp
  have c400: "(y - 1601 + 1) div 400 = (y - 1601) div 400 + (if y mod 400 = 0 then 1 else 0)"
    using div_succ [of 400 "y - 1601"] mod_mult_self1 [of y "-4" 400] by simp
  have sub: "y mod 100 = 0" if "y mod 400 = 0"
    using mod_mod_cancel [of 100 400 y] that by simp
  have sub4: "y mod 4 = 0" if "y mod 100 = 0"
    using mod_mod_cancel [of 4 100 y] that by simp
  have "y + 1 - 1970 = y - 1970 + 1" "y + 1 - 1969 = y - 1969 + 1" "y + 1 - 1901 = y - 1901 + 1" "y + 1 - 1601 = y - 1601 + 1"
    by simp_all
  then have "day_from_year (y + 1) = 365 * (y - 1970) + 365 + ((y - 1969) div 4 + (if y mod 4 = 0 then 1 else 0))
      - ((y - 1901) div 100 + (if y mod 100 = 0 then 1 else 0)) + ((y - 1601) div 400 + (if y mod 400 = 0 then 1 else 0))"
    unfolding day_from_year_def c4 c100 c400 distrib_left by (simp only: mult_1_right c4 c100 c400 distrib_left)
  then show ?thesis
    unfolding day_from_year_def [of y] days_in_year_def leap_year_def by (simp only: leap_arith [OF sub sub4])
qed

lemma days_in_year_pos: "365 \<le> days_in_year y" "days_in_year y \<le> 366"
  by (simp_all add: days_in_year_def)

lemma day_from_year_mono: "y \<le> y' \<Longrightarrow> day_from_year y + 365 * (y' - y) \<le> day_from_year y'"
proof (induction y' rule: int_ge_induct)
  case base
  then show ?case by simp
next
  case (step i)
  then show ?case using day_from_year_step [of i] days_in_year_pos [of i] by (simp add: algebra_simps)
qed

lemma div_bounds:
  fixes z n :: int
  assumes "0 < n"
  shows "n * (z div n) \<le> z" "z < n * (z div n) + n"
proof -
  have "n * (z div n) + z mod n = z" by (rule mult_div_mod_eq)
  moreover have "0 \<le> z mod n" "z mod n < n" using assms by (rule pos_mod_sign, rule pos_mod_bound)
  ultimately show "n * (z div n) \<le> z" "z < n * (z div n) + n" by linarith+
qed

lemma day_from_year_estimate:
  "146097 * y - 400 * 719528 - 800 \<le> 400 * day_from_year y" "400 * day_from_year y \<le> 146097 * y - 400 * 719528 + 800"
proof -
  define a b c where "a = (y - 1969) div 4" and "b = (y - 1901) div 100" and "c = (y - 1601) div 400"
  have "4 * a \<le> y - 1969" "y - 1969 < 4 * a + 4" "100 * b \<le> y - 1901" "y - 1901 < 100 * b + 100"
    "400 * c \<le> y - 1601" "y - 1601 < 400 * c + 400"
    unfolding a_def b_def c_def by (rule div_bounds, simp)+
  note bounds = this
  have day: "day_from_year y = 365 * (y - 1970) + a - b + c" by (simp add: day_from_year_def a_def b_def c_def)
  show "146097 * y - 400 * 719528 - 800 \<le> 400 * day_from_year y" unfolding day using bounds by (simp add: algebra_simps)
  show "400 * day_from_year y \<le> 146097 * y - 400 * 719528 + 800" unfolding day using bounds by (simp add: algebra_simps)
qed

lemma year_from_day_bounds: "day_from_year (year_from_day d) \<le> d" "d < day_from_year (year_from_day d + 1)"
proof -
  define y where "y = (400 * (d + 719528)) div 146097"
  have y: "146097 * y \<le> 400 * (d + 719528)" "400 * (d + 719528) < 146097 * y + 146097"
    unfolding y_def by (simp_all add: div_mult2_eq minus_mod_eq_div_mult [symmetric])
  have "day_from_year (y - 1) \<le> d" "d < day_from_year (y + 1 + 1)"
    using day_from_year_estimate [of "y - 1"] day_from_year_estimate [of "y + 2"] y
    by (simp_all add: algebra_simps)
  then show "day_from_year (year_from_day d) \<le> d" "d < day_from_year (year_from_day d + 1)"
    unfolding year_from_day_def Let_def y_def [symmetric] by auto
qed

lemma year_from_day_unique:
  assumes "day_from_year y \<le> d" and "d < day_from_year (y + 1)"
  shows "year_from_day d = y"
proof -
  have "\<not> y < year_from_day d"
    using assms day_from_year_mono [of "y + 1" "year_from_day d"] year_from_day_bounds [of d] by fastforce
  moreover have "\<not> year_from_day d < y"
    using assms day_from_year_mono [of "year_from_day d + 1" y] year_from_day_bounds [of d] by fastforce
  ultimately show ?thesis by simp
qed

subsection \<open>Months and days\<close>

text \<open>Months are numbered from 0, as \<open>Date\<close> numbers them; days of a month from 1.\<close>

definition month_length :: "bool \<Rightarrow> nat \<Rightarrow> int" where
  "month_length leap m = (if leap \<and> m = 1 then 29 else [31, 28, 31, 30, 31, 30, 31, 31, 30, 31, 30, 31] ! m)"

definition month_start :: "bool \<Rightarrow> nat \<Rightarrow> int" where
  "month_start leap m =
     [0, 31, 59, 90, 120, 151, 181, 212, 243, 273, 304, 334] ! m + (if leap \<and> 2 \<le> m then 1 else 0)"

definition month_of_yday :: "bool \<Rightarrow> int \<Rightarrow> nat" where
  "month_of_yday leap n = length (filter (\<lambda>m. month_start leap m \<le> n) [1 ..< 12])"

definition month_from_day :: "int \<Rightarrow> nat" where
  "month_from_day d =
     (let y = year_from_day d in month_of_yday (leap_year y) (d - day_from_year y))"

definition date_from_day :: "int \<Rightarrow> int" where
  "date_from_day d =
     (let y = year_from_day d; n = d - day_from_year y
      in n - month_start (leap_year y) (month_of_yday (leap_year y) n) + 1)"

definition week_day :: "int \<Rightarrow> int" where
  "week_day d = (d + 4) mod 7"

text \<open>\<open>MakeDay\<close>: the month is normalised into the year, the date counts on from the first of the month.\<close>

definition make_day :: "int \<Rightarrow> int \<Rightarrow> int \<Rightarrow> int" where
  "make_day y m date =
     (let ym = y + m div 12
      in day_from_year ym + month_start (leap_year ym) (nat (m mod 12)) + date - 1)"

lemmas month_tables = month_length_def month_start_def

lemma months_below_12: "m < 12 \<longleftrightarrow> m \<in> {0, 1, 2, 3, 4, 5, 6, 7, 8, 9, 10, 11}" for m :: nat
  by (simp only: insert_iff empty_iff) presburger

lemma ex_months: "(\<exists>m < 12. P m) \<longleftrightarrow>
    P 0 \<or> P 1 \<or> P 2 \<or> P 3 \<or> P 4 \<or> P 5 \<or> P 6 \<or> P 7 \<or> P 8 \<or> P 9 \<or> P 10 \<or> P (11 :: nat)"
  unfolding months_below_12 by blast

lemma upto_12: "[1 ..< 12] = [1, 2, 3, 4, 5, 6, 7, 8, 9, 10, 11 :: nat]"
  by (simp add: upt_rec)

lemma month_of_yday_start:
  assumes "m < 12" and "month_start leap m \<le> n" and "n < month_start leap m + month_length leap m"
  shows "month_of_yday leap n = m"
  using assms unfolding months_below_12 month_of_yday_def upto_12
  by (cases leap) (auto simp: month_tables)

lemma month_of_yday_range:
  assumes "0 \<le> n" and "n < (if leap then 366 else 365)"
  shows "month_of_yday leap n < 12"
    and "month_start leap (month_of_yday leap n) \<le> n"
    and "n < month_start leap (month_of_yday leap n) + month_length leap (month_of_yday leap n)"
proof -
  have "\<exists>m < 12. month_start leap m \<le> n \<and> n < month_start leap m + month_length leap m"
    unfolding ex_months using assms by (cases leap) (simp_all add: month_tables, linarith+)
  then obtain m where "m < 12" "month_start leap m \<le> n" "n < month_start leap m + month_length leap m" by blast
  then show "month_of_yday leap n < 12"
    and "month_start leap (month_of_yday leap n) \<le> n"
    and "n < month_start leap (month_of_yday leap n) + month_length leap (month_of_yday leap n)"
    using month_of_yday_start [of m leap n] by simp_all
qed

text \<open>The fields of a day determine it, and \<open>make_day\<close> finds the day of valid fields.\<close>

lemma make_day_fields:
  assumes "0 \<le> m" "m < 12" and "1 \<le> date" "date \<le> month_length (leap_year y) (nat m)"
  shows "year_from_day (make_day y m date) = y"
    and "month_from_day (make_day y m date) = nat m"
    and "date_from_day (make_day y m date) = date"
proof -
  let ?n = "month_start (leap_year y) (nat m) + date - 1"
  have day: "make_day y m date = day_from_year y + ?n"
    using assms by (simp add: make_day_def)
  have "nat m < 12" using assms by simp
  then have "0 \<le> month_start (leap_year y) (nat m)"
    and "month_start (leap_year y) (nat m) + month_length (leap_year y) (nat m) \<le> days_in_year y"
    unfolding months_below_12 days_in_year_def by (auto simp: month_tables)
  then have year: "year_from_day (day_from_year y + ?n) = y"
    using assms day_from_year_step [of y] by (intro year_from_day_unique) linarith+
  have month: "month_of_yday (leap_year y) ?n = nat m"
    using assms by (intro month_of_yday_start) simp_all
  show "year_from_day (make_day y m date) = y" by (simp add: day year)
  show "month_from_day (make_day y m date) = nat m" by (simp add: day year month month_from_day_def)
  show "date_from_day (make_day y m date) = date" by (simp add: day year month date_from_day_def)
qed

lemma day_fields:
  fixes d :: int
  defines "y \<equiv> year_from_day d" and "m \<equiv> month_from_day d" and "date \<equiv> date_from_day d"
  shows "m < 12" and "1 \<le> date" and "date \<le> month_length (leap_year y) m" and "make_day y (int m) date = d"
proof -
  let ?n = "d - day_from_year y"
  have range: "0 \<le> ?n" "?n < (if leap_year y then 366 else 365)"
    using year_from_day_bounds [of d] day_from_year_step [of y] unfolding y_def days_in_year_def by auto
  note month = month_of_yday_range [OF range]
  have m: "m = month_of_yday (leap_year y) ?n" by (simp add: m_def month_from_day_def y_def Let_def)
  have date: "date = ?n - month_start (leap_year y) m + 1" by (simp add: date_def date_from_day_def m y_def Let_def)
  show "m < 12" "1 \<le> date" "date \<le> month_length (leap_year y) m" using month by (simp_all add: date m [symmetric])
  then show "make_day y (int m) date = d" by (simp add: make_day_def date)
qed

lemma month_length_pos: "m < 12 \<Longrightarrow> 28 \<le> month_length leap m" "m < 12 \<Longrightarrow> month_length leap m \<le> 31"
  unfolding months_below_12 by (auto simp: month_tables)

text \<open>Day 0 of a month is the last day of the month before.\<close>

lemma make_day_zero:
  assumes "0 \<le> m" "m < 12"
  shows "make_day y (m + 1) 0 = make_day y m (month_length (leap_year y) (nat m))"
proof (cases "m = 11")
  case True
  then show ?thesis
    using day_from_year_step [of y] by (auto simp: make_day_def month_tables days_in_year_def)
next
  case False
  then have "nat (m + 1) = Suc (nat m)" "m + 1 < 12" "nat m < 11" using assms by auto
  moreover have "month_start leap (Suc k) = month_start leap k + month_length leap k" if "k < 11" for k leap
  proof -
    have "k \<in> {0, 1, 2, 3, 4, 5, 6, 7, 8, 9, 10}" using that by (simp only: insert_iff empty_iff) presburger
    then show ?thesis by (auto simp: month_tables)
  qed
  ultimately show ?thesis using assms by (simp add: make_day_def)
qed

text \<open>Months pass in order: the months counted from year 0.\<close>

definition month_index :: "int \<Rightarrow> int" where
  "month_index d = 12 * year_from_day d + int (month_from_day d)"

lemma make_day_norm: "make_day y (m + 12 * k) date = make_day (y + k) m date"
  by (simp add: make_day_def Let_def add.assoc)

lemma year_from_day_mono: "d \<le> d' \<Longrightarrow> year_from_day d \<le> year_from_day d'"
proof (rule ccontr)
  assume "d \<le> d'" and "\<not> year_from_day d \<le> year_from_day d'"
  then show False
    using day_from_year_mono [of "year_from_day d' + 1" "year_from_day d"]
      year_from_day_bounds [of d] year_from_day_bounds [of d'] by simp
qed

lemma month_start_mono:
  assumes "m < m'" and "m' < 12"
  shows "month_start leap m + month_length leap m \<le> month_start leap m'"
proof -
  have "m < 12" using assms by simp
  then show ?thesis
    using assms unfolding months_below_12 by (cases leap) (auto simp: month_tables)
qed

lemma month_index_mono: "d \<le> d' \<Longrightarrow> month_index d \<le> month_index d'"
proof -
  assume le: "d \<le> d'"
  have months: "month_from_day d < 12" "month_from_day d' < 12" by (rule day_fields)+
  consider "year_from_day d < year_from_day d'" | "year_from_day d = year_from_day d'"
    using year_from_day_mono [OF le] by linarith
  then show ?thesis
  proof cases
    case 1
    then show ?thesis using months by (simp add: month_index_def)
  next
    case 2
    have "\<not> month_from_day d' < month_from_day d"
    proof
      assume less: "month_from_day d' < month_from_day d"
      let ?s = "month_start (leap_year (year_from_day d))"
      have "d = day_from_year (year_from_day d) + ?s (month_from_day d) + date_from_day d - 1"
        and "d' = day_from_year (year_from_day d) + ?s (month_from_day d') + date_from_day d' - 1"
        using day_fields(4) [of d] day_fields(4) [of d'] months 2 by (simp_all add: make_day_def Let_def)
      then show False
        using month_start_mono [OF less months(1), of "leap_year (year_from_day d)"] le 2
          day_fields(2) [of d] day_fields(3) [of d'] by simp
    qed
    then show ?thesis using 2 by (simp add: month_index_def)
  qed
qed

lemma month_index_make:
  assumes "0 \<le> m" "m < 12" and "1 \<le> date" "date \<le> month_length (leap_year y) (nat m)"
  shows "month_index (make_day y m date) = 12 * y + m"
  using make_day_fields [OF assms] assms by (simp add: month_index_def)

subsection \<open>Local time\<close>

record time_zone =
  zn_local :: "int \<Rightarrow> int"
  zn_utc :: "int \<Rightarrow> int"

definition ms_per_day :: int where
  "ms_per_day = 24 * 60 * 60 * 1000"

definition local_day :: "time_zone \<Rightarrow> int \<Rightarrow> int" where
  "local_day z t = zn_local z t div ms_per_day"

text \<open>
  \<open>new Date(y, m, date, hour, minute, 0, 0)\<close>; two-digit years count from 1900. The language's dates end
  8.64e15 ms either side of 1970, in the years -271821 and 275760; the model has no such end and describes the
  code for the instants inside it.
\<close>

definition new_date :: "time_zone \<Rightarrow> int \<Rightarrow> int \<Rightarrow> int \<Rightarrow> int \<Rightarrow> int \<Rightarrow> int" where
  "new_date z y m date hour minute =
     (let y = (if 0 \<le> y \<and> y \<le> 99 then 1900 + y else y)
      in zn_utc z (make_day y m date * ms_per_day + (hour * 3600000 + minute * 60000)))"

definition getFullYear :: "time_zone \<Rightarrow> int \<Rightarrow> int" where
  "getFullYear z t = year_from_day (local_day z t)"

definition getMonth :: "time_zone \<Rightarrow> int \<Rightarrow> int" where
  "getMonth z t = int (month_from_day (local_day z t))"

definition getDate :: "time_zone \<Rightarrow> int \<Rightarrow> int" where
  "getDate z t = date_from_day (local_day z t)"

definition getDay :: "time_zone \<Rightarrow> int \<Rightarrow> int" where
  "getDay z t = week_day (local_day z t)"

text \<open>
  What the schedules rely on of a time zone: local days pass in order, and a wall-clock time of a day
  resolves to an instant of that day. A zone breaks it only where a shift of its clock crosses midnight.
\<close>

locale day_zone =
  fixes z :: time_zone
  assumes days_in_order: "t \<le> t' \<Longrightarrow> local_day z t \<le> local_day z t'"
    and on_its_day: "0 \<le> x \<Longrightarrow> x < ms_per_day \<Longrightarrow> local_day z (zn_utc z (d * ms_per_day + x)) = d"
begin

lemma later_day: "0 \<le> x \<Longrightarrow> x < ms_per_day \<Longrightarrow> local_day z t < d \<Longrightarrow> t < zn_utc z (d * ms_per_day + x)"
  using days_in_order [of "zn_utc z (d * ms_per_day + x)" t] on_its_day [of x d] by fastforce

lemma earlier_day: "0 \<le> x \<Longrightarrow> x < ms_per_day \<Longrightarrow> d < local_day z t \<Longrightarrow> zn_utc z (d * ms_per_day + x) < t"
  using days_in_order [of t "zn_utc z (d * ms_per_day + x)"] on_its_day [of x d] by fastforce

lemma increasing:
  "0 \<le> x \<Longrightarrow> x < ms_per_day \<Longrightarrow> d < d' \<Longrightarrow> zn_utc z (d * ms_per_day + x) < zn_utc z (d' * ms_per_day + x)"
  using later_day [of x "zn_utc z (d * ms_per_day + x)" d'] on_its_day [of x d] by simp

lemma increasing_le:
  "0 \<le> x \<Longrightarrow> x < ms_per_day \<Longrightarrow> zn_utc z (d * ms_per_day + x) \<le> zn_utc z (d' * ms_per_day + x) \<longleftrightarrow> d \<le> d'"
  using increasing [of x d d'] increasing [of x d' d] by (cases d d' rule: linorder_cases) auto

lemma day_order: "local_day z t < local_day z t' \<Longrightarrow> t < t'"
  using days_in_order [of t' t] by fastforce

end

text \<open>A zone at a fixed offset, and one whose offset changes once, at the instant \<open>T\<close>, by daylight saving.\<close>

definition fixed_zone :: "int \<Rightarrow> time_zone" where
  "fixed_zone offset = \<lparr>zn_local = (\<lambda>t. t + offset), zn_utc = (\<lambda>l. l - offset)\<rparr>"

definition shift_zone :: "int \<Rightarrow> int \<Rightarrow> int \<Rightarrow> time_zone" where
  "shift_zone T before after =
     \<lparr>zn_local = (\<lambda>t. t + (if t < T then before else after)),
      zn_utc = (\<lambda>l. if l - before < T \<or> l - after < T then l - before else l - after)\<rparr>"

interpretation fixed: day_zone "fixed_zone offset" for offset
  by unfold_locales (simp_all add: fixed_zone_def local_day_def ms_per_day_def zdiv_mono1)

lemma div_between: "a \<le> x \<Longrightarrow> x \<le> b \<Longrightarrow> a div n = b div n \<Longrightarrow> 0 < n \<Longrightarrow> x div n = a div n" for a b x n :: int
  using zdiv_mono1 [of a x n] zdiv_mono1 [of x b n] by simp

lemma shift_zone_days:
  assumes forward: "before \<le> after \<Longrightarrow> (T + before) div ms_per_day = (T + 2 * after - before) div ms_per_day"
    and backward: "after < before \<Longrightarrow> (T + after) div ms_per_day = (T + before) div ms_per_day"
  shows "day_zone (shift_zone T before after)"
proof
  have pos: "0 < ms_per_day" by (simp add: ms_per_day_def)
  fix t t' :: int
  assume le: "t \<le> t'"
  show "local_day (shift_zone T before after) t \<le> local_day (shift_zone T before after) t'"
  proof (cases "t < T \<and> T \<le> t' \<and> after < before")
    case True
    then have "(t + before) div ms_per_day \<le> (T + before) div ms_per_day" "(T + after) div ms_per_day \<le> (t' + after) div ms_per_day"
      using pos by (simp_all add: zdiv_mono1)
    then show ?thesis using True backward by (simp add: shift_zone_def local_day_def)
  next
    case False
    then show ?thesis using le pos by (auto simp: shift_zone_def local_day_def intro!: zdiv_mono1)
  qed
next
  have pos: "0 < ms_per_day" by (simp add: ms_per_day_def)
  fix x d :: int
  assume x: "0 \<le> x" "x < ms_per_day"
  let ?l = "d * ms_per_day + x"
  have day: "?l div ms_per_day = d" using x pos by simp
  show "local_day (shift_zone T before after) (zn_utc (shift_zone T before after) ?l) = d"
  proof (cases "?l - before < T \<or> T \<le> ?l - after")
    case True
    then show ?thesis using day by (auto simp: shift_zone_def local_day_def)
  next
    case False
    then have gap: "T + before \<le> ?l" "?l < T + after" by simp_all
    then have same: "(T + before) div ms_per_day = (T + 2 * after - before) div ms_per_day" using forward by simp
    have "?l div ms_per_day = (T + before) div ms_per_day" using gap by (intro div_between [OF _ _ same pos]) simp_all
    moreover have "(?l - before + after) div ms_per_day = (T + before) div ms_per_day"
      using gap by (intro div_between [OF _ _ same pos]) simp_all
    ultimately show ?thesis using day gap by (simp add: shift_zone_def local_day_def)
  qed
qed

text \<open>Berlin around the clock change of 31 March 2024, 01:00 UTC.\<close>

definition berlin_2024 :: time_zone where
  "berlin_2024 = shift_zone 1711846800000 3600000 7200000"

interpretation berlin: day_zone berlin_2024
  unfolding berlin_2024_def by (rule shift_zone_days) (simp_all add: ms_per_day_def)

end
