(* ===== verification/ScheduleModel.thy ===== *)
theory ScheduleModel
  imports Calendar WorkerPolicy
begin

text \<open>
  \<open>src/schedules/schedule-model.ts\<close>: what a schedule is, which stored values are one, which fields a
  record may not carry, and the first occurrence of a cadence after an instant.

  A guard of the code (\<open>isUsable...\<close>) and the cast it licenses are one parser here: it returns the
  value as a record, or nothing. Stored times are numbers of any fraction; a \<open>Date\<close> is made of one by
  truncation. The time zone is a parameter (theory \<open>Calendar\<close>).
\<close>

subsection \<open>Targets and cadences\<close>

datatype schedule_target =
    Target_Shortcut (tg_shortcutId: string)
  | Target_Workflow (tg_workflowId: string)
  | Target_Skill (tg_skillId: string) (tg_skillVersion: string)

datatype schedule_cadence =
    Daily (cd_hour: int) (cd_minute: int)
  | Weekly (cd_weekday: int) (cd_hour: int) (cd_minute: int)
  | Monthly (cd_day: int) (cd_hour: int) (cd_minute: int)
  | Annual (cd_month: int) (cd_day: int) (cd_hour: int) (cd_minute: int)

datatype run_status = Run_Running | Run_Completed | Run_Failed | Run_Blocked | Run_Cancelled | Run_Missed

definition SCHEDULE_RUN_STATUSES :: "(string \<times> run_status) list" where
  "SCHEDULE_RUN_STATUSES =
     [(''running'', Run_Running), (''completed'', Run_Completed), (''failed'', Run_Failed),
      (''blocked'', Run_Blocked), (''cancelled'', Run_Cancelled), (''missed'', Run_Missed)]"

datatype run_reason =
    Reason_Confirmation_Required | Reason_Policy_Denied | Reason_Target_Missing | Reason_Target_Unusable
  | Reason_Inputs_Required | Reason_Persistence_Blocked | Reason_Missed_While_Asleep | Reason_Run_Failed
  | Reason_Cancelled | Reason_Interrupted | Reason_Internal_Error

definition SCHEDULE_RUN_REASONS :: "(string \<times> run_reason) list" where
  "SCHEDULE_RUN_REASONS =
     [(''CONFIRMATION_REQUIRED'', Reason_Confirmation_Required), (''POLICY_DENIED'', Reason_Policy_Denied),
      (''TARGET_MISSING'', Reason_Target_Missing), (''TARGET_UNUSABLE'', Reason_Target_Unusable),
      (''INPUTS_REQUIRED'', Reason_Inputs_Required), (''PERSISTENCE_BLOCKED'', Reason_Persistence_Blocked),
      (''MISSED_WHILE_ASLEEP'', Reason_Missed_While_Asleep), (''RUN_FAILED'', Reason_Run_Failed),
      (''CANCELLED'', Reason_Cancelled), (''INTERRUPTED'', Reason_Interrupted),
      (''INTERNAL_ERROR'', Reason_Internal_Error)]"

definition name_in :: "(string \<times> 'a) list \<Rightarrow> 'a \<Rightarrow> string" where
  "name_in table x = (case List.find (\<lambda>(n, y). y = x) table of Some (n, y) \<Rightarrow> n | None \<Rightarrow> [])"

record schedule_record =
  sc_scheduleId :: string
  sc_displayName :: string
  sc_target :: schedule_target
  sc_cadence :: schedule_cadence
  sc_enabled :: bool
  sc_createdAt :: rat
  sc_updatedAt :: rat
  sc_nextRunAt :: rat
  sc_lastClaimedOccurrenceAt :: rat
  sc_lastRunAt :: json
  sc_lastRunStatus :: "run_status option"
  sc_lastRunReason :: "run_reason option"

record schedule_run =
  sr_runId :: string
  sr_scheduleId :: string
  sr_occurrenceAt :: rat
  sr_startedAt :: rat
  sr_status :: run_status
  sr_finishedAt :: json
  sr_reason :: "run_reason option"
  sr_taskId :: "string option"

definition SCHEDULE_FORMAT_VERSION :: nat where
  "SCHEDULE_FORMAT_VERSION = 1"

definition SCHEDULE_RUN_FORMAT_VERSION :: nat where
  "SCHEDULE_RUN_FORMAT_VERSION = 1"

text \<open>\<open>runIdFor\<close>; \<open>number\<close> is how JavaScript prints a number.\<close>

definition runIdFor :: "(rat \<Rightarrow> string) \<Rightarrow> string \<Rightarrow> rat \<Rightarrow> string" where
  "runIdFor number scheduleId occurrenceAt = ''srun_'' @ scheduleId @ ''_'' @ number occurrenceAt"

definition unattendedSessionIdFor :: "string \<Rightarrow> string" where
  "unattendedSessionIdFor runId = UNATTENDED_SESSION_PREFIX @ runId"

subsection \<open>Fields a schedule may not carry\<close>

definition SCHEDULE_PROHIBITED_FIELDS :: "string list" where
  "SCHEDULE_PROHIBITED_FIELDS =
     [''steps'', ''step'', ''definition'', ''arguments'', ''args'', ''inputs'', ''input'', ''tool'', ''tools'',
      ''binding'', ''bindings'', ''code'', ''script'', ''expression'', ''selector'', ''selectors'', ''xpath'',
      ''template'', ''prompt'', ''instructions'', ''command'', ''objective'', ''result'', ''results'',
      ''outputs'', ''output'', ''payload'', ''content'', ''pagecontent'', ''body'', ''html'', ''text'',
      ''screenshot'', ''evidence'', ''response'', ''completion'', ''password'', ''passphrase'', ''secret'',
      ''token'', ''accesstoken'', ''refreshtoken'', ''apikey'', ''key'', ''credential'', ''credentials'',
      ''cookie'', ''cookies'', ''authorization'', ''auth'', ''bearer'']"

definition MAX_SCHEDULE_DEPTH :: nat where
  "MAX_SCHEDULE_DEPTH = 6"

text \<open>\<open>walk\<close>: the path of the first field it refuses, where it throws.\<close>

function schedule_walk :: "json \<Rightarrow> string list \<Rightarrow> nat \<Rightarrow> string list option"
  and schedule_walk_items :: "json list \<Rightarrow> nat \<Rightarrow> string list \<Rightarrow> nat \<Rightarrow> string list option"
  and schedule_walk_entries :: "(string \<times> json) list \<Rightarrow> string list \<Rightarrow> nat \<Rightarrow> string list option" where
  "schedule_walk v path depth =
     (if MAX_SCHEDULE_DEPTH < depth then Some (if path = [] then [''(root)''] else path)
      else case v of
        JArr items \<Rightarrow> schedule_walk_items items 0 path (Suc depth)
      | JObj entries \<Rightarrow> schedule_walk_entries entries path (Suc depth)
      | _ \<Rightarrow> None)"
| "schedule_walk_items [] i path depth = None"
| "schedule_walk_items (v # vs) i path depth =
     (case schedule_walk v (path @ [show_nat i]) depth of
        Some p \<Rightarrow> Some p
      | None \<Rightarrow> schedule_walk_items vs (Suc i) path depth)"
| "schedule_walk_entries [] path depth = None"
| "schedule_walk_entries ((k, v) # rest) path depth =
     (if js_lower k \<in> set SCHEDULE_PROHIBITED_FIELDS then Some (path @ [k])
      else case schedule_walk v (path @ [k]) depth of
        Some p \<Rightarrow> Some p
      | None \<Rightarrow> schedule_walk_entries rest path depth)"
  by pat_completeness auto

termination
  by (relation "measure (\<lambda>x. case x of Inl (v, _, _) \<Rightarrow> 2 * size v
      | Inr (Inl (vs, _, _, _)) \<Rightarrow> 2 * size_list size vs + 1
      | Inr (Inr (es, _, _)) \<Rightarrow> 2 * size_list (size_prod (\<lambda>_. 0) size) es + 1)") auto

declare schedule_walk.simps(1) [simp del]

text \<open>\<open>assertScheduleSafe\<close>: the field the error names, where it throws.\<close>

definition assertScheduleSafe :: "json \<Rightarrow> string option" where
  "assertScheduleSafe value = map_option (js_join ''.'') (schedule_walk value [] 0)"

subsection \<open>Usable values\<close>

definition isWholeNumber :: "json \<Rightarrow> int \<Rightarrow> int \<Rightarrow> int option" where
  "isWholeNumber v low high =
     (case v of
        JNum (Fin q) \<Rightarrow> if rat_integer q \<and> of_int low \<le> q \<and> q \<le> of_int high then Some \<lfloor>q\<rfloor> else None
      | _ \<Rightarrow> None)"

definition finite_time :: "json \<Rightarrow> rat option" where
  "finite_time v = (case v of JNum (Fin q) \<Rightarrow> Some q | _ \<Rightarrow> None)"

definition nonempty_string :: "json \<Rightarrow> string option" where
  "nonempty_string v = (case v of JStr s \<Rightarrow> if s \<noteq> [] then Some s else None | _ \<Rightarrow> None)"

definition daysInMonth :: "time_zone \<Rightarrow> int \<Rightarrow> int \<Rightarrow> int" where
  "daysInMonth z year month = getDate z (new_date z year month 0 0 0)"

definition usable_cadence :: "time_zone \<Rightarrow> schedule_cadence \<Rightarrow> bool" where
  "usable_cadence z c =
     (0 \<le> cd_hour c \<and> cd_hour c \<le> 23 \<and> 0 \<le> cd_minute c \<and> cd_minute c \<le> 59 \<and>
      (case c of
         Daily h mi \<Rightarrow> True
       | Weekly w h mi \<Rightarrow> 0 \<le> w \<and> w \<le> 6
       | Monthly d h mi \<Rightarrow> 1 \<le> d \<and> d \<le> 31
       | Annual m d h mi \<Rightarrow> 1 \<le> m \<and> m \<le> 12 \<and> 1 \<le> d \<and> d \<le> 31 \<and> d \<le> daysInMonth z 2024 m))"

definition isUsableCadence :: "time_zone \<Rightarrow> json \<Rightarrow> schedule_cadence option" where
  "isUsableCadence z v =
     (case v of
        JObj entries \<Rightarrow>
          (case isWholeNumber (json_get entries ''hour'') 0 23 of
             None \<Rightarrow> None
           | Some h \<Rightarrow>
          (case isWholeNumber (json_get entries ''minute'') 0 59 of
             None \<Rightarrow> None
           | Some mi \<Rightarrow>
             (case json_get entries ''kind'' of
                JStr kind \<Rightarrow>
                  if kind = ''daily'' then Some (Daily h mi)
                  else if kind = ''weekly'' then
                    map_option (\<lambda>w. Weekly w h mi) (isWholeNumber (json_get entries ''weekday'') 0 6)
                  else if kind = ''monthly'' then
                    map_option (\<lambda>d. Monthly d h mi) (isWholeNumber (json_get entries ''day'') 1 31)
                  else if kind = ''annual'' then
                    (case isWholeNumber (json_get entries ''month'') 1 12 of
                       None \<Rightarrow> None
                     | Some m \<Rightarrow>
                    (case isWholeNumber (json_get entries ''day'') 1 31 of
                       None \<Rightarrow> None
                     | Some d \<Rightarrow> if d \<le> daysInMonth z 2024 m then Some (Annual m d h mi) else None))
                  else None
              | _ \<Rightarrow> None)))
      | _ \<Rightarrow> None)"

text \<open>\<open>/^\\d+\\.\\d+\\.\\d+$/\<close>\<close>

definition version_text :: "string \<Rightarrow> bool" where
  "version_text s =
     (let parts = js_split CHR ''.'' s
      in length parts = 3 \<and> (\<forall>p \<in> set parts. p \<noteq> [] \<and> (\<forall>c \<in> set p. js_digit c)))"

definition isUsableTarget :: "json \<Rightarrow> schedule_target option" where
  "isUsableTarget v =
     (case v of
        JObj entries \<Rightarrow>
          (case json_get entries ''kind'' of
             JStr kind \<Rightarrow>
               if kind = ''shortcut'' then map_option Target_Shortcut (nonempty_string (json_get entries ''shortcutId''))
               else if kind = ''workflow'' then map_option Target_Workflow (nonempty_string (json_get entries ''workflowId''))
               else if kind = ''skill'' then
                 (case nonempty_string (json_get entries ''skillId'') of
                    None \<Rightarrow> None
                  | Some skillId \<Rightarrow>
                      (case json_get entries ''skillVersion'' of
                         JStr version \<Rightarrow> if version_text version then Some (Target_Skill skillId version) else None
                       | _ \<Rightarrow> None))
               else None
           | _ \<Rightarrow> None)
      | _ \<Rightarrow> None)"

text \<open>An optional field that must name an entry of a table: absent, or a name that is there.\<close>

definition optional_in :: "(string \<times> 'a) list \<Rightarrow> json \<Rightarrow> 'a option option" where
  "optional_in table v =
     (case v of
        JUndef \<Rightarrow> Some None
      | JStr s \<Rightarrow> (case map_of table s of None \<Rightarrow> None | Some x \<Rightarrow> Some (Some x))
      | _ \<Rightarrow> None)"

definition isUsableSchedule :: "time_zone \<Rightarrow> json \<Rightarrow> schedule_record option" where
  "isUsableSchedule z v =
     (case v of
        JObj entries \<Rightarrow>
          (if json_get entries ''formatVersion'' \<noteq> JNum (Fin (of_nat SCHEDULE_FORMAT_VERSION)) then None
           else case (nonempty_string (json_get entries ''scheduleId''), nonempty_string (json_get entries ''displayName''),
                      json_get entries ''enabled'') of
             (Some scheduleId, Some displayName, JBool enabled) \<Rightarrow>
               (case (finite_time (json_get entries ''createdAt''), finite_time (json_get entries ''updatedAt''),
                      finite_time (json_get entries ''nextRunAt''), finite_time (json_get entries ''lastClaimedOccurrenceAt'')) of
                  (Some createdAt, Some updatedAt, Some nextRunAt, Some lastClaimed) \<Rightarrow>
                    (case (isUsableCadence z (json_get entries ''cadence''), isUsableTarget (json_get entries ''target''),
                           optional_in SCHEDULE_RUN_STATUSES (json_get entries ''lastRunStatus''),
                           optional_in SCHEDULE_RUN_REASONS (json_get entries ''lastRunReason'')) of
                       (Some cadence, Some target, Some status, Some reason) \<Rightarrow>
                         Some \<lparr>sc_scheduleId = scheduleId, sc_displayName = displayName, sc_target = target,
                           sc_cadence = cadence, sc_enabled = enabled, sc_createdAt = createdAt,
                           sc_updatedAt = updatedAt, sc_nextRunAt = nextRunAt,
                           sc_lastClaimedOccurrenceAt = lastClaimed, sc_lastRunAt = json_get entries ''lastRunAt'',
                           sc_lastRunStatus = status, sc_lastRunReason = reason\<rparr>
                     | _ \<Rightarrow> None)
                | _ \<Rightarrow> None)
           | _ \<Rightarrow> None)
      | _ \<Rightarrow> None)"

text \<open>
  \<open>isUsableScheduleRun\<close>: the status is compared as \<open>String(record.status)\<close>; a status that is not a
  string but prints as one (an array holding just that string) is left out.
\<close>

definition isUsableScheduleRun :: "json \<Rightarrow> schedule_run option" where
  "isUsableScheduleRun v =
     (case v of
        JObj entries \<Rightarrow>
          (if json_get entries ''formatVersion'' \<noteq> JNum (Fin (of_nat SCHEDULE_RUN_FORMAT_VERSION)) then None
           else case (nonempty_string (json_get entries ''runId''), nonempty_string (json_get entries ''scheduleId''),
                      finite_time (json_get entries ''occurrenceAt''), finite_time (json_get entries ''startedAt''),
                      optional_in SCHEDULE_RUN_STATUSES (json_get entries ''status''),
                      optional_in SCHEDULE_RUN_REASONS (json_get entries ''reason'')) of
             (Some runId, Some scheduleId, Some occurrenceAt, Some startedAt, Some (Some status), Some reason) \<Rightarrow>
               (case json_get entries ''taskId'' of
                  JUndef \<Rightarrow>
                    Some \<lparr>sr_runId = runId, sr_scheduleId = scheduleId, sr_occurrenceAt = occurrenceAt,
                      sr_startedAt = startedAt, sr_status = status, sr_finishedAt = json_get entries ''finishedAt'',
                      sr_reason = reason, sr_taskId = None\<rparr>
                | JStr taskId \<Rightarrow>
                    Some \<lparr>sr_runId = runId, sr_scheduleId = scheduleId, sr_occurrenceAt = occurrenceAt,
                      sr_startedAt = startedAt, sr_status = status, sr_finishedAt = json_get entries ''finishedAt'',
                      sr_reason = reason, sr_taskId = Some taskId\<rparr>
                | _ \<Rightarrow> None)
           | _ \<Rightarrow> None)
      | _ \<Rightarrow> None)"

subsection \<open>Stored form\<close>

definition time_json :: "rat \<Rightarrow> json" where
  "time_json q = JNum (Fin q)"

definition int_json :: "int \<Rightarrow> json" where
  "int_json i = JNum (Fin (of_int i))"

fun target_json :: "schedule_target \<Rightarrow> json" where
  "target_json (Target_Shortcut i) = JObj [(''kind'', JStr ''shortcut''), (''shortcutId'', JStr i)]"
| "target_json (Target_Workflow i) = JObj [(''kind'', JStr ''workflow''), (''workflowId'', JStr i)]"
| "target_json (Target_Skill i v) =
     JObj [(''kind'', JStr ''skill''), (''skillId'', JStr i), (''skillVersion'', JStr v)]"

fun cadence_json :: "schedule_cadence \<Rightarrow> json" where
  "cadence_json (Daily h mi) =
     JObj [(''kind'', JStr ''daily''), (''hour'', int_json h), (''minute'', int_json mi)]"
| "cadence_json (Weekly w h mi) =
     JObj [(''kind'', JStr ''weekly''), (''weekday'', int_json w), (''hour'', int_json h), (''minute'', int_json mi)]"
| "cadence_json (Monthly d h mi) =
     JObj [(''kind'', JStr ''monthly''), (''day'', int_json d), (''hour'', int_json h), (''minute'', int_json mi)]"
| "cadence_json (Annual m d h mi) =
     JObj [(''kind'', JStr ''annual''), (''month'', int_json m), (''day'', int_json d), (''hour'', int_json h),
       (''minute'', int_json mi)]"

definition optional_field :: "string \<Rightarrow> json option \<Rightarrow> (string \<times> json) list" where
  "optional_field name v = (case v of None \<Rightarrow> [] | Some j \<Rightarrow> [(name, j)])"

definition schedule_json :: "schedule_record \<Rightarrow> json" where
  "schedule_json r =
     JObj ([(''scheduleId'', JStr (sc_scheduleId r)), (''formatVersion'', JNum (Fin (of_nat SCHEDULE_FORMAT_VERSION))),
       (''displayName'', JStr (sc_displayName r)), (''target'', target_json (sc_target r)),
       (''cadence'', cadence_json (sc_cadence r)), (''enabled'', JBool (sc_enabled r)),
       (''createdAt'', time_json (sc_createdAt r)), (''updatedAt'', time_json (sc_updatedAt r)),
       (''nextRunAt'', time_json (sc_nextRunAt r)),
       (''lastClaimedOccurrenceAt'', time_json (sc_lastClaimedOccurrenceAt r)), (''lastRunAt'', sc_lastRunAt r)] @
       optional_field ''lastRunStatus'' (map_option (\<lambda>s. JStr (name_in SCHEDULE_RUN_STATUSES s)) (sc_lastRunStatus r)) @
       optional_field ''lastRunReason'' (map_option (\<lambda>s. JStr (name_in SCHEDULE_RUN_REASONS s)) (sc_lastRunReason r)))"

definition run_json :: "schedule_run \<Rightarrow> json" where
  "run_json r =
     JObj ([(''runId'', JStr (sr_runId r)), (''formatVersion'', JNum (Fin (of_nat SCHEDULE_RUN_FORMAT_VERSION))),
       (''scheduleId'', JStr (sr_scheduleId r)), (''occurrenceAt'', time_json (sr_occurrenceAt r)),
       (''startedAt'', time_json (sr_startedAt r)), (''status'', JStr (name_in SCHEDULE_RUN_STATUSES (sr_status r))),
       (''finishedAt'', sr_finishedAt r)] @
       optional_field ''reason'' (map_option (\<lambda>s. JStr (name_in SCHEDULE_RUN_REASONS s)) (sr_reason r)) @
       optional_field ''taskId'' (map_option JStr (sr_taskId r)))"

subsection \<open>The next occurrence\<close>

definition js_trunc :: "rat \<Rightarrow> int" where
  "js_trunc q = (if 0 \<le> q then \<lfloor>q\<rfloor> else \<lceil>q\<rceil>)"

text \<open>A search loop: the first step, from \<open>i\<close> and at most \<open>n\<close> of them, that has a result.\<close>

fun first_some :: "(nat \<Rightarrow> 'a option) \<Rightarrow> nat \<Rightarrow> nat \<Rightarrow> 'a option" where
  "first_some f i 0 = None"
| "first_some f i (Suc n) = (case f i of Some x \<Rightarrow> Some x | None \<Rightarrow> first_some f (Suc i) n)"

definition MAX_SEARCH_STEPS :: nat where
  "MAX_SEARCH_STEPS = 400"

definition after_or_none :: "rat \<Rightarrow> int \<Rightarrow> int option" where
  "after_or_none after candidate = (if after < of_int candidate then Some candidate else None)"

definition nextOccurrence :: "time_zone \<Rightarrow> schedule_cadence \<Rightarrow> rat \<Rightarrow> int option" where
  "nextOccurrence z cadence after =
     (let from = js_trunc after; y = getFullYear z from; mo = getMonth z from; d = getDate z from in
      case cadence of
        Daily h mi \<Rightarrow>
          (let candidate = new_date z y mo d h mi
           in if after < of_int candidate then Some candidate else Some (new_date z y mo (d + 1) h mi))
      | Weekly weekday h mi \<Rightarrow>
          first_some (\<lambda>step.
            let candidate = new_date z y mo (d + int step) h mi
            in if getDay z candidate = weekday then after_or_none after candidate else None) 0 8
      | Monthly day h mi \<Rightarrow>
          first_some (\<lambda>step.
            let month = mo + int step; year = y + month div 12; normalised = (month mod 12 + 12) mod 12
            in if daysInMonth z year (normalised + 1) < day then None
               else after_or_none after (new_date z year normalised day h mi)) 0 MAX_SEARCH_STEPS
      | Annual month day h mi \<Rightarrow>
          first_some (\<lambda>step.
            let year = y + int step
            in if daysInMonth z year month < day then None
               else after_or_none after (new_date z year (month - 1) day h mi)) 0 MAX_SEARCH_STEPS)"

subsection \<open>What an occurrence is\<close>

text \<open>
  The specification of a cadence: the days it falls on, the time of day, and with them its
  occurrences: one instant for every such day.
\<close>

definition falls_on :: "schedule_cadence \<Rightarrow> int \<Rightarrow> bool" where
  "falls_on cadence day =
     (case cadence of
        Daily h mi \<Rightarrow> True
      | Weekly weekday h mi \<Rightarrow> week_day day = weekday
      | Monthly date h mi \<Rightarrow> date_from_day day = date
      | Annual month date h mi \<Rightarrow> int (month_from_day day) = month - 1 \<and> date_from_day day = date)"

definition time_of_day :: "schedule_cadence \<Rightarrow> int" where
  "time_of_day cadence = cd_hour cadence * 3600000 + cd_minute cadence * 60000"

definition instant_on :: "time_zone \<Rightarrow> schedule_cadence \<Rightarrow> int \<Rightarrow> int" where
  "instant_on z cadence day = zn_utc z (day * ms_per_day + time_of_day cadence)"

definition first_after :: "time_zone \<Rightarrow> schedule_cadence \<Rightarrow> rat \<Rightarrow> int \<Rightarrow> bool" where
  "first_after z cadence after t =
     (after < of_int t \<and> (\<exists>day. falls_on cadence day \<and> t = instant_on z cadence day) \<and>
      (\<forall>day. falls_on cadence day \<and> after < of_int (instant_on z cadence day) \<longrightarrow> t \<le> instant_on z cadence day))"

lemma first_some_Some:
  "first_some f i n = Some x \<longleftrightarrow> (\<exists>k < n. f (i + k) = Some x \<and> (\<forall>j < k. f (i + j) = None))"
proof (induction n arbitrary: i)
  case (Suc n)
  show ?case
  proof (cases "f i")
    case None
    have "first_some f i (Suc n) = Some x \<longleftrightarrow> (\<exists>k < n. f (Suc i + k) = Some x \<and> (\<forall>j < k. f (Suc i + j) = None))"
      using None Suc.IH [of "Suc i"] by simp
    also have "\<dots> \<longleftrightarrow> (\<exists>k < Suc n. f (i + k) = Some x \<and> (\<forall>j < k. f (i + j) = None))"
      using None by (simp add: Ex_less_Suc2 All_less_Suc2)
    finally show ?thesis .
  next
    case (Some y)
    then show ?thesis by (auto simp: Ex_less_Suc2 All_less_Suc2)
  qed
qed simp

lemma first_some_None: "first_some f i n = None \<longleftrightarrow> (\<forall>k < n. f (i + k) = None)"
proof (induction n arbitrary: i)
  case (Suc n)
  then show ?case by (cases "f i") (auto simp: All_less_Suc2)
qed simp

text \<open>
  A search over candidates in order: if the steps enumerate the days of the cadence from the day of
  \<open>after\<close> on, and one within the bound is later than \<open>after\<close>, the loop finds the first.
\<close>

lemma search_first:
  assumes step: "\<And>k. f k = (if P k \<and> after < of_int (instant_on z c (g k)) then Some (instant_on z c (g k)) else None)"
    and falls: "\<And>k. P k \<Longrightarrow> falls_on c (g k)"
    and complete: "\<And>day. falls_on c day \<Longrightarrow> after < of_int (instant_on z c day) \<Longrightarrow> \<exists>k. P k \<and> day = g k"
    and ordered: "\<And>i j. P i \<Longrightarrow> P j \<Longrightarrow> i < j \<Longrightarrow> instant_on z c (g i) \<le> instant_on z c (g j)"
    and hit: "k < n" "P k" "after < of_int (instant_on z c (g k))"
  shows "\<exists>t. first_some f 0 n = Some t \<and> first_after z c after t"
proof -
  have "first_some f 0 n \<noteq> None" using hit step by (auto simp: first_some_None)
  then obtain t where t: "first_some f 0 n = Some t" by auto
  then obtain i where i: "f i = Some t" "\<forall>j < i. f j = None" by (auto simp: first_some_Some)
  then have found: "P i" "after < of_int t" "t = instant_on z c (g i)" by (auto simp: step split: if_splits)
  have "t \<le> instant_on z c day" if day: "falls_on c day" "after < of_int (instant_on z c day)" for day
  proof -
    obtain j where j: "P j" "day = g j" using complete [OF day] by blast
    then have "f j \<noteq> None" using day by (simp add: step)
    then have "i \<le> j" using i(2) by (meson linorder_not_le)
    then show ?thesis using ordered [OF found(1) j(1)] j found by (cases "i = j") auto
  qed
  then show ?thesis using t found falls unfolding first_after_def by blast
qed

lemma first_after_unique: "first_after z c after t \<Longrightarrow> first_after z c after t' \<Longrightarrow> t = t'"
  unfolding first_after_def by (metis order_antisym)

subsection \<open>The search in a time zone\<close>

context day_zone
begin

lemma of_int_new_date:
  assumes "100 \<le> y"
  shows "new_date z y m date h mi = zn_utc z (make_day y m date * ms_per_day + (h * 3600000 + mi * 60000))"
  using assms by (simp add: new_date_def Let_def)

lemma daysInMonth_length:
  assumes "100 \<le> y" and "0 \<le> m" "m < 12"
  shows "daysInMonth z y (m + 1) = month_length (leap_year y) (nat m)"
proof -
  have "local_day z (new_date z y (m + 1) 0 0 0) = make_day y (m + 1) 0"
    using assms on_its_day [of 0] by (simp add: of_int_new_date ms_per_day_def)
  moreover have "nat m < 12" using assms by simp
  then have "1 \<le> month_length (leap_year y) (nat m)" using month_length_pos(1) [of "nat m" "leap_year y"] by simp
  ultimately show ?thesis
    using assms make_day_fields(3) [of m "month_length (leap_year y) (nat m)" y]
    by (simp add: daysInMonth_def getDate_def make_day_zero)
qed

text \<open>From here on: a cadence with a proper time of day and an instant after 1970, on local day \<open>a\<close>.\<close>

lemma time_in_day: "usable_cadence z c \<Longrightarrow> 0 \<le> time_of_day c \<and> time_of_day c < ms_per_day"
  by (auto simp: usable_cadence_def time_of_day_def ms_per_day_def)

lemma instant_later:
  assumes "usable_cadence z c" and "0 \<le> after" and "local_day z (js_trunc after) < day"
  shows "after < of_int (instant_on z c day)"
proof -
  have "\<lfloor>after\<rfloor> < instant_on z c day"
    using later_day [of "time_of_day c" "js_trunc after" day] time_in_day [OF assms(1)] assms
    by (simp add: instant_on_def js_trunc_def)
  then show ?thesis by (simp add: floor_less_iff)
qed

lemma instant_not_later:
  assumes "usable_cadence z c" and "0 \<le> after" and "after < of_int (instant_on z c day)"
  shows "local_day z (js_trunc after) \<le> day"
proof (rule ccontr)
  assume "\<not> local_day z (js_trunc after) \<le> day"
  then have "instant_on z c day < \<lfloor>after\<rfloor>"
    using earlier_day [of "time_of_day c" day "js_trunc after"] time_in_day [OF assms(1)] assms
    by (simp add: instant_on_def js_trunc_def)
  then show False using assms(3) by (simp add: floor_less_iff [symmetric])
qed

lemma instant_mono: "usable_cadence z c \<Longrightarrow> day \<le> day' \<Longrightarrow> instant_on z c day \<le> instant_on z c day'"
  using increasing_le [of "time_of_day c" day day'] time_in_day [of c] by (simp add: instant_on_def)

lemma instant_local_day: "usable_cadence z c \<Longrightarrow> local_day z (instant_on z c day) = day"
  using on_its_day [of "time_of_day c" day] time_in_day [of c] by (simp add: instant_on_def)

lemma current_fields:
  assumes "0 \<le> local_day z t"
  shows "make_day (getFullYear z t) (getMonth z t) (getDate z t + k) = local_day z t + k"
    and "1970 \<le> getFullYear z t" and "0 \<le> getMonth z t" and "getMonth z t < 12"
    and "month_index (local_day z t) = 12 * getFullYear z t + getMonth z t"
proof -
  show "make_day (getFullYear z t) (getMonth z t) (getDate z t + k) = local_day z t + k"
    using day_fields(4) [of "local_day z t"] by (simp add: getFullYear_def getMonth_def getDate_def make_day_def Let_def)
  have "year_from_day 0 = 1970" by (simp add: year_from_day_def day_from_year_def)
  then show "1970 \<le> getFullYear z t" using year_from_day_mono [OF assms] by (simp add: getFullYear_def)
  show "0 \<le> getMonth z t" "getMonth z t < 12" using day_fields(1) [of "local_day z t"] by (simp_all add: getMonth_def)
  show "month_index (local_day z t) = 12 * getFullYear z t + getMonth z t"
    by (simp add: month_index_def getFullYear_def getMonth_def)
qed

end

subsection \<open>Each cadence\<close>

lemma week_day_within: "0 \<le> w \<Longrightarrow> w \<le> 6 \<Longrightarrow> \<exists>k. 1 \<le> k \<and> k < 8 \<and> week_day (a + int k) = w"
proof -
  assume w: "0 \<le> w" "w \<le> 6"
  define r where "r = (w - (a + 5)) mod 7"
  have "0 \<le> r" "r < 7" by (simp_all add: r_def)
  moreover have "(a + 5 + r) mod 7 = w" using w by (simp add: r_def mod_simps)
  moreover have "a + int (nat (r + 1)) + 4 = a + 5 + r" using \<open>0 \<le> r\<close> by simp
  ultimately have "week_day (a + int (nat (r + 1))) = w" "1 \<le> nat (r + 1)" "nat (r + 1) < 8"
    unfolding week_day_def by (simp_all only:)
  then show ?thesis by blast
qed

lemma long_month_within: "m < 12 \<Longrightarrow> month_length l m = 31 \<or> month_length l' (Suc m mod 12) = 31"
  unfolding months_below_12 by (auto simp: month_tables)

lemma leap_year_within: "\<exists>k. 1 \<le> k \<and> k < 9 \<and> leap_year (y + int k)"
proof -
  define u where "u = 4 - y mod 4"
  have next_multiple: "y + u = 4 * (y div 4 + 1)" using mult_div_mod_eq [of 4 y] unfolding u_def distrib_left by linarith
  have "(y + u) mod 4 = 0" unfolding next_multiple by simp
  then have u: "1 \<le> u" "u \<le> 4" "(y + u) mod 4 = 0" by (simp_all add: u_def)
  show ?thesis
  proof (cases "(y + u) mod 100 = 0")
    case False
    then have "leap_year (y + int (nat u))" using u by (simp add: leap_year_def)
    then show ?thesis using u by (intro exI [of _ "nat u"]) auto
  next
    case True
    have "(y + u + 4) mod 100 = 4" using True by (simp add: mod_add_eq [of "y + u" 100 4, symmetric])
    moreover have "(y + u + 4) mod 4 = 0" using u(3) by simp
    ultimately have "leap_year (y + int (nat (u + 4)))" using u by (simp add: leap_year_def add.assoc)
    then show ?thesis using u by (intro exI [of _ "nat (u + 4)"]) auto
  qed
qed

lemma leap_2024: "leap_year 2024"
  by (simp add: leap_year_def)

lemma month_length_leap: "month_length l m \<le> month_length True m"
  by (simp add: month_length_def)

lemma divmod_months:
  fixes M y Y :: int
  assumes "12 * y + M = 12 * Y + m" and "0 \<le> m" "m < 12"
  shows "y + M div 12 = Y" and "M mod 12 = m"
proof -
  have M: "M = 12 * (Y - y) + m" using assms(1) by simp
  show "y + M div 12 = Y" using int_div_pos_eq [OF M assms(2,3)] by simp
  show "M mod 12 = m" by (rule int_mod_pos_eq [OF M assms(2,3)])
qed

context day_zone
begin

lemma date_instant:
  assumes "100 \<le> y"
  shows "new_date z y m date (cd_hour c) (cd_minute c) = instant_on z c (make_day y m date)"
  using assms by (simp add: of_int_new_date instant_on_def time_of_day_def)

lemma daily_first:
  assumes c: "usable_cadence z (Daily h mi)" and after: "0 \<le> after" "0 \<le> local_day z (js_trunc after)"
  shows "\<exists>t. nextOccurrence z (Daily h mi) after = Some t \<and> first_after z (Daily h mi) after t"
proof -
  let ?c = "Daily h mi" and ?a = "local_day z (js_trunc after)" and ?from = "js_trunc after"
  note current = current_fields [OF after(2)]
  have date: "new_date z (getFullYear z ?from) (getMonth z ?from) (getDate z ?from + k) h mi = instant_on z ?c (?a + k)" for k
    using current date_instant [of "getFullYear z ?from" _ _ ?c] by simp
  have later: "instant_on z ?c (?a + 1) \<le> instant_on z ?c day"
    if "after < of_int (instant_on z ?c day)" "\<not> after < of_int (instant_on z ?c ?a)" for day
    using instant_not_later [OF c after(1) that(1)] that by (intro instant_mono [OF c]) (cases "day = ?a"; simp)
  have same: "instant_on z ?c ?a \<le> instant_on z ?c day" if "after < of_int (instant_on z ?c day)" for day
    using instant_mono [OF c instant_not_later [OF c after(1) that]] .
  have next_day: "after < of_int (instant_on z ?c (?a + 1))" by (rule instant_later [OF c after(1)]) simp
  show ?thesis
  proof (cases "after < of_int (instant_on z ?c ?a)")
    case True
    then have "first_after z ?c after (instant_on z ?c ?a)"
      using same by (auto simp: first_after_def falls_on_def)
    then show ?thesis using True date [of 0] by (simp add: nextOccurrence_def Let_def)
  next
    case False
    then have "first_after z ?c after (instant_on z ?c (?a + 1))"
      using later next_day by (auto simp: first_after_def falls_on_def)
    then show ?thesis using False date [of 0] date [of 1] by (simp add: nextOccurrence_def Let_def)
  qed
qed

lemma weekly_first:
  assumes c: "usable_cadence z (Weekly w h mi)" and after: "0 \<le> after" "0 \<le> local_day z (js_trunc after)"
  shows "\<exists>t. nextOccurrence z (Weekly w h mi) after = Some t \<and> first_after z (Weekly w h mi) after t"
proof -
  let ?c = "Weekly w h mi" and ?a = "local_day z (js_trunc after)" and ?from = "js_trunc after"
  note current = current_fields [OF after(2)]
  define f where "f = (\<lambda>step. let candidate = new_date z (getFullYear z ?from) (getMonth z ?from) (getDate z ?from + int step) h mi
    in if getDay z candidate = w then after_or_none after candidate else None)"
  have date: "new_date z (getFullYear z ?from) (getMonth z ?from) (getDate z ?from + k) h mi = instant_on z ?c (?a + k)" for k
    using current date_instant [of "getFullYear z ?from" _ _ ?c] by simp
  have w: "0 \<le> w" "w \<le> 6" using c by (simp_all add: usable_cadence_def)
  obtain k where k: "1 \<le> k" "k < 8" "week_day (?a + int k) = w" using week_day_within [OF w] by blast
  have "\<exists>t. first_some f 0 8 = Some t \<and> first_after z ?c after t"
  proof (rule search_first [where P = "\<lambda>k. week_day (?a + int k) = w" and g = "\<lambda>k. ?a + int k" and k = k])
    fix j
    show "f j = (if week_day (?a + int j) = w \<and> after < of_int (instant_on z ?c (?a + int j))
        then Some (instant_on z ?c (?a + int j)) else None)"
      by (simp add: f_def Let_def date getDay_def instant_local_day [OF c] after_or_none_def)
  next
    fix day
    assume "falls_on ?c day" and late: "after < of_int (instant_on z ?c day)"
    then have "?a \<le> day" "week_day day = w" using instant_not_later [OF c after(1) late] by (simp_all add: falls_on_def)
    then show "\<exists>k. week_day (?a + int k) = w \<and> day = ?a + int k" by (intro exI [of _ "nat (day - ?a)"]) simp
  next
    show "after < of_int (instant_on z ?c (?a + int k))" using k by (intro instant_later [OF c after(1)]) simp
  next
    fix i j :: nat
    assume "i < j"
    then show "instant_on z ?c (?a + int i) \<le> instant_on z ?c (?a + int j)" by (intro instant_mono [OF c]) simp
  qed (use k in \<open>auto simp: falls_on_def\<close>)
  then show ?thesis by (simp add: nextOccurrence_def Let_def f_def [unfolded Let_def])
qed

lemma monthly_first:
  assumes c: "usable_cadence z (Monthly date h mi)" and after: "0 \<le> after" "0 \<le> local_day z (js_trunc after)"
  shows "\<exists>t. nextOccurrence z (Monthly date h mi) after = Some t \<and> first_after z (Monthly date h mi) after t"
proof -
  let ?c = "Monthly date h mi" and ?a = "local_day z (js_trunc after)" and ?from = "js_trunc after"
  define y mo where "y = getFullYear z ?from" and "mo = getMonth z ?from"
  note current = current_fields [OF after(2), folded y_def mo_def]
  define Y where "Y k = y + (mo + int k) div 12" for k
  define M where "M k = (mo + int k) mod 12" for k
  define f where "f = (\<lambda>step. let month = mo + int step; year = y + month div 12; normalised = (month mod 12 + 12) mod 12
    in if daysInMonth z year (normalised + 1) < date then None
       else after_or_none after (new_date z year normalised date h mi))"
  have M: "0 \<le> M k" "M k < 12" for k by (simp_all add: M_def)
  have Y: "1970 \<le> Y k" for k using current by (simp add: Y_def)
  have months: "12 * Y k + M k = 12 * y + mo + int k" for k
    using mult_div_mod_eq [of 12 "mo + int k"] by (simp add: Y_def M_def algebra_simps)
  have date_range: "1 \<le> date" "date \<le> 31" using c by (simp_all add: usable_cadence_def)
  let ?P = "\<lambda>k. date \<le> month_length (leap_year (Y k)) (nat (M k))" and ?g = "\<lambda>k. make_day (Y k) (M k) date"
  have index: "month_index (?g k) = month_index ?a + int k" if "?P k" for k
    using month_index_make [OF M date_range(1) that] current(5) months [of k] by simp
  have beyond: "after < of_int (instant_on z ?c (?g k))" if "?P k" "1 \<le> k" for k
  proof (rule instant_later [OF c after(1)])
    show "?a < ?g k" using index [OF that(1)] that(2) month_index_mono [of "?g k" ?a] by fastforce
  qed
  have long: "\<exists>k. 1 \<le> k \<and> k < 3 \<and> ?P k"
  proof -
    have "int (Suc (nat (M 1)) mod 12) = (M 1 + 1) mod 12"
      using M(1) [of 1] by (simp add: zmod_int add.commute)
    also have "\<dots> = M 2" by (simp add: M_def mod_simps add.assoc)
    finally have "nat (M 2) = Suc (nat (M 1)) mod 12" by (metis nat_int)
    then have "?P 1 \<or> ?P 2"
      using long_month_within [of "nat (M 1)" "leap_year (Y 1)" "leap_year (Y 2)"] M [of 1] date_range by auto
    then show ?thesis by (elim disjE) (rule exI [of _ 1], simp, rule exI [of _ 2], simp)
  qed
  then obtain k where k: "1 \<le> k" "k < 3" "?P k" by blast
  have "\<exists>t. first_some f 0 MAX_SEARCH_STEPS = Some t \<and> first_after z ?c after t"
  proof (rule search_first [where P = ?P and g = ?g and k = k])
    fix j
    have "(mo + int j) mod 12 + 12 = M j + 12" by (simp add: M_def)
    then have "((mo + int j) mod 12 + 12) mod 12 = M j" using M [of j] by (simp only: mod_add_self2) simp
    then show "f j = (if ?P j \<and> after < of_int (instant_on z ?c (?g j)) then Some (instant_on z ?c (?g j)) else None)"
      using Y [of j] M [of j] date_instant [of "Y j" "M j" date ?c] daysInMonth_length [of "Y j" "M j"]
      by (simp add: f_def Let_def Y_def [symmetric] after_or_none_def)
  next
    fix j
    assume "?P j"
    then show "falls_on ?c (?g j)" using make_day_fields(3) [OF M date_range(1)] by (simp add: falls_on_def)
  next
    fix day
    assume falls: "falls_on ?c day" and late: "after < of_int (instant_on z ?c day)"
    then have "month_index ?a \<le> month_index day" by (intro month_index_mono instant_not_later [OF c after(1)])
    then obtain k where k: "month_index day = month_index ?a + int k"
      by (metis add.commute zle_iff_zadd)
    have "12 * y + (mo + int k) = 12 * year_from_day day + int (month_from_day day)"
      using k current(5) by (simp add: month_index_def)
    then have "Y k = year_from_day day" "M k = int (month_from_day day)"
      using divmod_months [of y "mo + int k"] day_fields(1) [of day] by (simp_all add: Y_def M_def)
    then show "\<exists>k. ?P k \<and> day = ?g k"
      using day_fields(3,4) [of day] falls by (intro exI [of _ k]) (simp add: falls_on_def)
  next
    fix i j :: nat
    assume "?P i" "?P j" "i < j"
    then have "\<not> ?g j \<le> ?g i" using index month_index_mono [of "?g j" "?g i"] by fastforce
    then show "instant_on z ?c (?g i) \<le> instant_on z ?c (?g j)" by (intro instant_mono [OF c]) simp
  qed (use k beyond in \<open>simp_all add: MAX_SEARCH_STEPS_def\<close>)
  then show ?thesis unfolding f_def y_def mo_def by (simp add: nextOccurrence_def Let_def)
qed

lemma annual_first:
  assumes c: "usable_cadence z (Annual month date h mi)" and after: "0 \<le> after" "0 \<le> local_day z (js_trunc after)"
  shows "\<exists>t. nextOccurrence z (Annual month date h mi) after = Some t \<and> first_after z (Annual month date h mi) after t"
proof -
  let ?c = "Annual month date h mi" and ?a = "local_day z (js_trunc after)" and ?from = "js_trunc after"
  define y where "y = getFullYear z ?from"
  note current = current_fields [OF after(2), folded y_def]
  define f where "f = (\<lambda>step. let year = y + int step in if daysInMonth z year month < date then None
       else after_or_none after (new_date z year (month - 1) date h mi))"
  have m: "0 \<le> month - 1" "month - 1 < 12" and date_range: "1 \<le> date"
    and fits: "date \<le> month_length True (nat (month - 1))"
    using c daysInMonth_length [of 2024 "month - 1"] leap_2024 by (simp_all add: usable_cadence_def)
  let ?P = "\<lambda>k. date \<le> month_length (leap_year (y + int k)) (nat (month - 1))" and ?g = "\<lambda>k. make_day (y + int k) (month - 1) date"
  have year: "year_from_day (?g k) = y + int k" if "?P k" for k
    using make_day_fields(1) [OF m date_range that] .
  obtain k where k: "1 \<le> k" "k < 9" "leap_year (y + int k)" using leap_year_within by blast
  have P: "?P k" using k fits by simp
  have beyond: "after < of_int (instant_on z ?c (?g k))"
  proof (rule instant_later [OF c after(1)])
    show "?a < ?g k" using year [OF P] k(1) year_from_day_mono [of "?g k" ?a] by (fastforce simp: y_def getFullYear_def)
  qed
  have "\<exists>t. first_some f 0 MAX_SEARCH_STEPS = Some t \<and> first_after z ?c after t"
  proof (rule search_first [where P = ?P and g = ?g and k = k])
    fix j
    show "f j = (if ?P j \<and> after < of_int (instant_on z ?c (?g j)) then Some (instant_on z ?c (?g j)) else None)"
      using current(2) m date_instant [of "y + int j" "month - 1" date ?c] daysInMonth_length [of "y + int j" "month - 1"]
      by (simp add: f_def Let_def after_or_none_def)
  next
    fix j
    assume "?P j"
    then show "falls_on ?c (?g j)" using make_day_fields(2,3) [OF m date_range] m by (simp add: falls_on_def)
  next
    fix day
    assume falls: "falls_on ?c day" and late: "after < of_int (instant_on z ?c day)"
    then have "y \<le> year_from_day day"
      unfolding y_def getFullYear_def by (intro year_from_day_mono instant_not_later [OF c after(1)])
    then obtain k where k: "year_from_day day = y + int k" by (metis zle_iff_zadd)
    have "int (month_from_day day) = month - 1" "date_from_day day = date"
      using falls by (simp_all add: falls_on_def)
    moreover from this have "nat (month - 1) = month_from_day day" by (metis nat_int)
    ultimately show "\<exists>k. ?P k \<and> day = ?g k"
      using day_fields(3,4) [of day] k by (intro exI [of _ k]) simp
  next
    fix i j :: nat
    assume "?P i" "?P j" "i < j"
    then have "\<not> ?g j \<le> ?g i" using year year_from_day_mono [of "?g j" "?g i"] by fastforce
    then show "instant_on z ?c (?g i) \<le> instant_on z ?c (?g j)" by (intro instant_mono [OF c]) simp
  qed (use k P beyond in \<open>simp_all add: MAX_SEARCH_STEPS_def\<close>)
  then show ?thesis unfolding f_def y_def by (simp add: nextOccurrence_def Let_def)
qed

lemma nextOccurrence_first:
  assumes "usable_cadence z c" and "0 \<le> after" "0 \<le> local_day z (js_trunc after)"
  shows "\<exists>t. nextOccurrence z c after = Some t \<and> first_after z c after t"
  using assms daily_first weekly_first monthly_first annual_first by (cases c) blast+

end

subsection \<open>Stored and read back\<close>

definition usable_target :: "schedule_target \<Rightarrow> bool" where
  "usable_target t =
     (case t of
        Target_Shortcut i \<Rightarrow> i \<noteq> []
      | Target_Workflow i \<Rightarrow> i \<noteq> []
      | Target_Skill i v \<Rightarrow> i \<noteq> [] \<and> version_text v)"

definition usable_record :: "time_zone \<Rightarrow> schedule_record \<Rightarrow> bool" where
  "usable_record z r =
     (sc_scheduleId r \<noteq> [] \<and> sc_displayName r \<noteq> [] \<and> usable_cadence z (sc_cadence r) \<and> usable_target (sc_target r))"

definition usable_run :: "schedule_run \<Rightarrow> bool" where
  "usable_run r = (sr_runId r \<noteq> [] \<and> sr_scheduleId r \<noteq> [])"

lemma isWholeNumber_int [simp]:
  "isWholeNumber (int_json i) low high = (if low \<le> i \<and> i \<le> high then Some i else None)"
  by (simp add: isWholeNumber_def int_json_def rat_integer_def)

lemma finite_time_json [simp]: "finite_time (time_json q) = Some q"
  by (simp add: finite_time_def time_json_def)

lemma nonempty_string_Str [simp]: "nonempty_string (JStr s) = (if s = [] then None else Some s)"
  by (simp add: nonempty_string_def)

lemma json_get_Cons [simp]: "json_get ((k, v) # rest) k' = (if k' = k then v else json_get rest k')"
  by (simp add: json_get_def)

lemma cadence_roundtrip: "isUsableCadence z (cadence_json c) = (if usable_cadence z c then Some c else None)"
  by (cases c) (auto simp: isUsableCadence_def usable_cadence_def)

lemma target_roundtrip: "isUsableTarget (target_json t) = (if usable_target t then Some t else None)"
  by (cases t) (auto simp: isUsableTarget_def usable_target_def)

lemma isWholeNumber_range: "isWholeNumber v low high = Some i \<Longrightarrow> low \<le> i \<and> i \<le> high"
  by (auto simp: isWholeNumber_def le_floor_iff floor_le_iff split: json.splits js_num.splits if_splits)

lemma isUsableCadence_usable: "isUsableCadence z v = Some c \<Longrightarrow> usable_cadence z c"
  by (auto simp: isUsableCadence_def usable_cadence_def dest!: isWholeNumber_range
      split: json.splits option.splits if_splits)

lemma isUsableTarget_usable: "isUsableTarget v = Some t \<Longrightarrow> usable_target t"
  by (auto simp: isUsableTarget_def usable_target_def nonempty_string_def split: json.splits option.splits if_splits)

lemma status_name: "map_of SCHEDULE_RUN_STATUSES (name_in SCHEDULE_RUN_STATUSES s) = Some s"
  by (cases s) (simp_all add: SCHEDULE_RUN_STATUSES_def name_in_def)

lemma reason_name: "map_of SCHEDULE_RUN_REASONS (name_in SCHEDULE_RUN_REASONS s) = Some s"
  by (cases s) (simp_all add: SCHEDULE_RUN_REASONS_def name_in_def)

lemma optional_in_field:
  "optional_in SCHEDULE_RUN_STATUSES (json_get (optional_field k (map_option (\<lambda>s. JStr (name_in SCHEDULE_RUN_STATUSES s)) s) @ rest) k)
    = (case s of None \<Rightarrow> optional_in SCHEDULE_RUN_STATUSES (json_get rest k) | Some _ \<Rightarrow> Some s)"
  "optional_in SCHEDULE_RUN_REASONS (json_get (optional_field k (map_option (\<lambda>s. JStr (name_in SCHEDULE_RUN_REASONS s)) r) @ rest) k)
    = (case r of None \<Rightarrow> optional_in SCHEDULE_RUN_REASONS (json_get rest k) | Some _ \<Rightarrow> Some r)"
  by (auto simp: optional_field_def optional_in_def status_name reason_name split: option.splits)

lemma json_get_optional_other [simp]: "k' \<noteq> k \<Longrightarrow> json_get (optional_field k v @ rest) k' = json_get rest k'"
  by (simp add: optional_field_def split: option.splits)

lemma json_get_optional_same: "json_get (optional_field k v @ rest) k = (case v of None \<Rightarrow> json_get rest k | Some j \<Rightarrow> j)"
  by (simp add: optional_field_def split: option.splits)

lemma json_get_Nil [simp]: "json_get [] k = JUndef"
  by (simp add: json_get_def)

lemma optional_in_undef [simp]: "optional_in table JUndef = Some None"
  by (simp add: optional_in_def)

lemma schedule_roundtrip: "isUsableSchedule z (schedule_json r) = (if usable_record z r then Some r else None)"
proof -
  have status: "optional_in SCHEDULE_RUN_STATUSES (json_get (optional_field ''lastRunStatus''
      (map_option (\<lambda>s. JStr (name_in SCHEDULE_RUN_STATUSES s)) (sc_lastRunStatus r)) @ rest) ''lastRunStatus'') = Some (sc_lastRunStatus r)"
    if "json_get rest ''lastRunStatus'' = JUndef" for rest
    using that by (simp add: optional_in_field split: option.splits)
  have reason: "optional_in SCHEDULE_RUN_REASONS (json_get (optional_field ''lastRunReason''
      (map_option (\<lambda>s. JStr (name_in SCHEDULE_RUN_REASONS s)) (sc_lastRunReason r)) @ []) ''lastRunReason'') = Some (sc_lastRunReason r)"
    by (simp add: optional_in_field del: append_Nil2 split: option.splits)
  have none: "json_get (optional_field ''lastRunReason'' v @ []) ''lastRunStatus'' = JUndef" for v
    by (simp add: optional_field_def split: option.splits)
  show ?thesis
    using status [OF none] reason
    by (cases r) (simp add: isUsableSchedule_def schedule_json_def cadence_roundtrip target_roundtrip usable_record_def)
qed

lemma run_roundtrip: "isUsableScheduleRun (run_json r) = (if usable_run r then Some r else None)"
proof -
  have reason: "optional_in SCHEDULE_RUN_REASONS (json_get (optional_field ''reason''
      (map_option (\<lambda>s. JStr (name_in SCHEDULE_RUN_REASONS s)) (sr_reason r)) @ rest) ''reason'') = Some (sr_reason r)"
    if "json_get rest ''reason'' = JUndef" for rest
    using that by (simp add: optional_in_field split: option.splits)
  have status: "optional_in SCHEDULE_RUN_STATUSES (JStr (name_in SCHEDULE_RUN_STATUSES s)) = Some (Some s)" for s
    by (simp add: optional_in_def status_name)
  have none: "json_get (optional_field ''taskId'' v @ []) ''reason'' = JUndef" for v
    by (simp add: optional_field_def split: option.splits)
  have task: "json_get (optional_field ''taskId'' (map_option JStr t) @ []) ''taskId'' = (case t of None \<Rightarrow> JUndef | Some i \<Rightarrow> JStr i)" for t
    by (simp add: optional_field_def split: option.splits)
  show ?thesis
    using reason [OF none] task [of "sr_taskId r"]
    by (cases r; cases "sr_taskId r") (simp_all add: isUsableScheduleRun_def run_json_def usable_run_def status)
qed

lemma isUsableSchedule_usable: "isUsableSchedule z v = Some r \<Longrightarrow> usable_record z r"
  by (auto simp: isUsableSchedule_def usable_record_def nonempty_string_def
      dest: isUsableCadence_usable isUsableTarget_usable split: json.splits option.splits if_splits bool.splits)

lemma schedule_keys_safe:
  "list_all (\<lambda>k. js_lower k \<notin> set SCHEDULE_PROHIBITED_FIELDS)
    [''scheduleId'', ''formatVersion'', ''displayName'', ''target'', ''cadence'', ''enabled'', ''createdAt'', ''updatedAt'',
     ''nextRunAt'', ''lastClaimedOccurrenceAt'', ''lastRunAt'', ''lastRunStatus'', ''lastRunReason'', ''kind'', ''hour'',
     ''minute'', ''weekday'', ''day'', ''month'', ''shortcutId'', ''workflowId'', ''skillId'', ''skillVersion'', ''runId'',
     ''occurrenceAt'', ''startedAt'', ''status'', ''finishedAt'', ''reason'', ''taskId'']"
  by code_simp

lemmas safe_keys = schedule_keys_safe [unfolded list.pred_inject]

lemma walk_entries_iff:
  "schedule_walk_entries entries path depth = None \<longleftrightarrow>
    (\<forall>(k, v) \<in> set entries. js_lower k \<notin> set SCHEDULE_PROHIBITED_FIELDS \<and> schedule_walk v (path @ [k]) depth = None)"
proof (induction entries)
  case (Cons e entries)
  then show ?case by (cases e) (simp split: option.split)
qed simp

lemma walk_leaf [simp]:
  "depth \<le> 6 \<Longrightarrow> schedule_walk (JStr s) path depth = None"
  "depth \<le> 6 \<Longrightarrow> schedule_walk (time_json q) path depth = None"
  "depth \<le> 6 \<Longrightarrow> schedule_walk (JBool b) path depth = None"
  "depth \<le> 6 \<Longrightarrow> schedule_walk (JNum n) path depth = None"
  "depth \<le> 6 \<Longrightarrow> schedule_walk (int_json i) path depth = None"
  "depth \<le> 6 \<Longrightarrow> schedule_walk JUndef path depth = None"
  by (simp_all add: schedule_walk.simps(1) MAX_SCHEDULE_DEPTH_def time_json_def int_json_def)

lemma walk_object:
  "depth \<le> 6 \<Longrightarrow> schedule_walk (JObj entries) path depth = schedule_walk_entries entries path (Suc depth)"
  by (simp add: schedule_walk.simps(1) MAX_SCHEDULE_DEPTH_def)

lemma walk_cadence [simp]: "depth \<le> 5 \<Longrightarrow> schedule_walk (cadence_json c) path depth = None"
  using safe_keys by (cases c) (simp_all add: walk_object)

lemma walk_target [simp]: "depth \<le> 5 \<Longrightarrow> schedule_walk (target_json t) path depth = None"
  using safe_keys by (cases t) (simp_all add: walk_object)

text \<open>A schedule is made of fields a schedule may carry.\<close>

lemma schedule_json_safe:
  "assertScheduleSafe (schedule_json r) = None \<longleftrightarrow> schedule_walk (sc_lastRunAt r) [''lastRunAt''] 1 = None"
  using safe_keys
  by (cases "sc_lastRunStatus r"; cases "sc_lastRunReason r")
    (simp_all add: assertScheduleSafe_def schedule_json_def walk_object walk_entries_iff optional_field_def
      del: schedule_walk_entries.simps)

lemma run_json_safe:
  "assertScheduleSafe (run_json r) = None \<longleftrightarrow> schedule_walk (sr_finishedAt r) [''finishedAt''] 1 = None"
  using safe_keys
  by (cases "sr_reason r"; cases "sr_taskId r")
    (simp_all add: assertScheduleSafe_def run_json_def walk_object walk_entries_iff optional_field_def
      del: schedule_walk_entries.simps)

text \<open>What a safe stored object holds under a name is safe at that name.\<close>

lemma walk_entries_get:
  assumes "schedule_walk_entries entries path depth = None" and "depth \<le> 6"
  shows "schedule_walk (json_get entries k) (path @ [k]) depth = None"
proof (cases "map_of entries k")
  case (Some v)
  then have "(k, v) \<in> set entries" by (rule map_of_SomeD)
  then show ?thesis using Some assms(1) by (auto simp: json_get_def walk_entries_iff)
qed (simp add: json_get_def assms(2))

subsection \<open>Properties\<close>

text \<open>
  C19. In a time zone whose days pass in order, \<open>nextOccurrence\<close> of a usable cadence always has a
  result: the first occurrence strictly after the instant, where an occurrence is a day the cadence
  falls on (days a month does not have are skipped) at its time of day.
\<close>

theorem next_occurrence_exact:
  assumes "day_zone z" and "usable_cadence z c" and "0 \<le> after" and "0 \<le> local_day z (js_trunc after)"
  shows "\<exists>t. nextOccurrence z c after = Some t \<and> first_after z c after t \<and>
    (\<forall>t'. first_after z c after t' \<longrightarrow> t' = t)"
  using day_zone.nextOccurrence_first [OF assms] first_after_unique by blast

text \<open>From 31 January 2024, 10:00, the next "31st of the month at 09:00" is in March.\<close>

theorem next_occurrence_exact_witness:
  "first_after (fixed_zone 0) (Monthly 31 9 0) 1706695200000 1711875600000"
proof -
  have found: "nextOccurrence (fixed_zone 0) (Monthly 31 9 0) 1706695200000 = Some 1711875600000"
    by code_simp
  have day: "local_day (fixed_zone 0) (js_trunc 1706695200000) = 19753"
    by (simp add: js_trunc_def local_day_def fixed_zone_def ms_per_day_def)
  have "\<exists>t. nextOccurrence (fixed_zone 0) (Monthly 31 9 0) 1706695200000 = Some t \<and>
      first_after (fixed_zone 0) (Monthly 31 9 0) 1706695200000 t \<and>
      (\<forall>t'. first_after (fixed_zone 0) (Monthly 31 9 0) 1706695200000 t' \<longrightarrow> t' = t)"
    by (rule next_occurrence_exact [OF fixed.day_zone_axioms]) (simp_all add: usable_cadence_def day)
  then show ?thesis using found by auto
qed

text \<open>
  What a schedule is stored as is read back as that schedule, exactly when its identifier and
  name are not empty and its cadence and target are usable; the same for the record of a run.
\<close>

theorem schedule_storage_roundtrip:
  "isUsableSchedule z (schedule_json r) = (if usable_record z r then Some r else None) \<and>
   isUsableScheduleRun (run_json run) = (if usable_run run then Some run else None)"
  by (simp add: schedule_roundtrip run_roundtrip)

end
