(* ===== verification/ScheduleClock.thy ===== *)
theory ScheduleClock
  imports ScheduleModel
begin

text \<open>
  \<open>src/schedules/schedule-clock.ts\<close>: on a wake-up, which occurrences of a schedule went past, which one
  is still run, and when to wake up next.
\<close>

subsection \<open>The verdict\<close>

definition RUN_GRACE_MS :: rat where
  "RUN_GRACE_MS = 10 * 60 * 1000"

definition MAX_ENUMERATED_OCCURRENCES :: nat where
  "MAX_ENUMERATED_OCCURRENCES = 32"

record due_verdict =
  dv_missed :: "rat list"
  dv_due :: "rat option"
  dv_nextRunAt :: rat
  dv_truncated :: bool

definition next_time :: "time_zone \<Rightarrow> schedule_cadence \<Rightarrow> rat \<Rightarrow> rat option" where
  "next_time z c t = map_option of_int (nextOccurrence z c t)"

text \<open>
  The loop over past occurrences, with room for \<open>n\<close> more: the occurrences found, the cursor it stops
  at, and whether it stopped for lack of room.
\<close>

fun past_walk :: "time_zone \<Rightarrow> schedule_cadence \<Rightarrow> rat \<Rightarrow> nat \<Rightarrow> rat option \<Rightarrow> rat list \<times> rat option \<times> bool" where
  "past_walk z c now n None = ([], None, False)"
| "past_walk z c now 0 (Some t) = ([], Some t, t \<le> now)"
| "past_walk z c now (Suc n) (Some t) =
     (if t \<le> now then (case past_walk z c now n (next_time z c t) of (past, rest) \<Rightarrow> (t # past, rest))
      else ([], Some t, False))"

fun last_walk :: "time_zone \<Rightarrow> schedule_cadence \<Rightarrow> rat \<Rightarrow> nat \<Rightarrow> rat option \<Rightarrow> rat option \<Rightarrow> rat option" where
  "last_walk z c now 0 candidate found = found"
| "last_walk z c now (Suc n) candidate found =
     (case candidate of
        None \<Rightarrow> found
      | Some t \<Rightarrow> if t \<le> now then last_walk z c now n (next_time z c t) (Some t) else found)"

definition search_window :: "schedule_cadence \<Rightarrow> rat" where
  "search_window c =
     (case c of
        Daily _ _ \<Rightarrow> 2
      | Weekly _ _ _ \<Rightarrow> 8
      | Monthly _ _ _ \<Rightarrow> 32
      | Annual _ _ _ _ \<Rightarrow> 367) * 24 * 60 * 60 * 1000"

definition lastOccurrenceAtOrBefore :: "time_zone \<Rightarrow> schedule_cadence \<Rightarrow> rat \<Rightarrow> rat option" where
  "lastOccurrenceAtOrBefore z c now = last_walk z c now 64 (next_time z c (now - search_window c)) None"

definition kept_sample :: "rat option \<Rightarrow> rat list \<Rightarrow> rat list" where
  "kept_sample recent past =
     (let keep = take (MAX_ENUMERATED_OCCURRENCES - 1) past
      in sort (case recent of Some t \<Rightarrow> if t \<notin> set keep then keep @ [t] else keep | None \<Rightarrow> keep))"

definition first_cursor :: "time_zone \<Rightarrow> schedule_record \<Rightarrow> rat option" where
  "first_cursor z s =
     (let low = max (sc_lastClaimedOccurrenceAt s) 0
      in if low < sc_nextRunAt s then Some (sc_nextRunAt s) else next_time z (sc_cadence s) low)"

definition occurrencesDue :: "time_zone \<Rightarrow> schedule_record \<Rightarrow> rat \<Rightarrow> due_verdict" where
  "occurrencesDue z s now =
     (if \<not> sc_enabled s then \<lparr>dv_missed = [], dv_due = None, dv_nextRunAt = sc_nextRunAt s, dv_truncated = False\<rparr>
      else case first_cursor z s of
        None \<Rightarrow> \<lparr>dv_missed = [], dv_due = None, dv_nextRunAt = sc_nextRunAt s, dv_truncated = False\<rparr>
      | Some start \<Rightarrow>
          (case past_walk z (sc_cadence s) now MAX_ENUMERATED_OCCURRENCES (Some start) of
             (walked, stop, truncated) \<Rightarrow>
              (let past = (if truncated
                    then kept_sample (lastOccurrenceAtOrBefore z (sc_cadence s) now) walked else walked);
                   cursor = (if truncated
                    then next_time z (sc_cadence s) (if past = [] then now else last past) else stop);
                   nextRunAt = (case cursor of Some t \<Rightarrow> t | None \<Rightarrow> sc_nextRunAt s)
               in if past = [] then
                    \<lparr>dv_missed = [], dv_due = None, dv_nextRunAt = nextRunAt, dv_truncated = truncated\<rparr>
                  else if now - last past \<le> RUN_GRACE_MS then
                    \<lparr>dv_missed = butlast past, dv_due = Some (last past), dv_nextRunAt = nextRunAt, dv_truncated = truncated\<rparr>
                  else
                    \<lparr>dv_missed = past, dv_due = None, dv_nextRunAt = nextRunAt, dv_truncated = truncated\<rparr>)))"

text \<open>The earliest wake-up over the enabled schedules (stored times are always finite).\<close>

fun nextWakeUp :: "schedule_record list \<Rightarrow> rat option" where
  "nextWakeUp schedules =
     foldl (\<lambda>earliest s.
       if \<not> sc_enabled s then earliest
       else case earliest of
         None \<Rightarrow> Some (sc_nextRunAt s)
       | Some t \<Rightarrow> if sc_nextRunAt s < t then Some (sc_nextRunAt s) else earliest) None schedules"

subsection \<open>The occurrences in order\<close>

text \<open>The occurrences of a cadence, as instants.\<close>

definition occurrence :: "time_zone \<Rightarrow> schedule_cadence \<Rightarrow> rat \<Rightarrow> bool" where
  "occurrence z c t = (\<exists>day. falls_on c day \<and> t = of_int (instant_on z c day))"

text \<open>\<open>in_reach\<close>: an instant from which the search for the next occurrence is exact.\<close>

definition in_reach :: "time_zone \<Rightarrow> rat \<Rightarrow> bool" where
  "in_reach z t = (0 \<le> t \<and> 0 \<le> local_day z (js_trunc t))"

lemma js_trunc_floor: "0 \<le> t \<Longrightarrow> js_trunc t = \<lfloor>t\<rfloor>"
  by (simp add: js_trunc_def)

context day_zone
begin

lemma in_reach_mono: "in_reach z t \<Longrightarrow> t \<le> t' \<Longrightarrow> in_reach z t'"
  using days_in_order [of "\<lfloor>t\<rfloor>" "\<lfloor>t'\<rfloor>"] floor_mono [of t t'] by (auto simp: in_reach_def js_trunc_floor)

lemma next_time_first:
  assumes "usable_cadence z c" and "in_reach z t"
  obtains t' where "next_time z c t = Some t'" "t < t'" "occurrence z c t'"
    "\<And>u. occurrence z c u \<Longrightarrow> t < u \<Longrightarrow> t' \<le> u"
proof -
  obtain n where n: "nextOccurrence z c t = Some n" "first_after z c t n"
    using nextOccurrence_first [OF assms(1)] assms(2) unfolding in_reach_def by blast
  have "next_time z c t = Some (of_int n)" by (simp add: next_time_def n(1))
  moreover have "t < of_int n" "occurrence z c (of_int n)" using n(2) by (auto simp: first_after_def occurrence_def)
  moreover have "of_int n \<le> u" if "occurrence z c u" "t < u" for u
    using n(2) that by (auto simp: first_after_def occurrence_def)
  ultimately show ?thesis using that by blast
qed

text \<open>What the walk finds: exactly the occurrences up to \<open>now\<close>, in order, unless it runs out of room.\<close>

lemma past_walk_sound:
  assumes c: "usable_cadence z c"
  shows "in_reach z t \<Longrightarrow> past_walk z c now n (Some t) = (past, stop, truncated) \<Longrightarrow>
    sorted_wrt (<) past \<and> (\<forall>u \<in> set past. t \<le> u \<and> u \<le> now) \<and> length past \<le> n \<and>
    (\<exists>u. stop = Some u \<and> (u \<le> now \<longleftrightarrow> truncated) \<and> t \<le> u \<and> (\<forall>p \<in> set past. p < u)) \<and>
    (truncated \<longrightarrow> length past = n) \<and>
    (\<not> truncated \<longrightarrow> (\<forall>u. occurrence z c u \<and> t < u \<and> u \<le> now \<longrightarrow> u \<in> set past)) \<and>
    (t \<le> now \<and> 0 < n \<longrightarrow> t \<in> set past) \<and>
    (\<forall>u \<in> set past. u = t \<or> occurrence z c u \<and> t < u)"
proof (induction n arbitrary: t past stop truncated)
  case 0
  then show ?case by auto
next
  case (Suc n)
  show ?case
  proof (cases "t \<le> now")
    case False
    then show ?thesis using Suc.prems by auto
  next
    case True
    obtain t' where t': "next_time z c t = Some t'" "t < t'" "occurrence z c t'" "\<And>u. occurrence z c u \<Longrightarrow> t < u \<Longrightarrow> t' \<le> u"
      using next_time_first [OF c Suc.prems(1)] by metis
    obtain past' where rest: "past_walk z c now n (Some t') = (past', stop, truncated)" "past = t # past'"
      using Suc.prems(2) True t'(1) by (auto split: prod.splits)
    have "in_reach z t'" using in_reach_mono [OF Suc.prems(1)] t'(2) by simp
    note IH = Suc.IH [OF this rest(1)]
    have order: "sorted_wrt (<) past'" "\<forall>u \<in> set past'. t' \<le> u \<and> u \<le> now" "length past' \<le> n"
      and stop: "\<exists>u. stop = Some u \<and> (u \<le> now \<longleftrightarrow> truncated) \<and> t' \<le> u \<and> (\<forall>p \<in> set past'. p < u)"
      and full: "truncated \<longrightarrow> length past' = n"
      and complete: "\<not> truncated \<longrightarrow> (\<forall>u. occurrence z c u \<and> t' < u \<and> u \<le> now \<longrightarrow> u \<in> set past')"
      and first: "t' \<le> now \<and> 0 < n \<longrightarrow> t' \<in> set past'"
      and known: "\<forall>u \<in> set past'. u = t' \<or> occurrence z c u \<and> t' < u"
      using IH by blast+
    have "u \<in> set past" if "\<not> truncated" "occurrence z c u" "t < u" "u \<le> now" for u
    proof (cases "u = t'")
      case True
      have "0 < n" using that rest(1) True by (cases n) auto
      then show ?thesis using first that(4) True rest(2) by simp
    next
      case False
      then show ?thesis using t'(4) that complete rest(2) by (simp add: order_less_le)
    qed
    moreover have "\<exists>u. stop = Some u \<and> (u \<le> now \<longleftrightarrow> truncated) \<and> t \<le> u \<and> (\<forall>p \<in> set past. p < u)"
    proof -
      obtain u where u: "stop = Some u" "u \<le> now \<longleftrightarrow> truncated" "t' \<le> u" "\<forall>p \<in> set past'. p < u"
        using stop by blast
      then have "t \<le> u" "\<forall>p \<in> set past. p < u" using t'(2) rest(2) by auto
      then show ?thesis using u by blast
    qed
    moreover have "sorted_wrt (<) past" "\<forall>u \<in> set past. t \<le> u \<and> u \<le> now"
      using order(1,2) t'(2) True unfolding rest(2) by auto
    moreover have "\<forall>u \<in> set past. u = t \<or> occurrence z c u \<and> t < u"
      using known t'(2,3) rest(2) by auto
    ultimately show ?thesis using order(3) full rest(2) by auto
  qed
qed


lemma first_cursor_start:
  assumes "usable_cadence z (sc_cadence s)" and "in_reach z (max (sc_lastClaimedOccurrenceAt s) 0)"
  obtains start where "first_cursor z s = Some start" "max (sc_lastClaimedOccurrenceAt s) 0 < start" "in_reach z start"
proof (cases "max (sc_lastClaimedOccurrenceAt s) 0 < sc_nextRunAt s")
  case True
  then show ?thesis
    using that [of "sc_nextRunAt s"] in_reach_mono [OF assms(2), of "sc_nextRunAt s"]
    by (simp add: first_cursor_def Let_def)
next
  case False
  obtain t where "next_time z (sc_cadence s) (max (sc_lastClaimedOccurrenceAt s) 0) = Some t"
    "max (sc_lastClaimedOccurrenceAt s) 0 < t"
    using next_time_first [OF assms] by metis
  moreover have "first_cursor z s = next_time z (sc_cadence s) (max (sc_lastClaimedOccurrenceAt s) 0)"
    unfolding first_cursor_def Let_def using False by (rule if_not_P)
  ultimately show ?thesis using that [of t] in_reach_mono [OF assms(2), of t] by simp
qed

end

lemma last_walk_past: "last_walk z c now n candidate found = Some t \<Longrightarrow> found = None \<or> (\<exists>u. found = Some u \<and> u \<le> now) \<Longrightarrow> t \<le> now"
proof (induction n arbitrary: candidate found)
  case (Suc n)
  then show ?case by (cases candidate) (force split: if_splits)+
qed auto

lemma kept_sample_sound:
  assumes "sorted_wrt (<) past" and "\<forall>u \<in> set past. u \<le> now" and "\<And>t. recent = Some t \<Longrightarrow> t \<le> now"
  shows "sorted_wrt (<) (kept_sample recent past) \<and> (\<forall>u \<in> set (kept_sample recent past). u \<le> now) \<and>
    length (kept_sample recent past) \<le> MAX_ENUMERATED_OCCURRENCES"
proof -
  define keep where "keep = take (MAX_ENUMERATED_OCCURRENCES - 1) past"
  define xs where "xs = (case recent of Some t \<Rightarrow> if t \<notin> set keep then keep @ [t] else keep | None \<Rightarrow> keep)"
  have keep: "sorted_wrt (<) keep" "\<forall>u \<in> set keep. u \<le> now" "length keep \<le> MAX_ENUMERATED_OCCURRENCES - 1"
    using assms(1,2) in_set_takeD [of _ "MAX_ENUMERATED_OCCURRENCES - 1" past]
    by (auto simp: keep_def sorted_wrt_take)
  have "distinct keep" using keep(1) by (simp add: strict_sorted_iff)
  then have "distinct xs" "\<forall>u \<in> set xs. u \<le> now" "length xs \<le> MAX_ENUMERATED_OCCURRENCES"
    using keep(2,3) assms(3) by (auto simp: xs_def MAX_ENUMERATED_OCCURRENCES_def split: option.splits)
  moreover have "kept_sample recent past = sort xs"
    by (simp only: kept_sample_def Let_def xs_def keep_def)
  ultimately show ?thesis by (simp add: strict_sorted_iff)
qed

lemma sorted_split_last: "sorted_wrt (<) xs \<Longrightarrow> xs \<noteq> [] \<Longrightarrow> butlast xs @ [last xs] = xs"
  by simp

text \<open>All occurrences a verdict names, oldest first.\<close>

definition named :: "due_verdict \<Rightarrow> rat list" where
  "named v = dv_missed v @ (case dv_due v of None \<Rightarrow> [] | Some t \<Rightarrow> [t])"

lemma occurrencesDue_cases:
  assumes "sc_enabled s" and "first_cursor z s = Some start"
    and "past_walk z (sc_cadence s) now MAX_ENUMERATED_OCCURRENCES (Some start) = (walked, stop, truncated)"
  shows "named (occurrencesDue z s now) =
      (if truncated then kept_sample (lastOccurrenceAtOrBefore z (sc_cadence s) now) walked else walked)"
    and "dv_truncated (occurrencesDue z s now) = truncated"
    and "dv_due (occurrencesDue z s now) = Some t \<Longrightarrow> now - t \<le> RUN_GRACE_MS"
    and "\<not> truncated \<Longrightarrow> stop = Some u \<Longrightarrow> dv_nextRunAt (occurrencesDue z s now) = u"
  using assms by (auto simp: occurrencesDue_def named_def Let_def split: if_splits option.splits)

subsection \<open>Properties\<close>

text \<open>
  C20. A paused schedule has nothing due. Otherwise what a wake-up names, the missed occurrences
  followed by the one to run, is strictly ordered, past, and at most 32 long; only the last may run,
  and only within ten minutes; unless the list is a sample, it is exactly the cursor and the
  occurrences after it up to now, all of them later than the last one claimed, and the clock is left
  at a later instant.
\<close>

theorem due_verdict_sound:
  fixes now :: rat
  assumes zone: "day_zone z" and c: "usable_cadence z (sc_cadence s)"
    and reach: "in_reach z (max (sc_lastClaimedOccurrenceAt s) 0)"
  defines "v \<equiv> occurrencesDue z s now"
  shows "(\<not> sc_enabled s \<longrightarrow> named v = []) \<and>
    sorted_wrt (<) (named v) \<and> (\<forall>t \<in> set (named v). t \<le> now) \<and> length (named v) \<le> MAX_ENUMERATED_OCCURRENCES \<and>
    (\<forall>t. dv_due v = Some t \<longrightarrow> now - t \<le> RUN_GRACE_MS) \<and>
    (sc_enabled s \<and> \<not> dv_truncated v \<longrightarrow> now < dv_nextRunAt v \<and>
      (\<exists>start. first_cursor z s = Some start \<and> max (sc_lastClaimedOccurrenceAt s) 0 < start \<and>
        set (named v) = {u. (u = start \<or> occurrence z (sc_cadence s) u \<and> start < u) \<and> u \<le> now}))"
proof (cases "sc_enabled s")
  case False
  then show ?thesis by (simp add: v_def occurrencesDue_def named_def)
next
  case True
  obtain start where start: "first_cursor z s = Some start" "max (sc_lastClaimedOccurrenceAt s) 0 < start" "in_reach z start"
    by (rule day_zone.first_cursor_start [OF zone c reach])
  obtain walked stop truncated where walk:
    "past_walk z (sc_cadence s) now MAX_ENUMERATED_OCCURRENCES (Some start) = (walked, stop, truncated)"
    by (cases "past_walk z (sc_cadence s) now MAX_ENUMERATED_OCCURRENCES (Some start)")
  note verdict = occurrencesDue_cases [OF True start(1) walk, folded v_def]
  from day_zone.past_walk_sound [OF zone c start(3) walk]
  have walked: "sorted_wrt (<) walked" "\<forall>u \<in> set walked. start \<le> u \<and> u \<le> now" "length walked \<le> MAX_ENUMERATED_OCCURRENCES"
    and complete: "\<not> truncated \<longrightarrow> (\<forall>u. occurrence z (sc_cadence s) u \<and> start < u \<and> u \<le> now \<longrightarrow> u \<in> set walked)"
    and first: "start \<le> now \<longrightarrow> start \<in> set walked"
    and known: "\<forall>u \<in> set walked. u = start \<or> occurrence z (sc_cadence s) u \<and> start < u"
    and stop: "\<exists>u. stop = Some u \<and> (u \<le> now \<longleftrightarrow> truncated)"
    by (auto simp: MAX_ENUMERATED_OCCURRENCES_def)
  have recent: "t \<le> now" if "lastOccurrenceAtOrBefore z (sc_cadence s) now = Some t" for t
    using last_walk_past that unfolding lastOccurrenceAtOrBefore_def by blast
  have sample: "sorted_wrt (<) (named v) \<and> (\<forall>t \<in> set (named v). t \<le> now) \<and> length (named v) \<le> MAX_ENUMERATED_OCCURRENCES"
    using kept_sample_sound [of walked now "lastOccurrenceAtOrBefore z (sc_cadence s) now"] walked recent
    unfolding verdict(1) by simp
  have exact: "now < dv_nextRunAt v \<and> set (named v) = {u. (u = start \<or> occurrence z (sc_cadence s) u \<and> start < u) \<and> u \<le> now}"
    if "\<not> truncated"
  proof -
    obtain u where u: "stop = Some u" "u \<le> now \<longleftrightarrow> truncated" using stop by blast
    then have "now < dv_nextRunAt v" using verdict(4) [OF that] that by simp
    moreover have "set walked = {u. (u = start \<or> occurrence z (sc_cadence s) u \<and> start < u) \<and> u \<le> now}"
      using walked(2) complete that first known by auto
    ultimately show ?thesis using that by (simp add: verdict(1))
  qed
  show ?thesis
  proof (intro conjI)
    show "\<not> sc_enabled s \<longrightarrow> named v = []" using True by simp
    show "\<forall>t. dv_due v = Some t \<longrightarrow> now - t \<le> RUN_GRACE_MS" using verdict(3) by blast
    show "sc_enabled s \<and> \<not> dv_truncated v \<longrightarrow> now < dv_nextRunAt v \<and>
      (\<exists>start. first_cursor z s = Some start \<and> max (sc_lastClaimedOccurrenceAt s) 0 < start \<and>
        set (named v) = {u. (u = start \<or> occurrence z (sc_cadence s) u \<and> start < u) \<and> u \<le> now})"
      unfolding verdict(2) using exact start(1,2) by blast
  qed (use sample in blast)+
qed

text \<open>A daily schedule at 09:00, three minutes late on its second morning.\<close>

definition morning :: schedule_record where
  "morning =
     \<lparr>sc_scheduleId = ''s'', sc_displayName = ''n'', sc_target = Target_Workflow ''w'', sc_cadence = Daily 9 0,
      sc_enabled = True, sc_createdAt = 0, sc_updatedAt = 0, sc_nextRunAt = 32400000,
      sc_lastClaimedOccurrenceAt = 0, sc_lastRunAt = JUndef, sc_lastRunStatus = None, sc_lastRunReason = None\<rparr>"

theorem due_verdict_sound_witness:
  "sorted_wrt (<) (named (occurrencesDue (fixed_zone 0) morning 118980000)) \<and>
   length (named (occurrencesDue (fixed_zone 0) morning 118980000)) \<le> MAX_ENUMERATED_OCCURRENCES"
proof -
  have "usable_cadence (fixed_zone 0) (sc_cadence morning)" by (simp add: morning_def usable_cadence_def)
  moreover have "in_reach (fixed_zone 0) (max (sc_lastClaimedOccurrenceAt morning) 0)"
    by (simp add: morning_def in_reach_def js_trunc_def local_day_def fixed_zone_def ms_per_day_def)
  ultimately show ?thesis using due_verdict_sound [OF fixed.day_zone_axioms] by blast
qed

end
