(* ===== verification/RecordStore.thy ===== *)
theory RecordStore
  imports PersistenceHealth
begin

text \<open>
  \<open>src/storage/record-store.ts\<close>: the collection store under schedules, shortcuts, workspaces,
  workflows and MCP servers. Records of a kind lie one per key in a versioned envelope, an index
  holds their identifiers newest first, older generations are migrated on the first access.

  Stored values are JSON, because the store checks everything it reads; \<open>validate\<close>, \<open>identify\<close>, the
  migration steps and the extraction of a legacy blob are the options the client passes
  (a step or an extraction that throws is \<open>None\<close>). The areas underneath never fail here. Each
  operation is one step: every read-modify-write runs in a transaction of the serialised area
  (theory \<open>Storage\<close>). \<open>rs_reports\<close> lists the calls of \<open>health.report('storage', state, reason)\<close>.
\<close>

subsection \<open>Options and state\<close>

record record_migration =
  mg_from :: nat
  mg_to :: nat
  mg_migrate :: "json \<Rightarrow> json option"

datatype legacy_source =
    Blob (blob_key: string) (blob_extract: "json \<Rightarrow> json list option") (legacy_version: nat)
  | Versioned (legacy_version: nat)

text \<open>\<open>ro_string\<close> is \<open>String(value)\<close>, which names the key of an index entry that is not a string.\<close>

record record_options =
  ro_kind :: string
  ro_version :: nat
  ro_identify :: "json \<Rightarrow> string"
  ro_validate :: "json \<Rightarrow> bool"
  ro_migrations :: "record_migration list"
  ro_legacy :: "legacy_source list"
  ro_max :: nat
  ro_string :: "json \<Rightarrow> string"

record upgrade_outcome =
  uo_migrated :: nat
  uo_quarantined :: nat
  uo_from :: "nat option"

record record_state =
  rs_area :: "json storage_area"
  rs_upgrade :: "upgrade_outcome option"
  rs_reports :: "(persistence_state \<times> string) list"

text \<open>The constructor refuses a chain whose steps do not advance one version, or have a gap.\<close>

fun chain_ok :: "nat option \<Rightarrow> record_migration list \<Rightarrow> bool" where
  "chain_ok previous [] = True"
| "chain_ok previous (step # steps) =
     (mg_to step = mg_from step + 1 \<and>
      (case previous of None \<Rightarrow> True | Some p \<Rightarrow> mg_from step = p + 1) \<and>
      chain_ok (Some (mg_from step)) steps)"

subsection \<open>Keys and stored values\<close>

definition keyPrefix :: "record_options \<Rightarrow> nat \<Rightarrow> string" where
  "keyPrefix opts version = ro_kind opts @ '':v'' @ show_nat version @ '':''"

definition recordKey :: "record_options \<Rightarrow> string \<Rightarrow> string" where
  "recordKey opts rid = keyPrefix opts (ro_version opts) @ rid"

definition indexKey :: "record_options \<Rightarrow> nat \<Rightarrow> string" where
  "indexKey opts version = keyPrefix opts version @ ''index''"

definition lookup_json :: "json storage_area \<Rightarrow> string \<Rightarrow> json" where
  "lookup_json area key = (case area_get area key of None \<Rightarrow> JUndef | Some v \<Rightarrow> v)"

definition envelope :: "nat \<Rightarrow> json \<Rightarrow> json" where
  "envelope version record = JObj [(''v'', JNum (Fin (of_nat version))), (''record'', record)]"

definition isEnvelope :: "json \<Rightarrow> (js_num \<times> json) option" where
  "isEnvelope value =
     (case value of
        JObj entries \<Rightarrow>
          (case json_get entries ''v'' of
             JNum v \<Rightarrow> if ''record'' \<in> fst ` set entries then Some (v, json_get entries ''record'') else None
           | _ \<Rightarrow> None)
      | _ \<Rightarrow> None)"

definition index_value :: "json list \<Rightarrow> json" where
  "index_value ids = JObj [(''ids'', JArr ids)]"

text \<open>
  The \<open>ids\<close> a transaction on the index works on: its fallback where nothing is stored,
  \<open>None\<close> where \<open>i.ids.filter\<close> throws.
\<close>

definition index_entries :: "json \<Rightarrow> json list option" where
  "index_entries stored =
     (case stored of
        JUndef \<Rightarrow> Some []
      | JNull \<Rightarrow> Some []
      | JObj entries \<Rightarrow> (case json_get entries ''ids'' of JArr ids \<Rightarrow> Some ids | _ \<Rightarrow> None)
      | _ \<Rightarrow> None)"

fun string_entries :: "json list \<Rightarrow> string list" where
  "string_entries [] = []"
| "string_entries (JStr s # xs) = s # string_entries xs"
| "string_entries (_ # xs) = string_entries xs"

definition report_storage :: "persistence_state \<Rightarrow> string \<Rightarrow> record_state \<Rightarrow> record_state" where
  "report_storage state reason s = s\<lparr>rs_reports := rs_reports s @ [(state, reason)]\<rparr>"

text \<open>\<open>readIndex\<close>: nothing stored is an empty index, anything malformed is reported and read as one.\<close>

definition readIndex :: "record_options \<Rightarrow> record_state \<Rightarrow> string list \<times> record_state" where
  "readIndex opts s =
     (let stored = lookup_json (rs_area s) (indexKey opts (ro_version opts)) in
      if stored = JUndef then ([], s)
      else case (if stored = JNull then None else index_entries stored) of
        None \<Rightarrow> ([], report_storage CORRUPT (ro_kind opts @ '': the index is malformed'') s)
      | Some ids \<Rightarrow> (string_entries ids, s))"

subsection \<open>Migration of one record\<close>

text \<open>
  The loop of \<open>migrate\<close>; the version after a step is its \<open>to\<close>, which the constructor has checked to
  be \<open>from + 1\<close>.
\<close>

function migrate_steps :: "record_options \<Rightarrow> json \<Rightarrow> nat \<Rightarrow> json option" where
  "migrate_steps opts current version =
     (if version < ro_version opts then
        (case List.find (\<lambda>step. mg_from step = version) (ro_migrations opts) of
           None \<Rightarrow> None
         | Some step \<Rightarrow>
             (case mg_migrate step current of
                None \<Rightarrow> None
              | Some after \<Rightarrow> migrate_steps opts after (version + 1)))
      else if ro_validate opts current then Some current else None)"
  by pat_completeness auto

termination
  by (relation "measure (\<lambda>(opts, current, version). ro_version opts - version)") auto

declare migrate_steps.simps [simp del]

definition migrate :: "record_options \<Rightarrow> json \<Rightarrow> js_num \<Rightarrow> json option" where
  "migrate opts record from_version =
     (case from_version of
        Fin q \<Rightarrow>
          if of_nat (ro_version opts) < q then None
          else if q < of_nat (ro_version opts) \<and> \<not> (rat_integer q \<and> 0 \<le> q) then None
          else migrate_steps opts record (nat \<lfloor>q\<rfloor>)
      | PosInf \<Rightarrow> None
      | NegInf \<Rightarrow> None
      | NaN \<Rightarrow> if ro_validate opts record then Some record else None)"

definition readRecord :: "record_options \<Rightarrow> json storage_area \<Rightarrow> string \<Rightarrow> json option" where
  "readRecord opts area rid =
     (let stored = lookup_json area (recordKey opts rid) in
      if stored = JUndef then None
      else case isEnvelope stored of
        Some (v, record) \<Rightarrow> migrate opts record v
      | None \<Rightarrow> migrate opts stored (Fin 1))"

subsection \<open>Writing\<close>

definition evicted :: "record_options \<Rightarrow> json list \<Rightarrow> json storage_area \<Rightarrow> string list" where
  "evicted opts ids area =
     (let pre = keyPrefix opts (ro_version opts) in
      filter (\<lambda>rid. rid \<noteq> ''index'' \<and> JStr rid \<notin> set ids)
        (map (drop (length pre)) (filter (prefix pre) (area_keys area))))"

definition evict :: "record_options \<Rightarrow> json list \<Rightarrow> json storage_area \<Rightarrow> string list \<times> json storage_area" where
  "evict opts ids area =
     (let removed = evicted opts ids area
      in (removed, fold area_remove (map (recordKey opts) removed) area))"

definition newest_first :: "record_options \<Rightarrow> string \<Rightarrow> json list \<Rightarrow> json list" where
  "newest_first opts rid ids = take (ro_max opts) (JStr rid # filter (\<lambda>existing. existing \<noteq> JStr rid) ids)"

text \<open>\<open>write\<close>: \<open>None\<close> where the transaction on the index throws; the record is already set then.\<close>

definition write_record ::
  "record_options \<Rightarrow> json \<Rightarrow> json storage_area \<Rightarrow> string list option \<times> json storage_area" where
  "write_record opts record area =
     (let rid = ro_identify opts record;
          area = area_set (recordKey opts rid) (envelope (ro_version opts) record) area;
          key = indexKey opts (ro_version opts)
      in case index_entries (lookup_json area key) of
           None \<Rightarrow> (None, area)
         | Some ids \<Rightarrow>
             (let next = newest_first opts rid ids;
                  result = evict opts next (area_set key (index_value next) area)
              in (Some (fst result), snd result)))"

fun write_all :: "record_options \<Rightarrow> json list \<Rightarrow> json storage_area \<Rightarrow> bool \<times> json storage_area" where
  "write_all opts [] area = (True, area)"
| "write_all opts (record # records) area =
     (case write_record opts record area of
        (None, area) \<Rightarrow> (False, area)
      | (Some removed, area) \<Rightarrow> write_all opts records area)"

subsection \<open>The upgrade\<close>

text \<open>
  What \<open>readLegacy\<close> comes to: nothing to migrate, a malformed blob (reported), the records of an
  older generation, or an exception (an index of that generation that is \<open>null\<close>).
\<close>

datatype legacy_read = No_Legacy | Malformed_Blob | Legacy_Records "json list" | Legacy_Throws

definition legacy_entry :: "record_options \<Rightarrow> nat \<Rightarrow> json storage_area \<Rightarrow> string \<Rightarrow> json option" where
  "legacy_entry opts version area rid =
     (case lookup_json area (keyPrefix opts version @ rid) of
        JUndef \<Rightarrow> None
      | stored \<Rightarrow> Some (case isEnvelope stored of Some (v, record) \<Rightarrow> record | None \<Rightarrow> stored))"

definition readLegacy :: "record_options \<Rightarrow> legacy_source \<Rightarrow> json storage_area \<Rightarrow> legacy_read" where
  "readLegacy opts source area =
     (case source of
        Blob key extract version \<Rightarrow>
          (case lookup_json area key of
             JUndef \<Rightarrow> No_Legacy
           | stored \<Rightarrow> (case extract stored of None \<Rightarrow> Malformed_Blob | Some records \<Rightarrow> Legacy_Records records))
      | Versioned version \<Rightarrow>
          (case lookup_json area (indexKey opts version) of
             JNull \<Rightarrow> Legacy_Throws
           | JObj entries \<Rightarrow>
               (case json_get entries ''ids'' of
                  JArr ids \<Rightarrow> Legacy_Records (List.map_filter (legacy_entry opts version area) (string_entries ids))
                | _ \<Rightarrow> No_Legacy)
           | _ \<Rightarrow> No_Legacy))"

text \<open>\<open>verify\<close> reads back the first accepted record only.\<close>

definition verify :: "record_options \<Rightarrow> json list \<Rightarrow> json storage_area \<Rightarrow> bool" where
  "verify opts accepted area =
     (case accepted of
        [] \<Rightarrow> True
      | sample # rest \<Rightarrow>
          (case isEnvelope (lookup_json area (recordKey opts (ro_identify opts sample))) of
             Some (v, record) \<Rightarrow> ro_validate opts record
           | None \<Rightarrow> False))"

definition entry_string :: "record_options \<Rightarrow> json \<Rightarrow> string" where
  "entry_string opts entry = (case entry of JStr s \<Rightarrow> s | _ \<Rightarrow> ro_string opts entry)"

definition clearLegacy :: "record_options \<Rightarrow> legacy_source \<Rightarrow> json storage_area \<Rightarrow> json storage_area" where
  "clearLegacy opts source area =
     (case source of
        Blob key extract version \<Rightarrow> area_remove key area
      | Versioned version \<Rightarrow>
          (let ids = (case index_entries (lookup_json area (indexKey opts version)) of None \<Rightarrow> [] | Some ids \<Rightarrow> ids)
           in area_remove (indexKey opts version)
                (fold area_remove (map (\<lambda>entry. keyPrefix opts version @ entry_string opts entry) ids) area)))"

definition accepted_records :: "record_options \<Rightarrow> legacy_source \<Rightarrow> json list \<Rightarrow> json list" where
  "accepted_records opts source records =
     List.map_filter (\<lambda>r. migrate opts r (Fin (of_nat (legacy_version source)))) records"

definition quarantined_records :: "record_options \<Rightarrow> legacy_source \<Rightarrow> json list \<Rightarrow> json list" where
  "quarantined_records opts source records =
     filter (\<lambda>r. migrate opts r (Fin (of_nat (legacy_version source))) = None) records"

text \<open>
  One source of \<open>runUpgrade\<close>. The quarantined count runs over all sources, and so does the report
  that quotes it. \<open>None\<close> is an upgrade that threw.
\<close>

definition upgrade_source ::
  "record_options \<Rightarrow> legacy_source \<Rightarrow> upgrade_outcome \<times> record_state \<Rightarrow> (upgrade_outcome option) \<times> record_state" where
  "upgrade_source opts source acc =
     (case acc of (outcome, s) \<Rightarrow>
      (case readLegacy opts source (rs_area s) of
         Legacy_Throws \<Rightarrow> (None, s)
       | No_Legacy \<Rightarrow> (Some outcome, s)
       | Malformed_Blob \<Rightarrow>
           (Some outcome, report_storage CORRUPT (ro_kind opts @ '': the legacy blob is malformed'') s)
       | Legacy_Records [] \<Rightarrow> (Some outcome, s)
       | Legacy_Records records \<Rightarrow>
           (let accepted = accepted_records opts source records;
                quarantined = uo_quarantined outcome + length (quarantined_records opts source records);
                outcome = outcome\<lparr>uo_quarantined := quarantined\<rparr>;
                written = write_all opts (rev accepted) (rs_area s);
                s = s\<lparr>rs_area := snd written\<rparr>
            in if \<not> fst written then (None, s)
               else if \<not> verify opts accepted (rs_area s) then
                 (Some outcome, report_storage DEGRADED (ro_kind opts @ '': the upgrade could not be verified'') s)
               else
                 (let s = s\<lparr>rs_area := clearLegacy opts source (rs_area s)\<rparr>;
                      outcome = outcome\<lparr>uo_migrated := uo_migrated outcome + length accepted,
                        uo_from := (case uo_from outcome of None \<Rightarrow> Some (legacy_version source) | f \<Rightarrow> f)\<rparr>
                  in (Some outcome,
                      if 0 < quarantined then
                        report_storage CORRUPT (ro_kind opts @ '': '' @ show_nat quarantined @ '' record(s) not upgraded'') s
                      else s)))))"

fun upgrade_sources ::
  "record_options \<Rightarrow> legacy_source list \<Rightarrow> upgrade_outcome \<times> record_state \<Rightarrow> (upgrade_outcome option) \<times> record_state" where
  "upgrade_sources opts [] acc = (Some (fst acc), snd acc)"
| "upgrade_sources opts (source # sources) acc =
     (case upgrade_source opts source acc of
        (None, s) \<Rightarrow> (None, s)
      | (Some outcome, s) \<Rightarrow> upgrade_sources opts sources (outcome, s))"

definition no_upgrade :: upgrade_outcome where
  "no_upgrade = \<lparr>uo_migrated = 0, uo_quarantined = 0, uo_from = None\<rparr>"

definition runUpgrade :: "record_options \<Rightarrow> record_state \<Rightarrow> (upgrade_outcome option) \<times> record_state" where
  "runUpgrade opts s = upgrade_sources opts (ro_legacy opts) (no_upgrade, s)"

text \<open>\<open>ensureUpgraded\<close>: once per store object; an upgrade that threw is reported and counts as done.\<close>

definition ensureUpgraded :: "record_options \<Rightarrow> record_state \<Rightarrow> record_state" where
  "ensureUpgraded opts s =
     (case rs_upgrade s of
        Some _ \<Rightarrow> s
      | None \<Rightarrow>
          (case runUpgrade opts s of
             (Some outcome, s) \<Rightarrow> s\<lparr>rs_upgrade := Some outcome\<rparr>
           | (None, s) \<Rightarrow>
               report_storage DEGRADED (ro_kind opts @ '': the storage upgrade did not complete'')
                 (s\<lparr>rs_upgrade := Some no_upgrade\<rparr>)))"

subsection \<open>Operations\<close>

definition store_list :: "record_options \<Rightarrow> record_state \<Rightarrow> json list \<times> record_state" where
  "store_list opts s =
     (let s = ensureUpgraded opts s;
          (ids, s) = readIndex opts s;
          records = List.map_filter (readRecord opts (rs_area s)) ids;
          unreadable = length ids - length records
      in (records,
          if 0 < unreadable then
            report_storage CORRUPT (ro_kind opts @ '': '' @ show_nat unreadable @ '' record(s) unreadable'') s
          else s))"

definition store_get :: "record_options \<Rightarrow> string \<Rightarrow> record_state \<Rightarrow> json option \<times> record_state" where
  "store_get opts rid s =
     (let s = ensureUpgraded opts s;
          (ids, s) = readIndex opts s
      in (if rid \<in> set ids then readRecord opts (rs_area s) rid else None, s))"

definition store_ids :: "record_options \<Rightarrow> record_state \<Rightarrow> string list \<times> record_state" where
  "store_ids opts s = readIndex opts (ensureUpgraded opts s)"

definition write_in :: "record_options \<Rightarrow> json \<Rightarrow> record_state \<Rightarrow> string list option \<times> record_state" where
  "write_in opts record s =
     (let result = write_record opts record (rs_area s) in (fst result, s\<lparr>rs_area := snd result\<rparr>))"

definition store_put :: "record_options \<Rightarrow> json \<Rightarrow> record_state \<Rightarrow> string list option \<times> record_state" where
  "store_put opts record s = write_in opts record (ensureUpgraded opts s)"

definition store_replace :: "record_options \<Rightarrow> json \<Rightarrow> record_state \<Rightarrow> bool \<times> record_state" where
  "store_replace opts record s =
     (let s = ensureUpgraded opts s;
          rid = ro_identify opts record;
          (ids, s) = readIndex opts s
      in if rid \<in> set ids then
           (True, s\<lparr>rs_area := area_set (recordKey opts rid) (envelope (ro_version opts) record) (rs_area s)\<rparr>)
         else
           (let result = write_in opts record s in (fst result \<noteq> None, snd result)))"

text \<open>
  \<open>mutate\<close>: the transaction writes back what it read unless the stored envelope is of this version
  and valid, the change is one, and its result is valid.
\<close>

definition mutated :: "record_options \<Rightarrow> (json \<Rightarrow> json option) \<Rightarrow> json \<Rightarrow> json option" where
  "mutated opts change stored =
     (case isEnvelope stored of
        Some (v, record) \<Rightarrow>
          if v \<noteq> Fin (of_nat (ro_version opts)) \<or> \<not> ro_validate opts record then None
          else (case change record of
                  Some after \<Rightarrow> if ro_validate opts after then Some after else None
                | None \<Rightarrow> None)
      | None \<Rightarrow> None)"

definition store_mutate ::
  "record_options \<Rightarrow> string \<Rightarrow> (json \<Rightarrow> json option) \<Rightarrow> record_state \<Rightarrow> json option \<times> record_state" where
  "store_mutate opts rid change s =
     (let s = ensureUpgraded opts s;
          key = recordKey opts rid;
          read = lookup_json (rs_area s) key;
          stored = (if read = JNull then JUndef else read);
          result = mutated opts change stored
      in (result,
          s\<lparr>rs_area := area_set key
             (case result of Some after \<Rightarrow> envelope (ro_version opts) after | None \<Rightarrow> stored) (rs_area s)\<rparr>))"

text \<open>\<open>remove\<close>: the flag is false where the transaction on the index throws.\<close>

definition store_remove :: "record_options \<Rightarrow> string \<Rightarrow> record_state \<Rightarrow> bool \<times> record_state" where
  "store_remove opts rid s =
     (let s = ensureUpgraded opts s;
          key = indexKey opts (ro_version opts)
      in case index_entries (lookup_json (rs_area s) key) of
           None \<Rightarrow> (False, s)
         | Some ids \<Rightarrow>
             (True, s\<lparr>rs_area := area_remove (recordKey opts rid)
                (area_set key (index_value (filter (\<lambda>existing. existing \<noteq> JStr rid) ids)) (rs_area s))\<rparr>))"

subsection \<open>Keys\<close>

lemma recordKey_inj [simp]: "recordKey opts a = recordKey opts b \<longleftrightarrow> a = b"
  by (simp add: recordKey_def)

lemma indexKey_record: "indexKey opts (ro_version opts) = recordKey opts ''index''"
  by (simp add: indexKey_def recordKey_def)

lemma lookup_set [simp]: "lookup_json (area_set k v area) k' = (if k' = k then v else lookup_json area k')"
  by (simp add: lookup_json_def store_simps)

lemma lookup_remove [simp]: "lookup_json (area_remove k area) k' = (if k' = k then JUndef else lookup_json area k')"
  by (simp add: lookup_json_def store_simps)

lemma lookup_fold_remove:
  "lookup_json (fold area_remove ks area) k = (if k \<in> set ks then JUndef else lookup_json area k)"
  by (simp add: lookup_json_def area.get_fold_remove)

lemma lookup_present: "lookup_json area k \<noteq> JUndef \<Longrightarrow> k \<in> set (area_keys area)"
  by (cases "area_get area k") (auto simp: lookup_json_def area_keys_iff)

lemma isEnvelope_envelope [simp]: "isEnvelope (envelope v r) = Some (Fin (of_nat v), r)"
  by (simp add: isEnvelope_def envelope_def json_get_def)

lemma envelope_inj [simp]: "envelope v r = envelope v r' \<longleftrightarrow> r = r'"
  by (simp add: envelope_def)

lemma envelope_neq [simp]: "envelope v r \<noteq> JUndef" "envelope v r \<noteq> JNull"
  by (simp_all add: envelope_def)

lemma index_value_neq [simp]:
  "index_value ids \<noteq> JUndef" "index_value ids \<noteq> JNull" "JUndef \<noteq> index_value ids" "JNull \<noteq> index_value ids"
  by (simp_all add: index_value_def)

lemma index_entries_value [simp]: "index_entries (index_value ids) = Some ids"
  by (simp add: index_entries_def index_value_def json_get_def)

lemma string_entries_map [simp]: "string_entries (map (\<lambda>x. JStr (f x)) xs) = map f xs"
  by (induction xs) auto

lemma migrate_current:
  "migrate opts r (Fin (of_nat (ro_version opts))) = (if ro_validate opts r then Some r else None)"
  by (simp add: migrate_def migrate_steps.simps)

lemma migrate_steps_valid: "migrate_steps opts r v = Some r' \<Longrightarrow> ro_validate opts r'"
proof (induction opts r v rule: migrate_steps.induct)
  case (1 opts r v)
  then show ?case
    unfolding migrate_steps.simps [of opts r v] by (auto split: if_splits option.splits)
qed

lemma migrate_valid: "migrate opts r v = Some r' \<Longrightarrow> ro_validate opts r'"
  by (auto simp: migrate_def migrate_steps_valid split: js_num.splits if_splits)

lemma readRecord_envelope:
  "lookup_json area (recordKey opts i) = envelope (ro_version opts) r \<Longrightarrow>
    readRecord opts area i = (if ro_validate opts r then Some r else None)"
  by (simp add: readRecord_def migrate_current)

subsection \<open>What one write leaves behind\<close>

lemma evicted_keys:
  "k \<in> recordKey opts ` set (evicted opts ids area) \<longleftrightarrow>
    (\<exists>i. k = recordKey opts i \<and> i \<noteq> ''index'' \<and> JStr i \<notin> set ids \<and> k \<in> set (area_keys area))"
  unfolding evicted_def Let_def recordKey_def by (force simp: prefix_def image_iff)

lemma lookup_evict:
  "lookup_json (snd (evict opts ids area)) k =
    (if \<exists>i. k = recordKey opts i \<and> i \<noteq> ''index'' \<and> JStr i \<notin> set ids then JUndef else lookup_json area k)"
proof -
  have "k \<in> set (map (recordKey opts) (evicted opts ids area)) \<longleftrightarrow>
      (\<exists>i. k = recordKey opts i \<and> i \<noteq> ''index'' \<and> JStr i \<notin> set ids) \<and> k \<in> set (area_keys area)"
    using evicted_keys [of k opts ids area] by auto
  then show ?thesis
    using lookup_present [of area k] by (auto simp: evict_def Let_def lookup_fold_remove)
qed

lemma write_record_lookup:
  assumes "index_entries (lookup_json area (indexKey opts (ro_version opts))) = Some ids"
    and "ro_identify opts r \<noteq> ''index''"
  defines "next_ids \<equiv> newest_first opts (ro_identify opts r) ids"
  shows "fst (write_record opts r area) \<noteq> None"
    and "lookup_json (snd (write_record opts r area)) k =
      (if k = indexKey opts (ro_version opts) then index_value next_ids
       else if \<exists>i. k = recordKey opts i \<and> i \<noteq> ''index'' \<and> JStr i \<notin> set next_ids then JUndef
       else if k = recordKey opts (ro_identify opts r) then envelope (ro_version opts) r
       else lookup_json area k)"
  using assms(1,2)
  by (auto simp: write_record_def Let_def next_ids_def lookup_evict indexKey_record split: option.splits)

subsection \<open>The collection a store holds\<close>

text \<open>
  \<open>holds opts area rs\<close>: the abstract value of the store is the list \<open>rs\<close>, newest first. Each record
  lies under its own identifier in an envelope of the current version, and no other record key is set.
\<close>

definition holds :: "record_options \<Rightarrow> json storage_area \<Rightarrow> json list \<Rightarrow> bool" where
  "holds opts area rs =
     ((lookup_json area (indexKey opts (ro_version opts)) = index_value (map (\<lambda>r. JStr (ro_identify opts r)) rs) \<or>
       rs = [] \<and> lookup_json area (indexKey opts (ro_version opts)) = JUndef) \<and>
      distinct (map (ro_identify opts) rs) \<and> ''index'' \<notin> ro_identify opts ` set rs \<and>
      (\<forall>r \<in> set rs. ro_validate opts r \<and>
        lookup_json area (recordKey opts (ro_identify opts r)) = envelope (ro_version opts) r) \<and>
      (\<forall>i. i \<noteq> ''index'' \<and> i \<notin> ro_identify opts ` set rs \<longrightarrow> lookup_json area (recordKey opts i) = JUndef))"

definition put_list :: "record_options \<Rightarrow> json \<Rightarrow> json list \<Rightarrow> json list" where
  "put_list opts r rs =
     take (ro_max opts) (r # filter (\<lambda>x. ro_identify opts x \<noteq> ro_identify opts r) rs)"

definition replace_list :: "record_options \<Rightarrow> json \<Rightarrow> json list \<Rightarrow> json list" where
  "replace_list opts r rs = map (\<lambda>x. if ro_identify opts x = ro_identify opts r then r else x) rs"

lemma holds_entries:
  "holds opts area rs \<Longrightarrow>
    index_entries (lookup_json area (indexKey opts (ro_version opts))) = Some (map (\<lambda>r. JStr (ro_identify opts r)) rs)"
  by (auto simp: holds_def index_entries_def index_value_def json_get_def)

lemma holds_readIndex: "holds opts (rs_area s) rs \<Longrightarrow> readIndex opts s = (map (ro_identify opts) rs, s)"
  by (auto simp: holds_def readIndex_def Let_def)

lemma holds_read: "holds opts area rs \<Longrightarrow> r \<in> set rs \<Longrightarrow> readRecord opts area (ro_identify opts r) = Some r"
  by (simp add: holds_def readRecord_envelope)

lemma holds_valid: "holds opts area rs \<Longrightarrow> r \<in> set rs \<Longrightarrow> ro_validate opts r"
  by (simp add: holds_def)

lemma holds_distinct: "holds opts area rs \<Longrightarrow> distinct (map (ro_identify opts) rs)"
  by (simp add: holds_def)

lemma holds_unique:
  "holds opts area rs \<Longrightarrow> r \<in> set rs \<Longrightarrow> r' \<in> set rs \<Longrightarrow>
    ro_identify opts r = ro_identify opts r' \<Longrightarrow> r = r'"
  using holds_distinct by (auto simp: distinct_map inj_on_def)

lemma holds_find:
  assumes "holds opts area rs" and "r \<in> set rs"
  shows "List.find (\<lambda>x. ro_identify opts x = ro_identify opts r) rs = Some r"
proof -
  obtain r' where found: "List.find (\<lambda>x. ro_identify opts x = ro_identify opts r) rs = Some r'"
    using assms(2) by (cases "List.find (\<lambda>x. ro_identify opts x = ro_identify opts r) rs") (auto simp: find_None_iff)
  then have "r' = r" using find_Some_in [OF found] assms holds_unique by blast
  then show ?thesis using found by simp
qed

lemma holds_find_none: "i \<notin> ro_identify opts ` set rs \<Longrightarrow> List.find (\<lambda>x. ro_identify opts x = i) rs = None"
  by (auto simp: find_None_iff)

lemma holds_empty:
  "(\<And>i. lookup_json area (recordKey opts i) = JUndef) \<Longrightarrow> holds opts area []"
  by (simp add: holds_def indexKey_record)

lemma map_filter_read: "holds opts area rs \<Longrightarrow> set xs \<subseteq> set rs \<Longrightarrow>
    List.map_filter (readRecord opts area) (map (ro_identify opts) xs) = xs"
  by (induction xs) (simp_all add: List.map_filter_def holds_read)

lemma upgraded_ensure: "rs_upgrade s \<noteq> None \<Longrightarrow> ensureUpgraded opts s = s"
  by (auto simp: ensureUpgraded_def)

lemma store_list_holds:
  "rs_upgrade s \<noteq> None \<Longrightarrow> holds opts (rs_area s) rs \<Longrightarrow> store_list opts s = (rs, s)"
  by (simp add: store_list_def upgraded_ensure holds_readIndex map_filter_read [where rs = rs])

lemma store_get_holds:
  assumes "rs_upgrade s \<noteq> None" and "holds opts (rs_area s) rs"
  shows "store_get opts i s = (List.find (\<lambda>r. ro_identify opts r = i) rs, s)"
proof (cases "i \<in> ro_identify opts ` set rs")
  case True
  then obtain r where "r \<in> set rs" "i = ro_identify opts r" by auto
  then show ?thesis
    using assms by (simp add: store_get_def upgraded_ensure holds_readIndex holds_read holds_find)
next
  case False
  then show ?thesis
    using assms by (simp add: store_get_def upgraded_ensure holds_readIndex holds_find_none)
qed

lemma newest_put:
  "newest_first opts (ro_identify opts r) (map (\<lambda>r. JStr (ro_identify opts r)) rs) =
    map (\<lambda>r. JStr (ro_identify opts r)) (put_list opts r rs)"
  by (cases "ro_max opts") (simp_all add: newest_first_def put_list_def filter_map o_def take_map)

lemma put_list_subset: "set (put_list opts r rs) \<subseteq> insert r (set rs)"
  unfolding put_list_def by (rule subset_trans [OF set_take_subset]) auto

lemma put_list_distinct:
  assumes "distinct (map (ro_identify opts) rs)"
  shows "distinct (map (ro_identify opts) (put_list opts r rs))"
  using assms unfolding put_list_def take_map [symmetric]
  by (intro distinct_take) (auto simp: distinct_map inj_on_def)

lemma write_record_holds:
  assumes held: "holds opts area rs" and "ro_validate opts r" and fresh: "ro_identify opts r \<noteq> ''index''"
    and "0 < ro_max opts"
  shows "holds opts (snd (write_record opts r area)) (put_list opts r rs)"
proof -
  note lookup = write_record_lookup(2) [OF holds_entries [OF held] fresh, unfolded newest_put]
  have inside: "r \<in> set (put_list opts r rs)"
    using assms(4) by (cases "ro_max opts") (auto simp: put_list_def)
  have old: "x \<in> set rs \<and> ro_identify opts x \<noteq> ro_identify opts r"
    if "x \<in> set (put_list opts r rs)" "x \<noteq> r" for x
    using in_set_takeD [OF that(1) [unfolded put_list_def]] that(2) by auto
  have ids: "''index'' \<notin> ro_identify opts ` set (put_list opts r rs)"
    using put_list_subset [of opts r rs] held fresh by (auto simp: holds_def)
  have "lookup_json (snd (write_record opts r area)) (recordKey opts (ro_identify opts x)) =
      envelope (ro_version opts) x \<and> ro_validate opts x"
    if x: "x \<in> set (put_list opts r rs)" for x
    using x old [OF x] ids held assms(2) unfolding lookup indexKey_record
    by (cases "x = r") (auto simp: holds_def image_iff)
  moreover have "lookup_json (snd (write_record opts r area)) (recordKey opts i) = JUndef"
    if "i \<noteq> ''index''" "i \<notin> ro_identify opts ` set (put_list opts r rs)" for i
    using that unfolding lookup indexKey_record by (auto simp: image_iff)
  ultimately show ?thesis
    using ids put_list_distinct [OF holds_distinct [OF held]] by (auto simp: holds_def lookup)
qed

lemma store_put_holds:
  assumes "rs_upgrade s \<noteq> None" and "holds opts (rs_area s) rs" and "ro_validate opts r"
    and "ro_identify opts r \<noteq> ''index''" and "0 < ro_max opts"
  shows "fst (store_put opts r s) \<noteq> None"
    and "holds opts (rs_area (snd (store_put opts r s))) (put_list opts r rs)"
    and "rs_upgrade (snd (store_put opts r s)) = rs_upgrade s"
    and "rs_reports (snd (store_put opts r s)) = rs_reports s"
  using assms write_record_lookup(1) [OF holds_entries [OF assms(2)] assms(4)]
    write_record_holds [OF assms(2-5)]
  by (simp_all add: store_put_def write_in_def upgraded_ensure Let_def)

lemma replace_list_ids: "map (\<lambda>x. f (ro_identify opts x)) (replace_list opts r rs) = map (\<lambda>x. f (ro_identify opts x)) rs"
  by (simp add: replace_list_def)

lemma replace_list_in:
  "x \<in> set (replace_list opts r rs) \<Longrightarrow>
    x = r \<and> ro_identify opts r \<in> ro_identify opts ` set rs \<or> x \<in> set rs \<and> ro_identify opts x \<noteq> ro_identify opts r"
  unfolding replace_list_def by (auto split: if_splits) (metis image_eqI)+

lemma envelope_set_holds:
  assumes held: "holds opts area rs" and valid: "ro_validate opts r"
    and known: "ro_identify opts r \<in> ro_identify opts ` set rs"
  shows "holds opts (area_set (recordKey opts (ro_identify opts r)) (envelope (ro_version opts) r) area)
    (replace_list opts r rs)"
proof -
  let ?area = "area_set (recordKey opts (ro_identify opts r)) (envelope (ro_version opts) r) area"
  note ids = replace_list_ids [of JStr opts r rs] replace_list_ids [of "\<lambda>i. i" opts r rs]
  have image: "ro_identify opts ` set (replace_list opts r rs) = ro_identify opts ` set rs"
    using arg_cong [OF ids(2), of set] by simp
  have index: "ro_identify opts r \<noteq> ''index''" using known held by (auto simp: holds_def)
  have "lookup_json ?area (indexKey opts (ro_version opts)) = index_value (map (\<lambda>r. JStr (ro_identify opts r)) (replace_list opts r rs))"
    using held known index unfolding ids by (auto simp: holds_def indexKey_record)
  moreover have "distinct (map (ro_identify opts) (replace_list opts r rs))"
    using held ids(2) by (simp add: holds_def)
  moreover have "''index'' \<notin> ro_identify opts ` set (replace_list opts r rs)"
    using held unfolding image by (simp add: holds_def)
  moreover have "\<forall>x \<in> set (replace_list opts r rs). ro_validate opts x \<and>
      lookup_json ?area (recordKey opts (ro_identify opts x)) = envelope (ro_version opts) x"
    using held valid replace_list_in [of _ opts r rs] by (auto simp: holds_def)
  moreover have "\<forall>i. i \<noteq> ''index'' \<and> i \<notin> ro_identify opts ` set (replace_list opts r rs) \<longrightarrow>
      lookup_json ?area (recordKey opts i) = JUndef"
    using held known unfolding image by (auto simp: holds_def)
  ultimately show ?thesis unfolding holds_def by blast
qed

lemma store_replace_known:
  assumes "rs_upgrade s \<noteq> None" and "holds opts (rs_area s) rs" and "ro_validate opts r"
    and "ro_identify opts r \<in> ro_identify opts ` set rs"
  shows "store_replace opts r s = (True, s\<lparr>rs_area := area_set (recordKey opts (ro_identify opts r))
      (envelope (ro_version opts) r) (rs_area s)\<rparr>)"
    and "holds opts (rs_area (snd (store_replace opts r s))) (replace_list opts r rs)"
  using assms envelope_set_holds [OF assms(2-4)]
  by (simp_all add: store_replace_def upgraded_ensure holds_readIndex)

lemma store_replace_new:
  assumes "rs_upgrade s \<noteq> None" and "holds opts (rs_area s) rs"
    and "ro_identify opts r \<notin> ro_identify opts ` set rs"
  shows "snd (store_replace opts r s) = snd (store_put opts r s)"
  using assms by (simp add: store_replace_def store_put_def upgraded_ensure holds_readIndex Let_def)

lemma stored_record:
  assumes "holds opts area rs" and "r \<in> set rs"
  shows "lookup_json area (recordKey opts (ro_identify opts r)) = envelope (ro_version opts) r"
  using assms by (simp add: holds_def)

lemma holds_cong: "lookup_json a = lookup_json b \<Longrightarrow> holds opts a rs = holds opts b rs"
  by (simp add: holds_def)

lemma holds_same_value:
  assumes "holds opts area rs"
  shows "holds opts (area_set k (lookup_json area k) area) rs"
proof -
  have "lookup_json (area_set k (lookup_json area k) area) = lookup_json area" by (rule ext) simp
  from holds_cong [OF this] assms show ?thesis by simp
qed

text \<open>The three outcomes of \<open>mutate\<close> on a store that holds \<open>rs\<close>.\<close>

lemma store_mutate_absent:
  assumes "rs_upgrade s \<noteq> None" and held: "holds opts (rs_area s) rs"
    and "i \<noteq> ''index''" and "i \<notin> ro_identify opts ` set rs"
  shows "fst (store_mutate opts i change s) = None"
    and "holds opts (rs_area (snd (store_mutate opts i change s))) rs"
proof -
  have "lookup_json (rs_area s) (recordKey opts i) = JUndef" using assms by (simp add: holds_def)
  then show "fst (store_mutate opts i change s) = None"
    and "holds opts (rs_area (snd (store_mutate opts i change s))) rs"
    using assms holds_same_value [OF held, of "recordKey opts i"]
    by (simp_all add: store_mutate_def upgraded_ensure Let_def mutated_def isEnvelope_def)
qed

lemma mutated_envelope:
  "mutated opts change (envelope (ro_version opts) r) =
    (if ro_validate opts r then Option.bind (change r) (\<lambda>after. if ro_validate opts after then Some after else None)
     else None)"
  by (simp add: mutated_def split: option.splits)

lemma store_mutate_present:
  fixes change :: "json \<Rightarrow> json option"
  assumes "rs_upgrade s \<noteq> None" and held: "holds opts (rs_area s) rs" and r: "r \<in> set rs"
  defines "result \<equiv> store_mutate opts (ro_identify opts r) change s"
  shows "fst result = Option.bind (change r) (\<lambda>after. if ro_validate opts after then Some after else None)"
    and "fst result = None \<Longrightarrow> holds opts (rs_area (snd result)) rs"
    and "fst result = Some after \<Longrightarrow> ro_identify opts after = ro_identify opts r \<Longrightarrow>
      holds opts (rs_area (snd result)) (replace_list opts after rs)"
    and "rs_upgrade (snd result) = rs_upgrade s"
    and "rs_reports (snd result) = rs_reports s"
proof -
  note stored = stored_record [OF held r]
  have eq: "result = (mutated opts change (envelope (ro_version opts) r),
      s\<lparr>rs_area := area_set (recordKey opts (ro_identify opts r))
        (case mutated opts change (envelope (ro_version opts) r) of
           Some after \<Rightarrow> envelope (ro_version opts) after | None \<Rightarrow> envelope (ro_version opts) r) (rs_area s)\<rparr>)"
    unfolding result_def using assms(1) by (simp add: store_mutate_def upgraded_ensure Let_def stored split: option.split)
  show "fst result = Option.bind (change r) (\<lambda>after. if ro_validate opts after then Some after else None)"
    using holds_valid [OF held r] by (simp add: eq mutated_envelope)
  show "holds opts (rs_area (snd result)) rs" if "fst result = None"
    using that holds_same_value [OF held, of "recordKey opts (ro_identify opts r)"] by (simp add: eq stored)
  show "holds opts (rs_area (snd result)) (replace_list opts after rs)"
    if changed: "fst result = Some after" and same: "ro_identify opts after = ro_identify opts r"
  proof -
    have "ro_validate opts after" using changed by (auto simp: eq mutated_def split: option.splits if_splits)
    from envelope_set_holds [OF held this] r same changed show ?thesis by (simp add: eq)
  qed
  show "rs_upgrade (snd result) = rs_upgrade s" "rs_reports (snd result) = rs_reports s" by (simp_all add: eq)
qed

lemma holds_not_index: "holds opts area rs \<Longrightarrow> r \<in> set rs \<Longrightarrow> ro_identify opts r \<noteq> ''index''"
  unfolding holds_def by (metis image_eqI)

lemma removed_holds:
  assumes held: "holds opts (rs_area s) rs" and i: "i \<noteq> ''index''"
  defines "left \<equiv> filter (\<lambda>r. ro_identify opts r \<noteq> i) rs"
  shows "holds opts (rs_area (snd (True, s\<lparr>rs_area := area_remove (recordKey opts i)
    (area_set (indexKey opts (ro_version opts)) (index_value (map (\<lambda>r. JStr (ro_identify opts r)) left)) (rs_area s))\<rparr>)))
    left"
proof -
  have "distinct (map (ro_identify opts) left)"
    using holds_distinct [OF held] unfolding left_def by (rule distinct_map_filter)
  moreover have "ro_identify opts ` set left = ro_identify opts ` set rs - {i}"
    by (auto simp: left_def)
  moreover have "\<forall>r \<in> set left. r \<in> set rs \<and> ro_identify opts r \<noteq> i \<and> ro_identify opts r \<noteq> ''index''"
    using holds_not_index [OF held] by (simp add: left_def)
  ultimately show ?thesis
    using held i by (auto simp: holds_def indexKey_record)
qed

lemma store_remove_holds:
  assumes "rs_upgrade s \<noteq> None" and held: "holds opts (rs_area s) rs" and "i \<noteq> ''index''"
  shows "fst (store_remove opts i s)"
    and "holds opts (rs_area (snd (store_remove opts i s))) (filter (\<lambda>r. ro_identify opts r \<noteq> i) rs)"
proof -
  let ?left = "filter (\<lambda>r. ro_identify opts r \<noteq> i) rs"
  have entries: "filter (\<lambda>existing. existing \<noteq> JStr i) (map (\<lambda>r. JStr (ro_identify opts r)) rs) =
      map (\<lambda>r. JStr (ro_identify opts r)) ?left"
    by (simp add: filter_map o_def)
  have removed: "store_remove opts i s = (True, s\<lparr>rs_area := area_remove (recordKey opts i)
      (area_set (indexKey opts (ro_version opts)) (index_value (map (\<lambda>r. JStr (ro_identify opts r)) ?left)) (rs_area s))\<rparr>)"
    using assms(1) holds_entries [OF held] by (simp add: store_remove_def upgraded_ensure entries)
  then show "fst (store_remove opts i s)" by simp
  show "holds opts (rs_area (snd (store_remove opts i s))) ?left"
    using held assms(3) unfolding removed by (rule removed_holds)
qed

lemma store_list_readable:
  assumes "rs_upgrade s \<noteq> None" and "r \<in> set (fst (store_list opts s))"
  shows "ro_validate opts r"
  using assms migrate_valid
  by (auto simp: store_list_def upgraded_ensure Let_def case_prod_beta List.map_filter_def readRecord_def
      split: if_splits option.splits prod.splits)

subsection \<open>The upgrade\<close>

lemma write_all_frame:
  assumes "\<And>i. k \<noteq> recordKey opts i"
  shows "lookup_json (snd (write_all opts rs area)) k = lookup_json area k"
proof (induction rs arbitrary: area)
  case (Cons r rs)
  have "lookup_json (snd (write_record opts r area)) k = lookup_json area k"
    using assms by (auto simp: write_record_def Let_def lookup_evict indexKey_record split: option.splits)
  then show ?case using Cons.IH by (auto split: prod.splits option.splits)
qed simp

lemma put_list_fresh:
  assumes "ro_identify opts r \<notin> ro_identify opts ` set rs" and "length rs < ro_max opts"
  shows "put_list opts r rs = r # rs"
proof -
  have "filter (\<lambda>x. ro_identify opts x \<noteq> ro_identify opts r) rs = rs"
    using assms(1) by (metis (mono_tags, lifting) filter_True image_eqI)
  then show ?thesis using assms(2) by (simp add: put_list_def)
qed

lemma write_all_holds:
  assumes "holds opts area done" and "0 < ro_max opts"
    and "\<forall>r \<in> set rs. ro_validate opts r \<and> ro_identify opts r \<noteq> ''index''"
    and "distinct (map (ro_identify opts) (rs @ done))" and "length rs + length done \<le> ro_max opts"
  shows "fst (write_all opts rs area)" and "holds opts (snd (write_all opts rs area)) (rev rs @ done)"
  using assms
proof (induction rs arbitrary: area "done")
  case (Cons r rs)
  case 1
  have put: "put_list opts r done = r # done"
    using 1 by (intro put_list_fresh) auto
  have ok: "fst (write_record opts r area) \<noteq> None"
    using write_record_lookup(1) [OF holds_entries [OF 1(1)]] 1(3) by auto
  have held: "holds opts (snd (write_record opts r area)) (r # done)"
    using write_record_holds [OF 1(1), of r] 1(2,3) put by simp
  show ?case
    using ok Cons.IH(1) [OF held] 1 by (auto split: prod.splits option.splits)
next
  case (Cons r rs)
  case 2
  have put: "put_list opts r done = r # done"
    using 2 by (intro put_list_fresh) auto
  have ok: "fst (write_record opts r area) \<noteq> None"
    using write_record_lookup(1) [OF holds_entries [OF 2(1)]] 2(3) by auto
  have held: "holds opts (snd (write_record opts r area)) (r # done)"
    using write_record_holds [OF 2(1), of r] 2(2,3) put by simp
  show ?case
    using ok Cons.IH(2) [OF held] 2 by (auto split: prod.splits option.splits)
qed simp_all

lemma accepted_valid: "r \<in> set (accepted_records opts source records) \<Longrightarrow> ro_validate opts r"
  by (auto simp: accepted_records_def List.map_filter_def migrate_valid)

lemma verify_holds: "holds opts area accepted \<Longrightarrow> verify opts accepted area"
  by (cases accepted) (auto simp: verify_def stored_record holds_valid)

text \<open>What the upgrade of a single legacy blob comes to, whatever was quarantined.\<close>

definition blob_outcome :: "record_options \<Rightarrow> legacy_source \<Rightarrow> json list \<Rightarrow> upgrade_outcome" where
  "blob_outcome opts source records =
     \<lparr>uo_migrated = length (accepted_records opts source records),
      uo_quarantined = length (quarantined_records opts source records),
      uo_from = Some (legacy_version source)\<rparr>"

lemma upgrade_blob:
  assumes legacy: "ro_legacy opts = [Blob key extract v]" and start: "rs_upgrade s = None"
    and stored: "lookup_json (rs_area s) key \<noteq> JUndef" "extract (lookup_json (rs_area s) key) = Some (r # records)"
    and fresh: "\<And>i. lookup_json (rs_area s) (recordKey opts i) = JUndef" and apart: "\<And>i. key \<noteq> recordKey opts i"
  defines "accepted \<equiv> accepted_records opts (Blob key extract v) (r # records)"
  assumes ids: "distinct (map (ro_identify opts) accepted)" "''index'' \<notin> ro_identify opts ` set accepted"
    and room: "length accepted \<le> ro_max opts" "0 < ro_max opts"
  shows "holds opts (rs_area (ensureUpgraded opts s)) accepted"
    and "rs_area (ensureUpgraded opts s) = area_remove key (snd (write_all opts (rev accepted) (rs_area s)))"
    and "rs_upgrade (ensureUpgraded opts s) = Some (blob_outcome opts (Blob key extract v) (r # records))"
    and "lookup_json (rs_area (ensureUpgraded opts s)) key = JUndef"
proof -
  let ?area = "snd (write_all opts (rev accepted) (rs_area s))"
  have accepted: "\<forall>x \<in> set (rev accepted). ro_validate opts x \<and> ro_identify opts x \<noteq> ''index''"
  proof
    fix x
    assume "x \<in> set (rev accepted)"
    then have x: "x \<in> set accepted" by simp
    then have "ro_identify opts x \<noteq> ''index''" using ids(2) by (metis image_eqI)
    then show "ro_validate opts x \<and> ro_identify opts x \<noteq> ''index''"
      using accepted_valid x unfolding accepted_def by blast
  qed
  have "distinct (map (ro_identify opts) (rev accepted @ []))" using ids(1) by (simp add: rev_map [symmetric])
  then have written: "fst (write_all opts (rev accepted) (rs_area s))" "holds opts ?area accepted"
    using write_all_holds [OF holds_empty [OF fresh] room(2) accepted] room(1) by simp_all
  have read: "readLegacy opts (Blob key extract v) (rs_area s) = Legacy_Records (r # records)"
    using stored by (cases "lookup_json (rs_area s) key") (simp_all add: readLegacy_def)
  have run: "runUpgrade opts s = (Some (blob_outcome opts (Blob key extract v) (r # records)), t) \<Longrightarrow>
      rs_area t = area_remove key ?area \<Longrightarrow>
      rs_upgrade (ensureUpgraded opts s) = Some (blob_outcome opts (Blob key extract v) (r # records)) \<and>
      rs_area (ensureUpgraded opts s) = area_remove key ?area" for t
    using start by (simp add: ensureUpgraded_def)
  have "\<exists>t. runUpgrade opts s = (Some (blob_outcome opts (Blob key extract v) (r # records)), t) \<and>
      rs_area t = area_remove key ?area"
    using written verify_holds [OF written(2)]
    by (simp add: runUpgrade_def legacy upgrade_source_def read no_upgrade_def blob_outcome_def Let_def
        accepted_def [symmetric] clearLegacy_def report_storage_def)
  then show area: "rs_area (ensureUpgraded opts s) = area_remove key ?area"
    and "rs_upgrade (ensureUpgraded opts s) = Some (blob_outcome opts (Blob key extract v) (r # records))"
    using run by blast+
  show "lookup_json (rs_area (ensureUpgraded opts s)) key = JUndef" by (simp add: area)
  have "indexKey opts (ro_version opts) \<noteq> key" using apart by (metis indexKey_record)
  then show "holds opts (rs_area (ensureUpgraded opts s)) accepted"
    using written(2) apart unfolding area holds_def by (simp add: eq_commute [of _ key])
qed

lemma ensure_list: "fst (store_list opts s) = fst (store_list opts (ensureUpgraded opts s))"
proof -
  have "rs_upgrade (ensureUpgraded opts s) \<noteq> None"
    by (auto simp: ensureUpgraded_def report_storage_def split: option.splits prod.splits)
  then have "ensureUpgraded opts (ensureUpgraded opts s) = ensureUpgraded opts s" by (rule upgraded_ensure)
  then show ?thesis by (simp add: store_list_def)
qed

text \<open>A malformed index reads as an empty collection, and every write to it is refused.\<close>

lemma malformed_index:
  assumes "rs_upgrade s \<noteq> None"
    and "index_entries (lookup_json (rs_area s) (indexKey opts (ro_version opts))) = None"
  shows "fst (store_list opts s) = []" and "fst (store_put opts r s) = None" and "\<not> fst (store_remove opts i s)"
    and "ro_identify opts r \<noteq> ''index'' \<Longrightarrow>
      lookup_json (rs_area (snd (store_put opts r s))) (indexKey opts (ro_version opts)) =
        lookup_json (rs_area s) (indexKey opts (ro_version opts))"
proof -
  have index: "fst (readIndex opts s) = []"
    using assms(2) by (auto simp: readIndex_def Let_def index_entries_def split: json.splits)
  then show "fst (store_list opts s) = []"
    using assms(1) by (simp add: store_list_def upgraded_ensure Let_def case_prod_beta List.map_filter_def)
  show "\<not> fst (store_remove opts i s)" using assms by (simp add: store_remove_def upgraded_ensure)
  have neq: "recordKey opts (ro_identify opts r) = indexKey opts (ro_version opts) \<longleftrightarrow> ro_identify opts r = ''index''"
    by (simp add: indexKey_record)
  have "index_entries (envelope (ro_version opts) r) = None"
    by (simp add: index_entries_def envelope_def json_get_def)
  then show "fst (store_put opts r s) = None"
    using assms by (simp add: store_put_def write_in_def write_record_def upgraded_ensure Let_def)
  show "lookup_json (rs_area (snd (store_put opts r s))) (indexKey opts (ro_version opts)) =
        lookup_json (rs_area s) (indexKey opts (ro_version opts))" if "ro_identify opts r \<noteq> ''index''"
    using assms that neq by (simp add: store_put_def write_in_def write_record_def upgraded_ensure Let_def eq_commute [of "indexKey opts (ro_version opts)"] split: option.splits)
qed

subsection \<open>Properties\<close>

text \<open>
  C21. On a store that holds the collection \<open>rs\<close>, newest first, each operation is the operation on
  the list: \<open>list\<close> returns it, \<open>get\<close> finds by identifier, \<open>put\<close> prepends and cuts at the cap,
  \<open>replace\<close> updates in place, \<open>mutate\<close> changes only a record that is there and only to a valid one,
  \<open>remove\<close> filters, and none of them reports a fault.
\<close>

theorem record_store_refines:
  fixes change :: "json \<Rightarrow> json option"
  assumes up: "rs_upgrade s \<noteq> None" and held: "holds opts (rs_area s) rs"
    and valid: "ro_validate opts r" and reserved: "ro_identify opts r \<noteq> ''index''" "i \<noteq> ''index''"
    and room: "0 < ro_max opts"
    and stable: "\<And>x y. change x = Some y \<Longrightarrow> ro_identify opts y = ro_identify opts x"
  defines "found \<equiv> List.find (\<lambda>x. ro_identify opts x = i) rs"
    and "changed \<equiv> Option.bind (List.find (\<lambda>x. ro_identify opts x = i) rs)
      (\<lambda>x. Option.bind (change x) (\<lambda>y. if ro_validate opts y then Some y else None))"
  shows "store_list opts s = (rs, s) \<and> store_get opts i s = (found, s) \<and>
    holds opts (rs_area (snd (store_put opts r s))) (put_list opts r rs) \<and>
    holds opts (rs_area (snd (store_replace opts r s)))
      (if r \<in> set rs \<or> ro_identify opts r \<in> ro_identify opts ` set rs then replace_list opts r rs else put_list opts r rs) \<and>
    fst (store_mutate opts i change s) = changed \<and>
    holds opts (rs_area (snd (store_mutate opts i change s)))
      (case changed of None \<Rightarrow> rs | Some y \<Rightarrow> replace_list opts y rs) \<and>
    holds opts (rs_area (snd (store_remove opts i s))) (filter (\<lambda>x. ro_identify opts x \<noteq> i) rs)"
proof (intro conjI)
  show "store_list opts s = (rs, s)" by (rule store_list_holds [OF up held])
  show "store_get opts i s = (found, s)" unfolding found_def by (rule store_get_holds [OF up held])
  show put: "holds opts (rs_area (snd (store_put opts r s))) (put_list opts r rs)"
    by (rule store_put_holds(2) [OF up held valid reserved(1) room])
  show "holds opts (rs_area (snd (store_replace opts r s)))
      (if r \<in> set rs \<or> ro_identify opts r \<in> ro_identify opts ` set rs then replace_list opts r rs else put_list opts r rs)"
    using store_replace_known(2) [OF up held valid] store_replace_new [OF up held, of r] put by auto
  show "holds opts (rs_area (snd (store_remove opts i s))) (filter (\<lambda>x. ro_identify opts x \<noteq> i) rs)"
    by (rule store_remove_holds(2) [OF up held reserved(2)])
  have mutate: "fst (store_mutate opts i change s) = changed \<and>
    holds opts (rs_area (snd (store_mutate opts i change s)))
      (case changed of None \<Rightarrow> rs | Some y \<Rightarrow> replace_list opts y rs)"
  proof (cases "i \<in> ro_identify opts ` set rs")
    case False
    then show ?thesis
      using store_mutate_absent [OF up held reserved(2)] by (simp add: changed_def holds_find_none)
  next
    case True
    then obtain x where x: "x \<in> set rs" "i = ro_identify opts x" by auto
    note present = store_mutate_present [OF up held x(1), of change]
    have eq: "fst (store_mutate opts i change s) = changed"
      using x present(1) holds_find [OF held x(1)] by (simp add: changed_def)
    have "ro_identify opts y = ro_identify opts x" if "changed = Some y" for y
      using that stable x holds_find [OF held x(1)]
      by (auto simp: changed_def Option.bind_eq_Some_conv split: if_splits)
    then show ?thesis using present(2,3) eq x by (cases changed) auto
  qed
  then show "fst (store_mutate opts i change s) = changed"
    and "holds opts (rs_area (snd (store_mutate opts i change s)))
      (case changed of None \<Rightarrow> rs | Some y \<Rightarrow> replace_list opts y rs)" by blast+
qed

definition note_extract :: "json \<Rightarrow> json list option" where
  "note_extract j = (case j of JArr xs \<Rightarrow> Some xs | _ \<Rightarrow> None)"

definition note_options :: "record_options" where
  "note_options =
     \<lparr>ro_kind = ''notes'', ro_version = 1,
      ro_identify = (\<lambda>j. case j of JStr s \<Rightarrow> s | _ \<Rightarrow> []), ro_validate = (\<lambda>j. case j of JStr s \<Rightarrow> s \<noteq> [] | _ \<Rightarrow> False),
      ro_migrations = [], ro_legacy = [Blob ''notes.blob'' note_extract 1],
      ro_max = 3, ro_string = (\<lambda>j. [])\<rparr>"

definition empty_records :: record_state where
  "empty_records = \<lparr>rs_area = [], rs_upgrade = Some no_upgrade, rs_reports = []\<rparr>"

theorem record_store_refines_witness:
  "fst (store_mutate note_options ''a'' (\<lambda>x. Some x) empty_records) = None \<and>
   holds note_options (rs_area (snd (store_put note_options (JStr ''a'') empty_records))) [JStr ''a'']"
  using record_store_refines [of empty_records note_options "[]" "JStr ''a''" "''a''" "\<lambda>x. Some x"]
  by (simp add: empty_records_def no_upgrade_def holds_def note_options_def lookup_json_def area_get_def put_list_def)

text \<open>
  C23. The upgrade of a legacy blob whose records all migrate leaves the store holding exactly the
  migrated records, in the order of the blob and up to the cap, and removes the blob.
\<close>

theorem upgrade_preserves_records:
  assumes "ro_legacy opts = [Blob key extract v]" and "rs_upgrade s = None"
    and "lookup_json (rs_area s) key \<noteq> JUndef" and "extract (lookup_json (rs_area s) key) = Some (r # records)"
    and "\<And>i. lookup_json (rs_area s) (recordKey opts i) = JUndef" and "\<And>i. key \<noteq> recordKey opts i"
    and migrated: "map (\<lambda>x. migrate opts x (Fin (of_nat v))) (r # records) = map Some rs"
    and "distinct (map (ro_identify opts) rs)" and "''index'' \<notin> ro_identify opts ` set rs"
    and "length rs \<le> ro_max opts" and "0 < ro_max opts"
  shows "fst (store_list opts s) = rs \<and> lookup_json (rs_area (ensureUpgraded opts s)) key = JUndef \<and>
    rs_upgrade (ensureUpgraded opts s) = Some \<lparr>uo_migrated = length rs, uo_quarantined = 0, uo_from = Some v\<rparr>"
proof -
  have accepted: "accepted_records opts (Blob key extract v) (r # records) = rs"
    using arg_cong [OF migrated, of "List.map_filter (\<lambda>x. x)"]
    by (simp only: accepted_records_def List.map_filter_def filter_map map_map o_def legacy_source.sel)
       (simp add: o_def)
  have "quarantined_records opts (Blob key extract v) (r # records) = []"
    using arg_cong [OF migrated, of set] by (auto simp: quarantined_records_def filter_empty_conv image_iff)
  then have outcome: "blob_outcome opts (Blob key extract v) (r # records) =
      \<lparr>uo_migrated = length rs, uo_quarantined = 0, uo_from = Some v\<rparr>"
    by (simp add: blob_outcome_def accepted)
  note upgrade = upgrade_blob [OF assms(1-6), unfolded accepted, OF assms(8-11)]
  then have "store_list opts (ensureUpgraded opts s) = (rs, ensureUpgraded opts s)"
    by (intro store_list_holds) simp_all
  then show ?thesis using upgrade(3,4) outcome by (simp add: ensure_list [of opts s])
qed

lemma note_keys: "recordKey note_options i \<noteq> ''notes.blob''"
  by (simp add: recordKey_def keyPrefix_def note_options_def)

lemma note_fresh: "lookup_json [(''notes.blob'', v)] (recordKey note_options i) = JUndef"
  using note_keys [of i] by (simp add: lookup_json_def area_get_def)

theorem upgrade_preserves_records_witness:
  "fst (store_list note_options \<lparr>rs_area = [(''notes.blob'', JArr [JStr ''a'', JStr ''b''])], rs_upgrade = None,
      rs_reports = []\<rparr>) = [JStr ''a'', JStr ''b'']"
proof -
  let ?s = "\<lparr>rs_area = [(''notes.blob'', JArr [JStr ''a'', JStr ''b''])], rs_upgrade = None, rs_reports = []\<rparr>"
  have migrated: "map (\<lambda>x. migrate note_options x (Fin (of_nat 1))) [JStr ''a'', JStr ''b''] = map Some [JStr ''a'', JStr ''b'']"
    by (simp add: migrate_def migrate_steps.simps note_options_def)
  have "fst (store_list note_options ?s) = [JStr ''a'', JStr ''b''] \<and>
    lookup_json (rs_area (ensureUpgraded note_options ?s)) ''notes.blob'' = JUndef \<and>
    rs_upgrade (ensureUpgraded note_options ?s) =
      Some \<lparr>uo_migrated = length [JStr ''a'', JStr ''b''], uo_quarantined = 0, uo_from = Some 1\<rparr>"
    by (rule upgrade_preserves_records [of _ _ note_extract, OF _ _ _ _ _ note_keys [symmetric] migrated])
      (simp_all add: note_fresh, simp_all add: lookup_json_def area_get_def note_options_def note_extract_def)
  then show ?thesis by blast
qed

text \<open>
  C22. The upgrade removes the legacy blob also when records were quarantined: afterwards the store
  holds the accepted records and every other key is as before, except that the blob, the only copy
  of the records it counted as quarantined, is gone. When nothing could be migrated the upgrade does
  nothing but delete the blob.
\<close>

theorem upgrade_discards_quarantined:
  assumes "ro_legacy opts = [Blob key extract v]" and "rs_upgrade s = None"
    and "lookup_json (rs_area s) key \<noteq> JUndef" and "extract (lookup_json (rs_area s) key) = Some (r # records)"
    and "\<And>i. lookup_json (rs_area s) (recordKey opts i) = JUndef" and "\<And>i. key \<noteq> recordKey opts i"
    and "distinct (map (ro_identify opts) (accepted_records opts (Blob key extract v) (r # records)))"
    and "''index'' \<notin> ro_identify opts ` set (accepted_records opts (Blob key extract v) (r # records))"
    and "length (accepted_records opts (Blob key extract v) (r # records)) \<le> ro_max opts" and "0 < ro_max opts"
  shows "fst (store_list opts s) = accepted_records opts (Blob key extract v) (r # records) \<and>
    (\<forall>k. (\<exists>i. k = recordKey opts i) \<or>
      lookup_json (rs_area (ensureUpgraded opts s)) k = (if k = key then JUndef else lookup_json (rs_area s) k)) \<and>
    rs_upgrade (ensureUpgraded opts s) = Some (blob_outcome opts (Blob key extract v) (r # records)) \<and>
    (accepted_records opts (Blob key extract v) (r # records) = [] \<longrightarrow>
      rs_area (ensureUpgraded opts s) = area_remove key (rs_area s))"
proof -
  note upgrade = upgrade_blob [OF assms]
  then have "store_list opts (ensureUpgraded opts s) =
      (accepted_records opts (Blob key extract v) (r # records), ensureUpgraded opts s)"
    by (intro store_list_holds) simp_all
  moreover have "(\<exists>i. k = recordKey opts i) \<or>
      lookup_json (rs_area (ensureUpgraded opts s)) k = (if k = key then JUndef else lookup_json (rs_area s) k)" for k
    using write_all_frame [of k opts] unfolding upgrade(2) by (cases "\<exists>i. k = recordKey opts i") auto
  ultimately show ?thesis using upgrade(2,3) by (auto simp: ensure_list [of opts s])
qed

theorem upgrade_discards_quarantined_witness:
  "rs_area (ensureUpgraded note_options \<lparr>rs_area = [(''notes.blob'', JArr [JNull])], rs_upgrade = None, rs_reports = []\<rparr>) = []"
proof -
  let ?s = "\<lparr>rs_area = [(''notes.blob'', JArr [JNull])], rs_upgrade = None, rs_reports = []\<rparr>"
  let ?accepted = "accepted_records note_options (Blob ''notes.blob'' note_extract 1) [JNull]"
  have accepted: "?accepted = []"
    by (simp add: accepted_records_def List.map_filter_def migrate_def migrate_steps.simps note_options_def)
  have "fst (store_list note_options ?s) = ?accepted \<and>
    (\<forall>k. (\<exists>i. k = recordKey note_options i) \<or>
      lookup_json (rs_area (ensureUpgraded note_options ?s)) k =
        (if k = ''notes.blob'' then JUndef else lookup_json (rs_area ?s) k)) \<and>
    rs_upgrade (ensureUpgraded note_options ?s) =
      Some (blob_outcome note_options (Blob ''notes.blob'' note_extract 1) [JNull]) \<and>
    (?accepted = [] \<longrightarrow> rs_area (ensureUpgraded note_options ?s) = area_remove ''notes.blob'' (rs_area ?s))"
    by (rule upgrade_discards_quarantined [of _ _ note_extract, OF _ _ _ _ _ note_keys [symmetric]])
      (simp_all add: note_fresh accepted accepted [unfolded One_nat_def], simp_all add: lookup_json_def area_get_def note_options_def note_extract_def)
  then show ?thesis using accepted by (simp add: area_remove_def)
qed

end
