(* ===== verification/RecordCollection.thy ===== *)
theory RecordCollection
  imports RecordStore
begin

text \<open>
  What a client of the record store relies on: with an encoding of its own records as JSON that the
  options validate and identify, the store is a list of those records, newest first. The clients
  (schedules, their runs, workspaces) interpret the locale with their own parsers.
\<close>

definition collection ::
  "record_options \<Rightarrow> ('r \<Rightarrow> json) \<Rightarrow> ('r \<Rightarrow> bool) \<Rightarrow> record_state \<Rightarrow> 'r list \<Rightarrow> bool" where
  "collection opts enc good st rs =
     (rs_upgrade st \<noteq> None \<and> holds opts (rs_area st) (map enc rs) \<and> (\<forall>r \<in> set rs. good r))"

definition updated_list :: "('r \<Rightarrow> string) \<Rightarrow> 'r \<Rightarrow> 'r list \<Rightarrow> 'r list" where
  "updated_list ident r rs = map (\<lambda>x. if ident x = ident r then r else x) rs"

definition newest_list :: "nat \<Rightarrow> ('r \<Rightarrow> string) \<Rightarrow> 'r \<Rightarrow> 'r list \<Rightarrow> 'r list" where
  "newest_list room ident r rs = take room (r # filter (\<lambda>x. ident x \<noteq> ident r) rs)"

text \<open>A change of a record as a change of what is stored, and what it comes to on the list.\<close>

definition lifted :: "(json \<Rightarrow> 'r option) \<Rightarrow> ('r \<Rightarrow> json) \<Rightarrow> ('r \<Rightarrow> 'r option) \<Rightarrow> json \<Rightarrow> json option" where
  "lifted dec enc f v = Option.bind (dec v) (\<lambda>r. map_option enc (f r))"

definition changed_in :: "('r \<Rightarrow> string) \<Rightarrow> string \<Rightarrow> ('r \<Rightarrow> 'r option) \<Rightarrow> 'r list \<Rightarrow> 'r option" where
  "changed_in ident i f rs = Option.bind (List.find (\<lambda>r. ident r = i) rs) f"

lemma find_updated:
  "List.find (\<lambda>r. ident r = j) (updated_list ident r' rs) =
    (if j = ident r' \<and> j \<in> ident ` set rs then Some r' else List.find (\<lambda>r. ident r = j) rs)"
  by (induction rs) (auto simp: updated_list_def)

lemma updated_in: "x \<in> set (updated_list ident r rs) \<Longrightarrow> x = r \<or> x \<in> set rs"
  by (auto simp: updated_list_def split: if_splits)

lemma newest_in: "x \<in> set (newest_list room ident r rs) \<Longrightarrow> x = r \<or> x \<in> set rs"
  using in_set_takeD [of x room "r # filter (\<lambda>x. ident x \<noteq> ident r) rs"] by (auto simp: newest_list_def)

lemma find_take: "List.find P (take n xs) = Some x \<Longrightarrow> List.find P xs = Some x"
proof (induction xs arbitrary: n)
  case (Cons y ys)
  then show ?case by (cases n) (auto split: if_splits)
qed simp

lemma find_filter_neq: "j \<noteq> i \<Longrightarrow> List.find (\<lambda>r. ident r = j) (filter (\<lambda>x. ident x \<noteq> i) rs) = List.find (\<lambda>r. ident r = j) rs"
  by (induction rs) auto

lemma find_newest:
  "List.find (\<lambda>r. ident r = j) (newest_list room ident r rs) = Some x \<Longrightarrow>
    j = ident r \<and> x = r \<or> j \<noteq> ident r \<and> List.find (\<lambda>r. ident r = j) rs = Some x"
  using find_take [of "\<lambda>r. ident r = j" room "r # filter (\<lambda>x. ident x \<noteq> ident r) rs" x]
  by (auto simp: newest_list_def find_filter_neq split: if_splits)

lemma find_ident: "List.find (\<lambda>r. ident r = i) rs = Some r \<Longrightarrow> r \<in> set rs \<and> ident r = i"
  using find_Some_in [of "\<lambda>r. ident r = i" rs r] by simp

lemma find_image: "List.find (\<lambda>r. ident r = i) rs = Some r \<Longrightarrow> i \<in> ident ` set rs"
  using find_ident [of ident i rs r] by auto

locale record_collection =
  fixes opts :: record_options
    and enc :: "'r \<Rightarrow> json"
    and dec :: "json \<Rightarrow> 'r option"
    and ident :: "'r \<Rightarrow> string"
    and good :: "'r \<Rightarrow> bool"
  assumes identify_enc: "ro_identify opts (enc r) = ident r"
    and validate_enc: "good r \<Longrightarrow> ro_validate opts (enc r)"
    and dec_enc: "good r \<Longrightarrow> dec (enc r) = Some r"
    and not_reserved: "good r \<Longrightarrow> ident r \<noteq> ''index''"
    and room: "0 < ro_max opts"
begin

lemma map_enc:
  "map (ro_identify opts) (map enc rs) = map ident rs"
  "filter (\<lambda>x. ro_identify opts x \<noteq> i) (map enc rs) = map enc (filter (\<lambda>r. ident r \<noteq> i) rs)"
  "replace_list opts (enc r) (map enc rs) = map enc (updated_list ident r rs)"
  "put_list opts (enc r) (map enc rs) = map enc (newest_list (ro_max opts) ident r rs)"
  "List.find (\<lambda>x. ro_identify opts x = i) (map enc rs) = map_option enc (List.find (\<lambda>r. ident r = i) rs)"
  "ro_identify opts ` set (map enc rs) = ident ` set rs"
proof -
  show "map (ro_identify opts) (map enc rs) = map ident rs"
    and "filter (\<lambda>x. ro_identify opts x \<noteq> i) (map enc rs) = map enc (filter (\<lambda>r. ident r \<noteq> i) rs)"
    and "replace_list opts (enc r) (map enc rs) = map enc (updated_list ident r rs)"
    and "ro_identify opts ` set (map enc rs) = ident ` set rs"
    by (simp_all add: identify_enc filter_map o_def replace_list_def updated_list_def image_image)
  show "put_list opts (enc r) (map enc rs) = map enc (newest_list (ro_max opts) ident r rs)"
    unfolding put_list_def newest_list_def by (simp add: identify_enc filter_map o_def take_map [symmetric])
  show "List.find (\<lambda>x. ro_identify opts x = i) (map enc rs) = map_option enc (List.find (\<lambda>r. ident r = i) rs)"
    by (induction rs) (simp_all add: identify_enc)
qed

lemma decode_all: "collection opts enc good st rs \<Longrightarrow> List.map_filter dec (map enc rs) = rs"
proof -
  assume "collection opts enc good st rs"
  then have "\<forall>r \<in> set rs. good r" by (simp add: collection_def)
  then show ?thesis by (induction rs) (simp_all add: List.map_filter_def dec_enc)
qed

lemma list_collection: "collection opts enc good st rs \<Longrightarrow> store_list opts st = (map enc rs, st)"
  by (simp add: collection_def store_list_holds)

lemma get_collection:
  assumes "collection opts enc good st rs"
  shows "store_get opts i st = (map_option enc (List.find (\<lambda>r. ident r = i) rs), st)"
    and "Option.bind (fst (store_get opts i st)) dec = List.find (\<lambda>r. ident r = i) rs"
proof -
  show get: "store_get opts i st = (map_option enc (List.find (\<lambda>r. ident r = i) rs), st)"
    using assms store_get_holds [of st opts "map enc rs" i] by (simp add: collection_def map_enc(5))
  show "Option.bind (fst (store_get opts i st)) dec = List.find (\<lambda>r. ident r = i) rs"
    using assms find_ident [of ident i rs]
    by (cases "List.find (\<lambda>r. ident r = i) rs") (auto simp: get collection_def dec_enc)
qed

lemma put_collection:
  assumes held: "collection opts enc good st rs" and r: "good r"
  shows "fst (store_put opts (enc r) st) \<noteq> None"
    and "collection opts enc good (snd (store_put opts (enc r) st)) (newest_list (ro_max opts) ident r rs)"
proof -
  have up: "rs_upgrade st \<noteq> None" and area: "holds opts (rs_area st) (map enc rs)"
    using held by (simp_all add: collection_def)
  have "ro_identify opts (enc r) \<noteq> ''index''" using not_reserved [OF r] by (simp add: identify_enc)
  note put = store_put_holds [OF up area validate_enc [OF r] this room, unfolded map_enc(4)]
  show "fst (store_put opts (enc r) st) \<noteq> None" by (rule put)
  show "collection opts enc good (snd (store_put opts (enc r) st)) (newest_list (ro_max opts) ident r rs)"
    using put(2,3) up held r newest_in by (fastforce simp: collection_def)
qed

lemma replace_collection:
  assumes held: "collection opts enc good st rs" and r: "good r" and known: "ident r \<in> ident ` set rs"
  shows "fst (store_replace opts (enc r) st)"
    and "collection opts enc good (snd (store_replace opts (enc r) st)) (updated_list ident r rs)"
proof -
  have up: "rs_upgrade st \<noteq> None" and area: "holds opts (rs_area st) (map enc rs)"
    using held by (simp_all add: collection_def)
  have "ro_identify opts (enc r) \<in> ro_identify opts ` set (map enc rs)"
    using known unfolding map_enc(6) by (simp add: identify_enc)
  note replaced = store_replace_known [OF up area validate_enc [OF r] this, unfolded map_enc(3)]
  show "fst (store_replace opts (enc r) st)" by (simp add: replaced(1))
  have "\<forall>x \<in> set (updated_list ident r rs). good x" using updated_in held r by (fastforce simp: collection_def)
  then show "collection opts enc good (snd (store_replace opts (enc r) st)) (updated_list ident r rs)"
    using replaced(2) up by (simp add: collection_def replaced(1))
qed

lemma remove_collection:
  assumes held: "collection opts enc good st rs" and i: "i \<noteq> ''index''"
  shows "fst (store_remove opts i st)"
    and "collection opts enc good (snd (store_remove opts i st)) (filter (\<lambda>r. ident r \<noteq> i) rs)"
proof -
  have up: "rs_upgrade st \<noteq> None" and area: "holds opts (rs_area st) (map enc rs)"
    using held by (simp_all add: collection_def)
  show "fst (store_remove opts i st)" by (rule store_remove_holds(1) [OF up area i])
  have "rs_upgrade (snd (store_remove opts i st)) \<noteq> None"
    using up by (auto simp: store_remove_def upgraded_ensure Let_def split: option.splits)
  then show "collection opts enc good (snd (store_remove opts i st)) (filter (\<lambda>r. ident r \<noteq> i) rs)"
    using store_remove_holds(2) [OF up area i, unfolded map_enc(2)] held by (simp add: collection_def)
qed

text \<open>A change that keeps the identifier and goodness replaces the record, or changes nothing.\<close>

lemma mutate_collection:
  assumes held: "collection opts enc good st rs" and i: "i \<noteq> ''index''"
    and stable: "\<And>r r'. good r \<Longrightarrow> f r = Some r' \<Longrightarrow> good r' \<and> ident r' = ident r"
  defines "result \<equiv> store_mutate opts i (lifted dec enc f) st"
  shows "Option.bind (fst result) dec = changed_in ident i f rs"
    and "collection opts enc good (snd result)
      (case changed_in ident i f rs of None \<Rightarrow> rs | Some r' \<Rightarrow> updated_list ident r' rs)"
proof -
  have up: "rs_upgrade st \<noteq> None" and area: "holds opts (rs_area st) (map enc rs)" and good: "\<forall>r \<in> set rs. good r"
    using held by (simp_all add: collection_def)
  have still: "rs_upgrade (snd result) \<noteq> None"
    using up by (simp add: result_def store_mutate_def upgraded_ensure Let_def)
  have "Option.bind (fst result) dec = changed_in ident i f rs \<and> collection opts enc good (snd result)
      (case changed_in ident i f rs of None \<Rightarrow> rs | Some r' \<Rightarrow> updated_list ident r' rs)"
  proof (cases "List.find (\<lambda>r. ident r = i) rs")
    case None
    then have "i \<notin> ro_identify opts ` set (map enc rs)" unfolding map_enc(6) by (auto simp: find_None_iff)
    from store_mutate_absent [OF up area i this, of "lifted dec enc f"]
    show ?thesis using None good still by (simp add: result_def collection_def changed_in_def)
  next
    case (Some r)
    then have r: "r \<in> set rs" "ident r = i" using find_ident [OF Some] by auto
    then have json: "enc r \<in> set (map enc rs)" by simp
    note present = store_mutate_present [OF up area json, of "lifted dec enc f", unfolded identify_enc r(2), folded result_def]
    show ?thesis
    proof (cases "f r")
      case None
      then have "fst result = None" using present(1) r good by (simp add: lifted_def dec_enc)
      then show ?thesis using present(2) None Some good still by (simp add: collection_def changed_in_def)
    next
      case (Some r')
      then have r': "good r'" "ident r' = i" using stable good r by auto
      then have change: "fst result = Some (enc r')"
        using present(1) Some r good by (simp add: lifted_def dec_enc validate_enc)
      have "\<forall>x \<in> set (updated_list ident r' rs). good x" using updated_in good r'(1) by metis
      then have "collection opts enc good (snd result) (updated_list ident r' rs)"
        using present(3) [OF change] r'(2) still by (simp add: identify_enc map_enc collection_def)
      moreover have "changed_in ident i f rs = Some r'"
        using \<open>List.find (\<lambda>r. ident r = i) rs = Some r\<close> Some by (simp add: changed_in_def)
      ultimately show ?thesis using r'(1) by (simp add: change dec_enc)
    qed
  qed
  then show "Option.bind (fst result) dec = changed_in ident i f rs"
    and "collection opts enc good (snd result)
      (case changed_in ident i f rs of None \<Rightarrow> rs | Some r' \<Rightarrow> updated_list ident r' rs)" by blast+
qed

text \<open>The record a change is shown.\<close>

lemma seen_collection:
  assumes held: "collection opts enc good st rs" and i: "i \<noteq> ''index''"
  shows "Option.bind (mutated opts Some (lookup_json (rs_area (ensureUpgraded opts st)) (recordKey opts i))) dec =
    List.find (\<lambda>r. ident r = i) rs"
proof -
  have up: "rs_upgrade st \<noteq> None" and area: "holds opts (rs_area st) (map enc rs)" and good: "\<forall>r \<in> set rs. good r"
    using held by (simp_all add: collection_def)
  show ?thesis
  proof (cases "List.find (\<lambda>r. ident r = i) rs")
    case None
    then have "i \<notin> ro_identify opts ` set (map enc rs)" unfolding map_enc(6) by (auto simp: find_None_iff)
    then have "lookup_json (rs_area st) (recordKey opts i) = JUndef" using area i by (auto simp: holds_def)
    then show ?thesis using None up by (simp add: upgraded_ensure mutated_def isEnvelope_def)
  next
    case (Some r)
    then have r: "r \<in> set rs" "ident r = i" using find_ident [OF Some] by auto
    then have "lookup_json (rs_area st) (recordKey opts i) = envelope (ro_version opts) (enc r)"
      using stored_record [OF area, of "enc r"] by (simp add: identify_enc)
    then show ?thesis using Some up good r by (simp add: upgraded_ensure mutated_envelope validate_enc dec_enc)
  qed
qed

end

end
