(* ===== verification/ScheduleStore.thy ===== *)
theory ScheduleStore
  imports ScheduleModel RecordCollection
begin

text \<open>
  \<open>src/schedules/schedule-store.ts\<close>: creating, editing, pausing and removing schedules, claiming their
  occurrences, and the records of their runs, over two record stores (theory \<open>RecordStore\<close>).

  The two stores share a storage area under prefixes that never meet (\<open>prefixes_apart\<close>), so each is
  modelled over an area of its own. An operation reads the clock once. Records keep the fields of their
  type; what else an input object carries is checked against the prohibited fields and not kept.
  \<open>edit\<close> and \<open>setEnabled\<close> read first and replace the whole record later; their two halves are
  definitions of their own, since other operations can run in between.
\<close>

subsection \<open>The two collections\<close>

definition MAX_SCHEDULES :: nat where
  "MAX_SCHEDULES = 50"

definition MAX_RUNS :: nat where
  "MAX_RUNS = 250"

definition MAX_NAME_LENGTH :: nat where
  "MAX_NAME_LENGTH = 80"

record schedule_env =
  se_zone :: time_zone
  se_number :: "rat \<Rightarrow> string"

definition isStorableSchedule :: "time_zone \<Rightarrow> json \<Rightarrow> bool" where
  "isStorableSchedule z candidate = (isUsableSchedule z candidate \<noteq> None \<and> assertScheduleSafe candidate = None)"

definition isStorableRun :: "json \<Rightarrow> bool" where
  "isStorableRun candidate = (isUsableScheduleRun candidate \<noteq> None \<and> assertScheduleSafe candidate = None)"

definition string_field :: "string \<Rightarrow> json \<Rightarrow> string" where
  "string_field name v =
     (case v of JObj entries \<Rightarrow> (case json_get entries name of JStr s \<Rightarrow> s | _ \<Rightarrow> []) | _ \<Rightarrow> [])"

definition schedule_options :: "time_zone \<Rightarrow> record_options" where
  "schedule_options z =
     \<lparr>ro_kind = ''schedules'', ro_version = SCHEDULE_FORMAT_VERSION, ro_identify = string_field ''scheduleId'',
      ro_validate = isStorableSchedule z, ro_migrations = [], ro_legacy = [], ro_max = MAX_SCHEDULES,
      ro_string = (\<lambda>_. [])\<rparr>"

definition run_options :: record_options where
  "run_options =
     \<lparr>ro_kind = ''schedule-runs'', ro_version = SCHEDULE_RUN_FORMAT_VERSION, ro_identify = string_field ''runId'',
      ro_validate = isStorableRun, ro_migrations = [], ro_legacy = [], ro_max = MAX_RUNS,
      ro_string = (\<lambda>_. [])\<rparr>"

lemma prefixes_apart:
  "\<not> prefix (keyPrefix (schedule_options z) v) (keyPrefix run_options w @ k)"
  "\<not> prefix (keyPrefix run_options w) (keyPrefix (schedule_options z) v @ k)"
  by (simp_all add: keyPrefix_def schedule_options_def run_options_def)

record schedule_store =
  ss_schedules :: record_state
  ss_runs :: record_state

datatype schedule_refusal =
    Name_Required | Name_Taken | Too_Many | Not_Found | Invalid_Target | Invalid_Cadence

text \<open>What an operation throws: a \<open>ScheduleError\<close>, a prohibited field, or the storage itself.\<close>

datatype schedule_error = Schedule_Error schedule_refusal | Prohibited_Field string | Storage_Threw

subsection \<open>Schedules\<close>

definition list_schedules :: "time_zone \<Rightarrow> schedule_store \<Rightarrow> schedule_record list \<times> schedule_store" where
  "list_schedules z s =
     (let (records, st) = store_list (schedule_options z) (ss_schedules s)
      in (List.map_filter (isUsableSchedule z) records, s\<lparr>ss_schedules := st\<rparr>))"

definition get_schedule :: "time_zone \<Rightarrow> string \<Rightarrow> schedule_store \<Rightarrow> schedule_record option \<times> schedule_store" where
  "get_schedule z scheduleId s =
     (let (found, st) = store_get (schedule_options z) scheduleId (ss_schedules s)
      in (Option.bind found (isUsableSchedule z), s\<lparr>ss_schedules := st\<rparr>))"

definition clean_name :: "string \<Rightarrow> string" where
  "clean_name name = take MAX_NAME_LENGTH (js_trim name)"

definition same_name :: "string \<Rightarrow> string \<Rightarrow> bool" where
  "same_name a b = (js_lower a = js_lower b)"

record create_input =
  ci_displayName :: string
  ci_target :: json
  ci_cadence :: json
  ci_enabled :: bool

text \<open>The record's own fields with the target and the cadence as they were passed.\<close>

definition unchecked_json :: "schedule_record \<Rightarrow> json option \<Rightarrow> json option \<Rightarrow> json" where
  "unchecked_json r target cadence =
     (case schedule_json r of
        JObj entries \<Rightarrow>
          JObj (map (\<lambda>(k, v).
            (k, if k = ''target'' then (case target of Some t \<Rightarrow> t | None \<Rightarrow> v)
                else if k = ''cadence'' then (case cadence of Some c \<Rightarrow> c | None \<Rightarrow> v) else v)) entries)
      | v \<Rightarrow> v)"

definition create_plan ::
  "time_zone \<Rightarrow> create_input \<Rightarrow> string \<Rightarrow> rat \<Rightarrow> schedule_record list \<Rightarrow> schedule_error + schedule_record" where
  "create_plan z input freshId now existing =
     (let displayName = clean_name (ci_displayName input) in
      if displayName = [] then Inl (Schedule_Error Name_Required)
      else case isUsableTarget (ci_target input) of
        None \<Rightarrow> Inl (Schedule_Error Invalid_Target)
      | Some target \<Rightarrow>
          (case isUsableCadence z (ci_cadence input) of
             None \<Rightarrow> Inl (Schedule_Error Invalid_Cadence)
           | Some cadence \<Rightarrow>
               if MAX_SCHEDULES \<le> length existing then Inl (Schedule_Error Too_Many)
               else if \<exists>entry \<in> set existing. same_name (sc_displayName entry) displayName then
                 Inl (Schedule_Error Name_Taken)
               else
                 (case nextOccurrence z cadence now of
                    None \<Rightarrow> Inl (Schedule_Error Invalid_Cadence)
                  | Some first \<Rightarrow>
                      (let record =
                         \<lparr>sc_scheduleId = freshId, sc_displayName = displayName, sc_target = target,
                          sc_cadence = cadence, sc_enabled = ci_enabled input, sc_createdAt = now,
                          sc_updatedAt = now, sc_nextRunAt = of_int first, sc_lastClaimedOccurrenceAt = now,
                          sc_lastRunAt = JUndef, sc_lastRunStatus = None, sc_lastRunReason = None\<rparr>
                       in case assertScheduleSafe (unchecked_json record (Some (ci_target input)) (Some (ci_cadence input))) of
                            Some field \<Rightarrow> Inl (Prohibited_Field field)
                          | None \<Rightarrow> Inr record))))"

definition create_schedule ::
  "time_zone \<Rightarrow> create_input \<Rightarrow> string \<Rightarrow> rat \<Rightarrow> schedule_store \<Rightarrow> (schedule_error + schedule_record) \<times> schedule_store" where
  "create_schedule z input freshId now s =
     (let (existing, s) = list_schedules z s in
      case create_plan z input freshId now existing of
        Inl e \<Rightarrow> (Inl e, s)
      | Inr record \<Rightarrow>
          (case store_put (schedule_options z) (schedule_json record) (ss_schedules s) of
             (None, st) \<Rightarrow> (Inl Storage_Threw, s\<lparr>ss_schedules := st\<rparr>)
           | (Some removed, st) \<Rightarrow> (Inr record, s\<lparr>ss_schedules := st\<rparr>)))"

record edit_patch =
  ep_displayName :: "string option"
  ep_target :: "json option"
  ep_cadence :: "json option"

text \<open>The first half of \<open>edit\<close>: everything up to the replacement.\<close>

definition edit_name ::
  "schedule_record \<Rightarrow> string option \<Rightarrow> schedule_record list \<Rightarrow> schedule_error + string" where
  "edit_name existing patch others =
     (case patch of
        None \<Rightarrow> Inr (sc_displayName existing)
      | Some name \<Rightarrow>
          (let displayName = clean_name name in
           if displayName = [] then Inl (Schedule_Error Name_Required)
           else if \<exists>entry \<in> set others. sc_scheduleId entry \<noteq> sc_scheduleId existing \<and>
               same_name (sc_displayName entry) displayName then Inl (Schedule_Error Name_Taken)
           else Inr displayName))"

definition edit_next ::
  "time_zone \<Rightarrow> schedule_record \<Rightarrow> schedule_cadence option \<Rightarrow> rat \<Rightarrow> rat option" where
  "edit_next z existing cadence now =
     (case cadence of
        None \<Rightarrow> Some (sc_nextRunAt existing)
      | Some c \<Rightarrow> map_option of_int (nextOccurrence z c (max now (sc_lastClaimedOccurrenceAt existing))))"

definition edited :: "time_zone \<Rightarrow> schedule_record \<Rightarrow> edit_patch \<Rightarrow> rat \<Rightarrow> schedule_record list \<Rightarrow> schedule_error + schedule_record" where
  "edited z existing patch now others =
     (case edit_name existing (ep_displayName patch) others of
        Inl e \<Rightarrow> Inl e
      | Inr displayName \<Rightarrow>
          (case map_option isUsableTarget (ep_target patch) of
             Some None \<Rightarrow> Inl (Schedule_Error Invalid_Target)
           | target \<Rightarrow>
               (case map_option (isUsableCadence z) (ep_cadence patch) of
                  Some None \<Rightarrow> Inl (Schedule_Error Invalid_Cadence)
                | cadence \<Rightarrow>
                    (case edit_next z existing (Option.bind cadence (\<lambda>c. c)) now of
                       None \<Rightarrow> Inl (Schedule_Error Invalid_Cadence)
                     | Some nextRunAt \<Rightarrow>
                         (let record = existing\<lparr>sc_displayName := displayName,
                            sc_target := (case target of Some (Some t) \<Rightarrow> t | _ \<Rightarrow> sc_target existing),
                            sc_cadence := (case cadence of Some (Some c) \<Rightarrow> c | _ \<Rightarrow> sc_cadence existing),
                            sc_nextRunAt := nextRunAt, sc_updatedAt := now\<rparr>
                          in case assertScheduleSafe (unchecked_json record (ep_target patch) (ep_cadence patch)) of
                               Some field \<Rightarrow> Inl (Prohibited_Field field)
                             | None \<Rightarrow> Inr record)))))"

definition edit_plan ::
  "time_zone \<Rightarrow> string \<Rightarrow> edit_patch \<Rightarrow> rat \<Rightarrow> schedule_store \<Rightarrow> (schedule_error + schedule_record) \<times> schedule_store" where
  "edit_plan z scheduleId patch now s =
     (let (found, s) = get_schedule z scheduleId s in
      case found of
        None \<Rightarrow> (Inl (Schedule_Error Not_Found), s)
      | Some existing \<Rightarrow>
          (let (others, s) = list_schedules z s in (edited z existing patch now others, s)))"

definition replace_schedule :: "time_zone \<Rightarrow> schedule_record \<Rightarrow> schedule_store \<Rightarrow> (schedule_error + schedule_record) \<times> schedule_store" where
  "replace_schedule z record s =
     (let (done, st) = store_replace (schedule_options z) (schedule_json record) (ss_schedules s)
      in (if done then Inr record else Inl Storage_Threw, s\<lparr>ss_schedules := st\<rparr>))"

definition edit_schedule ::
  "time_zone \<Rightarrow> string \<Rightarrow> edit_patch \<Rightarrow> rat \<Rightarrow> schedule_store \<Rightarrow> (schedule_error + schedule_record) \<times> schedule_store" where
  "edit_schedule z scheduleId patch now s =
     (case edit_plan z scheduleId patch now s of
        (Inl e, s) \<Rightarrow> (Inl e, s)
      | (Inr record, s) \<Rightarrow> replace_schedule z record s)"

text \<open>\<open>setEnabled\<close>: refused, nothing to do, or the record to write.\<close>

datatype enable_plan = Enable_Refused schedule_error | Enable_Same schedule_record | Enable_Write schedule_record

definition setEnabled_plan ::
  "time_zone \<Rightarrow> string \<Rightarrow> bool \<Rightarrow> rat \<Rightarrow> schedule_store \<Rightarrow> enable_plan \<times> schedule_store" where
  "setEnabled_plan z scheduleId enabled now s =
     (let (found, s) = get_schedule z scheduleId s in
      case found of
        None \<Rightarrow> (Enable_Refused (Schedule_Error Not_Found), s)
      | Some existing \<Rightarrow>
          if sc_enabled existing = enabled then (Enable_Same existing, s)
          else
            (case edit_next z existing (if enabled then Some (sc_cadence existing) else None) now of
               None \<Rightarrow> (Enable_Refused (Schedule_Error Invalid_Cadence), s)
             | Some nextRunAt \<Rightarrow>
                 (Enable_Write (existing\<lparr>sc_enabled := enabled, sc_nextRunAt := nextRunAt, sc_updatedAt := now\<rparr>), s)))"

definition setEnabled ::
  "time_zone \<Rightarrow> string \<Rightarrow> bool \<Rightarrow> rat \<Rightarrow> schedule_store \<Rightarrow> (schedule_error + schedule_record) \<times> schedule_store" where
  "setEnabled z scheduleId enabled now s =
     (case setEnabled_plan z scheduleId enabled now s of
        (Enable_Refused e, s) \<Rightarrow> (Inl e, s)
      | (Enable_Same existing, s) \<Rightarrow> (Inr existing, s)
      | (Enable_Write record, s) \<Rightarrow> replace_schedule z record s)"

subsection \<open>Claims\<close>

definition mutate_schedule ::
  "time_zone \<Rightarrow> string \<Rightarrow> (schedule_record \<Rightarrow> schedule_record option) \<Rightarrow> schedule_store \<Rightarrow>
    schedule_record option \<times> schedule_store" where
  "mutate_schedule z scheduleId f s =
     (let (result, st) = store_mutate (schedule_options z) scheduleId (lifted (isUsableSchedule z) schedule_json f) (ss_schedules s)
      in (Option.bind result (isUsableSchedule z), s\<lparr>ss_schedules := st\<rparr>))"

text \<open>The schedule a change in \<open>mutate\<close> is shown.\<close>

definition mutable_schedule :: "time_zone \<Rightarrow> string \<Rightarrow> schedule_store \<Rightarrow> schedule_record option" where
  "mutable_schedule z scheduleId s =
     (let st = ensureUpgraded (schedule_options z) (ss_schedules s);
          stored = lookup_json (rs_area st) (recordKey (schedule_options z) scheduleId)
      in Option.bind (mutated (schedule_options z) Some stored) (isUsableSchedule z))"

definition claimed :: "time_zone \<Rightarrow> rat \<Rightarrow> rat \<Rightarrow> schedule_record \<Rightarrow> schedule_record" where
  "claimed z occurrenceAt now current =
     current\<lparr>sc_lastClaimedOccurrenceAt := occurrenceAt,
       sc_nextRunAt := (case nextOccurrence z (sc_cadence current) occurrenceAt of
          None \<Rightarrow> sc_nextRunAt current | Some t \<Rightarrow> of_int t),
       sc_updatedAt := now\<rparr>"

datatype claim_refusal = Already_Claimed | Unknown_Schedule | Paused

datatype claim_verdict = Claim_Ok (claim_runId: string) (claim_schedule: schedule_record) | Claim_Refused claim_refusal

definition claim_change :: "time_zone \<Rightarrow> rat \<Rightarrow> rat \<Rightarrow> schedule_record \<Rightarrow> schedule_record option" where
  "claim_change z occurrenceAt now current =
     (if \<not> sc_enabled current \<or> occurrenceAt \<le> sc_lastClaimedOccurrenceAt current then None
      else Some (claimed z occurrenceAt now current))"

definition claim_reason :: "rat \<Rightarrow> schedule_record option \<Rightarrow> claim_refusal" where
  "claim_reason occurrenceAt seen =
     (case seen of
        None \<Rightarrow> Unknown_Schedule
      | Some current \<Rightarrow>
          if \<not> sc_enabled current then Paused
          else if occurrenceAt \<le> sc_lastClaimedOccurrenceAt current then Already_Claimed
          else Unknown_Schedule)"

definition claimOccurrence ::
  "schedule_env \<Rightarrow> string \<Rightarrow> rat \<Rightarrow> rat \<Rightarrow> schedule_store \<Rightarrow> claim_verdict \<times> schedule_store" where
  "claimOccurrence env scheduleId occurrenceAt now s =
     (case mutate_schedule (se_zone env) scheduleId (claim_change (se_zone env) occurrenceAt now) s of
        (Some updated, s') \<Rightarrow> (Claim_Ok (runIdFor (se_number env) scheduleId occurrenceAt) updated, s')
      | (None, s') \<Rightarrow>
          (Claim_Refused (claim_reason occurrenceAt (mutable_schedule (se_zone env) scheduleId s)), s'))"

definition skip_change :: "time_zone \<Rightarrow> rat \<Rightarrow> rat \<Rightarrow> schedule_record \<Rightarrow> schedule_record option" where
  "skip_change z occurrenceAt now current =
     (if occurrenceAt \<le> sc_lastClaimedOccurrenceAt current then None
      else Some (claimed z occurrenceAt now current))"

definition skipOccurrence ::
  "time_zone \<Rightarrow> string \<Rightarrow> rat \<Rightarrow> rat \<Rightarrow> schedule_store \<Rightarrow> schedule_record option \<times> schedule_store" where
  "skipOccurrence z scheduleId occurrenceAt now s = mutate_schedule z scheduleId (skip_change z occurrenceAt now) s"

definition outcome_change ::
  "rat \<Rightarrow> run_status \<Rightarrow> run_reason option \<Rightarrow> rat \<Rightarrow> schedule_record \<Rightarrow> schedule_record option" where
  "outcome_change at_time status reason now current =
     Some (current\<lparr>sc_lastRunAt := time_json at_time, sc_lastRunStatus := Some status,
       sc_lastRunReason := (case reason of None \<Rightarrow> sc_lastRunReason current | Some r \<Rightarrow> Some r), sc_updatedAt := now\<rparr>)"

definition recordOutcome ::
  "time_zone \<Rightarrow> string \<Rightarrow> rat \<Rightarrow> run_status \<Rightarrow> run_reason option \<Rightarrow> rat \<Rightarrow> schedule_store \<Rightarrow>
    schedule_record option \<times> schedule_store" where
  "recordOutcome z scheduleId at_time status reason now s =
     mutate_schedule z scheduleId (outcome_change at_time status reason now) s"

subsection \<open>Runs\<close>

definition get_run :: "string \<Rightarrow> schedule_store \<Rightarrow> schedule_run option \<times> schedule_store" where
  "get_run runId s =
     (let (found, st) = store_get run_options runId (ss_runs s)
      in (Option.bind found isUsableScheduleRun, s\<lparr>ss_runs := st\<rparr>))"

text \<open>\<open>startRun\<close>: the record, or \<open>None\<close> where the storage threw.\<close>

definition startRun ::
  "string \<Rightarrow> string \<Rightarrow> rat \<Rightarrow> run_status \<Rightarrow> run_reason option \<Rightarrow> string option \<Rightarrow> rat \<Rightarrow> schedule_store \<Rightarrow>
    schedule_run option \<times> schedule_store" where
  "startRun runId scheduleId occurrenceAt status reason taskId now s =
     (case get_run runId s of
        (Some existing, s) \<Rightarrow> (Some existing, s)
      | (None, s) \<Rightarrow>
          (let record = \<lparr>sr_runId = runId, sr_scheduleId = scheduleId, sr_occurrenceAt = occurrenceAt,
             sr_startedAt = now, sr_status = status,
             sr_finishedAt = (if status = Run_Running then JUndef else time_json now),
             sr_reason = reason, sr_taskId = taskId\<rparr>
           in case store_put run_options (run_json record) (ss_runs s) of
                (None, st) \<Rightarrow> (None, s\<lparr>ss_runs := st\<rparr>)
              | (Some removed, st) \<Rightarrow> (Some record, s\<lparr>ss_runs := st\<rparr>)))"

definition mutate_run ::
  "string \<Rightarrow> (schedule_run \<Rightarrow> schedule_run option) \<Rightarrow> schedule_store \<Rightarrow> schedule_run option \<times> schedule_store" where
  "mutate_run runId f s =
     (let (result, st) = store_mutate run_options runId (lifted isUsableScheduleRun run_json f) (ss_runs s)
      in (Option.bind result isUsableScheduleRun, s\<lparr>ss_runs := st\<rparr>))"

definition finish_change ::
  "run_status \<Rightarrow> run_reason option \<Rightarrow> string option \<Rightarrow> rat \<Rightarrow> schedule_run \<Rightarrow> schedule_run option" where
  "finish_change status reason taskId now current =
     (if sr_status current \<noteq> Run_Running then None
      else Some (current\<lparr>sr_status := status, sr_finishedAt := time_json now,
        sr_reason := (case reason of None \<Rightarrow> sr_reason current | Some r \<Rightarrow> Some r),
        sr_taskId := (case taskId of None \<Rightarrow> sr_taskId current | Some i \<Rightarrow> Some i)\<rparr>))"

definition finishRun ::
  "string \<Rightarrow> run_status \<Rightarrow> run_reason option \<Rightarrow> string option \<Rightarrow> rat \<Rightarrow> schedule_store \<Rightarrow>
    schedule_run option \<times> schedule_store" where
  "finishRun runId status reason taskId now s = mutate_run runId (finish_change status reason taskId now) s"

definition attachTask :: "string \<Rightarrow> string \<Rightarrow> schedule_store \<Rightarrow> schedule_run option \<times> schedule_store" where
  "attachTask runId taskId s =
     mutate_run runId
       (\<lambda>current. if sr_taskId current = Some taskId then None else Some (current\<lparr>sr_taskId := Some taskId\<rparr>)) s"

definition listRuns :: "string option \<Rightarrow> schedule_store \<Rightarrow> schedule_run list \<times> schedule_store" where
  "listRuns scheduleId s =
     (let (records, st) = store_list run_options (ss_runs s);
          all_runs = List.map_filter isUsableScheduleRun records;
          scoped = (case scheduleId of None \<Rightarrow> all_runs | Some i \<Rightarrow> filter (\<lambda>r. sr_scheduleId r = i) all_runs)
      in (sort_key (\<lambda>r. - sr_occurrenceAt r) scoped, s\<lparr>ss_runs := st\<rparr>))"

definition listRunningRuns :: "schedule_store \<Rightarrow> schedule_run list \<times> schedule_store" where
  "listRunningRuns s = (let (runs, s) = listRuns None s in (filter (\<lambda>r. sr_status r = Run_Running) runs, s))"

definition remove_run :: "string \<Rightarrow> schedule_store \<Rightarrow> schedule_store" where
  "remove_run runId s = s\<lparr>ss_runs := snd (store_remove run_options runId (ss_runs s))\<rparr>"

text \<open>\<open>remove\<close>: the schedule, then its runs; nothing after a storage fault.\<close>

definition remove_schedule :: "time_zone \<Rightarrow> string \<Rightarrow> schedule_store \<Rightarrow> bool \<times> schedule_store" where
  "remove_schedule z scheduleId s =
     (case store_remove (schedule_options z) scheduleId (ss_schedules s) of
        (False, st) \<Rightarrow> (False, s\<lparr>ss_schedules := st\<rparr>)
      | (True, st) \<Rightarrow>
          (let s = s\<lparr>ss_schedules := st\<rparr>;
               (records, rst) = store_list run_options (ss_runs s);
               s = s\<lparr>ss_runs := rst\<rparr>;
               runs = filter (\<lambda>r. sr_scheduleId r = scheduleId) (List.map_filter isUsableScheduleRun records)
           in (True, fold remove_run (map sr_runId runs) s)))"

subsection \<open>The collections behind the store\<close>

definition sound_schedule :: "time_zone \<Rightarrow> schedule_record \<Rightarrow> bool" where
  "sound_schedule z r =
     (usable_record z r \<and> schedule_walk (sc_lastRunAt r) [''lastRunAt''] 1 = None \<and> sc_scheduleId r \<noteq> ''index'')"

definition sound_run :: "schedule_run \<Rightarrow> bool" where
  "sound_run r =
     (usable_run r \<and> schedule_walk (sr_finishedAt r) [''finishedAt''] 1 = None \<and> sr_runId r \<noteq> ''index'' \<and>
      sr_scheduleId r \<noteq> ''index'')"

lemma identify_schedule [simp]: "ro_identify (schedule_options z) (schedule_json r) = sc_scheduleId r"
  by (simp add: schedule_options_def schedule_json_def string_field_def)

lemma identify_run [simp]: "ro_identify run_options (run_json r) = sr_runId r"
  by (simp add: run_options_def run_json_def string_field_def)

lemma validate_schedule [simp]:
  "ro_validate (schedule_options z) (schedule_json r) \<longleftrightarrow>
    usable_record z r \<and> schedule_walk (sc_lastRunAt r) [''lastRunAt''] 1 = None"
  by (auto simp: schedule_options_def isStorableSchedule_def schedule_roundtrip schedule_json_safe)

lemma validate_run [simp]:
  "ro_validate run_options (run_json r) \<longleftrightarrow> usable_run r \<and> schedule_walk (sr_finishedAt r) [''finishedAt''] 1 = None"
  by (auto simp: run_options_def isStorableRun_def run_roundtrip run_json_safe)

interpretation scheds: record_collection "schedule_options z" schedule_json "isUsableSchedule z" sc_scheduleId
  "sound_schedule z" for z
  by unfold_locales (simp_all add: sound_schedule_def schedule_roundtrip, simp add: schedule_options_def MAX_SCHEDULES_def)

interpretation runs: record_collection run_options run_json isUsableScheduleRun sr_runId sound_run
  by unfold_locales (simp_all add: sound_run_def run_roundtrip, simp add: run_options_def MAX_RUNS_def)

text \<open>
  \<open>stores z s rs runs\<close>: the store holds the schedules \<open>rs\<close> and the runs \<open>runs\<close>, newest first; stored and
  read again they are the same.
\<close>

definition stores :: "time_zone \<Rightarrow> schedule_store \<Rightarrow> schedule_record list \<Rightarrow> schedule_run list \<Rightarrow> bool" where
  "stores z s rs runs =
     (collection (schedule_options z) schedule_json (sound_schedule z) (ss_schedules s) rs \<and>
      collection run_options run_json sound_run (ss_runs s) runs)"

lemma stores_cong [simp]:
  "stores z (s\<lparr>ss_schedules := st\<rparr>) rs runs \<longleftrightarrow>
    collection (schedule_options z) schedule_json (sound_schedule z) st rs \<and>
    collection run_options run_json sound_run (ss_runs s) runs"
  "stores z (s\<lparr>ss_runs := st\<rparr>) rs runs \<longleftrightarrow>
    collection (schedule_options z) schedule_json (sound_schedule z) (ss_schedules s) rs \<and>
    collection run_options run_json sound_run st runs"
  by (simp_all add: stores_def)

lemma kept_parts:
  assumes "stores z s rs runs"
  shows "collection (schedule_options z) schedule_json (sound_schedule z) (ss_schedules s) rs"
    and "collection run_options run_json sound_run (ss_runs s) runs"
    and "\<forall>r \<in> set rs. sound_schedule z r" and "\<forall>r \<in> set runs. sound_run r"
  using assms by (simp_all add: stores_def collection_def)

text \<open>Reads.\<close>

lemma list_schedules_keeps: "stores z s rs runs \<Longrightarrow> list_schedules z s = (rs, s)"
  using scheds.list_collection scheds.decode_all kept_parts(1) by (fastforce simp: list_schedules_def)

lemma get_schedule_keeps: "stores z s rs runs \<Longrightarrow> get_schedule z i s = (List.find (\<lambda>r. sc_scheduleId r = i) rs, s)"
  using scheds.get_collection [OF kept_parts(1), of z s rs runs i] by (simp add: get_schedule_def)

lemma get_run_keeps: "stores z s rs runs \<Longrightarrow> get_run i s = (List.find (\<lambda>r. sr_runId r = i) runs, s)"
  using runs.get_collection [OF kept_parts(2), of z s rs runs i] by (simp add: get_run_def)

lemma listRuns_keeps:
  assumes "stores z s rs runs"
  shows "listRuns sid s =
    (sort_key (\<lambda>r. - sr_occurrenceAt r)
      (case sid of None \<Rightarrow> runs | Some i \<Rightarrow> filter (\<lambda>r. sr_scheduleId r = i) runs), s)"
  using runs.list_collection [OF kept_parts(2) [OF assms]] runs.decode_all [OF kept_parts(2) [OF assms]]
  by (simp add: listRuns_def split: option.splits)

text \<open>Changes of one schedule or run.\<close>

lemma mutate_schedule_keeps:
  assumes kept: "stores z s rs runs" and i: "i \<noteq> ''index''"
    and stable: "\<And>r r'. sound_schedule z r \<Longrightarrow> f r = Some r' \<Longrightarrow> sound_schedule z r' \<and> sc_scheduleId r' = sc_scheduleId r"
  shows "fst (mutate_schedule z i f s) = changed_in sc_scheduleId i f rs"
    and "stores z (snd (mutate_schedule z i f s))
      (case changed_in sc_scheduleId i f rs of None \<Rightarrow> rs | Some r' \<Rightarrow> updated_list sc_scheduleId r' rs) runs"
  using scheds.mutate_collection [OF kept_parts(1) [OF kept] i stable] kept_parts(2) [OF kept]
  by (simp_all add: mutate_schedule_def case_prod_beta)

lemma mutate_run_keeps:
  assumes kept: "stores z s rs runs" and i: "i \<noteq> ''index''"
    and stable: "\<And>r r'. sound_run r \<Longrightarrow> f r = Some r' \<Longrightarrow> sound_run r' \<and> sr_runId r' = sr_runId r"
  shows "fst (mutate_run i f s) = changed_in sr_runId i f runs"
    and "stores z (snd (mutate_run i f s)) rs
      (case changed_in sr_runId i f runs of None \<Rightarrow> runs | Some r' \<Rightarrow> updated_list sr_runId r' runs)"
  using runs.mutate_collection [OF kept_parts(2) [OF kept] i stable] kept_parts(1) [OF kept]
  by (simp_all add: mutate_run_def case_prod_beta)

lemma claimed_sound:
  "sound_schedule z r \<Longrightarrow> sound_schedule z (claimed z' t now r) \<and> sc_scheduleId (claimed z' t now r) = sc_scheduleId r"
  by (simp add: claimed_def sound_schedule_def usable_record_def)

lemma claim_change_sound:
  "sound_schedule z r \<Longrightarrow> claim_change z t now r = Some r' \<Longrightarrow> sound_schedule z r' \<and> sc_scheduleId r' = sc_scheduleId r"
  by (auto simp: claim_change_def claimed_sound split: if_splits)

lemma skip_change_sound:
  "sound_schedule z r \<Longrightarrow> skip_change z t now r = Some r' \<Longrightarrow> sound_schedule z r' \<and> sc_scheduleId r' = sc_scheduleId r"
  by (auto simp: skip_change_def claimed_sound split: if_splits)

lemma outcome_change_sound:
  "sound_schedule z r \<Longrightarrow> outcome_change t status reason now r = Some r' \<Longrightarrow>
    sound_schedule z r' \<and> sc_scheduleId r' = sc_scheduleId r"
  by (auto simp: outcome_change_def sound_schedule_def usable_record_def time_json_def)

lemma mutable_schedule_keeps:
  "stores z s rs runs \<Longrightarrow> i \<noteq> ''index'' \<Longrightarrow> mutable_schedule z i s = List.find (\<lambda>r. sc_scheduleId r = i) rs"
  using scheds.seen_collection [OF kept_parts(1)] by (simp add: mutable_schedule_def)

lemma claim_keeps:
  assumes kept: "stores (se_zone env) s rs runs" and i: "i \<noteq> ''index''"
  shows "fst (claimOccurrence env i t now s) =
      (case List.find (\<lambda>r. sc_scheduleId r = i) rs of
         None \<Rightarrow> Claim_Refused Unknown_Schedule
       | Some r \<Rightarrow>
           if \<not> sc_enabled r then Claim_Refused Paused
           else if t \<le> sc_lastClaimedOccurrenceAt r then Claim_Refused Already_Claimed
           else Claim_Ok (runIdFor (se_number env) i t) (claimed (se_zone env) t now r))"
    and "stores (se_zone env) (snd (claimOccurrence env i t now s))
      (case changed_in sc_scheduleId i (claim_change (se_zone env) t now) rs of
         None \<Rightarrow> rs | Some r' \<Rightarrow> updated_list sc_scheduleId r' rs) runs"
proof -
  note mutate = mutate_schedule_keeps [where f = "claim_change (se_zone env) t now", OF kept i claim_change_sound [of "se_zone env" _ t now]]
  show "fst (claimOccurrence env i t now s) =
      (case List.find (\<lambda>r. sc_scheduleId r = i) rs of
         None \<Rightarrow> Claim_Refused Unknown_Schedule
       | Some r \<Rightarrow>
           if \<not> sc_enabled r then Claim_Refused Paused
           else if t \<le> sc_lastClaimedOccurrenceAt r then Claim_Refused Already_Claimed
           else Claim_Ok (runIdFor (se_number env) i t) (claimed (se_zone env) t now r))"
    using mutate(1)
    by (cases "List.find (\<lambda>r. sc_scheduleId r = i) rs";
        cases "mutate_schedule (se_zone env) i (claim_change (se_zone env) t now) s")
       (auto simp: claimOccurrence_def mutable_schedule_keeps [OF kept i] claim_reason_def changed_in_def claim_change_def)
  have "snd (claimOccurrence env i t now s) = snd (mutate_schedule (se_zone env) i (claim_change (se_zone env) t now) s)"
    by (simp add: claimOccurrence_def split: prod.splits option.splits)
  then show "stores (se_zone env) (snd (claimOccurrence env i t now s))
      (case changed_in sc_scheduleId i (claim_change (se_zone env) t now) rs of
         None \<Rightarrow> rs | Some r' \<Rightarrow> updated_list sc_scheduleId r' rs) runs"
    using mutate(2) by simp
qed

lemma edited_sound:
  assumes "edited z r patch now others = Inr r'" and "sound_schedule z r"
  shows "sound_schedule z r' \<and> sc_scheduleId r' = sc_scheduleId r \<and> sc_enabled r' = sc_enabled r \<and>
    sc_lastClaimedOccurrenceAt r' = sc_lastClaimedOccurrenceAt r"
proof -
  have name: "n \<noteq> []" if "edit_name r p others = Inr n" for p n
    using that assms(2)
    by (auto simp: edit_name_def sound_schedule_def usable_record_def Let_def split: option.splits if_splits)
  show ?thesis
    using assms name isUsableCadence_usable [of z] isUsableTarget_usable
    unfolding edited_def Let_def sound_schedule_def usable_record_def
    by (auto split: sum.splits option.splits simp: map_option_case)
qed

lemma enabled_sound:
  assumes "fst (setEnabled_plan z i enabled now s) = Enable_Write r'" and kept: "stores z s rs runs"
  shows "\<exists>r. List.find (\<lambda>r. sc_scheduleId r = i) rs = Some r \<and> sound_schedule z r' \<and> sc_scheduleId r' = i \<and>
    sc_lastClaimedOccurrenceAt r' = sc_lastClaimedOccurrenceAt r"
proof (cases "List.find (\<lambda>r. sc_scheduleId r = i) rs")
  case None
  then show ?thesis using assms(1) get_schedule_keeps [OF kept, of i] by (simp add: setEnabled_plan_def)
next
  case (Some r)
  then have "sound_schedule z r" "sc_scheduleId r = i" using find_ident [OF Some] kept_parts(3) [OF kept] by auto
  then show ?thesis
    using Some assms(1) get_schedule_keeps [OF kept, of i]
    by (auto simp: setEnabled_plan_def sound_schedule_def usable_record_def split: if_splits option.splits)
qed

lemma replace_schedule_keeps:
  assumes kept: "stores z s rs runs" and sound: "sound_schedule z r" and known: "sc_scheduleId r \<in> sc_scheduleId ` set rs"
  shows "fst (replace_schedule z r s) = Inr r"
    and "stores z (snd (replace_schedule z r s)) (updated_list sc_scheduleId r rs) runs"
  using scheds.replace_collection [OF kept_parts(1) [OF kept] sound known] kept_parts(2) [OF kept]
  by (simp_all add: replace_schedule_def case_prod_beta)

lemma edit_plan_keeps:
  assumes kept: "stores z s rs runs"
  shows "edit_plan z i patch now s =
    (case List.find (\<lambda>r. sc_scheduleId r = i) rs of
       None \<Rightarrow> (Inl (Schedule_Error Not_Found), s)
     | Some r \<Rightarrow> (edited z r patch now rs, s))"
  by (simp add: edit_plan_def get_schedule_keeps [OF kept] list_schedules_keeps [OF kept] split: option.splits)

lemma create_plan_sound:
  assumes "create_plan z input i now existing = Inr r" and "i \<noteq> []" "i \<noteq> ''index''"
  shows "sound_schedule z r \<and> sc_scheduleId r = i"
  using assms isUsableCadence_usable [of z] isUsableTarget_usable
  by (auto simp: create_plan_def Let_def sound_schedule_def usable_record_def split: if_splits option.splits)

lemma create_keeps:
  assumes kept: "stores z s rs runs" and i: "i \<noteq> []" "i \<noteq> ''index''"
  shows "case create_plan z input i now rs of
      Inl e \<Rightarrow> create_schedule z input i now s = (Inl e, s)
    | Inr r \<Rightarrow> fst (create_schedule z input i now s) = Inr r \<and>
        stores z (snd (create_schedule z input i now s))
          (newest_list MAX_SCHEDULES sc_scheduleId r rs) runs"
proof (cases "create_plan z input i now rs")
  case (Inl e)
  then show ?thesis by (simp add: create_schedule_def list_schedules_keeps [OF kept])
next
  case (Inr r)
  have "sound_schedule z r" using create_plan_sound [OF Inr i] by simp
  from scheds.put_collection [OF kept_parts(1) [OF kept] this] kept_parts(2) [OF kept] Inr show ?thesis
    by (auto simp: create_schedule_def list_schedules_keeps [OF kept] schedule_options_def split: prod.splits option.splits)
qed

lemma remove_run_keeps:
  assumes kept: "stores z s rs runs" and i: "i \<noteq> ''index''"
  shows "stores z (remove_run i s) rs (filter (\<lambda>r. sr_runId r \<noteq> i) runs)"
  using runs.remove_collection [OF kept_parts(2) [OF kept] i] kept_parts(1) [OF kept] by (simp add: remove_run_def)

lemma remove_runs_keeps:
  "stores z s rs runs \<Longrightarrow> ''index'' \<notin> set ids \<Longrightarrow>
    stores z (fold remove_run ids s) rs (filter (\<lambda>r. sr_runId r \<notin> set ids) runs)"
proof (induction ids arbitrary: s runs)
  case (Cons i ids)
  have "stores z (remove_run i s) rs (filter (\<lambda>r. sr_runId r \<noteq> i) runs)"
    using remove_run_keeps [OF Cons.prems(1), of i] Cons.prems(2) by fastforce
  from Cons.IH [OF this] Cons.prems(2) show ?case by (simp add: conj_commute)
qed auto

lemma remove_schedule_keeps:
  assumes kept: "stores z s rs runs" and i: "i \<noteq> ''index''"
  shows "stores z (snd (remove_schedule z i s)) (filter (\<lambda>r. sc_scheduleId r \<noteq> i) rs)
    (filter (\<lambda>r. sr_runId r \<notin> set (map sr_runId (filter (\<lambda>r. sr_scheduleId r = i) runs))) runs)"
proof -
  let ?st = "ss_schedules s" and ?ids = "map sr_runId (filter (\<lambda>r. sr_scheduleId r = i) runs)"
  let ?s = "s\<lparr>ss_schedules := snd (store_remove (schedule_options z) i ?st)\<rparr>"
  note removed = scheds.remove_collection [OF kept_parts(1) [OF kept] i]
  have kept': "stores z ?s (filter (\<lambda>r. sc_scheduleId r \<noteq> i) rs) runs"
    using removed(2) kept_parts(2) [OF kept] by simp
  have ids: "''index'' \<notin> set ?ids" using kept_parts(4) [OF kept] by (auto simp: sound_run_def)
  have "snd (remove_schedule z i s) = fold remove_run ?ids ?s"
    using removed(1) runs.list_collection [OF kept_parts(2) [OF kept]] runs.decode_all [OF kept_parts(2) [OF kept]]
    by (cases "store_remove (schedule_options z) i ?st") (simp add: remove_schedule_def Let_def)
  then show ?thesis using remove_runs_keeps [OF kept' ids] by simp
qed

subsection \<open>Sequences of operations\<close>

text \<open>
  The operations of the store, each run to its end before the next one starts, and the occurrence a
  claim hands out for execution.
\<close>

datatype schedule_op =
    Op_Create create_input string rat
  | Op_Edit string edit_patch rat
  | Op_Enable string bool rat
  | Op_Claim string rat rat
  | Op_Skip string rat rat
  | Op_Outcome string rat run_status "run_reason option" rat
  | Op_Start string string rat run_status "run_reason option" "string option" rat
  | Op_Finish string run_status "run_reason option" "string option" rat
  | Op_Attach string string
  | Op_Remove string

fun run_op :: "schedule_env \<Rightarrow> schedule_op \<Rightarrow> schedule_store \<Rightarrow> (string \<times> rat) option \<times> schedule_store" where
  "run_op env (Op_Create input i now) s = (None, snd (create_schedule (se_zone env) input i now s))"
| "run_op env (Op_Edit i patch now) s = (None, snd (edit_schedule (se_zone env) i patch now s))"
| "run_op env (Op_Enable i enabled now) s = (None, snd (setEnabled (se_zone env) i enabled now s))"
| "run_op env (Op_Claim i t now) s =
     (case claimOccurrence env i t now s of
        (Claim_Ok runId r, s') \<Rightarrow> (Some (i, t), s')
      | (Claim_Refused reason, s') \<Rightarrow> (None, s'))"
| "run_op env (Op_Skip i t now) s = (None, snd (skipOccurrence (se_zone env) i t now s))"
| "run_op env (Op_Outcome i t status reason now) s = (None, snd (recordOutcome (se_zone env) i t status reason now s))"
| "run_op env (Op_Start runId i t status reason taskId now) s =
     (None, snd (startRun runId i t status reason taskId now s))"
| "run_op env (Op_Finish runId status reason taskId now) s = (None, snd (finishRun runId status reason taskId now s))"
| "run_op env (Op_Attach runId taskId) s = (None, snd (attachTask runId taskId s))"
| "run_op env (Op_Remove i) s = (None, snd (remove_schedule (se_zone env) i s))"

fun run_ops :: "schedule_env \<Rightarrow> schedule_op list \<Rightarrow> schedule_store \<Rightarrow> (string \<times> rat) list \<times> schedule_store" where
  "run_ops env [] s = ([], s)"
| "run_ops env (p # ps) s =
     (let (claim, s') = run_op env p s; (claims, s'') = run_ops env ps s'
      in ((case claim of None \<Rightarrow> claims | Some c \<Rightarrow> c # claims), s''))"

text \<open>Identifiers are never empty and never the index key; a new schedule gets one of its own.\<close>

fun op_ids :: "schedule_op \<Rightarrow> string set" where
  "op_ids (Op_Create input i now) = {i}"
| "op_ids (Op_Edit i patch now) = {i}"
| "op_ids (Op_Enable i enabled now) = {i}"
| "op_ids (Op_Claim i t now) = {i}"
| "op_ids (Op_Skip i t now) = {i}"
| "op_ids (Op_Outcome i t status reason now) = {i}"
| "op_ids (Op_Start runId i t status reason taskId now) = {runId, i}"
| "op_ids (Op_Finish runId status reason taskId now) = {runId}"
| "op_ids (Op_Attach runId taskId) = {runId}"
| "op_ids (Op_Remove i) = {i}"

fun op_creates :: "schedule_op \<Rightarrow> string set" where
  "op_creates (Op_Create input i now) = {i}"
| "op_creates _ = {}"

definition proper_op :: "schedule_op \<Rightarrow> bool" where
  "proper_op p = ([] \<notin> op_ids p \<and> ''index'' \<notin> op_ids p)"

text \<open>
  \<open>forward i rs rs'\<close>: what is left of schedule \<open>i\<close> has claimed at least as much as before.
\<close>

definition forward :: "string \<Rightarrow> schedule_record list \<Rightarrow> schedule_record list \<Rightarrow> bool" where
  "forward i rs rs' =
     (\<forall>r'. List.find (\<lambda>r. sc_scheduleId r = i) rs' = Some r' \<longrightarrow>
        (\<exists>r. List.find (\<lambda>r. sc_scheduleId r = i) rs = Some r \<and>
          sc_lastClaimedOccurrenceAt r \<le> sc_lastClaimedOccurrenceAt r'))"

lemma forward_refl [simp]: "forward i rs rs"
  by (simp add: forward_def)

lemma forward_updated:
  assumes "List.find (\<lambda>r. sc_scheduleId r = sc_scheduleId r') rs = Some r"
    and "sc_lastClaimedOccurrenceAt r \<le> sc_lastClaimedOccurrenceAt r'"
  shows "forward i rs (updated_list sc_scheduleId r' rs)"
  using assms by (auto simp: forward_def find_updated)

lemma find_filter_keep: "(\<And>x. P x \<Longrightarrow> Q x) \<Longrightarrow> List.find P (filter Q xs) = List.find P xs"
  by (induction xs) auto

lemma find_filter_none: "(\<And>x. P x \<Longrightarrow> \<not> Q x) \<Longrightarrow> List.find P (filter Q xs) = None"
  by (induction xs) auto

lemma forward_removed: "forward i rs (filter (\<lambda>r. sc_scheduleId r \<noteq> j) rs)"
proof (cases "i = j")
  case True
  then have "List.find (\<lambda>r. sc_scheduleId r = i) (filter (\<lambda>r. sc_scheduleId r \<noteq> j) rs) = None"
    by (intro find_filter_none) simp
  then show ?thesis by (simp add: forward_def)
next
  case False
  then have "List.find (\<lambda>r. sc_scheduleId r = i) (filter (\<lambda>r. sc_scheduleId r \<noteq> j) rs) =
      List.find (\<lambda>r. sc_scheduleId r = i) rs"
    by (intro find_filter_keep) auto
  then show ?thesis by (simp add: forward_def)
qed

lemma forward_newest: "i \<noteq> sc_scheduleId r \<Longrightarrow> forward i rs (newest_list room sc_scheduleId r rs)"
  using find_newest [of sc_scheduleId i room r rs] by (fastforce simp: forward_def)

lemma forward_changed:
  assumes "\<And>r r'. f r = Some r' \<Longrightarrow>
    sc_scheduleId r' = sc_scheduleId r \<and> sc_lastClaimedOccurrenceAt r \<le> sc_lastClaimedOccurrenceAt r'"
  shows "forward i rs (case changed_in sc_scheduleId j f rs of None \<Rightarrow> rs | Some r' \<Rightarrow> updated_list sc_scheduleId r' rs)"
proof (cases "changed_in sc_scheduleId j f rs")
  case (Some r')
  then obtain r where r: "List.find (\<lambda>r. sc_scheduleId r = j) rs = Some r" "f r = Some r'"
    by (auto simp: changed_in_def bind_eq_Some_conv)
  from assms [OF r(2)] find_ident [OF r(1)] r(1) have "forward i rs (updated_list sc_scheduleId r' rs)"
    by (intro forward_updated [of r' rs r]) auto
  then show ?thesis by (simp add: Some)
qed simp

text \<open>
  \<open>settled_same runs runs'\<close>: a run that had ended is gone or ended the same way at the same time.
\<close>

definition settled_same :: "schedule_run list \<Rightarrow> schedule_run list \<Rightarrow> bool" where
  "settled_same runs runs' =
     (\<forall>i r r'. List.find (\<lambda>r. sr_runId r = i) runs = Some r \<and> sr_status r \<noteq> Run_Running \<and>
        List.find (\<lambda>r. sr_runId r = i) runs' = Some r' \<longrightarrow>
        sr_status r' = sr_status r \<and> sr_finishedAt r' = sr_finishedAt r \<and> sr_reason r' = sr_reason r)"

lemma settled_refl [simp]: "settled_same runs runs"
  by (auto simp: settled_same_def)

lemma settled_removed: "settled_same runs (filter (\<lambda>r. sr_runId r \<notin> ids) runs)"
proof -
  have "List.find (\<lambda>r. sr_runId r = i) (filter (\<lambda>r. sr_runId r \<notin> ids) runs) =
      (if i \<in> ids then None else List.find (\<lambda>r. sr_runId r = i) runs)" for i
    by (cases "i \<in> ids") (auto intro!: find_filter_none find_filter_keep)
  then show ?thesis by (auto simp: settled_same_def)
qed

lemma settled_changed:
  assumes "\<And>r r'. f r = Some r' \<Longrightarrow> sr_runId r' = sr_runId r \<and>
    (sr_status r \<noteq> Run_Running \<longrightarrow>
      sr_status r' = sr_status r \<and> sr_finishedAt r' = sr_finishedAt r \<and> sr_reason r' = sr_reason r)"
  shows "settled_same runs (case changed_in sr_runId j f runs of None \<Rightarrow> runs | Some r' \<Rightarrow> updated_list sr_runId r' runs)"
proof (cases "changed_in sr_runId j f runs")
  case (Some r')
  then obtain r where r: "List.find (\<lambda>r. sr_runId r = j) runs = Some r" "f r = Some r'"
    by (auto simp: changed_in_def bind_eq_Some_conv)
  from assms [OF r(2)] find_ident [OF r(1)] r(1) show ?thesis
    by (auto simp: Some settled_same_def find_updated)
qed simp

lemma startRun_keeps:
  assumes kept: "stores z s rs runs" and ids: "runId \<noteq> []" "runId \<noteq> ''index''" "i \<noteq> []" "i \<noteq> ''index''"
  shows "\<exists>runs'. stores z (snd (startRun runId i t status reason taskId now s)) rs runs' \<and> settled_same runs runs' \<and>
    (List.find (\<lambda>r. sr_runId r = runId) runs = None \<longrightarrow>
      (\<exists>r. fst (startRun runId i t status reason taskId now s) = Some r \<and> sr_status r = status \<and>
        List.find (\<lambda>r. sr_runId r = runId) runs' = Some r))"
proof (cases "List.find (\<lambda>r. sr_runId r = runId) runs")
  case None
  define new where "new = \<lparr>sr_runId = runId, sr_scheduleId = i, sr_occurrenceAt = t, sr_startedAt = now, sr_status = status,
    sr_finishedAt = (if status = Run_Running then JUndef else time_json now), sr_reason = reason, sr_taskId = taskId\<rparr>"
  let ?runs = "newest_list (ro_max run_options) sr_runId new runs"
  have "sound_run new" using ids by (simp add: new_def sound_run_def usable_run_def time_json_def)
  note put = runs.put_collection [OF kept_parts(2) [OF kept] this]
  have started: "startRun runId i t status reason taskId now s =
      (Some new, s\<lparr>ss_runs := snd (store_put run_options (run_json new) (ss_runs s))\<rparr>)"
    using put(1) by (cases "store_put run_options (run_json new) (ss_runs s)")
      (auto simp: startRun_def get_run_keeps [OF kept] None new_def [symmetric])
  have kept': "stores z (snd (startRun runId i t status reason taskId now s)) rs ?runs"
    unfolding started using put(2) kept_parts(1) [OF kept] by simp
  have same: "settled_same runs ?runs"
    unfolding settled_same_def
  proof (intro allI impI, elim conjE)
    fix j r r'
    assume "List.find (\<lambda>r. sr_runId r = j) runs = Some r" "List.find (\<lambda>r. sr_runId r = j) ?runs = Some r'"
    with find_newest [of sr_runId j "ro_max run_options" new runs r'] None have "r' = r" by (auto simp: new_def)
    then show "sr_status r' = sr_status r \<and> sr_finishedAt r' = sr_finishedAt r \<and> sr_reason r' = sr_reason r" by simp
  qed
  have "List.find (\<lambda>r. sr_runId r = runId) ?runs = Some new"
    by (simp add: new_def newest_list_def run_options_def MAX_RUNS_def)
  then show ?thesis using started kept' same by (intro exI [of _ ?runs]) (simp add: new_def)
next
  case (Some r)
  then have "startRun runId i t status reason taskId now s = (Some r, s)"
    by (simp add: startRun_def get_run_keeps [OF kept])
  then show ?thesis using kept Some by (intro exI [of _ runs]) simp
qed

lemma finish_change_sound:
  "sound_run r \<Longrightarrow> finish_change status reason taskId now r = Some r' \<Longrightarrow> sound_run r' \<and> sr_runId r' = sr_runId r"
  by (auto simp: finish_change_def sound_run_def usable_run_def time_json_def split: if_splits)

lemma mutate_forward:
  assumes kept: "stores z s rs runs" and j: "j \<noteq> ''index''"
    and stable: "\<And>r r'. sound_schedule z r \<Longrightarrow> f r = Some r' \<Longrightarrow> sound_schedule z r' \<and> sc_scheduleId r' = sc_scheduleId r"
    and claims: "\<And>r r'. f r = Some r' \<Longrightarrow>
      sc_scheduleId r' = sc_scheduleId r \<and> sc_lastClaimedOccurrenceAt r \<le> sc_lastClaimedOccurrenceAt r'"
  shows "\<exists>rs'. stores z (snd (mutate_schedule z j f s)) rs' runs \<and> forward i rs rs'"
  using mutate_schedule_keeps(2) [OF kept j stable] forward_changed [OF claims] by blast

lemma replace_forward:
  assumes kept: "stores z s rs runs" and r: "List.find (\<lambda>r. sc_scheduleId r = j) rs = Some r"
    and sound: "sound_schedule z r'" and id: "sc_scheduleId r' = j"
    and claims: "sc_lastClaimedOccurrenceAt r' = sc_lastClaimedOccurrenceAt r"
  shows "\<exists>rs'. stores z (snd (replace_schedule z r' s)) rs' runs \<and> forward i rs rs'"
proof -
  have "sc_scheduleId r' \<in> sc_scheduleId ` set rs" using find_image [OF r] id by simp
  from replace_schedule_keeps(2) [OF kept sound this] show ?thesis
    using forward_updated [of r' rs r i] r id claims by auto
qed

lemma edit_forward:
  assumes kept: "stores z s rs runs"
  shows "\<exists>rs'. stores z (snd (edit_schedule z j patch now s)) rs' runs \<and> forward i rs rs'"
proof (cases "List.find (\<lambda>r. sc_scheduleId r = j) rs")
  case None
  then show ?thesis using kept by (auto simp: edit_schedule_def edit_plan_keeps [OF kept] intro!: exI [of _ rs])
next
  case (Some r)
  have r: "sound_schedule z r" "sc_scheduleId r = j" using find_ident [OF Some] kept_parts(3) [OF kept] by auto
  show ?thesis
  proof (cases "edited z r patch now rs")
    case (Inl e)
    then show ?thesis using kept Some by (auto simp: edit_schedule_def edit_plan_keeps [OF kept] intro!: exI [of _ rs])
  next
    case (Inr r')
    from edited_sound [OF Inr r(1)] have "sound_schedule z r'" "sc_scheduleId r' = j"
      "sc_lastClaimedOccurrenceAt r' = sc_lastClaimedOccurrenceAt r" using r(2) by auto
    from replace_forward [OF kept Some this] Inr Some show ?thesis
      by (simp add: edit_schedule_def edit_plan_keeps [OF kept])
  qed
qed

lemma enabled_plan_same:
  "stores z s rs runs \<Longrightarrow> snd (setEnabled_plan z j enabled now s) = s"
  by (simp add: setEnabled_plan_def get_schedule_keeps split: option.splits)

lemma enable_forward:
  assumes kept: "stores z s rs runs"
  shows "\<exists>rs'. stores z (snd (setEnabled z j enabled now s)) rs' runs \<and> forward i rs rs'"
proof (cases "fst (setEnabled_plan z j enabled now s)")
  case (Enable_Write r')
  from enabled_sound [OF this kept] obtain r where r: "List.find (\<lambda>r. sc_scheduleId r = j) rs = Some r"
      "sound_schedule z r'" "sc_scheduleId r' = j" "sc_lastClaimedOccurrenceAt r' = sc_lastClaimedOccurrenceAt r" by blast
  from replace_forward [OF kept r] Enable_Write enabled_plan_same [OF kept, of j enabled now] show ?thesis
    by (cases "setEnabled_plan z j enabled now s") (simp add: setEnabled_def)
qed (use kept enabled_plan_same [OF kept, of j enabled now] in
    \<open>cases "setEnabled_plan z j enabled now s"; auto simp: setEnabled_def intro!: exI [of _ rs]\<close>)+

lemma create_forward:
  assumes kept: "stores z s rs runs" and j: "j \<noteq> []" "j \<noteq> ''index''" and other: "i \<noteq> j"
  shows "\<exists>rs'. stores z (snd (create_schedule z input j now s)) rs' runs \<and> forward i rs rs'"
proof (cases "create_plan z input j now rs")
  case (Inl e)
  then show ?thesis using create_keeps [OF kept j, of input now] kept by (auto intro!: exI [of _ rs])
next
  case (Inr r)
  from create_plan_sound [OF this j] other have "i \<noteq> sc_scheduleId r" by simp
  from create_keeps [OF kept j, of input now] forward_newest [OF this] Inr show ?thesis by auto
qed

lemma claim_forward:
  assumes kept: "stores (se_zone env) s rs runs" and j: "j \<noteq> ''index''"
  shows "\<exists>rs'. stores (se_zone env) (snd (claimOccurrence env j t now s)) rs' runs \<and> forward i rs rs' \<and>
    (fst (run_op env (Op_Claim j t now) s) = Some (i, u) \<longrightarrow>
      (\<exists>r. List.find (\<lambda>r. sc_scheduleId r = i) rs = Some r \<and> sc_lastClaimedOccurrenceAt r < u) \<and>
      (\<forall>r'. List.find (\<lambda>r. sc_scheduleId r = i) rs' = Some r' \<longrightarrow> sc_lastClaimedOccurrenceAt r' = u))"
proof -
  let ?z = "se_zone env" and ?f = "claim_change (se_zone env) t now"
  let ?rs = "case changed_in sc_scheduleId j ?f rs of None \<Rightarrow> rs | Some r' \<Rightarrow> updated_list sc_scheduleId r' rs"
  note claim = claim_keeps [OF kept j, of t now]
  have "forward i rs ?rs"
    by (rule forward_changed) (auto simp: claim_change_def claimed_def split: if_splits)
  moreover have "(\<exists>r. List.find (\<lambda>r. sc_scheduleId r = i) rs = Some r \<and> sc_lastClaimedOccurrenceAt r < u) \<and>
      (\<forall>r'. List.find (\<lambda>r. sc_scheduleId r = i) ?rs = Some r' \<longrightarrow> sc_lastClaimedOccurrenceAt r' = u)"
    if got: "fst (run_op env (Op_Claim j t now) s) = Some (i, u)"
  proof -
    from got have same: "j = i" "t = u" and ok: "\<exists>runId r. fst (claimOccurrence env j t now s) = Claim_Ok runId r"
      by (auto split: prod.splits claim_verdict.splits)
    from ok claim(1) obtain r where r: "List.find (\<lambda>r. sc_scheduleId r = j) rs = Some r" "sc_enabled r"
        "\<not> t \<le> sc_lastClaimedOccurrenceAt r"
      by (cases "List.find (\<lambda>r. sc_scheduleId r = j) rs") (auto split: if_splits)
    then have change: "changed_in sc_scheduleId j ?f rs = Some (claimed ?z t now r)"
      by (simp add: changed_in_def claim_change_def)
    have "sc_scheduleId (claimed ?z t now r) = i" "sc_lastClaimedOccurrenceAt (claimed ?z t now r) = t"
      using find_ident [OF r(1)] same by (simp_all add: claimed_def)
    then have "List.find (\<lambda>r. sc_scheduleId r = i) ?rs = Some (claimed ?z t now r)"
      using find_image [OF r(1)] change unfolding same by (simp add: find_updated)
    then show ?thesis using r same \<open>sc_lastClaimedOccurrenceAt (claimed ?z t now r) = t\<close> by simp
  qed
  ultimately show ?thesis using claim(2) by blast
qed

lemma attach_keeps:
  assumes "stores z s rs runs" and "runId \<noteq> ''index''"
  shows "\<exists>runs'. stores z (snd (attachTask runId taskId s)) rs runs' \<and> settled_same runs runs'"
  unfolding attachTask_def
  by (rule exI, rule conjI, rule mutate_run_keeps(2) [OF assms], (auto simp: sound_run_def usable_run_def split: if_splits) [1],
      rule settled_changed) (auto split: if_splits)

lemma finish_keeps:
  assumes "stores z s rs runs" and "runId \<noteq> ''index''"
  shows "\<exists>runs'. stores z (snd (finishRun runId status reason taskId now s)) rs runs' \<and> settled_same runs runs'"
  unfolding finishRun_def
  by (rule exI, rule conjI, rule mutate_run_keeps(2) [OF assms], erule (1) finish_change_sound, rule settled_changed)
     (auto simp: finish_change_def split: if_splits)

text \<open>One operation moves every schedule forward, leaves ended runs as they ended, and hands out an
  occurrence later than the last.\<close>

lemma op_forward:
  assumes kept: "stores (se_zone env) s rs runs" and proper: "proper_op p" and made: "i \<notin> op_creates p"
  shows "\<exists>rs' runs'. stores (se_zone env) (snd (run_op env p s)) rs' runs' \<and> forward i rs rs' \<and> settled_same runs runs' \<and>
    (fst (run_op env p s) = Some (i, u) \<longrightarrow>
      (\<exists>r. List.find (\<lambda>r. sc_scheduleId r = i) rs = Some r \<and> sc_lastClaimedOccurrenceAt r < u) \<and>
      (\<forall>r'. List.find (\<lambda>r. sc_scheduleId r = i) rs' = Some r' \<longrightarrow> sc_lastClaimedOccurrenceAt r' = u))"
proof (cases p)
  case (Op_Create input j now)
  with create_forward [OF kept, of j i input now] proper made show ?thesis
    by (auto simp: proper_op_def) (metis settled_refl)
next
  case (Op_Edit j patch now)
  with edit_forward [OF kept, of j patch now i] show ?thesis by auto (metis settled_refl)
next
  case (Op_Enable j enabled now)
  with enable_forward [OF kept, of j enabled now i] show ?thesis by auto (metis settled_refl)
next
  case (Op_Claim j t now)
  moreover have "snd (run_op env (Op_Claim j t now) s) = snd (claimOccurrence env j t now s)"
    by (simp split: prod.splits claim_verdict.splits)
  moreover have "j \<noteq> ''index''" using Op_Claim proper by (auto simp: proper_op_def)
  ultimately show ?thesis using claim_forward [OF kept, of j t now i u] settled_refl [of runs] by metis
next
  case (Op_Skip j t now)
  then have "j \<noteq> ''index''" using proper by (auto simp: proper_op_def)
  then have "\<exists>rs'. stores (se_zone env) (snd (skipOccurrence (se_zone env) j t now s)) rs' runs \<and> forward i rs rs'"
    unfolding skipOccurrence_def by (intro mutate_forward [OF kept] skip_change_sound)
      (auto simp: skip_change_def claimed_def split: if_splits)
  then show ?thesis using Op_Skip by auto (metis settled_refl)
next
  case (Op_Outcome j t status reason now)
  then have "j \<noteq> ''index''" using proper by (auto simp: proper_op_def)
  then have "\<exists>rs'. stores (se_zone env) (snd (recordOutcome (se_zone env) j t status reason now s)) rs' runs \<and>
      forward i rs rs'"
    unfolding recordOutcome_def by (intro mutate_forward [OF kept] outcome_change_sound) (auto simp: outcome_change_def)
  then show ?thesis using Op_Outcome by auto (metis settled_refl)
next
  case (Op_Start runId j t status reason taskId now)
  with startRun_keeps [OF kept, of runId j t status reason taskId now] proper show ?thesis
    by (auto simp: proper_op_def) (metis forward_refl)+
next
  case (Op_Finish runId status reason taskId now)
  then have "runId \<noteq> ''index''" using proper by (auto simp: proper_op_def)
  from finish_keeps [OF kept this, of status reason taskId now] Op_Finish show ?thesis by auto (metis forward_refl)
next
  case (Op_Attach runId taskId)
  then have "runId \<noteq> ''index''" using proper by (auto simp: proper_op_def)
  from attach_keeps [OF kept this, of taskId] Op_Attach show ?thesis by auto (metis forward_refl)
next
  case (Op_Remove j)
  then have "j \<noteq> ''index''" using proper by (auto simp: proper_op_def)
  from remove_schedule_keeps [OF kept this] forward_removed [of i rs j] settled_removed Op_Remove show ?thesis by auto
qed

definition claims_of :: "string \<Rightarrow> (string \<times> rat) list \<Rightarrow> rat list" where
  "claims_of i claims = map snd (filter (\<lambda>c. fst c = i) claims)"

lemma claims_forward:
  assumes "stores (se_zone env) s rs runs" and "\<forall>p \<in> set ps. proper_op p \<and> i \<notin> op_creates p"
  shows "sorted_wrt (<) (claims_of i (fst (run_ops env ps s))) \<and>
    (\<forall>t \<in> set (claims_of i (fst (run_ops env ps s))).
       \<exists>r. List.find (\<lambda>r. sc_scheduleId r = i) rs = Some r \<and> sc_lastClaimedOccurrenceAt r < t)"
  using assms
proof (induction ps arbitrary: s rs runs)
  case (Cons p ps)
  let ?s = "snd (run_op env p s)" and ?claim = "fst (run_op env p s)"
  let ?ts = "claims_of i (fst (run_ops env ps ?s))"
  have op: "proper_op p" "i \<notin> op_creates p" using Cons.prems(2) by auto
  obtain u where u: "?claim = Some (i, u) \<or> (\<forall>t. ?claim \<noteq> Some (i, t))" by metis
  from op_forward [OF Cons.prems(1) op, of u] obtain rs' runs' where kept: "stores (se_zone env) ?s rs' runs'"
      and fwd: "forward i rs rs'"
      and got: "?claim = Some (i, u) \<longrightarrow>
        (\<exists>r. List.find (\<lambda>r. sc_scheduleId r = i) rs = Some r \<and> sc_lastClaimedOccurrenceAt r < u) \<and>
        (\<forall>r'. List.find (\<lambda>r. sc_scheduleId r = i) rs' = Some r' \<longrightarrow> sc_lastClaimedOccurrenceAt r' = u)"
    by blast
  have rest: "sorted_wrt (<) ?ts"
    "\<forall>t \<in> set ?ts. \<exists>r. List.find (\<lambda>r. sc_scheduleId r = i) rs' = Some r \<and> sc_lastClaimedOccurrenceAt r < t"
    using Cons.IH [OF kept] Cons.prems(2) by auto
  have later: "\<forall>t \<in> set ?ts. \<exists>r. List.find (\<lambda>r. sc_scheduleId r = i) rs = Some r \<and> sc_lastClaimedOccurrenceAt r < t"
    using rest(2) fwd unfolding forward_def by (meson le_less_trans)
  have "claims_of i (fst (run_ops env (p # ps) s)) = (if ?claim = Some (i, u) then u # ?ts else ?ts)"
    using u by (auto simp: claims_of_def Let_def split: prod.splits option.splits)
  then show ?case using rest later got by (cases "?claim = Some (i, u)") force+
qed (simp add: claims_of_def)

text \<open>
  C14. At most once: over any sequence of the store's operations, in any order and number, the occurrences
  handed out for execution under one schedule come strictly later and later, each after what the stored
  schedule had claimed, so no occurrence is ever handed out twice; edits, pauses, resumptions, missed
  occurrences and outcomes included, as long as each operation finishes before the next one starts.
\<close>

theorem claims_at_most_once:
  assumes "stores (se_zone env) s rs runs" and "\<forall>p \<in> set ps. proper_op p \<and> i \<notin> op_creates p"
  shows "sorted_wrt (<) (claims_of i (fst (run_ops env ps s))) \<and> distinct (claims_of i (fst (run_ops env ps s))) \<and>
    (\<forall>t \<in> set (claims_of i (fst (run_ops env ps s))).
       \<exists>r. List.find (\<lambda>r. sc_scheduleId r = i) rs = Some r \<and> sc_lastClaimedOccurrenceAt r < t)"
  using claims_forward [OF assms] by (simp add: strict_sorted_iff)

text \<open>A store with one schedule in it, for the witnesses.\<close>

definition nightly :: schedule_record where
  "nightly =
     \<lparr>sc_scheduleId = ''s'', sc_displayName = ''n'', sc_target = Target_Workflow ''w'', sc_cadence = Daily 9 0,
      sc_enabled = True, sc_createdAt = 0, sc_updatedAt = 0, sc_nextRunAt = 32400000,
      sc_lastClaimedOccurrenceAt = 0, sc_lastRunAt = JUndef, sc_lastRunStatus = None, sc_lastRunReason = None\<rparr>"

definition fresh_records :: record_state where
  "fresh_records = \<lparr>rs_area = [], rs_upgrade = Some \<lparr>uo_migrated = 0, uo_quarantined = 0, uo_from = None\<rparr>, rs_reports = []\<rparr>"

definition nightly_store :: schedule_store where
  "nightly_store =
     \<lparr>ss_schedules = snd (store_put (schedule_options (fixed_zone 0)) (schedule_json nightly) fresh_records),
      ss_runs = fresh_records\<rparr>"

lemma fresh_collection: "collection opts enc good fresh_records []"
  by (simp add: collection_def fresh_records_def holds_def lookup_json_def area_get_def)

lemma nightly_kept: "stores (fixed_zone 0) nightly_store [nightly] []"
proof -
  have "sound_schedule (fixed_zone 0) nightly"
    by (simp add: sound_schedule_def usable_record_def nightly_def usable_cadence_def usable_target_def)
  from scheds.put_collection(2) [OF fresh_collection this]
  show ?thesis
    by (simp add: stores_def nightly_store_def fresh_collection newest_list_def schedule_options_def MAX_SCHEDULES_def)
qed

theorem claims_at_most_once_witness:
  "distinct (claims_of ''s'' (fst (run_ops \<lparr>se_zone = fixed_zone 0, se_number = (\<lambda>_. ''9'')\<rparr>
     [Op_Claim ''s'' 32400000 32400000, Op_Enable ''s'' False 32400001, Op_Enable ''s'' True 32400002,
      Op_Claim ''s'' 32400000 32400003] nightly_store)))"
proof -
  let ?env = "\<lparr>se_zone = fixed_zone 0, se_number = (\<lambda>_. ''9'')\<rparr>"
  have "stores (se_zone ?env) nightly_store [nightly] []" by (simp add: nightly_kept)
  from claims_at_most_once [OF this, of "[Op_Claim ''s'' 32400000 32400000, Op_Enable ''s'' False 32400001,
      Op_Enable ''s'' True 32400002, Op_Claim ''s'' 32400000 32400003]" "''s''"]
  show ?thesis by (simp add: proper_op_def)
qed

text \<open>
  A run ends once: after any operation of the store (a second finish, a start under the same identifier,
  the removal of its schedule, \<dots>) a run that had ended is gone or still has the status, the reason and
  the time it ended with, and the store holds well-formed collections again.
\<close>

theorem run_ends_once:
  assumes "stores (se_zone env) s rs runs" and "proper_op p"
  shows "\<exists>rs' runs'. stores (se_zone env) (snd (run_op env p s)) rs' runs' \<and> settled_same runs runs'"
proof -
  obtain i where "i \<notin> op_creates p" by (cases p) auto
  from op_forward [OF assms this] show ?thesis by blast
qed

theorem run_ends_once_witness:
  "\<exists>rs' runs'. stores (fixed_zone 0)
      (snd (run_op \<lparr>se_zone = fixed_zone 0, se_number = (\<lambda>_. ''9'')\<rparr> (Op_Remove ''s'') nightly_store)) rs' runs' \<and>
    settled_same [] runs'"
  using run_ends_once [of "\<lparr>se_zone = fixed_zone 0, se_number = (\<lambda>_. ''9'')\<rparr>" nightly_store "[nightly]" "[]"
      "Op_Remove ''s''"] nightly_kept by (simp add: proper_op_def)

subsection \<open>Interleaved operations\<close>

text \<open>
  C15. An edit that has read the schedule before an occurrence is claimed, and replaces it after, unclaims
  that occurrence: the same occurrence is claimed a second time, under the same run identifier, and would
  be executed again. The comments on \<open>edit\<close> and \<open>claimOccurrence\<close> say it cannot happen.
\<close>

theorem edit_unclaims:
  assumes kept: "stores (se_zone env) s rs runs" and i: "i \<noteq> ''index''"
    and found: "List.find (\<lambda>r. sc_scheduleId r = i) rs = Some r"
    and enabled: "sc_enabled r" and later: "sc_lastClaimedOccurrenceAt r < t"
    and plan: "edit_plan (se_zone env) i patch now s = (Inr r', s)"
  defines "first \<equiv> claimOccurrence env i t now s"
  defines "s' \<equiv> snd (replace_schedule (se_zone env) r' (snd first))"
  shows "(\<exists>c. fst first = Claim_Ok (runIdFor (se_number env) i t) c) \<and>
    (\<exists>c. fst (claimOccurrence env i t now s') = Claim_Ok (runIdFor (se_number env) i t) c)"
proof -
  let ?z = "se_zone env"
  let ?rs = "updated_list sc_scheduleId (claimed ?z t now r) rs"
  have r: "sound_schedule ?z r" "sc_scheduleId r = i" using find_ident [OF found] kept_parts(3) [OF kept] by auto
  have id: "sc_scheduleId (claimed ?z t now r) = i" using r by (simp add: claimed_def)
  note claim = claim_keeps [OF kept i, of t now, folded first_def]
  have change: "changed_in sc_scheduleId i (claim_change ?z t now) rs = Some (claimed ?z t now r)"
    using found enabled later by (simp add: changed_in_def claim_change_def)
  have kept1: "stores ?z (snd first) ?rs runs" using claim(2) by (simp add: change)
  have "edited ?z r patch now rs = Inr r'" using plan found by (simp add: edit_plan_keeps [OF kept])
  from edited_sound [OF this r(1)] have r': "sound_schedule ?z r'" "sc_scheduleId r' = i" "sc_enabled r'"
    "sc_lastClaimedOccurrenceAt r' = sc_lastClaimedOccurrenceAt r" using r(2) enabled by auto
  have known: "i \<in> sc_scheduleId ` set rs" using find_image [OF found] .
  have "List.find (\<lambda>r. sc_scheduleId r = i) ?rs = Some (claimed ?z t now r)" using known id by (simp add: find_updated)
  then have known1: "i \<in> sc_scheduleId ` set ?rs" by (rule find_image)
  then have kept2: "stores ?z s' (updated_list sc_scheduleId r' ?rs) runs"
    unfolding s'_def using r'(1,2) by (intro replace_schedule_keeps(2) [OF kept1]) simp_all
  have "List.find (\<lambda>r. sc_scheduleId r = i) (updated_list sc_scheduleId r' ?rs) = Some r'"
    using known1 r'(2) by (simp add: find_updated)
  then have "\<exists>c. fst (claimOccurrence env i t now s') = Claim_Ok (runIdFor (se_number env) i t) c"
    using claim_keeps(1) [OF kept2 i, of t now] r' later by simp
  moreover have "\<exists>c. fst first = Claim_Ok (runIdFor (se_number env) i t) c"
    using claim(1) found enabled later by simp
  ultimately show ?thesis by blast
qed

theorem edit_unclaims_witness:
  "let env = \<lparr>se_zone = fixed_zone 0, se_number = (\<lambda>_. ''32400000'')\<rparr>;
       patch = \<lparr>ep_displayName = Some ''m'', ep_target = None, ep_cadence = None\<rparr>;
       renamed = nightly\<lparr>sc_displayName := ''m'', sc_updatedAt := 32400001\<rparr>;
       first = claimOccurrence env ''s'' 32400000 32400001 nightly_store
   in edit_plan (fixed_zone 0) ''s'' patch 32400001 nightly_store = (Inr renamed, nightly_store) \<and>
      (\<exists>c. fst first = Claim_Ok ''srun_s_32400000'' c) \<and>
      (\<exists>c. fst (claimOccurrence env ''s'' 32400000 32400001
         (snd (replace_schedule (fixed_zone 0) renamed (snd first)))) = Claim_Ok ''srun_s_32400000'' c)"
proof -
  let ?env = "\<lparr>se_zone = fixed_zone 0, se_number = (\<lambda>_. ''32400000'')\<rparr>"
  let ?patch = "\<lparr>ep_displayName = Some ''m'', ep_target = None, ep_cadence = None\<rparr>"
  let ?renamed = "nightly\<lparr>sc_displayName := ''m'', sc_updatedAt := 32400001\<rparr>"
  have kept: "stores (se_zone ?env) nightly_store [nightly] []" by (simp add: nightly_kept)
  have find: "List.find (\<lambda>r. sc_scheduleId r = ''s'') [nightly] = Some nightly" by (simp add: nightly_def)
  have plan: "edit_plan (se_zone ?env) ''s'' ?patch 32400001 nightly_store = (Inr ?renamed, nightly_store)"
    unfolding edit_plan_keeps [OF kept] find by code_simp
  from edit_unclaims [OF kept _ find _ _ plan, of 32400000] plan
  show ?thesis by (simp add: Let_def nightly_def runIdFor_def)
qed

end
