(* ===== verification/ScheduleRunner.thy ===== *)
theory ScheduleRunner
  imports ScheduleClock ScheduleStore
begin

text \<open>
  \<open>src/background/schedule-runner.ts\<close>: waking up, recording missed occurrences, claiming and executing the
  one that is due, settling its outcome, cancelling and recovering runs.

  Executing a workflow or a skill, resolving a target, the health of the storage and the cancellation of a
  task are the callers' (arguments). What the rest of the worker did to the stored schedules, the refusals
  and the observed tasks while an execution was under way is part of its trace. The audit trail and the
  notifications are logs of what was sent; the runner ignores their failures. One tick runs at a time (the
  guard \<open>ticking\<close>), so a tick is a function. The clock is read as the code reads it across what it waits for:
  a tick takes the clock of each schedule's turn, and what happens during an execution says when it ended,
  which is the time its outcome is written with; the reads in between, with only the storage to wait for, are
  taken at one time.
\<close>

subsection \<open>State\<close>

datatype target_resolution =
    Target_Ok_Workflow string
  | Target_Ok_Skill string string
  | Target_Refused run_reason string

datatype execution_status = Exec_Completed | Exec_Failed | Exec_Cancelled | Exec_Refused

datatype execution_refusal = Refusal_Policy_Blocked | Refusal_Permission_Denied

datatype scheduled_execution =
    Execution_Ran string execution_status "execution_refusal option"
  | Execution_Not_Started run_reason string

datatype schedule_event_type =
  Schedule_Run_Started | Schedule_Run_Completed | Schedule_Run_Failed | Schedule_Run_Blocked
  | Schedule_Run_Cancelled | Schedule_Run_Missed

datatype event_outcome = Event_Allowed | Event_Denied | Event_Failed | Event_Info

datatype event_code = Code_Run_Now | Code_Scheduled | Code_Reason run_reason

record schedule_event =
  ev_type :: schedule_event_type
  ev_scheduleId :: string
  ev_runId :: string
  ev_taskId :: "string option"
  ev_outcome :: event_outcome
  ev_code :: "event_code option"

datatype schedule_notification =
    Note_Started string | Note_Completed string | Note_Failed string | Note_Blocked string run_reason

text \<open>A call of \<open>runWorkflow\<close> or \<open>runSkill\<close>, and what became of it; \<open>None\<close> is a call that threw.\<close>

datatype execution_call = Call_Workflow string string | Call_Skill string string string

record execution_trace =
  xt_result :: "scheduled_execution option"
  xt_operations :: "schedule_op list"
  xt_refused :: bool
  xt_task :: "string option"
  xt_endedAt :: rat

record runner_state =
  rn_store :: schedule_store
  rn_refused :: "string set"
  rn_tasks :: "string \<rightharpoonup> string"
  rn_events :: "schedule_event list"
  rn_notes :: "schedule_notification list"
  rn_calls :: "execution_call list"
  rn_cancelled :: "string list"
  rn_wake :: "rat option"
  rn_fired :: "(string \<times> rat) list"

datatype health_answer = No_Health | Health_Snapshot bool string | Health_Threw

record runner_env =
  re_schedules :: schedule_env
  re_health :: health_answer
  re_resolve :: "schedule_target \<Rightarrow> target_resolution"
  re_execute :: "execution_call \<Rightarrow> execution_trace"
  re_cancelTask :: "string \<Rightarrow> bool"

abbreviation re_zone :: "runner_env \<Rightarrow> time_zone" where
  "re_zone env \<equiv> se_zone (re_schedules env)"

definition emit_event :: "schedule_event \<Rightarrow> runner_state \<Rightarrow> runner_state" where
  "emit_event e s = s\<lparr>rn_events := rn_events s @ [e]\<rparr>"

definition notify_event :: "schedule_notification \<Rightarrow> runner_state \<Rightarrow> runner_state" where
  "notify_event n s = s\<lparr>rn_notes := rn_notes s @ [n]\<rparr>"

definition noteConfirmationRefusal :: "string \<Rightarrow> runner_state \<Rightarrow> runner_state" where
  "noteConfirmationRefusal sessionId s = s\<lparr>rn_refused := insert sessionId (rn_refused s)\<rparr>"

definition observeTask :: "string \<Rightarrow> string \<Rightarrow> runner_state \<Rightarrow> runner_state" where
  "observeTask taskId sessionId s =
     (if isUnattendedSessionId sessionId then s\<lparr>rn_tasks := (rn_tasks s)(sessionId \<mapsto> taskId)\<rparr> else s)"

definition rearm :: "time_zone \<Rightarrow> runner_state \<Rightarrow> runner_state" where
  "rearm z s =
     (let (schedules, st) = list_schedules z (rn_store s)
      in s\<lparr>rn_store := st, rn_wake := nextWakeUp schedules\<rparr>)"

subsection \<open>Settling\<close>

definition classify_outcome :: "execution_status \<Rightarrow> bool \<Rightarrow> execution_refusal option \<Rightarrow> run_status \<times> run_reason option" where
  "classify_outcome status hitBoundary declined =
     (if status = Exec_Completed then (Run_Completed, None)
      else if status = Exec_Cancelled then (Run_Cancelled, Some Reason_Cancelled)
      else if declined = Some Refusal_Permission_Denied then (Run_Blocked, Some Reason_Confirmation_Required)
      else if declined = Some Refusal_Policy_Blocked then (Run_Blocked, Some Reason_Policy_Denied)
      else if hitBoundary then (Run_Blocked, Some Reason_Confirmation_Required)
      else if status = Exec_Refused then (Run_Blocked, Some Reason_Policy_Denied)
      else (Run_Failed, Some Reason_Run_Failed))"

record planned_run =
  pr_runId :: string
  pr_occurrenceAt :: rat
  pr_sessionId :: string
  pr_attended :: bool

definition settled_event :: "run_status \<Rightarrow> schedule_event_type" where
  "settled_event status =
     (if status = Run_Completed then Schedule_Run_Completed
      else if status = Run_Blocked then Schedule_Run_Blocked
      else if status = Run_Cancelled then Schedule_Run_Cancelled else Schedule_Run_Failed)"

definition settled_outcome :: "run_status \<Rightarrow> event_outcome" where
  "settled_outcome status =
     (if status = Run_Completed then Event_Allowed else if status = Run_Blocked then Event_Denied else Event_Failed)"

definition settled_note :: "string \<Rightarrow> run_status \<Rightarrow> run_reason option \<Rightarrow> runner_state \<Rightarrow> runner_state" where
  "settled_note name status reason s =
     (if status = Run_Completed then notify_event (Note_Completed name) s
      else if status = Run_Blocked then
        notify_event (Note_Blocked name (case reason of Some r \<Rightarrow> r | None \<Rightarrow> Reason_Policy_Denied)) s
      else if status = Run_Failed then notify_event (Note_Failed name) s else s)"

text \<open>Opening or closing the run record; \<open>False\<close> is a storage that threw.\<close>

definition close_run ::
  "string \<Rightarrow> planned_run \<Rightarrow> run_status \<Rightarrow> run_reason option \<Rightarrow> string option \<Rightarrow> rat \<Rightarrow> schedule_store \<Rightarrow>
    bool \<times> schedule_store" where
  "close_run scheduleId run status reason taskId now st =
     (case get_run (pr_runId run) st of
        (None, st) \<Rightarrow>
          (case startRun (pr_runId run) scheduleId (pr_occurrenceAt run) status reason taskId now st of
             (None, st) \<Rightarrow> (False, st)
           | (Some record, st) \<Rightarrow> (True, st))
      | (Some existing, st) \<Rightarrow> (True, snd (finishRun (pr_runId run) status reason taskId now st)))"

definition settle ::
  "time_zone \<Rightarrow> schedule_record \<Rightarrow> planned_run \<Rightarrow> run_status \<Rightarrow> run_reason option \<Rightarrow> string option \<Rightarrow> rat \<Rightarrow>
    runner_state \<Rightarrow> schedule_run option option \<times> runner_state" where
  "settle z schedule run status reason taskId now s =
     (case close_run (sc_scheduleId schedule) run status reason taskId now (rn_store s) of
        (False, st) \<Rightarrow> (None, s\<lparr>rn_store := st\<rparr>)
      | (True, st) \<Rightarrow>
          (let st = snd (recordOutcome z (sc_scheduleId schedule) now status reason now st);
               event = \<lparr>ev_type = settled_event status, ev_scheduleId = sc_scheduleId schedule, ev_runId = pr_runId run,
                 ev_taskId = taskId, ev_outcome = settled_outcome status, ev_code = map_option Code_Reason reason\<rparr>;
               s = settled_note (sc_displayName schedule) status reason (emit_event event (s\<lparr>rn_store := st\<rparr>));
               (found, st) = get_run (pr_runId run) (rn_store s)
           in (Some found, s\<lparr>rn_store := st\<rparr>)))"

subsection \<open>Executing\<close>

definition persistenceBlocked :: "health_answer \<Rightarrow> string option" where
  "persistenceBlocked health =
     (case health of
        No_Health \<Rightarrow> None
      | Health_Snapshot b d \<Rightarrow> if b then Some d else None
      | Health_Threw \<Rightarrow> Some ''Stored state could not be checked, so this run did not start.'')"

definition call_of :: "target_resolution \<Rightarrow> string \<Rightarrow> run_reason + execution_call" where
  "call_of target sessionId =
     (case target of
        Target_Ok_Workflow w \<Rightarrow> Inr (Call_Workflow w sessionId)
      | Target_Ok_Skill k v \<Rightarrow> Inr (Call_Skill k v sessionId)
      | Target_Refused reason detail \<Rightarrow> Inl reason)"

text \<open>What happens while the execution is awaited.\<close>

definition during_execution :: "runner_env \<Rightarrow> string \<Rightarrow> execution_trace \<Rightarrow> runner_state \<Rightarrow> runner_state" where
  "during_execution env sessionId trace s =
     (let (claims, st) = run_ops (re_schedules env) (xt_operations trace) (rn_store s);
          s = s\<lparr>rn_store := st\<rparr>;
          s = (case xt_task trace of None \<Rightarrow> s | Some taskId \<Rightarrow> observeTask taskId sessionId s)
      in if xt_refused trace then noteConfirmationRefusal sessionId s else s)"

definition execution_of :: "execution_trace \<Rightarrow> scheduled_execution" where
  "execution_of trace =
     (case xt_result trace of
        Some execution \<Rightarrow> execution
      | None \<Rightarrow> Execution_Not_Started Reason_Internal_Error ''The run stopped because of an internal error.'')"

text \<open>\<open>execute\<close> in two parts: from the started record on, and the guards before it.\<close>

definition carry_out ::
  "runner_env \<Rightarrow> schedule_record \<Rightarrow> planned_run \<Rightarrow> execution_call \<Rightarrow> runner_state \<Rightarrow>
    schedule_run option option \<times> runner_state" where
  "carry_out env schedule run call s =
     (let z = re_zone env;
          s = emit_event \<lparr>ev_type = Schedule_Run_Started, ev_scheduleId = sc_scheduleId schedule,
            ev_runId = pr_runId run, ev_taskId = None, ev_outcome = Event_Info,
            ev_code = Some (if pr_attended run then Code_Run_Now else Code_Scheduled)\<rparr> s;
          s = notify_event (Note_Started (sc_displayName schedule)) s;
          trace = re_execute env call;
          s = during_execution env (pr_sessionId run) trace (s\<lparr>rn_calls := rn_calls s @ [call]\<rparr>);
          hitBoundary = pr_sessionId run \<in> rn_refused s;
          s = s\<lparr>rn_tasks := (rn_tasks s)(pr_sessionId run := None), rn_refused := rn_refused s - {pr_sessionId run}\<rparr>
      in case execution_of trace of
           Execution_Not_Started reason detail \<Rightarrow>
             settle z schedule run Run_Blocked (Some reason) None (xt_endedAt trace) s
         | Execution_Ran taskId status declined \<Rightarrow>
             (case classify_outcome status hitBoundary declined of
                (outcome, reason) \<Rightarrow> settle z schedule run outcome reason (Some taskId) (xt_endedAt trace) s))"

definition execute_run ::
  "runner_env \<Rightarrow> schedule_record \<Rightarrow> planned_run \<Rightarrow> rat \<Rightarrow> runner_state \<Rightarrow> schedule_run option option \<times> runner_state" where
  "execute_run env schedule run now s =
     (case persistenceBlocked (re_health env) of
        Some why \<Rightarrow> settle (re_zone env) schedule run Run_Blocked (Some Reason_Persistence_Blocked) None now s
      | None \<Rightarrow>
          (case call_of (re_resolve env (sc_target schedule)) (pr_sessionId run) of
             Inl reason \<Rightarrow> settle (re_zone env) schedule run Run_Blocked (Some reason) None now s
           | Inr call \<Rightarrow>
               (case startRun (pr_runId run) (sc_scheduleId schedule) (pr_occurrenceAt run) Run_Running None None now (rn_store s) of
                  (None, st) \<Rightarrow> (None, s\<lparr>rn_store := st\<rparr>)
                | (Some started, st) \<Rightarrow> carry_out env schedule run call (s\<lparr>rn_store := st\<rparr>))))"

definition fire :: "runner_env \<Rightarrow> schedule_record \<Rightarrow> rat \<Rightarrow> rat \<Rightarrow> runner_state \<Rightarrow> unit option \<times> runner_state" where
  "fire env schedule occurrenceAt now s =
     (case claimOccurrence (re_schedules env) (sc_scheduleId schedule) occurrenceAt now (rn_store s) of
        (Claim_Refused reason, st) \<Rightarrow> (Some (), s\<lparr>rn_store := st\<rparr>)
      | (Claim_Ok runId current, st) \<Rightarrow>
          (let s = s\<lparr>rn_store := st, rn_fired := rn_fired s @ [(sc_scheduleId schedule, occurrenceAt)]\<rparr>;
               (result, s) = execute_run env current
                 \<lparr>pr_runId = runId, pr_occurrenceAt = occurrenceAt, pr_sessionId = unattendedSessionIdFor runId,
                  pr_attended = False\<rparr> now s
           in (map_option (\<lambda>_. ()) result, s)))"

definition runNow ::
  "runner_env \<Rightarrow> string \<Rightarrow> string \<Rightarrow> rat \<Rightarrow> runner_state \<Rightarrow> schedule_run option option \<times> runner_state" where
  "runNow env scheduleId sessionId now s =
     (case get_schedule (re_zone env) scheduleId (rn_store s) of
        (None, st) \<Rightarrow> (None, s\<lparr>rn_store := st\<rparr>)
      | (Some schedule, st) \<Rightarrow>
          execute_run env schedule
            \<lparr>pr_runId = runIdFor (se_number (re_schedules env)) scheduleId now, pr_occurrenceAt = now,
             pr_sessionId = sessionId, pr_attended = True\<rparr> now (s\<lparr>rn_store := st\<rparr>))"

definition recordMissed :: "runner_env \<Rightarrow> schedule_record \<Rightarrow> rat \<Rightarrow> rat \<Rightarrow> runner_state \<Rightarrow> unit option \<times> runner_state" where
  "recordMissed env schedule occurrenceAt now s =
     (let z = re_zone env; scheduleId = sc_scheduleId schedule;
          runId = runIdFor (se_number (re_schedules env)) scheduleId occurrenceAt in
      case skipOccurrence z scheduleId occurrenceAt now (rn_store s) of
        (None, st) \<Rightarrow> (Some (), s\<lparr>rn_store := st\<rparr>)
      | (Some skipped, st) \<Rightarrow>
          (case startRun runId scheduleId occurrenceAt Run_Missed (Some Reason_Missed_While_Asleep) None now st of
             (None, st) \<Rightarrow> (None, s\<lparr>rn_store := st\<rparr>)
           | (Some record, st) \<Rightarrow>
               (let st = snd (recordOutcome z scheduleId occurrenceAt Run_Missed (Some Reason_Missed_While_Asleep) now st)
                in (Some (), emit_event \<lparr>ev_type = Schedule_Run_Missed, ev_scheduleId = scheduleId, ev_runId = runId,
                      ev_taskId = None, ev_outcome = Event_Info,
                      ev_code = Some (Code_Reason Reason_Missed_While_Asleep)\<rparr> (s\<lparr>rn_store := st\<rparr>)))))"

fun record_all_missed ::
  "runner_env \<Rightarrow> schedule_record \<Rightarrow> rat list \<Rightarrow> rat \<Rightarrow> runner_state \<Rightarrow> unit option \<times> runner_state" where
  "record_all_missed env schedule [] now s = (Some (), s)"
| "record_all_missed env schedule (t # ts) now s =
     (case recordMissed env schedule t now s of
        (None, s) \<Rightarrow> (None, s)
      | (Some u, s) \<Rightarrow> record_all_missed env schedule ts now s)"

definition advance :: "runner_env \<Rightarrow> rat \<Rightarrow> schedule_record \<Rightarrow> runner_state \<Rightarrow> unit option \<times> runner_state" where
  "advance env now schedule s =
     (let verdict = occurrencesDue (re_zone env) schedule now in
      case record_all_missed env schedule (dv_missed verdict) now s of
        (None, s) \<Rightarrow> (None, s)
      | (Some u, s) \<Rightarrow>
          (case dv_due verdict of
             None \<Rightarrow> (Some (), s)
           | Some occurrenceAt \<Rightarrow> fire env schedule occurrenceAt now s))"

text \<open>
  \<open>runTick\<close>: a schedule that throws does not stop the others. Each turn reads the clock anew: an execution
  of an earlier schedule may have taken its time.
\<close>

fun advance_all :: "runner_env \<Rightarrow> (nat \<Rightarrow> rat) \<Rightarrow> nat \<Rightarrow> schedule_record list \<Rightarrow> runner_state \<Rightarrow> runner_state" where
  "advance_all env clock k [] s = s"
| "advance_all env clock k (schedule # schedules) s =
     advance_all env clock (Suc k) schedules (snd (advance env (clock k) schedule s))"

definition runTick :: "runner_env \<Rightarrow> (nat \<Rightarrow> rat) \<Rightarrow> runner_state \<Rightarrow> runner_state" where
  "runTick env clock s =
     (let (schedules, st) = list_schedules (re_zone env) (rn_store s)
      in rearm (re_zone env) (advance_all env clock 0 schedules (s\<lparr>rn_store := st\<rparr>)))"

subsection \<open>Cancelling and recovering\<close>

definition cancelRun :: "runner_env \<Rightarrow> string \<Rightarrow> rat \<Rightarrow> runner_state \<Rightarrow> bool \<times> runner_state" where
  "cancelRun env runId now s =
     (case get_run runId (rn_store s) of
        (None, st) \<Rightarrow> (False, s\<lparr>rn_store := st\<rparr>)
      | (Some run, st) \<Rightarrow>
          if sr_status run \<noteq> Run_Running then (False, s\<lparr>rn_store := st\<rparr>)
          else
            (let taskId = (case sr_taskId run of
                   Some i \<Rightarrow> Some i | None \<Rightarrow> rn_tasks s (unattendedSessionIdFor runId));
                 stopped = (case taskId of None \<Rightarrow> False | Some i \<Rightarrow> re_cancelTask env i);
                 s = (case taskId of None \<Rightarrow> s | Some i \<Rightarrow> s\<lparr>rn_cancelled := rn_cancelled s @ [i]\<rparr>);
                 st = snd (finishRun runId Run_Cancelled (Some Reason_Cancelled) None now st);
                 st = snd (recordOutcome (re_zone env) (sr_scheduleId run) now Run_Cancelled (Some Reason_Cancelled) now st);
                 s = emit_event \<lparr>ev_type = Schedule_Run_Cancelled, ev_scheduleId = sr_scheduleId run, ev_runId = runId,
                       ev_taskId = taskId, ev_outcome = Event_Info, ev_code = Some (Code_Reason Reason_Cancelled)\<rparr>
                       (s\<lparr>rn_store := st\<rparr>)
             in (stopped \<or> True, s)))"

definition interrupt_run :: "runner_env \<Rightarrow> rat \<Rightarrow> schedule_run \<Rightarrow> runner_state \<Rightarrow> runner_state" where
  "interrupt_run env now run s =
     (let st = snd (finishRun (sr_runId run) Run_Failed (Some Reason_Interrupted) None now (rn_store s));
          st = snd (recordOutcome (re_zone env) (sr_scheduleId run) now Run_Failed (Some Reason_Interrupted) now st)
      in emit_event \<lparr>ev_type = Schedule_Run_Failed, ev_scheduleId = sr_scheduleId run, ev_runId = sr_runId run,
           ev_taskId = None, ev_outcome = Event_Failed, ev_code = Some (Code_Reason Reason_Interrupted)\<rparr> (s\<lparr>rn_store := st\<rparr>))"

definition recover_runs :: "runner_env \<Rightarrow> rat \<Rightarrow> runner_state \<Rightarrow> nat \<times> runner_state" where
  "recover_runs env now s =
     (let (stale, st) = listRunningRuns (rn_store s)
      in (length stale, fold (interrupt_run env now) stale (s\<lparr>rn_store := st\<rparr>)))"

subsection \<open>Progress of a schedule\<close>

text \<open>
  \<open>progress e i v v'\<close>, of a store with the occurrences fired and the executions called: the store stays well
  formed, schedule \<open>i\<close> only moves forward, its newly fired occurrences come later and later and are all
  covered by what it has claimed then, and the new unattended executions belong to newly fired occurrences,
  one to each and in their order.
\<close>

fun call_session :: "execution_call \<Rightarrow> string" where
  "call_session (Call_Workflow w session) = session"
| "call_session (Call_Skill k v session) = session"

definition unattended_sessions :: "execution_call list \<Rightarrow> string list" where
  "unattended_sessions calls = filter isUnattendedSessionId (map call_session calls)"

definition fired_session :: "schedule_env \<Rightarrow> string \<times> rat \<Rightarrow> string" where
  "fired_session e c = unattendedSessionIdFor (runIdFor (se_number e) (fst c) (snd c))"

type_synonym runner_view = "schedule_store \<times> (string \<times> rat) list \<times> execution_call list"

definition view_of :: "runner_state \<Rightarrow> runner_view" where
  "view_of s = (rn_store s, rn_fired s, rn_calls s)"

definition well_kept :: "schedule_env \<Rightarrow> schedule_store \<Rightarrow> bool" where
  "well_kept e st = (\<exists>rs runs. stores (se_zone e) st rs runs)"

definition fires_forward ::
  "schedule_env \<Rightarrow> string \<Rightarrow> schedule_record list \<Rightarrow> schedule_record list \<Rightarrow> (string \<times> rat) list \<Rightarrow>
    execution_call list \<Rightarrow> bool" where
  "fires_forward e i rs rs' fired calls =
     (forward i rs rs' \<and> sorted_wrt (<) (claims_of i fired) \<and>
      (\<forall>t \<in> set (claims_of i fired).
         (\<exists>r. List.find (\<lambda>r. sc_scheduleId r = i) rs = Some r \<and> sc_lastClaimedOccurrenceAt r < t) \<and>
         (\<forall>r. List.find (\<lambda>r. sc_scheduleId r = i) rs' = Some r \<longrightarrow> t \<le> sc_lastClaimedOccurrenceAt r)) \<and>
      subseq (unattended_sessions calls) (map (fired_session e) fired))"

definition progress :: "schedule_env \<Rightarrow> string \<Rightarrow> runner_view \<Rightarrow> runner_view \<Rightarrow> bool" where
  "progress e i v v' =
     (\<forall>rs runs. stores (se_zone e) (fst v) rs runs \<longrightarrow>
       (\<exists>rs' runs' fired calls. stores (se_zone e) (fst v') rs' runs' \<and>
          fst (snd v') = fst (snd v) @ fired \<and> snd (snd v') = snd (snd v) @ calls \<and>
          fires_forward e i rs rs' fired calls))"

lemma claims_of_append [simp]: "claims_of i (xs @ ys) = claims_of i xs @ claims_of i ys"
  by (simp add: claims_of_def)

lemma claims_of_Nil [simp]: "claims_of i [] = []"
  by (simp add: claims_of_def)

lemma unattended_append [simp]: "unattended_sessions (xs @ ys) = unattended_sessions xs @ unattended_sessions ys"
  by (simp add: unattended_sessions_def)

lemma unattended_Nil [simp]: "unattended_sessions [] = []"
  by (simp add: unattended_sessions_def)

lemma forward_trans: "forward i a b \<Longrightarrow> forward i b c \<Longrightarrow> forward i a c"
  unfolding forward_def by (meson order.trans)

lemma fires_quiet: "forward i rs rs' \<Longrightarrow> fires_forward e i rs rs' [] []"
  by (simp add: fires_forward_def)

lemma fires_forward_trans:
  assumes one: "fires_forward e i rs rs1 f1 c1" and two: "fires_forward e i rs1 rs2 f2 c2"
  shows "fires_forward e i rs rs2 (f1 @ f2) (c1 @ c2)"
proof -
  let ?at = "\<lambda>rs. List.find (\<lambda>r. sc_scheduleId r = i) rs"
  have fwd: "forward i rs rs1" "forward i rs1 rs2" using one two by (simp_all add: fires_forward_def)
  have covered: "t \<le> sc_lastClaimedOccurrenceAt r" if "t \<in> set (claims_of i f1)" "?at rs1 = Some r" for t r
    using one that unfolding fires_forward_def by blast
  have beyond: "\<exists>r. ?at rs1 = Some r \<and> sc_lastClaimedOccurrenceAt r < u" if "u \<in> set (claims_of i f2)" for u
    using two that unfolding fires_forward_def by blast
  have later: "t < u" if "t \<in> set (claims_of i f1)" "u \<in> set (claims_of i f2)" for t u
    using beyond [OF that(2)] covered [OF that(1)] by fastforce
  have before: "\<exists>r. ?at rs = Some r \<and> sc_lastClaimedOccurrenceAt r < u" if "u \<in> set (claims_of i f2)" for u
    using beyond [OF that] fwd(1) unfolding forward_def by (meson le_less_trans)
  have after: "t \<le> sc_lastClaimedOccurrenceAt r" if t: "t \<in> set (claims_of i f1)" and r: "?at rs2 = Some r" for t r
  proof -
    from fwd(2) r obtain r1 where "?at rs1 = Some r1" and le: "sc_lastClaimedOccurrenceAt r1 \<le> sc_lastClaimedOccurrenceAt r"
      unfolding forward_def by blast
    from covered [OF t this(1)] le show ?thesis by (rule order.trans)
  qed
  have sorted: "sorted_wrt (<) (claims_of i (f1 @ f2))"
    using one two later by (simp add: fires_forward_def sorted_wrt_append)
  moreover have "\<forall>t \<in> set (claims_of i (f1 @ f2)). (\<exists>r. ?at rs = Some r \<and> sc_lastClaimedOccurrenceAt r < t) \<and>
      (\<forall>r. ?at rs2 = Some r \<longrightarrow> t \<le> sc_lastClaimedOccurrenceAt r)"
    using one two before after unfolding fires_forward_def claims_of_append set_append by blast
  moreover have "subseq (unattended_sessions (c1 @ c2)) (map (fired_session e) (f1 @ f2))"
    using one two by (simp add: fires_forward_def list_emb_append_mono)
  ultimately show ?thesis using forward_trans [OF fwd] unfolding fires_forward_def by blast
qed

lemma progress_step:
  assumes "\<And>rs runs. stores (se_zone e) st rs runs \<Longrightarrow>
    \<exists>rs' runs'. stores (se_zone e) st' rs' runs' \<and> fires_forward e i rs rs' f c"
  shows "progress e i (st, fired, calls) (st', fired @ f, calls @ c)"
  unfolding progress_def using assms by (metis fst_conv snd_conv)

text \<open>A step that fires nothing and executes nothing.\<close>

lemma progress_quiet:
  assumes "\<And>rs runs. stores (se_zone e) st rs runs \<Longrightarrow> \<exists>rs' runs'. stores (se_zone e) st' rs' runs' \<and> forward i rs rs'"
  shows "progress e i (st, fired, calls) (st', fired, calls)"
  using progress_step [of e st st' i "[]" "[]" fired calls] assms fires_quiet by auto blast

lemma progress_refl [simp, intro]: "progress e i v v"
  using progress_quiet [of e "fst v" "fst v" i "fst (snd v)" "snd (snd v)"] forward_refl by fastforce

lemma progress_trans [trans]:
  assumes one: "progress e i v w" and two: "progress e i w x"
  shows "progress e i v x"
  unfolding progress_def
proof (intro allI impI)
  fix rs runs
  assume "stores (se_zone e) (fst v) rs runs"
  with one obtain rs1 runs1 f1 c1 where a: "stores (se_zone e) (fst w) rs1 runs1"
      "fst (snd w) = fst (snd v) @ f1" "snd (snd w) = snd (snd v) @ c1" "fires_forward e i rs rs1 f1 c1"
    unfolding progress_def by blast
  with two obtain rs2 runs2 f2 c2 where b: "stores (se_zone e) (fst x) rs2 runs2"
      "fst (snd x) = fst (snd w) @ f2" "snd (snd x) = snd (snd w) @ c2" "fires_forward e i rs1 rs2 f2 c2"
    unfolding progress_def by blast
  then show "\<exists>rs' runs' fired calls. stores (se_zone e) (fst x) rs' runs' \<and>
      fst (snd x) = fst (snd v) @ fired \<and> snd (snd x) = snd (snd v) @ calls \<and> fires_forward e i rs rs' fired calls"
    using a fires_forward_trans [OF a(4) b(4)]
    by (intro exI [of _ rs2] exI [of _ runs2] exI [of _ "f1 @ f2"] exI [of _ "c1 @ c2"]) simp
qed

lemma progress_kept: "progress e i v v' \<Longrightarrow> well_kept e (fst v) \<Longrightarrow> well_kept e (fst v')"
  unfolding progress_def well_kept_def by blast

text \<open>The steps of the runner, over a store that is well kept and identifiers that are proper.\<close>

definition proper_id :: "string \<Rightarrow> bool" where
  "proper_id i = (i \<noteq> [] \<and> i \<noteq> ''index'')"

lemma runId_proper [simp]: "runIdFor number i t \<noteq> []" "runIdFor number i t \<noteq> ''index''"
  by (simp_all add: runIdFor_def)

lemma kept_ids: "stores z st rs runs \<Longrightarrow> r \<in> set rs \<Longrightarrow> proper_id (sc_scheduleId r)"
  using kept_parts(3) by (fastforce simp: proper_id_def sound_schedule_def usable_record_def)

lemma kept_run_ids: "stores z st rs runs \<Longrightarrow> r \<in> set runs \<Longrightarrow> proper_id (sr_runId r) \<and> proper_id (sr_scheduleId r)"
  using kept_parts(4) by (fastforce simp: proper_id_def sound_run_def usable_run_def)

lemma get_run_same: "well_kept e st \<Longrightarrow> snd (get_run i st) = st"
  by (auto simp: well_kept_def get_run_keeps)

lemma list_same: "well_kept e st \<Longrightarrow> snd (list_schedules (se_zone e) st) = st"
  by (auto simp: well_kept_def list_schedules_keeps)

lemma progress_same: "well_kept e st \<Longrightarrow> progress e i (st, f, c) (st, f, c)"
  by simp

lemma progress_op:
  assumes "proper_op p" and "i \<notin> op_creates p"
  shows "progress e i (st, f, c) (snd (run_op e p st), f, c)"
proof (rule progress_quiet)
  fix rs runs
  assume "stores (se_zone e) st rs runs"
  from op_forward [OF this assms] show "\<exists>rs' runs'. stores (se_zone e) (snd (run_op e p st)) rs' runs' \<and> forward i rs rs'"
    by blast
qed

lemma progress_ops:
  "\<forall>p \<in> set ps. proper_op p \<and> i \<notin> op_creates p \<Longrightarrow> progress e i (st, f, c) (snd (run_ops e ps st), f, c)"
proof (induction ps arbitrary: st)
  case (Cons p ps)
  have "progress e i (st, f, c) (snd (run_op e p st), f, c)" using Cons.prems by (intro progress_op) auto
  also have "progress e i (snd (run_op e p st), f, c) (snd (run_ops e (p # ps) st), f, c)"
    using Cons.IH [of "snd (run_op e p st)"] Cons.prems by (simp add: Let_def case_prod_beta)
  finally show ?case .
qed simp

text \<open>The operations the runner itself makes, as operations of the store.\<close>

lemma progress_outcome:
  "proper_id j \<Longrightarrow> progress e i (st, f, c) (snd (recordOutcome (se_zone e) j t status reason now st), f, c)"
  using progress_op [of "Op_Outcome j t status reason now" i e st f c] by (auto simp: proper_id_def proper_op_def)

lemma progress_skip: "proper_id j \<Longrightarrow> progress e i (st, f, c) (snd (skipOccurrence (se_zone e) j t now st), f, c)"
  using progress_op [of "Op_Skip j t now" i e st f c] by (auto simp: proper_id_def proper_op_def)

lemma progress_start:
  "proper_id runId \<Longrightarrow> proper_id j \<Longrightarrow>
    progress e i (st, f, c) (snd (startRun runId j t status reason taskId now st), f, c)"
  using progress_op [of "Op_Start runId j t status reason taskId now" i e st f c]
  by (auto simp: proper_id_def proper_op_def)

lemma progress_finish:
  "proper_id runId \<Longrightarrow> progress e i (st, f, c) (snd (finishRun runId status reason taskId now st), f, c)"
  using progress_op [of "Op_Finish runId status reason taskId now" i e st f c] by (auto simp: proper_id_def proper_op_def)

lemma progress_close:
  assumes "well_kept e st" and "proper_id (pr_runId run)" and "proper_id j"
  shows "progress e i (st, f, c) (snd (close_run j run status reason taskId now st), f, c)"
proof (cases "get_run (pr_runId run) st")
  case (Pair found st')
  then have "st' = st" using get_run_same [OF assms(1), of "pr_runId run"] by simp
  then show ?thesis
    using progress_start [OF assms(2,3), of e i st f c "pr_occurrenceAt run" status reason taskId now]
      progress_finish [OF assms(2), of e i st f c status reason taskId now]
    by (auto simp: close_run_def Pair split: option.splits prod.splits)
qed

lemma settled_note_view [simp]:
  "view_of (settled_note name status reason s) = view_of s" "view_of (emit_event ev s) = view_of s"
  "view_of (notify_event n s) = view_of s" "rn_store (settled_note name status reason s) = rn_store s"
  "rn_store (emit_event ev s) = rn_store s" "rn_store (notify_event n s) = rn_store s"
  "rn_fired (settled_note name status reason s) = rn_fired s" "rn_calls (settled_note name status reason s) = rn_calls s"
  "rn_fired (emit_event ev s) = rn_fired s" "rn_calls (emit_event ev s) = rn_calls s"
  "rn_fired (notify_event n s) = rn_fired s" "rn_calls (notify_event n s) = rn_calls s"
  "view_of (s\<lparr>rn_store := st\<rparr>) = (st, rn_fired s, rn_calls s)"
  by (simp_all add: settled_note_def emit_event_def notify_event_def view_of_def)

lemma progress_settle:
  assumes "well_kept e (rn_store s)" and "proper_id (pr_runId run)" and "proper_id (sc_scheduleId schedule)"
  shows "progress e i (view_of s) (view_of (snd (settle (se_zone e) schedule run status reason taskId now s)))"
proof -
  obtain ok st where closed: "close_run (sc_scheduleId schedule) run status reason taskId now (rn_store s) = (ok, st)"
    by fastforce
  let ?st = "snd (recordOutcome (se_zone e) (sc_scheduleId schedule) now status reason now st)"
  have one: "progress e i (view_of s) (st, rn_fired s, rn_calls s)"
    using progress_close [OF assms, of i "rn_fired s" "rn_calls s" status reason taskId now] by (simp add: view_of_def closed)
  also have two: "progress e i (st, rn_fired s, rn_calls s) (?st, rn_fired s, rn_calls s)"
    by (rule progress_outcome [OF assms(3)])
  finally have both: "progress e i (view_of s) (?st, rn_fired s, rn_calls s)" .
  have "well_kept e ?st" using progress_kept [OF both] assms(1) by (simp add: view_of_def)
  then have "snd (get_run (pr_runId run) ?st) = ?st" by (rule get_run_same)
  then show ?thesis
    using one both
    by (cases ok) (simp_all add: settle_def closed Let_def case_prod_beta)
qed

lemma during_view:
  "view_of (during_execution env sessionId trace s) =
    (snd (run_ops (re_schedules env) (xt_operations trace) (rn_store s)), rn_fired s, rn_calls s)"
  by (simp add: during_execution_def view_of_def observeTask_def noteConfirmationRefusal_def case_prod_beta Let_def
      split: option.splits)

text \<open>An execution's trace is admissible where its operations are proper and create no schedule \<open>i\<close>.\<close>

definition admissible :: "string \<Rightarrow> runner_env \<Rightarrow> bool" where
  "admissible i env = (\<forall>call. \<forall>p \<in> set (xt_operations (re_execute env call)). proper_op p \<and> i \<notin> op_creates p)"

lemma progress_carry:
  assumes kept: "well_kept (re_schedules env) (rn_store s)" and ok: "admissible i env"
    and ids: "proper_id (pr_runId run)" "proper_id (sc_scheduleId schedule)"
  shows "progress (re_schedules env) i (rn_store s, rn_fired s, rn_calls s @ [call])
    (view_of (snd (carry_out env schedule run call s)))"
proof -
  let ?e = "re_schedules env"
  let ?ops = "run_ops ?e (xt_operations (re_execute env call)) (rn_store s)"
  let ?c = "rn_calls s @ [call]"
  have ran: "progress ?e i (rn_store s, rn_fired s, ?c) (snd ?ops, rn_fired s, ?c)"
    using ok by (intro progress_ops) (simp add: admissible_def)
  have kept': "well_kept ?e (snd ?ops)" using progress_kept [OF ran] kept by simp
  have settled: "progress ?e i (snd ?ops, rn_fired s, ?c) (view_of (snd (settle (re_zone env) schedule run status reason taskId now s')))"
    if "view_of s' = (snd ?ops, rn_fired s, ?c)" for s' status reason taskId now
    using progress_settle [of ?e s' run schedule i status reason taskId now] kept' ids that by (simp add: view_of_def)
  have view: "view_of (u\<lparr>rn_tasks := t, rn_refused := r\<rparr>) = view_of u" for u t r by (simp add: view_of_def)
  show ?thesis
    by (rule progress_trans [OF ran])
      (auto simp: carry_out_def Let_def view during_view split: scheduled_execution.split prod.split intro!: settled)
qed

definition executed_calls :: "runner_env \<Rightarrow> schedule_record \<Rightarrow> planned_run \<Rightarrow> rat \<Rightarrow> schedule_store \<Rightarrow> execution_call list" where
  "executed_calls env schedule run now st =
     (if persistenceBlocked (re_health env) \<noteq> None \<or>
         fst (startRun (pr_runId run) (sc_scheduleId schedule) (pr_occurrenceAt run) Run_Running None None now st) = None
      then []
      else case call_of (re_resolve env (sc_target schedule)) (pr_sessionId run) of Inl r \<Rightarrow> [] | Inr c \<Rightarrow> [c])"

lemma progress_execute:
  assumes kept: "well_kept (re_schedules env) (rn_store s)" and ok: "admissible i env"
    and ids: "proper_id (pr_runId run)" "proper_id (sc_scheduleId schedule)"
  shows "progress (re_schedules env) i (rn_store s, rn_fired s, rn_calls s @ executed_calls env schedule run now (rn_store s))
      (view_of (snd (execute_run env schedule run now s)))"
proof (cases "persistenceBlocked (re_health env)")
  case (Some why)
  then show ?thesis
    using progress_settle [OF kept ids, of i Run_Blocked "Some Reason_Persistence_Blocked" None now]
    by (simp add: execute_run_def executed_calls_def view_of_def)
next
  case healthy: None
  show ?thesis
  proof (cases "call_of (re_resolve env (sc_target schedule)) (pr_sessionId run)")
    case (Inl reason)
    then show ?thesis
      using progress_settle [OF kept ids, of i Run_Blocked "Some reason" None now] healthy
      by (simp add: execute_run_def executed_calls_def view_of_def)
  next
    case (Inr call)
    let ?e = "re_schedules env"
    obtain started st where start:
      "startRun (pr_runId run) (sc_scheduleId schedule) (pr_occurrenceAt run) Run_Running None None now (rn_store s) = (started, st)"
      by fastforce
    have opened: "progress ?e i (rn_store s, rn_fired s, c) (st, rn_fired s, c)" for c
      using progress_start [OF ids, of ?e i "rn_store s" "rn_fired s" c "pr_occurrenceAt run" Run_Running None None now]
      by (simp add: start)
    then have "well_kept ?e st" using progress_kept kept by fastforce
    then have "progress ?e i (st, rn_fired s, rn_calls s @ [call])
        (view_of (snd (carry_out env schedule run call (s\<lparr>rn_store := st\<rparr>))))"
      using progress_carry [of env "s\<lparr>rn_store := st\<rparr>" i run schedule call] ok ids by simp
    with opened have "progress ?e i (rn_store s, rn_fired s, rn_calls s @ [call])
        (view_of (snd (carry_out env schedule run call (s\<lparr>rn_store := st\<rparr>))))"
      by (rule progress_trans)
    then show ?thesis
      using opened [of "rn_calls s"] by (cases started) (simp_all add: execute_run_def executed_calls_def healthy Inr start)
  qed
qed

lemma executed_session:
  "c \<in> set (executed_calls env schedule run now st) \<Longrightarrow> call_session c = pr_sessionId run"
  "length (executed_calls env schedule run now st) \<le> 1"
  by (auto simp: executed_calls_def call_of_def split: if_splits sum.splits target_resolution.splits)

lemma subseq_one: "length xs \<le> 1 \<Longrightarrow> \<forall>x \<in> set xs. x = y \<Longrightarrow> subseq xs [y]"
  by (cases xs) auto

lemma unattended_length: "length (unattended_sessions calls) \<le> length calls"
  unfolding unattended_sessions_def by (metis length_filter_le length_map)

lemma claim_fields:
  assumes "well_kept e st" and j: "j \<noteq> ''index''" and got: "fst (claimOccurrence e j t now st) = Claim_Ok runId c"
  shows "runId = runIdFor (se_number e) j t \<and> sc_scheduleId c = j"
proof -
  obtain rs runs where held: "stores (se_zone e) st rs runs" using assms(1) by (auto simp: well_kept_def)
  show ?thesis
  proof (cases "List.find (\<lambda>r. sc_scheduleId r = j) rs")
    case None
    then show ?thesis using got claim_keeps(1) [OF held j, of t now] by simp
  next
    case (Some r)
    then show ?thesis using got claim_keeps(1) [OF held j, of t now] find_ident [OF Some]
      by (auto simp: claimed_def split: if_splits)
  qed
qed

lemma progress_fire:
  assumes kept: "well_kept (re_schedules env) (rn_store s)" and ok: "admissible i env"
    and j: "proper_id (sc_scheduleId schedule)"
  shows "progress (re_schedules env) i (view_of s) (view_of (snd (fire env schedule t now s)))"
proof -
  let ?e = "re_schedules env" and ?j = "sc_scheduleId schedule"
  have j': "?j \<noteq> ''index''" using j by (simp add: proper_id_def)
  obtain verdict st where claim: "claimOccurrence ?e ?j t now (rn_store s) = (verdict, st)" by fastforce
  show ?thesis
  proof (cases verdict)
    case (Claim_Refused reason)
    have "progress ?e i (rn_store s, rn_fired s, rn_calls s) (st, rn_fired s, rn_calls s)"
      using progress_op [of "Op_Claim ?j t now" i ?e "rn_store s" "rn_fired s" "rn_calls s"] claim Claim_Refused j
      by (auto simp: proper_op_def proper_id_def)
    then show ?thesis by (simp add: fire_def claim Claim_Refused view_of_def)
  next
    case (Claim_Ok runId current)
    have ids: "runId = runIdFor (se_number ?e) ?j t" "sc_scheduleId current = ?j"
      using claim_fields [OF kept j', of t now runId current] claim Claim_Ok by simp_all
    let ?run = "\<lparr>pr_runId = runId, pr_occurrenceAt = t, pr_sessionId = unattendedSessionIdFor runId, pr_attended = False\<rparr>"
    let ?calls = "executed_calls env current ?run now st"
    let ?s = "s\<lparr>rn_store := st, rn_fired := rn_fired s @ [(?j, t)]\<rparr>"
    have sessions: "subseq (unattended_sessions ?calls) (map (fired_session ?e) [(?j, t)])"
    proof -
      have "length (unattended_sessions ?calls) \<le> 1"
        using executed_session(2) [of env current ?run now st] unattended_length [of ?calls] by linarith
      moreover have "\<forall>x \<in> set (unattended_sessions ?calls). x = fired_session ?e (?j, t)"
        using executed_session(1) [of _ env current ?run now st]
        by (auto simp: unattended_sessions_def fired_session_def ids(1))
      ultimately show ?thesis using subseq_one [of "unattended_sessions ?calls" "fired_session ?e (?j, t)"] by simp
    qed
    have one: "progress ?e i (view_of s) (st, rn_fired s @ [(?j, t)], rn_calls s @ ?calls)"
      unfolding view_of_def
    proof (rule progress_step)
      fix rs runs
      assume "stores (se_zone ?e) (rn_store s) rs runs"
      from claim_forward [OF this j', of t now i t] obtain rs' where "stores (se_zone ?e) st rs' runs" "forward i rs rs'"
          "?j = i \<Longrightarrow> (\<exists>r. List.find (\<lambda>r. sc_scheduleId r = i) rs = Some r \<and> sc_lastClaimedOccurrenceAt r < t) \<and>
            (\<forall>r'. List.find (\<lambda>r. sc_scheduleId r = i) rs' = Some r' \<longrightarrow> sc_lastClaimedOccurrenceAt r' = t)"
        by (auto simp: claim Claim_Ok)
      then show "\<exists>rs' runs'. stores (se_zone ?e) st rs' runs' \<and> fires_forward ?e i rs rs' [(?j, t)] ?calls"
        using sessions by (intro exI [of _ rs'] exI [of _ runs]) (auto simp: fires_forward_def claims_of_def)
    qed
    have "well_kept ?e st" using progress_kept [OF one] kept by (simp add: view_of_def)
    then have "progress ?e i (st, rn_fired s @ [(?j, t)], rn_calls s @ ?calls) (view_of (snd (execute_run env current ?run now ?s)))"
      using progress_execute [of env ?s i ?run current now] ok j ids by (simp add: proper_id_def)
    from progress_trans [OF one this] show ?thesis
      by (simp add: fire_def claim Claim_Ok case_prod_beta Let_def)
  qed
qed

lemma progress_calls:
  "unattended_sessions calls = [] \<Longrightarrow> progress e i (st, f, c) (st, f, c @ calls)"
  using progress_step [of e st st i "[]" calls f c] by (force simp: fires_forward_def)

lemma progress_runNow:
  assumes kept: "well_kept (re_schedules env) (rn_store s)" and ok: "admissible i env"
    and j: "proper_id j" and attended: "\<not> isUnattendedSessionId session"
  shows "progress (re_schedules env) i (view_of s) (view_of (snd (runNow env j session now s)))"
proof (cases "get_schedule (re_zone env) j (rn_store s)")
  case (Pair found st)
  then have same: "st = rn_store s" and ids: "\<And>r. found = Some r \<Longrightarrow> sc_scheduleId r = j"
    using kept by (auto simp: well_kept_def get_schedule_keeps dest: find_ident)
  show ?thesis
  proof (cases found)
    case None
    then show ?thesis by (simp add: runNow_def Pair same view_of_def)
  next
    case (Some r)
    let ?run = "\<lparr>pr_runId = runIdFor (se_number (re_schedules env)) j now, pr_occurrenceAt = now, pr_sessionId = session,
      pr_attended = True\<rparr>"
    have "unattended_sessions (executed_calls env r ?run now (rn_store s)) = []"
      using executed_session(1) [of _ env r ?run now "rn_store s"] attended by (auto simp: unattended_sessions_def filter_empty_conv)
    then have "progress (re_schedules env) i (view_of s)
        (rn_store s, rn_fired s, rn_calls s @ executed_calls env r ?run now (rn_store s))"
      unfolding view_of_def by (rule progress_calls)
    also have "progress (re_schedules env) i (rn_store s, rn_fired s, rn_calls s @ executed_calls env r ?run now (rn_store s))
        (view_of (snd (execute_run env r ?run now s)))"
      using kept ok j ids [OF Some] by (intro progress_execute) (simp_all add: proper_id_def)
    finally show ?thesis by (simp add: runNow_def Pair Some same)
  qed
qed

lemma progress_missed:
  assumes "proper_id (sc_scheduleId schedule)"
  shows "progress (re_schedules env) i (view_of s) (view_of (snd (recordMissed env schedule t now s)))"
proof -
  let ?e = "re_schedules env" and ?j = "sc_scheduleId schedule"
  obtain skipped st1 where one: "skipOccurrence (re_zone env) ?j t now (rn_store s) = (skipped, st1)" by fastforce
  obtain started st2 where two:
    "startRun (runIdFor (se_number ?e) ?j t) ?j t Run_Missed (Some Reason_Missed_While_Asleep) None now st1 = (started, st2)"
    by fastforce
  let ?f = "rn_fired s" and ?c = "rn_calls s"
  have p1: "progress ?e i (view_of s) (st1, ?f, ?c)"
    using progress_skip [OF assms, of ?e i "rn_store s" ?f ?c t now] by (simp add: one view_of_def)
  moreover have "progress ?e i (st1, ?f, ?c) (st2, ?f, ?c)"
    using progress_start [OF _ assms, of "runIdFor (se_number ?e) ?j t" ?e i st1 ?f ?c t Run_Missed
        "Some Reason_Missed_While_Asleep" None now] by (simp add: two proper_id_def)
  ultimately have p2: "progress ?e i (view_of s) (st2, ?f, ?c)" by (rule progress_trans)
  have p3: "progress ?e i (view_of s) (snd (recordOutcome (re_zone env) ?j t Run_Missed (Some Reason_Missed_While_Asleep) now st2), ?f, ?c)"
    by (rule progress_trans [OF p2 progress_outcome [OF assms]])
  show ?thesis
    using p1 p2 p3 by (cases skipped; cases started) (simp_all add: recordMissed_def one two Let_def)
qed

lemma progress_all_missed:
  "proper_id (sc_scheduleId schedule) \<Longrightarrow>
    progress (re_schedules env) i (view_of s) (view_of (snd (record_all_missed env schedule ts now s)))"
proof (induction ts arbitrary: s)
  case (Cons t ts)
  obtain r s' where missed: "recordMissed env schedule t now s = (r, s')" by fastforce
  have one: "progress (re_schedules env) i (view_of s) (view_of s')"
    using progress_missed [OF Cons.prems, of env i s t now] by (simp add: missed)
  then show ?case using progress_trans [OF one Cons.IH [OF Cons.prems]] by (cases r) (simp_all add: missed)
qed simp

lemma progress_advance:
  assumes kept: "well_kept (re_schedules env) (rn_store s)" and ok: "admissible i env"
    and j: "proper_id (sc_scheduleId schedule)"
  shows "progress (re_schedules env) i (view_of s) (view_of (snd (advance env now schedule s)))"
proof -
  let ?v = "occurrencesDue (re_zone env) schedule now"
  obtain r s' where missed: "record_all_missed env schedule (dv_missed ?v) now s = (r, s')" by fastforce
  have one: "progress (re_schedules env) i (view_of s) (view_of s')"
    using progress_all_missed [OF j, of env i s "dv_missed ?v" now] by (simp add: missed)
  have "well_kept (re_schedules env) (rn_store s')" using progress_kept [OF one] kept by (simp add: view_of_def)
  from progress_trans [OF one progress_fire [OF this ok j]] one show ?thesis
    by (cases r; cases "dv_due ?v") (simp_all add: advance_def missed Let_def)
qed

lemma progress_rearm:
  "well_kept (re_schedules env) (rn_store s) \<Longrightarrow> view_of (rearm (re_zone env) s) = view_of s"
  using list_same [of "re_schedules env" "rn_store s"] by (simp add: rearm_def case_prod_beta view_of_def)

lemma progress_tick:
  assumes kept: "well_kept (re_schedules env) (rn_store s)" and ok: "admissible i env"
  shows "progress (re_schedules env) i (view_of s) (view_of (runTick env clock s))"
proof -
  let ?e = "re_schedules env"
  let ?go = "\<lambda>k schedule s. snd (advance env (clock k) schedule s)"
  have walk: "progress ?e i (view_of s) (view_of (advance_all env clock k schedules s))"
    if "well_kept ?e (rn_store s)" "\<forall>r \<in> set schedules. proper_id (sc_scheduleId r)" for schedules s k
    using that
  proof (induction schedules arbitrary: s k)
    case (Cons r rs)
    have one: "progress ?e i (view_of s) (view_of (?go k r s))" using Cons.prems ok by (intro progress_advance) auto
    have "well_kept ?e (rn_store (?go k r s))" using progress_kept [OF one] Cons.prems(1) by (simp add: view_of_def)
    from progress_trans [OF one Cons.IH [OF this]] Cons.prems(2) show ?case by simp
  qed simp
  obtain rs runs where held: "stores (re_zone env) (rn_store s) rs runs" using kept by (auto simp: well_kept_def)
  have all: "progress ?e i (view_of s) (view_of (advance_all env clock 0 rs s))"
    using walk [OF kept] kept_ids [OF held] by blast
  have "well_kept ?e (rn_store (advance_all env clock 0 rs s))" using progress_kept [OF all] kept by (simp add: view_of_def)
  from progress_rearm [OF this] all show ?thesis by (simp add: runTick_def list_schedules_keeps [OF held])
qed

lemma progress_finish_outcome:
  assumes "proper_id runId" and "proper_id j"
  shows "progress e i (st, f, c)
    (snd (recordOutcome (se_zone e) j now s1 r1 now (snd (finishRun runId s2 r2 t2 now st))), f, c)"
  by (rule progress_trans [OF progress_finish [OF assms(1)] progress_outcome [OF assms(2)]])

lemma progress_cancel:
  assumes kept: "well_kept (re_schedules env) (rn_store s)"
  shows "progress (re_schedules env) i (view_of s) (view_of (snd (cancelRun env runId now s)))"
proof -
  obtain rs runs where held: "stores (re_zone env) (rn_store s) rs runs" using kept by (auto simp: well_kept_def)
  show ?thesis
  proof (cases "List.find (\<lambda>r. sr_runId r = runId) runs")
    case None
    then show ?thesis by (simp add: cancelRun_def get_run_keeps [OF held] view_of_def)
  next
    case (Some run)
    then have ids: "proper_id runId" "proper_id (sr_scheduleId run)"
      using kept_run_ids [OF held] find_ident [OF Some] by auto
    show ?thesis
      using progress_finish_outcome [OF ids, of "re_schedules env" i "rn_store s" "rn_fired s" "rn_calls s" now
          Run_Cancelled "Some Reason_Cancelled" Run_Cancelled "Some Reason_Cancelled" None]
      by (auto simp: cancelRun_def get_run_keeps [OF held] Some Let_def view_of_def emit_event_def split: option.splits)
  qed
qed

lemma progress_recover:
  assumes kept: "well_kept (re_schedules env) (rn_store s)"
  shows "progress (re_schedules env) i (view_of s) (view_of (snd (recover_runs env now s)))"
proof -
  obtain rs runs where held: "stores (re_zone env) (rn_store s) rs runs" using kept by (auto simp: well_kept_def)
  have walk: "progress (re_schedules env) i (view_of s) (view_of (fold (interrupt_run env now) stale s))"
    if "\<forall>r \<in> set stale. proper_id (sr_runId r) \<and> proper_id (sr_scheduleId r)" for stale s
    using that
  proof (induction stale arbitrary: s)
    case (Cons r stale)
    have "progress (re_schedules env) i (view_of s) (view_of (interrupt_run env now r s))"
      using Cons.prems progress_finish_outcome [of "sr_runId r" "sr_scheduleId r" "re_schedules env" i "rn_store s" "rn_fired s"
          "rn_calls s" now Run_Failed "Some Reason_Interrupted" Run_Failed "Some Reason_Interrupted" None]
      by (simp add: interrupt_run_def Let_def view_of_def emit_event_def)
    from progress_trans [OF this Cons.IH] Cons.prems show ?case by simp
  qed simp
  have "snd (listRunningRuns (rn_store s)) = rn_store s" "set (fst (listRunningRuns (rn_store s))) \<subseteq> set runs"
    by (auto simp: listRunningRuns_def listRuns_keeps [OF held])
  moreover from this(2) have "\<forall>r \<in> set (fst (listRunningRuns (rn_store s))). proper_id (sr_runId r) \<and> proper_id (sr_scheduleId r)"
    using kept_run_ids [OF held] by blast
  ultimately show ?thesis using walk by (simp add: recover_runs_def case_prod_beta)
qed

subsection \<open>The runner over time\<close>

text \<open>
  What happens to the runner, one after the other: ticks, runs a person asks for, cancellations, recoveries
  and operations on the stored schedules, each with the environment it meets.
\<close>

datatype runner_op =
    Rn_Tick runner_env "nat \<Rightarrow> rat"
  | Rn_RunNow runner_env string string rat
  | Rn_Cancel runner_env string rat
  | Rn_Recover runner_env rat
  | Rn_Observe string string
  | Rn_Refusal string
  | Rn_Store schedule_env schedule_op

fun runner_step :: "runner_op \<Rightarrow> runner_state \<Rightarrow> runner_state" where
  "runner_step (Rn_Tick env clock) s = runTick env clock s"
| "runner_step (Rn_RunNow env j session now) s = snd (runNow env j session now s)"
| "runner_step (Rn_Cancel env runId now) s = snd (cancelRun env runId now s)"
| "runner_step (Rn_Recover env now) s = snd (recover_runs env now s)"
| "runner_step (Rn_Observe taskId session) s = observeTask taskId session s"
| "runner_step (Rn_Refusal session) s = noteConfirmationRefusal session s"
| "runner_step (Rn_Store e p) s = s\<lparr>rn_store := snd (run_op e p (rn_store s))\<rparr>"

text \<open>
  Admissible for schedule \<open>i\<close>: one zone throughout, attended runs in sessions that are not unattended,
  proper operations, none of which creates \<open>i\<close> anew.
\<close>

fun admits :: "schedule_env \<Rightarrow> string \<Rightarrow> runner_op \<Rightarrow> bool" where
  "admits e i (Rn_Tick env clock) = (re_schedules env = e \<and> admissible i env)"
| "admits e i (Rn_RunNow env j session now) =
     (re_schedules env = e \<and> admissible i env \<and> proper_id j \<and> \<not> isUnattendedSessionId session)"
| "admits e i (Rn_Cancel env runId now) = (re_schedules env = e)"
| "admits e i (Rn_Recover env now) = (re_schedules env = e)"
| "admits e i (Rn_Observe taskId session) = True"
| "admits e i (Rn_Refusal session) = True"
| "admits e i (Rn_Store e' p) = (e' = e \<and> proper_op p \<and> i \<notin> op_creates p)"

lemma progress_runner_step:
  assumes "well_kept e (rn_store s)" and "admits e i p"
  shows "progress e i (view_of s) (view_of (runner_step p s))"
proof (cases p)
  case (Rn_Store e' q)
  then show ?thesis using progress_op [of q i e "rn_store s" "rn_fired s" "rn_calls s"] assms(2) by (simp add: view_of_def)
next
  case (Rn_Observe taskId session)
  then show ?thesis by (simp add: observeTask_def view_of_def)
next
  case (Rn_Refusal session)
  then show ?thesis by (simp add: noteConfirmationRefusal_def view_of_def)
qed (use assms progress_tick progress_runNow progress_cancel progress_recover in fastforce)+

lemma progress_runner:
  "well_kept e (rn_store s) \<Longrightarrow> \<forall>p \<in> set ps. admits e i p \<Longrightarrow> progress e i (view_of s) (view_of (fold runner_step ps s))"
proof (induction ps arbitrary: s)
  case (Cons p ps)
  have one: "progress e i (view_of s) (view_of (runner_step p s))" using Cons.prems by (intro progress_runner_step) auto
  have "well_kept e (rn_store (runner_step p s))" using progress_kept [OF one] Cons.prems(1) by (simp add: view_of_def)
  from progress_trans [OF one Cons.IH [OF this]] Cons.prems(2) show ?case by simp
qed simp

text \<open>
  C8. No occurrence runs twice: over any sequence of ticks, attended runs, cancellations, recoveries and
  operations on the stored schedules (including what happens while an execution is awaited), the
  occurrences of a schedule that are fired come strictly later and later and after what the schedule had
  claimed at the start, and the executions under unattended sessions answer fired occurrences, at most one
  to each and in their order.
\<close>

theorem runner_executes_at_most_once:
  assumes "stores (se_zone e) (rn_store s) rs runs" and "rn_fired s = []" and "rn_calls s = []"
    and "\<forall>p \<in> set ps. admits e i p"
  defines "s' \<equiv> fold runner_step ps s"
  shows "sorted_wrt (<) (claims_of i (rn_fired s')) \<and>
    (\<forall>t \<in> set (claims_of i (rn_fired s')).
       \<exists>r. List.find (\<lambda>r. sc_scheduleId r = i) rs = Some r \<and> sc_lastClaimedOccurrenceAt r < t) \<and>
    subseq (unattended_sessions (rn_calls s')) (map (fired_session e) (rn_fired s')) \<and>
    (\<exists>rs' runs'. stores (se_zone e) (rn_store s') rs' runs' \<and> forward i rs rs')"
proof -
  have "well_kept e (rn_store s)" using assms(1) by (auto simp: well_kept_def)
  from progress_runner [OF this assms(4)] obtain rs' runs' where
    "stores (se_zone e) (rn_store s') rs' runs'" "fires_forward e i rs rs' (rn_fired s') (rn_calls s')"
    using assms(1,2,3) unfolding progress_def s'_def by (auto simp: view_of_def)
  then show ?thesis unfolding fires_forward_def by blast
qed

text \<open>A runner over the schedule of the store's witness, whose workflow completes.\<close>

definition nightly_env :: runner_env where
  "nightly_env =
     \<lparr>re_schedules = \<lparr>se_zone = fixed_zone 0, se_number = (\<lambda>_. ''9'')\<rparr>, re_health = No_Health,
      re_resolve = (\<lambda>_. Target_Ok_Workflow ''w''),
      re_execute = (\<lambda>_. \<lparr>xt_result = Some (Execution_Ran ''t'' Exec_Completed None), xt_operations = [],
         xt_refused = False, xt_task = Some ''t'', xt_endedAt = 32400500\<rparr>),
      re_cancelTask = (\<lambda>_. True)\<rparr>"

definition nightly_runner :: runner_state where
  "nightly_runner =
     \<lparr>rn_store = nightly_store, rn_refused = {}, rn_tasks = (\<lambda>_. None), rn_events = [], rn_notes = [], rn_calls = [],
      rn_cancelled = [], rn_wake = None, rn_fired = []\<rparr>"

theorem runner_executes_at_most_once_witness:
  "sorted_wrt (<) (claims_of ''s'' (rn_fired (fold runner_step
     [Rn_Tick nightly_env (\<lambda>_. 32400000), Rn_RunNow nightly_env ''s'' ''session'' 32400501,
      Rn_Recover nightly_env 32400502, Rn_Tick nightly_env (\<lambda>_. 32400503)] nightly_runner)))"
proof -
  let ?ps = "[Rn_Tick nightly_env (\<lambda>_. 32400000), Rn_RunNow nightly_env ''s'' ''session'' 32400501,
      Rn_Recover nightly_env 32400502, Rn_Tick nightly_env (\<lambda>_. 32400503)]"
  have "stores (se_zone (re_schedules nightly_env)) (rn_store nightly_runner) [nightly] []"
    using nightly_kept by (simp add: nightly_env_def nightly_runner_def)
  moreover have "\<forall>p \<in> set ?ps. admits (re_schedules nightly_env) ''s'' p"
    by (simp add: admissible_def nightly_env_def proper_id_def isUnattendedSessionId_def UNATTENDED_SESSION_PREFIX_def)
  ultimately show ?thesis
    using runner_executes_at_most_once [of "re_schedules nightly_env" nightly_runner "[nightly]" "[]" ?ps "''s''"]
    by (simp add: nightly_runner_def)
qed

subsection \<open>Fired in time\<close>

lemma settle_fired [simp]: "rn_fired (snd (settle z schedule run status reason taskId now s)) = rn_fired s"
  by (auto simp: settle_def Let_def split: prod.splits bool.splits)

lemma execute_fired [simp]: "rn_fired (snd (execute_run env schedule run now s)) = rn_fired s"
proof -
  have "rn_fired (during_execution env session trace u) = rn_fired u" for session trace u
    using during_view [of env session trace u] by (simp add: view_of_def)
  then have "rn_fired (snd (carry_out env schedule run call u)) = rn_fired u" for call u
    by (simp add: carry_out_def Let_def split: scheduled_execution.split prod.split)
  then show ?thesis by (simp add: execute_run_def split: option.split sum.split prod.split)
qed

lemma missed_fired [simp]: "rn_fired (snd (record_all_missed env schedule ts now s)) = rn_fired s"
proof (induction ts arbitrary: s)
  case (Cons t ts)
  have "rn_fired (snd (recordMissed env schedule t now s)) = rn_fired s"
    by (auto simp: recordMissed_def Let_def split: prod.splits option.splits)
  then show ?case using Cons.IH by (auto split: prod.splits option.splits)
qed simp

lemma advance_fired:
  "\<exists>new. rn_fired (snd (advance env now schedule s)) = rn_fired s @ new \<and>
    (\<forall>(j, t) \<in> set new. j = sc_scheduleId schedule \<and> sc_enabled schedule \<and> now - t \<le> RUN_GRACE_MS)"
proof -
  let ?v = "occurrencesDue (re_zone env) schedule now"
  have due: "sc_enabled schedule \<and> now - t \<le> RUN_GRACE_MS" if "dv_due ?v = Some t" for t
    using that unfolding occurrencesDue_def Let_def by (auto split: if_splits option.splits prod.splits)
  have fired: "\<exists>new. rn_fired (snd (fire env schedule t now u)) = rn_fired u @ new \<and> set new \<subseteq> {(sc_scheduleId schedule, t)}" for t u
    by (auto simp: fire_def Let_def case_prod_beta split: claim_verdict.split)
  obtain r u where missed: "record_all_missed env schedule (dv_missed ?v) now s = (r, u)" by fastforce
  then have same: "rn_fired u = rn_fired s" using missed_fired [of env schedule "dv_missed ?v" now s] by simp
  show ?thesis
  proof (cases "r = None \<or> dv_due ?v = None")
    case True
    then show ?thesis using same by (cases r) (auto simp: advance_def missed Let_def)
  next
    case False
    then obtain t where t: "dv_due ?v = Some t" by blast
    obtain new where "rn_fired (snd (fire env schedule t now u)) = rn_fired u @ new" "set new \<subseteq> {(sc_scheduleId schedule, t)}"
      using fired by blast
    then show ?thesis using False due [OF t] same t by (intro exI [of _ new]) (auto simp: advance_def missed Let_def)
  qed
qed

text \<open>
  What a tick fires, it fires for an enabled schedule of the store and within ten minutes of the
  occurrence; what is older is recorded and never executed.
\<close>

theorem tick_fires_in_time:
  assumes held: "stores (re_zone env) (rn_store s) rs runs"
  shows "\<exists>new. rn_fired (runTick env clock s) = rn_fired s @ new \<and>
    (\<forall>(j, t) \<in> set new. \<exists>k < length rs. clock k - t \<le> RUN_GRACE_MS \<and> sc_scheduleId (rs ! k) = j \<and> sc_enabled (rs ! k))"
proof -
  have "\<exists>new. rn_fired (advance_all env clock n schedules s) = rn_fired s @ new \<and>
      (\<forall>(j, t) \<in> set new. \<exists>k < length schedules. clock (n + k) - t \<le> RUN_GRACE_MS \<and>
         sc_scheduleId (schedules ! k) = j \<and> sc_enabled (schedules ! k))" for schedules s n
  proof (induction schedules arbitrary: s n)
    case (Cons r rest)
    let ?s = "snd (advance env (clock n) r s)"
    obtain n1 where n1: "rn_fired ?s = rn_fired s @ n1"
        "\<forall>(j, t) \<in> set n1. j = sc_scheduleId r \<and> sc_enabled r \<and> clock n - t \<le> RUN_GRACE_MS"
      using advance_fired by blast
    obtain n2 where n2: "rn_fired (advance_all env clock (Suc n) rest ?s) = rn_fired ?s @ n2"
        "\<forall>(j, t) \<in> set n2. \<exists>k < length rest. clock (Suc n + k) - t \<le> RUN_GRACE_MS \<and>
           sc_scheduleId (rest ! k) = j \<and> sc_enabled (rest ! k)"
      using Cons.IH [where s = ?s and n = "Suc n"] by blast
    have "\<exists>k < length (r # rest). clock (n + k) - t \<le> RUN_GRACE_MS \<and>
        sc_scheduleId ((r # rest) ! k) = j \<and> sc_enabled ((r # rest) ! k)" if m: "(j, t) \<in> set (n1 @ n2)" for j t
    proof (cases "(j, t) \<in> set n1")
      case True
      then show ?thesis using n1(2) by (intro exI [of _ 0]) auto
    next
      case False
      then obtain k where "k < length rest" "clock (Suc n + k) - t \<le> RUN_GRACE_MS" "sc_scheduleId (rest ! k) = j" "sc_enabled (rest ! k)"
        using m n2(2) by auto
      then show ?thesis by (intro exI [of _ "Suc k"]) simp
    qed
    then show ?case using n1(1) n2(1) by (intro exI [of _ "n1 @ n2"]) auto
  qed simp
  from this [of 0 rs s] show ?thesis by (simp add: runTick_def list_schedules_keeps [OF held] rearm_def case_prod_beta Let_def)
qed

theorem tick_fires_in_time_witness:
  "\<exists>new. rn_fired (runTick nightly_env (\<lambda>k. 32400000 + of_nat k) nightly_runner) = new \<and>
     (\<forall>(j, t) \<in> set new. 32400000 - t \<le> RUN_GRACE_MS)"
  using tick_fires_in_time [of nightly_env nightly_runner "[nightly]" "[]" "\<lambda>k. 32400000 + of_nat k"] nightly_kept
  by (fastforce simp: nightly_env_def nightly_runner_def)

subsection \<open>Outcomes\<close>

lemma finish_result:
  assumes "stores z st rs runs" and "runId \<noteq> ''index''"
  shows "stores z (snd (finishRun runId status reason taskId now st)) rs
    (case changed_in sr_runId runId (finish_change status reason taskId now) runs of
       None \<Rightarrow> runs | Some r \<Rightarrow> updated_list sr_runId r runs)"
  unfolding finishRun_def by (rule mutate_run_keeps(2) [OF assms]) (rule finish_change_sound)

lemma outcome_result:
  assumes "stores z st rs runs" and "j \<noteq> ''index''"
  shows "stores z (snd (recordOutcome z j t status reason now st))
    (case changed_in sc_scheduleId j (outcome_change t status reason now) rs of
       None \<Rightarrow> rs | Some r \<Rightarrow> updated_list sc_scheduleId r rs) runs"
  unfolding recordOutcome_def by (rule mutate_schedule_keeps(2) [OF assms]) (rule outcome_change_sound)

lemma close_run_open:
  assumes held: "stores z st rs runs" and ids: "proper_id (pr_runId run)" "proper_id j"
    and "open": "\<And>r. List.find (\<lambda>r. sr_runId r = pr_runId run) runs = Some r \<Longrightarrow> sr_status r = Run_Running"
  shows "\<exists>runs' r. stores z (snd (close_run j run status reason taskId now st)) rs runs' \<and>
    fst (close_run j run status reason taskId now st) \<and>
    List.find (\<lambda>r. sr_runId r = pr_runId run) runs' = Some r \<and> sr_status r = status"
proof (cases "List.find (\<lambda>r. sr_runId r = pr_runId run) runs")
  case None
  have proper: "pr_runId run \<noteq> []" "pr_runId run \<noteq> ''index''" "j \<noteq> []" "j \<noteq> ''index''"
    using ids by (simp_all add: proper_id_def)
  obtain result st' where start: "startRun (pr_runId run) j (pr_occurrenceAt run) status reason taskId now st = (result, st')"
    by fastforce
  then show ?thesis
    using startRun_keeps [OF held proper, of "pr_occurrenceAt run" status reason taskId now] None
    by (auto simp: close_run_def get_run_keeps [OF held])
next
  case (Some r)
  have i: "pr_runId run \<noteq> ''index''" using ids by (simp add: proper_id_def)
  let ?r = "r\<lparr>sr_status := status, sr_finishedAt := time_json now,
    sr_reason := (case reason of None \<Rightarrow> sr_reason r | Some x \<Rightarrow> Some x),
    sr_taskId := (case taskId of None \<Rightarrow> sr_taskId r | Some t \<Rightarrow> Some t)\<rparr>"
  have change: "changed_in sr_runId (pr_runId run) (finish_change status reason taskId now) runs = Some ?r"
    using Some "open" by (simp add: changed_in_def finish_change_def)
  have "stores z (snd (finishRun (pr_runId run) status reason taskId now st)) rs (updated_list sr_runId ?r runs)"
    using finish_result [OF held i, of status reason taskId now] by (simp add: change)
  moreover have "List.find (\<lambda>r. sr_runId r = pr_runId run) (updated_list sr_runId ?r runs) = Some ?r"
    using find_ident [OF Some] find_image [OF Some] find_updated [of sr_runId "pr_runId run" ?r runs] by simp
  ultimately show ?thesis by (fastforce simp: close_run_def get_run_keeps [OF held] Some)
qed

lemma outcome_found:
  assumes held: "stores z st rs runs" and found: "List.find (\<lambda>r. sc_scheduleId r = j) rs = Some r" and j: "j \<noteq> ''index''"
  shows "\<exists>rs'. stores z (snd (recordOutcome z j t status reason now st)) rs' runs \<and>
    (\<exists>r'. List.find (\<lambda>r. sc_scheduleId r = j) rs' = Some r' \<and> sc_lastRunStatus r' = Some status)"
proof -
  let ?r = "the (outcome_change t status reason now r)"
  have change: "changed_in sc_scheduleId j (outcome_change t status reason now) rs = Some ?r"
    using found by (simp add: changed_in_def outcome_change_def)
  have "stores z (snd (recordOutcome z j t status reason now st)) (updated_list sc_scheduleId ?r rs) runs"
    using outcome_result [OF held j, of t status reason now] by (simp add: change)
  moreover have "List.find (\<lambda>r. sc_scheduleId r = j) (updated_list sc_scheduleId ?r rs) = Some ?r" "sc_lastRunStatus ?r = Some status"
    using find_ident [OF found] find_image [OF found] find_updated [of sc_scheduleId j ?r rs] by (simp_all add: outcome_change_def)
  ultimately show ?thesis by blast
qed

text \<open>What a reader of the store sees of a run and of its schedule's last outcome.\<close>

definition seen_run :: "string \<Rightarrow> runner_state \<Rightarrow> run_status option" where
  "seen_run runId s = map_option sr_status (fst (get_run runId (rn_store s)))"

definition seen_outcome :: "time_zone \<Rightarrow> string \<Rightarrow> runner_state \<Rightarrow> run_status option" where
  "seen_outcome z j s = Option.bind (fst (get_schedule z j (rn_store s))) sc_lastRunStatus"

text \<open>What an event of the audit trail says about the run it names.\<close>

fun audited_status :: "schedule_event_type \<Rightarrow> run_status" where
  "audited_status Schedule_Run_Started = Run_Running"
| "audited_status Schedule_Run_Completed = Run_Completed"
| "audited_status Schedule_Run_Failed = Run_Failed"
| "audited_status Schedule_Run_Blocked = Run_Blocked"
| "audited_status Schedule_Run_Cancelled = Run_Cancelled"
| "audited_status Schedule_Run_Missed = Run_Missed"

definition audited_as :: "string \<Rightarrow> string \<Rightarrow> run_status \<Rightarrow> run_reason option \<Rightarrow> schedule_event \<Rightarrow> bool" where
  "audited_as scheduleId runId status reason ev =
     (ev_scheduleId ev = scheduleId \<and> ev_runId ev = runId \<and> audited_status (ev_type ev) = status \<and>
      (ev_outcome ev = Event_Allowed \<longleftrightarrow> status = Run_Completed) \<and>
      (ev_outcome ev = Event_Denied \<longleftrightarrow> status = Run_Blocked) \<and> ev_code ev = map_option Code_Reason reason)"

lemma settled_audited:
  "status \<notin> {Run_Running, Run_Missed} \<Longrightarrow> audited_status (settled_event status) = status"
  by (cases status) (simp_all add: settled_event_def)

lemma settle_event:
  assumes "close_run (sc_scheduleId schedule) run status reason taskId now (rn_store s) = (True, st)"
    and "status \<notin> {Run_Running, Run_Missed}"
  shows "\<exists>ev. rn_events (snd (settle z schedule run status reason taskId now s)) = rn_events s @ [ev] \<and>
    audited_as (sc_scheduleId schedule) (pr_runId run) status reason ev"
  using assms settled_audited [OF assms(2)]
  by (auto simp: settle_def Let_def case_prod_beta settled_note_def notify_event_def emit_event_def audited_as_def
      settled_outcome_def)

lemma settle_closed:
  assumes closed: "close_run (sc_scheduleId schedule) run status reason taskId now (rn_store s) = (True, st)"
    and held: "stores z st rs runs" and found: "List.find (\<lambda>r. sc_scheduleId r = sc_scheduleId schedule) rs = Some r"
    and j: "sc_scheduleId schedule \<noteq> ''index''"
  shows "seen_run (pr_runId run) (snd (settle z schedule run status reason taskId now s)) =
      map_option sr_status (List.find (\<lambda>r. sr_runId r = pr_runId run) runs) \<and>
    seen_outcome z (sc_scheduleId schedule) (snd (settle z schedule run status reason taskId now s)) = Some status \<and>
    ev_type (last (rn_events (snd (settle z schedule run status reason taskId now s)))) = settled_event status"
proof -
  let ?s = "snd (settle z schedule run status reason taskId now s)"
  let ?st = "snd (recordOutcome z (sc_scheduleId schedule) now status reason now st)"
  obtain rs' r' where kept: "stores z ?st rs' runs"
      and r': "List.find (\<lambda>r. sc_scheduleId r = sc_scheduleId schedule) rs' = Some r'" "sc_lastRunStatus r' = Some status"
    using outcome_found [OF held found j] by blast
  have same: "snd (get_run (pr_runId run) ?st) = ?st" by (simp add: get_run_keeps [OF kept])
  have store: "rn_store ?s = ?st" by (simp add: settle_def closed Let_def case_prod_beta same)
  have event: "ev_type (last (rn_events ?s)) = settled_event status"
    by (simp add: settle_def closed Let_def case_prod_beta settled_note_def notify_event_def emit_event_def)
  show ?thesis using r' event by (simp add: seen_run_def seen_outcome_def store get_run_keeps [OF kept] get_schedule_keeps [OF kept])
qed

text \<open>
  C16. The outcome is written everywhere it has to appear: settling a run that is open, or has no record yet,
  leaves the run record and the schedule's own summary with the outcome's status, and adds exactly one event to
  the audit trail, which names the schedule and the run, says that status (completed, failed, blocked or
  cancelled, and no other) with its reason, and is allowed just where the run completed and denied just where
  it was blocked.
\<close>

theorem settle_agrees:
  assumes held: "stores z (rn_store s) rs runs" and ids: "proper_id (pr_runId run)" "proper_id (sc_scheduleId schedule)"
    and found: "List.find (\<lambda>r. sc_scheduleId r = sc_scheduleId schedule) rs = Some r"
    and "open": "\<forall>r. List.find (\<lambda>r. sr_runId r = pr_runId run) runs = Some r \<longrightarrow> sr_status r = Run_Running"
    and status: "status \<in> {Run_Completed, Run_Failed, Run_Blocked, Run_Cancelled}"
  shows "seen_run (pr_runId run) (snd (settle z schedule run status reason taskId now s)) = Some status \<and>
    seen_outcome z (sc_scheduleId schedule) (snd (settle z schedule run status reason taskId now s)) = Some status \<and>
    (\<exists>ev. rn_events (snd (settle z schedule run status reason taskId now s)) = rn_events s @ [ev] \<and>
       audited_as (sc_scheduleId schedule) (pr_runId run) status reason ev)"
proof -
  let ?close = "close_run (sc_scheduleId schedule) run status reason taskId now (rn_store s)"
  obtain runs' r' where closed: "stores z (snd ?close) rs runs'" "fst ?close"
      "List.find (\<lambda>r. sr_runId r = pr_runId run) runs' = Some r'" "sr_status r' = status"
    using close_run_open [OF held ids] "open" by blast
  then have wrote: "?close = (True, snd ?close)" by (metis prod.collapse)
  have "status \<notin> {Run_Running, Run_Missed}" using status by auto
  from settle_event [OF wrote this] settle_closed [OF wrote closed(1) found] ids(2) closed(3,4)
  show ?thesis by (simp add: proper_id_def)
qed

theorem settle_agrees_witness:
  "seen_outcome (fixed_zone 0) ''s'' (snd (settle (fixed_zone 0) nightly
     \<lparr>pr_runId = ''srun_s_9'', pr_occurrenceAt = 9, pr_sessionId = ''x'', pr_attended = True\<rparr>
     Run_Failed (Some Reason_Run_Failed) None 10 nightly_runner)) = Some Run_Failed \<and>
   (\<exists>ev. rn_events (snd (settle (fixed_zone 0) nightly
     \<lparr>pr_runId = ''srun_s_9'', pr_occurrenceAt = 9, pr_sessionId = ''x'', pr_attended = True\<rparr>
     Run_Failed (Some Reason_Run_Failed) None 10 nightly_runner)) = [ev] \<and> audited_status (ev_type ev) = Run_Failed)"
proof -
  have "stores (fixed_zone 0) (rn_store nightly_runner) [nightly] []"
    using nightly_kept by (simp add: nightly_runner_def)
  from settle_agrees [OF this, of "\<lparr>pr_runId = ''srun_s_9'', pr_occurrenceAt = 9, pr_sessionId = ''x'', pr_attended = True\<rparr>"
      nightly nightly Run_Failed "Some Reason_Run_Failed" None 10]
  show ?thesis by (auto simp: nightly_def nightly_runner_def proper_id_def audited_as_def)
qed

text \<open>
  C17. Settling a run that has ended in the meantime, say cancelled while its execution ran to completion,
  leaves the run record as it ended but writes the other status into the schedule's summary and the audit
  trail: the history and the list disagree.
\<close>

theorem settle_after_end_disagrees:
  assumes held: "stores z (rn_store s) rs runs" and ids: "proper_id (pr_runId run)" "proper_id (sc_scheduleId schedule)"
    and found: "List.find (\<lambda>r. sc_scheduleId r = sc_scheduleId schedule) rs = Some r"
    and ended: "List.find (\<lambda>r. sr_runId r = pr_runId run) runs = Some old" "sr_status old \<noteq> Run_Running"
  shows "seen_run (pr_runId run) (snd (settle z schedule run status reason taskId now s)) = Some (sr_status old) \<and>
    seen_outcome z (sc_scheduleId schedule) (snd (settle z schedule run status reason taskId now s)) = Some status \<and>
    ev_type (last (rn_events (snd (settle z schedule run status reason taskId now s)))) = settled_event status \<and>
    (status \<in> {Run_Completed, Run_Failed, Run_Blocked, Run_Cancelled} \<longrightarrow>
     (\<exists>ev. rn_events (snd (settle z schedule run status reason taskId now s)) = rn_events s @ [ev] \<and>
        audited_as (sc_scheduleId schedule) (pr_runId run) status reason ev))"
proof -
  have i: "pr_runId run \<noteq> ''index''" using ids by (simp add: proper_id_def)
  have "changed_in sr_runId (pr_runId run) (finish_change status reason taskId now) runs = None"
    using ended by (simp add: changed_in_def finish_change_def)
  then have same: "stores z (snd (finishRun (pr_runId run) status reason taskId now (rn_store s))) rs runs"
    using finish_result [OF held i, of status reason taskId now] by simp
  have wrote: "close_run (sc_scheduleId schedule) run status reason taskId now (rn_store s) =
      (True, snd (finishRun (pr_runId run) status reason taskId now (rn_store s)))"
    by (simp add: close_run_def get_run_keeps [OF held] ended(1))
  from settle_closed [OF wrote same found] settle_event [OF wrote, of z] ids(2) ended(1) show ?thesis
    by (auto simp: proper_id_def)
qed

text \<open>The run of the store's witness after a cancellation.\<close>

definition cancelled_runner :: runner_state where
  "cancelled_runner = nightly_runner\<lparr>rn_store := snd (startRun ''srun_s_9'' ''s'' 9 Run_Cancelled (Some Reason_Cancelled) None 9 nightly_store)\<rparr>"

theorem settle_after_end_disagrees_witness:
  "seen_outcome (fixed_zone 0) ''s'' (snd (settle (fixed_zone 0) nightly
     \<lparr>pr_runId = ''srun_s_9'', pr_occurrenceAt = 9, pr_sessionId = ''x'', pr_attended = True\<rparr>
     Run_Completed None (Some ''t'') 10 cancelled_runner)) = Some Run_Completed \<and>
   seen_run ''srun_s_9'' (snd (settle (fixed_zone 0) nightly
     \<lparr>pr_runId = ''srun_s_9'', pr_occurrenceAt = 9, pr_sessionId = ''x'', pr_attended = True\<rparr>
     Run_Completed None (Some ''t'') 10 cancelled_runner)) = Some Run_Cancelled"
proof -
  obtain runs r where "stores (fixed_zone 0) (rn_store cancelled_runner) [nightly] runs"
      "List.find (\<lambda>r. sr_runId r = ''srun_s_9'') runs = Some r" "sr_status r = Run_Cancelled"
    using startRun_keeps [OF nightly_kept, of "''srun_s_9''" "''s''" 9 Run_Cancelled "Some Reason_Cancelled" None 9]
    by (auto simp: cancelled_runner_def nightly_runner_def)
  with settle_after_end_disagrees [OF this(1), of "\<lparr>pr_runId = ''srun_s_9'', pr_occurrenceAt = 9, pr_sessionId = ''x'', pr_attended = True\<rparr>"
      nightly nightly r Run_Completed None "Some ''t''" 10]
  show ?thesis by (simp add: nightly_def proper_id_def)
qed

subsection \<open>Recovery\<close>

lemma interrupt_keeps:
  assumes held: "stores (re_zone env) (rn_store s) rs runs" and run: "proper_id (sr_runId run)" "proper_id (sr_scheduleId run)"
  shows "\<exists>rs' runs'. stores (re_zone env) (rn_store (interrupt_run env now run s)) rs' runs' \<and>
    {r \<in> set runs'. sr_status r = Run_Running} \<subseteq> {r \<in> set runs. sr_status r = Run_Running} - {r. sr_runId r = sr_runId run}"
proof -
  have ids: "sr_runId run \<noteq> ''index''" "sr_scheduleId run \<noteq> ''index''" using run by (simp_all add: proper_id_def)
  let ?f = "finish_change Run_Failed (Some Reason_Interrupted) None now"
  let ?runs = "case changed_in sr_runId (sr_runId run) ?f runs of None \<Rightarrow> runs | Some r \<Rightarrow> updated_list sr_runId r runs"
  note finished = finish_result [OF held ids(1), of Run_Failed "Some Reason_Interrupted" None now]
  have "stores (re_zone env) (rn_store (interrupt_run env now run s))
      (case changed_in sc_scheduleId (sr_scheduleId run) (outcome_change now Run_Failed (Some Reason_Interrupted) now) rs of
         None \<Rightarrow> rs | Some r \<Rightarrow> updated_list sc_scheduleId r rs) ?runs"
    using outcome_result [OF finished ids(2), of now Run_Failed "Some Reason_Interrupted" now]
    by (simp add: interrupt_run_def Let_def)
  moreover have "r \<in> set runs \<and> sr_runId r \<noteq> sr_runId run" if r: "r \<in> set ?runs" "sr_status r = Run_Running" for r
  proof (cases "List.find (\<lambda>r. sr_runId r = sr_runId run) runs")
    case None
    then have "changed_in sr_runId (sr_runId run) ?f runs = None" "sr_runId run \<notin> sr_runId ` set runs"
      by (simp add: changed_in_def) (use None in \<open>auto simp: find_None_iff\<close>)
    then show ?thesis using r by (auto simp: image_iff)
  next
    case (Some old)
    have distinct: "distinct (map sr_runId runs)"
      using kept_parts(2) [OF held] unfolding collection_def holds_def runs.map_enc(1) by blast
    have unique: "x = old" if "x \<in> set runs" "sr_runId x = sr_runId run" for x
      using distinct that find_ident [OF Some] by (metis distinct_map inj_onD)
    show ?thesis
    proof (cases "sr_status old = Run_Running")
      case True
      then obtain new where new: "changed_in sr_runId (sr_runId run) ?f runs = Some new" "sr_status new = Run_Failed"
          "sr_runId new = sr_runId run"
        using Some find_ident [OF Some] by (auto simp: changed_in_def finish_change_def)
      then show ?thesis using r unique by (auto simp: updated_list_def split: if_splits)
    next
      case False
      then have "changed_in sr_runId (sr_runId run) ?f runs = None" using Some by (simp add: changed_in_def finish_change_def)
      then show ?thesis using r unique False by auto
    qed
  qed
  ultimately show ?thesis by blast
qed

lemma interrupt_all:
  "stores (re_zone env) (rn_store s) rs runs \<Longrightarrow> \<forall>r \<in> set stale. proper_id (sr_runId r) \<and> proper_id (sr_scheduleId r) \<Longrightarrow>
    {r \<in> set runs. sr_status r = Run_Running} \<subseteq> {r. sr_runId r \<in> sr_runId ` set stale} \<Longrightarrow>
    \<exists>rs' runs'. stores (re_zone env) (rn_store (fold (interrupt_run env now) stale s)) rs' runs' \<and>
      (\<forall>r \<in> set runs'. sr_status r \<noteq> Run_Running)"
proof (induction stale arbitrary: s rs runs)
  case (Cons run stale)
  obtain rs1 runs1 where one: "stores (re_zone env) (rn_store (interrupt_run env now run s)) rs1 runs1"
      "{r \<in> set runs1. sr_status r = Run_Running} \<subseteq> {r \<in> set runs. sr_status r = Run_Running} - {r. sr_runId r = sr_runId run}"
    using interrupt_keeps [OF Cons.prems(1)] Cons.prems(2) by fastforce
  have "{r \<in> set runs1. sr_status r = Run_Running} \<subseteq> {r. sr_runId r \<in> sr_runId ` set stale}"
    using one(2) Cons.prems(3) by fastforce
  from Cons.IH [OF one(1) _ this] Cons.prems(2) show ?case by simp
qed auto

text \<open>
  C18. Recovery closes every run of a dead worker: afterwards no stored run is marked running, and the number
  reported is the number that was. Nothing is fired or executed by it.
\<close>

theorem recover_closes_all:
  assumes held: "stores (re_zone env) (rn_store s) rs runs"
  shows "\<exists>rs' runs'. stores (re_zone env) (rn_store (snd (recover_runs env now s))) rs' runs' \<and>
    (\<forall>r \<in> set runs'. sr_status r \<noteq> Run_Running) \<and>
    fst (recover_runs env now s) = length (filter (\<lambda>r. sr_status r = Run_Running) runs) \<and>
    rn_fired (snd (recover_runs env now s)) = rn_fired s \<and> rn_calls (snd (recover_runs env now s)) = rn_calls s"
proof -
  let ?stale = "fst (listRunningRuns (rn_store s))"
  have listed: "listRunningRuns (rn_store s) = (filter (\<lambda>r. sr_status r = Run_Running) (sort_key (\<lambda>r. - sr_occurrenceAt r) runs), rn_store s)"
    by (simp add: listRunningRuns_def listRuns_keeps [OF held])
  have "\<forall>r \<in> set ?stale. proper_id (sr_runId r) \<and> proper_id (sr_scheduleId r)"
    using kept_run_ids [OF held] by (simp add: listed)
  moreover have "{r \<in> set runs. sr_status r = Run_Running} \<subseteq> {r. sr_runId r \<in> sr_runId ` set ?stale}"
    by (auto simp: listed)
  ultimately obtain rs' runs' where "stores (re_zone env) (rn_store (fold (interrupt_run env now) ?stale s)) rs' runs'"
      "\<forall>r \<in> set runs'. sr_status r \<noteq> Run_Running"
    using interrupt_all [OF held] by blast
  moreover have "length ?stale = length (filter (\<lambda>r. sr_status r = Run_Running) runs)"
    by (simp add: listed filter_sort)
  moreover have "rn_fired (fold (interrupt_run env now) xs u) = rn_fired u \<and> rn_calls (fold (interrupt_run env now) xs u) = rn_calls u" for xs u
    by (induction xs arbitrary: u) (simp_all add: interrupt_run_def Let_def)
  ultimately show ?thesis by (auto simp: recover_runs_def case_prod_beta listed)
qed

text \<open>The run of the store's witness while it runs, attended.\<close>

definition attended_runner :: runner_state where
  "attended_runner = nightly_runner\<lparr>rn_store := snd (startRun ''srun_s_9'' ''s'' 9 Run_Running None None 9 nightly_store)\<rparr>"

theorem recover_closes_all_witness:
  "seen_run ''srun_s_9'' attended_runner = Some Run_Running \<and>
   (\<exists>rs' runs'. stores (fixed_zone 0) (rn_store (snd (recover_runs nightly_env 7 attended_runner))) rs' runs' \<and>
     (\<forall>r \<in> set runs'. sr_status r \<noteq> Run_Running))"
proof -
  from startRun_keeps [OF nightly_kept, of "''srun_s_9''" "''s''" 9 Run_Running None None 9]
  obtain runs r where held: "stores (re_zone nightly_env) (rn_store attended_runner) [nightly] runs"
      and running: "List.find (\<lambda>r. sr_runId r = ''srun_s_9'') runs = Some r" "sr_status r = Run_Running"
    by (auto simp: attended_runner_def nightly_runner_def nightly_env_def)
  from recover_closes_all [OF held, of 7] running show ?thesis
    by (auto simp: seen_run_def get_run_keeps [OF held]) (auto simp: nightly_env_def)
qed

text \<open>
  Cancelling a run whose task the runner has not observed, as it never observes the task of an attended
  run, asks nobody to stop anything, and yet answers that the run was cancelled and records it so.
\<close>

theorem cancel_unobserved_stops_nothing:
  assumes held: "stores (re_zone env) (rn_store s) rs runs"
    and running: "List.find (\<lambda>r. sr_runId r = runId) runs = Some run" "sr_status run = Run_Running" "sr_taskId run = None"
    and unseen: "rn_tasks s (unattendedSessionIdFor runId) = None"
  shows "fst (cancelRun env runId now s) \<and> rn_cancelled (snd (cancelRun env runId now s)) = rn_cancelled s \<and>
    seen_run runId (snd (cancelRun env runId now s)) = Some Run_Cancelled"
proof -
  have ids: "runId \<noteq> ''index''" "sr_scheduleId run \<noteq> ''index''"
    using kept_run_ids [OF held] find_ident [OF running(1)] by (auto simp: proper_id_def)
  let ?f = "finish_change Run_Cancelled (Some Reason_Cancelled) None now"
  obtain new where new: "changed_in sr_runId runId ?f runs = Some new" "sr_status new = Run_Cancelled" "sr_runId new = runId"
    using running find_ident [OF running(1)] by (auto simp: changed_in_def finish_change_def)
  note finished = finish_result [OF held ids(1), of Run_Cancelled "Some Reason_Cancelled" None now, unfolded new(1) option.case]
  note recorded = outcome_result [OF finished ids(2), of now Run_Cancelled "Some Reason_Cancelled" now]
  have "List.find (\<lambda>r. sr_runId r = runId) (updated_list sr_runId new runs) = Some new"
    using find_image [OF running(1)] new(3) by (simp add: find_updated)
  then show ?thesis
    using running unseen get_run_keeps [OF recorded, of runId] new(2)
    by (simp add: cancelRun_def get_run_keeps [OF held] Let_def seen_run_def) (simp add: emit_event_def)
qed

lemma started_task:
  "get_run runId st = (None, st') \<Longrightarrow> fst (startRun runId j t status reason taskId now st) = Some r \<Longrightarrow> sr_taskId r = taskId"
  by (auto simp: startRun_def Let_def split: prod.splits option.splits)

theorem cancel_unobserved_stops_nothing_witness:
  "fst (cancelRun nightly_env ''srun_s_9'' 10 attended_runner) \<and>
    rn_cancelled (snd (cancelRun nightly_env ''srun_s_9'' 10 attended_runner)) = [] \<and>
    seen_run ''srun_s_9'' (snd (cancelRun nightly_env ''srun_s_9'' 10 attended_runner)) = Some Run_Cancelled"
proof -
  have "sr_taskId r = None" if "fst (startRun ''srun_s_9'' ''s'' 9 Run_Running None None 9 nightly_store) = Some r" for r
    using that started_task [of "''srun_s_9''" nightly_store nightly_store] by (simp add: get_run_keeps [OF nightly_kept])
  with startRun_keeps [OF nightly_kept, of "''srun_s_9''" "''s''" 9 Run_Running None None 9]
  obtain runs r where "stores (re_zone nightly_env) (rn_store attended_runner) [nightly] runs"
      "List.find (\<lambda>r. sr_runId r = ''srun_s_9'') runs = Some r" "sr_status r = Run_Running" "sr_taskId r = None"
    by (auto simp: attended_runner_def nightly_runner_def nightly_env_def)
  from cancel_unobserved_stops_nothing [OF this, of 10]
  show ?thesis by (simp add: attended_runner_def nightly_runner_def)
qed

end
