(* ===== verification/ServerTable.thy ===== *)
theory ServerTable
  imports Interfaces
begin

text \<open>
  The declared schema \<open>server/db/schema.ts\<close> and the engine that enforces it, \<open>MemoryTable\<close> of
  \<open>server/db/memory-store.ts\<close>. A row is an association list of named scalars, a table an association list from
  primary keys (the values of the key columns, which the source renders as JSON) to rows. The prose of the
  schema (\<open>why\<close>, the SQL text of a check, indexes, column types) is left out: only the engine reads the rest.
\<close>

datatype scalar = SStr string | SNum int | SBool bool | SNull

type_synonym row = "(string \<times> scalar) list"

definition col :: "row \<Rightarrow> string \<Rightarrow> scalar" where
  "col r name = (case map_of r name of None \<Rightarrow> SNull | Some v \<Rightarrow> v)"

subsection \<open>Descriptors\<close>

record column_spec =
  cs_name :: string
  cs_nullable :: bool
  cs_writeOnce :: bool

record unique_spec =
  us_name :: string
  us_columns :: "string list"
  us_requires :: "string list"
  us_requiresNull :: "string list"

record foreign_key_spec =
  fk_columns :: "string list"
  fk_table :: string
  fk_target :: "string list"

record check_spec =
  ck_name :: string
  ck_holds :: "(row \<Rightarrow> bool) option"

record table_spec =
  ts_name :: string
  ts_columns :: "column_spec list"
  ts_primaryKey :: "string list"
  ts_unique :: "unique_spec list"
  ts_foreignKeys :: "foreign_key_spec list"
  ts_checks :: "check_spec list"

definition write_once :: "string \<Rightarrow> column_spec" where
  "write_once name = \<lparr>cs_name = name, cs_nullable = False, cs_writeOnce = True\<rparr>"

definition write_once_null :: "string \<Rightarrow> column_spec" where
  "write_once_null name = \<lparr>cs_name = name, cs_nullable = True, cs_writeOnce = True\<rparr>"

definition required :: "string \<Rightarrow> column_spec" where
  "required name = \<lparr>cs_name = name, cs_nullable = False, cs_writeOnce = False\<rparr>"

definition optional_col :: "string \<Rightarrow> column_spec" where
  "optional_col name = \<lparr>cs_name = name, cs_nullable = True, cs_writeOnce = False\<rparr>"

definition references :: "string \<Rightarrow> string \<Rightarrow> foreign_key_spec" where
  "references column target = \<lparr>fk_columns = [column], fk_table = target, fk_target = [''id'']\<rparr>"

definition declared_check :: "string \<Rightarrow> check_spec" where
  "declared_check name = \<lparr>ck_name = name, ck_holds = None\<rparr>"

definition domain_of :: "string \<Rightarrow> string" where
  "domain_of email = (if CHR ''@'' \<in> set email then last (js_split (CHR ''@'') email) else [])"

definition abaUser :: table_spec where
  "abaUser =
     \<lparr>ts_name = ''aba_user'',
      ts_columns = [write_once ''id'', write_once ''created_at'', required ''state'', optional_col ''deleted_at''],
      ts_primaryKey = [''id''], ts_unique = [], ts_foreignKeys = [],
      ts_checks = [declared_check ''aba_user_state_valid'', declared_check ''aba_user_deleted_at_matches_state'']\<rparr>"

definition domain_folded :: "row \<Rightarrow> bool" where
  "domain_folded r =
     (case col r ''email'' of
        SNull \<Rightarrow> True
      | SStr email \<Rightarrow> js_lower (domain_of email) = domain_of email
      | _ \<Rightarrow> False)"

definition authIdentity :: table_spec where
  "authIdentity =
     \<lparr>ts_name = ''auth_identity'',
      ts_columns =
        [write_once ''id'', write_once ''aba_user_id'', write_once ''kind'', write_once_null ''subject'', optional_col ''email'',
         required ''email_verified'', write_once ''linked_at'', write_once_null ''linked_via'', optional_col ''last_used_at''],
      ts_primaryKey = [''id''],
      ts_unique =
        [\<lparr>us_name = ''auth_identity_subject_key'', us_columns = [''kind'', ''subject''], us_requires = [''subject''], us_requiresNull = []\<rparr>,
         \<lparr>us_name = ''auth_identity_email_key'', us_columns = [''kind'', ''email''], us_requires = [''email'', ''email_verified''],
          us_requiresNull = [''subject'']\<rparr>],
      ts_foreignKeys = [references ''aba_user_id'' ''aba_user''],
      ts_checks =
        [declared_check ''auth_identity_kind_valid'', declared_check ''auth_identity_has_an_identifier'',
         \<lparr>ck_name = ''auth_identity_email_domain_lowercase'', ck_holds = Some domain_folded\<rparr>]\<rparr>"

definition session_spec :: table_spec where
  "session_spec =
     \<lparr>ts_name = ''session'',
      ts_columns =
        [write_once ''id'', write_once ''aba_user_id'', optional_col ''auth_identity_id'', write_once ''family_id'',
         required ''refresh_digest'', required ''digest_version'', write_once ''issued_at'', required ''expires_at'',
         optional_col ''rotated_at'', optional_col ''revoked_at'', optional_col ''revoked_reason'', required ''last_seen_at''],
      ts_primaryKey = [''id''],
      ts_unique = [\<lparr>us_name = ''session_refresh_digest_key'', us_columns = [''refresh_digest''], us_requires = [], us_requiresNull = []\<rparr>],
      ts_foreignKeys = [references ''aba_user_id'' ''aba_user'', references ''auth_identity_id'' ''auth_identity''],
      ts_checks = [declared_check ''session_revoked_reason_matches_state'']\<rparr>"

definition device :: table_spec where
  "device =
     \<lparr>ts_name = ''device'',
      ts_columns =
        [write_once ''aba_user_id'', write_once ''device_id'', write_once ''registered_at'', required ''last_seen_at'',
         optional_col ''retired_at'', optional_col ''reactivated_at''],
      ts_primaryKey = [''aba_user_id'', ''device_id''], ts_unique = [],
      ts_foreignKeys = [references ''aba_user_id'' ''aba_user''], ts_checks = []\<rparr>"

definition loginChallenge :: table_spec where
  "loginChallenge =
     \<lparr>ts_name = ''login_challenge'',
      ts_columns =
        [write_once ''id'', write_once ''method'', write_once ''purpose'', write_once_null ''aba_user_id'', write_once_null ''state'',
         write_once_null ''nonce'', write_once_null ''pkce_verifier'', write_once_null ''redirect_uri'', optional_col ''exchange_digest'',
         optional_col ''resolved_aba_user_id'', optional_col ''resolved_auth_identity_id'', optional_col ''resolved_subject'',
         optional_col ''resolved_email'', required ''attempts'', write_once ''created_at'', required ''expires_at'',
         optional_col ''consumed_at''],
      ts_primaryKey = [''id''],
      ts_unique =
        [\<lparr>us_name = ''login_challenge_state_key'', us_columns = [''state''], us_requires = [''state''], us_requiresNull = []\<rparr>,
         \<lparr>us_name = ''login_challenge_exchange_key'', us_columns = [''exchange_digest''], us_requires = [''exchange_digest''],
          us_requiresNull = []\<rparr>],
      ts_foreignKeys = [references ''aba_user_id'' ''aba_user''],
      ts_checks =
        [declared_check ''login_challenge_method_valid'', declared_check ''login_challenge_purpose_valid'',
         declared_check ''login_challenge_link_has_target'']\<rparr>"

definition SCHEMA :: "table_spec list" where
  "SCHEMA = [abaUser, authIdentity, session_spec, device, loginChallenge]"

subsection \<open>The engine\<close>

type_synonym table_rows = "(scalar list \<times> row) list"

datatype violation = Violation (v_constraint: string) (v_table: string)

definition constraintApplies :: "row \<Rightarrow> unique_spec \<Rightarrow> bool" where
  "constraintApplies r u =
     (list_all (\<lambda>name. col r name \<noteq> SNull \<and> col r name \<noteq> SBool False) (us_requires u) \<and>
      list_all (\<lambda>name. col r name = SNull) (us_requiresNull u))"

definition keyOf :: "row \<Rightarrow> string list \<Rightarrow> scalar list" where
  "keyOf r columns = map (col r) columns"

definition column_names :: "table_spec \<Rightarrow> string list" where
  "column_names spec = map cs_name (ts_columns spec)"

definition validateShape :: "table_spec \<Rightarrow> row \<Rightarrow> violation option" where
  "validateShape spec r =
     (case List.find (\<lambda>(name, v). name \<notin> set (column_names spec)) r of
        Some (name, v) \<Rightarrow> Some (Violation (''unknown column '' @ name) (ts_name spec))
      | None \<Rightarrow>
          (case List.find (\<lambda>c. map_of r (cs_name c) = None \<or> map_of r (cs_name c) = Some SNull \<and> \<not> cs_nullable c) (ts_columns spec) of
             None \<Rightarrow> None
           | Some c \<Rightarrow>
               Some (Violation (if map_of r (cs_name c) = None then ''missing column '' @ cs_name c
                 else cs_name c @ '' is NOT NULL'') (ts_name spec))))"

text \<open>The parent table's rows, or \<open>None\<close> for a table that does not exist.\<close>

definition fk_violated :: "(string \<Rightarrow> row list option) \<Rightarrow> row \<Rightarrow> foreign_key_spec \<Rightarrow> bool" where
  "fk_violated parent r fk =
     (SNull \<notin> set (keyOf r (fk_columns fk)) \<and>
      (case parent (fk_table fk) of
         None \<Rightarrow> True
       | Some rows \<Rightarrow> \<not> (\<exists>candidate \<in> set rows. keyOf candidate (fk_target fk) = keyOf r (fk_columns fk))))"

definition validateForeignKeys :: "table_spec \<Rightarrow> (string \<Rightarrow> row list option) \<Rightarrow> row \<Rightarrow> violation option" where
  "validateForeignKeys spec parent r =
     map_option (\<lambda>fk. Violation (''foreign key '' @ concat (fk_columns fk)) (ts_name spec))
       (List.find (fk_violated parent r) (ts_foreignKeys spec))"

definition unique_violated :: "table_rows \<Rightarrow> row \<Rightarrow> scalar list option \<Rightarrow> unique_spec \<Rightarrow> bool" where
  "unique_violated rows r existingPk u =
     (constraintApplies r u \<and>
      (\<exists>(pk, stored) \<in> set rows. Some pk \<noteq> existingPk \<and> constraintApplies stored u \<and>
         keyOf stored (us_columns u) = keyOf r (us_columns u)))"

definition validateUnique :: "table_spec \<Rightarrow> table_rows \<Rightarrow> row \<Rightarrow> scalar list option \<Rightarrow> violation option" where
  "validateUnique spec rows r existingPk =
     map_option (\<lambda>u. Violation (us_name u) (ts_name spec)) (List.find (unique_violated rows r existingPk) (ts_unique spec))"

definition check_violated :: "row \<Rightarrow> check_spec \<Rightarrow> bool" where
  "check_violated r c = (case ck_holds c of None \<Rightarrow> False | Some holds \<Rightarrow> \<not> holds r)"

definition validateChecks :: "table_spec \<Rightarrow> row \<Rightarrow> violation option" where
  "validateChecks spec r =
     map_option (\<lambda>c. Violation (ck_name c) (ts_name spec)) (List.find (check_violated r) (ts_checks spec))"

text \<open>The first of a series of checks that objects.\<close>

definition or_violation :: "violation option \<Rightarrow> violation option \<Rightarrow> violation option" where
  "or_violation a b = (case a of None \<Rightarrow> b | Some v \<Rightarrow> Some v)"

definition table_insert ::
  "table_spec \<Rightarrow> (string \<Rightarrow> row list option) \<Rightarrow> row \<Rightarrow> table_rows \<Rightarrow> violation + table_rows" where
  "table_insert spec parent r rows =
     (let pk = keyOf r (ts_primaryKey spec) in
      case or_violation (validateShape spec r)
          (or_violation (if map_of rows pk \<noteq> None then Some (Violation (ts_name spec @ ''_pkey'') (ts_name spec)) else None)
          (or_violation (validateChecks spec r)
          (or_violation (validateUnique spec rows r None) (validateForeignKeys spec parent r)))) of
        Some v \<Rightarrow> Inl v
      | None \<Rightarrow> Inr (rows @ [(pk, r)]))"

definition patch_violation :: "table_spec \<Rightarrow> row \<Rightarrow> violation option" where
  "patch_violation spec patch =
     (case List.find (\<lambda>(name, v). case List.find (\<lambda>c. cs_name c = name) (ts_columns spec) of
          None \<Rightarrow> True | Some c \<Rightarrow> cs_writeOnce c) patch of
        None \<Rightarrow> None
      | Some (name, v) \<Rightarrow>
          Some (Violation (if name \<in> set (column_names spec) then name @ '' is write-once'' else ''unknown column '' @ name)
            (ts_name spec)))"

definition patched :: "row \<Rightarrow> row \<Rightarrow> row" where
  "patched current patch = AList.merge current patch"

definition table_update :: "table_spec \<Rightarrow> scalar list \<Rightarrow> row \<Rightarrow> table_rows \<Rightarrow> violation + table_rows" where
  "table_update spec pk patch rows =
     (case map_of rows pk of
        None \<Rightarrow> Inr rows
      | Some current \<Rightarrow>
          (let r = patched current patch in
           case or_violation (patch_violation spec patch)
               (or_violation (validateShape spec r)
               (or_violation (validateChecks spec r) (validateUnique spec rows r (Some pk)))) of
             Some v \<Rightarrow> Inl v
           | None \<Rightarrow> Inr (AList.update pk r rows)))"

definition table_delete :: "scalar list \<Rightarrow> table_rows \<Rightarrow> table_rows" where
  "table_delete pk rows = AList.delete pk rows"

definition table_get :: "scalar list \<Rightarrow> table_rows \<Rightarrow> row option" where
  "table_get pk rows = map_of rows pk"

definition table_all :: "table_rows \<Rightarrow> row list" where
  "table_all rows = map snd rows"

subsection \<open>What the engine keeps\<close>

definition unique_ok :: "table_spec \<Rightarrow> table_rows \<Rightarrow> bool" where
  "unique_ok spec rows =
     (\<forall>u \<in> set (ts_unique spec). \<forall>(k1, r1) \<in> set rows. \<forall>(k2, r2) \<in> set rows.
        k1 \<noteq> k2 \<and> constraintApplies r1 u \<and> constraintApplies r2 u \<longrightarrow> keyOf r1 (us_columns u) \<noteq> keyOf r2 (us_columns u))"

definition row_ok :: "table_spec \<Rightarrow> row \<Rightarrow> bool" where
  "row_ok spec r = (validateShape spec r = None \<and> validateChecks spec r = None)"

definition table_ok :: "table_spec \<Rightarrow> table_rows \<Rightarrow> bool" where
  "table_ok spec rows =
     (distinct (map fst rows) \<and> (\<forall>(k, r) \<in> set rows. k = keyOf r (ts_primaryKey spec) \<and> row_ok spec r) \<and> unique_ok spec rows)"

text \<open>A descriptor is sound where its key columns are declared and write-once.\<close>

definition spec_ok :: "table_spec \<Rightarrow> bool" where
  "spec_ok spec =
     (distinct (column_names spec) \<and>
      (\<forall>name \<in> set (ts_primaryKey spec). \<exists>c \<in> set (ts_columns spec). cs_name c = name \<and> cs_writeOnce c))"

lemma schema_sound: "list_all spec_ok SCHEMA"
  by (simp add: SCHEMA_def spec_ok_def column_names_def abaUser_def authIdentity_def session_spec_def device_def
      loginChallenge_def write_once_def write_once_null_def required_def optional_col_def)

lemma or_violation_None [simp]: "or_violation a b = None \<longleftrightarrow> a = None \<and> b = None"
  by (auto simp: or_violation_def split: option.split)

lemma or_violation_simps [simp]: "or_violation None b = b" "or_violation (Some v) b = Some v"
  by (simp_all add: or_violation_def)

lemma validateUnique_None:
  "validateUnique spec rows r except = None \<longleftrightarrow> (\<forall>u \<in> set (ts_unique spec). \<not> unique_violated rows r except u)"
  by (auto simp: validateUnique_def find_None_iff)

lemma insert_result:
  "table_insert spec parent r rows = Inr rows' \<longleftrightarrow>
    rows' = rows @ [(keyOf r (ts_primaryKey spec), r)] \<and> row_ok spec r \<and> map_of rows (keyOf r (ts_primaryKey spec)) = None \<and>
    validateUnique spec rows r None = None \<and> validateForeignKeys spec parent r = None"
  by (auto simp: table_insert_def Let_def row_ok_def split: option.splits if_splits)

lemma insert_ok:
  assumes ok: "table_ok spec rows" and step: "table_insert spec parent r rows = Inr rows'"
  shows "table_ok spec rows'"
proof -
  have r: "rows' = rows @ [(keyOf r (ts_primaryKey spec), r)]" "row_ok spec r"
    "map_of rows (keyOf r (ts_primaryKey spec)) = None" "validateUnique spec rows r None = None"
    using step by (simp_all add: insert_result)
  have "keyOf r (ts_primaryKey spec) \<notin> fst ` set rows" using r(3) by (simp add: map_of_eq_None_iff)
  moreover have "unique_ok spec rows'"
    using ok r(4) unfolding unique_ok_def table_ok_def r(1) validateUnique_None unique_violated_def by fastforce
  ultimately show ?thesis using ok r by (auto simp: table_ok_def)
qed

lemma col_patched: "col (patched r p) name = (case map_of p name of None \<Rightarrow> col r name | Some v \<Rightarrow> v)"
  by (simp add: col_def patched_def merge_conv' map_add_def split: option.split)

lemma patch_allowed:
  assumes "patch_violation spec patch = None" and "distinct (column_names spec)" and "map_of patch name = Some v"
  shows "\<exists>c \<in> set (ts_columns spec). cs_name c = name \<and> \<not> cs_writeOnce c"
proof -
  have "(name, v) \<in> set patch" using map_of_SomeD [OF assms(3)] .
  then have "\<not> (case List.find (\<lambda>c. cs_name c = name) (ts_columns spec) of None \<Rightarrow> True | Some c \<Rightarrow> cs_writeOnce c)"
    using assms(1) by (auto simp: patch_violation_def find_None_iff split: option.splits prod.splits)
  then show ?thesis by (auto split: option.splits dest: find_Some_in)
qed

lemma patch_keeps:
  assumes "patch_violation spec patch = None" and d: "distinct (column_names spec)"
    and c: "c \<in> set (ts_columns spec)" "cs_writeOnce c"
  shows "col (patched r patch) (cs_name c) = col r (cs_name c)"
proof (cases "map_of patch (cs_name c)")
  case (Some v)
  then obtain c' where "c' \<in> set (ts_columns spec)" "cs_name c' = cs_name c" "\<not> cs_writeOnce c'"
    using patch_allowed [OF assms(1) d] by blast
  then have "c' = c" using d c(1) by (auto simp: column_names_def distinct_map dest: inj_onD)
  then show ?thesis using c(2) \<open>\<not> cs_writeOnce c'\<close> by simp
qed (simp add: col_patched)

lemma update_result:
  "table_update spec pk patch rows = Inr rows' \<longleftrightarrow>
    (case map_of rows pk of
       None \<Rightarrow> rows' = rows
     | Some r \<Rightarrow> rows' = AList.update pk (patched r patch) rows \<and> patch_violation spec patch = None \<and>
         row_ok spec (patched r patch) \<and> validateUnique spec rows (patched r patch) (Some pk) = None)"
  by (auto simp: table_update_def Let_def row_ok_def split: option.splits)

lemma update_keeps_key:
  assumes "spec_ok spec" and "patch_violation spec patch = None"
  shows "keyOf (patched r patch) (ts_primaryKey spec) = keyOf r (ts_primaryKey spec)"
  using assms patch_keeps [OF assms(2)] by (fastforce simp: keyOf_def spec_ok_def)

lemma in_update: "x \<in> set (AList.update k v m) \<Longrightarrow> distinct (map fst m) \<Longrightarrow> x = (k, v) \<or> x \<in> set m \<and> fst x \<noteq> k"
  by (induction m) (auto split: if_splits simp: rev_image_eqI)

lemma update_ok:
  assumes ok: "table_ok spec rows" and spec: "spec_ok spec" and step: "table_update spec pk patch rows = Inr rows'"
  shows "table_ok spec rows'"
proof (cases "map_of rows pk")
  case None
  then show ?thesis using ok step by (simp add: update_result)
next
  case (Some r)
  let ?r = "patched r patch"
  have new: "rows' = AList.update pk ?r rows" "patch_violation spec patch = None" "row_ok spec ?r"
    "validateUnique spec rows ?r (Some pk) = None"
    using step Some by (simp_all add: update_result)
  have d: "distinct (map fst rows)" using ok by (simp add: table_ok_def)
  have key: "pk = keyOf r (ts_primaryKey spec)" using ok map_of_SomeD [OF Some] by (auto simp: table_ok_def)
  have member: "x = (pk, ?r) \<or> x \<in> set rows \<and> fst x \<noteq> pk" if "x \<in> set rows'" for x
    using that d unfolding new(1) by (rule in_update)
  have clash: "\<not> (constraintApplies ?r u \<and> constraintApplies stored u \<and> keyOf stored (us_columns u) = keyOf ?r (us_columns u))"
    if "u \<in> set (ts_unique spec)" "(k, stored) \<in> set rows" "k \<noteq> pk" for u k stored
    using new(4) that unfolding validateUnique_None unique_violated_def by fastforce
  have "unique_ok spec rows'"
    unfolding unique_ok_def
  proof (intro ballI, clarify)
    fix u k1 r1 k2 r2
    assume u: "u \<in> set (ts_unique spec)" and in1: "(k1, r1) \<in> set rows'" and in2: "(k2, r2) \<in> set rows'" and ne: "k1 \<noteq> k2"
      and applies: "constraintApplies r1 u" "constraintApplies r2 u" and same: "keyOf r1 (us_columns u) = keyOf r2 (us_columns u)"
    from member [OF in1] member [OF in2] ne consider
        "(k1, r1) = (pk, ?r)" "(k2, r2) \<in> set rows" "k2 \<noteq> pk" | "(k2, r2) = (pk, ?r)" "(k1, r1) \<in> set rows" "k1 \<noteq> pk"
      | "(k1, r1) \<in> set rows" "(k2, r2) \<in> set rows" by auto
    then show False
    proof cases
      case 1
      then show ?thesis using clash [OF u 1(2,3)] applies same by simp
    next
      case 2
      then show ?thesis using clash [OF u 2(2,3)] applies same by simp
    next
      case 3
      then show ?thesis using ok u ne applies same unfolding table_ok_def unique_ok_def by blast
    qed
  qed
  moreover have "\<forall>(k, r) \<in> set rows'. k = keyOf r (ts_primaryKey spec) \<and> row_ok spec r"
    using member ok new(3) update_keeps_key [OF spec new(2), of r] key by (fastforce simp: table_ok_def)
  ultimately show ?thesis using d by (simp add: table_ok_def new(1) js_map_distinct_update)
qed

lemma delete_table_ok: "table_ok spec rows \<Longrightarrow> table_ok spec (table_delete pk rows)"
proof -
  assume ok: "table_ok spec rows"
  have "set (AList.delete pk rows) \<subseteq> set rows" by (induction rows) auto
  then show ?thesis
    using ok unfolding table_ok_def unique_ok_def table_delete_def by (auto simp: js_map_distinct_delete) blast+
qed

subsection \<open>A table under any history\<close>

datatype table_op = TInsert row | TUpdate "scalar list" row | TDelete "scalar list"

text \<open>An operation that throws leaves the table as it found it.\<close>

fun table_step :: "table_spec \<Rightarrow> (string \<Rightarrow> row list option) \<Rightarrow> table_op \<Rightarrow> table_rows \<Rightarrow> table_rows" where
  "table_step spec parent (TInsert r) rows = (case table_insert spec parent r rows of Inl v \<Rightarrow> rows | Inr rows' \<Rightarrow> rows')"
| "table_step spec parent (TUpdate pk patch) rows = (case table_update spec pk patch rows of Inl v \<Rightarrow> rows | Inr rows' \<Rightarrow> rows')"
| "table_step spec parent (TDelete pk) rows = table_delete pk rows"

definition table_run :: "table_spec \<Rightarrow> (string \<Rightarrow> row list option) \<Rightarrow> table_op list \<Rightarrow> table_rows \<Rightarrow> table_rows" where
  "table_run spec parent = fold (table_step spec parent)"

lemma table_step_ok: "table_ok spec rows \<Longrightarrow> spec_ok spec \<Longrightarrow> table_ok spec (table_step spec parent op rows)"
  by (cases op) (auto split: sum.split intro: insert_ok update_ok delete_table_ok)

lemma table_run_ok: "table_ok spec rows \<Longrightarrow> spec_ok spec \<Longrightarrow> table_ok spec (table_run spec parent ops rows)"
  unfolding table_run_def by (induction ops arbitrary: rows) (simp_all add: table_step_ok)

text \<open>The write-once columns of a row agree with those of another.\<close>

definition same_identity :: "table_spec \<Rightarrow> row \<Rightarrow> row \<Rightarrow> bool" where
  "same_identity spec a b = list_all (\<lambda>c. cs_writeOnce c \<longrightarrow> col a (cs_name c) = col b (cs_name c)) (ts_columns spec)"

lemma table_step_keeps_row:
  assumes d: "distinct (column_names spec)" and r: "map_of rows pk = Some r" and op: "op \<noteq> TDelete pk"
  shows "\<exists>r'. map_of (table_step spec parent op rows) pk = Some r' \<and> same_identity spec r r'"
proof -
  have refl: "same_identity spec r r" by (simp add: same_identity_def list_all_iff)
  show ?thesis
  proof (cases op)
    case (TInsert n)
    then show ?thesis using r refl by (auto simp: insert_result map_add_def split: sum.split)
  next
    case (TUpdate k patch)
    have kept: "same_identity spec r (patched r patch)" if "patch_violation spec patch = None"
      using patch_keeps [OF that d] by (simp add: same_identity_def list_all_iff)
    show ?thesis
      using r refl kept TUpdate by (cases "k = pk") (auto simp: update_result update_conv' split: sum.split option.splits)
  next
    case (TDelete k)
    then show ?thesis using r refl op by (simp add: table_delete_def delete_conv')
  qed
qed

lemma same_identity_trans: "same_identity spec a b \<Longrightarrow> same_identity spec b c \<Longrightarrow> same_identity spec a c"
  by (auto simp: same_identity_def list_all_iff)

lemma table_run_keeps_row:
  assumes d: "distinct (column_names spec)" and r: "map_of rows pk = Some r" and op: "TDelete pk \<notin> set ops"
  shows "\<exists>r'. map_of (table_run spec parent ops rows) pk = Some r' \<and> same_identity spec r r'"
  using r op
proof (induction ops arbitrary: rows r)
  case Nil
  then show ?case by (simp add: table_run_def same_identity_def list_all_iff)
next
  case (Cons x ops)
  then obtain r1 where "map_of (table_step spec parent x rows) pk = Some r1" "same_identity spec r r1"
    using table_step_keeps_row [OF d Cons.prems(1), of x parent] by auto
  then show ?case using Cons.IH [of "table_step spec parent x rows" r1] Cons.prems(2) same_identity_trans
    by (fastforce simp: table_run_def)
qed

lemma SCHEMA_spec_ok: "spec \<in> set SCHEMA \<Longrightarrow> spec_ok spec"
  using schema_sound by (auto simp: list_all_iff)

lemma empty_table_ok: "table_ok spec []"
  by (simp add: table_ok_def unique_ok_def)

text \<open>
  Every constraint the schema declares holds in every table at all times, whatever was inserted, patched or
  deleted and whatever the engine refused on the way: rows are filed under their own primary key, have exactly
  the declared columns, no null where none is allowed, satisfy the executable checks, and no two rows that a
  unique constraint applies to share its columns; and a row that is not deleted keeps every write-once column
  (its id, its owner, its session family) exactly as it was inserted.
\<close>

theorem table_constraints_kept:
  assumes "spec \<in> set SCHEMA"
  shows "table_ok spec (table_run spec parent history []) \<and>
    (map_of (table_run spec parent history []) pk = Some r \<and> TDelete pk \<notin> set later \<longrightarrow>
      (\<exists>r'. table_get pk (table_run spec parent (history @ later) []) = Some r' \<and> same_identity spec r r'))"
proof -
  have spec: "spec_ok spec" using SCHEMA_spec_ok [OF assms] .
  then have d: "distinct (column_names spec)" by (simp add: spec_ok_def)
  have later: "table_run spec parent (history @ later) [] = table_run spec parent later (table_run spec parent history [])"
    by (simp add: table_run_def)
  show ?thesis
    using table_run_ok [OF empty_table_ok spec] table_run_keeps_row [OF d]
    unfolding later table_get_def by blast
qed

definition sample_device :: row where
  "sample_device = [(''aba_user_id'', SStr ''u''), (''device_id'', SStr ''d''), (''registered_at'', SNum 1), (''last_seen_at'', SNum 1),
     (''retired_at'', SNull), (''reactivated_at'', SNull)]"

definition sample_parents :: "string \<Rightarrow> row list option" where
  "sample_parents t = (if t = ''aba_user'' then Some [[(''id'', SStr ''u'')]] else None)"

lemmas table_eval = table_run_def table_insert_def table_update_def patch_violation_def validateShape_def validateChecks_def
  validateUnique_def validateForeignKeys_def fk_violated_def column_names_def keyOf_def col_def patched_def

lemma table_constraints_kept_witness:
  "table_run device sample_parents [TInsert sample_device] [] = [([SStr ''u'', SStr ''d''], sample_device)] \<and>
    table_run device sample_parents [TInsert sample_device, TUpdate [SStr ''u'', SStr ''d''] [(''device_id'', SStr ''e'')]] [] =
      [([SStr ''u'', SStr ''d''], sample_device)] \<and>
    (\<exists>r'. table_get [SStr ''u'', SStr ''d'']
        (table_run device sample_parents ([TInsert sample_device] @ [TUpdate [SStr ''u'', SStr ''d''] [(''retired_at'', SNum 9)]]) []) = Some r' \<and>
      same_identity device sample_device r' \<and> col r' ''retired_at'' = SNum 9)"
proof -
  have 1: "table_run device sample_parents [TInsert sample_device] [] = [([SStr ''u'', SStr ''d''], sample_device)]"
    by (simp add: table_eval device_def sample_device_def sample_parents_def write_once_def required_def optional_col_def references_def)
  have 2: "table_run device sample_parents [TInsert sample_device, TUpdate [SStr ''u'', SStr ''d''] [(''device_id'', SStr ''e'')]] [] =
      [([SStr ''u'', SStr ''d''], sample_device)]"
    using 1 by (simp add: table_eval device_def sample_device_def sample_parents_def write_once_def required_def optional_col_def references_def)
  let ?ops = "[TUpdate [SStr ''u'', SStr ''d''] [(''retired_at'', SNum 9)]]"
  have 3: "(\<lambda>r. col r ''retired_at'') ` set_option (table_get [SStr ''u'', SStr ''d''] (table_run device sample_parents ([TInsert sample_device] @ ?ops) [])) = {SNum 9}"
    using 1 by (simp add: table_get_def table_eval device_def sample_device_def sample_parents_def write_once_def required_def optional_col_def references_def)
  show ?thesis
    using 1 2 3 table_constraints_kept [of device sample_parents "[TInsert sample_device]" "[SStr ''u'', SStr ''d'']" sample_device ?ops]
    by (simp add: SCHEMA_def) fastforce
qed

end
