(* ===== verification/AuthStore.thy ===== *)
theory AuthStore
  imports ServerTable
begin

text \<open>
  The account store: the row types of \<open>server/db/store.ts\<close> and the operations of \<open>MemoryStore\<close>
  (\<open>server/db/memory-store.ts\<close>) that the account, identity, session and device services call. Rows are records, a
  table is a list in insertion order (the order of the engine's \<open>Map\<close>), and the operations are written on those;
  \<open>session_store_refines\<close> shows that the session operations are the generic engine of ServerTable run on the
  declared \<open>session\<close> table. Each operation runs without yielding, as \<open>MemoryStore.run\<close> makes it.
\<close>

datatype account_state = AccountActive | AccountDeleted

record user_row =
  ur_id :: string
  ur_created_at :: int
  ur_state :: account_state
  ur_deleted_at :: "int option"

datatype identity_kind = GoogleIdentity | EmailIdentity

record identity_row =
  ir_id :: string
  ir_user :: string
  ir_kind :: identity_kind
  ir_subject :: "string option"
  ir_email :: "string option"
  ir_email_verified :: bool
  ir_linked_at :: int
  ir_linked_via :: "string option"
  ir_last_used_at :: "int option"

record session_row =
  sr_id :: string
  sr_user :: string
  sr_identity :: "string option"
  sr_family :: string
  sr_digest :: string
  sr_digest_version :: int
  sr_issued_at :: int
  sr_expires_at :: int
  sr_rotated_at :: "int option"
  sr_revoked_at :: "int option"
  sr_revoked_reason :: "string option"
  sr_last_seen_at :: int

record device_row =
  dr_user :: string
  dr_id :: string
  dr_registered_at :: int
  dr_last_seen_at :: int
  dr_retired_at :: "int option"
  dr_reactivated_at :: "int option"

record auth_store =
  st_users :: "user_row list"
  st_identities :: "identity_row list"
  st_sessions :: "session_row list"
  st_devices :: "device_row list"

definition empty_auth_store :: auth_store where
  "empty_auth_store = \<lparr>st_users = [], st_identities = [], st_sessions = [], st_devices = []\<rparr>"

subsection \<open>Users\<close>

definition getUser :: "string \<Rightarrow> auth_store \<Rightarrow> user_row option" where
  "getUser i st = List.find (\<lambda>u. ur_id u = i) (st_users st)"

definition insertUser :: "user_row \<Rightarrow> auth_store \<Rightarrow> violation + auth_store" where
  "insertUser u st =
     (if getUser (ur_id u) st \<noteq> None then Inl (Violation ''aba_user_pkey'' ''aba_user'')
      else Inr (st\<lparr>st_users := st_users st @ [u]\<rparr>))"

definition markUserDeleted :: "string \<Rightarrow> int \<Rightarrow> auth_store \<Rightarrow> auth_store" where
  "markUserDeleted i time st =
     st\<lparr>st_users := map (\<lambda>u. if ur_id u = i then u\<lparr>ur_state := AccountDeleted, ur_deleted_at := Some time\<rparr> else u) (st_users st)\<rparr>"

subsection \<open>Identities\<close>

definition getIdentity :: "string \<Rightarrow> auth_store \<Rightarrow> identity_row option" where
  "getIdentity i st = List.find (\<lambda>r. ir_id r = i) (st_identities st)"

definition findIdentityBySubject :: "identity_kind \<Rightarrow> string \<Rightarrow> auth_store \<Rightarrow> identity_row option" where
  "findIdentityBySubject kind subject st =
     List.find (\<lambda>r. ir_kind r = kind \<and> ir_subject r = Some subject) (st_identities st)"

definition findIdentityByVerifiedEmail :: "identity_kind \<Rightarrow> string \<Rightarrow> auth_store \<Rightarrow> identity_row option" where
  "findIdentityByVerifiedEmail kind email st =
     List.find (\<lambda>r. ir_kind r = kind \<and> ir_email r = Some email \<and> ir_email_verified r) (st_identities st)"

definition store_identities :: "string \<Rightarrow> auth_store \<Rightarrow> identity_row list" where
  "store_identities user st = filter (\<lambda>r. ir_user r = user) (st_identities st)"

definition touchIdentity :: "string \<Rightarrow> int \<Rightarrow> auth_store \<Rightarrow> auth_store" where
  "touchIdentity i time st =
     st\<lparr>st_identities := map (\<lambda>r. if ir_id r = i then r\<lparr>ir_last_used_at := Some time\<rparr> else r) (st_identities st)\<rparr>"

text \<open>The two partial unique indexes: a subject per kind, and a verified email per kind among rows without a subject.\<close>

definition same_subject :: "identity_row \<Rightarrow> identity_row \<Rightarrow> bool" where
  "same_subject a b \<longleftrightarrow> ir_subject a \<noteq> None \<and> ir_kind a = ir_kind b \<and> ir_subject a = ir_subject b"

definition email_keyed :: "identity_row \<Rightarrow> bool" where
  "email_keyed r \<longleftrightarrow> ir_subject r = None \<and> ir_email r \<noteq> None \<and> ir_email_verified r"

definition same_email :: "identity_row \<Rightarrow> identity_row \<Rightarrow> bool" where
  "same_email a b \<longleftrightarrow> email_keyed a \<and> email_keyed b \<and> ir_kind a = ir_kind b \<and> ir_email a = ir_email b"

definition folded_domain :: "identity_row \<Rightarrow> bool" where
  "folded_domain r = (case ir_email r of None \<Rightarrow> True | Some email \<Rightarrow> js_lower (domain_of email) = domain_of email)"

definition insertIdentity :: "identity_row \<Rightarrow> auth_store \<Rightarrow> violation + auth_store" where
  "insertIdentity r st =
     (let rows = st_identities st; refuse = (\<lambda>name. Inl (Violation name ''auth_identity'')) in
      if getIdentity (ir_id r) st \<noteq> None then refuse ''auth_identity_pkey''
      else if \<not> folded_domain r then refuse ''auth_identity_email_domain_lowercase''
      else if \<exists>s \<in> set rows. same_subject s r then refuse ''auth_identity_subject_key''
      else if \<exists>s \<in> set rows. same_email s r then refuse ''auth_identity_email_key''
      else if getUser (ir_user r) st = None then refuse ''foreign key aba_user_id''
      else Inr (st\<lparr>st_identities := rows @ [r]\<rparr>))"

definition deleteIdentity :: "string \<Rightarrow> auth_store \<Rightarrow> auth_store" where
  "deleteIdentity i st =
     st\<lparr>st_sessions := map (\<lambda>s. if sr_identity s = Some i then s\<lparr>sr_identity := None\<rparr> else s) (st_sessions st),
       st_identities := filter (\<lambda>r. ir_id r \<noteq> i) (st_identities st)\<rparr>"

subsection \<open>Sessions\<close>

definition find_session :: "string \<Rightarrow> session_row list \<Rightarrow> session_row option" where
  "find_session i rows = List.find (\<lambda>s. sr_id s = i) rows"

definition get_session_row :: "string \<Rightarrow> auth_store \<Rightarrow> session_row option" where
  "get_session_row i st = find_session i (st_sessions st)"

definition findSessionByDigest :: "string \<Rightarrow> auth_store \<Rightarrow> session_row option" where
  "findSessionByDigest d st = List.find (\<lambda>s. sr_digest s = d) (st_sessions st)"

definition insertSession :: "session_row \<Rightarrow> auth_store \<Rightarrow> violation + auth_store" where
  "insertSession s st =
     (let refuse = (\<lambda>name. Inl (Violation name ''session'')) in
      if get_session_row (sr_id s) st \<noteq> None then refuse ''session_pkey''
      else if findSessionByDigest (sr_digest s) st \<noteq> None then refuse ''session_refresh_digest_key''
      else if getUser (sr_user s) st = None then refuse ''foreign key aba_user_id''
      else if (case sr_identity s of None \<Rightarrow> False | Some i \<Rightarrow> getIdentity i st = None) then refuse ''foreign key auth_identity_id''
      else Inr (st\<lparr>st_sessions := st_sessions st @ [s]\<rparr>))"

definition with_session :: "string \<Rightarrow> (session_row \<Rightarrow> session_row) \<Rightarrow> session_row list \<Rightarrow> session_row list" where
  "with_session i f = map (\<lambda>s. if sr_id s = i then f s else s)"

definition mark_rotated :: "int \<Rightarrow> session_row \<Rightarrow> session_row" where
  "mark_rotated time s = s\<lparr>sr_rotated_at := Some time\<rparr>"

definition mark_revoked :: "int \<Rightarrow> string \<Rightarrow> session_row \<Rightarrow> session_row" where
  "mark_revoked time reason s = s\<lparr>sr_revoked_at := Some time, sr_revoked_reason := Some reason\<rparr>"

text \<open>The claim reads and writes in one operation: the answer says whether this caller is the one that rotated the row.\<close>

definition claimSessionRotation :: "string \<Rightarrow> int \<Rightarrow> auth_store \<Rightarrow> bool \<times> auth_store" where
  "claimSessionRotation i time st =
     (case get_session_row i st of
        None \<Rightarrow> (False, st)
      | Some s \<Rightarrow>
          if sr_rotated_at s \<noteq> None then (False, st)
          else (True, st\<lparr>st_sessions := with_session i (mark_rotated time) (st_sessions st)\<rparr>))"

definition store_revokeSession :: "string \<Rightarrow> int \<Rightarrow> string \<Rightarrow> auth_store \<Rightarrow> auth_store" where
  "store_revokeSession i time reason st =
     (case get_session_row i st of
        None \<Rightarrow> st
      | Some s \<Rightarrow>
          if sr_revoked_at s = None then st\<lparr>st_sessions := with_session i (mark_revoked time reason) (st_sessions st)\<rparr> else st)"

definition revokeWhere :: "(session_row \<Rightarrow> bool) \<Rightarrow> int \<Rightarrow> string \<Rightarrow> auth_store \<Rightarrow> nat \<times> auth_store" where
  "revokeWhere match time reason st =
     (let targets = filter (\<lambda>s. match s \<and> sr_revoked_at s = None) (st_sessions st) in
      (length targets,
       st\<lparr>st_sessions := fold (\<lambda>t. with_session (sr_id t) (mark_revoked time reason)) targets (st_sessions st)\<rparr>))"

definition revokeFamily :: "string \<Rightarrow> int \<Rightarrow> string \<Rightarrow> auth_store \<Rightarrow> nat \<times> auth_store" where
  "revokeFamily f = revokeWhere (\<lambda>s. sr_family s = f)"

definition revokeAllForUser :: "string \<Rightarrow> int \<Rightarrow> string \<Rightarrow> auth_store \<Rightarrow> nat \<times> auth_store" where
  "revokeAllForUser u = revokeWhere (\<lambda>s. sr_user s = u)"

definition revokeForIdentity :: "string \<Rightarrow> int \<Rightarrow> string \<Rightarrow> auth_store \<Rightarrow> nat \<times> auth_store" where
  "revokeForIdentity i = revokeWhere (\<lambda>s. sr_identity s = Some i)"

definition list_session_rows :: "string \<Rightarrow> auth_store \<Rightarrow> session_row list" where
  "list_session_rows u st = filter (\<lambda>s. sr_user s = u) (st_sessions st)"

subsection \<open>Devices\<close>

definition getDevice :: "string \<Rightarrow> string \<Rightarrow> auth_store \<Rightarrow> device_row option" where
  "getDevice u d st = List.find (\<lambda>r. dr_user r = u \<and> dr_id r = d) (st_devices st)"

definition insertDevice :: "device_row \<Rightarrow> auth_store \<Rightarrow> violation + auth_store" where
  "insertDevice r st =
     (if getDevice (dr_user r) (dr_id r) st \<noteq> None then Inl (Violation ''device_pkey'' ''device'')
      else if getUser (dr_user r) st = None then Inl (Violation ''foreign key aba_user_id'' ''device'')
      else Inr (st\<lparr>st_devices := st_devices st @ [r]\<rparr>))"

definition store_devices :: "string \<Rightarrow> auth_store \<Rightarrow> device_row list" where
  "store_devices u st = filter (\<lambda>r. dr_user r = u) (st_devices st)"

definition with_device :: "string \<Rightarrow> string \<Rightarrow> (device_row \<Rightarrow> device_row) \<Rightarrow> auth_store \<Rightarrow> auth_store" where
  "with_device u d f st = st\<lparr>st_devices := map (\<lambda>r. if dr_user r = u \<and> dr_id r = d then f r else r) (st_devices st)\<rparr>"

definition setDeviceRetired :: "string \<Rightarrow> string \<Rightarrow> int option \<Rightarrow> int option \<Rightarrow> auth_store \<Rightarrow> auth_store" where
  "setDeviceRetired u d time reactivated = with_device u d (\<lambda>r. r\<lparr>dr_retired_at := time, dr_reactivated_at := reactivated\<rparr>)"

definition store_touchDevice :: "string \<Rightarrow> string \<Rightarrow> int \<Rightarrow> auth_store \<Rightarrow> auth_store" where
  "store_touchDevice u d time = with_device u d (\<lambda>r. r\<lparr>dr_last_seen_at := time\<rparr>)"

subsection \<open>The session table as a list of records\<close>

definition sessions_ok :: "session_row list \<Rightarrow> bool" where
  "sessions_ok rows \<longleftrightarrow> distinct (map sr_id rows) \<and> distinct (map sr_digest rows)"

lemma find_session_None: "find_session i rows = None \<longleftrightarrow> i \<notin> sr_id ` set rows"
  by (auto simp: find_session_def find_None_iff)

lemma find_session_Some: "find_session i rows = Some s \<Longrightarrow> s \<in> set rows \<and> sr_id s = i"
  unfolding find_session_def by (auto simp: find_Some_iff)

lemma find_session_append:
  "find_session i (rows @ more_rows) = (case find_session i rows of None \<Rightarrow> find_session i more_rows | Some s \<Rightarrow> Some s)"
  unfolding find_session_def by (induction rows) auto

lemma find_session_map:
  assumes "\<And>s. sr_id (f s) = sr_id s"
  shows "find_session i (map f rows) = map_option f (find_session i rows)"
  unfolding find_session_def by (induction rows) (auto simp: assms)

lemma with_session_ids [simp]: "(\<And>s. sr_id (f s) = sr_id s) \<Longrightarrow> map sr_id (with_session i f rows) = map sr_id rows"
  by (simp add: with_session_def)

lemma mark_simps [simp]:
  "sr_id (mark_rotated time s) = sr_id s" "sr_family (mark_rotated time s) = sr_family s"
  "sr_digest (mark_rotated time s) = sr_digest s" "sr_revoked_at (mark_rotated time s) = sr_revoked_at s"
  "sr_rotated_at (mark_rotated time s) = Some time" "sr_user (mark_rotated time s) = sr_user s"
  "sr_identity (mark_rotated time s) = sr_identity s"
  "sr_id (mark_revoked time reason s) = sr_id s" "sr_family (mark_revoked time reason s) = sr_family s"
  "sr_digest (mark_revoked time reason s) = sr_digest s" "sr_rotated_at (mark_revoked time reason s) = sr_rotated_at s"
  "sr_revoked_at (mark_revoked time reason s) = Some time" "sr_user (mark_revoked time reason s) = sr_user s"
  "sr_identity (mark_revoked time reason s) = sr_identity s"
  by (simp_all add: mark_rotated_def mark_revoked_def)

lemma find_with_session:
  assumes "\<And>s. sr_id (f s) = sr_id s"
  shows "find_session j (with_session i f rows) = map_option (\<lambda>s. if j = i then f s else s) (find_session j rows)"
  unfolding with_session_def
  by (subst find_session_map) (auto simp: assms dest: find_session_Some intro!: option.map_cong)

text \<open>Revoking the targets one update at a time is revoking them all at once.\<close>

lemma fold_with_session:
  assumes ids: "\<And>s. sr_id (f s) = sr_id s" and idem: "\<And>s. f (f s) = f s"
  shows "fold (\<lambda>t. with_session (sr_id t) f) ts rows = map (\<lambda>s. if sr_id s \<in> sr_id ` set ts then f s else s) rows"
proof (induction ts arbitrary: rows)
  case Nil
  then show ?case by simp
next
  case (Cons t ts)
  then show ?case by (auto simp: with_session_def ids idem)
qed

lemma revokeWhere_map:
  assumes "distinct (map sr_id (st_sessions st))"
  shows "snd (revokeWhere match time reason st) =
    st\<lparr>st_sessions := map (\<lambda>s. if match s \<and> sr_revoked_at s = None then mark_revoked time reason s else s) (st_sessions st)\<rparr>"
proof -
  have "sr_id s \<in> sr_id ` {t \<in> set (st_sessions st). match t \<and> sr_revoked_at t = None} \<longleftrightarrow> match s \<and> sr_revoked_at s = None"
    if "s \<in> set (st_sessions st)" for s
    using assms that by (auto simp: distinct_map dest: inj_onD)
  then show ?thesis
    by (simp add: revokeWhere_def Let_def fold_with_session mark_revoked_def)
qed

lemma find_by_id: "distinct (map sr_id rows) \<Longrightarrow> s \<in> set rows \<Longrightarrow> find_session (sr_id s) rows = Some s"
  unfolding find_session_def by (induction rows) auto

end
