(* ===== verification/SessionTable.thy ===== *)
theory SessionTable
  imports AuthStore
begin

text \<open>
  The session operations of \<open>AuthStore\<close> against the engine of \<open>ServerTable\<close>: a session record is a row of the
  declared \<open>session\<close> table of \<open>server/db/schema.ts\<close>, and inserting, claiming and revoking on the records is what
  \<open>MemoryTable\<close> does with that descriptor, refusals included.
\<close>

definition opt_str :: "string option \<Rightarrow> scalar" where
  "opt_str x = (case x of None \<Rightarrow> SNull | Some s \<Rightarrow> SStr s)"

definition opt_num :: "int option \<Rightarrow> scalar" where
  "opt_num x = (case x of None \<Rightarrow> SNull | Some n \<Rightarrow> SNum n)"

definition sess_row :: "session_row \<Rightarrow> row" where
  "sess_row s =
     [(''id'', SStr (sr_id s)), (''aba_user_id'', SStr (sr_user s)), (''auth_identity_id'', opt_str (sr_identity s)),
      (''family_id'', SStr (sr_family s)), (''refresh_digest'', SStr (sr_digest s)), (''digest_version'', SNum (sr_digest_version s)),
      (''issued_at'', SNum (sr_issued_at s)), (''expires_at'', SNum (sr_expires_at s)), (''rotated_at'', opt_num (sr_rotated_at s)),
      (''revoked_at'', opt_num (sr_revoked_at s)), (''revoked_reason'', opt_str (sr_revoked_reason s)),
      (''last_seen_at'', SNum (sr_last_seen_at s))]"

definition sess_table :: "session_row list \<Rightarrow> table_rows" where
  "sess_table rows = map (\<lambda>s. ([SStr (sr_id s)], sess_row s)) rows"

text \<open>The rows of the two tables a session refers to; only their \<open>id\<close> is read by a foreign key.\<close>

definition sess_parents :: "auth_store \<Rightarrow> string \<Rightarrow> row list option" where
  "sess_parents st table =
     (if table = ''aba_user'' then Some (map (\<lambda>u. [(''id'', SStr (ur_id u))]) (st_users st))
      else if table = ''auth_identity'' then Some (map (\<lambda>r. [(''id'', SStr (ir_id r))]) (st_identities st))
      else None)"

lemmas session_columns = session_spec_def write_once_def write_once_null_def required_def optional_col_def references_def
  declared_check_def

lemma opt_simps [simp]:
  "opt_num x = SNull \<longleftrightarrow> x = None" "opt_str y = SNull \<longleftrightarrow> y = None" "SNull = opt_num x \<longleftrightarrow> x = None"
  "SNull = opt_str y \<longleftrightarrow> y = None" "opt_num (Some n) = SNum n" "opt_str (Some s) = SStr s"
  by (auto simp: opt_num_def opt_str_def split: option.splits)

lemma sess_key [simp]: "keyOf (sess_row s) (ts_primaryKey session_spec) = [SStr (sr_id s)]"
  by (simp add: keyOf_def session_columns sess_row_def col_def)

lemma sess_shape [simp]: "validateShape session_spec (sess_row s) = None"
  by (simp add: validateShape_def column_names_def session_columns sess_row_def)

lemma sess_checks [simp]: "validateChecks session_spec r = None"
  by (simp add: validateChecks_def session_columns check_violated_def)

lemma sess_get: "map_of (sess_table rows) [SStr i] = map_option sess_row (find_session i rows)"
  by (induction rows) (auto simp: sess_table_def find_session_def)

lemma sess_unique:
  "validateUnique session_spec (sess_table rows) (sess_row s) except =
    (if \<exists>t \<in> set rows. Some [SStr (sr_id t)] \<noteq> except \<and> sr_digest t = sr_digest s
     then Some (Violation ''session_refresh_digest_key'' ''session'') else None)"
  by (auto simp: validateUnique_def unique_violated_def session_columns constraintApplies_def sess_table_def keyOf_def col_def sess_row_def)

lemma sess_foreign:
  "validateForeignKeys session_spec (sess_parents st) (sess_row s) =
    (if getUser (sr_user s) st = None then Some (Violation ''foreign key aba_user_id'' ''session'')
     else if (case sr_identity s of None \<Rightarrow> False | Some i \<Rightarrow> getIdentity i st = None)
       then Some (Violation ''foreign key auth_identity_id'' ''session'')
     else None)"
  by (cases "sr_identity s")
    (auto simp: validateForeignKeys_def session_columns fk_violated_def sess_parents_def keyOf_def col_def sess_row_def
      getUser_def getIdentity_def find_None_iff)

lemma sess_update:
  assumes "find_session i rows = Some s" and "distinct (map sr_id rows)" and "\<And>s. sr_id (f s) = sr_id s"
  shows "AList.update [SStr i] (sess_row (f s)) (sess_table rows) = sess_table (with_session i f rows)"
  using assms(1,2)
proof (induction rows)
  case (Cons x rows)
  have same: "with_session i f rows = rows" if "i \<notin> sr_id ` set rows"
    using that by (auto simp: with_session_def intro!: map_idI)
  show ?case
  proof (cases "sr_id x = i")
    case True
    then show ?thesis using Cons.prems same by (auto simp: find_session_def sess_table_def with_session_def assms(3))
  next
    case False
    then show ?thesis using Cons by (auto simp: find_session_def sess_table_def with_session_def)
  qed
qed (simp add: find_session_def)

lemma sess_patch:
  "patched (sess_row s) [(''rotated_at'', SNum t)] = sess_row (mark_rotated t s)"
  "patched (sess_row s) [(''revoked_at'', SNum t), (''revoked_reason'', SStr why)] = sess_row (mark_revoked t why s)"
  by (simp_all add: patched_def sess_row_def mark_rotated_def mark_revoked_def)

lemma sess_patch_allowed:
  "patch_violation session_spec [(''rotated_at'', SNum t)] = None"
  "patch_violation session_spec [(''revoked_at'', SNum t), (''revoked_reason'', SStr why)] = None"
  by (simp_all add: patch_violation_def session_columns)

lemma sess_table_update:
  assumes ok: "sessions_ok rows" and allowed: "patch_violation session_spec patch = None"
    and patch: "\<And>s. patched (sess_row s) patch = sess_row (f s)"
    and f: "\<And>s. sr_id (f s) = sr_id s" "\<And>s. sr_digest (f s) = sr_digest s"
  shows "table_update session_spec [SStr i] patch (sess_table rows) = Inr (sess_table (with_session i f rows))"
proof (cases "find_session i rows")
  case None
  then have "with_session i f rows = rows" by (auto simp: with_session_def find_session_None intro!: map_idI)
  then show ?thesis using None by (simp add: table_update_def sess_get)
next
  case (Some s)
  have s: "s \<in> set rows" "sr_id s = i" using find_session_Some [OF Some] by auto
  then have "\<not> (\<exists>t \<in> set rows. Some [SStr (sr_id t)] \<noteq> Some [SStr i] \<and> sr_digest t = sr_digest (f s))"
    using ok f(2) by (auto simp: sessions_ok_def distinct_map dest: inj_onD)
  then show ?thesis
    using ok Some sess_update [OF Some _ f(1)]
    by (simp add: table_update_def sess_get allowed patch sess_unique sessions_ok_def Let_def)
qed

text \<open>
  The session operations the services call are the generic table engine run on the declared session table: for
  every store whose session ids and refresh digests are distinct, inserting a session gives the same table or the
  same violation in the same order (key, digest, then the two foreign keys), and the patches that claim a rotation
  and that revoke are always accepted and change exactly the addressed row.
\<close>

theorem session_store_refines:
  assumes "sessions_ok (st_sessions st)"
  shows "table_insert session_spec (sess_parents st) (sess_row s) (sess_table (st_sessions st)) =
      map_sum id (\<lambda>st'. sess_table (st_sessions st')) (insertSession s st) \<and>
    table_update session_spec [SStr i] [(''rotated_at'', SNum t)] (sess_table (st_sessions st)) =
      Inr (sess_table (with_session i (mark_rotated t) (st_sessions st))) \<and>
    table_update session_spec [SStr i] [(''revoked_at'', SNum t), (''revoked_reason'', SStr why)] (sess_table (st_sessions st)) =
      Inr (sess_table (with_session i (mark_revoked t why) (st_sessions st)))"
proof (intro conjI)
  have digest: "(\<exists>x \<in> set (st_sessions st). sr_digest x = sr_digest s) \<longleftrightarrow> findSessionByDigest (sr_digest s) st \<noteq> None"
    by (auto simp: findSessionByDigest_def find_None_iff)
  have name: "ts_name session_spec = ''session''" by (simp add: session_spec_def)
  show "table_insert session_spec (sess_parents st) (sess_row s) (sess_table (st_sessions st)) =
      map_sum id (\<lambda>st'. sess_table (st_sessions st')) (insertSession s st)"
  proof (cases "get_session_row (sr_id s) st")
    case (Some x)
    then show ?thesis by (simp add: table_insert_def insertSession_def Let_def sess_get get_session_row_def name)
  next
    case None
    then show ?thesis
      unfolding table_insert_def insertSession_def Let_def sess_foreign sess_unique
      by (simp add: sess_get digest get_session_row_def) (simp add: sess_table_def)
  qed
next
  show "table_update session_spec [SStr i] [(''rotated_at'', SNum t)] (sess_table (st_sessions st)) =
      Inr (sess_table (with_session i (mark_rotated t) (st_sessions st)))"
    by (rule sess_table_update [OF assms sess_patch_allowed(1) sess_patch(1)]) simp_all
  show "table_update session_spec [SStr i] [(''revoked_at'', SNum t), (''revoked_reason'', SStr why)] (sess_table (st_sessions st)) =
      Inr (sess_table (with_session i (mark_revoked t why) (st_sessions st)))"
    by (rule sess_table_update [OF assms sess_patch_allowed(2) sess_patch(2)]) simp_all
qed

definition sample_user :: "string \<Rightarrow> user_row" where
  "sample_user i = \<lparr>ur_id = i, ur_created_at = 0, ur_state = AccountActive, ur_deleted_at = None\<rparr>"

definition sample_session :: "string \<Rightarrow> string \<Rightarrow> session_row" where
  "sample_session i d =
     \<lparr>sr_id = i, sr_user = ''u'', sr_identity = None, sr_family = ''f'', sr_digest = d, sr_digest_version = 1, sr_issued_at = 0,
      sr_expires_at = 100, sr_rotated_at = None, sr_revoked_at = None, sr_revoked_reason = None, sr_last_seen_at = 0\<rparr>"

definition sample_auth_store :: auth_store where
  "sample_auth_store = empty_auth_store\<lparr>st_users := [sample_user ''u''], st_sessions := [sample_session ''a'' ''x'']\<rparr>"

lemma session_store_refines_witness:
  "sessions_ok (st_sessions sample_auth_store) \<and>
    table_insert session_spec (sess_parents sample_auth_store) (sess_row (sample_session ''b'' ''x'')) (sess_table (st_sessions sample_auth_store)) =
      Inl (Violation ''session_refresh_digest_key'' ''session'')"
proof -
  have ok: "sessions_ok (st_sessions sample_auth_store)" by (simp add: sessions_ok_def sample_auth_store_def)
  have "insertSession (sample_session ''b'' ''x'') sample_auth_store = Inl (Violation ''session_refresh_digest_key'' ''session'')"
    by (simp add: insertSession_def sample_auth_store_def sample_session_def get_session_row_def find_session_def findSessionByDigest_def
        empty_auth_store_def)
  then show ?thesis using ok session_store_refines [OF ok, of "sample_session ''b'' ''x''"] by simp
qed

end
