(* ===== verification/Sessions.thy ===== *)
theory Sessions
  imports SessionTable
begin

text \<open>
  Sessions: \<open>server/app/session-service.ts\<close> with \<open>server/app/account-service.ts\<close>, the authorization of
  \<open>server/domain/authorization.ts\<close> and the codes of \<open>server/domain/errors.ts\<close>. A rotation is a machine that takes
  one step per call of the store, so that any number of rotations, sign-ins and revocations interleave at every
  \<open>await\<close>. The clock, the random token, session id and family id are read in the step that uses them and come
  from its event; the digest is a parameter.
\<close>

datatype domain_error =
    D_NOT_FOUND | D_AUTH_REQUIRED | D_SESSION_REVOKED | D_ACCOUNT_DELETED | D_IDENTITY_IN_USE | D_LAST_IDENTITY
  | D_INVALID_ARGUMENT | D_DEVICE_RETIRED

fun domain_message :: "domain_error \<Rightarrow> string" where
  "domain_message D_NOT_FOUND = ''No such resource.''"
| "domain_message D_AUTH_REQUIRED = ''Sign in again to continue.''"
| "domain_message D_SESSION_REVOKED = ''You were signed out. Sign in again.''"
| "domain_message D_ACCOUNT_DELETED = ''This account no longer exists.''"
| "domain_message D_IDENTITY_IN_USE = ''That sign-in method is already used by another AI Browser Agent account.''"
| "domain_message D_LAST_IDENTITY = ''This is the only way you can sign in, so it cannot be removed.''"
| "domain_message D_INVALID_ARGUMENT = ''That request is not valid.''"
| "domain_message D_DEVICE_RETIRED = ''This device needs to be reactivated.''"

text \<open>What an asynchronous service answers: a value, a domain error, or the rejection a store operation threw.\<close>

datatype 'a reply = Ok 'a | Fail domain_error | Threw violation

subsection \<open>Authorization\<close>

record principal =
  pr_user :: string
  pr_session :: string
  pr_identity :: "string option"

definition principalFromSession :: "session_row \<Rightarrow> user_row \<Rightarrow> principal reply" where
  "principalFromSession s u =
     (if ur_state u = AccountDeleted then Fail D_ACCOUNT_DELETED
      else if ur_id u \<noteq> sr_user s then Fail D_AUTH_REQUIRED
      else Ok \<lparr>pr_user = sr_user s, pr_session = sr_id s, pr_identity = sr_identity s\<rparr>)"

definition owns :: "principal \<Rightarrow> string \<Rightarrow> bool" where
  "owns p owner \<longleftrightarrow> pr_user p = owner"

definition requireOwned :: "('a \<Rightarrow> string) \<Rightarrow> principal \<Rightarrow> 'a option \<Rightarrow> 'a reply" where
  "requireOwned owner p resource =
     (case resource of None \<Rightarrow> Fail D_NOT_FOUND | Some r \<Rightarrow> if owns p (owner r) then Ok r else Fail D_NOT_FOUND)"

subsection \<open>Accounts\<close>

definition createAccount :: "string \<Rightarrow> int \<Rightarrow> auth_store \<Rightarrow> user_row reply \<times> auth_store" where
  "createAccount i now st =
     (let u = \<lparr>ur_id = i, ur_created_at = now, ur_state = AccountActive, ur_deleted_at = None\<rparr> in
      case insertUser u st of Inl v \<Rightarrow> (Threw v, st) | Inr st' \<Rightarrow> (Ok u, st'))"

definition live_account :: "string \<Rightarrow> auth_store \<Rightarrow> user_row reply" where
  "live_account i st =
     (case getUser i st of
        None \<Rightarrow> Fail D_NOT_FOUND
      | Some u \<Rightarrow> if ur_state u = AccountDeleted then Fail D_ACCOUNT_DELETED else Ok u)"

definition getAccount :: "principal \<Rightarrow> auth_store \<Rightarrow> user_row reply" where
  "getAccount p st = live_account (pr_user p) st"

definition markAccountDeleted :: "principal \<Rightarrow> int \<Rightarrow> auth_store \<Rightarrow> user_row reply \<times> auth_store" where
  "markAccountDeleted p now st =
     (case live_account (pr_user p) st of
        Fail e \<Rightarrow> (Fail e, st)
      | Threw v \<Rightarrow> (Threw v, st)
      | Ok u \<Rightarrow>
          let st' = snd (revokeAllForUser (ur_id u) now ''account_deleted'' (markUserDeleted (ur_id u) now st)) in
          (case getUser (ur_id u) st' of None \<Rightarrow> Fail D_NOT_FOUND | Some row \<Rightarrow> Ok row, st'))"

subsection \<open>The session service\<close>

definition ACCESS_TTL_MS :: int where "ACCESS_TTL_MS = 15 * 60 * 1000"

definition REFRESH_TTL_MS :: int where "REFRESH_TTL_MS = 30 * 24 * 60 * 60 * 1000"

record session_service =
  ss_accessTtl :: int
  ss_refreshTtl :: int
  ss_digest :: "string \<Rightarrow> string"

definition new_session_service :: "int option \<Rightarrow> int option \<Rightarrow> (string \<Rightarrow> string) \<Rightarrow> session_service" where
  "new_session_service access refresh digest =
     \<lparr>ss_accessTtl = (case access of None \<Rightarrow> ACCESS_TTL_MS | Some n \<Rightarrow> n),
      ss_refreshTtl = (case refresh of None \<Rightarrow> REFRESH_TTL_MS | Some n \<Rightarrow> n), ss_digest = digest\<rparr>"

record issued_session =
  is_session :: string
  is_user :: string
  is_token :: string
  is_refreshExpiresAt :: int
  is_accessExpiresAt :: int

definition issued :: "session_service \<Rightarrow> session_row \<Rightarrow> string \<Rightarrow> int \<Rightarrow> issued_session" where
  "issued svc s token now =
     \<lparr>is_session = sr_id s, is_user = sr_user s, is_token = token, is_refreshExpiresAt = sr_expires_at s,
      is_accessExpiresAt = now + ss_accessTtl svc\<rparr>"

definition CURRENT_DIGEST_VERSION :: int where "CURRENT_DIGEST_VERSION = 1"

definition fresh_session ::
  "session_service \<Rightarrow> string \<Rightarrow> string option \<Rightarrow> string \<Rightarrow> string \<Rightarrow> string \<Rightarrow> int \<Rightarrow> session_row" where
  "fresh_session svc user identity family sid token now =
     \<lparr>sr_id = sid, sr_user = user, sr_identity = identity, sr_family = family, sr_digest = ss_digest svc token,
      sr_digest_version = CURRENT_DIGEST_VERSION, sr_issued_at = now, sr_expires_at = now + ss_refreshTtl svc,
      sr_rotated_at = None, sr_revoked_at = None, sr_revoked_reason = None, sr_last_seen_at = now\<rparr>"

definition createSession ::
  "session_service \<Rightarrow> string \<Rightarrow> string option \<Rightarrow> string \<Rightarrow> string \<Rightarrow> string \<Rightarrow> int \<Rightarrow> auth_store \<Rightarrow>
    issued_session reply \<times> auth_store" where
  "createSession svc user identity family sid token now st =
     (case live_account user st of
        Fail e \<Rightarrow> (Fail e, st)
      | Threw v \<Rightarrow> (Threw v, st)
      | Ok u \<Rightarrow>
          if (case identity of None \<Rightarrow> False
              | Some i \<Rightarrow> (case getIdentity i st of None \<Rightarrow> True | Some r \<Rightarrow> ir_user r \<noteq> user)) then (Fail D_NOT_FOUND, st)
          else
            let s = fresh_session svc user identity family sid token now in
            (case insertSession s st of Inl v \<Rightarrow> (Threw v, st) | Inr st' \<Rightarrow> (Ok (issued svc s token now), st')))"

definition verify_session :: "string \<Rightarrow> int \<Rightarrow> auth_store \<Rightarrow> principal reply" where
  "verify_session sid now st =
     (case get_session_row sid st of
        None \<Rightarrow> Fail D_AUTH_REQUIRED
      | Some s \<Rightarrow>
          if sr_revoked_at s \<noteq> None then Fail D_SESSION_REVOKED
          else if now \<ge> sr_expires_at s then Fail D_AUTH_REQUIRED
          else (case getUser (sr_user s) st of None \<Rightarrow> Fail D_NOT_FOUND | Some u \<Rightarrow> principalFromSession s u))"

definition revokeSession :: "principal \<Rightarrow> int \<Rightarrow> auth_store \<Rightarrow> unit reply \<times> auth_store" where
  "revokeSession p now st = (Ok (), store_revokeSession (pr_session p) now ''logout'' st)"

definition revokeAllSessions :: "principal \<Rightarrow> int \<Rightarrow> auth_store \<Rightarrow> nat reply \<times> auth_store" where
  "revokeAllSessions p now st =
     (case revokeAllForUser (pr_user p) now ''logout_all'' st of (n, st') \<Rightarrow> (Ok n, st'))"

subsection \<open>Rotation\<close>

text \<open>
  Where a call of \<open>rotateSession\<close> stands: the store operation it is about to perform, with the row it read and the
  time it read, or how it ended. \<open>RReused\<close> is the answer \<open>SESSION_REVOKED\<close> given after the family was revoked.
\<close>

datatype rotation =
    RLook string
  | RUser session_row int
  | RClaim session_row int
  | RInsert session_row int
  | RRecheck session_row int session_row string
  | RRevoke session_row int
  | RReused string
  | RAnswered session_row issued_session
  | RRefused domain_error
  | RThrew violation

definition rotation_reply :: "rotation \<Rightarrow> issued_session reply option" where
  "rotation_reply c =
     (case c of RAnswered _ x \<Rightarrow> Some (Ok x) | RReused _ \<Rightarrow> Some (Fail D_SESSION_REVOKED) | RRefused e \<Rightarrow> Some (Fail e)
      | RThrew v \<Rightarrow> Some (Threw v) | _ \<Rightarrow> None)"

definition successor :: "session_service \<Rightarrow> session_row \<Rightarrow> string \<Rightarrow> string \<Rightarrow> int \<Rightarrow> session_row" where
  "successor svc current sid token now =
     fresh_session svc (sr_user current) (sr_identity current) (sr_family current) sid token now"

fun rotate_step :: "session_service \<Rightarrow> int \<Rightarrow> string \<Rightarrow> string \<Rightarrow> rotation \<Rightarrow> auth_store \<Rightarrow> rotation \<times> auth_store" where
  "rotate_step svc now sid token (RLook presented) st =
     (case findSessionByDigest (ss_digest svc presented) st of
        None \<Rightarrow> (RRefused D_AUTH_REQUIRED, st)
      | Some current \<Rightarrow>
          if sr_rotated_at current \<noteq> None then (RRevoke current now, st)
          else if sr_revoked_at current \<noteq> None then (RRefused D_SESSION_REVOKED, st)
          else if now \<ge> sr_expires_at current then (RRefused D_AUTH_REQUIRED, st)
          else (RUser current now, st))"
| "rotate_step svc now sid token (RUser current t) st =
     (case live_account (sr_user current) st of
        Ok u \<Rightarrow> (RClaim current t, st)
      | Fail e \<Rightarrow> (RRefused e, st)
      | Threw v \<Rightarrow> (RThrew v, st))"
| "rotate_step svc now sid token (RClaim current t) st =
     (case claimSessionRotation (sr_id current) t st of
        (True, st') \<Rightarrow> (RInsert current t, st')
      | (False, st') \<Rightarrow> (RRevoke current t, st'))"
| "rotate_step svc now sid token (RInsert current t) st =
     (let next_row = successor svc current sid token t in
      case insertSession next_row st of
        Inl v \<Rightarrow> (RThrew v, st)
      | Inr st' \<Rightarrow> (RRecheck current t next_row token, st'))"
| "rotate_step svc now sid token (RRecheck current t next_row issued_token) st =
     (case get_session_row (sr_id current) st of
        None \<Rightarrow> (RAnswered current (issued svc next_row issued_token t), st)
      | Some claimed_row \<Rightarrow>
          if sr_revoked_at claimed_row \<noteq> None then (RRevoke current t, st)
          else (RAnswered current (issued svc next_row issued_token t), st))"
| "rotate_step svc now sid token (RRevoke current t) st =
     (RReused (sr_family current), snd (revokeFamily (sr_family current) t ''refresh_reuse'' st))"
| "rotate_step svc now sid token c st = (c, st)"

text \<open>
  The world: the store and every call of \<open>rotateSession\<close> made so far. An event starts a call, advances one, or is
  another service's operation on the same store.
\<close>

record session_world =
  sw_store :: auth_store
  sw_calls :: "rotation list"

datatype session_event =
    Present string
  | Advance nat int string string
  | SignIn string "string option" string string string int
  | SignOut principal int
  | SignOutEverywhere principal int
  | RevokeThrough string int
  | DropIdentity string
  | CloseAccount principal int

fun session_event_step :: "session_service \<Rightarrow> session_event \<Rightarrow> session_world \<Rightarrow> session_world" where
  "session_event_step svc (Present token) w = w\<lparr>sw_calls := sw_calls w @ [RLook token]\<rparr>"
| "session_event_step svc (Advance i now sid token) w =
     (if i < length (sw_calls w) then
        (case rotate_step svc now sid token (sw_calls w ! i) (sw_store w) of
           (c, st) \<Rightarrow> w\<lparr>sw_store := st, sw_calls := (sw_calls w)[i := c]\<rparr>)
      else w)"
| "session_event_step svc (SignIn user identity family sid token now) w =
     w\<lparr>sw_store := snd (createSession svc user identity family sid token now (sw_store w))\<rparr>"
| "session_event_step svc (SignOut p now) w = w\<lparr>sw_store := snd (revokeSession p now (sw_store w))\<rparr>"
| "session_event_step svc (SignOutEverywhere p now) w = w\<lparr>sw_store := snd (revokeAllSessions p now (sw_store w))\<rparr>"
| "session_event_step svc (RevokeThrough identity now) w =
     w\<lparr>sw_store := snd (revokeForIdentity identity now ''identity_unlinked'' (sw_store w))\<rparr>"
| "session_event_step svc (DropIdentity identity) w = w\<lparr>sw_store := deleteIdentity identity (sw_store w)\<rparr>"
| "session_event_step svc (CloseAccount p now) w = w\<lparr>sw_store := snd (markAccountDeleted p now (sw_store w))\<rparr>"

definition session_run :: "session_service \<Rightarrow> session_event list \<Rightarrow> session_world \<Rightarrow> session_world" where
  "session_run svc = fold (session_event_step svc)"

definition before_sessions :: "auth_store \<Rightarrow> session_world" where
  "before_sessions st = \<lparr>sw_store = st\<lparr>st_sessions := []\<rparr>, sw_calls = []\<rparr>"

text \<open>Family ids are 128 random bits: the histories considered draw a different one for every sign-in.\<close>

fun event_family :: "session_event \<Rightarrow> string option" where
  "event_family (SignIn user identity family sid token now) = Some family"
| "event_family _ = None"

definition families_of :: "session_event list \<Rightarrow> string list" where
  "families_of evs = List.map_filter event_family evs"

definition call_finished :: "rotation \<Rightarrow> bool" where
  "call_finished c \<longleftrightarrow> rotation_reply c \<noteq> None"

subsection \<open>How the table evolves\<close>

text \<open>A rewriting of rows that keeps their names and never takes a mark away.\<close>

definition tame :: "(session_row \<Rightarrow> session_row) \<Rightarrow> bool" where
  "tame g \<longleftrightarrow> (\<forall>s. sr_id (g s) = sr_id s \<and> sr_family (g s) = sr_family s \<and> sr_digest (g s) = sr_digest s \<and>
     (sr_rotated_at s \<noteq> None \<longrightarrow> sr_rotated_at (g s) \<noteq> None) \<and> (sr_revoked_at s \<noteq> None \<longrightarrow> sr_revoked_at (g s) \<noteq> None))"

definition tamed :: "auth_store \<Rightarrow> auth_store \<Rightarrow> bool" where
  "tamed st st' \<longleftrightarrow> (\<exists>g. tame g \<and> st_sessions st' = map g (st_sessions st))"

lemma tamed_refl [simp]: "tamed st st"
  unfolding tamed_def by (rule exI [of _ id]) (simp add: tame_def)

lemma tamed_trans: "tamed a b \<Longrightarrow> tamed b c \<Longrightarrow> tamed a c"
  unfolding tamed_def tame_def by (elim exE conjE, rule_tac x = "ga \<circ> g" in exI) simp

lemma tamed_map: "tame g \<Longrightarrow> st_sessions st' = map g (st_sessions st) \<Longrightarrow> tamed st st'"
  unfolding tamed_def by blast

lemma tamed_with: "tame f \<Longrightarrow> st_sessions st' = with_session i f (st_sessions st) \<Longrightarrow> tamed st st'"
  by (rule tamed_map [of "\<lambda>s. if sr_id s = i then f s else s"]) (auto simp: tame_def with_session_def)

lemma tame_marks: "tame (mark_rotated t)" "tame (mark_revoked t why)"
  by (simp_all add: tame_def)

lemma tamed_revokeWhere: "distinct (map sr_id (st_sessions st)) \<Longrightarrow> tamed st (snd (revokeWhere match t why st))"
  by (rule tamed_map [of "\<lambda>s. if match s \<and> sr_revoked_at s = None then mark_revoked t why s else s"])
    (simp_all add: revokeWhere_map tame_def)

lemma tamed_claim: "tamed st (snd (claimSessionRotation i t st))"
  by (auto simp: claimSessionRotation_def split: option.split intro: tamed_with tame_marks)

lemma tamed_revoke: "tamed st (store_revokeSession i t why st)"
  by (auto simp: store_revokeSession_def split: option.split intro: tamed_with tame_marks)

lemma tamed_deleteIdentity: "tamed st (deleteIdentity i st)"
  by (rule tamed_map [of "\<lambda>s. if sr_identity s = Some i then s\<lparr>sr_identity := None\<rparr> else s"])
    (simp_all add: tame_def deleteIdentity_def)

lemma tamed_users: "tamed st (markUserDeleted i t st)"
  by (rule tamed_map [of id]) (simp_all add: tame_def markUserDeleted_def)

lemma tamed_find:
  assumes "tamed st st'"
  shows "get_session_row i st' = None \<longleftrightarrow> get_session_row i st = None"
    and "get_session_row i st = Some s \<Longrightarrow> \<exists>s'. get_session_row i st' = Some s' \<and> sr_family s' = sr_family s \<and>
      (sr_rotated_at s \<noteq> None \<longrightarrow> sr_rotated_at s' \<noteq> None) \<and> (sr_revoked_at s \<noteq> None \<longrightarrow> sr_revoked_at s' \<noteq> None)"
proof -
  obtain g where g: "tame g" "st_sessions st' = map g (st_sessions st)" using assms unfolding tamed_def by blast
  then have "get_session_row i st' = map_option g (get_session_row i st)"
    unfolding get_session_row_def by (simp add: find_session_map tame_def)
  then show "get_session_row i st' = None \<longleftrightarrow> get_session_row i st = None"
    and "get_session_row i st = Some s \<Longrightarrow> \<exists>s'. get_session_row i st' = Some s' \<and> sr_family s' = sr_family s \<and>
      (sr_rotated_at s \<noteq> None \<longrightarrow> sr_rotated_at s' \<noteq> None) \<and> (sr_revoked_at s \<noteq> None \<longrightarrow> sr_revoked_at s' \<noteq> None)"
    using g(1) by (auto simp: tame_def)
qed

lemma tamed_live:
  assumes "tamed st st'" and "s' \<in> set (st_sessions st')" and "sr_revoked_at s' = None"
  shows "\<exists>s \<in> set (st_sessions st). sr_family s = sr_family s' \<and> sr_revoked_at s = None"
proof -
  obtain g s where "tame g" "s \<in> set (st_sessions st)" "s' = g s" using assms unfolding tamed_def by auto
  moreover from this have "sr_revoked_at s = None" using assms(3) unfolding tame_def by blast
  ultimately show ?thesis by (auto simp: tame_def)
qed

lemma tamed_ids: "tamed st st' \<Longrightarrow> map sr_id (st_sessions st') = map sr_id (st_sessions st)"
  by (auto simp: tamed_def tame_def)

lemma tamed_families: "tamed st st' \<Longrightarrow> sr_family ` set (st_sessions st') = sr_family ` set (st_sessions st)"
  by (auto simp: tamed_def tame_def image_image)

lemma insertSession_result:
  "insertSession s st = Inr st' \<Longrightarrow> st' = st\<lparr>st_sessions := st_sessions st @ [s]\<rparr> \<and> get_session_row (sr_id s) st = None"
  by (auto simp: insertSession_def Let_def split: if_splits)

subsection \<open>What a rotation holds\<close>

text \<open>The row a call works on, and the call that has won the claim of a row.\<close>

fun rotating :: "rotation \<Rightarrow> session_row option" where
  "rotating (RUser s t) = Some s"
| "rotating (RClaim s t) = Some s"
| "rotating (RInsert s t) = Some s"
| "rotating (RRecheck s t n tok) = Some s"
| "rotating (RRevoke s t) = Some s"
| "rotating (RAnswered s x) = Some s"
| "rotating _ = None"

fun winner :: "rotation \<Rightarrow> string option" where
  "winner (RInsert s t) = Some (sr_id s)"
| "winner (RRecheck s t n tok) = Some (sr_id s)"
| "winner (RAnswered s x) = Some (sr_id s)"
| "winner _ = None"

definition held :: "auth_store \<Rightarrow> rotation \<Rightarrow> bool" where
  "held st c \<longleftrightarrow> (\<forall>s. rotating c = Some s \<longrightarrow> (\<exists>s'. get_session_row (sr_id s) st = Some s' \<and> sr_family s' = sr_family s)) \<and>
     (\<forall>i. winner c = Some i \<longrightarrow> (\<exists>s. get_session_row i st = Some s \<and> sr_rotated_at s \<noteq> None))"

text \<open>A call that is going to revoke family \<open>f\<close>: it is about to, or it will find its own row revoked.\<close>

fun rescuer :: "auth_store \<Rightarrow> string \<Rightarrow> rotation \<Rightarrow> bool" where
  "rescuer st f (RRecheck s t n tok) = (sr_family s = f \<and> (\<exists>s'. get_session_row (sr_id s) st = Some s' \<and> sr_revoked_at s' \<noteq> None))"
| "rescuer st f (RRevoke s t) = (sr_family s = f)"
| "rescuer st f _ = False"

definition live_in :: "auth_store \<Rightarrow> string \<Rightarrow> bool" where
  "live_in st f \<longleftrightarrow> (\<exists>s \<in> set (st_sessions st). sr_family s = f \<and> sr_revoked_at s = None)"

definition guarded :: "session_world \<Rightarrow> bool" where
  "guarded w \<longleftrightarrow> (\<forall>f. RReused f \<in> set (sw_calls w) \<and> live_in (sw_store w) f \<longrightarrow>
     (\<exists>c \<in> set (sw_calls w). rescuer (sw_store w) f c))"

definition one_winner :: "rotation list \<Rightarrow> bool" where
  "one_winner cs \<longleftrightarrow> (\<forall>i j. i < length cs \<and> j < length cs \<and> winner (cs ! i) = winner (cs ! j) \<and> winner (cs ! i) \<noteq> None \<longrightarrow> i = j)"

definition families_within :: "string set \<Rightarrow> session_world \<Rightarrow> bool" where
  "families_within F w \<longleftrightarrow> sr_family ` set (st_sessions (sw_store w)) \<union> {f. RReused f \<in> set (sw_calls w)} \<subseteq> F"

definition rotation_inv :: "string set \<Rightarrow> session_world \<Rightarrow> bool" where
  "rotation_inv F w \<longleftrightarrow> distinct (map sr_id (st_sessions (sw_store w))) \<and> (\<forall>c \<in> set (sw_calls w). held (sw_store w) c) \<and>
     one_winner (sw_calls w) \<and> guarded w \<and> families_within F w"

lemma held_tamed:
  assumes t: "tamed st st'" and h: "held st c"
  shows "held st' c"
  unfolding held_def
proof (intro conjI allI impI)
  fix s
  assume "rotating c = Some s"
  then obtain s' where "get_session_row (sr_id s) st = Some s'" "sr_family s' = sr_family s" using h unfolding held_def by blast
  then show "\<exists>s'. get_session_row (sr_id s) st' = Some s' \<and> sr_family s' = sr_family s" using tamed_find(2) [OF t] by fastforce
next
  fix i
  assume "winner c = Some i"
  then obtain s' where "get_session_row i st = Some s'" "sr_rotated_at s' \<noteq> None" using h unfolding held_def by blast
  then show "\<exists>s. get_session_row i st' = Some s \<and> sr_rotated_at s \<noteq> None" using tamed_find(2) [OF t] by fastforce
qed

lemma rescuer_tamed: "tamed st st' \<Longrightarrow> rescuer st f c \<Longrightarrow> rescuer st' f c"
  by (cases c) (auto dest!: tamed_find(2))

lemma live_tamed: "tamed st st' \<Longrightarrow> live_in st' f \<Longrightarrow> live_in st f"
  using tamed_live unfolding live_in_def by metis

lemma rotation_invI:
  assumes "distinct (map sr_id (st_sessions (sw_store w)))" and "\<And>c. c \<in> set (sw_calls w) \<Longrightarrow> held (sw_store w) c"
    and "one_winner (sw_calls w)"
    and "\<And>f. RReused f \<in> set (sw_calls w) \<Longrightarrow> live_in (sw_store w) f \<Longrightarrow> \<exists>c \<in> set (sw_calls w). rescuer (sw_store w) f c"
    and "sr_family ` set (st_sessions (sw_store w)) \<subseteq> F" and "\<And>f. RReused f \<in> set (sw_calls w) \<Longrightarrow> f \<in> F"
  shows "rotation_inv F w"
  using assms unfolding rotation_inv_def guarded_def families_within_def by auto

lemma rotation_invD:
  assumes "rotation_inv F w"
  shows "distinct (map sr_id (st_sessions (sw_store w)))" and "c \<in> set (sw_calls w) \<Longrightarrow> held (sw_store w) c"
    and "one_winner (sw_calls w)"
    and "RReused f \<in> set (sw_calls w) \<Longrightarrow> live_in (sw_store w) f \<Longrightarrow> \<exists>c \<in> set (sw_calls w). rescuer (sw_store w) f c"
    and "sr_family ` set (st_sessions (sw_store w)) \<subseteq> F" and "RReused f \<in> set (sw_calls w) \<Longrightarrow> f \<in> F"
  using assms unfolding rotation_inv_def guarded_def families_within_def by auto

lemma inv_more: "rotation_inv F w \<Longrightarrow> F \<subseteq> G \<Longrightarrow> rotation_inv G w"
  by (auto simp: rotation_inv_def families_within_def)

text \<open>Every operation of another service leaves the calls alone.\<close>

lemma inv_tamed:
  assumes inv: "rotation_inv F w" and t: "tamed (sw_store w) st"
  shows "rotation_inv F (w\<lparr>sw_store := st\<rparr>)"
proof (rule rotation_invI)
  fix f
  assume "RReused f \<in> set (sw_calls (w\<lparr>sw_store := st\<rparr>))" "live_in (sw_store (w\<lparr>sw_store := st\<rparr>)) f"
  then have "\<exists>c \<in> set (sw_calls w). rescuer (sw_store w) f c" using rotation_invD(4) [OF inv] live_tamed [OF t] by simp
  then show "\<exists>c \<in> set (sw_calls (w\<lparr>sw_store := st\<rparr>)). rescuer (sw_store (w\<lparr>sw_store := st\<rparr>)) f c"
    using rescuer_tamed [OF t] by auto
qed (use rotation_invD [OF inv] tamed_ids [OF t] tamed_families [OF t] held_tamed [OF t] in auto)

text \<open>Appending a row to the table: what is found stays found, and only the new row is new.\<close>

lemma get_session_row_append:
  "get_session_row i (st\<lparr>st_sessions := st_sessions st @ [n]\<rparr>) =
    (case get_session_row i st of None \<Rightarrow> if sr_id n = i then Some n else None | Some s \<Rightarrow> Some s)"
proof -
  have "find_session i [n] = (if sr_id n = i then Some n else None)" by (simp add: find_session_def)
  then show ?thesis by (simp add: get_session_row_def find_session_append split: option.split)
qed

lemma held_append:
  assumes "held st c"
  shows "held (st\<lparr>st_sessions := st_sessions st @ [n]\<rparr>) c"
proof -
  have "get_session_row i (st\<lparr>st_sessions := st_sessions st @ [n]\<rparr>) = Some s" if "get_session_row i st = Some s" for i s
    using that by (simp add: get_session_row_append)
  then show ?thesis using assms unfolding held_def by blast
qed

lemma rescuer_append: "rescuer st f c \<Longrightarrow> rescuer (st\<lparr>st_sessions := st_sessions st @ [n]\<rparr>) f c"
  by (cases c) (auto simp: get_session_row_append)

lemma live_append:
  "live_in (st\<lparr>st_sessions := st_sessions st @ [n]\<rparr>) f \<longleftrightarrow> live_in st f \<or> sr_family n = f \<and> sr_revoked_at n = None"
  by (auto simp: live_in_def)

lemma inv_append:
  assumes inv: "rotation_inv F w" and new: "get_session_row (sr_id n) (sw_store w) = None"
    and fam: "RReused (sr_family n) \<in> set (sw_calls w) \<Longrightarrow> \<exists>c \<in> set (sw_calls w). rescuer (sw_store w) (sr_family n) c"
  shows "rotation_inv (insert (sr_family n) F) (w\<lparr>sw_store := (sw_store w)\<lparr>st_sessions := st_sessions (sw_store w) @ [n]\<rparr>\<rparr>)"
    (is "rotation_inv _ (w\<lparr>sw_store := ?st\<rparr>)")
proof (rule rotation_invI)
  fix f
  assume f: "RReused f \<in> set (sw_calls (w\<lparr>sw_store := ?st\<rparr>))" "live_in (sw_store (w\<lparr>sw_store := ?st\<rparr>)) f"
  then have "\<exists>c \<in> set (sw_calls w). rescuer (sw_store w) f c" using fam rotation_invD(4) [OF inv, of f] by (auto simp: live_append)
  then obtain c where "c \<in> set (sw_calls w)" "rescuer (sw_store w) f c" by blast
  then show "\<exists>c \<in> set (sw_calls (w\<lparr>sw_store := ?st\<rparr>)). rescuer (sw_store (w\<lparr>sw_store := ?st\<rparr>)) f c"
    using rescuer_append [of "sw_store w" f c n] by auto
next
  show "distinct (map sr_id (st_sessions (sw_store (w\<lparr>sw_store := ?st\<rparr>))))"
    using rotation_invD(1) [OF inv] new by (simp add: get_session_row_def find_session_None)
qed (use rotation_invD [OF inv] held_append in auto)

text \<open>
  A step that replaces one call and rewrites rows without appending: it keeps the invariant where the new call is
  sound, wins no claim another call has won, answers reuse only once the family has no live row, and still rescues
  whatever the old call was to rescue.
\<close>

lemma in_update_set: "x \<in> set xs \<Longrightarrow> i < length xs \<Longrightarrow> x = xs ! i \<or> x \<in> set (xs[i := y])"
  by (metis in_set_conv_nth length_list_update nth_list_update_neq)

lemma one_winner_update:
  assumes one: "one_winner cs" and i: "i < length cs"
    and new: "\<And>j x. j < length cs \<Longrightarrow> j \<noteq> i \<Longrightarrow> winner c = Some x \<Longrightarrow> winner (cs ! j) \<noteq> Some x"
  shows "one_winner (cs[i := c])"
  unfolding one_winner_def
proof (intro allI impI, elim conjE)
  fix j k
  assume jk: "j < length (cs[i := c])" "k < length (cs[i := c])" and same: "winner (cs[i := c] ! j) = winner (cs[i := c] ! k)"
    and some: "winner (cs[i := c] ! j) \<noteq> None"
  then obtain x where x: "winner (cs[i := c] ! j) = Some x" "winner (cs[i := c] ! k) = Some x" by auto
  consider "j = i" | "k = i" | "j \<noteq> i" "k \<noteq> i" by blast
  then show "j = k"
  proof cases
    case 1
    then show ?thesis using jk x new [of k x] i by (cases "k = i") auto
  next
    case 2
    then show ?thesis using jk x new [of j x] i by (cases "j = i") auto
  next
    case 3
    then show ?thesis using one jk x unfolding one_winner_def by auto
  qed
qed

lemma inv_replace:
  assumes inv: "rotation_inv F w" and t: "tamed (sw_store w) st" and i: "i < length (sw_calls w)"
    and sound: "held st c"
    and win: "\<And>x. winner c = Some x \<Longrightarrow> winner (sw_calls w ! i) = Some x \<or> (\<forall>d \<in> set (sw_calls w). winner d \<noteq> Some x)"
    and ends: "\<And>f. c = RReused f \<Longrightarrow> \<not> live_in st f \<and> f \<in> F"
    and rescue: "\<And>f. rescuer (sw_store w) f (sw_calls w ! i) \<Longrightarrow> live_in st f \<Longrightarrow> rescuer st f c"
  shows "rotation_inv F (w\<lparr>sw_store := st, sw_calls := (sw_calls w)[i := c]\<rparr>)" (is "rotation_inv F ?w")
proof (rule rotation_invI)
  have sub: "set ((sw_calls w)[i := c]) \<subseteq> insert c (set (sw_calls w))" by (rule set_update_subset_insert)
  have cin: "c \<in> set ((sw_calls w)[i := c])" using i by (simp add: set_update_memI)
  fix f
  assume f: "RReused f \<in> set (sw_calls ?w)" "live_in (sw_store ?w) f"
  then have "RReused f \<in> set (sw_calls w)" using sub ends by auto
  then obtain d where d: "d \<in> set (sw_calls w)" "rescuer (sw_store w) f d"
    using rotation_invD(4) [OF inv] live_tamed [OF t] f(2) by auto
  show "\<exists>c \<in> set (sw_calls ?w). rescuer (sw_store ?w) f c"
    using in_update_set [OF d(1) i, of c] d(2) rescuer_tamed [OF t] rescue f(2) cin by auto
next
  show "distinct (map sr_id (st_sessions (sw_store ?w)))" using rotation_invD(1) [OF inv] tamed_ids [OF t] by simp
  show "held (sw_store ?w) d" if "d \<in> set (sw_calls ?w)" for d
    using that rotation_invD(2) [OF inv] held_tamed [OF t] sound set_update_subset_insert [of "sw_calls w" i c] by auto
  show "sr_family ` set (st_sessions (sw_store ?w)) \<subseteq> F" using rotation_invD(5) [OF inv] tamed_families [OF t] by simp
  show "f \<in> F" if "RReused f \<in> set (sw_calls ?w)" for f
    using that rotation_invD(6) [OF inv] ends set_update_subset_insert [of "sw_calls w" i c] by auto
  have "one_winner ((sw_calls w)[i := c])"
  proof (rule one_winner_update [OF rotation_invD(3) [OF inv] i])
    fix j x
    assume j: "j < length (sw_calls w)" "j \<noteq> i" "winner c = Some x"
    show "winner (sw_calls w ! j) \<noteq> Some x"
      using win [OF j(3)] rotation_invD(3) [OF inv] i j unfolding one_winner_def by (metis nth_mem option.distinct(1))
  qed
  then show "one_winner (sw_calls ?w)" by simp
qed

subsection \<open>Every step keeps it\<close>

lemma held_plain: "rotating c = None \<Longrightarrow> winner c = None \<Longrightarrow> held st c"
  by (simp add: held_def)

lemma held_same: "held st c \<Longrightarrow> rotating c' = rotating c \<Longrightarrow> winner c' = None \<or> winner c' = winner c \<Longrightarrow> held st c'"
  unfolding held_def by (metis option.distinct(1))

lemma in_sessions: "get_session_row i st = Some s \<Longrightarrow> s \<in> set (st_sessions st) \<and> sr_id s = i"
  unfolding get_session_row_def by (rule find_session_Some)

lemma held_found:
  assumes "distinct (map sr_id (st_sessions st))" and "findSessionByDigest d st = Some s" and "rotating c = Some s" "winner c = None"
  shows "held st c"
proof -
  have "s \<in> set (st_sessions st)" using assms(2) unfolding findSessionByDigest_def by (auto simp: find_Some_iff)
  then have "get_session_row (sr_id s) st = Some s" unfolding get_session_row_def by (rule find_by_id [OF assms(1)])
  then show ?thesis using assms(3,4) by (simp add: held_def)
qed

lemma not_live_after_revoke:
  assumes "distinct (map sr_id (st_sessions st))"
  shows "\<not> live_in (snd (revokeFamily f t why st)) f"
proof
  let ?g = "\<lambda>s. if sr_family s = f \<and> sr_revoked_at s = None then mark_revoked t why s else s"
  have rows: "st_sessions (snd (revokeFamily f t why st)) = map ?g (st_sessions st)"
    unfolding revokeFamily_def by (simp add: revokeWhere_map [OF assms])
  assume "live_in (snd (revokeFamily f t why st)) f"
  then obtain r where r: "r \<in> set (map ?g (st_sessions st))" "sr_family r = f" "sr_revoked_at r = None"
    unfolding live_in_def rows by blast
  then obtain s where "r = ?g s" unfolding set_map by (elim imageE)
  then show False using r(2,3) by (cases "sr_family s = f \<and> sr_revoked_at s = None") simp_all
qed

lemma claim_cases:
  assumes "claimSessionRotation i t st = (b, st')"
  shows "b = (\<exists>s. get_session_row i st = Some s \<and> sr_rotated_at s = None)" and "b \<Longrightarrow> \<exists>s. get_session_row i st' = Some s \<and> sr_rotated_at s \<noteq> None"
  using assms by (auto simp: claimSessionRotation_def get_session_row_def find_with_session split: option.splits if_splits)

lemma inv_advance:
  assumes inv: "rotation_inv F w" and i: "i < length (sw_calls w)"
    and step: "rotate_step svc now sid token (sw_calls w ! i) (sw_store w) = (c, st)"
  shows "rotation_inv F (w\<lparr>sw_store := st, sw_calls := (sw_calls w)[i := c]\<rparr>)"
proof -
  let ?c = "sw_calls w ! i"
  have ids: "distinct (map sr_id (st_sessions (sw_store w)))" by (rule rotation_invD(1) [OF inv])
  have h: "held (sw_store w) ?c" using rotation_invD(2) [OF inv] i by simp
  have idle: "rotation_inv F (w\<lparr>sw_store := sw_store w, sw_calls := (sw_calls w)[i := ?c]\<rparr>)" using inv by simp
  show ?thesis
  proof (cases ?c)
    case (RLook presented)
    then have st: "st = sw_store w" and plain: "winner c = None" "\<And>f. c \<noteq> RReused f"
      using step by (auto split: option.splits if_splits)
    have "held (sw_store w) c"
      using step RLook by (auto split: option.splits if_splits intro: held_plain held_found [OF ids])
    then show ?thesis using RLook plain by (intro inv_replace [OF inv _ i]) (auto simp: st)
  next
    case (RUser current t)
    then have st: "st = sw_store w" and plain: "winner c = None" "\<And>f. c \<noteq> RReused f"
      using step by (auto split: reply.splits)
    have "held (sw_store w) c"
      using step RUser h by (auto split: reply.splits intro: held_plain held_same)
    then show ?thesis using RUser plain by (intro inv_replace [OF inv _ i]) (auto simp: st)
  next
    case (RClaim current t)
    obtain b st' where claim: "claimSessionRotation (sr_id current) t (sw_store w) = (b, st')" by fastforce
    have st: "st = st'" and c: "c = (if b then RInsert current t else RRevoke current t)"
      using step RClaim claim by (auto split: if_splits bool.splits)
    have t: "tamed (sw_store w) st" using tamed_claim [of "sw_store w" "sr_id current" t] claim st by simp
    have h': "held st ?c" by (rule held_tamed [OF t h])
    have sound: "held st c"
      using h' RClaim c claim_cases(2) [OF claim] by (auto simp: held_def st)
    have "\<forall>d \<in> set (sw_calls w). winner d \<noteq> Some (sr_id current)" if b
      using rotation_invD(2) [OF inv] claim_cases(1) [OF claim] that unfolding held_def by fastforce
    then show ?thesis using RClaim c by (intro inv_replace [OF inv t i sound]) (auto split: if_splits)
  next
    case (RInsert current t)
    show ?thesis
    proof (cases "insertSession (successor svc current sid token t) (sw_store w)")
      case (Inl v)
      then have "c = RThrew v" "st = sw_store w" using step RInsert by (auto simp: Let_def)
      then show ?thesis using RInsert by (intro inv_replace [OF inv _ i]) (auto intro: held_plain)
    next
      case (Inr st')
      let ?n = "successor svc current sid token t"
      let ?w = "w\<lparr>sw_calls := (sw_calls w)[i := c]\<rparr>"
      have c: "c = RRecheck current t ?n token" and st: "st = (sw_store w)\<lparr>st_sessions := st_sessions (sw_store w) @ [?n]\<rparr>"
        and new: "get_session_row (sr_id ?n) (sw_store w) = None"
        using step RInsert Inr insertSession_result [OF Inr] by (auto simp: Let_def)
      have "held (sw_store w) c" using c RInsert h by (auto intro: held_same)
      then have "rotation_inv F (w\<lparr>sw_store := sw_store w, sw_calls := (sw_calls w)[i := c]\<rparr>)"
        using RInsert c by (intro inv_replace [OF inv _ i]) auto
      then have inv': "rotation_inv F ?w" by simp
      have fam: "sr_family ?n = sr_family current" by (simp add: successor_def fresh_session_def)
      obtain s where s: "get_session_row (sr_id current) (sw_store w) = Some s" "sr_family s = sr_family current"
        using h RInsert by (auto simp: held_def)
      have cin: "c \<in> set (sw_calls ?w)" using i by (simp add: set_update_memI)
      have "\<exists>d \<in> set (sw_calls ?w). rescuer (sw_store ?w) (sr_family ?n) d" if "RReused (sr_family ?n) \<in> set (sw_calls ?w)"
      proof (cases "sr_revoked_at s")
        case None
        then have "live_in (sw_store ?w) (sr_family ?n)" using in_sessions [OF s(1)] s(2) fam by (auto simp: live_in_def)
        then show ?thesis using rotation_invD(4) [OF inv' that] by blast
      next
        case (Some r)
        then have "rescuer (sw_store ?w) (sr_family ?n) c" using s(1) fam by (simp add: c)
        then show ?thesis using cin by blast
      qed
      then have "rotation_inv (insert (sr_family ?n) F) (w\<lparr>sw_store := st, sw_calls := (sw_calls w)[i := c]\<rparr>)"
        using inv_append [OF inv', of ?n] new by (cases w) (simp add: st)
      moreover have "sr_family ?n \<in> F" using rotation_invD(5) [OF inv] in_sessions [OF s(1)] s(2) fam by force
      ultimately show ?thesis by (simp add: insert_absorb)
    qed
  next
    case (RRecheck current t next_row tok)
    then have st: "st = sw_store w" and c: "c = RRevoke current t \<or>
        c = RAnswered current (issued svc next_row tok t) \<and> \<not> (\<exists>s. get_session_row (sr_id current) st = Some s \<and> sr_revoked_at s \<noteq> None)"
      using step by (auto split: option.splits if_splits)
    have "held (sw_store w) c" using c h RRecheck by (auto intro: held_same)
    then show ?thesis using RRecheck c by (intro inv_replace [OF inv _ i]) (auto simp: st)
  next
    case (RRevoke current t)
    have st: "st = snd (revokeFamily (sr_family current) t ''refresh_reuse'' (sw_store w))" and c: "c = RReused (sr_family current)"
      using step RRevoke by auto
    have t: "tamed (sw_store w) st" unfolding st revokeFamily_def by (rule tamed_revokeWhere [OF ids])
    have dead: "\<not> live_in st (sr_family current)" unfolding st by (rule not_live_after_revoke [OF ids])
    obtain s where "get_session_row (sr_id current) (sw_store w) = Some s" "sr_family s = sr_family current"
      using h RRevoke by (auto simp: held_def)
    then have "sr_family current \<in> F" using rotation_invD(5) [OF inv] in_sessions [of "sr_id current" "sw_store w" s] by force
    then show ?thesis using RRevoke c dead by (intro inv_replace [OF inv t i]) (auto intro: held_plain)
  qed (use step idle in auto)
qed

lemma tamed_account: "distinct (map sr_id (st_sessions st)) \<Longrightarrow> tamed st (snd (markAccountDeleted p t st))"
proof -
  assume d: "distinct (map sr_id (st_sessions st))"
  have 1: "tamed st (markUserDeleted u t st)" for u by (rule tamed_users)
  moreover have "tamed (markUserDeleted u t st) (snd (revokeAllForUser u t why (markUserDeleted u t st)))" for u why
    unfolding revokeAllForUser_def using d tamed_ids [OF 1] by (intro tamed_revokeWhere) simp
  ultimately show ?thesis unfolding markAccountDeleted_def by (auto simp: Let_def split: reply.split intro: tamed_trans)
qed

lemma createSession_cases:
  assumes "createSession svc user identity family sid token now st = (r, st')"
  obtains "st' = st" | n where "sr_family n = family" "get_session_row (sr_id n) st = None" "st' = st\<lparr>st_sessions := st_sessions st @ [n]\<rparr>"
proof -
  have "st' = st \<or> (\<exists>n. sr_family n = family \<and> insertSession n st = Inr st')"
    using assms by (auto simp: createSession_def Let_def fresh_session_def split: reply.splits sum.splits if_splits option.splits)
  then show thesis using that insertSession_result by metis
qed

definition event_families :: "session_event \<Rightarrow> string set" where
  "event_families e = set_option (event_family e)"

lemma inv_event:
  assumes inv: "rotation_inv F w" and fresh: "event_families e \<inter> F = {}"
  shows "rotation_inv (F \<union> event_families e) (session_event_step svc e w)"
proof (cases e)
  case (Present token)
  have "rotation_inv F (w\<lparr>sw_calls := sw_calls w @ [RLook token]\<rparr>)"
  proof (rule rotation_invI)
    show "one_winner (sw_calls (w\<lparr>sw_calls := sw_calls w @ [RLook token]\<rparr>))"
      using rotation_invD(3) [OF inv] by (auto simp: one_winner_def nth_append less_Suc_eq split: if_splits)
    fix f
    assume "RReused f \<in> set (sw_calls (w\<lparr>sw_calls := sw_calls w @ [RLook token]\<rparr>))"
      "live_in (sw_store (w\<lparr>sw_calls := sw_calls w @ [RLook token]\<rparr>)) f"
    then show "\<exists>c \<in> set (sw_calls (w\<lparr>sw_calls := sw_calls w @ [RLook token]\<rparr>)).
        rescuer (sw_store (w\<lparr>sw_calls := sw_calls w @ [RLook token]\<rparr>)) f c"
      using rotation_invD(4) [OF inv, of f] by auto
  qed (use rotation_invD [OF inv] in \<open>auto intro: held_plain\<close>)
  then show ?thesis by (simp add: Present event_families_def)
next
  case (Advance i now sid token)
  obtain c st where "rotate_step svc now sid token (sw_calls w ! i) (sw_store w) = (c, st)" by fastforce
  then show ?thesis using inv_advance [OF inv] inv by (simp add: Advance event_families_def)
next
  case (SignIn user identity family sid token now)
  obtain r st where made: "createSession svc user identity family sid token now (sw_store w) = (r, st)" by fastforce
  have "rotation_inv (insert family F) (w\<lparr>sw_store := st\<rparr>)"
    using made
  proof (cases rule: createSession_cases)
    case 1
    then show ?thesis using inv_more [OF inv, of "insert family F"] by auto
  next
    case (2 n)
    have "RReused (sr_family n) \<notin> set (sw_calls w)"
      using rotation_invD(6) [OF inv] fresh 2 by (auto simp: SignIn event_families_def)
    then show ?thesis using inv_append [OF inv 2(2)] 2 by auto
  qed
  then show ?thesis using made by (simp add: SignIn event_families_def)
qed (use inv_tamed [OF inv] tamed_revoke tamed_deleteIdentity tamed_revokeWhere [OF rotation_invD(1) [OF inv]]
    tamed_account [OF rotation_invD(1) [OF inv]] in
    \<open>simp_all add: event_families_def revokeSession_def revokeAllSessions_def revokeAllForUser_def revokeForIdentity_def case_prod_beta\<close>)

lemma families_of_Cons: "families_of (e # evs) = (case event_family e of None \<Rightarrow> families_of evs | Some f \<Rightarrow> f # families_of evs)"
  by (simp add: families_of_def List.map_filter_def split: option.split)

lemma inv_run:
  "rotation_inv F w \<Longrightarrow> distinct (families_of evs) \<Longrightarrow> set (families_of evs) \<inter> F = {} \<Longrightarrow>
    rotation_inv (F \<union> set (families_of evs)) (session_run svc evs w)"
proof (induction evs arbitrary: F w)
  case Nil
  then show ?case by (simp add: session_run_def families_of_def List.map_filter_def)
next
  case (Cons e evs)
  have "rotation_inv (F \<union> event_families e) (session_event_step svc e w)"
    using Cons.prems by (intro inv_event) (auto simp: families_of_Cons event_families_def split: option.splits)
  then have "rotation_inv (F \<union> event_families e \<union> set (families_of evs)) (session_run svc evs (session_event_step svc e w))"
    using Cons.prems by (intro Cons.IH) (auto simp: families_of_Cons event_families_def split: option.splits)
  then show ?case
    by (cases "event_family e") (auto simp: session_run_def families_of_Cons event_families_def)
qed

lemma inv_start: "rotation_inv {} (before_sessions st)"
  by (rule rotation_invI) (simp_all add: before_sessions_def one_winner_def)

lemma reachable_inv: "distinct (families_of evs) \<Longrightarrow> rotation_inv (set (families_of evs)) (session_run svc evs (before_sessions st))"
  using inv_run [OF inv_start] by auto

subsection \<open>What rotation promises\<close>

text \<open>
  C9. A refresh token is good for one rotation. However many calls present it and however their store operations
  interleave with each other and with sign-ins, sign-outs, unlinkings and account closures (each of these taken whole),
  at most one call that started from a given session row is ever answered with a new session.
\<close>

theorem rotation_single_use:
  assumes "distinct (families_of evs)"
    and "i < length (sw_calls (session_run svc evs (before_sessions st)))"
    and "j < length (sw_calls (session_run svc evs (before_sessions st)))"
    and "sw_calls (session_run svc evs (before_sessions st)) ! i = RAnswered a x"
    and "sw_calls (session_run svc evs (before_sessions st)) ! j = RAnswered b y" and "sr_id a = sr_id b"
  shows "i = j"
  using rotation_invD(3) [OF reachable_inv [OF assms(1)]] assms(2-6) unfolding one_winner_def by fastforce

text \<open>
  C10. Reuse ends the family. Once a call has been answered that a token was reused, and every call then in flight
  has finished, no session of that family is live, whatever the interleaving: a successor another call was
  inserting while the family was being revoked is revoked too.
\<close>

theorem reuse_ends_family:
  assumes "distinct (families_of evs)"
    and "RReused f \<in> set (sw_calls (session_run svc evs (before_sessions st)))"
    and "\<forall>c \<in> set (sw_calls (session_run svc evs (before_sessions st))). call_finished c"
    and "s \<in> set (st_sessions (sw_store (session_run svc evs (before_sessions st))))" and "sr_family s = f"
  shows "sr_revoked_at s \<noteq> None \<and> verify_session (sr_id s) now (sw_store (session_run svc evs (before_sessions st))) = Fail D_SESSION_REVOKED"
proof -
  let ?w = "session_run svc evs (before_sessions st)"
  have inv: "rotation_inv (set (families_of evs)) ?w" by (rule reachable_inv [OF assms(1)])
  have "\<not> rescuer st' f c" if "call_finished c" for c st'
    using that by (cases c) (simp_all add: call_finished_def rotation_reply_def)
  then have "\<not> live_in (sw_store ?w) f" using rotation_invD(4) [OF inv assms(2)] assms(3) by blast
  then have "sr_revoked_at s \<noteq> None" using assms(4,5) by (auto simp: live_in_def)
  moreover have "get_session_row (sr_id s) (sw_store ?w) = Some s"
    unfolding get_session_row_def by (rule find_by_id [OF rotation_invD(1) [OF inv] assms(4)])
  ultimately show ?thesis by (simp add: verify_session_def)
qed

definition sample_service :: session_service where
  "sample_service = new_session_service None None (\<lambda>t. ''#'' @ t)"

text \<open>One rotation that succeeds, and a second presentation of the same token afterwards.\<close>

definition sample_rotation :: "session_event list" where
  "sample_rotation =
     [SignIn ''u'' None ''f'' ''s1'' ''t1'' 0, Present ''t1'', Advance 0 1 ''a'' ''b'', Advance 0 1 ''a'' ''b'', Advance 0 1 ''a'' ''b'',
      Advance 0 1 ''s2'' ''t2'', Advance 0 1 ''a'' ''b'', Present ''t1'', Advance 1 1 ''a'' ''b'', Advance 1 1 ''a'' ''b'']"

text \<open>
  Two calls present one token; the loser revokes the family after the winner's claim and before its insert.
\<close>

definition sample_race :: "session_event list" where
  "sample_race =
     [SignIn ''u'' None ''f'' ''s1'' ''t1'' 0, Present ''t1'', Present ''t1'',
      Advance 0 1 ''a'' ''b'', Advance 1 1 ''a'' ''b'', Advance 0 1 ''a'' ''b'', Advance 1 1 ''a'' ''b'',
      Advance 0 1 ''a'' ''b'', Advance 1 1 ''a'' ''b'', Advance 1 1 ''a'' ''b'',
      Advance 0 1 ''s2'' ''t2'', Advance 0 1 ''a'' ''b'', Advance 0 1 ''a'' ''b'']"

definition sample_world :: session_world where
  "sample_world = session_run sample_service sample_race (before_sessions (empty_auth_store\<lparr>st_users := [sample_user ''u'']\<rparr>))"

lemmas rotation_eval = session_run_def before_sessions_def createSession_def live_account_def getUser_def sample_user_def empty_auth_store_def
  Let_def insertSession_def get_session_row_def find_session_def findSessionByDigest_def claimSessionRotation_def with_session_def
  mark_rotated_def mark_revoked_def revokeFamily_def revokeWhere_def successor_def fresh_session_def issued_def sample_service_def
  new_session_service_def ACCESS_TTL_MS_def REFRESH_TTL_MS_def CURRENT_DIGEST_VERSION_def families_of_def List.map_filter_def
  sample_race_def sample_world_def sample_rotation_def

definition rotated_world :: session_world where
  "rotated_world = session_run sample_service sample_rotation (before_sessions (empty_auth_store\<lparr>st_users := [sample_user ''u'']\<rparr>))"

definition rotated_from :: "string \<Rightarrow> rotation \<Rightarrow> bool" where
  "rotated_from i c = (case c of RAnswered s x \<Rightarrow> sr_id s = i | _ \<Rightarrow> False)"

lemma rotated_world_value:
  "map (rotated_from ''s1'') (sw_calls rotated_world) = [True, False]"
  by (simp add: rotated_world_def rotation_eval rotated_from_def)

lemma rotation_single_use_witness:
  "{i \<in> {..<2}. rotated_from ''s1'' (sw_calls rotated_world ! i)} = {0}"
proof -
  have len: "length (sw_calls rotated_world) = 2"
    using rotated_world_value by (metis length_map length_Cons list.size(3) numeral_2_eq_2)
  have 0: "rotated_from ''s1'' (sw_calls rotated_world ! 0)"
    using rotated_world_value len by (cases "sw_calls rotated_world") auto
  have d: "distinct (families_of sample_rotation)" by (simp add: sample_rotation_def families_of_def List.map_filter_def)
  have "i = 0" if "i < 2" "rotated_from ''s1'' (sw_calls rotated_world ! i)" for i
    using that 0 len rotation_single_use [OF d, of i sample_service "empty_auth_store\<lparr>st_users := [sample_user ''u'']\<rparr>" 0]
    unfolding rotated_world_def [symmetric] by (auto simp: rotated_from_def split: rotation.splits)
  then show ?thesis using 0 by auto
qed

lemma sample_world_value:
  "sw_calls sample_world = [RReused ''f'', RReused ''f''] \<and> map sr_id (st_sessions (sw_store sample_world)) = [''s1'', ''s2''] \<and>
    map sr_family (st_sessions (sw_store sample_world)) = [''f'', ''f'']"
  by (simp add: rotation_eval)

lemma reuse_ends_family_witness:
  "sr_revoked_at (st_sessions (sw_store sample_world) ! 1) \<noteq> None"
proof -
  let ?s = "st_sessions (sw_store sample_world) ! 1"
  have "length (st_sessions (sw_store sample_world)) = 2" using sample_world_value by (metis length_map length_Cons list.size(3) numeral_2_eq_2)
  then have s: "?s \<in> set (st_sessions (sw_store sample_world))" "sr_family ?s = ''f''"
    using sample_world_value by (auto simp: nth_map [symmetric] simp del: nth_map)
  have "distinct (families_of sample_race)" by (simp add: sample_race_def families_of_def List.map_filter_def)
  then show ?thesis
    using reuse_ends_family [of sample_race "''f''" sample_service "empty_auth_store\<lparr>st_users := [sample_user ''u'']\<rparr>" ?s 0] s sample_world_value
    unfolding sample_world_def [symmetric] by (auto simp: call_finished_def rotation_reply_def)
qed

end
