(* ===== verification/Identities.thy ===== *)
theory Identities
  imports Sessions
begin

text \<open>
  Ways of signing in: \<open>server/app/identity-service.ts\<close>, and the installations of an account,
  \<open>server/app/device-service.ts\<close> with \<open>isDeviceId\<close> of \<open>server/domain/ids.ts\<close>. Unlinking is a machine
  with one step per call of the store, since what it checks and what it removes lie in different steps.
\<close>

subsection \<open>Addresses\<close>

fun last_index :: "char \<Rightarrow> string \<Rightarrow> nat option" where
  "last_index c [] = None"
| "last_index c (x # xs) = (case last_index c xs of Some i \<Rightarrow> Some (Suc i) | None \<Rightarrow> if x = c then Some 0 else None)"

definition normaliseEmail :: "string \<Rightarrow> string" where
  "normaliseEmail value =
     (let trimmed = js_trim value in
      case last_index (CHR ''@'') trimmed of
        None \<Rightarrow> trimmed
      | Some i \<Rightarrow> if i = 0 \<or> i = length trimmed - 1 then trimmed else take i trimmed @ js_lower (drop i trimmed))"

record verified_identity =
  vi_kind :: identity_kind
  vi_subject :: "string option"
  vi_email :: "string option"
  vi_emailVerified :: bool

definition isUsable :: "verified_identity \<Rightarrow> bool" where
  "isUsable v =
     (if vi_subject v = None \<and> vi_email v = None then False
      else if (case vi_email v of
                 None \<Rightarrow> False
               | Some email \<Rightarrow>
                   \<not> vi_emailVerified v \<or> email \<noteq> normaliseEmail email \<or> length email = 0 \<or> list_ex js_space email) then False
      else (case vi_subject v of None \<Rightarrow> True | Some subject \<Rightarrow> length subject \<noteq> 0))"

definition isVerified :: "identity_row \<Rightarrow> bool" where
  "isVerified r = (if ir_subject r \<noteq> None then True else ir_email r \<noteq> None \<and> ir_email_verified r)"

subsection \<open>Resolving and linking\<close>

datatype resolution = Existing string identity_row | UnknownIdentity

definition resolveIdentity :: "verified_identity \<Rightarrow> auth_store \<Rightarrow> resolution reply" where
  "resolveIdentity v st =
     (if \<not> isUsable v then Fail D_INVALID_ARGUMENT
      else
        case vi_subject v of
          Some subject \<Rightarrow>
            (case findIdentityBySubject (vi_kind v) subject st of
               Some r \<Rightarrow> Ok (Existing (ir_user r) r)
             | None \<Rightarrow> Ok UnknownIdentity)
        | None \<Rightarrow>
            (case vi_email v of
               Some email \<Rightarrow>
                 if vi_emailVerified v then
                   (case findIdentityByVerifiedEmail (vi_kind v) email st of
                      Some r \<Rightarrow> Ok (Existing (ir_user r) r)
                    | None \<Rightarrow> Ok UnknownIdentity)
                 else Ok UnknownIdentity
             | None \<Rightarrow> Ok UnknownIdentity))"

definition linked_row :: "principal \<Rightarrow> verified_identity \<Rightarrow> string \<Rightarrow> int \<Rightarrow> identity_row" where
  "linked_row p v i now =
     \<lparr>ir_id = i, ir_user = pr_user p, ir_kind = vi_kind v, ir_subject = vi_subject v, ir_email = vi_email v,
      ir_email_verified = vi_emailVerified v, ir_linked_at = now, ir_linked_via = Some (pr_session p), ir_last_used_at = None\<rparr>"

definition attachIdentity :: "principal \<Rightarrow> verified_identity \<Rightarrow> string \<Rightarrow> int \<Rightarrow> auth_store \<Rightarrow> identity_row reply \<times> auth_store" where
  "attachIdentity p v i now st =
     (if \<not> isUsable v then (Fail D_INVALID_ARGUMENT, st)
      else
        case live_account (pr_user p) st of
          Fail e \<Rightarrow> (Fail e, st)
        | Threw x \<Rightarrow> (Threw x, st)
        | Ok u \<Rightarrow>
            (case resolveIdentity v st of
               Fail e \<Rightarrow> (Fail e, st)
             | Threw x \<Rightarrow> (Threw x, st)
             | Ok (Existing owner r) \<Rightarrow> (if owner = pr_user p then Ok r else Fail D_IDENTITY_IN_USE, st)
             | Ok UnknownIdentity \<Rightarrow>
                 let row = linked_row p v i now in
                 (case insertIdentity row st of
                    Inl violation \<Rightarrow> (Fail D_IDENTITY_IN_USE, st)
                  | Inr st' \<Rightarrow> (Ok row, st'))))"

definition listIdentities :: "principal \<Rightarrow> auth_store \<Rightarrow> identity_row list" where
  "listIdentities p st = store_identities (pr_user p) st"

subsection \<open>Unlinking\<close>

datatype detaching =
    DGet
  | DList
  | DRevoke
  | DDelete nat
  | DAnswered "nat reply"

record detach_call =
  dt_principal :: principal
  dt_identity :: string
  dt_stage :: detaching

definition way_in :: "string \<Rightarrow> auth_store \<Rightarrow> identity_row list" where
  "way_in user st = filter isVerified (store_identities user st)"

fun detach_step :: "principal \<Rightarrow> string \<Rightarrow> int \<Rightarrow> detaching \<Rightarrow> auth_store \<Rightarrow> detaching \<times> auth_store" where
  "detach_step p i now DGet st =
     (case getIdentity i st of
        None \<Rightarrow> (DAnswered (Fail D_NOT_FOUND), st)
      | Some r \<Rightarrow> (if ir_user r \<noteq> pr_user p then DAnswered (Fail D_NOT_FOUND) else DList, st))"
| "detach_step p i now DList st =
     (let remaining = filter (\<lambda>r. ir_id r \<noteq> i \<and> isVerified r) (listIdentities p st) in
      (if remaining = [] then DAnswered (Fail D_LAST_IDENTITY) else DRevoke, st))"
| "detach_step p i now DRevoke st =
     (case revokeForIdentity i now ''identity_unlinked'' st of (n, st') \<Rightarrow> (DDelete n, st'))"
| "detach_step p i now (DDelete n) st = (DAnswered (Ok n), deleteIdentity i st)"
| "detach_step p i now (DAnswered x) st = (DAnswered x, st)"

definition detach_call_step :: "int \<Rightarrow> nat \<Rightarrow> detach_call list \<times> auth_store \<Rightarrow> detach_call list \<times> auth_store" where
  "detach_call_step now k w =
     (let c = fst w ! k in
      case detach_step (dt_principal c) (dt_identity c) now (dt_stage c) (snd w) of
        (stage, st) \<Rightarrow> ((fst w)[k := c\<lparr>dt_stage := stage\<rparr>], st))"

text \<open>The calls advance in the order of a schedule of their indices.\<close>

definition detach_run :: "int \<Rightarrow> nat list \<Rightarrow> detach_call list \<times> auth_store \<Rightarrow> detach_call list \<times> auth_store" where
  "detach_run now = fold (detach_call_step now)"

definition detachIdentity :: "principal \<Rightarrow> string \<Rightarrow> int \<Rightarrow> auth_store \<Rightarrow> detach_call list \<times> auth_store" where
  "detachIdentity p i now st =
     detach_run now [0, 0, 0, 0] ([\<lparr>dt_principal = p, dt_identity = i, dt_stage = DGet\<rparr>], st)"

subsection \<open>Devices\<close>

definition hex_lower :: "char \<Rightarrow> bool" where
  "hex_lower c \<longleftrightarrow> js_digit c \<or> c \<in> set ''abcdef''"

text \<open>\<open>dev_\<close> and a lower-case UUID: groups of 8, 4, 4, 4 and 12 digits.\<close>

definition isDeviceId :: "string \<Rightarrow> bool" where
  "isDeviceId s =
     (take 4 s = ''dev_'' \<and> map length (js_split (CHR ''-'') (drop 4 s)) = [8, 4, 4, 4, 12] \<and>
      list_all (list_all hex_lower) (js_split (CHR ''-'') (drop 4 s)))"

definition registerDevice :: "principal \<Rightarrow> string \<Rightarrow> int \<Rightarrow> auth_store \<Rightarrow> device_row reply \<times> auth_store" where
  "registerDevice p d now st =
     (if \<not> isDeviceId d then (Fail D_INVALID_ARGUMENT, st)
      else
        case live_account (pr_user p) st of
          Fail e \<Rightarrow> (Fail e, st)
        | Threw v \<Rightarrow> (Threw v, st)
        | Ok u \<Rightarrow>
            if getDevice (pr_user p) d st \<noteq> None then
              let st' = store_touchDevice (pr_user p) d now st in
              (case getDevice (pr_user p) d st' of None \<Rightarrow> Fail D_NOT_FOUND | Some r \<Rightarrow> Ok r, st')
            else
              let row = \<lparr>dr_user = pr_user p, dr_id = d, dr_registered_at = now, dr_last_seen_at = now, dr_retired_at = None,
                         dr_reactivated_at = None\<rparr> in
              (case insertDevice row st of Inl v \<Rightarrow> (Threw v, st) | Inr st' \<Rightarrow> (Ok row, st')))"

text \<open>The three operations on a registered device: refused for a dead account or an unknown device.\<close>

definition with_registered ::
  "principal \<Rightarrow> string \<Rightarrow> (device_row \<Rightarrow> device_row reply \<times> auth_store) \<Rightarrow> auth_store \<Rightarrow> device_row reply \<times> auth_store" where
  "with_registered p d k st =
     (case live_account (pr_user p) st of
        Fail e \<Rightarrow> (Fail e, st)
      | Threw v \<Rightarrow> (Threw v, st)
      | Ok u \<Rightarrow> (case getDevice (pr_user p) d st of None \<Rightarrow> (Fail D_NOT_FOUND, st) | Some r \<Rightarrow> k r))"

definition reread_device :: "principal \<Rightarrow> string \<Rightarrow> auth_store \<Rightarrow> device_row reply \<times> auth_store" where
  "reread_device p d st = (case getDevice (pr_user p) d st of None \<Rightarrow> Fail D_NOT_FOUND | Some r \<Rightarrow> Ok r, st)"

definition retireDevice :: "principal \<Rightarrow> string \<Rightarrow> int \<Rightarrow> auth_store \<Rightarrow> device_row reply \<times> auth_store" where
  "retireDevice p d now st =
     with_registered p d (\<lambda>r. if dr_retired_at r \<noteq> None then (Ok r, st)
       else reread_device p d (setDeviceRetired (pr_user p) d (Some now) (dr_reactivated_at r) st)) st"

definition reactivateDevice :: "principal \<Rightarrow> string \<Rightarrow> int \<Rightarrow> auth_store \<Rightarrow> device_row reply \<times> auth_store" where
  "reactivateDevice p d now st =
     with_registered p d (\<lambda>r. if dr_retired_at r = None then (Ok r, st)
       else reread_device p d (setDeviceRetired (pr_user p) d None (Some now) st)) st"

definition touchDevice :: "principal \<Rightarrow> string \<Rightarrow> int \<Rightarrow> auth_store \<Rightarrow> device_row reply \<times> auth_store" where
  "touchDevice p d now st =
     with_registered p d (\<lambda>r. if dr_retired_at r \<noteq> None then (Fail D_DEVICE_RETIRED, st)
       else reread_device p d (store_touchDevice (pr_user p) d now st)) st"

subsection \<open>Canonical addresses\<close>

lemma last_index_bound: "last_index c s = Some i \<Longrightarrow> i < length s"
  by (induction s arbitrary: i) (auto split: option.splits if_splits)

lemma last_index_map: "(\<And>x. f x = c \<longleftrightarrow> x = c) \<Longrightarrow> last_index c (map f s) = last_index c s"
  by (induction s) (simp_all split: option.splits)

lemma last_index_map_tail:
  "(\<And>x. f x = c \<longleftrightarrow> x = c) \<Longrightarrow> last_index c (take n s @ map f (drop n s)) = last_index c s"
  by (induction s arbitrary: n) (auto simp: last_index_map take_Cons' drop_Cons' split: option.splits)

lemma code_of [simp]: "char_code (char_of n) = n mod 256"
  by (simp add: char_code_def)

lemma lower_code:
  "char_code (js_lower_char x) = (if 65 \<le> char_code x \<and> char_code x \<le> 90 \<or>
    192 \<le> char_code x \<and> char_code x \<le> 222 \<and> char_code x \<noteq> 215 then char_code x + 32 else char_code x)"
  by (auto simp: js_lower_char_def Let_def)

lemma code_inj: "char_code x = char_code y \<longleftrightarrow> x = y"
  by (simp add: char_code_def)

lemma lower_at: "js_lower_char x = CHR ''@'' \<longleftrightarrow> x = CHR ''@''"
proof -
  have "char_code (CHR ''@'') = 64" by (simp add: char_code_def)
  then show ?thesis using lower_code [of x] by (auto simp: code_inj [symmetric])
qed

lemma lower_space: "js_space (js_lower_char x) \<longleftrightarrow> js_space x"
  by (auto simp: js_space_def lower_code Let_def)

lemma lower_lower: "js_lower_char (js_lower_char x) = js_lower_char x"
  by (auto simp: code_inj [symmetric] lower_code)

lemma trim_fixed: "s = [] \<or> \<not> js_space (hd s) \<and> \<not> js_space (last s) \<Longrightarrow> js_trim s = s"
proof (cases "s = []")
  case False
  assume "s = [] \<or> \<not> js_space (hd s) \<and> \<not> js_space (last s)"
  then have "dropWhile js_space s = s" "dropWhile js_space (rev s) = rev s"
    using False by (simp_all add: dropWhile_eq_self_iff hd_rev)
  then show ?thesis by (simp add: js_trim_def)
qed (simp add: js_trim_def)

lemma trim_ends:
  assumes "js_trim s \<noteq> []"
  shows "\<not> js_space (hd (js_trim s)) \<and> \<not> js_space (last (js_trim s))"
proof -
  let ?a = "dropWhile js_space s"
  have ne: "dropWhile js_space (rev ?a) \<noteq> []" using assms by (simp add: js_trim_def)
  have "?a = js_trim s @ rev (takeWhile js_space (rev ?a))"
    by (metis js_trim_def rev_append rev_rev_ident takeWhile_dropWhile_id)
  then have "hd ?a = hd (js_trim s)" "?a \<noteq> []" using assms by (metis hd_append2, metis append_is_Nil_conv)
  moreover have "\<not> js_space (hd ?a)" using calculation(2) by (rule hd_dropWhile)
  moreover have "\<not> js_space (last (js_trim s))" using hd_dropWhile [OF ne] by (simp add: js_trim_def last_rev)
  ultimately show ?thesis by simp
qed

lemma trim_trim [simp]: "js_trim (js_trim s) = js_trim s"
  using trim_ends trim_fixed by blast

lemma space_tail:
  assumes "js_trim s = s"
  shows "js_trim (take n s @ js_lower (drop n s)) = take n s @ js_lower (drop n s)"
proof (rule trim_fixed)
  let ?r = "take n s @ js_lower (drop n s)"
  have map: "map js_space ?r = map js_space s"
    by (simp add: js_lower_def lower_space o_def) (metis append_take_drop_id map_append)
  show "?r = [] \<or> \<not> js_space (hd ?r) \<and> \<not> js_space (last ?r)"
  proof (cases "s = []")
    case True
    then show ?thesis by (simp add: js_lower_def)
  next
    case False
    then have r: "?r \<noteq> []" using map by (metis map_is_Nil_conv)
    have "js_space (hd ?r) = js_space (hd s)" using map r False by (metis hd_map)
    moreover have "js_space (last ?r) = js_space (last s)" using map r False by (metis last_map)
    ultimately show ?thesis using trim_ends [of s] assms False by simp
  qed
qed

lemma normalise_canonical: "normaliseEmail (normaliseEmail value) = normaliseEmail value"
proof (cases "last_index (CHR ''@'') (js_trim value)")
  case None
  then show ?thesis by (simp add: normaliseEmail_def Let_def)
next
  case (Some i)
  let ?t = "js_trim value"
  let ?r = "take i ?t @ js_lower (drop i ?t)"
  show ?thesis
  proof (cases "i = 0 \<or> i = length ?t - 1")
    case True
    then show ?thesis using Some by (simp add: normaliseEmail_def Let_def)
  next
    case False
    then have n: "normaliseEmail value = ?r" using Some by (simp add: normaliseEmail_def Let_def)
    have i: "i < length ?t" using last_index_bound [OF Some] .
    have trim: "js_trim ?r = ?r" by (rule space_tail) simp
    have last: "last_index (CHR ''@'') ?r = Some i" using Some last_index_map_tail [of js_lower_char, OF lower_at] by (simp add: js_lower_def)
    have len: "length ?r = length ?t" by (simp add: js_lower_def)
    have "js_lower (drop i ?r) = js_lower (drop i ?t)" using i by (simp add: js_lower_def lower_lower)
    moreover have "take i ?r = take i ?t" using i by simp
    ultimately show ?thesis unfolding n normaliseEmail_def [of ?r] using trim last len False by (simp add: Let_def)
  qed
qed

subsection \<open>Linking\<close>

lemma find_append_cases: "List.find P (xs @ ys) = (case List.find P xs of None \<Rightarrow> List.find P ys | Some x \<Rightarrow> Some x)"
  by (induction xs) auto

text \<open>The row the store files a credential under, which is what resolving reads.\<close>

definition matching :: "verified_identity \<Rightarrow> auth_store \<Rightarrow> identity_row option" where
  "matching v st =
     (case vi_subject v of
        Some subject \<Rightarrow> findIdentityBySubject (vi_kind v) subject st
      | None \<Rightarrow> (case vi_email v of Some email \<Rightarrow> findIdentityByVerifiedEmail (vi_kind v) email st | None \<Rightarrow> None))"

lemma resolve_matching:
  assumes "isUsable v"
  shows "resolveIdentity v st = Ok (case matching v st of Some r \<Rightarrow> Existing (ir_user r) r | None \<Rightarrow> UnknownIdentity)"
proof -
  have "vi_emailVerified v" if "vi_email v = Some e" for e
    using assms that by (auto simp: isUsable_def split: if_splits)
  then show ?thesis using assms by (simp add: resolveIdentity_def matching_def split: option.split)
qed

lemma matching_append:
  "matching v (st\<lparr>st_identities := st_identities st @ [r]\<rparr>) =
    (case matching v st of Some x \<Rightarrow> Some x | None \<Rightarrow> matching v (st\<lparr>st_identities := [r]\<rparr>))"
  by (simp add: matching_def findIdentityBySubject_def findIdentityByVerifiedEmail_def find_append_cases split: option.split)

lemma matching_own:
  assumes "isUsable v"
  shows "matching v (st\<lparr>st_identities := [linked_row p v i now]\<rparr>) = Some (linked_row p v i now)"
  using assms
  by (auto simp: matching_def isUsable_def findIdentityBySubject_def findIdentityByVerifiedEmail_def linked_row_def
      split: option.splits if_splits)

lemma insertIdentity_result: "insertIdentity r st = Inr st' \<Longrightarrow> st' = st\<lparr>st_identities := st_identities st @ [r]\<rparr>"
  by (auto simp: insertIdentity_def Let_def split: if_splits)

lemma attach_cases:
  assumes "attachIdentity p v i now st = (Ok r, st')"
  obtains "isUsable v" "matching v st = Some r" "ir_user r = pr_user p" "st' = st"
    | "isUsable v" "matching v st = None" "r = linked_row p v i now" "st' = st\<lparr>st_identities := st_identities st @ [r]\<rparr>"
proof -
  have u: "isUsable v" using assms by (auto simp: attachIdentity_def split: if_splits)
  show thesis
    using assms that u unfolding attachIdentity_def resolve_matching [OF u]
    by (auto simp: Let_def split: reply.splits option.splits sum.splits if_splits dest: insertIdentity_result)
qed

text \<open>
  Linking is what resolving reads. Once linking a credential has succeeded, resolving it gives the account that
  linked it, and that very identity; and linking never changes whose another credential is: whatever resolved to an
  account before still resolves to that account, and users, sessions and devices are as they were.
\<close>

theorem link_resolves:
  assumes "attachIdentity p v i now st = (Ok r, st')"
  shows "resolveIdentity v st' = Ok (Existing (pr_user p) r) \<and>
    {(c, owner, x). resolveIdentity c st = Ok (Existing owner x)} \<subseteq> {(c, owner, x). resolveIdentity c st' = Ok (Existing owner x)} \<and>
    st_users st' = st_users st \<and> st_sessions st' = st_sessions st \<and> st_devices st' = st_devices st"
  using assms
proof (cases rule: attach_cases)
  case 1
  then show ?thesis by (simp add: resolve_matching)
next
  case 2
  have "matching v st' = Some r" using 2 by (simp add: matching_append matching_own)
  moreover have "ir_user r = pr_user p" using 2 by (simp add: linked_row_def)
  moreover have "resolveIdentity c st' = Ok (Existing owner x)" if c: "resolveIdentity c st = Ok (Existing owner x)" for c owner x
  proof -
    have u: "isUsable c" using c by (auto simp: resolveIdentity_def split: if_splits)
    show ?thesis using c 2(4) unfolding resolve_matching [OF u] by (auto simp: matching_append split: option.splits)
  qed
  ultimately show ?thesis using 2 by (auto simp: resolve_matching)
qed

subsection \<open>Unlinking\<close>

lemma revoke_identities [simp]:
  "st_identities (snd (revokeForIdentity i t why st)) = st_identities st" "st_users (snd (revokeForIdentity i t why st)) = st_users st"
  by (simp_all add: revokeForIdentity_def revokeWhere_def Let_def)

lemma detach_outcome:
  "detachIdentity p i now st =
    (case getIdentity i st of
       None \<Rightarrow> ([\<lparr>dt_principal = p, dt_identity = i, dt_stage = DAnswered (Fail D_NOT_FOUND)\<rparr>], st)
     | Some r \<Rightarrow>
         if ir_user r \<noteq> pr_user p then ([\<lparr>dt_principal = p, dt_identity = i, dt_stage = DAnswered (Fail D_NOT_FOUND)\<rparr>], st)
         else if filter (\<lambda>r. ir_id r \<noteq> i \<and> isVerified r) (store_identities (pr_user p) st) = []
         then ([\<lparr>dt_principal = p, dt_identity = i, dt_stage = DAnswered (Fail D_LAST_IDENTITY)\<rparr>], st)
         else ([\<lparr>dt_principal = p, dt_identity = i, dt_stage = DAnswered (Ok (fst (revokeForIdentity i now ''identity_unlinked'' st)))\<rparr>],
           deleteIdentity i (snd (revokeForIdentity i now ''identity_unlinked'' st))))"
  by (simp add: detachIdentity_def detach_run_def detach_call_step_def listIdentities_def Let_def case_prod_beta split: option.split)

lemma deleted_identities [simp]: "st_identities (deleteIdentity i st) = filter (\<lambda>r. ir_id r \<noteq> i) (st_identities st)"
  by (simp add: deleteIdentity_def)

lemma revoked_through:
  assumes "distinct (map sr_id (st_sessions st))" and "s \<in> set (st_sessions (deleteIdentity i (snd (revokeForIdentity i t why st))))"
    and "s0 \<in> set (st_sessions st)" "sr_id s0 = sr_id s" "sr_identity s0 = Some i"
  shows "sr_revoked_at s \<noteq> None"
proof -
  obtain s1 where s1: "s1 \<in> set (st_sessions st)" "sr_id s1 = sr_id s" "sr_revoked_at s = None \<longrightarrow> sr_identity s1 \<noteq> Some i"
    using assms(2) unfolding deleteIdentity_def revokeForIdentity_def revokeWhere_map [OF assms(1)]
    by (auto split: if_splits simp: image_iff)
  have "inj_on sr_id (set (st_sessions st))" using assms(1) by (simp add: distinct_map)
  then have "s1 = s0" using s1(1,2) assms(3,4) by (metis inj_onD)
  then show ?thesis using s1(3) assms(5) by blast
qed

text \<open>
  C12. One unlinking at a time keeps an account reachable. When no other unlinking of the account runs between its
  steps, an unlinking is refused and changes nothing, because the account has no such identity or because every verified
  one it has is that one; or it removes that identity alone, leaves the account at least one verified way in, leaves
  every other account's identities as they were, and leaves no live session that was opened through the identity it
  removed.
\<close>

theorem unlink_keeps_a_way_in:
  assumes "distinct (map ir_id (st_identities st))" and "distinct (map sr_id (st_sessions st))"
    and "detachIdentity p i now st = (calls, st')"
  shows "(\<exists>e. map dt_stage calls = [DAnswered (Fail e)] \<and> st' = st \<and>
      (e = D_NOT_FOUND \<and> (\<forall>r \<in> set (store_identities (pr_user p) st). ir_id r \<noteq> i) \<or>
       e = D_LAST_IDENTITY \<and> (\<exists>r \<in> set (store_identities (pr_user p) st). ir_id r = i) \<and>
         (\<forall>r \<in> set (way_in (pr_user p) st). ir_id r = i))) \<or>
    (\<exists>n. map dt_stage calls = [DAnswered (Ok n)] \<and> way_in (pr_user p) st' \<noteq> [] \<and>
      st_identities st' = filter (\<lambda>r. ir_id r \<noteq> i) (st_identities st) \<and>
      {u. store_identities u st' \<noteq> store_identities u st} \<subseteq> {pr_user p} \<and>
      {s \<in> set (st_sessions st'). sr_revoked_at s = None \<and> (\<exists>s0 \<in> set (st_sessions st). sr_id s0 = sr_id s \<and> sr_identity s0 = Some i)} = {})"
proof (cases "getIdentity i st")
  case None
  then have "\<forall>r \<in> set (st_identities st). ir_id r \<noteq> i" by (auto simp: getIdentity_def find_None_iff)
  then show ?thesis using assms(3) None by (auto simp: detach_outcome store_identities_def)
next
  case (Some r)
  let ?st = "deleteIdentity i (snd (revokeForIdentity i now ''identity_unlinked'' st))"
  have r: "r \<in> set (st_identities st)" "ir_id r = i" using Some by (auto simp: getIdentity_def find_Some_iff)
  have only: "x = r" if "x \<in> set (st_identities st)" "ir_id x = i" for x
    using that r assms(1) by (auto simp: distinct_map dest: inj_onD)
  consider (foreign) "ir_user r \<noteq> pr_user p"
    | (last) "ir_user r = pr_user p" "filter (\<lambda>r. ir_id r \<noteq> i \<and> isVerified r) (store_identities (pr_user p) st) = []"
    | (removed) "ir_user r = pr_user p" "filter (\<lambda>r. ir_id r \<noteq> i \<and> isVerified r) (store_identities (pr_user p) st) \<noteq> []" by blast
  then show ?thesis
  proof cases
    case foreign
    then have "\<forall>x \<in> set (store_identities (pr_user p) st). ir_id x \<noteq> i" using only by (auto simp: store_identities_def)
    then show ?thesis using assms(3) Some foreign by (auto simp: detach_outcome)
  next
    case last
    then have "\<forall>x \<in> set (way_in (pr_user p) st). ir_id x = i" by (auto simp: way_in_def filter_empty_conv)
    moreover have "r \<in> set (store_identities (pr_user p) st)" using r last(1) by (simp add: store_identities_def)
    ultimately show ?thesis using assms(3) Some last r(2) by (auto simp: detach_outcome)
  next
    case removed
    have st': "st' = ?st" "\<exists>n. map dt_stage calls = [DAnswered (Ok n)]"
      using assms(3) Some removed by (auto simp: detach_outcome)
    have "way_in (pr_user p) st' \<noteq> []" using removed(2) by (simp add: st'(1) way_in_def store_identities_def conj_commute conj_left_commute)
    moreover have "store_identities u st' = store_identities u st" if "u \<noteq> pr_user p" for u
    proof -
      have "ir_id x \<noteq> i" if "x \<in> set (st_identities st)" "ir_user x = u" for x
        using that r removed(1) \<open>u \<noteq> pr_user p\<close> assms(1) by (auto simp: distinct_map dest: inj_onD)
      then show ?thesis by (auto simp: st'(1) store_identities_def intro: filter_cong)
    qed
    moreover have "sr_revoked_at s \<noteq> None" if "s \<in> set (st_sessions st')" "s0 \<in> set (st_sessions st)" "sr_id s0 = sr_id s" "sr_identity s0 = Some i" for s s0
      using revoked_through [OF assms(2)] that unfolding st'(1) by blast
    ultimately show ?thesis using st' by auto
  qed
qed

definition sample_identity :: "string \<Rightarrow> identity_row" where
  "sample_identity i =
     \<lparr>ir_id = i, ir_user = ''u'', ir_kind = GoogleIdentity, ir_subject = Some i, ir_email = None, ir_email_verified = False,
      ir_linked_at = 0, ir_linked_via = None, ir_last_used_at = None\<rparr>"

definition two_identities :: auth_store where
  "two_identities =
     empty_auth_store\<lparr>st_users := [sample_user ''u''], st_identities := [sample_identity ''a'', sample_identity ''b'']\<rparr>"

definition sample_principal :: principal where
  "sample_principal = \<lparr>pr_user = ''u'', pr_session = ''s'', pr_identity = None\<rparr>"

lemma unlink_keeps_a_way_in_witness:
  "map dt_stage (fst (detachIdentity sample_principal ''a'' 5 two_identities)) = [DAnswered (Ok 0)] \<and>
    way_in ''u'' (snd (detachIdentity sample_principal ''a'' 5 two_identities)) \<noteq> []"
proof -
  have stage: "map dt_stage (fst (detachIdentity sample_principal ''a'' 5 two_identities)) = [DAnswered (Ok 0)]"
    by (simp add: detach_outcome two_identities_def sample_identity_def sample_principal_def getIdentity_def store_identities_def
        isVerified_def empty_auth_store_def revokeForIdentity_def revokeWhere_def)
  have d: "distinct (map ir_id (st_identities two_identities))" "distinct (map sr_id (st_sessions two_identities))"
    by (simp_all add: two_identities_def sample_identity_def empty_auth_store_def)
  show ?thesis
    using stage unlink_keeps_a_way_in [OF d, of sample_principal "''a''" 5 "fst (detachIdentity sample_principal ''a'' 5 two_identities)"]
    by (simp add: sample_principal_def)
qed

lemma link_resolves_witness:
  "resolveIdentity \<lparr>vi_kind = GoogleIdentity, vi_subject = Some ''c'', vi_email = None, vi_emailVerified = False\<rparr>
      (snd (attachIdentity sample_principal \<lparr>vi_kind = GoogleIdentity, vi_subject = Some ''c'', vi_email = None, vi_emailVerified = False\<rparr>
        ''i'' 9 two_identities)) =
    Ok (Existing ''u'' (linked_row sample_principal
      \<lparr>vi_kind = GoogleIdentity, vi_subject = Some ''c'', vi_email = None, vi_emailVerified = False\<rparr> ''i'' 9))"
proof -
  let ?v = "\<lparr>vi_kind = GoogleIdentity, vi_subject = Some ''c'', vi_email = None, vi_emailVerified = False\<rparr>"
  let ?r = "linked_row sample_principal ?v ''i'' 9"
  have "attachIdentity sample_principal ?v ''i'' 9 two_identities = (Ok ?r, two_identities\<lparr>st_identities := st_identities two_identities @ [?r]\<rparr>)"
    by (simp add: attachIdentity_def isUsable_def live_account_def resolveIdentity_def findIdentityBySubject_def insertIdentity_def
        getIdentity_def getUser_def two_identities_def sample_identity_def sample_principal_def sample_user_def empty_auth_store_def
        linked_row_def folded_domain_def same_subject_def same_email_def email_keyed_def Let_def)
  from link_resolves [OF this] show ?thesis
    by (simp add: attachIdentity_def isUsable_def live_account_def resolveIdentity_def findIdentityBySubject_def insertIdentity_def
        getIdentity_def getUser_def two_identities_def sample_identity_def sample_principal_def sample_user_def empty_auth_store_def
        linked_row_def folded_domain_def same_subject_def same_email_def email_keyed_def Let_def)
qed

text \<open>
  Two unlinkings of one account at a time do not have that property: with two identities, both calls can list them
  before either deletes, and then both succeed.
\<close>

definition two_unlinkings :: "detach_call list" where
  "two_unlinkings =
     [\<lparr>dt_principal = sample_principal, dt_identity = ''a'', dt_stage = DGet\<rparr>,
      \<lparr>dt_principal = sample_principal, dt_identity = ''b'', dt_stage = DGet\<rparr>]"

text \<open>
  Concurrent unlinking can strand an account. From an account with two verified identities, two calls that remove
  one each and whose steps interleave are both answered with success and leave no way in at all, where the same two
  calls one after the other end with the second refused because it would remove the last identity.
\<close>

theorem concurrent_unlink_strands:
  "map dt_stage (fst (detach_run 5 [0, 0, 1, 1, 0, 0, 1, 1] (two_unlinkings, two_identities))) = [DAnswered (Ok 0), DAnswered (Ok 0)] \<and>
    way_in ''u'' (snd (detach_run 5 [0, 0, 1, 1, 0, 0, 1, 1] (two_unlinkings, two_identities))) = [] \<and>
    map dt_stage (fst (detach_run 5 [0, 0, 0, 0, 1, 1, 1, 1] (two_unlinkings, two_identities))) =
      [DAnswered (Ok 0), DAnswered (Fail D_LAST_IDENTITY)] \<and>
    way_in ''u'' (snd (detach_run 5 [0, 0, 0, 0, 1, 1, 1, 1] (two_unlinkings, two_identities))) = [sample_identity ''b'']"
  by (simp add: detach_run_def detach_call_step_def two_unlinkings_def two_identities_def sample_identity_def sample_principal_def
      listIdentities_def store_identities_def getIdentity_def isVerified_def way_in_def revokeForIdentity_def revokeWhere_def
      deleteIdentity_def empty_auth_store_def Let_def)

subsection \<open>Devices\<close>

text \<open>A retired device answers no heartbeat until it is reactivated.\<close>

lemma find_device_map:
  assumes "\<And>r. dr_user (f r) = dr_user r \<and> dr_id (f r) = dr_id r"
  shows "getDevice u d (with_device u' d' f st) =
    map_option (\<lambda>r. if u = u' \<and> d = d' then f r else r) (getDevice u d st)"
proof -
  have "List.find (\<lambda>r. dr_user r = u \<and> dr_id r = d) (map (\<lambda>r. if dr_user r = u' \<and> dr_id r = d' then f r else r) rows) =
      map_option (\<lambda>r. if u = u' \<and> d = d' then f r else r) (List.find (\<lambda>r. dr_user r = u \<and> dr_id r = d) rows)" for rows
    by (induction rows) (auto simp: assms)
  then show ?thesis by (simp add: getDevice_def with_device_def)
qed

lemma retired_device_waits:
  assumes "retireDevice p d now st = (Ok r, st')"
  shows "fst (touchDevice p d later st') = Fail D_DEVICE_RETIRED \<and>
    (\<exists>r'. fst (reactivateDevice p d later st') = Ok r' \<and> dr_retired_at r' = None)"
proof -
  have users: "live_account u (setDeviceRetired p' d' x y st) = live_account u st" for u p' d' x y
    by (simp add: live_account_def getUser_def setDeviceRetired_def with_device_def)
  obtain a x where live: "live_account (pr_user p) st = Ok a" and x: "getDevice (pr_user p) d st = Some x"
    using assms by (auto simp: retireDevice_def with_registered_def split: reply.splits option.splits)
  have d: "\<exists>y. getDevice (pr_user p) d st' = Some y \<and> dr_retired_at y \<noteq> None" and live': "live_account (pr_user p) st' = Ok a"
    using assms live x users
    by (auto simp: retireDevice_def with_registered_def reread_device_def setDeviceRetired_def find_device_map split: if_splits)
  then show ?thesis
    by (auto simp: touchDevice_def reactivateDevice_def with_registered_def reread_device_def setDeviceRetired_def find_device_map)
qed

end
