(* ===== verification/GoogleExchange.thy ===== *)
theory GoogleExchange
  imports Identities
begin

text \<open>
  The last step of a Google sign-in and of a Google link: \<open>exchange\<close> and \<open>completeLink\<close> of
  \<open>server/app/google-auth-service.ts\<close>, with the challenge operations of \<open>MemoryStore\<close>. An exchange is a machine
  with one step per call of the store or of another service, so that exchanges of one code interleave; the calls it
  makes to the session and device services are taken whole. Starting a flow and its callback are not modelled: the
  rows they leave are the input here.
\<close>

datatype challenge_method = ByGoogle | ByEmail

datatype challenge_purpose = ForSignIn | ForLink

record login_challenge =
  lc_id :: string
  lc_method :: challenge_method
  lc_purpose :: challenge_purpose
  lc_user :: "string option"
  lc_state :: "string option"
  lc_nonce :: "string option"
  lc_pkce_verifier :: "string option"
  lc_redirect_uri :: "string option"
  lc_exchange_digest :: "string option"
  lc_resolved_user :: "string option"
  lc_resolved_identity :: "string option"
  lc_resolved_subject :: "string option"
  lc_resolved_email :: "string option"
  lc_attempts :: int
  lc_created_at :: int
  lc_expires_at :: int
  lc_consumed_at :: "int option"

record login_store =
  lg_auth :: auth_store
  lg_challenges :: "login_challenge list"

definition getChallenge :: "string \<Rightarrow> login_store \<Rightarrow> login_challenge option" where
  "getChallenge i st = List.find (\<lambda>c. lc_id c = i) (lg_challenges st)"

definition findChallengeByExchangeDigest :: "string \<Rightarrow> login_store \<Rightarrow> login_challenge option" where
  "findChallengeByExchangeDigest d st = List.find (\<lambda>c. lc_exchange_digest c = Some d) (lg_challenges st)"

definition with_challenge :: "string \<Rightarrow> (login_challenge \<Rightarrow> login_challenge) \<Rightarrow> login_store \<Rightarrow> login_store" where
  "with_challenge i f st = st\<lparr>lg_challenges := map (\<lambda>c. if lc_id c = i then f c else c) (lg_challenges st)\<rparr>"

text \<open>A challenge that is gone counts as no attempt at all.\<close>

definition countChallengeAttempt :: "string \<Rightarrow> login_store \<Rightarrow> int \<times> login_store" where
  "countChallengeAttempt i st =
     (case getChallenge i st of
        None \<Rightarrow> (0, st)
      | Some c \<Rightarrow> (lc_attempts c + 1, with_challenge i (\<lambda>r. r\<lparr>lc_attempts := lc_attempts c + 1\<rparr>) st))"

definition deleteChallenge :: "string \<Rightarrow> login_store \<Rightarrow> login_store" where
  "deleteChallenge i st = st\<lparr>lg_challenges := filter (\<lambda>c. lc_id c \<noteq> i) (lg_challenges st)\<rparr>"

text \<open>The atomic claim the callback makes on a challenge.\<close>

definition consumeChallenge :: "string \<Rightarrow> int \<Rightarrow> login_store \<Rightarrow> bool \<times> login_store" where
  "consumeChallenge i t st =
     (case getChallenge i st of
        None \<Rightarrow> (False, st)
      | Some c \<Rightarrow>
          if lc_consumed_at c \<noteq> None then (False, st)
          else (True, with_challenge i (\<lambda>r. r\<lparr>lc_consumed_at := Some t\<rparr>) st))"

definition purgeExpiredChallenges :: "int \<Rightarrow> login_store \<Rightarrow> nat \<times> login_store" where
  "purgeExpiredChallenges now st =
     (let expired = filter (\<lambda>c. lc_expires_at c \<le> now) (lg_challenges st) in
      (length expired, fold (\<lambda>c. deleteChallenge (lc_id c)) expired st))"

definition EXCHANGE_TTL_MS :: int where "EXCHANGE_TTL_MS = 2 * 60 * 1000"

definition MAX_EXCHANGE_ATTEMPTS :: int where "MAX_EXCHANGE_ATTEMPTS = 3"

record google_service =
  gs_sessions :: session_service
  gs_exchangeTtl :: int

definition on_auth :: "('a \<times> auth_store) \<Rightarrow> login_store \<Rightarrow> 'a \<times> login_store" where
  "on_auth result st = (fst result, st\<lparr>lg_auth := snd result\<rparr>)"

definition google_registerDevice :: "string \<Rightarrow> string option \<Rightarrow> int \<Rightarrow> auth_store \<Rightarrow> bool \<times> auth_store" where
  "google_registerDevice sid named now st =
     (case named of
        None \<Rightarrow> (False, st)
      | Some d \<Rightarrow>
          if \<not> isDeviceId d then (False, st)
          else
            (case verify_session sid now st of
               Ok p \<Rightarrow> (case registerDevice p d now st of (r, st') \<Rightarrow> (case r of Ok x \<Rightarrow> True | _ \<Rightarrow> False, st'))
             | _ \<Rightarrow> (False, st)))"

subsection \<open>Exchange\<close>

record exchange_outcome =
  xo_session :: issued_session
  xo_created :: bool
  xo_deviceRegistered :: bool

record exchange_request =
  xr_challenge :: string
  xr_code :: string
  xr_device :: "string option"
  xr_now :: int

datatype exchanging =
    XFind
  | XMissing
  | XMissingCount
  | XCount login_challenge
  | XCreate login_challenge
  | XDrop login_challenge domain_error
  | XBurn login_challenge issued_session
  | XIdentity login_challenge issued_session
  | XTouch string bool issued_session
  | XDevice bool issued_session
  | XAnswered "exchange_outcome reply"

text \<open>What one step reads from its surroundings: the clock and the random ids a session draws.\<close>

record draws =
  dw_now :: int
  dw_family :: string
  dw_session :: string
  dw_token :: string

definition exchange_over :: "google_service \<Rightarrow> login_challenge \<Rightarrow> int \<Rightarrow> bool" where
  "exchange_over svc c now =
     (lc_expires_at c \<le> now \<or> (case lc_consumed_at c of None \<Rightarrow> False | Some t \<Rightarrow> t + gs_exchangeTtl svc \<le> now))"

fun exchange_step :: "google_service \<Rightarrow> exchange_request \<Rightarrow> draws \<Rightarrow> exchanging \<Rightarrow> login_store \<Rightarrow> exchanging \<times> login_store" where
  "exchange_step svc rq dw XFind st =
     (case findChallengeByExchangeDigest (ss_digest (gs_sessions svc) (xr_code rq)) st of
        None \<Rightarrow> (XMissing, st)
      | Some c \<Rightarrow>
          if lc_id c \<noteq> xr_challenge rq then (XMissing, st)
          else if lc_purpose c \<noteq> ForSignIn then (XAnswered (Fail D_INVALID_ARGUMENT), st)
          else if exchange_over svc c (xr_now rq) then (XAnswered (Fail D_INVALID_ARGUMENT), st)
          else (XCount c, st))"
| "exchange_step svc rq dw XMissing st =
     (if getChallenge (xr_challenge rq) st = None then (XAnswered (Fail D_INVALID_ARGUMENT), st) else (XMissingCount, st))"
| "exchange_step svc rq dw XMissingCount st =
     (XAnswered (Fail D_INVALID_ARGUMENT), snd (countChallengeAttempt (xr_challenge rq) st))"
| "exchange_step svc rq dw (XCount c) st =
     (case countChallengeAttempt (lc_id c) st of
        (attempts, st') \<Rightarrow>
          if attempts > MAX_EXCHANGE_ATTEMPTS then (XDrop c D_INVALID_ARGUMENT, st')
          else if lc_resolved_user c = None \<or> lc_resolved_identity c = None then (XAnswered (Fail D_INVALID_ARGUMENT), st')
          else (XCreate c, st'))"
| "exchange_step svc rq dw (XDrop c e) st = (XAnswered (Fail e), deleteChallenge (lc_id c) st)"
| "exchange_step svc rq dw (XCreate c) st =
     (case lc_resolved_user c of
        None \<Rightarrow> (XAnswered (Fail D_INVALID_ARGUMENT), st)
      | Some user \<Rightarrow>
          (case on_auth (createSession (gs_sessions svc) user (lc_resolved_identity c) (dw_family dw) (dw_session dw) (dw_token dw)
              (dw_now dw) (lg_auth st)) st of
             (Ok s, st') \<Rightarrow> (XBurn c s, st')
           | (Fail e, st') \<Rightarrow> (XDrop c e, st')
           | (Threw v, st') \<Rightarrow> (XAnswered (Threw v), st')))"
| "exchange_step svc rq dw (XBurn c s) st = (XIdentity c s, deleteChallenge (lc_id c) st)"
| "exchange_step svc rq dw (XIdentity c s) st =
     (case lc_resolved_identity c of
        None \<Rightarrow> (XDevice False s, st)
      | Some i \<Rightarrow>
          (case getIdentity i (lg_auth st) of
             None \<Rightarrow> (XDevice False s, st)
           | Some r \<Rightarrow> (XTouch (ir_id r) (ir_last_used_at r = None) s, st)))"
| "exchange_step svc rq dw (XTouch i created s) st =
     (XDevice created s, st\<lparr>lg_auth := touchIdentity i (xr_now rq) (lg_auth st)\<rparr>)"
| "exchange_step svc rq dw (XDevice created s) st =
     (case on_auth (google_registerDevice (is_session s) (xr_device rq) (dw_now dw) (lg_auth st)) st of
        (registered, st') \<Rightarrow> (XAnswered (Ok \<lparr>xo_session = s, xo_created = created, xo_deviceRegistered = registered\<rparr>), st'))"
| "exchange_step svc rq dw (XAnswered x) st = (XAnswered x, st)"

type_synonym exchange_world = "(exchange_request \<times> exchanging) list \<times> login_store"

definition exchange_call_step :: "google_service \<Rightarrow> nat \<times> draws \<Rightarrow> exchange_world \<Rightarrow> exchange_world" where
  "exchange_call_step svc = (\<lambda>(k, dw) (calls, st).
     case exchange_step svc (fst (calls ! k)) dw (snd (calls ! k)) st of
       (stage, st') \<Rightarrow> (calls[k := (fst (calls ! k), stage)], st'))"

definition exchange_run :: "google_service \<Rightarrow> (nat \<times> draws) list \<Rightarrow> exchange_world \<Rightarrow> exchange_world" where
  "exchange_run svc = fold (exchange_call_step svc)"

text \<open>One exchange with nothing between its steps; seven steps end it, and the random draws of its one sign-in are \<open>dw\<close>.\<close>

definition exchange_steps :: "google_service \<Rightarrow> exchange_request \<Rightarrow> draws \<Rightarrow> exchanging \<times> login_store \<Rightarrow> exchanging \<times> login_store" where
  "exchange_steps svc rq dw = (\<lambda>(stage, st). exchange_step svc rq dw stage st)"

definition exchange :: "google_service \<Rightarrow> exchange_request \<Rightarrow> draws \<Rightarrow> login_store \<Rightarrow> exchanging \<times> login_store" where
  "exchange svc rq dw st = (exchange_steps svc rq dw ^^ 7) (XFind, st)"

subsection \<open>Finishing a link\<close>

definition completeLink ::
  "google_service \<Rightarrow> principal \<Rightarrow> string \<Rightarrow> string \<Rightarrow> int \<Rightarrow> string \<Rightarrow> int \<Rightarrow> login_store \<Rightarrow> identity_row reply \<times> login_store" where
  "completeLink svc p challengeId code now new_id linked_at st =
     (let refuse = (\<lambda>st. (Fail D_INVALID_ARGUMENT, st)) in
      case findChallengeByExchangeDigest (ss_digest (gs_sessions svc) code) st of
        None \<Rightarrow> refuse (snd (countChallengeAttempt challengeId st))
      | Some c \<Rightarrow>
          if lc_id c \<noteq> challengeId then refuse (snd (countChallengeAttempt challengeId st))
          else if lc_method c \<noteq> ByGoogle then refuse st
          else if lc_purpose c \<noteq> ForLink then refuse st
          else if exchange_over svc c now then refuse st
          else
            (case countChallengeAttempt (lc_id c) st of
               (attempts, st1) \<Rightarrow>
                 if attempts > MAX_EXCHANGE_ATTEMPTS then refuse (deleteChallenge (lc_id c) st1)
                 else if lc_user c \<noteq> Some (pr_user p) then refuse (deleteChallenge (lc_id c) st1)
                 else
                   (case lc_resolved_subject c of
                      None \<Rightarrow> refuse st1
                    | Some subject \<Rightarrow>
                        (let st2 = deleteChallenge (lc_id c) st1 in
                         on_auth (attachIdentity p \<lparr>vi_kind = GoogleIdentity, vi_subject = Some subject, vi_email = lc_resolved_email c,
                           vi_emailVerified = lc_resolved_email c \<noteq> None\<rparr> new_id linked_at (lg_auth st2)) st2))))"

subsection \<open>One exchange at a time\<close>

lemma seven_steps:
  "(f ^^ 7) x = f (f (f (f (f (f (f x))))))"
  by (simp add: eval_nat_numeral)

lemma count_auth [simp]: "lg_auth (snd (countChallengeAttempt i st)) = lg_auth st"
  by (simp add: countChallengeAttempt_def with_challenge_def split: option.split)

lemma exchange_unknown_code:
  assumes "findChallengeByExchangeDigest (ss_digest (gs_sessions svc) (xr_code rq)) st = None"
  shows "fst (exchange svc rq dw st) = XAnswered (Fail D_INVALID_ARGUMENT) \<and> lg_auth (snd (exchange svc rq dw st)) = lg_auth st"
  using assms by (simp add: exchange_def seven_steps exchange_steps_def)

text \<open>The tail of a successful exchange: from the burnt row on, only the identity's time and the devices change.\<close>

lemma exchange_tail:
  assumes "(exchange_steps svc rq dw ^^ n) (XBurn c s, st) = (XAnswered (Ok x), st')"
  shows "lg_challenges st' = filter (\<lambda>k. lc_id k \<noteq> lc_id c) (lg_challenges st) \<and> xo_session x = s"
proof -
  define tail :: "exchanging \<times> login_store \<Rightarrow> bool" where "tail = (\<lambda>(stage, st'). lg_challenges st' = filter (\<lambda>k. lc_id k \<noteq> lc_id c) (lg_challenges st) \<and>
    (case stage of XIdentity c' s' \<Rightarrow> s' = s | XTouch i b s' \<Rightarrow> s' = s | XDevice b s' \<Rightarrow> s' = s
     | XAnswered (Ok x) \<Rightarrow> xo_session x = s | _ \<Rightarrow> False))"
  have step: "tail (exchange_steps svc rq dw w)" if "tail w" for w
    using that unfolding tail_def exchange_steps_def
    by (cases w; cases "fst w") (auto simp: on_auth_def split: option.splits reply.splits)
  have "tail (exchange_steps svc rq dw (XBurn c s, st))"
    by (simp add: tail_def exchange_steps_def deleteChallenge_def)
  then have all: "tail ((exchange_steps svc rq dw ^^ n) (exchange_steps svc rq dw (XBurn c s, st)))" for n
    by (induction n) (simp_all add: step)
  obtain m where "n = Suc m" using assms by (cases n) auto
  then have "tail (XAnswered (Ok x), st')" using assms all [of m] by (simp add: funpow_swap1)
  then show ?thesis by (simp add: tail_def)
qed

lemma answered_stays: "(exchange_steps svc rq dw ^^ n) (XAnswered x, st) = (XAnswered x, st)"
  by (induction n) (simp_all add: exchange_steps_def)

text \<open>A successful exchange has found a sign-in row for its code, still open, and reached the point of burning it.\<close>

lemma exchange_success:
  assumes "exchange svc rq dw st = (XAnswered (Ok x), st')"
  obtains c where "findChallengeByExchangeDigest (ss_digest (gs_sessions svc) (xr_code rq)) st = Some c" "lc_id c = xr_challenge rq"
    "lc_purpose c = ForSignIn" "\<not> exchange_over svc c (xr_now rq)"
    "lg_challenges st' = filter (\<lambda>k. lc_id k \<noteq> lc_id c) (lg_challenges (snd (countChallengeAttempt (lc_id c) st)))"
    "lc_resolved_user c = Some (is_user (xo_session x))"
proof -
  let ?f = "exchange_steps svc rq dw"
  have ex: "(?f ^^ 4) (?f (?f (?f (XFind, st)))) = (XAnswered (Ok x), st')"
    using assms by (simp add: exchange_def eval_nat_numeral)
  have refused: "(?f ^^ n) (XAnswered y, s) = (XAnswered (Ok x), st') \<Longrightarrow> y = Ok x" for n y s
    by (simp add: answered_stays)
  obtain c where c: "findChallengeByExchangeDigest (ss_digest (gs_sessions svc) (xr_code rq)) st = Some c"
    using assms exchange_unknown_code [of svc rq st dw]
    by (cases "findChallengeByExchangeDigest (ss_digest (gs_sessions svc) (xr_code rq)) st") auto
  have id: "lc_id c = xr_challenge rq"
  proof (rule ccontr)
    assume "lc_id c \<noteq> xr_challenge rq"
    then show False using ex c by (simp add: exchange_steps_def eval_nat_numeral split: if_splits)
  qed
  have purpose: "lc_purpose c = ForSignIn" and open_row: "\<not> exchange_over svc c (xr_now rq)"
    using ex c id by (auto simp: exchange_steps_def eval_nat_numeral split: if_splits)
  let ?st1 = "snd (countChallengeAttempt (lc_id c) st)"
  have first: "?f (?f (XFind, st)) = exchange_step svc rq dw (XCount c) st"
    using c id purpose open_row by (simp add: exchange_steps_def)
  obtain user ident where res: "lc_resolved_user c = Some user" "lc_resolved_identity c = Some ident"
    and few: "\<not> fst (countChallengeAttempt (lc_id c) st) > MAX_EXCHANGE_ATTEMPTS"
    using ex unfolding first
    by (cases "lc_resolved_user c"; cases "lc_resolved_identity c")
      (auto simp: exchange_steps_def eval_nat_numeral case_prod_beta split: if_splits)
  then have second: "?f (?f (XFind, st)) = (XCreate c, ?st1)"
    unfolding first by (simp add: case_prod_beta)
  let ?made = "createSession (gs_sessions svc) user (Some ident) (dw_family dw) (dw_session dw) (dw_token dw) (dw_now dw) (lg_auth st)"
  obtain s where made: "fst ?made = Ok s"
    using ex res unfolding second
    by (cases "fst ?made") (auto simp: exchange_steps_def eval_nat_numeral case_prod_beta on_auth_def)
  then have "(?f ^^ 4) (XBurn c s, ?st1\<lparr>lg_auth := snd ?made\<rparr>) = (XAnswered (Ok x), st')"
    using ex res unfolding second by (simp add: exchange_steps_def case_prod_beta on_auth_def)
  from exchange_tail [OF this]
  have tail: "lg_challenges st' = filter (\<lambda>k. lc_id k \<noteq> lc_id c) (lg_challenges ?st1)" "xo_session x = s" by simp_all
  have "is_user s = user"
    using made by (auto simp: createSession_def Let_def issued_def fresh_session_def split: reply.splits if_splits sum.splits)
  then show thesis using that [OF c id purpose open_row tail(1)] res tail(2) by simp
qed

lemma find_digest_gone:
  assumes "distinct (map lc_exchange_digest (filter (\<lambda>c. lc_exchange_digest c \<noteq> None) (lg_challenges st)))"
    and "findChallengeByExchangeDigest d st = Some c"
    and "lg_challenges st' = filter (\<lambda>k. lc_id k \<noteq> lc_id c) (lg_challenges (snd (countChallengeAttempt i st)))"
  shows "findChallengeByExchangeDigest d st' = None"
proof -
  let ?rows = "filter (\<lambda>c. lc_exchange_digest c \<noteq> None) (lg_challenges st)"
  have c: "c \<in> set ?rows" "lc_exchange_digest c = Some d"
    using assms(2) by (auto simp: findChallengeByExchangeDigest_def find_Some_iff)
  have only: "k = c" if "k \<in> set (lg_challenges st)" "lc_exchange_digest k = Some d" for k
  proof (rule inj_onD [where f = lc_exchange_digest])
    show "inj_on lc_exchange_digest (set ?rows)" using assms(1) by (simp add: distinct_map)
  qed (use that c in auto)
  have "lc_exchange_digest k \<noteq> Some d" if k: "k \<in> set (lg_challenges (snd (countChallengeAttempt i st)))" "lc_id k \<noteq> lc_id c" for k
  proof -
    obtain k0 where "k0 \<in> set (lg_challenges st)" "lc_exchange_digest k = lc_exchange_digest k0" "lc_id k = lc_id k0"
      using k(1) by (auto simp: countChallengeAttempt_def with_challenge_def split: option.splits if_splits)
    then show ?thesis using only k(2) by metis
  qed
  then show ?thesis by (auto simp: findChallengeByExchangeDigest_def find_None_iff assms(3))
qed

text \<open>
  C11. One exchange at a time, a code buys one session. A successful exchange found a sign-in challenge (never a link
  one) that the caller named and that had not run out, and its session is on the account that challenge resolved
  to; and the code is then spent: exchanging it again, for any challenge, at any time and from any device, is refused
  and creates neither a session nor anything else on the accounts.
\<close>

theorem exchange_spends_code:
  assumes "distinct (map lc_exchange_digest (filter (\<lambda>c. lc_exchange_digest c \<noteq> None) (lg_challenges st)))"
    and "exchange svc rq dw st = (XAnswered (Ok x), st')"
  shows "(\<exists>c. findChallengeByExchangeDigest (ss_digest (gs_sessions svc) (xr_code rq)) st = Some c \<and> lc_id c = xr_challenge rq \<and>
      lc_purpose c = ForSignIn \<and> xr_now rq < lc_expires_at c \<and> lc_resolved_user c = Some (is_user (xo_session x))) \<and>
    fst (exchange svc \<lparr>xr_challenge = i, xr_code = xr_code rq, xr_device = d, xr_now = t\<rparr> dw' st') =
      XAnswered (Fail D_INVALID_ARGUMENT) \<and>
    lg_auth (snd (exchange svc \<lparr>xr_challenge = i, xr_code = xr_code rq, xr_device = d, xr_now = t\<rparr> dw' st')) = lg_auth st'"
proof -
  obtain c where c: "findChallengeByExchangeDigest (ss_digest (gs_sessions svc) (xr_code rq)) st = Some c" "lc_id c = xr_challenge rq"
    "lc_purpose c = ForSignIn" "\<not> exchange_over svc c (xr_now rq)" "lc_resolved_user c = Some (is_user (xo_session x))"
    and rest: "lg_challenges st' = filter (\<lambda>k. lc_id k \<noteq> lc_id c) (lg_challenges (snd (countChallengeAttempt (lc_id c) st)))"
    using exchange_success [OF assms(2)] by metis
  have "findChallengeByExchangeDigest (ss_digest (gs_sessions svc) (xr_code rq)) st' = None"
    by (rule find_digest_gone [OF assms(1) c(1) rest])
  then show ?thesis
    using c exchange_unknown_code [of svc "\<lparr>xr_challenge = i, xr_code = xr_code rq, xr_device = d, xr_now = t\<rparr>" st' dw']
    by (auto simp: exchange_over_def)
qed

subsection \<open>Exchanges of one code at the same time\<close>

definition sample_google :: google_service where
  "sample_google = \<lparr>gs_sessions = sample_service, gs_exchangeTtl = EXCHANGE_TTL_MS\<rparr>"

definition sample_challenge_row :: login_challenge where
  "sample_challenge_row =
     \<lparr>lc_id = ''c'', lc_method = ByGoogle, lc_purpose = ForSignIn, lc_user = None, lc_state = None, lc_nonce = None,
      lc_pkce_verifier = None, lc_redirect_uri = None, lc_exchange_digest = Some ''#k'', lc_resolved_user = Some ''u'',
      lc_resolved_identity = Some ''a'', lc_resolved_subject = None, lc_resolved_email = None, lc_attempts = 0,
      lc_created_at = 0, lc_expires_at = 1000, lc_consumed_at = Some 1\<rparr>"

definition sample_login :: login_store where
  "sample_login = \<lparr>lg_auth = two_identities, lg_challenges = [sample_challenge_row]\<rparr>"

definition sample_exchange :: exchange_request where
  "sample_exchange = \<lparr>xr_challenge = ''c'', xr_code = ''k'', xr_device = None, xr_now = 5\<rparr>"

definition draw_of :: "string \<Rightarrow> draws" where
  "draw_of x = \<lparr>dw_now = 5, dw_family = ''f'' @ x, dw_session = ''s'' @ x, dw_token = ''t'' @ x\<rparr>"

definition five_exchanges :: exchange_world where
  "five_exchanges = (map (\<lambda>n. (sample_exchange, XFind)) [0, 1, 2, 3, 4::nat], sample_login)"

text \<open>All five find the row; the first four count their attempts, the fourth drops the row, the fifth counts none.\<close>

definition overlapped :: "(nat \<times> draws) list" where
  "overlapped =
     map (\<lambda>k. (k, draw_of [''01234'' ! k])) ([0, 1, 2, 3, 4] @ [0, 1, 2, 3] @ [3] @ [4] @ [0, 1, 2, 4] @ [0, 0, 0, 0] @ [1, 1, 1, 1] @
       [2, 2, 2, 2] @ [4, 4, 4, 4])"

definition exchanged :: "exchange_request \<times> exchanging \<Rightarrow> string option" where
  "exchanged call = (case snd call of XAnswered (Ok x) \<Rightarrow> Some (is_session (xo_session x)) | _ \<Rightarrow> None)"

lemmas exchange_eval = exchange_run_def exchange_call_step_def five_exchanges_def overlapped_def draw_of_def sample_exchange_def
  sample_login_def sample_challenge_row_def sample_google_def findChallengeByExchangeDigest_def getChallenge_def
  countChallengeAttempt_def with_challenge_def deleteChallenge_def exchange_over_def MAX_EXCHANGE_ATTEMPTS_def EXCHANGE_TTL_MS_def
  on_auth_def google_registerDevice_def createSession_def live_account_def getUser_def sample_user_def two_identities_def
  sample_identity_def empty_auth_store_def insertSession_def get_session_row_def find_session_def findSessionByDigest_def fresh_session_def
  issued_def sample_service_def new_session_service_def getIdentity_def touchIdentity_def

lemma exchange_spends_code_witness:
  "exchanged (sample_exchange, fst (exchange sample_google sample_exchange (draw_of ''0'') sample_login)) = Some ''s0'' \<and>
    fst (exchange sample_google (sample_exchange\<lparr>xr_now := 6\<rparr>) (draw_of ''1'')
      (snd (exchange sample_google sample_exchange (draw_of ''0'') sample_login))) = XAnswered (Fail D_INVALID_ARGUMENT)"
proof -
  let ?e = "exchange sample_google sample_exchange (draw_of ''0'') sample_login"
  have done_once: "exchanged (sample_exchange, fst ?e) = Some ''s0''"
    by (simp add: exchange_def seven_steps exchange_steps_def exchange_eval exchanged_def)
  then obtain x where x: "?e = (XAnswered (Ok x), snd ?e)"
    by (cases "fst ?e") (auto simp: exchanged_def prod_eq_iff split: reply.splits)
  have "distinct (map lc_exchange_digest (filter (\<lambda>c. lc_exchange_digest c \<noteq> None) (lg_challenges sample_login)))"
    by (simp add: sample_login_def)
  from exchange_spends_code [OF this x, of "''c''" None 6 "draw_of ''1''"] show ?thesis
    using done_once by (simp add: sample_exchange_def)
qed

text \<open>
  Concurrent exchanges of one code buy several sessions. Five calls that present one exchange code and overlap
  are answered with four sessions: three pass the attempt limit before any of them removes the row, and the call the
  limit refuses removes the row, after which a further call counts no attempt and passes as well.
\<close>

theorem concurrent_exchange_mints:
  "map exchanged (fst (exchange_run sample_google overlapped five_exchanges)) = [Some ''s0'', Some ''s1'', Some ''s2'', None, Some ''s4''] \<and>
    length (st_sessions (lg_auth (snd (exchange_run sample_google overlapped five_exchanges)))) = 4"
  by (simp add: exchange_eval exchanged_def)

text \<open>
  A finished link rests on both proofs: the code named a Google link challenge that this very account had started,
  and what is attached is the subject Google vouched for; resolving that subject then gives the account.
\<close>

lemma link_needs_both_proofs:
  assumes "completeLink svc p i code now new_id linked_at st = (Ok r, st')"
  shows "\<exists>c subject. findChallengeByExchangeDigest (ss_digest (gs_sessions svc) code) st = Some c \<and> lc_id c = i \<and> lc_method c = ByGoogle \<and>
    lc_purpose c = ForLink \<and> lc_user c = Some (pr_user p) \<and> lc_resolved_subject c = Some subject \<and>
    findIdentityBySubject GoogleIdentity subject (lg_auth st') = Some r \<and> ir_user r = pr_user p"
proof -
  obtain c where c: "findChallengeByExchangeDigest (ss_digest (gs_sessions svc) code) st = Some c"
    using assms by (auto simp: completeLink_def Let_def split: option.splits)
  obtain subject where found: "lc_id c = i" "lc_method c = ByGoogle" "lc_purpose c = ForLink" "lc_user c = Some (pr_user p)"
    "lc_resolved_subject c = Some subject"
    using assms c by (auto simp: completeLink_def Let_def split: option.splits if_splits prod.splits)
  let ?v = "\<lparr>vi_kind = GoogleIdentity, vi_subject = Some subject, vi_email = lc_resolved_email c,
    vi_emailVerified = lc_resolved_email c \<noteq> None\<rparr>"
  let ?st2 = "deleteChallenge (lc_id c) (snd (countChallengeAttempt (lc_id c) st))"
  have "on_auth (attachIdentity p ?v new_id linked_at (lg_auth ?st2)) ?st2 = (Ok r, st')"
    using assms c found by (auto simp: completeLink_def Let_def case_prod_beta split: if_splits)
  then have attached: "attachIdentity p ?v new_id linked_at (lg_auth ?st2) = (Ok r, lg_auth st')"
    by (auto simp: on_auth_def prod_eq_iff)
  from attached have "matching ?v (lg_auth st') = Some r \<and> ir_user r = pr_user p"
  proof (cases rule: attach_cases)
    case 1
    then show ?thesis by simp
  next
    case 2
    have "ir_user r = pr_user p" by (simp add: 2(3) linked_row_def)
    then show ?thesis using 2 by (simp add: matching_append matching_own)
  qed
  then show ?thesis using c found by (simp add: matching_def)
qed

end
