(* ===== verification/RateLimiter.thy ===== *)
theory RateLimiter
  imports Interfaces
begin

text \<open>
  \<open>server/app/rate-limiter.ts\<close>: fixed windows counted per bucket and key, in memory, bounded, and refusing
  when full. The map from composite keys to windows is an association list; a composite key is the pair of
  bucket and key (the source joins them by a NUL, which no bucket name contains).
\<close>

record rate_rule =
  rr_limit :: int
  rr_windowMs :: int

datatype rate_outcome = Rate_Allowed int | Rate_Refused int bool

record rate_window =
  rw_startedAt :: int
  rw_count :: int
  rw_windowMs :: int

type_synonym rate_key = "string \<times> string"
type_synonym rate_windows = "(rate_key \<times> rate_window) list"

definition prune :: "int \<Rightarrow> rate_windows \<Rightarrow> rate_windows" where
  "prune now ws = filter (\<lambda>(k, w). now - rw_startedAt w < rw_windowMs w) ws"

definition consume :: "nat \<Rightarrow> string \<Rightarrow> string \<Rightarrow> rate_rule \<Rightarrow> int \<Rightarrow> rate_windows \<Rightarrow> rate_outcome \<times> rate_windows" where
  "consume capacity bucket key rule now ws =
     (let composite = (bucket, key);
          fresh = \<lparr>rw_startedAt = now, rw_count = 1, rw_windowMs = rr_windowMs rule\<rparr> in
      case map_of ws composite of
        Some existing \<Rightarrow>
          if now - rw_startedAt existing < rr_windowMs rule then
            (if rr_limit rule \<le> rw_count existing then
               (Rate_Refused (max 0 (rw_startedAt existing + rr_windowMs rule - now)) False, ws)
             else
               (Rate_Allowed (rr_limit rule - (rw_count existing + 1)),
                AList.update composite (existing\<lparr>rw_count := rw_count existing + 1\<rparr>) ws))
          else (Rate_Allowed (rr_limit rule - 1), AList.update composite fresh ws)
      | None \<Rightarrow>
          (let ws = prune now ws in
           if capacity \<le> length ws then (Rate_Refused (rr_windowMs rule) True, ws)
           else (Rate_Allowed (rr_limit rule - 1), AList.update composite fresh ws)))"

definition peek_rate :: "string \<Rightarrow> string \<Rightarrow> rate_rule \<Rightarrow> int \<Rightarrow> rate_windows \<Rightarrow> rate_outcome" where
  "peek_rate bucket key rule now ws =
     (case map_of ws (bucket, key) of
        None \<Rightarrow> Rate_Allowed (rr_limit rule)
      | Some existing \<Rightarrow>
          if rr_windowMs rule \<le> now - rw_startedAt existing then Rate_Allowed (rr_limit rule)
          else if rr_limit rule \<le> rw_count existing then
            Rate_Refused (max 0 (rw_startedAt existing + rr_windowMs rule - now)) False
          else Rate_Allowed (rr_limit rule - rw_count existing))"

definition reset_rate :: "string \<Rightarrow> string \<Rightarrow> rate_windows \<Rightarrow> rate_windows" where
  "reset_rate bucket key ws = AList.delete (bucket, key) ws"

subsection \<open>Bounded memory, and live counters stay\<close>

definition limiter_ok :: "nat \<Rightarrow> rate_windows \<Rightarrow> bool" where
  "limiter_ok capacity ws = (distinct (map fst ws) \<and> length ws \<le> capacity)"

lemma distinct_prune: "distinct (map fst ws) \<Longrightarrow> distinct (map fst (prune now ws))"
  by (simp add: prune_def distinct_fst_filter)

lemma length_prune: "length (prune now ws) \<le> length ws"
  by (simp add: prune_def)

lemma map_of_prune:
  "distinct (map fst ws) \<Longrightarrow> map_of (prune now ws) k =
    (case map_of ws k of
       None \<Rightarrow> None | Some w \<Rightarrow> if now - rw_startedAt w < rw_windowMs w then Some w else None)"
  by (simp add: prune_def map_of_filter_distinct split: option.split)

lemma consume_ok:
  assumes "limiter_ok capacity ws"
  shows "limiter_ok capacity (snd (consume capacity bucket key rule now ws))"
proof (cases "map_of ws (bucket, key)")
  case None
  then have "map_of (prune now ws) (bucket, key) = None" using assms by (simp add: limiter_ok_def map_of_prune)
  then show ?thesis
    using assms None distinct_prune [of ws now] length_prune [of now ws]
    by (simp add: consume_def Let_def limiter_ok_def js_map_distinct_update js_map_size_update)
next
  case (Some w)
  then show ?thesis
    using assms by (simp add: consume_def Let_def limiter_ok_def js_map_distinct_update js_map_size_update)
qed

lemma reset_ok: "limiter_ok capacity ws \<Longrightarrow> limiter_ok capacity (reset_rate bucket key ws)"
  using js_map_size_delete [of "(bucket, key)" ws] by (simp add: limiter_ok_def reset_rate_def js_map_distinct_delete)

declare map_of_eq_Some_iff [simp del] Some_eq_map_of_iff [simp del]

text \<open>The window of a key that still counts.\<close>

definition live_window :: "int \<Rightarrow> rate_key \<Rightarrow> rate_windows \<Rightarrow> rate_window option" where
  "live_window now k ws =
     (case map_of ws k of
        None \<Rightarrow> None | Some w \<Rightarrow> if now - rw_startedAt w < rw_windowMs w then Some w else None)"

lemma consume_other:
  assumes "distinct (map fst ws)" and "k \<noteq> (bucket, key)"
  shows "live_window now k (snd (consume capacity bucket key rule now ws)) = live_window now k ws"
  using assms
  by (auto simp: consume_def Let_def live_window_def js_map_get_set map_of_prune split: option.split)

lemma live_later: "live_window now k ws = None \<Longrightarrow> now \<le> later \<Longrightarrow> live_window later k ws = None"
  by (auto simp: live_window_def split: option.splits if_splits)

subsection \<open>Bursts\<close>

datatype rate_op = Rate_Consume string string rate_rule | Rate_Reset string string

fun rate_step :: "nat \<Rightarrow> int \<Rightarrow> rate_op \<Rightarrow> rate_windows \<Rightarrow> bool \<times> rate_windows" where
  "rate_step capacity now (Rate_Consume bucket key rule) ws =
     (case consume capacity bucket key rule now ws of
        (Rate_Allowed r, ws) \<Rightarrow> (True, ws) | (Rate_Refused t saturated, ws) \<Rightarrow> (False, ws))"
| "rate_step capacity now (Rate_Reset bucket key) ws = (False, reset_rate bucket key ws)"

text \<open>The instants at which an event of a key was admitted, over operations at given instants.\<close>

fun admitted :: "nat \<Rightarrow> rate_key \<Rightarrow> (int \<times> rate_op) list \<Rightarrow> rate_windows \<Rightarrow> int list" where
  "admitted capacity k [] ws = []"
| "admitted capacity k ((now, p) # ps) ws =
     (let (ok, ws') = rate_step capacity now p ws;
          rest = admitted capacity k ps ws'
      in case p of
           Rate_Consume bucket key rule \<Rightarrow> if ok \<and> (bucket, key) = k then now # rest else rest
         | Rate_Reset bucket key \<Rightarrow> rest)"

definition count_in :: "int \<Rightarrow> int \<Rightarrow> int list \<Rightarrow> nat" where
  "count_in low high ts = length (filter (\<lambda>t. low \<le> t \<and> t < high) ts)"

text \<open>An operation that treats the key by one rule only.\<close>

fun by_rule :: "rate_key \<Rightarrow> rate_rule \<Rightarrow> rate_op \<Rightarrow> bool" where
  "by_rule k rule (Rate_Consume bucket key rule') = ((bucket, key) = k \<longrightarrow> rule' = rule)"
| "by_rule k rule (Rate_Reset bucket key) = ((bucket, key) \<noteq> k)"

definition window_ok :: "rate_rule \<Rightarrow> rate_key \<Rightarrow> rate_windows \<Rightarrow> bool" where
  "window_ok rule k ws =
     (distinct (map fst ws) \<and>
      (\<forall>w. map_of ws k = Some w \<longrightarrow> rw_windowMs w = rr_windowMs rule \<and> rw_count w \<le> rr_limit rule))"

text \<open>
  What can still be admitted in \<open>[low, low + windowMs)\<close> from \<open>now\<close> on: nothing after its end, one rule's limit
  once a window opens inside it, at most two limits otherwise.
\<close>

definition room_left :: "rate_rule \<Rightarrow> int \<Rightarrow> rate_key \<Rightarrow> int \<Rightarrow> rate_windows \<Rightarrow> int" where
  "room_left rule low k now ws =
     (if low + rr_windowMs rule \<le> now then 0
      else case live_window now k ws of
        None \<Rightarrow> if low \<le> now then rr_limit rule else 2 * rr_limit rule
      | Some w \<Rightarrow>
          if low \<le> rw_startedAt w then rr_limit rule - rw_count w
          else if low < rw_startedAt w + rr_windowMs rule then 2 * rr_limit rule - rw_count w
          else 2 * rr_limit rule)"

lemma room_later:
  assumes "window_ok rule k ws" and "now \<le> later" and "0 \<le> rr_limit rule" and "0 < rr_windowMs rule"
  shows "room_left rule low k later ws \<le> room_left rule low k now ws"
  using assms by (auto simp: room_left_def live_window_def window_ok_def split: option.splits)

lemma room_nonneg: "window_ok rule k ws \<Longrightarrow> 0 \<le> rr_limit rule \<Longrightarrow> 0 \<le> room_left rule low k now ws"
  by (auto simp: room_left_def live_window_def window_ok_def split: option.splits)

lemma count_in_Cons [simp]: "count_in low high (t # ts) = (if low \<le> t \<and> t < high then 1 else 0) + count_in low high ts"
  by (simp add: count_in_def)

lemma consume_room:
  assumes ok: "window_ok rule k ws" and k: "k = (bucket, key)" and rule: "1 \<le> rr_limit rule" "0 < rr_windowMs rule"
    and step: "consume capacity bucket key rule now ws = (outcome, ws')"
  shows "window_ok rule k ws' \<and>
    (case outcome of
       Rate_Allowed r \<Rightarrow> room_left rule low k now ws' + (if low \<le> now \<and> now < low + rr_windowMs rule then 1 else 0) \<le> room_left rule low k now ws
     | Rate_Refused t saturated \<Rightarrow> room_left rule low k now ws' = room_left rule low k now ws)"
proof (cases "map_of ws (bucket, key)")
  case None
  then have gone: "map_of (prune now ws) (bucket, key) = None"
    using ok by (simp add: window_ok_def map_of_prune)
  show ?thesis
    using step ok rule None gone distinct_prune [of ws now]
    by (auto simp: consume_def Let_def k window_ok_def room_left_def live_window_def js_map_get_set js_map_distinct_update
        split: if_splits)
next
  case (Some w)
  then show ?thesis
    using step ok rule
    by (auto simp: consume_def Let_def k window_ok_def room_left_def live_window_def js_map_get_set js_map_distinct_update
        split: if_splits)
qed

lemma other_room:
  assumes ok: "window_ok rule k ws" and other: "k \<noteq> (bucket, key)"
  shows "window_ok rule k (snd (consume capacity bucket key rule' now ws)) \<and>
    room_left rule low k now (snd (consume capacity bucket key rule' now ws)) = room_left rule low k now ws"
proof -
  have d: "distinct (map fst ws)" using ok by (simp add: window_ok_def)
  have "window_ok rule k (snd (consume capacity bucket key rule' now ws))"
    using ok other d distinct_prune [OF d, of now]
    by (auto simp: consume_def Let_def window_ok_def js_map_get_set js_map_distinct_update map_of_prune split: option.splits if_splits)
  then show ?thesis by (simp add: room_left_def consume_other [OF d other])
qed

lemma admitted_room:
  assumes "window_ok rule k ws" and "sorted (map fst ps)" and "\<forall>p \<in> set ps. start \<le> fst p \<and> by_rule k rule (snd p)"
    and rule: "1 \<le> rr_limit rule" "0 < rr_windowMs rule"
  shows "int (count_in low (low + rr_windowMs rule) (admitted capacity k ps ws)) \<le> room_left rule low k start ws"
  using assms(1-3)
proof (induction ps arbitrary: ws start)
  case Nil
  then show ?case using room_nonneg rule by (simp add: count_in_def)
next
  case (Cons entry ps)
  obtain now p where entry: "entry = (now, p)" by fastforce
  have ps: "sorted (map fst ps)" "\<forall>q \<in> set ps. now \<le> fst q \<and> by_rule k rule (snd q)"
    using Cons.prems by (auto simp: entry)
  have earlier: "room_left rule low k now ws \<le> room_left rule low k start ws"
    using Cons.prems rule by (intro room_later) (auto simp: entry)
  let ?in = "\<lambda>ts. int (count_in low (low + rr_windowMs rule) ts)"
  show ?case
  proof (cases p)
    case (Rate_Reset bucket key)
    then have other: "k \<noteq> (bucket, key)" using Cons.prems by (auto simp: entry)
    then have same: "map_of (reset_rate bucket key ws) k = map_of ws k" by (simp add: reset_rate_def js_map_get_remove)
    then have "window_ok rule k (reset_rate bucket key ws)"
      using Cons.prems(1) by (simp add: window_ok_def reset_rate_def js_map_distinct_delete)
    moreover have "room_left rule low k now (reset_rate bucket key ws) = room_left rule low k now ws"
      by (simp add: room_left_def live_window_def same)
    ultimately show ?thesis
      using Cons.IH [of "reset_rate bucket key ws" now] ps earlier by (simp add: entry Rate_Reset)
  next
    case (Rate_Consume bucket key rule')
    obtain outcome ws' where step: "consume capacity bucket key rule' now ws = (outcome, ws')" by fastforce
    show ?thesis
    proof (cases "(bucket, key) = k")
      case True
      then have "rule' = rule" using Cons.prems by (simp add: entry Rate_Consume)
      with step have step': "consume capacity bucket key rule now ws = (outcome, ws')" by simp
      note room = consume_room [OF Cons.prems(1) True [symmetric] rule step', of low]
      have "?in (admitted capacity k ps ws') \<le> room_left rule low k now ws'" using Cons.IH [OF _ ps] room by blast
      then show ?thesis
        using room earlier True by (cases outcome) (auto simp: entry Rate_Consume step split: if_splits)
    next
      case False
      then have other: "k \<noteq> (bucket, key)" by simp
      note room = other_room [OF Cons.prems(1) other, of capacity rule' now low, unfolded step snd_conv]
      have "?in (admitted capacity k ps ws') \<le> room_left rule low k now ws'" using Cons.IH [OF _ ps] room by blast
      then show ?thesis
        using room earlier False by (cases outcome) (auto simp: entry Rate_Consume step)
    qed
  qed
qed

text \<open>
  Over any traffic, of any number of keys, in time order, in which one key is limited by one rule and not
  reset, no interval as long as the rule's window admits more than twice the limit for that key; the limiter
  never holds more windows than its capacity, and no traffic of other keys touches a window that still counts.
\<close>

theorem rate_limit_burst:
  assumes "limiter_ok capacity ws" and "map_of ws k = None" and "sorted (map fst ps)"
    and "\<forall>p \<in> set ps. by_rule k rule (snd p)" and "1 \<le> rr_limit rule" and "0 < rr_windowMs rule"
  shows "int (count_in low (low + rr_windowMs rule) (admitted capacity k ps ws)) \<le> 2 * rr_limit rule \<and>
    limiter_ok capacity (foldl (\<lambda>ws (now, p). snd (rate_step capacity now p ws)) ws ps) \<and>
    (\<forall>bucket key rule' now. k \<noteq> (bucket, key) \<longrightarrow>
       live_window now k (snd (consume capacity bucket key rule' now ws)) = live_window now k ws)"
proof (intro conjI allI impI)
  have ok: "window_ok rule k ws" using assms(1,2) by (simp add: window_ok_def limiter_ok_def)
  have "\<exists>start. \<forall>p \<in> set ps. start \<le> fst p"
    using assms(3) by (cases ps) auto
  then obtain start where "\<forall>p \<in> set ps. start \<le> fst p \<and> by_rule k rule (snd p)" using assms(4) by blast
  from admitted_room [OF ok assms(3) this assms(5,6), of low capacity]
  have "int (count_in low (low + rr_windowMs rule) (admitted capacity k ps ws)) \<le> room_left rule low k start ws" .
  also have "\<dots> \<le> 2 * rr_limit rule" using assms(2,5) by (simp add: room_left_def live_window_def)
  finally show "int (count_in low (low + rr_windowMs rule) (admitted capacity k ps ws)) \<le> 2 * rr_limit rule" .
  have step: "limiter_ok capacity (snd (rate_step capacity now p u))" if "limiter_ok capacity u" for now p u
    using consume_ok [OF that] reset_ok [OF that] by (cases p) (auto split: prod.splits rate_outcome.splits, metis snd_conv, metis snd_conv)
  show "limiter_ok capacity (foldl (\<lambda>ws (now, p). snd (rate_step capacity now p ws)) ws ps)"
    using assms(1) by (induction ps arbitrary: ws) (auto intro: step)
next
  fix bucket key rule' now
  assume "k \<noteq> (bucket, key)"
  then show "live_window now k (snd (consume capacity bucket key rule' now ws)) = live_window now k ws"
    using assms(1) consume_other by (simp add: limiter_ok_def)
qed

theorem rate_limit_burst_witness:
  "int (count_in 0 1000 (admitted 2 (''b'', ''x'')
     [(0, Rate_Consume ''b'' ''x'' \<lparr>rr_limit = 1, rr_windowMs = 1000\<rparr>),
      (5, Rate_Consume ''b'' ''y'' \<lparr>rr_limit = 9, rr_windowMs = 10\<rparr>),
      (900, Rate_Consume ''b'' ''x'' \<lparr>rr_limit = 1, rr_windowMs = 1000\<rparr>)] [])) \<le> 2"
proof -
  let ?rule = "\<lparr>rr_limit = 1, rr_windowMs = 1000\<rparr> :: rate_rule"
  let ?ps = "[(0, Rate_Consume ''b'' ''x'' ?rule), (5, Rate_Consume ''b'' ''y'' \<lparr>rr_limit = 9, rr_windowMs = 10\<rparr>),
      (900, Rate_Consume ''b'' ''x'' ?rule)]"
  have "limiter_ok 2 []" by (simp add: limiter_ok_def)
  moreover have "\<forall>p \<in> set ?ps. by_rule (''b'', ''x'') ?rule (snd p)" by simp
  ultimately show ?thesis
    using rate_limit_burst [of 2 "[]" "(''b'', ''x'')" ?ps ?rule 0] by simp
qed

end
