(* ===== verification/Otp.thy ===== *)
theory Otp
  imports TaintSignature "HOL-Library.Word"
begin

text \<open>
  One-time codes: \<open>server/app/otp.ts\<close>, the comparison of \<open>server/app/token.ts\<close> and the challenge store
  \<open>server/app/otp-challenge-store.ts\<close>. The random draws are an argument (the 32-bit words that come from the
  platform, in order); every operation of the store is one synchronous block in the source, hence a function.
\<close>

unbundle bit_operations_syntax

subsection \<open>Comparing\<close>

definition char16 :: "char \<Rightarrow> 16 word" where
  "char16 c = word_of_nat (char_code c)"

definition timingSafeEqual :: "string \<Rightarrow> string \<Rightarrow> bool" where
  "timingSafeEqual a b =
     (if length a \<noteq> length b then False
      else foldl (\<lambda>difference (x, y). difference OR (char16 x XOR char16 y)) 0 (zip a b) = 0)"

lemma char16_inj: "char16 c = char16 d \<Longrightarrow> c = d"
proof -
  have small: "char_code x < 2 ^ 16" for x :: char
  proof -
    have "(of_char x :: nat) mod 256 = of_char x" using of_char_of [of "of_char x :: nat"] by (simp del: of_char_of)
    then have "(of_char x :: nat) < 256" by (metis mod_less_divisor zero_less_numeral)
    also have "(256 :: nat) < 2 ^ 16" by simp
    finally show ?thesis by (simp add: char_code_def)
  qed
  assume "char16 c = char16 d"
  then have "unat (char16 c) = unat (char16 d)" by simp
  then have "char_code c = char_code d"
    using small [of c] small [of d] by (simp add: char16_def unat_of_nat)
  then show "c = d" by (simp add: char_code_def)
qed

lemma or_zero_iff: "(x OR y = 0) = (x = 0 \<and> y = 0)" for x y :: "16 word"
  by (auto simp: or_eq_0_iff)

lemma xor_zero_iff: "(x XOR y = 0) = (x = y)" for x y :: "16 word"
  by (simp add: bit_eq_iff bit_xor_iff)

lemma difference_zero:
  "foldl (\<lambda>difference (x, y). difference OR (char16 x XOR char16 y)) d ps = 0 \<longleftrightarrow>
    d = 0 \<and> (\<forall>(x, y) \<in> set ps. x = y)"
  by (induction ps arbitrary: d) (auto simp: or_zero_iff xor_zero_iff dest: char16_inj)

lemma timingSafeEqual_iff: "timingSafeEqual a b \<longleftrightarrow> a = b"
proof (cases "length a = length b")
  case True
  then have "(\<forall>(x, y) \<in> set (zip a b). x = y) \<longleftrightarrow> a = b"
    by (induction a b rule: list_induct2) auto
  then show ?thesis using True by (simp add: timingSafeEqual_def difference_zero)
qed (auto simp: timingSafeEqual_def)

subsection \<open>Codes\<close>

definition OTP_DIGITS :: nat where
  "OTP_DIGITS = 6"

definition OTP_SPACE :: nat where
  "OTP_SPACE = 10 ^ OTP_DIGITS"

definition isOtpShape :: "string \<Rightarrow> bool" where
  "isOtpShape s = (length s = 6 \<and> list_all js_digit s)"

definition otpMatches :: "string \<Rightarrow> string \<Rightarrow> bool" where
  "otpMatches presented issued =
     (if \<not> isOtpShape presented \<or> \<not> isOtpShape issued then False else timingSafeEqual presented issued)"

definition otp_ceiling :: nat where
  "otp_ceiling = 2 ^ 32 div OTP_SPACE * OTP_SPACE"

definition pad_start :: "nat \<Rightarrow> char \<Rightarrow> string \<Rightarrow> string" where
  "pad_start n c s = replicate (n - length s) c @ s"

definition otp_of_draw :: "nat \<Rightarrow> string" where
  "otp_of_draw draw = pad_start OTP_DIGITS (CHR ''0'') (show_nat (draw mod OTP_SPACE))"

text \<open>The draws in order; \<open>None\<close> where none of those given is below the ceiling.\<close>

fun newOtpCode :: "32 word list \<Rightarrow> string option" where
  "newOtpCode [] = None"
| "newOtpCode (draw # draws) = (if otp_ceiling \<le> unat draw then newOtpCode draws else Some (otp_of_draw (unat draw)))"

lemma show_nat_length: "n < 10 ^ k \<Longrightarrow> 0 < k \<Longrightarrow> length (show_nat n) \<le> k"
proof (induction k arbitrary: n)
  case (Suc k)
  show ?case
  proof (cases "n < 10")
    case True
    then show ?thesis by (subst show_nat.simps) simp
  next
    case False
    then have "n div 10 < 10 ^ k" "0 < k" using Suc.prems(1) by (auto simp: less_mult_imp_div_less mult.commute gr0_conv_Suc) (cases k, simp_all)
    from Suc.IH [OF this] False show ?thesis by (subst show_nat.simps) simp
  qed
qed simp

lemma otp_shape: "isOtpShape (otp_of_draw draw)"
proof -
  have "length (show_nat (draw mod OTP_SPACE)) \<le> 6"
    by (rule show_nat_length) (simp_all add: OTP_SPACE_def OTP_DIGITS_def)
  then show ?thesis
    by (auto simp: isOtpShape_def otp_of_draw_def pad_start_def OTP_DIGITS_def list_all_iff dest: show_nat_digits)
      (simp_all add: js_digit_def char_code_def Let_def)
qed

lemma read_zeros: "read_nat (replicate k (CHR ''0'') @ s) = read_nat s"
proof -
  have "foldl (\<lambda>acc c. acc * 10 + (char_code c - 48)) 0 (replicate k (CHR ''0'')) = 0"
    by (induction k) (simp_all add: char_code_def)
  then show ?thesis by (simp add: read_nat_def)
qed

lemma read_otp: "read_nat (otp_of_draw draw) = draw mod OTP_SPACE"
  by (simp add: otp_of_draw_def pad_start_def read_zeros read_show_nat)

lemma otp_of_draw_eq: "otp_of_draw d = otp_of_draw e \<longleftrightarrow> d mod OTP_SPACE = e mod OTP_SPACE"
  by (metis otp_of_draw_def read_otp)

lemma newOtpCode_Some:
  "newOtpCode draws = Some code \<Longrightarrow> \<exists>draw \<in> set draws. unat draw < otp_ceiling \<and> code = otp_of_draw (unat draw)"
  by (induction draws) (auto split: if_splits)

lemma residues_card: "c < m \<Longrightarrow> card {d. d < q * m \<and> d mod m = c} = q" for c m q :: nat
proof -
  assume c: "c < m"
  have "{d. d < q * m \<and> d mod m = c} = (\<lambda>i. i * m + c) ` {..<q}"
  proof (intro set_eqI iffI)
    fix d
    assume d: "d \<in> {d. d < q * m \<and> d mod m = c}"
    then have "d = d div m * m + c" using div_mult_mod_eq [of d m] by simp
    moreover have "d div m < q" using d by (simp add: less_mult_imp_div_less)
    ultimately show "d \<in> (\<lambda>i. i * m + c) ` {..<q}" by blast
  next
    fix d
    assume "d \<in> (\<lambda>i. i * m + c) ` {..<q}"
    then obtain i where i: "i < q" "d = i * m + c" by auto
    then have "Suc i * m \<le> q * m" by (intro mult_le_mono1) simp
    then show "d \<in> {d. d < q * m \<and> d mod m = c}" using i c by simp
  qed
  moreover have "inj_on (\<lambda>i. i * m + c) {..<q}" using c by (intro inj_onI) auto
  ultimately show ?thesis by (simp add: card_image)
qed

text \<open>
  A minted code is six ASCII digits and matches itself and nothing else; every code that one draw can give
  comes from exactly 4294 of the draws that are accepted, so rejection leaves no code likelier than another;
  a draw below the ceiling ends the loop, and 967296 of the 2 to the 32 draws do not.
\<close>

theorem otp_uniform:
  "(newOtpCode draws = Some code \<longrightarrow> isOtpShape code \<and> (\<forall>presented. otpMatches presented code \<longleftrightarrow> presented = code)) \<and>
   card {d. d < otp_ceiling \<and> otp_of_draw d = otp_of_draw e} = 4294 \<and>
   ((\<exists>draw \<in> set draws. unat draw < otp_ceiling) \<longleftrightarrow> newOtpCode draws \<noteq> None) \<and>
   2 ^ 32 - otp_ceiling = 967296"
proof (intro conjI impI allI)
  assume "newOtpCode draws = Some code"
  then show shape: "isOtpShape code" using newOtpCode_Some otp_shape by blast
  show "otpMatches presented code \<longleftrightarrow> presented = code" for presented
    using shape by (auto simp: otpMatches_def timingSafeEqual_iff)
next
  have "otp_ceiling = 4294 * OTP_SPACE" by (simp add: otp_ceiling_def OTP_SPACE_def OTP_DIGITS_def)
  then show "card {d. d < otp_ceiling \<and> otp_of_draw d = otp_of_draw e} = 4294"
    using residues_card [of "e mod OTP_SPACE" OTP_SPACE 4294] by (simp add: otp_of_draw_eq OTP_SPACE_def)
  show "(\<exists>draw \<in> set draws. unat draw < otp_ceiling) \<longleftrightarrow> newOtpCode draws \<noteq> None"
    by (induction draws) auto
  show "2 ^ 32 - otp_ceiling = 967296" by (simp add: otp_ceiling_def OTP_SPACE_def OTP_DIGITS_def)
qed

theorem otp_uniform_witness: "isOtpShape ''000042'' \<and> otpMatches ''000042'' ''000042''"
proof -
  have chars: "replicate 4 (CHR ''0'') = ''0000'' \<and> char_of (52 :: nat) = CHR ''4'' \<and> char_of (50 :: nat) = CHR ''2''"
    by code_simp
  have "newOtpCode [word_of_nat 4294967295, word_of_nat 42] = Some ''000042''"
    using chars by (simp add: otp_ceiling_def OTP_SPACE_def OTP_DIGITS_def otp_of_draw_def pad_start_def show_nat.simps
        digit_char_def unat_of_nat)
  then show ?thesis
    using otp_uniform [of "[word_of_nat 4294967295, word_of_nat 42]" "''000042''" 0] by simp
qed

end
