(* ===== verification/OtpChallenges.thy ===== *)
theory OtpChallenges
  imports Otp Interfaces
begin

text \<open>
  \<open>server/app/otp-challenge-store.ts\<close>: the challenges that are open, in process memory. Each operation is one
  synchronous block, hence a function; the map is an association list. A view is a challenge without its code.
\<close>

datatype otp_purpose = Otp_Sign_In | Otp_Link

record challenge_view =
  cv_id :: string
  cv_email :: string
  cv_purpose :: otp_purpose
  cv_abaUserId :: "string option"
  cv_issuedAt :: int
  cv_expiresAt :: int
  cv_attempts :: int

record otp_challenge = challenge_view +
  cv_code :: string

definition otp_view :: "otp_challenge \<Rightarrow> challenge_view" where
  "otp_view c = challenge_view.truncate c"

datatype otp_attempt =
    Otp_Unknown
  | Otp_Expired
  | Otp_Exhausted
  | Otp_Mismatch int
  | Otp_Verified challenge_view

datatype otp_issue = Otp_Issued challenge_view | Otp_At_Capacity

record otp_options =
  oo_maxAttempts :: int
  oo_capacity :: nat

type_synonym otp_store = "(string \<times> otp_challenge) list"

definition pruneExpired :: "int \<Rightarrow> otp_store \<Rightarrow> nat \<times> otp_store" where
  "pruneExpired now s =
     (length (filter (\<lambda>(i, c). cv_expiresAt c \<le> now) s), filter (\<lambda>(i, c). now < cv_expiresAt c) s)"

definition issue_otp :: "otp_options \<Rightarrow> otp_challenge \<Rightarrow> otp_store \<Rightarrow> otp_issue \<times> otp_store" where
  "issue_otp opts challenge s =
     (let s = snd (pruneExpired (cv_issuedAt challenge) s);
          s = filter (\<lambda>(i, c). cv_email c \<noteq> cv_email challenge) s
      in if oo_capacity opts \<le> length s then (Otp_At_Capacity, s)
         else (Otp_Issued (otp_view challenge), AList.update (cv_id challenge) challenge s))"

definition peek_otp :: "string \<Rightarrow> otp_store \<Rightarrow> challenge_view option" where
  "peek_otp i s = map_option otp_view (map_of s i)"

definition attempt_otp :: "otp_options \<Rightarrow> string \<Rightarrow> string \<Rightarrow> int \<Rightarrow> otp_store \<Rightarrow> otp_attempt \<times> otp_store" where
  "attempt_otp opts i code now s =
     (case map_of s i of
        None \<Rightarrow> (Otp_Unknown, s)
      | Some challenge \<Rightarrow>
          if cv_expiresAt challenge \<le> now then (Otp_Expired, AList.delete i s)
          else
            (let attempts = cv_attempts challenge + 1 in
             if oo_maxAttempts opts < attempts then (Otp_Exhausted, AList.delete i s)
             else if \<not> otpMatches code (cv_code challenge) then
               (let remaining = oo_maxAttempts opts - attempts in
                if remaining \<le> 0 then (Otp_Exhausted, AList.delete i s)
                else (Otp_Mismatch remaining, AList.update i (challenge\<lparr>cv_attempts := attempts\<rparr>) s))
             else (Otp_Verified (otp_view (challenge\<lparr>cv_attempts := attempts\<rparr>)), AList.delete i s)))"

definition discard_otp :: "string \<Rightarrow> otp_store \<Rightarrow> otp_store" where
  "discard_otp i s = AList.delete i s"

subsection \<open>Open challenges\<close>

text \<open>Identifiers are keys, no two open challenges have one address, and there is room for them all.\<close>

definition challenges_ok :: "otp_options \<Rightarrow> otp_store \<Rightarrow> bool" where
  "challenges_ok opts s =
     (distinct (map fst s) \<and> distinct (map (\<lambda>(i, c). cv_email c) s) \<and> (\<forall>(i, c) \<in> set s. cv_id c = i) \<and>
      length s \<le> oo_capacity opts)"

lemma filter_ok: "challenges_ok opts s \<Longrightarrow> challenges_ok opts (filter P s)"
  by (auto simp: challenges_ok_def distinct_map_filter intro: order.trans [OF length_filter_le])

lemma delete_filter: "AList.delete i s = filter (\<lambda>p. fst p \<noteq> i) s"
  by (induction s) auto

lemma delete_ok: "challenges_ok opts s \<Longrightarrow> challenges_ok opts (AList.delete i s)"
  unfolding delete_filter by (rule filter_ok)

lemma update_fresh: "i \<notin> fst ` set s \<Longrightarrow> AList.update i c s = s @ [(i, c)]"
  by (induction s) auto

lemma issue_ok:
  assumes "challenges_ok opts s" and fresh: "cv_id c \<notin> fst ` set s"
  shows "challenges_ok opts (snd (issue_otp opts c s))"
proof -
  let ?s = "filter (\<lambda>(i, x). cv_email x \<noteq> cv_email c) (snd (pruneExpired (cv_issuedAt c) s))"
  have ok: "challenges_ok opts ?s" using assms(1) by (simp add: pruneExpired_def filter_ok)
  have "cv_id c \<notin> fst ` set ?s" using fresh by (auto simp: pruneExpired_def)
  then have "AList.update (cv_id c) c ?s = ?s @ [(cv_id c, c)]" by (rule update_fresh)
  then show ?thesis using ok \<open>cv_id c \<notin> fst ` set ?s\<close>
    by (auto simp: issue_otp_def Let_def challenges_ok_def)
qed

lemma update_same_email:
  assumes "map_of s i = Some c" and "distinct (map fst s)" and "cv_email c' = cv_email c"
  shows "map (\<lambda>(i, c). cv_email c) (AList.update i c' s) = map (\<lambda>(i, c). cv_email c) s"
  using assms by (induction s) (auto split: if_splits)

lemma update_known_set: "set (AList.update i c s) \<subseteq> insert (i, c) (set s)"
  by (induction s) auto

lemma attempt_ok:
  assumes ok: "challenges_ok opts s"
  shows "challenges_ok opts (snd (attempt_otp opts i code now s))"
proof (cases "map_of s i")
  case None
  then show ?thesis using ok by (simp add: attempt_otp_def)
next
  case (Some c)
  let ?s = "AList.update i (c\<lparr>cv_attempts := cv_attempts c + 1\<rparr>) s"
  have d: "distinct (map fst s)" using ok by (simp add: challenges_ok_def)
  have "cv_id c = i" using ok map_of_SomeD [OF Some] by (auto simp: challenges_ok_def)
  then have "challenges_ok opts ?s"
    using ok update_same_email [OF Some d, of "c\<lparr>cv_attempts := cv_attempts c + 1\<rparr>"] Some
      update_known_set [of i "c\<lparr>cv_attempts := cv_attempts c + 1\<rparr>" s]
    by (auto simp: challenges_ok_def js_map_distinct_update js_map_size_update)
  then show ?thesis using ok delete_ok by (simp add: attempt_otp_def Some Let_def)
qed

datatype otp_op =
    Op_Issue otp_challenge
  | Op_Attempt string string int
  | Op_Discard string
  | Op_Purge int

fun otp_step :: "otp_options \<Rightarrow> otp_op \<Rightarrow> otp_store \<Rightarrow> otp_attempt option \<times> otp_store" where
  "otp_step opts (Op_Issue c) s = (None, snd (issue_otp opts c s))"
| "otp_step opts (Op_Attempt i code now) s = (case attempt_otp opts i code now s of (a, s) \<Rightarrow> (Some a, s))"
| "otp_step opts (Op_Discard i) s = (None, discard_otp i s)"
| "otp_step opts (Op_Purge now) s = (None, snd (pruneExpired now s))"

text \<open>The answers to the attempts on one challenge, over operations on any.\<close>

fun answers :: "otp_options \<Rightarrow> string \<Rightarrow> otp_op list \<Rightarrow> otp_store \<Rightarrow> otp_attempt list" where
  "answers opts i [] s = []"
| "answers opts i (p # ps) s =
     (let (a, s') = otp_step opts p s; rest = answers opts i ps s'
      in case (p, a) of (Op_Attempt j code now, Some x) \<Rightarrow> if j = i then x # rest else rest | _ \<Rightarrow> rest)"

fun issues :: "string \<Rightarrow> otp_op \<Rightarrow> bool" where
  "issues i (Op_Issue c) = (cv_id c = i)"
| "issues i _ = False"

definition run_otp :: "otp_options \<Rightarrow> otp_op list \<Rightarrow> otp_store \<Rightarrow> otp_store" where
  "run_otp opts ps s = foldl (\<lambda>s p. snd (otp_step opts p s)) s ps"

text \<open>
  The pattern of the answers: wrong guesses, at most one answer that ends the challenge, and then nothing that
  knows it. \<open>left\<close> is the number of guesses that may still be compared.
\<close>

fun guess_pattern :: "int \<Rightarrow> otp_attempt list \<Rightarrow> bool" where
  "guess_pattern left [] = True"
| "guess_pattern left (Otp_Mismatch r # as) = (1 \<le> r \<and> r = left - 1 \<and> guess_pattern r as)"
| "guess_pattern left (a # as) = (\<forall>b \<in> set as. b = Otp_Unknown)"

lemma step_other:
  assumes "distinct (map fst s)" and "\<not> issues i p" and "\<And>code now. p \<noteq> Op_Attempt i code now"
  shows "map_of (snd (otp_step opts p s)) i = map_of s i \<or> map_of (snd (otp_step opts p s)) i = None"
proof (cases p)
  case (Op_Issue c)
  then have "cv_id c \<noteq> i" using assms(2) by simp
  then show ?thesis
    using assms(1) by (auto simp: Op_Issue issue_otp_def Let_def pruneExpired_def js_map_get_set map_of_filter_distinct
        distinct_fst_filter simp del: map_of_eq_Some_iff Some_eq_map_of_iff split: option.splits)
next
  case (Op_Attempt j code now)
  then have "j \<noteq> i" using assms(3) by auto
  then show ?thesis
    by (auto simp: Op_Attempt attempt_otp_def Let_def js_map_get_set js_map_get_remove split: option.splits prod.splits)
next
  case (Op_Discard j)
  then show ?thesis by (simp add: discard_otp_def js_map_get_remove)
next
  case (Op_Purge now)
  then show ?thesis
    using assms(1) by (auto simp: pruneExpired_def map_of_filter_distinct simp del: map_of_eq_Some_iff Some_eq_map_of_iff
        split: option.splits)
qed

lemma step_distinct: "distinct (map fst s) \<Longrightarrow> distinct (map fst (snd (otp_step opts p s)))"
  by (cases p) (auto simp: issue_otp_def attempt_otp_def discard_otp_def pruneExpired_def Let_def js_map_distinct_update
      js_map_distinct_delete distinct_fst_filter split: prod.splits option.splits)

lemma answers_gone:
  "distinct (map fst s) \<Longrightarrow> map_of s i = None \<Longrightarrow> \<forall>p \<in> set ps. \<not> issues i p \<Longrightarrow>
    \<forall>a \<in> set (answers opts i ps s). a = Otp_Unknown"
proof (induction ps arbitrary: s)
  case (Cons p ps)
  have gone: "map_of (snd (otp_step opts p s)) i = None"
  proof (cases "\<exists>code now. p = Op_Attempt i code now")
    case True
    then show ?thesis using Cons.prems(2) by (auto simp: attempt_otp_def)
  next
    case False
    then show ?thesis using step_other [OF Cons.prems(1), of i p opts] Cons.prems(2,3) by auto
  qed
  from Cons.IH [OF step_distinct [OF Cons.prems(1)] this] Cons.prems(3)
  have rest: "\<forall>a \<in> set (answers opts i ps (snd (otp_step opts p s))). a = Otp_Unknown" by simp
  then show ?case using Cons.prems(2) by (cases p) (auto simp: Let_def attempt_otp_def split: prod.splits)
qed simp

lemma answers_pattern:
  "distinct (map fst s) \<Longrightarrow> map_of s i = Some c \<Longrightarrow> \<forall>p \<in> set ps. \<not> issues i p \<Longrightarrow>
    guess_pattern (oo_maxAttempts opts - cv_attempts c) (answers opts i ps s)"
proof (induction ps arbitrary: s c)
  case (Cons p ps)
  let ?s = "snd (otp_step opts p s)"
  note d = step_distinct [OF Cons.prems(1), of opts p]
  have later: "\<forall>p \<in> set ps. \<not> issues i p" using Cons.prems(3) by simp
  show ?case
  proof (cases "\<exists>code now. p = Op_Attempt i code now")
    case True
    then obtain code now where p: "p = Op_Attempt i code now" by blast
    obtain a s' where step: "attempt_otp opts i code now s = (a, s')" by fastforce
    show ?thesis
    proof (cases a)
      case (Otp_Mismatch r)
      then have r: "1 \<le> r" "r = oo_maxAttempts opts - cv_attempts c - 1"
        and "s' = AList.update i (c\<lparr>cv_attempts := cv_attempts c + 1\<rparr>) s"
        using step Cons.prems(2) by (auto simp: attempt_otp_def Let_def split: if_splits)
      then have "map_of s' i = Some (c\<lparr>cv_attempts := cv_attempts c + 1\<rparr>)" by (simp add: js_map_get_set)
      from Cons.IH [OF _ this later] d
      have "guess_pattern (oo_maxAttempts opts - (cv_attempts c + 1)) (answers opts i ps s')" by (simp add: p step)
      moreover have "oo_maxAttempts opts - (cv_attempts c + 1) = r" using r by simp
      ultimately show ?thesis using r by (simp add: p step Otp_Mismatch)
    qed (use step Cons.prems(2) d answers_gone [of s' i ps opts] later in
        \<open>auto simp: p attempt_otp_def Let_def js_map_get_remove split: if_splits\<close>)
  next
    case False
    then have same: "answers opts i (p # ps) s = answers opts i ps ?s"
      by (cases p) (auto simp: Let_def split: prod.splits)
    from step_other [OF Cons.prems(1), of i p opts] False Cons.prems(3)
    have "map_of ?s i = Some c \<or> map_of ?s i = None" using Cons.prems(2) by auto
    then show ?thesis
    proof
      assume "map_of ?s i = Some c"
      from Cons.IH [OF d this later] show ?thesis unfolding same .
    next
      assume "map_of ?s i = None"
      from answers_gone [OF d this later, of opts] show ?thesis
        unfolding same by (cases "answers opts i ps ?s") auto
    qed
  qed
qed simp

text \<open>An answer for which the code was compared with the one issued, or would have been once too often.\<close>

fun compared :: "otp_attempt \<Rightarrow> bool" where
  "compared (Otp_Mismatch r) = True"
| "compared Otp_Exhausted = True"
| "compared (Otp_Verified v) = True"
| "compared _ = False"

fun verified :: "otp_attempt \<Rightarrow> bool" where
  "verified (Otp_Verified v) = True"
| "verified _ = False"

lemma unknown_silent: "\<forall>b \<in> set as. b = Otp_Unknown \<Longrightarrow> filter compared as = [] \<and> filter verified as = []"
  by (auto simp: filter_empty_conv)

lemma pattern_bounds:
  "guess_pattern left as \<Longrightarrow> 1 \<le> left \<Longrightarrow> int (length (filter compared as)) \<le> left \<and> length (filter verified as) \<le> 1"
proof (induction as arbitrary: left)
  case (Cons a as)
  show ?case
  proof (cases a)
    case (Otp_Mismatch r)
    then show ?thesis using Cons.IH [of r] Cons.prems by auto
  qed (use Cons.prems unknown_silent [of as] in simp_all)
qed simp

lemma attempt_verified:
  "fst (attempt_otp opts i code now s) = Otp_Verified v \<Longrightarrow>
    \<exists>c. map_of s i = Some c \<and> code = cv_code c \<and> isOtpShape code \<and> now < cv_expiresAt c \<and>
      cv_attempts c < oo_maxAttempts opts \<and> map_of (snd (attempt_otp opts i code now s)) i = None"
  by (auto simp: attempt_otp_def Let_def otpMatches_def timingSafeEqual_iff js_map_get_remove split: option.splits if_splits)

text \<open>
  C0. Over any operations that follow the issue of a challenge, on it and on others, in any order, at most
  \<open>maxAttempts\<close> guesses are answered by comparing, at most one is accepted, an accepted code is the code that
  was issued, presented before its expiry, and whatever ends the challenge leaves it unknown for ever.
\<close>

theorem otp_guesses_bounded:
  assumes "challenges_ok opts s" and "map_of s i = Some c" and "cv_attempts c = 0" and "1 \<le> oo_maxAttempts opts"
    and "\<forall>p \<in> set ps. \<not> issues i p"
  shows "int (length (filter compared (answers opts i ps s))) \<le> oo_maxAttempts opts \<and>
    length (filter verified (answers opts i ps s)) \<le> 1 \<and>
    guess_pattern (oo_maxAttempts opts) (answers opts i ps s) \<and>
    (\<forall>code now v. fst (attempt_otp opts i code now s) = Otp_Verified v \<longrightarrow>
       code = cv_code c \<and> now < cv_expiresAt c \<and> map_of (snd (attempt_otp opts i code now s)) i = None)"
proof -
  have "distinct (map fst s)" using assms(1) by (simp add: challenges_ok_def)
  from answers_pattern [OF this assms(2,5), of opts] assms(3)
  have pattern: "guess_pattern (oo_maxAttempts opts) (answers opts i ps s)" by simp
  moreover have "\<forall>code now v. fst (attempt_otp opts i code now s) = Otp_Verified v \<longrightarrow>
      code = cv_code c \<and> now < cv_expiresAt c \<and> map_of (snd (attempt_otp opts i code now s)) i = None"
    using attempt_verified [of opts i _ _ s] assms(2) by fastforce
  ultimately show ?thesis using pattern_bounds [OF pattern assms(4)] by blast
qed

definition sample_challenge :: otp_challenge where
  "sample_challenge =
     \<lparr>cv_id = ''otp_1'', cv_email = ''a@b.c'', cv_purpose = Otp_Sign_In, cv_abaUserId = None, cv_issuedAt = 0,
      cv_expiresAt = 600000, cv_attempts = 0, cv_code = ''123456''\<rparr>"

theorem otp_guesses_bounded_witness:
  "length (filter verified (answers \<lparr>oo_maxAttempts = 2, oo_capacity = 5\<rparr> ''otp_1''
     [Op_Attempt ''otp_1'' ''000000'' 1, Op_Attempt ''otp_1'' ''123456'' 2, Op_Attempt ''otp_1'' ''123456'' 3]
     [(''otp_1'', sample_challenge)])) \<le> 1"
  using otp_guesses_bounded [of "\<lparr>oo_maxAttempts = 2, oo_capacity = 5\<rparr>" "[(''otp_1'', sample_challenge)]" "''otp_1''"
      sample_challenge "[Op_Attempt ''otp_1'' ''000000'' 1, Op_Attempt ''otp_1'' ''123456'' 2, Op_Attempt ''otp_1'' ''123456'' 3]"]
  by (simp add: challenges_ok_def sample_challenge_def)

text \<open>Each challenge issued has an identifier of its own.\<close>

fun fresh_issues :: "otp_options \<Rightarrow> otp_op list \<Rightarrow> otp_store \<Rightarrow> bool" where
  "fresh_issues opts [] s = True"
| "fresh_issues opts (p # ps) s =
     ((case p of Op_Issue c \<Rightarrow> cv_id c \<notin> fst ` set s | _ \<Rightarrow> True) \<and> fresh_issues opts ps (snd (otp_step opts p s)))"

text \<open>
  From an empty store, after any operations with fresh identifiers, one address has at most one open
  challenge, so issuing a code leaves no older code for the address valid, and the store never exceeds its
  capacity; issuing never closes a live challenge of another address.
\<close>

theorem one_challenge_per_address:
  assumes "fresh_issues opts ps []"
  shows "challenges_ok opts (run_otp opts ps []) \<and>
    (\<forall>c i x. map_of (run_otp opts ps []) i = Some x \<and> cv_issuedAt c < cv_expiresAt x \<and> cv_email x \<noteq> cv_email c \<and> cv_id c \<noteq> i \<longrightarrow>
       map_of (snd (issue_otp opts c (run_otp opts ps []))) i = Some x)"
proof -
  have ok: "challenges_ok opts (run_otp opts ps s)" if "challenges_ok opts s" "fresh_issues opts ps s" for s
    using that
  proof (induction ps arbitrary: s)
    case (Cons p ps)
    have "challenges_ok opts (snd (otp_step opts p s))"
      using Cons.prems issue_ok attempt_ok delete_ok filter_ok
      by (cases p) (auto simp: discard_otp_def pruneExpired_def split: prod.splits, metis snd_conv)
    from Cons.IH [OF this] Cons.prems(2) show ?case by (simp add: run_otp_def)
  qed (simp add: run_otp_def)
  have held: "challenges_ok opts (run_otp opts ps [])" using ok [of "[]"] assms by (simp add: challenges_ok_def)
  then have d: "distinct (map fst (run_otp opts ps []))" by (simp add: challenges_ok_def)
  have "map_of (snd (issue_otp opts c (run_otp opts ps []))) i = Some x"
    if "map_of (run_otp opts ps []) i = Some x" "cv_issuedAt c < cv_expiresAt x" "cv_email x \<noteq> cv_email c" "cv_id c \<noteq> i" for c i x
    using that d by (simp add: issue_otp_def Let_def pruneExpired_def js_map_get_set map_of_filter_distinct distinct_fst_filter
        del: map_of_eq_Some_iff)
  then show ?thesis using held by blast
qed

theorem one_challenge_per_address_witness:
  "challenges_ok \<lparr>oo_maxAttempts = 5, oo_capacity = 10\<rparr> (run_otp \<lparr>oo_maxAttempts = 5, oo_capacity = 10\<rparr>
     [Op_Issue sample_challenge, Op_Issue (sample_challenge\<lparr>cv_id := ''otp_2'', cv_issuedAt := 9\<rparr>)] [])"
  using one_challenge_per_address [of "\<lparr>oo_maxAttempts = 5, oo_capacity = 10\<rparr>"
      "[Op_Issue sample_challenge, Op_Issue (sample_challenge\<lparr>cv_id := ''otp_2'', cv_issuedAt := 9\<rparr>)]"]
  by (simp add: issue_otp_def pruneExpired_def sample_challenge_def)

end
