(* ===== verification/EmailAuth.thy ===== *)
theory EmailAuth
  imports Identities RateLimiter OtpChallenges
begin

text \<open>
  Sign-in by emailed code, \<open>server/app/email-auth-service.ts\<close>: the composition of the rate limiter, the code
  challenges, the accounts, identities, sessions and devices. The mailer is not code of the repository: whether a
  message was sent is an input (a thrown delivery counts as not sent). Random draws and the clock are inputs too, the
  clock once per call.
\<close>

definition OTP_TTL_MS :: int where "OTP_TTL_MS = 10 * 60 * 1000"

definition MAX_OTP_ATTEMPTS :: int where "MAX_OTP_ATTEMPTS = 5"

definition OTP_CHALLENGE_CAPACITY :: nat where "OTP_CHALLENGE_CAPACITY = 10000"

definition startPerEmail :: rate_rule where "startPerEmail = \<lparr>rr_limit = 5, rr_windowMs = 15 * 60 * 1000\<rparr>"

definition startPerSource :: rate_rule where "startPerSource = \<lparr>rr_limit = 20, rr_windowMs = 15 * 60 * 1000\<rparr>"

definition verifyPerSource :: rate_rule where "verifyPerSource = \<lparr>rr_limit = 50, rr_windowMs = 15 * 60 * 1000\<rparr>"

definition resendCooldown :: rate_rule where "resendCooldown = \<lparr>rr_limit = 1, rr_windowMs = 30 * 1000\<rparr>"

definition MAX_EMAIL_LENGTH :: nat where "MAX_EMAIL_LENGTH = 254"

definition printable :: "char \<Rightarrow> bool" where
  "printable c \<longleftrightarrow> 0x21 \<le> char_code c \<and> char_code c \<le> 0x7e"

fun has_double_dot :: "string \<Rightarrow> bool" where
  "has_double_dot (x # y # xs) = (x = CHR ''.'' \<and> y = CHR ''.'' \<or> has_double_dot (y # xs))"
| "has_double_dot _ = False"

definition isDeliverableEmail :: "string \<Rightarrow> bool" where
  "isDeliverableEmail value =
     (if length value = 0 \<or> length value > MAX_EMAIL_LENGTH then False
      else if \<not> list_all printable value then False
      else
        case last_index (CHR ''@'') value of
          None \<Rightarrow> False
        | Some i \<Rightarrow>
            if i = 0 \<or> i = length value - 1 then False
            else
              (let domain = drop (i + 1) value in
               CHR ''.'' \<in> set domain \<and> hd domain \<noteq> CHR ''.'' \<and> last domain \<noteq> CHR ''.'' \<and> \<not> has_double_dot domain \<and>
               CHR ''@'' \<notin> set domain))"

record email_service =
  es_sessions :: session_service
  es_limiterCapacity :: nat
  es_otp :: otp_options
  es_ttl :: int

record email_state =
  em_windows :: rate_windows
  em_challenges :: otp_store
  em_auth :: auth_store

definition email_consume :: "email_service \<Rightarrow> string \<Rightarrow> string \<Rightarrow> rate_rule \<Rightarrow> int \<Rightarrow> email_state \<Rightarrow> rate_outcome \<times> email_state" where
  "email_consume svc bucket key rule now st =
     (case consume (es_limiterCapacity svc) bucket key rule now (em_windows st) of (r, ws) \<Rightarrow> (r, st\<lparr>em_windows := ws\<rparr>))"

subsection \<open>Sending a code\<close>

datatype email_start_refusal = Start_Invalid_Email | Start_Rate_Limited | Start_Delivery_Failed | Start_Busy

datatype email_start_answer =
    Email_Sent string int int
  | Email_Start_Refused email_start_refusal "int option"

definition otp_draft :: "string \<Rightarrow> string \<Rightarrow> string \<Rightarrow> principal option \<Rightarrow> int \<Rightarrow> int \<Rightarrow> otp_challenge" where
  "otp_draft i email code link now ttl =
     \<lparr>cv_id = i, cv_email = email, cv_purpose = (if link = None then Otp_Sign_In else Otp_Link),
      cv_abaUserId = map_option pr_user link, cv_issuedAt = now, cv_expiresAt = now + ttl, cv_attempts = 0, cv_code = code\<rparr>"

definition email_start ::
  "email_service \<Rightarrow> string \<Rightarrow> string \<Rightarrow> principal option \<Rightarrow> string \<Rightarrow> string \<Rightarrow> bool \<Rightarrow> int \<Rightarrow> email_state \<Rightarrow>
    email_start_answer \<times> email_state" where
  "email_start svc address source link i code delivered now st =
     (let email = normaliseEmail (js_trim address) in
      if \<not> isDeliverableEmail email then (Email_Start_Refused Start_Invalid_Email None, st)
      else
        case email_consume svc ''otp.start.source'' source startPerSource now st of
          (Rate_Refused wait full, st) \<Rightarrow> (Email_Start_Refused Start_Rate_Limited (Some wait), st)
        | (Rate_Allowed left, st) \<Rightarrow>
            (case email_consume svc ''otp.resend'' email resendCooldown now st of
               (Rate_Refused wait full, st) \<Rightarrow> (Email_Start_Refused Start_Rate_Limited (Some wait), st)
             | (Rate_Allowed left, st) \<Rightarrow>
                 (case email_consume svc ''otp.start.email'' email startPerEmail now st of
                    (Rate_Refused wait full, st) \<Rightarrow> (Email_Start_Refused Start_Rate_Limited (Some wait), st)
                  | (Rate_Allowed left, st) \<Rightarrow>
                      (case issue_otp (es_otp svc) (otp_draft i email code link now (es_ttl svc)) (em_challenges st) of
                         (Otp_At_Capacity, cs) \<Rightarrow> (Email_Start_Refused Start_Busy None, st\<lparr>em_challenges := cs\<rparr>)
                       | (Otp_Issued challenge, cs) \<Rightarrow>
                           if \<not> delivered then
                             (Email_Start_Refused Start_Delivery_Failed None, st\<lparr>em_challenges := discard_otp i cs\<rparr>)
                           else
                             (Email_Sent i (cv_expiresAt challenge) (now + rr_windowMs resendCooldown), st\<lparr>em_challenges := cs\<rparr>)))))"

subsection \<open>Redeeming a code\<close>

datatype email_refusal = Invalid_Code | Code_Expired | Attempts_Exhausted | Verify_Rate_Limited | Account_Unavailable

datatype email_verify_answer =
    Email_Verified issued_session bool bool string
  | Email_Verify_Refused email_refusal "int option" "int option"

text \<open>The ids and tokens a verification may draw: those of a new account and its bootstrap session, then the session's.\<close>

record email_draws =
  ed_user :: string
  ed_bootFamily :: string
  ed_bootSession :: string
  ed_bootToken :: string
  ed_identity :: string
  ed_family :: string
  ed_session :: string
  ed_token :: string

definition email_credential :: "string \<Rightarrow> verified_identity" where
  "email_credential email = \<lparr>vi_kind = EmailIdentity, vi_subject = None, vi_email = Some email, vi_emailVerified = True\<rparr>"

definition resolveAccount ::
  "session_service \<Rightarrow> string \<Rightarrow> email_draws \<Rightarrow> int \<Rightarrow> auth_store \<Rightarrow> (string \<times> string) reply \<times> auth_store" where
  "resolveAccount svc email dw now st =
     (case findIdentityByVerifiedEmail EmailIdentity email st of
        Some existing \<Rightarrow>
          (case live_account (ir_user existing) st of
             Ok u \<Rightarrow> (Ok (ur_id u, ir_id existing), st)
           | Fail e \<Rightarrow> (Fail e, st)
           | Threw v \<Rightarrow> (Threw v, st))
      | None \<Rightarrow>
          (case createAccount (ed_user dw) now st of
             (Threw v, st) \<Rightarrow> (Threw v, st)
           | (Fail e, st) \<Rightarrow> (Fail e, st)
           | (Ok account, st) \<Rightarrow>
               (case createSession svc (ur_id account) None (ed_bootFamily dw) (ed_bootSession dw) (ed_bootToken dw) now st of
                  (Threw v, st) \<Rightarrow> (Threw v, st)
                | (Fail e, st) \<Rightarrow> (Fail e, st)
                | (Ok s, st) \<Rightarrow>
                    (case verify_session (is_session s) now st of
                       Threw v \<Rightarrow> (Threw v, st)
                     | Fail e \<Rightarrow> (Fail e, st)
                     | Ok p \<Rightarrow>
                         (case attachIdentity p (email_credential email) (ed_identity dw) now st of
                            (Threw v, st) \<Rightarrow> (Threw v, st)
                          | (Fail e, st) \<Rightarrow> (Fail e, store_revokeSession (pr_session p) now ''bootstrap'' st)
                          | (Ok r, st) \<Rightarrow> (Ok (ur_id account, ir_id r), store_revokeSession (pr_session p) now ''bootstrap'' st))))))"

definition email_registerDevice :: "string \<Rightarrow> string option \<Rightarrow> int \<Rightarrow> auth_store \<Rightarrow> bool \<times> auth_store" where
  "email_registerDevice sid named now st =
     (case named of
        None \<Rightarrow> (False, st)
      | Some d \<Rightarrow>
          if \<not> isDeviceId d then (False, st)
          else
            (case verify_session sid now st of
               Ok p \<Rightarrow> (case registerDevice p d now st of (r, st') \<Rightarrow> (case r of Ok x \<Rightarrow> True | _ \<Rightarrow> False, st'))
             | _ \<Rightarrow> (False, st)))"

text \<open>What a redeemed sign-in challenge does to the accounts.\<close>

definition email_sign_in ::
  "session_service \<Rightarrow> string \<Rightarrow> string option \<Rightarrow> email_draws \<Rightarrow> int \<Rightarrow> auth_store \<Rightarrow> email_verify_answer reply \<times> auth_store" where
  "email_sign_in svc email named dw now st =
     (let unavailable = Ok (Email_Verify_Refused Account_Unavailable None None) in
      case resolveAccount svc email dw now st of
        (Threw v, st) \<Rightarrow> (Threw v, st)
      | (Fail e, st) \<Rightarrow> (unavailable, st)
      | (Ok (user, ident), st) \<Rightarrow>
          (case createSession svc user (Some ident) (ed_family dw) (ed_session dw) (ed_token dw) now st of
             (Threw v, st) \<Rightarrow> (Threw v, st)
           | (Fail e, st) \<Rightarrow> (unavailable, st)
           | (Ok s, st) \<Rightarrow>
               (let created = (case getIdentity ident st of None \<Rightarrow> False | Some r \<Rightarrow> ir_last_used_at r = None);
                    st = (case getIdentity ident st of None \<Rightarrow> st | Some r \<Rightarrow> touchIdentity (ir_id r) now st) in
                case email_registerDevice (is_session s) named now st of
                  (registered, st) \<Rightarrow> (Ok (Email_Verified s created registered email), st))))"

definition email_verify ::
  "email_service \<Rightarrow> string \<Rightarrow> string \<Rightarrow> string \<Rightarrow> string option \<Rightarrow> email_draws \<Rightarrow> int \<Rightarrow> email_state \<Rightarrow>
    email_verify_answer reply \<times> email_state" where
  "email_verify svc challengeId code source named dw now st =
     (case email_consume svc ''otp.verify.source'' source verifyPerSource now st of
        (Rate_Refused wait full, st) \<Rightarrow> (Ok (Email_Verify_Refused Verify_Rate_Limited None (Some wait)), st)
      | (Rate_Allowed left, st) \<Rightarrow>
          (case attempt_otp (es_otp svc) challengeId (if isOtpShape code then code else []) now (em_challenges st) of
             (outcome, cs) \<Rightarrow>
               (let st = st\<lparr>em_challenges := cs\<rparr>; refuse = (\<lambda>reason remaining. (Ok (Email_Verify_Refused reason remaining None), st)) in
                case outcome of
                  Otp_Unknown \<Rightarrow> refuse Code_Expired None
                | Otp_Expired \<Rightarrow> refuse Code_Expired None
                | Otp_Exhausted \<Rightarrow> refuse Attempts_Exhausted (Some 0)
                | Otp_Mismatch remaining \<Rightarrow> refuse Invalid_Code (Some remaining)
                | Otp_Verified challenge \<Rightarrow>
                    if cv_purpose challenge \<noteq> Otp_Sign_In then refuse Code_Expired None
                    else
                      (case email_sign_in (es_sessions svc) (cv_email challenge) named dw now (em_auth st) of
                         (answer, auth) \<Rightarrow>
                           (answer,
                            (case answer of
                               Ok (Email_Verified s created registered email) \<Rightarrow>
                                 st\<lparr>em_auth := auth,
                                   em_windows := reset_rate ''otp.start.email'' email (reset_rate ''otp.resend'' email (em_windows st))\<rparr>
                             | _ \<Rightarrow> st\<lparr>em_auth := auth\<rparr>))))))"

definition email_completeLink ::
  "email_service \<Rightarrow> principal \<Rightarrow> string \<Rightarrow> string \<Rightarrow> string \<Rightarrow> string \<Rightarrow> int \<Rightarrow> email_state \<Rightarrow> identity_row reply \<times> email_state" where
  "email_completeLink svc p challengeId code source new_id now st =
     (case email_consume svc ''otp.verify.source'' source verifyPerSource now st of
        (Rate_Refused wait full, st) \<Rightarrow> (Fail D_INVALID_ARGUMENT, st)
      | (Rate_Allowed left, st) \<Rightarrow>
          (case attempt_otp (es_otp svc) challengeId (if isOtpShape code then code else []) now (em_challenges st) of
             (outcome, cs) \<Rightarrow>
               (let st = st\<lparr>em_challenges := cs\<rparr> in
                case outcome of
                  Otp_Verified challenge \<Rightarrow>
                    if cv_purpose challenge \<noteq> Otp_Link then (Fail D_INVALID_ARGUMENT, st)
                    else if cv_abaUserId challenge \<noteq> Some (pr_user p) then (Fail D_INVALID_ARGUMENT, st)
                    else
                      (case attachIdentity p (email_credential (cv_email challenge)) new_id now (em_auth st) of
                         (Ok r, auth) \<Rightarrow>
                           (Ok r, st\<lparr>em_auth := auth, em_windows := reset_rate ''otp.start.email'' (cv_email challenge)
                             (reset_rate ''otp.resend'' (cv_email challenge) (em_windows st))\<rparr>)
                       | (answer, auth) \<Rightarrow> (answer, st\<lparr>em_auth := auth\<rparr>))
                | _ \<Rightarrow> (Fail D_INVALID_ARGUMENT, st))))"

definition email_sweep :: "int \<Rightarrow> email_state \<Rightarrow> nat \<times> email_state" where
  "email_sweep now st = (case pruneExpired now (em_challenges st) of (n, cs) \<Rightarrow> (n, st\<lparr>em_challenges := cs\<rparr>))"

subsection \<open>What a redeemed code gives\<close>

lemma attempt_verified_row:
  assumes "attempt_otp opts i code now cs = (Otp_Verified v, cs')"
  obtains c where "map_of cs i = Some c" "now < cv_expiresAt c" "otpMatches code (cv_code c)"
    "cv_purpose v = cv_purpose c" "cv_email v = cv_email c" "cv_abaUserId v = cv_abaUserId c" "cs' = AList.delete i cs"
    "cv_attempts c < oo_maxAttempts opts"
  using assms
  by (auto simp: attempt_otp_def Let_def otp_view_def challenge_view.defs split: option.splits if_splits)

lemma attempt_gone: "attempt_otp opts i code now cs = (Otp_Verified v, cs') \<Longrightarrow> map_of cs' i = None"
  by (erule attempt_verified_row) (simp add: delete_conv')

lemma live_account_Ok: "live_account i st = Ok u \<Longrightarrow> ur_id u = i \<and> ur_state u = AccountActive"
  by (cases "ur_state u") (auto simp: live_account_def getUser_def find_Some_iff split: option.splits if_splits)

lemma createSession_auth:
  "createSession svc user ident family sid token now st = (r, st') \<Longrightarrow> st_identities st' = st_identities st \<and>
    (\<forall>s. r = Ok s \<longrightarrow> is_user s = user)"
  by (auto simp: createSession_def Let_def issued_def fresh_session_def dest: insertSession_result
      split: reply.splits if_splits sum.splits option.splits)

lemma createAccount_identities: "createAccount i now st = (r, st') \<Longrightarrow> st_identities st' = st_identities st"
  by (auto simp: createAccount_def insertUser_def Let_def split: sum.splits if_splits)

lemma store_revoke_identities [simp]: "st_identities (store_revokeSession i t why st) = st_identities st"
  by (simp add: store_revokeSession_def split: option.split)

lemma verified_email_matching: "findIdentityByVerifiedEmail EmailIdentity email st = matching (email_credential email) st"
  by (simp add: matching_def email_credential_def)

lemma matching_identities: "st_identities a = st_identities b \<Longrightarrow> matching v a = matching v b"
  by (simp add: matching_def findIdentityBySubject_def findIdentityByVerifiedEmail_def split: option.split)

lemma resolveAccount_Ok:
  assumes "resolveAccount svc email dw now st = (Ok (user, ident), st')"
  shows "\<exists>r. matching (email_credential email) st' = Some r \<and> ir_user r = user \<and> ir_id r = ident"
proof (cases "matching (email_credential email) st")
  case (Some r)
  then show ?thesis
    using assms by (auto simp: resolveAccount_def verified_email_matching split: reply.splits dest: live_account_Ok)
next
  case None
  obtain account st1 where 1: "createAccount (ed_user dw) now st = (Ok account, st1)"
    using assms None by (auto simp: resolveAccount_def verified_email_matching split: prod.splits reply.splits)
  obtain s st2 where 2: "createSession svc (ur_id account) None (ed_bootFamily dw) (ed_bootSession dw) (ed_bootToken dw) now st1 = (Ok s, st2)"
    using assms None 1 by (auto simp: resolveAccount_def verified_email_matching split: prod.splits reply.splits)
  obtain p where 3: "verify_session (is_session s) now st2 = Ok p"
    using assms None 1 2 by (auto simp: resolveAccount_def verified_email_matching split: reply.splits)
  obtain r st3 where 4: "attachIdentity p (email_credential email) (ed_identity dw) now st2 = (Ok r, st3)"
    using assms None 1 2 3 by (auto simp: resolveAccount_def verified_email_matching split: prod.splits reply.splits)
  have end_state: "user = ur_id account" "ident = ir_id r" "st' = store_revokeSession (pr_session p) now ''bootstrap'' st3"
    using assms None 1 2 3 4 by (auto simp: resolveAccount_def verified_email_matching)
  have owner: "pr_user p = ur_id account"
  proof -
    have "is_session s = ed_bootSession dw" "get_session_row (ed_bootSession dw) st2 = Some (fresh_session svc (ur_id account) None
        (ed_bootFamily dw) (ed_bootSession dw) (ed_bootToken dw) now)"
      using 2 by (auto simp: createSession_def Let_def issued_def fresh_session_def get_session_row_append dest!: insertSession_result
          split: reply.splits sum.splits)
    then show ?thesis using 3 by (auto simp: verify_session_def principalFromSession_def fresh_session_def split: if_splits option.splits)
  qed
  have fresh: "matching (email_credential email) st2 = None"
    using None createAccount_identities [OF 1] createSession_auth [OF 2] matching_identities [of st2 st] by simp
  from 4 have "matching (email_credential email) st3 = Some r \<and> ir_user r = pr_user p"
  proof (cases rule: attach_cases)
    case 1
    then show ?thesis using fresh by simp
  next
    case 2
    have "ir_user r = pr_user p" by (simp add: 2(3) linked_row_def)
    then show ?thesis using fresh 2 by (simp add: matching_append matching_own)
  qed
  then show ?thesis using end_state owner matching_identities [of st' st3] by simp
qed

lemma touch_matching:
  "matching v (touchIdentity i t st) = map_option (\<lambda>r. if ir_id r = i then r\<lparr>ir_last_used_at := Some t\<rparr> else r) (matching v st)"
proof -
  have "List.find P (map f rows) = map_option f (List.find P rows)" if "\<And>r. P (f r) = P r" for P and f :: "identity_row \<Rightarrow> identity_row" and rows
    by (induction rows) (auto simp: that)
  then show ?thesis
    by (auto simp: matching_def findIdentityBySubject_def findIdentityByVerifiedEmail_def touchIdentity_def split: option.split)
qed

lemma registerDevice_identities: "st_identities (snd (registerDevice p d now st)) = st_identities st"
  by (auto simp: registerDevice_def store_touchDevice_def with_device_def insertDevice_def Let_def split: reply.split sum.splits if_splits)

lemma email_device_identities: "st_identities (snd (email_registerDevice sid named now st)) = st_identities st"
  by (auto simp: email_registerDevice_def registerDevice_identities case_prod_beta split: option.split reply.split)

lemma sign_in_Ok:
  assumes "email_sign_in svc email named dw now st = (Ok (Email_Verified s created registered address), st')"
  shows "address = email \<and> (\<exists>r. matching (email_credential email) st' = Some r \<and> ir_user r = is_user s)"
proof -
  obtain user ident st1 where 1: "resolveAccount svc email dw now st = (Ok (user, ident), st1)"
    using assms by (auto simp: email_sign_in_def Let_def split: prod.splits reply.splits)
  obtain s' st2 where 2: "createSession svc user (Some ident) (ed_family dw) (ed_session dw) (ed_token dw) now st1 = (Ok s', st2)"
    using assms 1 by (auto simp: email_sign_in_def Let_def split: prod.splits reply.splits)
  let ?st3 = "case getIdentity ident st2 of None \<Rightarrow> st2 | Some r \<Rightarrow> touchIdentity (ir_id r) now st2"
  have 3: "s = s'" "address = email" "st' = snd (email_registerDevice (is_session s') named now ?st3)"
    using assms 1 2 by (auto simp: email_sign_in_def Let_def split: prod.splits)
  obtain r where "matching (email_credential email) st1 = Some r" "ir_user r = user" using resolveAccount_Ok [OF 1] by blast
  then have "matching (email_credential email) st2 = Some r" using createSession_auth [OF 2] matching_identities [of st2 st1] by simp
  then have "\<exists>r'. matching (email_credential email) ?st3 = Some r' \<and> ir_user r' = user"
    using \<open>ir_user r = user\<close> by (simp add: touch_matching split: option.split)
  then have "\<exists>r'. matching (email_credential email) st' = Some r' \<and> ir_user r' = user"
    using matching_identities [of st' ?st3] email_device_identities by (simp add: 3(3))
  then show ?thesis using createSession_auth [OF 2] 3 by simp
qed

text \<open>
  C13. A code signs in only whoever it was sent to. A verification that yields a session compared the presented code
  with the code of an open sign-in challenge that had tries left; the challenge is gone afterwards; and the session
  belongs to the account that the challenge's address, as a verified identity, resolves to from then on.
\<close>

theorem email_code_signs_in_owner:
  assumes "email_verify svc i code source named dw now st = (Ok (Email_Verified s created registered email), st')"
  shows "\<exists>c. map_of (em_challenges st) i = Some c \<and> cv_purpose c = Otp_Sign_In \<and> cv_email c = email \<and> now < cv_expiresAt c \<and>
    cv_attempts c < oo_maxAttempts (es_otp svc) \<and> otpMatches code (cv_code c) \<and> map_of (em_challenges st') i = None \<and>
    (\<exists>r. findIdentityByVerifiedEmail EmailIdentity email (em_auth st') = Some r \<and> ir_user r = is_user s)"
proof -
  obtain left ws where 1: "email_consume svc ''otp.verify.source'' source verifyPerSource now st = (Rate_Allowed left, st\<lparr>em_windows := ws\<rparr>)"
    using assms by (auto simp: email_verify_def email_consume_def split: prod.splits rate_outcome.splits)
  let ?code = "if isOtpShape code then code else []"
  obtain v cs where 2: "attempt_otp (es_otp svc) i ?code now (em_challenges st) = (Otp_Verified v, cs)" "cv_purpose v = Otp_Sign_In"
    using assms 1 by (auto simp: email_verify_def Let_def split: prod.splits otp_attempt.splits if_splits)
  obtain auth where 3: "email_sign_in (es_sessions svc) (cv_email v) named dw now (em_auth st) = (Ok (Email_Verified s created registered email), auth)"
    "em_auth st' = auth" "em_challenges st' = cs"
    using assms 1 2 by (auto simp: email_verify_def Let_def split: prod.splits reply.splits email_verify_answer.splits)
  obtain c where c: "map_of (em_challenges st) i = Some c" "now < cv_expiresAt c" "otpMatches ?code (cv_code c)"
    "cv_purpose v = cv_purpose c" "cv_email v = cv_email c" "cv_attempts c < oo_maxAttempts (es_otp svc)"
    using 2(1) by (rule attempt_verified_row) blast
  have "otpMatches code (cv_code c)" using c(3) by (auto simp: otpMatches_def isOtpShape_def split: if_splits)
  then show ?thesis
    using c 2(2) 3(2,3) sign_in_Ok [OF 3(1)] attempt_gone [OF 2(1)] unfolding verified_email_matching by auto
qed

definition sample_email_service :: email_service where
  "sample_email_service =
     \<lparr>es_sessions = sample_service, es_limiterCapacity = 10, es_otp = \<lparr>oo_maxAttempts = MAX_OTP_ATTEMPTS, oo_capacity = OTP_CHALLENGE_CAPACITY\<rparr>,
      es_ttl = OTP_TTL_MS\<rparr>"

definition sample_email_state :: email_state where
  "sample_email_state =
     \<lparr>em_windows = [], em_challenges = [(''c'', otp_draft ''c'' ''p@x.y'' ''123456'' None 0 OTP_TTL_MS)],
      em_auth = empty_auth_store\<lparr>st_users := [sample_user ''u''], st_identities := [(sample_identity ''a'')
        \<lparr>ir_kind := EmailIdentity, ir_subject := None, ir_email := Some ''p@x.y'', ir_email_verified := True\<rparr>]\<rparr>\<rparr>"

definition sample_email_draws :: email_draws where
  "sample_email_draws =
     \<lparr>ed_user = ''n'', ed_bootFamily = ''bf'', ed_bootSession = ''bs'', ed_bootToken = ''bt'', ed_identity = ''i'', ed_family = ''f'',
      ed_session = ''s'', ed_token = ''t''\<rparr>"

definition sample_email_answer :: "email_verify_answer reply \<times> email_state" where
  "sample_email_answer = email_verify sample_email_service ''c'' ''123456'' ''ip'' None sample_email_draws 5 sample_email_state"

lemma email_code_signs_in_owner_witness:
  "\<exists>s. fst sample_email_answer = Ok (Email_Verified s True False ''p@x.y'') \<and> is_user s = ''u'' \<and>
    map_of (em_challenges (snd sample_email_answer)) ''c'' = None"
proof -
  have shape: "isOtpShape ''123456''" "otpMatches ''123456'' ''123456''" by code_simp+
  obtain s st' where answer: "sample_email_answer = (Ok (Email_Verified s True False ''p@x.y''), st')" "is_user s = ''u''"
    by (simp add: sample_email_answer_def email_verify_def email_consume_def consume_def sample_email_state_def sample_email_service_def
        sample_email_draws_def attempt_otp_def otp_draft_def otp_view_def challenge_view.defs shape email_sign_in_def resolveAccount_def
        findIdentityByVerifiedEmail_def live_account_def getUser_def createSession_def getIdentity_def sample_identity_def sample_user_def
        empty_auth_store_def insertSession_def get_session_row_def find_session_def findSessionByDigest_def fresh_session_def issued_def
        email_registerDevice_def MAX_OTP_ATTEMPTS_def OTP_TTL_MS_def OTP_CHALLENGE_CAPACITY_def verifyPerSource_def prune_def Let_def)
  have "map_of (em_challenges st') ''c'' = None"
    using email_code_signs_in_owner [OF answer(1) [unfolded sample_email_answer_def]] by blast
  moreover have "fst sample_email_answer = Ok (Email_Verified s True False ''p@x.y'')" "snd sample_email_answer = st'"
    by (simp_all only: answer(1) fst_conv snd_conv)
  ultimately show ?thesis using answer(2) by (intro exI [of _ s]) simp
qed

end
