(* ===== verification/Spec2Isabelle.thy ===== *)
theory Spec2Isabelle
  imports TaintSignature TaskStore ToolRegistry PersistenceHealth AgentRuntime TaskManager AuditLog ScheduleRunner
    GoogleExchange EmailAuth
begin

text \<open>
  A verification library for the AI Browser Agent: a browser extension (\<open>src/\<close>) whose background worker lets a
  language model act in the browser under the control of a policy, a person and an egress gate, and the server
  (\<open>server/\<close>) its users sign in to.

  The program and how its parts meet. A task is created, driven and ended by the task manager; the manager hands it to
  the agent runtime, a loop of model turns. A turn asks a provider over the guarded transport, checks the budget
  and the loop detector, and dispatches the calls of the answer through the tool registry. A dispatch consults the
  policy engine, the egress gate and the permission engine, runs the tool, redacts its result and adds what was
  read to the task's taint. Tasks, policy, schedules, audit records and the health of storage are stored in one area,
  through namespaces, a keyed mutex and record collections. Schedules start tasks without a person, with a claim of
  each occurrence, through the schedule runner. The server keeps accounts, identities, sessions and devices in
  a table engine under a declared schema, and signs people in through Google or an emailed code.

  The theories, each with the file it models.

  Foundations. Prelude: strings, JSON values, numbers and maps as the language has them. Interfaces: the contracts shared
  by several components, as locales: a scale of severities (interpreted for risk levels, permission modes, data
  sensitivities and storage health), a key-value store (the language's \<open>Map\<close>, the storage area, a namespace of it)
  and a machine with absorbing states (the task states). JsRegex: matching with backtracking order.

  Deciding. Origin (\<open>security/origin/origin-validator.ts\<close>), Risk (\<open>policy/risk-classifier.ts\<close>), SitePolicy
  (\<open>policy/site-policy.ts\<close>), Secrets and Redaction (\<open>security/redaction/secret-redactor.ts\<close>), Exfiltration
  (\<open>security/exfiltration/exfiltration-guard.ts\<close>), Taint and TaintSignature (\<open>security/taint/taint-state.ts\<close>), Plan
  (\<open>policy/plan-model.ts\<close>), Policy (\<open>policy/policy-engine.ts\<close>, the one long function as a chain of stages in the order
  of its returns), Permission (\<open>policy/permission-engine.ts\<close>, over the port to the stored policy, a locale) and
  WorkerPolicy (that port in \<open>background/service-worker.ts\<close>, its interpretation, and
  \<open>background/unattended-prompter.ts\<close>).

  Letting data out. Destination (\<open>security/egress/destination.ts\<close>, \<open>carrier.ts\<close>), Consent (\<open>consent.ts\<close>) and Egress
  (\<open>egress-gate.ts\<close>, \<open>provider-transport.ts\<close>).

  Running. Results (error codes, retries, budget), LoopDetector (\<open>agent/loop-detection\<close>), ContextBuilder
  (\<open>agent/context\<close>), ToolRegistry (\<open>tools/registry/tool-registry.ts\<close>: registration and the whole of \<open>dispatch\<close>) and
  AgentRuntime (\<open>agent/runtime/agent-runtime.ts\<close>). The runtime is a function from the state of a run and the world to a
  result, a new state and the events it caused; tools, provider, clock and callbacks are arguments that read the world.

  Keeping. Storage (\<open>storage/storage-area.ts\<close>, \<open>utils/keyed-mutex.ts\<close>), PersistenceHealth
  (\<open>storage/persistence-health.ts\<close>), RecordStore (\<open>storage/record-store.ts\<close>), RecordCollection (what a client of
  a record store relies on, a locale, interpreted for schedules and for their runs), TaskModel and TaskStore
  (\<open>tasks/\<close>, \<open>background/lifecycle-manager.ts\<close>), TaskManager (\<open>background/task-manager.ts\<close>, over the locale of a task's
  life, interpreted on its transitions), AuditBounds and AuditLog (\<open>audit/\<close>).

  Scheduling. Calendar (the arithmetic of \<open>Date\<close> over a time zone, a locale with fixed offsets and a zone with daylight
  saving as interpretations), ScheduleModel (\<open>schedules/schedule-model.ts\<close>), ScheduleClock (\<open>schedule-clock.ts\<close>),
  ScheduleStore (\<open>schedule-store.ts\<close>) and ScheduleRunner (\<open>background/schedule-runner.ts\<close>).

  The server. RateLimiter, Otp and OtpChallenges (\<open>app/rate-limiter.ts\<close>, \<open>otp.ts\<close>, \<open>otp-challenge-store.ts\<close>),
  ServerTable (\<open>db/schema.ts\<close> and the table engine of \<open>db/memory-store.ts\<close>), AuthStore (the store's operations on
  records), SessionTable (those operations are the engine's on the declared session table), Sessions
  (\<open>app/session-service.ts\<close>, \<open>account-service.ts\<close>, \<open>domain/authorization.ts\<close>), Identities (\<open>identity-service.ts\<close>,
  \<open>device-service.ts\<close>), GoogleExchange (\<open>google-auth-service.ts\<close>) and EmailAuth (\<open>email-auth-service.ts\<close>).

  State and time. An object with fields is a record, its methods are functions that return the new record. A method that
  awaits is one step where nothing it depends on can change in between (the storage area's mutex, the store's
  \<open>run\<close>), and otherwise a sequence of steps others may come between: the cycles of the keyed mutex, the two halves of a
  schedule's edit, what happens while a scheduled execution or a managed run is awaited (part of a trace that is an
  argument), a session rotation, an unlinking, an exchange. Times and random identifiers are arguments, one per read
  that can differ. A throw is a value: of an option, of a sum, or of an answer type with the source's refusals.

  What the lemmas show, by group.
  Tasks: what a stored task keeps under every operation, eviction included; that unhealthy storage starts nothing; that
  the runtime is reached only through its gates; that a pause holds; and where resuming before a paused run has ended
  goes wrong.
  Runs: every run ends within its budget and retries; it acts on the taint as last saved; what it reports as completed is.
  Dispatch: what executes was authorised, risky calls by a person, secrets stay in, and a refusal has no effect.
  Policy, permission, taint, plan: what an allowance and a grant rest on, and that taint only grows.
  Egress: what an allowed transfer rests on, one provider per task, and that the transport sends nothing but what the
  gate allowed; the loop detector finds a stuck agent and no other.
  Storage: cycles of a key exclude each other and none is lost; record stores are lists; upgrades keep records, and
  where they discard them; a reported fault blocks until it is acknowledged.
  Audit: the trail verifies after any history, and which tampering is noticed.
  Schedules: the next occurrence is exact; what is due is what went past; no occurrence is claimed or executed twice, and
  where an edit undoes that; outcomes agree everywhere, and where they do not; recovery leaves no run open.
  Server: a refresh token buys one rotation, reuse ends the family under every interleaving, a code buys one session
  when exchanges do not overlap, unlinking one at a time keeps a way in, a mailed code signs in whom it was sent
  to; and where overlapping exchanges and unlinkings break the last promises.

  Bounds and termination. All functions terminate by their recursion, with a measure where it is not structural (the
  canonical form and the redaction by depth, number printing by division, trimming by length, the model loop by the
  requests and retries left). Fuel is used where the source scans a string (the regular expressions: the length of the
  input plus one, more than any scan can use, since each step moves on) and where it counts (the calendar search takes
  the source's own 400 steps, and \<open>next_occurrence_exact\<close> shows they suffice). Integers of the language are taken as
  integers or rationals; the argument hash is computed at 32 bits. Dates have no upper end in the model; the source's end
  in the year 275760.

  What is not modelled. Text for people and log lines, unless a decision reads them. The platform: URL parsing, number
  printing, Unicode normalisation, digests and random numbers are parameters. Values are trees, so the source's care for
  cyclic values has no counterpart. The browser's own calls, tool bodies, provider adapters, connectors, MCP,
  workflows, skills, shortcuts, workspaces, user interface, HTTP routing, cryptography and the server's OpenID steps are
  outside the development.
\<close>

end
